(* ===== verification/Prelude.thy ===== *)
theory Prelude
  imports Main "HOL-Library.Word" "HOL-Library.Multiset"
begin

text \<open>
  What every component of the development shares: the names of the machine integer
  types, the collections of simplification and introduction rules the component proofs
  use, decimal printing (\<open>std::to_string\<close>), and two interfaces stated as locales:
  \<^item> \<open>step_system\<close>: a deterministic machine with an invariant that every operation
    keeps; its client lemma lifts the invariant to every run.
  \<^item> \<open>step_relation\<close>: the same for a relation (interleaved threads), over reachable
    states.
\<close>

section \<open>Machine integers\<close>

type_synonym u8 = "8 word"
type_synonym u32 = "32 word"
type_synonym u64 = "64 word"

named_theorems wf_intros \<open>operations keep their component's invariant\<close>
named_theorems op_defs \<open>definitions of the components' operations\<close>

text \<open>\<open>static_cast<int>\<close> of a 32-bit unsigned value, and back: two's complement.\<close>

definition int_of_u32 :: "u32 \<Rightarrow> int" where
  "int_of_u32 w = sint w"

definition u32_of_int :: "int \<Rightarrow> u32" where
  "u32_of_int i = word_of_int i"

definition u64_of_int :: "int \<Rightarrow> u64" where
  "u64_of_int i = word_of_int i"

definition u64_of_u32 :: "u32 \<Rightarrow> u64" where
  "u64_of_u32 w = ucast w"

definition u32_of_u64 :: "u64 \<Rightarrow> u32" where
  "u32_of_u64 w = ucast w"

lemma int_of_u32_of_int:
  "- 2147483648 \<le> i \<Longrightarrow> i < 2147483648 \<Longrightarrow> int_of_u32 (u32_of_int i) = i"
  by (simp add: int_of_u32_def u32_of_int_def sint_sbintrunc' signed_take_bit_int_eq_self)

lemma int_of_u32_range:
  "- 2147483648 \<le> int_of_u32 w \<and> int_of_u32 w < 2147483648"
  using sint_ge [of w] sint_less [of w] by (simp add: int_of_u32_def)

lemma int_of_u32_nonneg_unat:
  assumes "0 \<le> int_of_u32 w"
  shows "int_of_u32 w = int (unat w)"
proof -
  have "uint w = uint (word_of_int (sint w) :: u32)" by simp
  also have "\<dots> = sint w mod 2 ^ 32" by (simp only: uint_word_of_int) simp
  also have "\<dots> = sint w"
    using assms int_of_u32_range [of w] by (simp add: int_of_u32_def)
  finally show ?thesis by (simp add: int_of_u32_def flip: uint_nat)
qed

lemma unat_u32_of_int:
  "0 \<le> i \<Longrightarrow> i < 4294967296 \<Longrightarrow> unat (u32_of_int i) = nat i"
  by (simp add: u32_of_int_def unat_eq_nat_uint uint_word_of_int)

lemma unat_u64_of_int:
  "0 \<le> i \<Longrightarrow> i < 18446744073709551616 \<Longrightarrow> unat (u64_of_int i) = nat i"
  by (simp add: u64_of_int_def unat_eq_nat_uint uint_word_of_int)

lemma unat_u64_of_u32 [simp]: "unat (u64_of_u32 w) = unat w"
proof -
  have "unat w < 4294967296" using unsigned_less [of w]  by simp
  then show ?thesis by (simp add: u64_of_u32_def unsigned_ucast_eq take_bit_nat_eq_self_iff take_bit_eq_mod)
qed

lemma unat_u32_of_u64: "unat (u32_of_u64 w) = unat w mod 4294967296"
  by (simp add: u32_of_u64_def unsigned_ucast_eq take_bit_nat_eq_self_iff take_bit_eq_mod)

lemma unat_u32_bound: "unat (w :: u32) < 4294967296"
  using unsigned_less [of w]  by simp

lemma unat_u64_bound: "unat (w :: u64) < 18446744073709551616"
  using unsigned_less [of w]  by simp

lemma unat_u64_add:
  "unat (a :: u64) + unat b < 18446744073709551616 \<Longrightarrow> unat (a + b) = unat a + unat b"
  by (simp add: unat_word_ariths)

lemma unat_u64_mult:
  "unat (a :: u64) * unat b < 18446744073709551616 \<Longrightarrow> unat (a * b) = unat a * unat b"
  by (simp add: unat_word_ariths)

section \<open>Decimal printing\<close>

text \<open>
  \<open>std::to_string\<close> and the stream inserters on integers print the decimal digits without
  leading zeros, after a minus sign for a negative value.
\<close>

definition dec_digit :: "nat \<Rightarrow> char" where
  "dec_digit d = char_of (48 + d)"

fun dec_nat :: "nat \<Rightarrow> string" where
  "dec_nat n = (if n < 10 then [dec_digit n] else dec_nat (n div 10) @ [dec_digit (n mod 10)])"

declare dec_nat.simps [simp del]

definition dec_int :: "int \<Rightarrow> string" where
  "dec_int i = (if i < 0 then ''-'' @ dec_nat (nat (- i)) else dec_nat (nat i))"

definition read_digit :: "char \<Rightarrow> nat" where
  "read_digit c = of_char c - 48"

definition read_nat :: "string \<Rightarrow> nat" where
  "read_nat s = foldl (\<lambda>acc c. 10 * acc + read_digit c) 0 s"

definition is_digit :: "char \<Rightarrow> bool" where
  "is_digit c \<longleftrightarrow> (48::nat) \<le> of_char c \<and> of_char c < (58::nat)"

lemma of_char_dec_digit: "d < 10 \<Longrightarrow> (of_char (dec_digit d) :: nat) = 48 + d"
  by (simp add: dec_digit_def)

lemma read_dec_digit [simp]: "d < 10 \<Longrightarrow> read_digit (dec_digit d) = d"
  by (simp add: read_digit_def of_char_dec_digit)

lemma is_digit_dec_digit: "d < 10 \<Longrightarrow> is_digit (dec_digit d)"
  by (simp add: is_digit_def of_char_dec_digit)

lemma read_nat_dec_nat: "read_nat (dec_nat n) = n"
proof (induction n rule: dec_nat.induct)
  case (1 n)
  show ?case
  proof (cases "n < 10")
    case True
    then show ?thesis by (subst dec_nat.simps) (simp add: read_nat_def)
  next
    case False
    with 1 have "read_nat (dec_nat (n div 10)) = n div 10" by simp
    with False show ?thesis by (subst dec_nat.simps) (simp add: read_nat_def)
  qed
qed

lemma dec_nat_digits: "c \<in> set (dec_nat n) \<Longrightarrow> is_digit c"
proof (induction n arbitrary: c rule: dec_nat.induct)
  case (1 n)
  show ?case
  proof (cases "n < 10")
    case True
    with 1(2) show ?thesis by (subst (asm) dec_nat.simps) (simp add: is_digit_dec_digit)
  next
    case False
    with 1 show ?thesis
      by (subst (asm) dec_nat.simps [of n]) (auto simp: is_digit_dec_digit)
  qed
qed

lemma dec_nat_nonempty [simp]: "dec_nat n \<noteq> []"
  by (subst dec_nat.simps) simp

lemma dec_nat_inject: "dec_nat m = dec_nat n \<longleftrightarrow> m = n"
  by (metis read_nat_dec_nat)

lemma not_digit_minus: "\<not> is_digit (CHR ''-'')"
  by (simp add: is_digit_def)

lemma hd_dec_nat: "is_digit (hd (dec_nat n))"
  by (rule dec_nat_digits [of _ n]) simp

lemma dec_int_inject: "dec_int i = dec_int j \<longleftrightarrow> i = j"
proof -
  have neg: "dec_nat n \<noteq> ''-'' @ s" for n s
    using hd_dec_nat [of n] not_digit_minus by (metis append_Cons list.sel(1))
  show ?thesis
    using neg by (auto simp: dec_int_def dec_nat_inject) (metis append_Cons self_append_conv2)+
qed

section \<open>Interfaces: invariants of machines\<close>

text \<open>A machine run over a list of operations, one after the other.\<close>

locale step_system =
  fixes step :: "'s \<Rightarrow> 'o \<Rightarrow> 's"
    and inv :: "'s \<Rightarrow> bool"
  assumes step_inv: "inv s \<Longrightarrow> inv (step s x)"
begin

lemma run_inv: "inv s \<Longrightarrow> inv (foldl step s xs)"
  by (induction xs arbitrary: s) (auto intro: step_inv)

end

text \<open>
  A relation between states (threads that interleave): an invariant that holds initially
  and that every step keeps holds in every reachable state.
\<close>

locale step_relation =
  fixes init :: "'s \<Rightarrow> bool"
    and step :: "'s \<Rightarrow> 's \<Rightarrow> bool"
    and inv :: "'s \<Rightarrow> bool"
  assumes init_inv: "init s \<Longrightarrow> inv s"
    and step_inv: "inv s \<Longrightarrow> step s t \<Longrightarrow> inv t"
begin

lemma steps_inv: "step\<^sup>*\<^sup>* s t \<Longrightarrow> inv s \<Longrightarrow> inv t"
  by (induction rule: rtranclp_induct) (auto intro: step_inv)

lemma reach_inv: "init s \<Longrightarrow> step\<^sup>*\<^sup>* s t \<Longrightarrow> inv t"
  by (auto intro: steps_inv init_inv)

end

text \<open>
  A refinement: the detailed operations, seen through \<open>abs\<close>, are the operations of the
  abstract machine, so every run of the one is a run of the other.
\<close>

locale refinement = step_system step inv
  for step :: "'s \<Rightarrow> 'o \<Rightarrow> 's" and inv :: "'s \<Rightarrow> bool" +
  fixes abs :: "'s \<Rightarrow> 'a"
    and astep :: "'a \<Rightarrow> 'o \<Rightarrow> 'a"
  assumes step_refines: "inv s \<Longrightarrow> abs (step s x) = astep (abs s) x"
begin

lemma run_refines: "inv s \<Longrightarrow> abs (foldl step s xs) = foldl astep (abs s) xs"
  by (induction xs arbitrary: s) (auto simp: step_refines step_inv)

end

end
