(* ===== verification/Packets.thy ===== *)
theory Packets
  imports Prelude
begin

text \<open>
  The wire structures shared by the frame producer and the frame consumer
  (\<open>dmabuf_producer/types.h\<close>, \<open>dmabuf_consumer/types.h\<close>): the three packets with their
  magic numbers, their bytes in memory (the code sends the structs as they lie in memory:
  little endian, no padding, sizes fixed by \<open>static_assert\<close>), and \<open>DmaBufFd\<close>, the owner of
  a file descriptor. The interface \<open>byte_codec\<close> states what a fixed-width encoding
  promises; the stream lemmas are proved once inside it.
\<close>

section \<open>Bytes of integers\<close>

fun le_bytes :: "nat \<Rightarrow> nat \<Rightarrow> u8 list" where
  "le_bytes 0 n = []"
| "le_bytes (Suc k) n = word_of_nat (n mod 256) # le_bytes k (n div 256)"

fun le_value :: "u8 list \<Rightarrow> nat" where
  "le_value [] = 0"
| "le_value (b # bs) = unat b + 256 * le_value bs"

lemma length_le_bytes [simp]: "length (le_bytes k n) = k"
  by (induction k arbitrary: n) auto

lemma unat_byte: "n < 256 \<Longrightarrow> unat (word_of_nat n :: u8) = n"
  by (simp add: unsigned_of_nat take_bit_nat_eq_self)

lemma le_value_le_bytes: "n < 256 ^ k \<Longrightarrow> le_value (le_bytes k n) = n"
proof (induction k arbitrary: n)
  case 0
  then show ?case by simp
next
  case (Suc k)
  then have "n div 256 < 256 ^ k" by (simp add: less_mult_imp_div_less mult.commute)
  then have "le_value (le_bytes k (n div 256)) = n div 256" by (rule Suc.IH)
  then show ?case by (simp add: unat_byte)
qed

lemma le_bytes_le_value: "le_bytes (length bs) (le_value bs) = bs"
proof (induction bs)
  case Nil
  then show ?case by simp
next
  case (Cons b bs)
  have "unat b < 256" using unsigned_less [of b] by simp
  with Cons show ?case by simp
qed

lemma le_value_bound: "le_value bs < 256 ^ length bs"
proof (induction bs)
  case (Cons b bs)
  have "unat b < 256" using unsigned_less [of b] by simp
  with Cons show ?case by simp
qed simp

section \<open>Fixed-width encodings\<close>

text \<open>
  What a client of an encoding relies on: every value takes \<open>width\<close> bytes, reading back
  what was written gives the value, and every block of \<open>width\<close> bytes is the encoding of
  what it reads as.
\<close>

fun take_blocks :: "nat \<Rightarrow> (u8 list \<Rightarrow> 'a) \<Rightarrow> nat \<Rightarrow> u8 list \<Rightarrow> 'a list" where
  "take_blocks w d 0 bs = []"
| "take_blocks w d (Suc n) bs = d (take w bs) # take_blocks w d n (drop w bs)"

locale byte_codec =
  fixes enc :: "'a \<Rightarrow> u8 list"
    and dec :: "u8 list \<Rightarrow> 'a"
    and width :: nat
  assumes length_enc: "length (enc x) = width"
    and dec_enc: "dec (enc x) = x"
    and enc_dec: "length bs = width \<Longrightarrow> enc (dec bs) = bs"
begin

lemma enc_inject: "enc x = enc y \<longleftrightarrow> x = y"
  by (metis dec_enc)

lemma dec_prefix: "dec (take width (enc x @ rest)) = x"
  by (simp add: length_enc dec_enc)

lemma drop_prefix: "drop width (enc x @ rest) = rest"
  by (simp add: length_enc)

lemma blocks_stream:
  "take_blocks width dec (length xs) (concat (map enc xs) @ rest) = xs"
  by (induction xs) (auto simp: length_enc dec_enc)

end

definition enc_u32 :: "u32 \<Rightarrow> u8 list" where
  "enc_u32 w = le_bytes 4 (unat w)"

definition dec_u32 :: "u8 list \<Rightarrow> u32" where
  "dec_u32 bs = word_of_nat (le_value (take 4 bs))"

definition enc_u64 :: "u64 \<Rightarrow> u8 list" where
  "enc_u64 w = le_bytes 8 (unat w)"

definition dec_u64 :: "u8 list \<Rightarrow> u64" where
  "dec_u64 bs = word_of_nat (le_value (take 8 bs))"

lemma length_enc_u32 [simp]: "length (enc_u32 w) = 4"
  by (simp add: enc_u32_def)

lemma length_enc_u64 [simp]: "length (enc_u64 w) = 8"
  by (simp add: enc_u64_def)

lemma dec_enc_u32 [simp]: "dec_u32 (enc_u32 w @ rest) = w"
  using unat_u32_bound [of w]
  by (simp add: dec_u32_def enc_u32_def le_value_le_bytes)

lemma dec_enc_u64 [simp]: "dec_u64 (enc_u64 w @ rest) = w"
  using unat_u64_bound [of w]
  by (simp add: dec_u64_def enc_u64_def le_value_le_bytes)

lemma enc_dec_u32: "4 \<le> length bs \<Longrightarrow> enc_u32 (dec_u32 bs) = take 4 bs"
proof -
  assume "4 \<le> length bs"
  then have len: "length (take 4 bs) = 4" by simp
  have "le_value (take 4 bs) < 2 ^ 32"
    using le_value_bound [of "take 4 bs"] unfolding len by simp
  then show ?thesis
    using le_bytes_le_value [of "take 4 bs"] unfolding len
    by (simp add: dec_u32_def enc_u32_def unsigned_of_nat take_bit_nat_eq_self)
qed

lemma enc_dec_u64: "8 \<le> length bs \<Longrightarrow> enc_u64 (dec_u64 bs) = take 8 bs"
proof -
  assume "8 \<le> length bs"
  then have len: "length (take 8 bs) = 8" by simp
  have "le_value (take 8 bs) < 2 ^ 64"
    using le_value_bound [of "take 8 bs"] unfolding len by simp
  then show ?thesis
    using le_bytes_le_value [of "take 8 bs"] unfolding len
    by (simp add: dec_u64_def enc_u64_def unsigned_of_nat take_bit_nat_eq_self)
qed

interpretation c_u32: byte_codec enc_u32 dec_u32 4
proof
  show "dec_u32 (enc_u32 x) = x" for x
    using dec_enc_u32 [of x "[]"] by simp
qed (simp_all add: enc_dec_u32)

interpretation c_u64: byte_codec enc_u64 dec_u64 8
proof
  show "dec_u64 (enc_u64 x) = x" for x
    using dec_enc_u64 [of x "[]"] by simp
qed (simp_all add: enc_dec_u64)

section \<open>The packets\<close>

datatype pixel_format = PIXEL_FMT_NV12 | PIXEL_FMT_RGB24

fun pixel_format_u32 :: "pixel_format \<Rightarrow> u32" where
  "pixel_format_u32 PIXEL_FMT_NV12 = 0"
| "pixel_format_u32 PIXEL_FMT_RGB24 = 1"

record task_packet =
  tp_magic :: u32
  tp_slot_index :: u32
  tp_width :: u32
  tp_height :: u32
  tp_channels :: u32
  tp_data_type :: u32
  tp_timestamp_ns :: u64

record release_packet =
  rp_magic :: u32
  rp_slot_index :: u32
  rp_status :: u32

record init_packet =
  ip_magic :: u32
  ip_slot_count :: u32
  ip_slot_stride :: u32
  ip_buffer_size :: u32
  ip_width :: u32
  ip_height :: u32
  ip_channels :: u32
  ip_data_type :: u32

definition IQ9_TASK_MAGIC :: u32 where
  "IQ9_TASK_MAGIC = 0x49513941"

definition IQ9_RELEASE_MAGIC :: u32 where
  "IQ9_RELEASE_MAGIC = 0x49513942"

definition IQ9_INIT_MAGIC :: u32 where
  "IQ9_INIT_MAGIC = 0x49513943"

lemmas magic_defs = IQ9_TASK_MAGIC_def IQ9_RELEASE_MAGIC_def IQ9_INIT_MAGIC_def

definition task_packet_bytes :: "task_packet \<Rightarrow> u8 list" where
  "task_packet_bytes p = enc_u32 (tp_magic p) @ enc_u32 (tp_slot_index p) @
     enc_u32 (tp_width p) @ enc_u32 (tp_height p) @ enc_u32 (tp_channels p) @
     enc_u32 (tp_data_type p) @ enc_u64 (tp_timestamp_ns p)"

definition task_packet_of_bytes :: "u8 list \<Rightarrow> task_packet" where
  "task_packet_of_bytes bs =
     \<lparr>tp_magic = dec_u32 bs, tp_slot_index = dec_u32 (drop 4 bs),
      tp_width = dec_u32 (drop 8 bs), tp_height = dec_u32 (drop 12 bs),
      tp_channels = dec_u32 (drop 16 bs), tp_data_type = dec_u32 (drop 20 bs),
      tp_timestamp_ns = dec_u64 (drop 24 bs)\<rparr>"

definition release_packet_bytes :: "release_packet \<Rightarrow> u8 list" where
  "release_packet_bytes p = enc_u32 (rp_magic p) @ enc_u32 (rp_slot_index p) @
     enc_u32 (rp_status p)"

definition release_packet_of_bytes :: "u8 list \<Rightarrow> release_packet" where
  "release_packet_of_bytes bs =
     \<lparr>rp_magic = dec_u32 bs, rp_slot_index = dec_u32 (drop 4 bs),
      rp_status = dec_u32 (drop 8 bs)\<rparr>"

definition init_packet_bytes :: "init_packet \<Rightarrow> u8 list" where
  "init_packet_bytes p = enc_u32 (ip_magic p) @ enc_u32 (ip_slot_count p) @
     enc_u32 (ip_slot_stride p) @ enc_u32 (ip_buffer_size p) @ enc_u32 (ip_width p) @
     enc_u32 (ip_height p) @ enc_u32 (ip_channels p) @ enc_u32 (ip_data_type p)"

definition init_packet_of_bytes :: "u8 list \<Rightarrow> init_packet" where
  "init_packet_of_bytes bs =
     \<lparr>ip_magic = dec_u32 bs, ip_slot_count = dec_u32 (drop 4 bs),
      ip_slot_stride = dec_u32 (drop 8 bs), ip_buffer_size = dec_u32 (drop 12 bs),
      ip_width = dec_u32 (drop 16 bs), ip_height = dec_u32 (drop 20 bs),
      ip_channels = dec_u32 (drop 24 bs), ip_data_type = dec_u32 (drop 28 bs)\<rparr>"

lemma dec_enc_u32_at [simp]:
  "length xs = n \<Longrightarrow> dec_u32 (drop n (xs @ enc_u32 w @ rest)) = w"
  by simp

lemma dec_enc_u32_end [simp]: "dec_u32 (enc_u32 w) = w"
  by (rule c_u32.dec_enc)

lemma dec_enc_u64_end [simp]: "dec_u64 (enc_u64 w) = w"
  by (rule c_u64.dec_enc)

lemma take_add_drop: "take n xs @ take m (drop n xs) = take (n + m) xs"
  by (simp add: take_add)

interpretation c_task: byte_codec task_packet_bytes task_packet_of_bytes 32
proof
  fix p :: task_packet and bs :: "u8 list"
  show "length (task_packet_bytes p) = 32"
    by (simp add: task_packet_bytes_def)
  show "task_packet_of_bytes (task_packet_bytes p) = p"
    by (simp add: task_packet_of_bytes_def task_packet_bytes_def)
  show "task_packet_bytes (task_packet_of_bytes bs) = bs" if "length bs = 32"
    using that
    by (simp add: task_packet_of_bytes_def task_packet_bytes_def enc_dec_u32 enc_dec_u64
        take_add [symmetric] flip: append_assoc)
qed

interpretation c_release: byte_codec release_packet_bytes release_packet_of_bytes 12
proof
  fix p :: release_packet and bs :: "u8 list"
  show "length (release_packet_bytes p) = 12"
    by (simp add: release_packet_bytes_def)
  show "release_packet_of_bytes (release_packet_bytes p) = p"
    by (simp add: release_packet_of_bytes_def release_packet_bytes_def)
  show "release_packet_bytes (release_packet_of_bytes bs) = bs" if "length bs = 12"
    using that
    by (simp add: release_packet_of_bytes_def release_packet_bytes_def enc_dec_u32
        take_add [symmetric] flip: append_assoc)
qed

interpretation c_init: byte_codec init_packet_bytes init_packet_of_bytes 32
proof
  fix p :: init_packet and bs :: "u8 list"
  show "length (init_packet_bytes p) = 32"
    by (simp add: init_packet_bytes_def)
  show "init_packet_of_bytes (init_packet_bytes p) = p"
    by (simp add: init_packet_of_bytes_def init_packet_bytes_def)
  show "init_packet_bytes (init_packet_of_bytes bs) = bs" if "length bs = 32"
    using that
    by (simp add: init_packet_of_bytes_def init_packet_bytes_def enc_dec_u32
        take_add [symmetric] flip: append_assoc)
qed

text \<open>
  The three structs that cross the process boundary have the sizes the code asserts
  (32, 12 and 32 bytes), a receiver that copies the bytes of a sender's struct reads the
  sender's field values, and any block of that size is the image of exactly one packet.
\<close>

theorem packet_layout_roundtrip:
  "length (task_packet_bytes t) = 32 \<and> length (release_packet_bytes r) = 12 \<and>
   length (init_packet_bytes i) = 32 \<and>
   task_packet_of_bytes (task_packet_bytes t) = t \<and>
   release_packet_of_bytes (release_packet_bytes r) = r \<and>
   init_packet_of_bytes (init_packet_bytes i) = i \<and>
   inj task_packet_bytes \<and> inj release_packet_bytes \<and> inj init_packet_bytes"
  by (simp add: c_task.length_enc c_release.length_enc c_init.length_enc c_task.dec_enc
      c_release.dec_enc c_init.dec_enc inj_on_def c_task.enc_inject c_release.enc_inject
      c_init.enc_inject)

section \<open>Owned file descriptors\<close>

text \<open>
  \<open>DmaBufFd\<close> owns a descriptor (-1: none). What a run asks of the operating system is
  recorded as a list of events, so that "every descriptor is closed once" can be stated.
\<close>

datatype os_event = Close int | Munmap u64 u64 | Unlink string

type_synonym dma_buf_fd = int

definition fd_reset :: "dma_buf_fd \<Rightarrow> dma_buf_fd \<times> os_event list" where
  "fd_reset fd = (if 0 \<le> fd then (- 1, [Close fd]) else (fd, []))"

definition fd_move_assign ::
  "dma_buf_fd \<Rightarrow> dma_buf_fd \<Rightarrow> dma_buf_fd \<times> dma_buf_fd \<times> os_event list" where
  "fd_move_assign this o_fd = (o_fd, - 1, snd (fd_reset this))"

definition fd_move :: "dma_buf_fd \<Rightarrow> dma_buf_fd \<times> dma_buf_fd" where
  "fd_move o_fd = (o_fd, - 1)"

definition fd_release :: "dma_buf_fd \<Rightarrow> int \<times> dma_buf_fd" where
  "fd_release fd = (fd, - 1)"

definition fd_valid :: "dma_buf_fd \<Rightarrow> bool" where
  "fd_valid fd \<longleftrightarrow> 0 \<le> fd"

lemmas fd_defs = fd_reset_def fd_move_assign_def fd_move_def fd_release_def fd_valid_def

lemma fd_reset_invalid [simp]: "\<not> 0 \<le> fd \<Longrightarrow> fd_reset fd = (fd, [])"
  by (simp add: fd_reset_def)

lemma fd_reset_twice: "fd_reset (fst (fd_reset fd)) = (fst (fd_reset fd), [])"
  by (simp add: fd_reset_def)

end
