(* ===== verification/SlotPool.thy ===== *)
theory SlotPool
  imports Packets
begin

text \<open>
  The pool of frame slots in one shared DMA buffer (\<open>frame_cache/src/slot_pool.cpp\<close>): its
  state, \<open>Init\<close> with every error path, \<open>Shutdown\<close>, the four slot transitions and the
  getters; the invariant of the pool; the ownership model it refines (every slot is free,
  being written, or in flight) and the windows of the slots in the buffer.
\<close>

section \<open>State\<close>

datatype slot_state = IDLE | IN_USE | ON_FLIGHT

record slot =
  slot_offset :: u64
  slot_st :: slot_state

record slot_pool =
  slots :: "slot list"
  shared_fd :: dma_buf_fd
  base_ptr :: "u64 option"
  slot_stride :: u64
  buffer_size :: u64
  num_slots :: int
  initialized :: bool

definition kMaxSlots :: int where
  "kMaxSlots = 32"

definition slot_pool_new :: slot_pool where
  "slot_pool_new = \<lparr>slots = [], shared_fd = - 1, base_ptr = None, slot_stride = 0,
     buffer_size = 0, num_slots = 0, initialized = False\<rparr>"

section \<open>Init and Shutdown\<close>

text \<open>
  What the operating system answers: opening a heap device by its path (negative on
  failure), the allocation of a DMA buffer of a size (its descriptor), and mapping it.
\<close>

record heap_env =
  env_open :: "string \<Rightarrow> int"
  env_alloc :: "u64 \<Rightarrow> int option"
  env_mmap :: "u64 \<Rightarrow> int \<Rightarrow> u64 option"

datatype pool_error =
    AlreadyInitialized
  | InvalidNumSlots int
  | HeapOpenFailed string
  | ZeroSlotStride
  | BufferSizeOverflow
  | AllocFailed u64
  | MmapFailed u64

definition fallback_heap :: string where
  "fallback_heap = ''/dev/dma_heap/system''"

definition open_heap :: "heap_env \<Rightarrow> string \<Rightarrow> int" where
  "open_heap env path =
     (let fd = env_open env path in if fd < 0 then env_open env fallback_heap else fd)"

definition layout_slots :: "u64 \<Rightarrow> int \<Rightarrow> slot list" where
  "layout_slots stride n =
     map (\<lambda>i. \<lparr>slot_offset = word_of_nat i * stride, slot_st = IDLE\<rparr>) [0..<nat n]"

definition pool_init ::
  "heap_env \<Rightarrow> string \<Rightarrow> u64 \<Rightarrow> int \<Rightarrow> slot_pool \<Rightarrow>
     (pool_error + unit) \<times> slot_pool \<times> os_event list" where
  "pool_init env heap_path stride n p =
     (if initialized p then (Inl AlreadyInitialized, p, [])
      else if n \<le> 0 \<or> n > kMaxSlots then (Inl (InvalidNumSlots n), p, [])
      else
        let heap_fd = open_heap env heap_path in
        if heap_fd < 0 then (Inl (HeapOpenFailed heap_path), p, [])
        else if stride = 0 then (Inl ZeroSlotStride, p, [Close heap_fd])
        else
          let size = stride * word_of_int n in
          if size div word_of_int n \<noteq> stride
          then (Inl BufferSizeOverflow, p, [Close heap_fd])
          else
            (case env_alloc env size of
               None \<Rightarrow> (Inl (AllocFailed size), p, [Close heap_fd])
             | Some fd \<Rightarrow>
                 (case env_mmap env size fd of
                    None \<Rightarrow> (Inl (MmapFailed size), p, [Close fd, Close heap_fd])
                  | Some ptr \<Rightarrow>
                      let (fd', _, closes) = fd_move_assign (shared_fd p) fd in
                      (Inr (),
                       p\<lparr>slots := layout_slots stride n, shared_fd := fd', base_ptr := Some ptr,
                         slot_stride := stride, buffer_size := size, num_slots := n,
                         initialized := True\<rparr>,
                       closes @ [Close heap_fd]))))"

definition pool_shutdown :: "slot_pool \<Rightarrow> slot_pool \<times> os_event list" where
  "pool_shutdown p =
     (let unmaps = (case base_ptr p of
                      Some ptr \<Rightarrow> if 0 < buffer_size p then [Munmap ptr (buffer_size p)] else []
                    | None \<Rightarrow> []);
          (fd', closes) = fd_reset (shared_fd p)
      in (p\<lparr>slots := [], shared_fd := fd', base_ptr := None, slot_stride := 0,
            buffer_size := 0, num_slots := 0, initialized := False\<rparr>,
          unmaps @ closes))"

section \<open>The slot transitions\<close>

text \<open>\<open>AcquireSlot\<close> scans from slot 0 and takes the first idle one; -1 if there is none.\<close>

fun first_idle :: "int \<Rightarrow> slot list \<Rightarrow> int" where
  "first_idle i [] = - 1"
| "first_idle i (s # ss) = (if slot_st s = IDLE then i else first_idle (i + 1) ss)"

definition set_state :: "slot_pool \<Rightarrow> int \<Rightarrow> slot_state \<Rightarrow> slot_pool" where
  "set_state p i st =
     p\<lparr>slots := (slots p)[nat i := (slots p ! nat i)\<lparr>slot_st := st\<rparr>]\<rparr>"

definition acquire_slot :: "slot_pool \<Rightarrow> int \<times> slot_pool" where
  "acquire_slot p =
     (let i = first_idle 0 (take (nat (num_slots p)) (slots p))
      in if i < 0 then (- 1, p) else (i, set_state p i IN_USE))"

definition in_range :: "slot_pool \<Rightarrow> int \<Rightarrow> bool" where
  "in_range p i \<longleftrightarrow> \<not> (i < 0 \<or> i \<ge> num_slots p)"

definition submit_slot :: "slot_pool \<Rightarrow> int \<Rightarrow> bool \<times> slot_pool" where
  "submit_slot p i =
     (if \<not> in_range p i then (False, p)
      else if slot_st (slots p ! nat i) \<noteq> IN_USE then (False, p)
      else (True, set_state p i ON_FLIGHT))"

definition release_slot :: "slot_pool \<Rightarrow> int \<Rightarrow> bool \<times> slot_pool" where
  "release_slot p i =
     (if \<not> in_range p i then (False, p)
      else if slot_st (slots p ! nat i) \<noteq> ON_FLIGHT then (False, p)
      else (True, set_state p i IDLE))"

definition revert_slot :: "slot_pool \<Rightarrow> int \<Rightarrow> bool \<times> slot_pool" where
  "revert_slot p i =
     (if \<not> in_range p i then (False, p)
      else if slot_st (slots p ! nat i) \<noteq> IN_USE then (False, p)
      else (True, set_state p i IDLE))"

section \<open>The getters\<close>

definition get_slot_ptr :: "slot_pool \<Rightarrow> int \<Rightarrow> u64 option" where
  "get_slot_ptr p i =
     (if \<not> in_range p i then None
      else case base_ptr p of
             None \<Rightarrow> None
           | Some base \<Rightarrow>
               let off = slot_offset (slots p ! nat i) in
               if off \<ge> buffer_size p then None else Some (base + off))"

definition get_slot_fd :: "slot_pool \<Rightarrow> int \<Rightarrow> int" where
  "get_slot_fd p i = (if \<not> in_range p i then - 1 else shared_fd p)"

definition get_slot_stride :: "slot_pool \<Rightarrow> int \<Rightarrow> u64" where
  "get_slot_stride p i = (if \<not> in_range p i then 0 else slot_stride p)"

definition get_slot_offset :: "slot_pool \<Rightarrow> int \<Rightarrow> u64" where
  "get_slot_offset p i = (if \<not> in_range p i then 0 else slot_offset (slots p ! nat i))"

definition get_buffer_size :: "slot_pool \<Rightarrow> u64" where
  "get_buffer_size p = buffer_size p"

section \<open>The invariant of the pool\<close>

text \<open>
  An initialised pool has between 1 and 32 slots, a nonzero stride, a buffer of exactly
  \<open>num_slots\<close> strides (no wrap-around), and slot \<open>i\<close> starts \<open>i\<close> strides into it. A pool
  that is not initialised owns nothing.
\<close>

definition pool_wf :: "slot_pool \<Rightarrow> bool" where
  "pool_wf p \<longleftrightarrow>
     (if initialized p
      then 1 \<le> num_slots p \<and> num_slots p \<le> kMaxSlots \<and>
           int (length (slots p)) = num_slots p \<and>
           0 < unat (slot_stride p) \<and>
           unat (buffer_size p) = unat (slot_stride p) * length (slots p) \<and>
           (\<forall>i < length (slots p). unat (slot_offset (slots p ! i)) = i * unat (slot_stride p)) \<and>
           base_ptr p \<noteq> None
      else slots p = [] \<and> num_slots p = 0 \<and> base_ptr p = None \<and> slot_stride p = 0 \<and>
           buffer_size p = 0 \<and> shared_fd p < 0)"

lemma pool_wf_num: "pool_wf p \<Longrightarrow> num_slots p = int (length (slots p))"
  by (simp add: pool_wf_def split: if_splits)

lemma in_range_nth: "pool_wf p \<Longrightarrow> in_range p i \<Longrightarrow> nat i < length (slots p)"
  using pool_wf_num [of p] by (simp add: in_range_def) linarith

lemma pool_wf_new [wf_intros]: "pool_wf slot_pool_new"
  by (simp add: pool_wf_def slot_pool_new_def)

text \<open>The overflow test of \<open>Init\<close> is exact: it passes only when the product did not wrap.\<close>

lemma overflow_test_exact:
  assumes n: "0 < n" "n \<le> kMaxSlots"
    and test: "(stride * word_of_int n) div word_of_int n = (stride :: u64)"
  shows "unat (stride * word_of_int n) = unat stride * nat n"
proof -
  have un: "unat (word_of_int n :: u64) = nat n"
    using n unat_u64_of_int [of n] by (simp add: u64_of_int_def kMaxSlots_def)
  have m: "unat (stride * word_of_int n) = unat stride * nat n mod 2 ^ 64"
    by (simp add: unat_word_ariths un)
  have "unat (stride * word_of_int n) div nat n = unat stride"
    using arg_cong [OF test, of unat] by (simp only: unat_div un)
  then have "unat stride * nat n \<le> unat (stride * word_of_int n)"
    by (metis div_times_less_eq_dividend)
  moreover have "unat (stride * word_of_int n) \<le> unat stride * nat n"
    unfolding m by simp
  ultimately show ?thesis by simp
qed

lemma layout_slots_offset:
  assumes "unat (stride * word_of_int n) = unat stride * nat n"
    and "0 < n" "n \<le> kMaxSlots" "i < nat n"
  shows "unat (slot_offset (layout_slots stride n ! i)) = i * unat stride"
proof -
  have ui: "unat (word_of_nat i :: u64) = i"
    using assms by (simp add: unsigned_of_nat take_bit_nat_eq_self kMaxSlots_def)
  have "i * unat stride \<le> nat n * unat stride"
    using assms(4) by simp
  also have "\<dots> < 2 ^ 64"
    using assms(1) unat_u64_bound [of "stride * word_of_int n"] by (simp add: mult.commute)
  finally show ?thesis
    using assms(4) ui by (simp add: layout_slots_def unat_word_ariths)
qed

lemma pool_init_wf [wf_intros]:
  assumes "pool_wf p"
  shows "pool_wf (fst (snd (pool_init env path stride n p)))"
proof -
  have wf: "pool_wf (q\<lparr>slots := layout_slots stride n, shared_fd := fd, base_ptr := Some b,
      slot_stride := stride, buffer_size := stride * word_of_int n, num_slots := n,
      initialized := True\<rparr>)"
    if "\<not> (n \<le> 0 \<or> n > kMaxSlots)" "stride \<noteq> 0"
      and "(stride * word_of_int n) div word_of_int n = stride" for q fd b
  proof -
    from that have e: "unat (stride * word_of_int n) = unat stride * nat n"
      by (simp add: overflow_test_exact)
    moreover have "length (layout_slots stride n) = nat n"
      by (simp add: layout_slots_def)
    moreover have "0 < unat stride"
      using that(2) by (simp add: word_greater_zero_iff unat_gt_0)
    ultimately show ?thesis
      using that(1) layout_slots_offset [OF e] by (simp add: pool_wf_def)
  qed
  show ?thesis
    using assms
    by (auto simp: pool_init_def Let_def fd_move_assign_def wf split: option.splits)
qed

lemma pool_shutdown_wf [wf_intros]: "pool_wf (fst (pool_shutdown p))"
  by (simp add: pool_shutdown_def pool_wf_def fd_reset_def)

lemma slot_offset_set_state [simp]:
  "slot_offset (slots (set_state p i st) ! j) = slot_offset (slots p ! j)"
proof (cases "nat i < length (slots p)")
  case True
  then show ?thesis by (simp add: set_state_def nth_list_update)
next
  case False
  then show ?thesis by (simp add: set_state_def list_update_beyond)
qed

lemma set_state_frame [simp]:
  "length (slots (set_state p i st)) = length (slots p)"
  "shared_fd (set_state p i st) = shared_fd p"
  "base_ptr (set_state p i st) = base_ptr p"
  "slot_stride (set_state p i st) = slot_stride p"
  "buffer_size (set_state p i st) = buffer_size p"
  "num_slots (set_state p i st) = num_slots p"
  "initialized (set_state p i st) = initialized p"
  by (simp_all add: set_state_def)

lemma slots_set_state_Nil: "slots p = [] \<Longrightarrow> slots (set_state p i st) = []"
  by (simp add: set_state_def)

lemma set_state_wf [wf_intros]: "pool_wf p \<Longrightarrow> pool_wf (set_state p i st)"
  by (auto simp: pool_wf_def slots_set_state_Nil)

section \<open>The interface of the slot transitions\<close>

text \<open>
  \<open>slot_status p i\<close> is the state of slot \<open>i\<close>, if there is such a slot. A client of the
  pool (the frame producer) relies on the laws of \<open>slot_provider\<close> only.
\<close>

definition slot_status :: "slot_pool \<Rightarrow> int \<Rightarrow> slot_state option" where
  "slot_status p i = (if in_range p i then Some (slot_st (slots p ! nat i)) else None)"

locale slot_provider =
  fixes acq :: "'p \<Rightarrow> int \<times> 'p"
    and sub :: "'p \<Rightarrow> int \<Rightarrow> bool \<times> 'p"
    and rel :: "'p \<Rightarrow> int \<Rightarrow> bool \<times> 'p"
    and rev :: "'p \<Rightarrow> int \<Rightarrow> bool \<times> 'p"
    and status :: "'p \<Rightarrow> int \<Rightarrow> slot_state option"
    and inv :: "'p \<Rightarrow> bool"
  assumes acq_inv: "inv p \<Longrightarrow> inv (snd (acq p))"
    and sub_inv: "inv p \<Longrightarrow> inv (snd (sub p i))"
    and rel_inv: "inv p \<Longrightarrow> inv (snd (rel p i))"
    and rev_inv: "inv p \<Longrightarrow> inv (snd (rev p i))"
    and acq_idle: "inv p \<Longrightarrow> acq p = (i, q) \<Longrightarrow> 0 \<le> i \<Longrightarrow>
      status p i = Some IDLE \<and> status q = (status p)(i := Some IN_USE) \<and>
      (\<forall>j < i. status p j \<noteq> Some IDLE)"
    and acq_full: "inv p \<Longrightarrow> acq p = (i, q) \<Longrightarrow> i < 0 \<Longrightarrow>
      i = - 1 \<and> q = p \<and> (\<forall>j. status p j \<noteq> Some IDLE)"
    and sub_law: "inv p \<Longrightarrow> sub p i = (ok, q) \<Longrightarrow>
      ok = (status p i = Some IN_USE) \<and>
      (if ok then status q = (status p)(i := Some ON_FLIGHT) else q = p)"
    and rel_law: "inv p \<Longrightarrow> rel p i = (ok, q) \<Longrightarrow>
      ok = (status p i = Some ON_FLIGHT) \<and>
      (if ok then status q = (status p)(i := Some IDLE) else q = p)"
    and rev_law: "inv p \<Longrightarrow> rev p i = (ok, q) \<Longrightarrow>
      ok = (status p i = Some IN_USE) \<and>
      (if ok then status q = (status p)(i := Some IDLE) else q = p)"
begin

text \<open>A slot that is acquired and given back leaves the pool as it was.\<close>

lemma acq_rev_status:
  assumes "inv p" "acq p = (i, q)" "0 \<le> i"
  shows "status (snd (rev q i)) = status p"
proof -
  have q: "status p i = Some IDLE" "status q = (status p)(i := Some IN_USE)"
    using acq_idle [OF assms] by auto
  have "inv q" using acq_inv [OF assms(1)] assms(2) by simp
  then have "status (snd (rev q i)) = (status q)(i := Some IDLE)"
    using rev_law [of q i "fst (rev q i)" "snd (rev q i)"] q(2) by simp
  with q show ?thesis by auto
qed

text \<open>A slot that is acquired and submitted is in flight, and nothing else changed.\<close>

lemma acq_sub_status:
  assumes "inv p" "acq p = (i, q)" "0 \<le> i"
  shows "fst (sub q i) \<and> status (snd (sub q i)) = (status p)(i := Some ON_FLIGHT)"
proof -
  have q: "status q = (status p)(i := Some IN_USE)"
    using acq_idle [OF assms] by auto
  have "inv q" using acq_inv [OF assms(1)] assms(2) by simp
  then show ?thesis
    using sub_law [of q i "fst (sub q i)" "snd (sub q i)"] q by simp
qed

lemma acq_inv': "inv p \<Longrightarrow> acq p = (i, q) \<Longrightarrow> inv q"
  using acq_inv by force

end

lemma status_set_state:
  "pool_wf p \<Longrightarrow> in_range p i \<Longrightarrow> slot_status (set_state p i st) = (slot_status p)(i := Some st)"
proof (rule ext)
  fix j
  assume "pool_wf p" "in_range p i"
  moreover from this have "nat i < length (slots p)"
    by (rule in_range_nth)
  ultimately show "slot_status (set_state p i st) j = ((slot_status p)(i := Some st)) j"
    by (auto simp: slot_status_def set_state_def in_range_def nth_list_update)
qed

lemma first_idle_found:
  "first_idle k ss = i \<Longrightarrow> 0 \<le> k \<Longrightarrow> 0 \<le> i \<Longrightarrow>
     k \<le> i \<and> i < k + int (length ss) \<and> slot_st (ss ! nat (i - k)) = IDLE \<and>
     (\<forall>j. k \<le> j \<and> j < i \<longrightarrow> slot_st (ss ! nat (j - k)) \<noteq> IDLE)"
proof (induction k ss rule: first_idle.induct)
  case (1 k)
  then show ?case by simp
next
  case (2 k s ss)
  show ?case
  proof (cases "slot_st s = IDLE")
    case True
    with 2 show ?thesis by auto
  next
    case False
    with 2 have IH: "k + 1 \<le> i" "i < k + 1 + int (length ss)"
      "slot_st (ss ! nat (i - (k + 1))) = IDLE"
      "\<forall>j. k + 1 \<le> j \<and> j < i \<longrightarrow> slot_st (ss ! nat (j - (k + 1))) \<noteq> IDLE"
      by auto
    have nth: "(s # ss) ! nat (j - k) = ss ! nat (j - (k + 1))" if "k + 1 \<le> j" for j
    proof -
      have "nat (j - k) = Suc (nat (j - (k + 1)))" using that by arith
      then show ?thesis by simp
    qed
    have "slot_st ((s # ss) ! nat (j - k)) \<noteq> IDLE" if "k \<le> j" "j < i" for j
      using that IH(4) False nth [of j] by (cases "j = k") auto
    with IH nth [OF IH(1)] show ?thesis by auto
  qed
qed

lemma first_idle_none:
  "first_idle k ss < 0 \<Longrightarrow> 0 \<le> k \<Longrightarrow>
     first_idle k ss = - 1 \<and> (\<forall>s \<in> set ss. slot_st s \<noteq> IDLE)"
  by (induction k ss rule: first_idle.induct) (auto split: if_splits)

lemma acquire_slot_found:
  assumes wf: "pool_wf p" and acq: "acquire_slot p = (i, q)" and i: "0 \<le> i"
  shows "in_range p i \<and> q = set_state p i IN_USE \<and> slot_status p i = Some IDLE \<and>
         (\<forall>j < i. slot_status p j \<noteq> Some IDLE)"
proof -
  have all: "take (nat (num_slots p)) (slots p) = slots p"
    using pool_wf_num [OF wf] by simp
  have f: "first_idle 0 (slots p) = i" and q: "q = set_state p i IN_USE"
    using acq i by (auto simp: acquire_slot_def all Let_def split: if_splits)
  from first_idle_found [OF f] i show ?thesis
    using pool_wf_num [OF wf] q by (auto simp: slot_status_def in_range_def)
qed

lemma acquire_slot_full:
  assumes wf: "pool_wf p" and acq: "acquire_slot p = (i, q)" and i: "i < 0"
  shows "i = - 1 \<and> q = p \<and> (\<forall>j. slot_status p j \<noteq> Some IDLE)"
proof -
  have all: "take (nat (num_slots p)) (slots p) = slots p"
    using pool_wf_num [OF wf] by simp
  have f: "first_idle 0 (slots p) < 0" and iq: "i = - 1 \<and> q = p"
    using acq i by (auto simp: acquire_slot_def all Let_def split: if_splits)
  have "slot_status p j \<noteq> Some IDLE" for j
  proof -
    have "slots p ! nat j \<in> set (slots p)" if "in_range p j"
      using in_range_nth [OF wf that] by (rule nth_mem)
    then show ?thesis
      using first_idle_none [OF f] by (auto simp: slot_status_def)
  qed
  with iq show ?thesis by simp
qed

interpretation sp: slot_provider acquire_slot submit_slot release_slot revert_slot
  slot_status pool_wf
proof
  fix p q i ok
  assume wf: "pool_wf p"
  show "pool_wf (snd (acquire_slot p))"
    using wf by (simp add: acquire_slot_def Let_def set_state_wf)
  show "pool_wf (snd (submit_slot p i))" "pool_wf (snd (release_slot p i))"
    "pool_wf (snd (revert_slot p i))"
    using wf by (simp_all add: submit_slot_def release_slot_def revert_slot_def set_state_wf)
  show "slot_status p i = Some IDLE \<and> slot_status q = (slot_status p)(i := Some IN_USE) \<and>
      (\<forall>j < i. slot_status p j \<noteq> Some IDLE)"
    if "acquire_slot p = (i, q)" "0 \<le> i"
    using acquire_slot_found [OF wf that] status_set_state [OF wf] by simp
  show "i = - 1 \<and> q = p \<and> (\<forall>j. slot_status p j \<noteq> Some IDLE)"
    if "acquire_slot p = (i, q)" "i < 0"
    using acquire_slot_full [OF wf that] .
  show "ok = (slot_status p i = Some IN_USE) \<and>
      (if ok then slot_status q = (slot_status p)(i := Some ON_FLIGHT) else q = p)"
    if "submit_slot p i = (ok, q)"
    using that status_set_state [OF wf]
    by (auto simp: submit_slot_def slot_status_def split: if_splits)
  show "ok = (slot_status p i = Some ON_FLIGHT) \<and>
      (if ok then slot_status q = (slot_status p)(i := Some IDLE) else q = p)"
    if "release_slot p i = (ok, q)"
    using that status_set_state [OF wf]
    by (auto simp: release_slot_def slot_status_def split: if_splits)
  show "ok = (slot_status p i = Some IN_USE) \<and>
      (if ok then slot_status q = (slot_status p)(i := Some IDLE) else q = p)"
    if "revert_slot p i = (ok, q)"
    using that status_set_state [OF wf]
    by (auto simp: revert_slot_def slot_status_def split: if_splits)
qed

section \<open>Runs of the pool\<close>

datatype slot_op = Acquire | Submit int | Release int | Revert int

datatype pool_op = OpInit heap_env string u64 int | OpShutdown | OpSlot slot_op

fun slot_step :: "slot_pool \<Rightarrow> slot_op \<Rightarrow> slot_pool" where
  "slot_step p Acquire = snd (acquire_slot p)"
| "slot_step p (Submit i) = snd (submit_slot p i)"
| "slot_step p (Release i) = snd (release_slot p i)"
| "slot_step p (Revert i) = snd (revert_slot p i)"

fun pool_step :: "slot_pool \<Rightarrow> pool_op \<Rightarrow> slot_pool" where
  "pool_step p (OpInit env path stride n) = fst (snd (pool_init env path stride n p))"
| "pool_step p OpShutdown = fst (pool_shutdown p)"
| "pool_step p (OpSlot x) = slot_step p x"

lemma slot_step_wf [wf_intros]: "pool_wf p \<Longrightarrow> pool_wf (slot_step p x)"
  by (cases x) (simp_all add: sp.acq_inv sp.sub_inv sp.rel_inv sp.rev_inv)

interpretation pool_sys: step_system pool_step pool_wf
proof
  show "pool_wf (pool_step p x)" if "pool_wf p" for p x
    using that by (cases x) (simp_all add: pool_init_wf pool_shutdown_wf slot_step_wf)
qed

text \<open>
  The abstract pool: three sets of slot numbers. The writer owns \<open>o_writing\<close>, the consumer
  \<open>o_flight\<close>, nobody \<open>o_free\<close>.
\<close>

record ownership =
  o_free :: "int set"
  o_writing :: "int set"
  o_flight :: "int set"

definition ownership_of :: "slot_pool \<Rightarrow> ownership" where
  "ownership_of p =
     \<lparr>o_free = {i. slot_status p i = Some IDLE},
      o_writing = {i. slot_status p i = Some IN_USE},
      o_flight = {i. slot_status p i = Some ON_FLIGHT}\<rparr>"

fun own_step :: "ownership \<Rightarrow> slot_op \<Rightarrow> ownership" where
  "own_step w Acquire =
     (if o_free w = {} then w
      else let i = Min (o_free w)
           in w\<lparr>o_free := o_free w - {i}, o_writing := insert i (o_writing w)\<rparr>)"
| "own_step w (Submit i) =
     (if i \<in> o_writing w
      then w\<lparr>o_writing := o_writing w - {i}, o_flight := insert i (o_flight w)\<rparr> else w)"
| "own_step w (Release i) =
     (if i \<in> o_flight w
      then w\<lparr>o_flight := o_flight w - {i}, o_free := insert i (o_free w)\<rparr> else w)"
| "own_step w (Revert i) =
     (if i \<in> o_writing w
      then w\<lparr>o_writing := o_writing w - {i}, o_free := insert i (o_free w)\<rparr> else w)"

lemma finite_status: "finite {i. slot_status p i = Some st}"
proof (rule finite_subset)
  show "{i. slot_status p i = Some st} \<subseteq> {0..<num_slots p}"
    by (auto simp: slot_status_def in_range_def split: if_splits)
qed simp

lemma acquire_refines:
  assumes wf: "pool_wf p"
  shows "ownership_of (snd (acquire_slot p)) = own_step (ownership_of p) Acquire"
proof -
  obtain i q where acq: "acquire_slot p = (i, q)" by force
  show ?thesis
  proof (cases "i < 0")
    case True
    from sp.acq_full [OF wf acq True] acq show ?thesis by (simp add: ownership_of_def)
  next
    case False
    then have i: "slot_status p i = Some IDLE" "slot_status q = (slot_status p)(i := Some IN_USE)"
        "\<forall>j < i. slot_status p j \<noteq> Some IDLE"
      using sp.acq_idle [OF wf acq] by auto
    have "Min {j. slot_status p j = Some IDLE} = i"
      by (rule Min_eqI [OF finite_status]) (use i in \<open>auto simp: not_less [symmetric]\<close>)
    moreover have "{j. slot_status p j = Some IDLE} \<noteq> {}" using i by auto
    ultimately show ?thesis
      using i(1) acq by (auto simp: ownership_of_def i(2) Let_def)
  qed
qed

lemma slot_step_refines:
  assumes wf: "pool_wf p"
  shows "ownership_of (slot_step p x) = own_step (ownership_of p) x"
proof (cases x)
  case Acquire
  then show ?thesis using acquire_refines [OF wf] by simp
next
  case (Submit i)
  obtain ok q where "submit_slot p i = (ok, q)" by force
  with sp.sub_law [OF wf this] Submit show ?thesis
    by (cases ok) (auto simp: ownership_of_def)
next
  case (Release i)
  obtain ok q where "release_slot p i = (ok, q)" by force
  with sp.rel_law [OF wf this] Release show ?thesis
    by (cases ok) (auto simp: ownership_of_def)
next
  case (Revert i)
  obtain ok q where "revert_slot p i = (ok, q)" by force
  with sp.rev_law [OF wf this] Revert show ?thesis
    by (cases ok) (auto simp: ownership_of_def)
qed

interpretation pool_ref: refinement slot_step pool_wf ownership_of own_step
proof
  show "pool_wf (slot_step p x)" if "pool_wf p" for p x
    using that by (rule slot_step_wf)
  show "ownership_of (slot_step p x) = own_step (ownership_of p) x" if "pool_wf p" for p x
    using that by (rule slot_step_refines)
qed

section \<open>What the pool promises\<close>

definition example_env :: heap_env where
  "example_env = \<lparr>env_open = (\<lambda>_. 3), env_alloc = (\<lambda>_. Some 4), env_mmap = (\<lambda>_ _. Some 65536)\<rparr>"

definition example_pool :: slot_pool where
  "example_pool = fst (snd (pool_init example_env ''/dev/dma_heap/qcom,system'' 4096 2 slot_pool_new))"

lemma example_pool_eval:
  "example_pool =
     \<lparr>slots = [\<lparr>slot_offset = 0, slot_st = IDLE\<rparr>, \<lparr>slot_offset = 4096, slot_st = IDLE\<rparr>],
      shared_fd = 4, base_ptr = Some 65536, slot_stride = 4096, buffer_size = 8192,
      num_slots = 2, initialized = True\<rparr>"
  by (simp add: example_pool_def pool_init_def example_env_def slot_pool_new_def kMaxSlots_def
      open_heap_def Let_def fd_move_assign_def layout_slots_def upt_rec)

lemma example_pool_wf: "pool_wf example_pool"
  unfolding example_pool_def by (intro pool_init_wf pool_wf_new)

text \<open>
  C1: The slot pool is an ownership machine: whatever sequence of acquire, submit, release
  and revert calls is made, each slot is free, being written or in flight exactly as in the
  abstract machine of three sets, where acquiring takes the lowest free slot, only a slot
  being written can be submitted or given back, and only a slot in flight can be released.
\<close>

theorem slot_pool_refines_ownership:
  assumes "pool_wf p"
  shows "ownership_of (foldl slot_step p xs) = foldl own_step (ownership_of p) xs"
  using assms by (rule pool_ref.run_refines)

theorem slot_pool_refines_ownership_witness:
  "pool_wf example_pool \<and>
   ownership_of (foldl slot_step example_pool [Acquire, Submit 0, Acquire, Release 0]) =
   foldl own_step (ownership_of example_pool) [Acquire, Submit 0, Acquire, Release 0]"
  using example_pool_wf slot_pool_refines_ownership [OF example_pool_wf] by blast

text \<open>
  In every state the pool can reach from construction, by any sequence of Init, Shutdown
  and slot operations and whatever the operating system answers, the windows of the slots
  lie inside the shared buffer and do not overlap: no writer of one slot can touch another.
\<close>

theorem slot_windows_disjoint:
  assumes "p = foldl pool_step slot_pool_new xs"
    and "in_range p i" and "in_range p j" and "i < j"
  shows "unat (get_slot_offset p i) + unat (get_slot_stride p i) \<le> unat (get_slot_offset p j) \<and>
         unat (get_slot_offset p j) + unat (get_slot_stride p j) \<le> unat (get_buffer_size p)"
proof -
  have wf: "pool_wf p"
    unfolding assms(1) by (rule pool_sys.run_inv) (rule pool_wf_new)
  have ij: "nat i < length (slots p)" "nat j < length (slots p)"
    using in_range_nth [OF wf] assms by auto
  then have "initialized p"
    using wf by (auto simp: pool_wf_def split: if_splits)
  with wf ij have off: "unat (slot_offset (slots p ! nat i)) = nat i * unat (slot_stride p)"
      "unat (slot_offset (slots p ! nat j)) = nat j * unat (slot_stride p)"
      "unat (buffer_size p) = length (slots p) * unat (slot_stride p)"
    by (auto simp: pool_wf_def mult.commute)
  have "Suc (nat i) * unat (slot_stride p) \<le> nat j * unat (slot_stride p)"
    using assms(2,4) by (intro mult_le_mono1) (auto simp: in_range_def)
  moreover have "Suc (nat j) * unat (slot_stride p) \<le> length (slots p) * unat (slot_stride p)"
    using ij by (intro mult_le_mono1) simp
  ultimately show ?thesis
    using assms(2,3) off
    by (simp add: get_slot_offset_def get_slot_stride_def get_buffer_size_def)
qed

theorem slot_windows_disjoint_witness:
  "unat (get_slot_offset example_pool 0) + unat (get_slot_stride example_pool 0) \<le>
   unat (get_slot_offset example_pool 1)"
proof -
  have "example_pool = foldl pool_step slot_pool_new
      [OpInit example_env ''/dev/dma_heap/qcom,system'' 4096 2]"
    by (simp add: example_pool_def)
  moreover have "in_range example_pool 0" "in_range example_pool 1"
    by (simp_all add: in_range_def example_pool_eval)
  ultimately show ?thesis
    using slot_windows_disjoint [of example_pool _ 0 1, OF _ _ _ zero_less_one] by blast
qed

text \<open>
  Init on every path: an error leaves the pool unchanged and closes exactly the
  descriptors opened so far (the heap device after it was opened, and the allocated buffer
  when mapping fails), each once; success keeps the buffer's descriptor, closes the heap
  device and gives a well-formed pool with every slot idle.
\<close>

theorem pool_init_paths:
  assumes "pool_wf p" and "pool_init env path stride n p = (r, p', log)"
  shows "case r of
      Inl e \<Rightarrow> p' = p \<and>
        (case e of
           AlreadyInitialized \<Rightarrow> initialized p \<and> log = []
         | InvalidNumSlots m \<Rightarrow> m = n \<and> (n < 1 \<or> 32 < n) \<and> log = []
         | HeapOpenFailed s \<Rightarrow> env_open env path < 0 \<and> env_open env fallback_heap < 0 \<and> log = []
         | ZeroSlotStride \<Rightarrow> stride = 0 \<and> log = [Close (open_heap env path)]
         | BufferSizeOverflow \<Rightarrow> 2 ^ 64 \<le> unat stride * nat n \<and> log = [Close (open_heap env path)]
         | AllocFailed sz \<Rightarrow> env_alloc env sz = None \<and> log = [Close (open_heap env path)]
         | MmapFailed sz \<Rightarrow> (\<exists>fd. env_alloc env sz = Some fd \<and>
             log = [Close fd, Close (open_heap env path)]))
    | Inr _ \<Rightarrow> pool_wf p' \<and> initialized p' \<and> num_slots p' = n \<and> slot_stride p' = stride \<and>
        env_alloc env (buffer_size p') = Some (shared_fd p') \<and>
        log = [Close (open_heap env path)] \<and>
        (\<forall>i. slot_status p' i = (if 0 \<le> i \<and> i < n then Some IDLE else None))"
proof -
  have wf: "pool_wf p'"
    using pool_init_wf [OF assms(1), of env path stride n] assms(2) by simp
  have idle: "slot_st (layout_slots stride n ! nat i) = IDLE" if "0 \<le> i" "i < n" for i
    using that by (simp add: layout_slots_def)
  have over: "2 ^ 64 \<le> unat stride * nat n"
    if "\<not> (n \<le> 0 \<or> n > kMaxSlots)" "(stride * word_of_int n) div word_of_int n \<noteq> stride"
  proof (rule ccontr)
    assume neg: "\<not> ?thesis"
    have un: "unat (word_of_int n :: u64) = nat n"
      using that(1) unat_u64_of_int [of n] by (simp add: u64_of_int_def kMaxSlots_def)
    have "unat (stride * word_of_int n) = unat stride * nat n"
      using neg by (simp add: unat_word_ariths un)
    then have "unat ((stride * word_of_int n) div word_of_int n) = unat stride"
      using that(1) by (simp add: unat_div un)
    with that(2) show False by (metis word_unat_eq_iff)
  qed
  have "initialized p \<or> shared_fd p < 0"
    using assms(1) by (auto simp: pool_wf_def split: if_splits)
  with assms(2) wf over show ?thesis
    by (auto simp: pool_init_def Let_def fd_move_assign_def fd_reset_def open_heap_def
        kMaxSlots_def slot_status_def in_range_def idle not_le split: if_splits option.splits)
qed

theorem pool_init_paths_witness:
  "\<exists>p' log. pool_init example_env ''/dev/dma_heap/qcom,system'' 4096 2 slot_pool_new = (Inr (), p', log) \<and>
     pool_wf p' \<and> log = [Close 3]"
proof -
  have eq: "pool_init example_env ''/dev/dma_heap/qcom,system'' 4096 2 slot_pool_new =
      (Inr (), example_pool, [Close 3])"
    by (simp add: example_pool_eval pool_init_def example_env_def slot_pool_new_def kMaxSlots_def
        open_heap_def Let_def fd_move_assign_def fd_reset_def layout_slots_def upt_rec)
  from pool_init_paths [OF pool_wf_new eq] eq show ?thesis by auto
qed

end
