(* ===== verification/Nv12.thy ===== *)
theory Nv12
  imports Prelude
begin

text \<open>
  The colour conversion that fills a slot (\<open>frame_cache/src/nv12_to_rgb.cpp\<close>): NV12 (a luma
  plane and an interleaved half-resolution chroma plane) to packed RGB24 with 8-bit fixed
  point BT.601 coefficients. The source memory is a function from an index relative to
  \<open>nv12_data\<close> to the byte there; the theorems say which indices matter, where each output
  byte goes and how far the fixed point result is from the real coefficients.
\<close>

section \<open>Model\<close>

definition clamp_u8 :: "int \<Rightarrow> u8" where
  "clamp_u8 val = (if val < 0 then 0 else if val > 255 then 255 else word_of_int val)"

text \<open>C's arithmetic shift right by 8 is the division by 256 that rounds down.\<close>

definition rgb_pixel :: "int \<Rightarrow> int \<Rightarrow> int \<Rightarrow> u8 list" where
  "rgb_pixel y_val u_val v_val =
     [clamp_u8 (y_val + (359 * v_val) div 256),
      clamp_u8 (y_val - (88 * u_val + 183 * v_val) div 256),
      clamp_u8 (y_val + (454 * u_val) div 256)]"

definition nv12_pixel :: "(int \<Rightarrow> u8) \<Rightarrow> int \<Rightarrow> int \<Rightarrow> nat \<Rightarrow> nat \<Rightarrow> u8 list" where
  "nv12_pixel nv12 uv_offset y_stride row col =
     (let uv_row = uv_offset + int (row div 2) * y_stride;
          uv_col = int (col div 2) * 2;
          y_val = uint (nv12 (int row * y_stride + int col));
          u_val = uint (nv12 (uv_row + uv_col)) - 128;
          v_val = uint (nv12 (uv_row + (uv_col + 1))) - 128
      in rgb_pixel y_val u_val v_val)"

definition nv12_to_rgb24 :: "(int \<Rightarrow> u8) \<Rightarrow> int \<Rightarrow> int \<Rightarrow> int \<Rightarrow> int \<Rightarrow> u8 list" where
  "nv12_to_rgb24 nv12 uv_offset width height y_stride =
     concat (concat (map (\<lambda>row. map (\<lambda>col. nv12_pixel nv12 uv_offset y_stride row col)
                                  [0..<nat width]) [0..<nat height]))"

section \<open>Layout of the output\<close>

lemma length_rgb_pixel [simp]: "length (rgb_pixel y u v) = 3"
  by (simp add: rgb_pixel_def)

lemma length_nv12_pixel [simp]: "length (nv12_pixel nv uv st r c) = 3"
  by (simp add: nv12_pixel_def Let_def)

lemma nth_concat_blocks:
  "\<forall>xs \<in> set xss. length xs = k \<Longrightarrow> i < length xss \<Longrightarrow> j < k \<Longrightarrow>
     length (concat xss) = k * length xss \<and> concat xss ! (i * k + j) = xss ! i ! j"
proof (induction xss arbitrary: i)
  case Nil
  then show ?case by simp
next
  case (Cons xs xss)
  have len: "length xs = k" "length (concat xss) = k * length xss"
  proof -
    show "length xs = k" using Cons.prems by simp
    show "length (concat xss) = k * length xss"
      using Cons.prems(1) by (induction xss) auto
  qed
  show ?case
  proof (cases i)
    case 0
    with Cons.prems len show ?thesis by (simp add: nth_append)
  next
    case (Suc i')
    with Cons.prems have "concat xss ! (i' * k + j) = xss ! i' ! j"
      using Cons.IH [of i'] by simp
    with Suc len show ?thesis by (simp add: nth_append add.assoc)
  qed
qed

lemma nv12_rows_length:
  "length (concat (map (\<lambda>row. map (f row) [0..<w]) [0..<h])) = w * h"
  by (simp add: length_concat o_def sum_list_triv)

lemma nv12_pixel_pos:
  assumes "row < h" "col < w"
  shows "concat (map (\<lambda>row. map (f row) [0..<w]) [0..<h]) ! (row * w + col) = f row col"
proof -
  have "\<forall>xs \<in> set (map (\<lambda>row. map (f row) [0..<w]) [0..<h]). length xs = w" by auto
  from nth_concat_blocks [OF this, of row col] assms show ?thesis by simp
qed

lemma length_nv12_to_rgb24:
  "length (nv12_to_rgb24 nv uv w h st) = 3 * (nat w * nat h)"
proof -
  have "length (concat xss) = 3 * length xss" if "\<forall>xs \<in> set xss. length xs = 3" for xss :: "u8 list list"
    using that by (induction xss) auto
  then show ?thesis
    unfolding nv12_to_rgb24_def by (subst nv12_rows_length [symmetric, of "nat w" "nat h"]) auto
qed

lemma index_bound: "row < h \<Longrightarrow> col < w \<Longrightarrow> row * w + col < w * (h :: nat)"
proof -
  assume "row < h" "col < w"
  then have "row * w + col < Suc row * w" by simp
  also have "\<dots> \<le> h * w" using \<open>row < h\<close> by (intro mult_le_mono1) simp
  finally show ?thesis by (simp add: mult.commute)
qed

lemma nv12_to_rgb24_nth:
  assumes "row < nat h" "col < nat w" "k < 3"
  shows "nv12_to_rgb24 nv uv w h st ! ((row * nat w + col) * 3 + k) =
         nv12_pixel nv uv st row col ! k"
proof -
  let ?rows = "concat (map (\<lambda>row. map (nv12_pixel nv uv st row) [0..<nat w]) [0..<nat h])"
  have "row * nat w + col < length ?rows"
    using index_bound [OF assms(1,2)] by (simp add: nv12_rows_length)
  moreover have "\<forall>xs \<in> set ?rows. length xs = 3" by auto
  ultimately have "concat ?rows ! ((row * nat w + col) * 3 + k) = ?rows ! (row * nat w + col) ! k"
    using nth_concat_blocks assms(3) by blast
  also have "?rows ! (row * nat w + col) = nv12_pixel nv uv st row col"
    using assms(1,2) by (rule nv12_pixel_pos)
  finally show ?thesis
    by (simp only: nv12_to_rgb24_def)
qed

section \<open>What the conversion promises\<close>

text \<open>The bytes an NV12 frame of these strides occupies.\<close>

definition nv12_extent :: "int \<Rightarrow> int \<Rightarrow> int \<Rightarrow> int \<Rightarrow> int" where
  "nv12_extent uv_offset width height y_stride =
     max (height * y_stride) (uv_offset + ((height + 1) div 2) * y_stride)"

lemma nv12_pixel_cong:
  assumes bytes: "\<And>i. 0 \<le> i \<Longrightarrow> i < nv12_extent uv w h st \<Longrightarrow> nv i = nv' i"
    and dims: "0 \<le> uv" "w \<le> st" "even st" "row < nat h" "col < nat w"
  shows "nv12_pixel nv uv st row col = nv12_pixel nv' uv st row col"
proof -
  have st: "0 < st" using dims by linarith
  have row: "int row + 1 \<le> h" "int (row div 2) + 1 \<le> (h + 1) div 2" using dims(4) by linarith+
  have col: "int col < st" using dims by linarith
  obtain b where b: "st = 2 * b" using dims(3) by (rule evenE)
  have "int (col div 2) < b" using col b by linarith
  then have col2: "int (col div 2) * 2 + 1 < st" using b by linarith
  have y: "(int row + 1) * st \<le> h * st" "(int (row div 2) + 1) * st \<le> ((h + 1) div 2) * st"
    using row st by (simp_all add: mult_right_mono)
  have nn: "0 \<le> int row * st" "0 \<le> int (row div 2) * st" using st by simp_all
  have "nv (int row * st + int col) = nv' (int row * st + int col)"
    using y(1) col nn by (intro bytes) (simp_all add: nv12_extent_def distrib_right)
  moreover have "nv (uv + int (row div 2) * st + j) = nv' (uv + int (row div 2) * st + j)"
    if "0 \<le> j" "j < st" for j
    using y(2) that nn dims(1) by (intro bytes) (simp_all add: nv12_extent_def distrib_right)
  ultimately show ?thesis
    using col2 by (simp add: nv12_pixel_def Let_def)
qed

text \<open>
  The conversion writes exactly three bytes per pixel, the pixel of row r and column c at
  byte 3 * (r * width + c), and its result depends on no byte outside the frame: two memories
  that agree on the luma and chroma planes give the same image.
\<close>

theorem nv12_to_rgb24_layout:
  assumes "0 \<le> uv_offset" "width \<le> y_stride" "even y_stride"
    and "\<And>i. 0 \<le> i \<Longrightarrow> i < nv12_extent uv_offset width height y_stride \<Longrightarrow> mem i = mem' i"
  shows "length (nv12_to_rgb24 mem uv_offset width height y_stride) = 3 * (nat width * nat height) \<and>
    nv12_to_rgb24 mem uv_offset width height y_stride =
    nv12_to_rgb24 mem' uv_offset width height y_stride \<and>
    (\<forall>row < nat height. \<forall>col < nat width. \<forall>k < 3.
       nv12_to_rgb24 mem uv_offset width height y_stride ! ((row * nat width + col) * 3 + k) =
       nv12_pixel mem uv_offset y_stride row col ! k)"
proof -
  have "nv12_pixel mem uv_offset y_stride row col = nv12_pixel mem' uv_offset y_stride row col"
    if "row < nat height" "col < nat width" for row col
    using nv12_pixel_cong [OF assms(4,1-3) that] .
  then have "nv12_to_rgb24 mem uv_offset width height y_stride =
      nv12_to_rgb24 mem' uv_offset width height y_stride"
    unfolding nv12_to_rgb24_def by (intro arg_cong [where f = concat] map_cong) auto
  then show ?thesis
    using length_nv12_to_rgb24 nv12_to_rgb24_nth by blast
qed

theorem nv12_to_rgb24_layout_witness:
  "nv12_to_rgb24 (\<lambda>i. if i < 6 then 128 else 7) 4 2 2 2 = nv12_to_rgb24 (\<lambda>_. 128) 4 2 2 2 \<and>
   length (nv12_to_rgb24 (\<lambda>_. 128) 4 2 2 2) = 12"
  using nv12_to_rgb24_layout [of 4 2 2 2 "\<lambda>i. if i < 6 then 128 else 7" "\<lambda>_. 128"]
    nv12_to_rgb24_layout [of 4 2 2 2 "\<lambda>_. 128" "\<lambda>_. 128"]
  by (simp add: nv12_extent_def)

lemma uint_clamp_u8: "uint (clamp_u8 v) = max 0 (min 255 v)"
  by (auto simp: clamp_u8_def uint_word_of_int)

lemma clamp_scale: "1000 * max 0 (min 255 a) = max 0 (min 255000 (1000 * a))" for a :: int
  by (auto simp: max_def min_def)

lemma clamp_lipschitz: "\<bar>max 0 (min m a) - max 0 (min m b)\<bar> \<le> \<bar>a - b\<bar>" if "0 \<le> m" for a b m :: int
  using that by (auto simp: max_def min_def)

lemma clamp_close:
  "\<bar>1000 * a - c\<bar> \<le> e \<Longrightarrow> \<bar>1000 * max 0 (min 255 a) - max 0 (min 255000 c)\<bar> \<le> e" for a c e :: int
  using clamp_lipschitz [of 255000 "1000 * a" c] by (simp add: clamp_scale)

text \<open>
  The fixed point conversion stays within 1.2 grey levels of the BT.601 formula in the
  source's comments (R = Y + 1.402 V, G = Y - 0.344 U - 0.714 V, B = Y + 1.772 U, chroma
  centred at 0) on every channel, clamped to 0..255, for all byte inputs; without chroma the
  three channels are exactly the luma.
\<close>

theorem rgb_pixel_accuracy:
  assumes "0 \<le> y" "y \<le> 255" "- 128 \<le> u" "u \<le> 127" "- 128 \<le> v" "v \<le> 127"
  shows "\<bar>1000 * uint (rgb_pixel y u v ! 0) - max 0 (min 255000 (1000 * y + 1402 * v))\<bar> \<le> 1200 \<and>
         \<bar>1000 * uint (rgb_pixel y u v ! 1) - max 0 (min 255000 (1000 * y - 344 * u - 714 * v))\<bar> \<le> 1200 \<and>
         \<bar>1000 * uint (rgb_pixel y u v ! 2) - max 0 (min 255000 (1000 * y + 1772 * u))\<bar> \<le> 1200 \<and>
         map uint (rgb_pixel y 0 0) = [y, y, y]"
proof -
  have r: "\<bar>1000 * (359 * v div 256) - 1402 * v\<bar> \<le> 1200"
    using assms by linarith
  have g: "\<bar>1000 * ((88 * u + 183 * v) div 256) - (344 * u + 714 * v)\<bar> \<le> 1200"
    using assms by linarith
  have b: "\<bar>1000 * (454 * u div 256) - 1772 * u\<bar> \<le> 1200"
    using assms by linarith
  have r': "\<bar>1000 * (y + (359 * v) div 256) - (1000 * y + 1402 * v)\<bar> \<le> 1200"
    using r by (simp add: distrib_left)
  have g': "\<bar>1000 * (y - (88 * u + 183 * v) div 256) - (1000 * y - 344 * u - 714 * v)\<bar> \<le> 1200"
    using g by (simp add: right_diff_distrib)
  have b': "\<bar>1000 * (y + (454 * u) div 256) - (1000 * y + 1772 * u)\<bar> \<le> 1200"
    using b by (simp add: distrib_left)
  have px: "uint (rgb_pixel y u v ! 0) = max 0 (min 255 (y + (359 * v) div 256))"
      "uint (rgb_pixel y u v ! 1) = max 0 (min 255 (y - (88 * u + 183 * v) div 256))"
      "uint (rgb_pixel y u v ! 2) = max 0 (min 255 (y + (454 * u) div 256))"
    by (simp_all add: rgb_pixel_def numeral_2_eq_2 flip: uint_clamp_u8)
  have "map uint (rgb_pixel y 0 0) = [y, y, y]"
    using assms(1,2) by (simp add: rgb_pixel_def uint_clamp_u8)
  with clamp_close [OF r'] clamp_close [OF g'] clamp_close [OF b'] show ?thesis
    unfolding px by blast
qed

theorem rgb_pixel_accuracy_witness:
  "\<bar>1000 * uint (rgb_pixel 100 20 (- 30) ! 0) - 57940\<bar> \<le> 1200 \<and> map uint (rgb_pixel 100 0 0) = [100, 100, 100]"
  using rgb_pixel_accuracy [of 100 20 "- 30"] by simp

end
