(* ===== verification/Producer.thy ===== *)
theory Producer
  imports SlotPool Nv12
begin

unbundle bit_operations_syntax

text \<open>
  The frame producer: the Unix socket towards the consumer (\<open>frame_cache/src/ipc_sender.cpp\<close>)
  and \<open>DmaBufProducer\<close> (\<open>frame_cache/src/producer.cpp\<close>): \<open>Init\<close> with the handshake,
  \<open>SubmitFrame\<close> with every rollback, \<open>PollReleases\<close>, \<open>ReleaseSlotDirect\<close>, \<open>Shutdown\<close>.
  What the operating system answers is an argument; what the code does to the outside is a
  list of events. Each call is one step; threads interleave in theory \<open>FrameProtocol\<close>.
\<close>

datatype io_event =
    Os os_event
  | SendBytes "u8 list"
  | PassFd int
  | StoreBytes u64 "u8 list"

section \<open>IpcSender\<close>

text \<open>
  \<open>client_rx\<close> is the receive queue of the connected socket: the bytes the consumer has sent
  and the producer has not read.
\<close>

record ipc_sender =
  server_fd :: dma_buf_fd
  client_fd :: dma_buf_fd
  sender_path :: string
  client_rx :: "u8 list"

datatype sender_error =
    NullSocketPath
  | SocketFailed
  | BindFailed string
  | ListenFailed
  | ServerNotInitialized
  | AcceptFailed
  | SendInitNoClient
  | SendInitPacketFailed
  | SendInitInvalidFd
  | SendInitMsgFailed
  | SendFrameNoClient
  | SendFrameFailed
  | SendFrameShort int

definition ipc_sender_new :: ipc_sender where
  "ipc_sender_new = \<lparr>server_fd = - 1, client_fd = - 1, sender_path = [], client_rx = []\<rparr>"

record socket_env =
  env_socket :: int
  env_bind :: "string \<Rightarrow> int"
  env_listen :: int
  env_accept :: int
  env_send_init :: int
  env_sendmsg :: int

text \<open>\<open>sun_path\<close> holds 108 bytes with the final zero: a longer path is cut by \<open>strncpy\<close>.\<close>

definition sender_init ::
  "socket_env \<Rightarrow> string option \<Rightarrow> ipc_sender \<Rightarrow>
     (sender_error + unit) \<times> ipc_sender \<times> io_event list" where
  "sender_init env path s =
     (case path of
        None \<Rightarrow> (Inl NullSocketPath, s, [])
      | Some p \<Rightarrow>
          let s1 = s\<lparr>sender_path := p\<rparr>; fd = env_socket env in
          if fd < 0 then (Inl SocketFailed, s1, [Os (Unlink p)])
          else
            let (fd1, _, closes) = fd_move_assign (server_fd s1) fd;
                s2 = s1\<lparr>server_fd := fd1\<rparr>;
                ev = Os (Unlink p) # map Os closes in
            if env_bind env (take 107 p) < 0 then
              (let (fd2, cl) = fd_reset (server_fd s2)
               in (Inl (BindFailed p), s2\<lparr>server_fd := fd2\<rparr>, ev @ map Os cl))
            else if env_listen env < 0 then
              (let (fd2, cl) = fd_reset (server_fd s2)
               in (Inl ListenFailed, s2\<lparr>server_fd := fd2\<rparr>, ev @ map Os cl))
            else (Inr (), s2, ev))"

definition accept_client ::
  "socket_env \<Rightarrow> ipc_sender \<Rightarrow> (sender_error + unit) \<times> ipc_sender \<times> io_event list" where
  "accept_client env s =
     (if server_fd s < 0 then (Inl ServerNotInitialized, s, [])
      else if env_accept env < 0 then (Inl AcceptFailed, s, [])
      else
        let (fd, _, closes) = fd_move_assign (client_fd s) (env_accept env)
        in (Inr (), s\<lparr>client_fd := fd, client_rx := []\<rparr>, map Os closes))"

text \<open>\<open>send\<close> returns how many of the bytes it took, or a negative number.\<close>

definition sent_bytes :: "int \<Rightarrow> u8 list \<Rightarrow> io_event list" where
  "sent_bytes n bs = (if n < 0 then [] else [SendBytes (take (nat n) bs)])"

definition send_init ::
  "socket_env \<Rightarrow> init_packet \<Rightarrow> int \<Rightarrow> ipc_sender \<Rightarrow> (sender_error + unit) \<times> io_event list" where
  "send_init env pkt fd s =
     (if client_fd s < 0 then (Inl SendInitNoClient, [])
      else
        let n = env_send_init env; ev = sent_bytes n (init_packet_bytes pkt) in
        if n < 0 \<or> n \<noteq> 32 then (Inl SendInitPacketFailed, ev)
        else if fd < 0 then (Inl SendInitInvalidFd, ev)
        else if env_sendmsg env < 0 then (Inl SendInitMsgFailed, ev)
        else (Inr (), ev @ [SendBytes [0xFF], PassFd fd]))"

definition send_frame ::
  "int \<Rightarrow> task_packet \<Rightarrow> ipc_sender \<Rightarrow> (sender_error + unit) \<times> io_event list" where
  "send_frame n pkt s =
     (if client_fd s < 0 then (Inl SendFrameNoClient, [])
      else
        let ev = sent_bytes n (task_packet_bytes pkt) in
        if n < 0 then (Inl SendFrameFailed, ev)
        else if n \<noteq> 32 then (Inl (SendFrameShort n), ev)
        else (Inr (), ev))"

text \<open>
  One non-blocking read of at most 12 bytes. An empty queue answers EAGAIN (or end of file):
  no packet. Fewer than 12 bytes, or a wrong magic, are consumed and give no packet.
\<close>

definition poll_release :: "ipc_sender \<Rightarrow> release_packet option \<times> ipc_sender" where
  "poll_release s =
     (if client_fd s < 0 then (None, s)
      else if client_rx s = [] then (None, s)
      else
        let bs = take 12 (client_rx s); s' = s\<lparr>client_rx := drop 12 (client_rx s)\<rparr> in
        if length bs \<noteq> 12 then (None, s')
        else if rp_magic (release_packet_of_bytes bs) \<noteq> IQ9_RELEASE_MAGIC then (None, s')
        else (Some (release_packet_of_bytes bs), s'))"

definition sender_shutdown :: "ipc_sender \<Rightarrow> ipc_sender \<times> io_event list" where
  "sender_shutdown s =
     (let (c, cl1) = fd_reset (client_fd s); (v, cl2) = fd_reset (server_fd s);
          un = (if sender_path s \<noteq> [] then [Unlink (sender_path s)] else [])
      in (s\<lparr>client_fd := c, server_fd := v, sender_path := []\<rparr>, map Os (cl1 @ cl2 @ un)))"

lemma poll_release_shrinks:
  "poll_release s = (Some pkt, s') \<Longrightarrow> length (client_rx s') < length (client_rx s)"
  by (auto simp: poll_release_def Let_def split: if_splits)

section \<open>DmaBufProducer: state\<close>

record sync_stats =
  start_total_us :: u64
  end_total_us :: u64
  start_max_us :: u64
  end_max_us :: u64
  sync_samples :: u64

definition sync_stats_new :: sync_stats where
  "sync_stats_new = \<lparr>start_total_us = 0, end_total_us = 0, start_max_us = 0, end_max_us = 0,
     sync_samples = 0\<rparr>"

definition note_start :: "u64 \<Rightarrow> sync_stats \<Rightarrow> sync_stats" where
  "note_start us st = st\<lparr>start_total_us := start_total_us st + us,
     start_max_us := (if us > start_max_us st then us else start_max_us st)\<rparr>"

definition note_end :: "u64 \<Rightarrow> sync_stats \<Rightarrow> sync_stats" where
  "note_end us st = st\<lparr>end_total_us := end_total_us st + us,
     end_max_us := (if us > end_max_us st then us else end_max_us st)\<rparr>"

record producer_config =
  cfg_socket_path :: "string option"
  cfg_heap_path :: "string option"
  cfg_slot_count :: int
  cfg_width :: int
  cfg_height :: int
  cfg_relay_mode :: bool

record producer =
  pr_pool :: "slot_pool option"
  pr_sender :: "ipc_sender option"
  frame_counter :: int
  pr_width :: int
  pr_height :: int
  pr_slot_count :: int
  pr_stride :: u64
  pr_buffer_size :: u64
  pr_stats :: sync_stats
  relay_mode :: bool
  direct_released :: int

definition producer_new :: producer where
  "producer_new = \<lparr>pr_pool = None, pr_sender = None, frame_counter = 0, pr_width = 0,
     pr_height = 0, pr_slot_count = 0, pr_stride = 0, pr_buffer_size = 0,
     pr_stats = sync_stats_new, relay_mode = False, direct_released = 0\<rparr>"

datatype producer_error =
    BadDimensions
  | PoolError pool_error
  | SenderError sender_error
  | NotInitialized
  | NoFreeSlots
  | InvalidSlotState
  | SyncStartFailed
  | SyncEndFailed
  | SubmitSlotFailed

section \<open>Init\<close>

definition align_up :: "u64 \<Rightarrow> u64 \<Rightarrow> u64" where
  "align_up value alignment = (value + alignment - 1) AND NOT (alignment - 1)"

definition raw_frame_size :: "int \<Rightarrow> int \<Rightarrow> u64" where
  "raw_frame_size w h = u64_of_int w * u64_of_int h * 3"

definition make_init_packet :: "int \<Rightarrow> u64 \<Rightarrow> u64 \<Rightarrow> int \<Rightarrow> int \<Rightarrow> init_packet" where
  "make_init_packet slot_count stride bytes w h =
     \<lparr>ip_magic = IQ9_INIT_MAGIC, ip_slot_count = u32_of_int slot_count,
      ip_slot_stride = u32_of_u64 stride, ip_buffer_size = u32_of_u64 bytes,
      ip_width = u32_of_int w, ip_height = u32_of_int h, ip_channels = 3,
      ip_data_type = pixel_format_u32 PIXEL_FMT_RGB24\<rparr>"

definition discard_parts :: "producer \<Rightarrow> producer" where
  "discard_parts pr = pr\<lparr>pr_pool := None, pr_sender := None\<rparr>"

definition producer_init ::
  "heap_env \<Rightarrow> socket_env \<Rightarrow> producer_config \<Rightarrow> producer \<Rightarrow>
     (producer_error + unit) \<times> producer \<times> io_event list" where
  "producer_init henv senv cfg pr =
     (let socket_path = (case cfg_socket_path cfg of None \<Rightarrow> ''/tmp/dmabuf_ipc.sock'' | Some s \<Rightarrow> s);
          heap_path = (case cfg_heap_path cfg of None \<Rightarrow> ''/dev/dma_heap/qcom,system'' | Some s \<Rightarrow> s);
          slot_count = (if cfg_slot_count cfg \<le> 0 then 4 else cfg_slot_count cfg)
      in
      if cfg_width cfg \<le> 0 \<or> cfg_height cfg \<le> 0 then (Inl BadDimensions, pr, [])
      else
        let stride = align_up (raw_frame_size (cfg_width cfg) (cfg_height cfg)) 4096;
            size = stride * u64_of_int slot_count
        in
        case pool_init henv heap_path stride slot_count slot_pool_new of
          (Inl e, _, ev) \<Rightarrow> (Inl (PoolError e), pr\<lparr>pr_pool := None\<rparr>, map Os ev)
        | (Inr _, pool, ev) \<Rightarrow>
          (case sender_init senv (Some socket_path) ipc_sender_new of
             (Inl e, snd1, ev1) \<Rightarrow>
               (Inl (SenderError e), discard_parts pr,
                map Os ev @ ev1 @ map Os (snd (pool_shutdown pool)) @ snd (sender_shutdown snd1))
           | (Inr _, snd1, ev1) \<Rightarrow>
             (case accept_client senv snd1 of
                (Inl e, snd2, ev2) \<Rightarrow>
                  (Inl (SenderError e), discard_parts pr,
                   map Os ev @ ev1 @ ev2 @ snd (sender_shutdown snd2) @ map Os (snd (pool_shutdown pool)))
              | (Inr _, snd2, ev2) \<Rightarrow>
                let pr1 = pr\<lparr>pr_pool := Some pool, pr_sender := Some snd2,
                      pr_width := cfg_width cfg, pr_height := cfg_height cfg,
                      pr_slot_count := slot_count, pr_stride := stride, pr_buffer_size := size,
                      relay_mode := cfg_relay_mode cfg, direct_released := 0,
                      pr_stats := sync_stats_new\<rparr>;
                    pkt = make_init_packet slot_count stride size (cfg_width cfg) (cfg_height cfg)
                in
                (case send_init senv pkt (get_slot_fd pool 0) snd2 of
                   (Inl e, ev3) \<Rightarrow>
                     (Inl (SenderError e), discard_parts pr1,
                      map Os ev @ ev1 @ ev2 @ ev3 @ snd (sender_shutdown snd2) @ map Os (snd (pool_shutdown pool)))
                 | (Inr _, ev3) \<Rightarrow>
                     (Inr (), pr1\<lparr>frame_counter := 0\<rparr>, map Os ev @ ev1 @ ev2 @ ev3)))))"

definition producer_shutdown :: "producer \<Rightarrow> producer \<times> io_event list" where
  "producer_shutdown pr =
     (let ev1 = (case pr_sender pr of None \<Rightarrow> [] | Some s \<Rightarrow> snd (sender_shutdown s));
          ev2 = (case pr_pool pr of None \<Rightarrow> [] | Some p \<Rightarrow> map Os (snd (pool_shutdown p)))
      in (discard_parts pr, ev1 @ ev2))"

section \<open>Releases\<close>

text \<open>The loop of \<open>PollReleases\<close>: it ends because every packet shortens the receive queue.\<close>

function poll_loop :: "slot_pool \<Rightarrow> ipc_sender \<Rightarrow> int \<Rightarrow> slot_pool \<times> ipc_sender \<times> int" where
  "poll_loop pool s freed =
     (case poll_release s of
        (None, s') \<Rightarrow> (pool, s', freed)
      | (Some pkt, s') \<Rightarrow>
          let (ok, pool') = release_slot pool (int_of_u32 (rp_slot_index pkt))
          in poll_loop pool' s' (if ok then freed + 1 else freed))"
  by pat_completeness auto
termination
  by (relation "measure (\<lambda>(pool, s, freed). length (client_rx s))")
    (auto dest: poll_release_shrinks [OF sym])

declare poll_loop.simps [simp del]

definition poll_releases :: "producer \<Rightarrow> int \<times> producer" where
  "poll_releases pr =
     (case (pr_sender pr, pr_pool pr) of
        (Some s, Some p) \<Rightarrow>
          let (p', s', freed) = poll_loop p s 0
          in (freed, pr\<lparr>pr_pool := Some p', pr_sender := Some s'\<rparr>)
      | _ \<Rightarrow> (0, pr))"

definition release_slot_direct :: "u32 \<Rightarrow> producer \<Rightarrow> bool \<times> producer" where
  "release_slot_direct slot_index pr =
     (case pr_pool pr of
        None \<Rightarrow> (False, pr)
      | Some p \<Rightarrow>
          let (released, p') = release_slot p (int_of_u32 slot_index);
              pr' = pr\<lparr>pr_pool := Some p'\<rparr>
          in (released,
              if released then pr'\<lparr>direct_released := direct_released pr' + 1\<rparr> else pr'))"

section \<open>SubmitFrame\<close>

record submit_env =
  sync_start_rc :: int
  sync_start_us :: u64
  sync_end_rc :: int
  sync_end_us :: u64
  frame_send_n :: int

definition make_task_packet :: "int \<Rightarrow> int \<Rightarrow> int \<Rightarrow> u64 \<Rightarrow> task_packet" where
  "make_task_packet slot_idx w h ts =
     \<lparr>tp_magic = IQ9_TASK_MAGIC, tp_slot_index = u32_of_int slot_idx, tp_width = u32_of_int w,
      tp_height = u32_of_int h, tp_channels = 3,
      tp_data_type = pixel_format_u32 PIXEL_FMT_RGB24, tp_timestamp_ns = ts\<rparr>"

text \<open>The part of \<open>SubmitFrame\<close> after a slot is acquired, on the pool and the sender.\<close>

definition submit_acquired ::
  "submit_env \<Rightarrow> (int \<Rightarrow> u8) \<Rightarrow> int \<Rightarrow> int \<Rightarrow> int \<Rightarrow> int \<Rightarrow> u64 \<Rightarrow> slot_pool \<Rightarrow> ipc_sender \<Rightarrow> int \<Rightarrow> producer \<Rightarrow>
     (producer_error + u32) \<times> producer \<times> io_event list" where
  "submit_acquired env nv12 w h y_stride uv_offset ts pool s slot_idx pr =
     (let revert = (\<lambda>pr. pr\<lparr>pr_pool := Some (snd (revert_slot pool slot_idx))\<rparr>) in
      case get_slot_ptr pool slot_idx of
        None \<Rightarrow> (Inl InvalidSlotState, revert pr, [])
      | Some ptr \<Rightarrow>
        if get_slot_fd pool slot_idx < 0 then (Inl InvalidSlotState, revert pr, [])
        else
          let pr1 = pr\<lparr>pr_stats := note_start (sync_start_us env) (pr_stats pr)\<rparr> in
          if sync_start_rc env < 0 then (Inl SyncStartFailed, revert pr1, [])
          else
            let ev = [StoreBytes ptr (nv12_to_rgb24 nv12 uv_offset w h y_stride)];
                pr2 = pr1\<lparr>pr_stats := note_end (sync_end_us env) (pr_stats pr1)\<rparr> in
            if sync_end_rc env < 0 then (Inl SyncEndFailed, revert pr2, ev)
            else
              let pr3 = pr2\<lparr>pr_stats := (pr_stats pr2)\<lparr>sync_samples := sync_samples (pr_stats pr2) + 1\<rparr>\<rparr>;
                  pkt = make_task_packet slot_idx w h ts;
                  (res, ev2) = (if relay_mode pr3 then (Inr (), [])
                                else send_frame (frame_send_n env) pkt s)
              in case res of
                   Inl e \<Rightarrow> (Inl (SenderError e), revert pr3, ev @ ev2)
                 | Inr _ \<Rightarrow>
                     let (ok, pool') = submit_slot pool slot_idx in
                     if \<not> ok
                     then (Inl SubmitSlotFailed,
                           pr3\<lparr>pr_pool := Some (snd (revert_slot pool' slot_idx))\<rparr>, ev @ ev2)
                     else (Inr (u32_of_int slot_idx),
                           pr3\<lparr>pr_pool := Some pool', frame_counter := frame_counter pr3 + 1\<rparr>, ev @ ev2))"

definition submit_frame ::
  "submit_env \<Rightarrow> (int \<Rightarrow> u8) \<Rightarrow> int \<Rightarrow> int \<Rightarrow> int \<Rightarrow> int \<Rightarrow> u64 \<Rightarrow> producer \<Rightarrow>
     (producer_error + u32) \<times> producer \<times> io_event list" where
  "submit_frame env nv12 w h y_stride uv_offset ts pr =
     (if pr_pool pr = None \<or> pr_sender pr = None then (Inl NotInitialized, pr, [])
      else
        let pr0 = snd (poll_releases pr) in
        case (pr_pool pr0, pr_sender pr0) of
          (Some pool, Some s) \<Rightarrow>
            (case acquire_slot pool of (slot_idx, pool1) \<Rightarrow>
               if slot_idx < 0 then (Inl NoFreeSlots, pr0\<lparr>pr_pool := Some pool1\<rparr>, [])
               else submit_acquired env nv12 w h y_stride uv_offset ts pool1 s slot_idx
                      (pr0\<lparr>pr_pool := Some pool1\<rparr>))
        | _ \<Rightarrow> (Inl NotInitialized, pr0, []))"


section \<open>Lemmas on the polling loop\<close>

lemma poll_release_frame: "poll_release s = (r, s') \<Longrightarrow>
    server_fd s' = server_fd s \<and> client_fd s' = client_fd s \<and> sender_path s' = sender_path s"
  by (auto simp: poll_release_def Let_def split: if_splits)

lemma poll_loop_wf:
  "pool_wf pool \<Longrightarrow> pool_wf (fst (poll_loop pool s n))"
proof (induction pool s n rule: poll_loop.induct)
  case (1 pool s freed)
  obtain r s' where pr: "poll_release s = (r, s')" by force
  show ?case
  proof (cases r)
    case None
    with 1 pr show ?thesis by (subst poll_loop.simps) simp
  next
    case (Some pkt)
    obtain ok pool' where rel: "release_slot pool (int_of_u32 (rp_slot_index pkt)) = (ok, pool')"
      by force
    then have "pool_wf pool'" using sp.rel_inv [OF 1(2)] by (metis snd_conv)
    with 1(1) [OF pr [symmetric] Some rel [symmetric]] pr Some rel show ?thesis
      by (subst poll_loop.simps) simp
  qed
qed

lemma poll_release_packet:
  assumes "0 \<le> client_fd s" "client_rx s = release_packet_bytes pkt @ rest"
    and "rp_magic pkt = IQ9_RELEASE_MAGIC"
  shows "poll_release s = (Some pkt, s\<lparr>client_rx := rest\<rparr>)"
proof -
  have "release_packet_bytes pkt \<noteq> []"
    using c_release.length_enc [of pkt] by auto
  with assms show ?thesis
    by (simp add: poll_release_def Let_def c_release.length_enc c_release.dec_enc)
qed

lemma poll_release_short:
  assumes "0 \<le> client_fd s" "length (client_rx s) < 12"
  shows "poll_release s = (None, s\<lparr>client_rx := []\<rparr>)"
  using assms by (auto simp: poll_release_def Let_def)

text \<open>The number of release requests that find their slot in flight, in their order.\<close>

fun count_releases :: "slot_pool \<Rightarrow> release_packet list \<Rightarrow> int" where
  "count_releases p [] = 0"
| "count_releases p (pkt # pkts) =
     (let (ok, p') = release_slot p (int_of_u32 (rp_slot_index pkt))
      in (if ok then 1 else 0) + count_releases p' pkts)"

definition release_op :: "release_packet \<Rightarrow> slot_op" where
  "release_op pkt = Release (int_of_u32 (rp_slot_index pkt))"

lemma slot_step_release_op [simp]:
  "slot_step pool (release_op pkt) = snd (release_slot pool (int_of_u32 (rp_slot_index pkt)))"
  by (simp add: release_op_def)

lemma poll_loop_packets:
  assumes "0 \<le> client_fd s" "\<forall>pkt \<in> set pkts. rp_magic pkt = IQ9_RELEASE_MAGIC"
    and "client_rx s = concat (map release_packet_bytes pkts) @ rest" "length rest < 12"
  shows "poll_loop pool s n =
    (foldl slot_step pool (map release_op pkts), s\<lparr>client_rx := []\<rparr>, n + count_releases pool pkts)"
  using assms
proof (induction pkts arbitrary: pool s n)
  case Nil
  then have "poll_release s = (None, s\<lparr>client_rx := []\<rparr>)"
    by (intro poll_release_short) auto
  then show ?case by (subst poll_loop.simps) simp
next
  case (Cons pkt pkts)
  then have "poll_release s =
      (Some pkt, s\<lparr>client_rx := concat (map release_packet_bytes pkts) @ rest\<rparr>)"
    by (intro poll_release_packet) auto
  moreover obtain ok pool' where "release_slot pool (int_of_u32 (rp_slot_index pkt)) = (ok, pool')"
    by force
  ultimately show ?case
    using Cons by (subst poll_loop.simps) simp
qed


section \<open>Slot size\<close>

lemma and_not_mask_shift: "(x :: u64) AND NOT (mask n) = push_bit n (drop_bit n x)"
  by (rule bit_eqI) (auto simp: bit_simps)

lemma unat_round_down: "unat ((x :: u64) AND NOT 4095) = unat x div 4096 * 4096"
proof -
  have m: "(4095 :: u64) = mask 12" by (simp add: mask_eq_exp_minus_1)
  have "unat (push_bit 12 (drop_bit 12 x)) = unat x div 4096 * 4096 mod 2 ^ 64"
    by (simp add: unat_word_ariths push_bit_eq_mult unat_drop_bit_eq drop_bit_eq_div
        mod_mult_left_eq)
  moreover have "unat x div 4096 * 4096 < 2 ^ 64"
    using unat_u64_bound [of x] by (simp add: le_less_trans [OF div_times_less_eq_dividend])
  ultimately show ?thesis by (simp add: m and_not_mask_shift)
qed

lemma unat_align_up:
  assumes "unat v + 4095 < 2 ^ 64"
  shows "unat (align_up v 4096) = (unat v + 4095) div 4096 * 4096"
proof -
  have "v + 4096 - 1 = v + (4095 :: u64)" "(4096 :: u64) - 1 = 4095" by simp_all
  then have "align_up v 4096 = (v + 4095) AND NOT 4095"
    by (simp only: align_up_def)
  moreover have "unat (v + 4095) = unat v + 4095"
    using assms by (simp add: unat_word_ariths)
  ultimately show ?thesis by (simp only: unat_round_down)
qed

lemma unat_raw_frame_size:
  assumes "0 < w" "w < 2 ^ 31" "0 < h" "h < 2 ^ 31" "w * h * 3 < 2 ^ 63"
  shows "unat (raw_frame_size w h) = nat (w * h * 3)"
proof -
  have "unat (u64_of_int w) = nat w" "unat (u64_of_int h) = nat h"
    using assms by (simp_all add: unat_u64_of_int)
  moreover have "nat w * nat h * 3 = nat (w * h * 3)"
    using assms by (simp add: nat_mult_distrib)
  moreover have "nat (w * h * 3) < 2 ^ 64" using assms(5) by simp
  ultimately show ?thesis
    using assms by (simp add: raw_frame_size_def unat_word_ariths nat_mult_distrib mod_mult_left_eq)
qed


section \<open>What the producer promises\<close>

lemma reverted_status:
  assumes "pool_wf pool" "acquire_slot pool = (i, pool1)" "0 \<le> i"
  shows "pool_wf (snd (revert_slot pool1 i)) \<and>
         slot_status (snd (revert_slot pool1 i)) = slot_status pool"
  using sp.acq_rev_status [OF assms] sp.rev_inv [OF sp.acq_inv' [OF assms(1,2)]] by simp

lemma submitted_status:
  assumes "pool_wf pool" "acquire_slot pool = (i, pool1)" "0 \<le> i"
  shows "fst (submit_slot pool1 i) \<and> pool_wf (snd (submit_slot pool1 i)) \<and>
         slot_status (snd (submit_slot pool1 i)) = (slot_status pool)(i := Some ON_FLIGHT)"
  using sp.acq_sub_status [OF assms] sp.sub_inv [OF sp.acq_inv' [OF assms(1,2)]] by simp

text \<open>
  What \<open>SubmitFrame\<close> does to the pool, to the frame counter and to the outside, as a relation
  between the polled pool and the result.
\<close>

definition submit_outcome ::
  "slot_pool \<Rightarrow> producer \<Rightarrow> int \<Rightarrow> int \<Rightarrow> u64 \<Rightarrow> u8 list \<Rightarrow>
     (producer_error + u32) \<times> producer \<times> io_event list \<Rightarrow> bool" where
  "submit_outcome pool pr w h ts rgb result =
     (case result of
        (Inl e, pr', ev) \<Rightarrow> e \<noteq> SubmitSlotFailed \<and> frame_counter pr' = frame_counter pr \<and>
          (\<exists>p'. pr_pool pr' = Some p' \<and> pool_wf p' \<and> slot_status p' = slot_status pool)
      | (Inr idx, pr', ev) \<Rightarrow> frame_counter pr' = frame_counter pr + 1 \<and>
          (\<exists>p' i ptr. pr_pool pr' = Some p' \<and> pool_wf p' \<and> idx = u32_of_int i \<and>
             slot_status pool i = Some IDLE \<and>
             slot_status p' = (slot_status pool)(i := Some ON_FLIGHT) \<and>
             get_slot_ptr pool i = Some ptr \<and>
             ev = StoreBytes ptr rgb #
               (if relay_mode pr then []
                else [SendBytes (task_packet_bytes (make_task_packet i w h ts))])))"

lemma submit_outcome_cong:
  "frame_counter a = frame_counter b \<Longrightarrow> relay_mode a = relay_mode b \<Longrightarrow>
     submit_outcome pool a = submit_outcome pool b"
  unfolding submit_outcome_def by (simp only:)

lemma send_frame_ok:
  "send_frame n pkt s = (Inr u, ev) \<Longrightarrow> ev = [SendBytes (task_packet_bytes pkt)]"
  by (auto simp: send_frame_def sent_bytes_def Let_def c_task.length_enc split: if_splits)

lemma get_slot_ptr_acquired:
  "pool_wf pool \<Longrightarrow> acquire_slot pool = (i, pool1) \<Longrightarrow> 0 \<le> i \<Longrightarrow>
     get_slot_ptr pool1 i = get_slot_ptr pool i"
  by (auto dest!: acquire_slot_found simp: get_slot_ptr_def in_range_def Let_def split: option.splits)

lemma submit_acquired_outcome:
  assumes "pool_wf pool" "acquire_slot pool = (i, pool1)" "0 \<le> i"
  shows "submit_outcome pool pr w h ts (nv12_to_rgb24 nv12 uv w h ys)
           (submit_acquired env nv12 w h ys uv ts pool1 s i pr)"
proof -
  have idle: "slot_status pool i = Some IDLE" using sp.acq_idle [OF assms] by simp
  note facts = reverted_status [OF assms] submitted_status [OF assms] idle
    get_slot_ptr_acquired [OF assms]
  show ?thesis
    using facts
    by (auto simp: submit_acquired_def submit_outcome_def Let_def dest!: send_frame_ok
        split: option.splits sum.splits prod.splits if_splits)
qed


text \<open>The polled pool: what \<open>PollReleases\<close> leaves of the producer.\<close>

lemma poll_releases_some:
  assumes "pr_pool pr = Some pool" "pr_sender pr = Some s" "pool_wf pool"
    and "poll_loop pool s 0 = (pool', s', n)"
  shows "poll_releases pr = (n, pr\<lparr>pr_pool := Some pool', pr_sender := Some s'\<rparr>) \<and> pool_wf pool'"
  using assms poll_loop_wf [OF assms(3), of s 0] by (simp add: poll_releases_def)

lemma submit_frame_outcome:
  assumes "pr_pool pr = Some pool" "pr_sender pr = Some s" "pool_wf pool"
    and "poll_loop pool s 0 = (pool', s', n)"
  shows "submit_outcome pool' pr w h ts (nv12_to_rgb24 nv12 uv w h ys)
           (submit_frame env nv12 w h ys uv ts pr)"
proof -
  have polled: "poll_releases pr = (n, pr\<lparr>pr_pool := Some pool', pr_sender := Some s'\<rparr>)"
    and wf: "pool_wf pool'"
    using poll_releases_some [OF assms] by auto
  obtain i pool1 where acq: "acquire_slot pool' = (i, pool1)" by force
  have eq: "submit_frame env nv12 w h ys uv ts pr =
      (if i < 0 then (Inl NoFreeSlots, pr\<lparr>pr_sender := Some s', pr_pool := Some pool1\<rparr>, [])
       else submit_acquired env nv12 w h ys uv ts pool1 s' i
              (pr\<lparr>pr_sender := Some s', pr_pool := Some pool1\<rparr>))"
    using assms(1,2) by (simp add: submit_frame_def polled acq)
  show ?thesis
  proof (cases "i < 0")
    case True
    with sp.acq_full [OF wf acq] wf eq show ?thesis by (auto simp: submit_outcome_def)
  next
    case False
    then have "submit_outcome pool' (pr\<lparr>pr_sender := Some s', pr_pool := Some pool1\<rparr>) w h ts
        (nv12_to_rgb24 nv12 uv w h ys) (submit_frame env nv12 w h ys uv ts pr)"
      using eq submit_acquired_outcome [OF wf acq] by simp
    then show ?thesis
      by (subst submit_outcome_cong
          [where b = "pr\<lparr>pr_sender := Some s', pr_pool := Some pool1\<rparr>"]) simp_all
  qed
qed

text \<open>
  C2: SubmitFrame, against the pool as the releases that were waiting have left it: on every
  error path (no slot, invalid slot, either cache synchronisation failing, no client, a
  failed or short send) all slot states are what they were, so no slot leaks; on success
  exactly one slot, which was idle, is in flight, the converted frame was stored at that
  slot's address, and (unless the relay mode is on) exactly the 32 bytes of a task packet
  naming that slot were sent. The branch where SubmitSlot fails is unreachable.
\<close>

theorem submit_frame_no_leak:
  assumes "pr_pool pr = Some pool" "pr_sender pr = Some s" "pool_wf pool"
    and "poll_loop pool s 0 = (pool', s', n)"
    and "submit_frame env nv12 w h ys uv ts pr = (r, pr', ev)"
  shows "case r of
      Inl e \<Rightarrow> e \<noteq> SubmitSlotFailed \<and> frame_counter pr' = frame_counter pr \<and>
        (\<exists>p'. pr_pool pr' = Some p' \<and> pool_wf p' \<and> slot_status p' = slot_status pool')
    | Inr idx \<Rightarrow> frame_counter pr' = frame_counter pr + 1 \<and>
        (\<exists>p' i ptr. pr_pool pr' = Some p' \<and> pool_wf p' \<and> idx = u32_of_int i \<and>
           slot_status pool' i = Some IDLE \<and>
           slot_status p' = (slot_status pool')(i := Some ON_FLIGHT) \<and>
           get_slot_ptr pool' i = Some ptr \<and>
           ev = StoreBytes ptr (nv12_to_rgb24 nv12 uv w h ys) #
             (if relay_mode pr then []
              else [SendBytes (task_packet_bytes (make_task_packet i w h ts))]))"
  using submit_frame_outcome [OF assms(1-4), of w h ts nv12 uv ys env]
  unfolding assms(5) submit_outcome_def by (simp only: prod.case)

definition example_sender :: ipc_sender where
  "example_sender = \<lparr>server_fd = 5, client_fd = 6, sender_path = ''/tmp/s'',
     client_rx = release_packet_bytes \<lparr>rp_magic = IQ9_RELEASE_MAGIC, rp_slot_index = 1, rp_status = 0\<rparr>\<rparr>"

definition example_producer :: producer where
  "example_producer = producer_new\<lparr>pr_pool := Some example_pool, pr_sender := Some example_sender\<rparr>"

definition example_submit_env :: submit_env where
  "example_submit_env = \<lparr>sync_start_rc = 0, sync_start_us = 7, sync_end_rc = 0, sync_end_us = 9,
     frame_send_n = 32\<rparr>"

theorem submit_frame_no_leak_witness:
  "\<exists>r pr' ev. submit_frame example_submit_env (\<lambda>_. 0) 2 2 2 4 0 example_producer = (r, pr', ev) \<and>
     (\<exists>p'. pr_pool pr' = Some p' \<and> pool_wf p')"
proof -
  obtain pool' s' n where poll: "poll_loop example_pool example_sender 0 = (pool', s', n)"
    by (metis prod_cases3)
  obtain r pr' ev where
    sub: "submit_frame example_submit_env (\<lambda>_. 0) 2 2 2 4 0 example_producer = (r, pr', ev)"
    by (metis prod_cases3)
  have "pr_pool example_producer = Some example_pool" "pr_sender example_producer = Some example_sender"
    by (simp_all add: example_producer_def)
  from submit_frame_no_leak [OF this example_pool_wf poll sub] sub show ?thesis
    by (cases r) auto
qed


text \<open>
  PollReleases answers every complete release packet in the receive queue, in the order
  sent, exactly as that many ReleaseSlot calls, and counts those that freed a slot. It also
  consumes whatever follows the last complete packet: fewer than 12 bytes are read and
  thrown away, so a release packet that arrives in two parts frees nothing, whichever way
  it is split.
\<close>

theorem poll_releases_packets:
  assumes "0 \<le> client_fd s" "\<forall>pkt \<in> set pkts. rp_magic pkt = IQ9_RELEASE_MAGIC"
    and "length rest < 12"
    and "pr_pool pr = Some pool" "pr_sender pr = Some s"
    and "client_rx s = concat (map release_packet_bytes pkts) @ rest"
  shows "poll_releases pr =
      (count_releases pool pkts,
       pr\<lparr>pr_pool := Some (foldl slot_step pool (map release_op pkts)),
          pr_sender := Some (s\<lparr>client_rx := []\<rparr>)\<rparr>) \<and>
    (\<forall>pkt part1 part2. release_packet_bytes pkt = part1 @ part2 \<and> part1 \<noteq> [] \<and> part2 \<noteq> [] \<longrightarrow>
       poll_release (s\<lparr>client_rx := part1\<rparr>) = (None, s\<lparr>client_rx := []\<rparr>) \<and>
       poll_release (s\<lparr>client_rx := part2\<rparr>) = (None, s\<lparr>client_rx := []\<rparr>))"
proof -
  have split: "poll_release (s\<lparr>client_rx := part1\<rparr>) = (None, s\<lparr>client_rx := []\<rparr>) \<and>
       poll_release (s\<lparr>client_rx := part2\<rparr>) = (None, s\<lparr>client_rx := []\<rparr>)"
    if "release_packet_bytes pkt = part1 @ part2" "part1 \<noteq> []" "part2 \<noteq> []" for pkt part1 part2
  proof -
    have "length part1 + length part2 = 12"
      using c_release.length_enc [of pkt] that(1) by simp
    with that have "length part1 < 12" "length part2 < 12" by (auto simp: neq_Nil_conv)
    with assms(1) show ?thesis
      using poll_release_short [of "s\<lparr>client_rx := part1\<rparr>"]
        poll_release_short [of "s\<lparr>client_rx := part2\<rparr>"] by simp
  qed
  have "poll_releases pr =
      (count_releases pool pkts,
       pr\<lparr>pr_pool := Some (foldl slot_step pool (map release_op pkts)),
          pr_sender := Some (s\<lparr>client_rx := []\<rparr>)\<rparr>)"
    using assms poll_loop_packets [OF assms(1,2,6,3), of pool 0] by (simp add: poll_releases_def)
  with split show ?thesis by blast
qed

theorem poll_releases_packets_witness:
  "\<exists>pool'. poll_releases example_producer =
     (0, example_producer\<lparr>pr_pool := Some pool', pr_sender := Some (example_sender\<lparr>client_rx := []\<rparr>)\<rparr>)"
proof -
  have "count_releases example_pool [\<lparr>rp_magic = IQ9_RELEASE_MAGIC, rp_slot_index = 1, rp_status = 0\<rparr>] = 0"
    by (simp add: release_slot_def example_pool_eval in_range_def int_of_u32_def)
  moreover have
    "pr_pool example_producer = Some example_pool" "pr_sender example_producer = Some example_sender"
    by (simp_all add: example_producer_def)
  ultimately show ?thesis
    using poll_releases_packets [of example_sender
        "[\<lparr>rp_magic = IQ9_RELEASE_MAGIC, rp_slot_index = 1, rp_status = 0\<rparr>]" "[]"
        example_producer example_pool]
    by (auto simp: example_sender_def)
qed


text \<open>The descriptors that a log closes, in order.\<close>

fun closed_fds :: "io_event list \<Rightarrow> int list" where
  "closed_fds [] = []"
| "closed_fds (Os (Close fd) # ev) = fd # closed_fds ev"
| "closed_fds (_ # ev) = closed_fds ev"

lemma closed_fds_append [simp]: "closed_fds (xs @ ys) = closed_fds xs @ closed_fds ys"
  by (induction xs rule: closed_fds.induct) auto

text \<open>What a sender error at each point of \<open>Init\<close> means for the sockets that were opened.\<close>

fun opened_sockets :: "socket_env \<Rightarrow> sender_error \<Rightarrow> int list" where
  "opened_sockets env SocketFailed = []"
| "opened_sockets env (BindFailed _) = [env_socket env]"
| "opened_sockets env ListenFailed = [env_socket env]"
| "opened_sockets env AcceptFailed = [env_socket env]"
| "opened_sockets env SendInitPacketFailed = [env_accept env, env_socket env]"
| "opened_sockets env SendInitMsgFailed = [env_accept env, env_socket env]"
| "opened_sockets env _ = [env_accept env, env_socket env]"

lemma pool_init_ok:
  assumes "pool_init henv path stride n slot_pool_new = (Inr u, pool, ev)"
  shows "pool_wf pool \<and> initialized pool \<and> slot_stride pool = stride \<and> num_slots pool = n \<and>
    0 < n \<and> n \<le> 32 \<and> buffer_size pool = stride * word_of_int n \<and> env_alloc henv (buffer_size pool) = Some (shared_fd pool) \<and>
    ev = [Close (open_heap henv path)] \<and> base_ptr pool \<noteq> None"
proof -
  have "pool_wf pool"
    using pool_init_wf [OF pool_wf_new, of henv path stride n] assms by simp
  with assms show ?thesis
    by (auto simp: pool_init_def Let_def fd_move_assign_def fd_reset_def slot_pool_new_def
        kMaxSlots_def split: if_splits option.splits)
qed

lemma pool_shutdown_closes:
  "0 \<le> shared_fd pool \<Longrightarrow> closed_fds (map Os (snd (pool_shutdown pool))) = [shared_fd pool]"
  by (auto simp: pool_shutdown_def fd_reset_def Let_def split: option.splits)


text \<open>The three stages of the socket that \<open>Init\<close> goes through, from a fresh sender.\<close>

lemma sender_init_cases:
  assumes "sender_init senv (Some path) ipc_sender_new = (r, s, ev)"
  shows "closed_fds ev @ closed_fds (snd (sender_shutdown s)) =
      (if env_socket senv < 0 then [] else [env_socket senv]) \<and>
    (case r of
       Inl e \<Rightarrow> mset (opened_sockets senv e) =
         mset (if env_socket senv < 0 then [] else [env_socket senv])
     | Inr _ \<Rightarrow> 0 \<le> env_socket senv \<and> s = \<lparr>server_fd = env_socket senv, client_fd = - 1,
         sender_path = path, client_rx = []\<rparr> \<and> closed_fds ev = [])"
  using assms
  by (auto simp: sender_init_def ipc_sender_new_def Let_def fd_move_assign_def fd_reset_def
      sender_shutdown_def split: if_splits)

lemma accept_client_cases:
  assumes "s = \<lparr>server_fd = fd, client_fd = - 1, sender_path = path, client_rx = []\<rparr>" "0 \<le> fd"
    and "accept_client senv s = (r, s', ev)"
  shows "case r of
      Inl e \<Rightarrow> e = AcceptFailed \<and> ev = [] \<and> closed_fds (snd (sender_shutdown s')) = [fd]
    | Inr _ \<Rightarrow> ev = [] \<and> s' = s\<lparr>client_fd := env_accept senv, client_rx := []\<rparr> \<and>
        closed_fds (snd (sender_shutdown s')) = [env_accept senv, fd]"
  using assms
  by (auto simp: accept_client_def Let_def fd_move_assign_def fd_reset_def sender_shutdown_def
      split: if_splits)

lemma send_init_cases:
  assumes "0 \<le> client_fd s" "send_init senv pkt fd s = (r, ev)"
  shows "closed_fds ev = [] \<and>
    (case r of
       Inl e \<Rightarrow> e = SendInitPacketFailed \<or> e = SendInitInvalidFd \<or> e = SendInitMsgFailed
     | Inr _ \<Rightarrow> ev = [SendBytes (init_packet_bytes pkt), SendBytes [0xFF], PassFd fd] \<and> 0 \<le> fd)"
  using assms
  by (auto simp: send_init_def Let_def sent_bytes_def c_init.length_enc split: if_splits)


definition stride_of :: "producer_config \<Rightarrow> u64" where
  "stride_of cfg = align_up (raw_frame_size (cfg_width cfg) (cfg_height cfg)) 4096"

definition slot_count_of :: "producer_config \<Rightarrow> int" where
  "slot_count_of cfg = (if cfg_slot_count cfg \<le> 0 then 4 else cfg_slot_count cfg)"

definition init_packet_of :: "producer_config \<Rightarrow> init_packet" where
  "init_packet_of cfg = make_init_packet (slot_count_of cfg) (stride_of cfg)
     (stride_of cfg * u64_of_int (slot_count_of cfg)) (cfg_width cfg) (cfg_height cfg)"

lemma discard_parts_none [simp]:
  "pr_pool (discard_parts pr) = None" "pr_sender (discard_parts pr) = None"
  by (simp_all add: discard_parts_def)

lemma get_slot_fd_0: "0 < num_slots pool \<Longrightarrow> get_slot_fd pool 0 = shared_fd pool"
  by (simp add: get_slot_fd_def in_range_def)


definition socket_path_of :: "producer_config \<Rightarrow> string" where
  "socket_path_of cfg =
     (case cfg_socket_path cfg of None \<Rightarrow> ''/tmp/dmabuf_ipc.sock'' | Some s \<Rightarrow> s)"

definition heap_path_of :: "producer_config \<Rightarrow> string" where
  "heap_path_of cfg =
     (case cfg_heap_path cfg of None \<Rightarrow> ''/dev/dma_heap/qcom,system'' | Some s \<Rightarrow> s)"

lemmas config_defs = stride_of_def slot_count_of_def init_packet_of_def socket_path_of_def
  heap_path_of_def

lemma pool_init_fd:
  assumes "pool_init henv path stride n slot_pool_new = (Inr u, pool, ev)"
    and "\<forall>sz fd. env_alloc henv sz = Some fd \<longrightarrow> 0 \<le> fd"
  shows "0 \<le> shared_fd pool \<and> get_slot_fd pool 0 = shared_fd pool \<and>
    closed_fds (map Os ev) = [open_heap henv path] \<and>
    closed_fds (map Os (snd (pool_shutdown pool))) = [shared_fd pool]"
  using pool_init_ok [OF assms(1)] assms(2) pool_shutdown_closes [of pool] get_slot_fd_0 [of pool]
  by auto

lemma producer_init_cases:
  assumes fds: "\<forall>sz fd. env_alloc henv sz = Some fd \<longrightarrow> 0 \<le> fd"
    and res: "producer_init henv senv cfg pr = (r, pr', ev)"
  shows "case r of
      Inl e \<Rightarrow>
        (case e of
           BadDimensions \<Rightarrow> (cfg_width cfg \<le> 0 \<or> cfg_height cfg \<le> 0) \<and> pr' = pr \<and> ev = []
         | PoolError _ \<Rightarrow> pr_pool pr' = None
         | SenderError se \<Rightarrow> pr_pool pr' = None \<and> pr_sender pr' = None \<and>
             (\<exists>fd sz. env_alloc henv sz = Some fd \<and>
                mset (closed_fds ev) =
                  mset (open_heap henv (heap_path_of cfg) # fd # opened_sockets senv se))
         | _ \<Rightarrow> False)
    | Inr _ \<Rightarrow> \<exists>pool s ev'. pr_pool pr' = Some pool \<and> pr_sender pr' = Some s \<and> pool_wf pool \<and>
        initialized pool \<and> num_slots pool = slot_count_of cfg \<and> slot_stride pool = stride_of cfg \<and>
        server_fd s = env_socket senv \<and> client_fd s = env_accept senv \<and>
        frame_counter pr' = 0 \<and> closed_fds ev = [open_heap henv (heap_path_of cfg)] \<and>
        ev = ev' @ [SendBytes (init_packet_bytes (init_packet_of cfg)), SendBytes [0xFF],
          PassFd (shared_fd pool)]"
proof -
  note res' = res [unfolded producer_init_def Let_def, folded stride_of_def slot_count_of_def
      socket_path_of_def heap_path_of_def, folded init_packet_of_def]
  show ?thesis
  proof (cases "cfg_width cfg \<le> 0 \<or> cfg_height cfg \<le> 0")
    case True
    with res' show ?thesis by auto
  next
    case dims: False
    obtain r1 pool ev1 where
      p: "pool_init henv (heap_path_of cfg) (stride_of cfg) (slot_count_of cfg) slot_pool_new =
        (r1, pool, ev1)" by (metis prod_cases3)
    show ?thesis
    proof (cases r1)
      case (Inl e)
      with res' p dims show ?thesis by auto
    next
      case ok1: (Inr u)
      note pool = pool_init_fd [OF p [unfolded ok1] fds] pool_init_ok [OF p [unfolded ok1]]
      obtain r2 s2 ev2 where s: "sender_init senv (Some (socket_path_of cfg)) ipc_sender_new =
          (r2, s2, ev2)" by (metis prod_cases3)
      note sc = sender_init_cases [OF s]
      show ?thesis
      proof (cases r2)
        case (Inl e)
        then have closed: "mset (closed_fds ev2) + mset (closed_fds (snd (sender_shutdown s2))) =
            mset (opened_sockets senv e)"
          using sc by (simp only: mset_append [symmetric] sum.case)
        from Inl res' p dims ok1 s have eq: "r = Inl (SenderError e)" "pr' = discard_parts pr"
          "ev = map Os ev1 @ ev2 @ map Os (snd (pool_shutdown pool)) @ snd (sender_shutdown s2)"
          by simp_all
        have "mset (closed_fds ev) =
            mset (open_heap henv (heap_path_of cfg) # shared_fd pool # opened_sockets senv e)"
          unfolding eq using pool by (simp add: closed [symmetric])
        with eq pool show ?thesis by fastforce
      next
        case ok2: (Inr u2)
        with sc have s2: "s2 = \<lparr>server_fd = env_socket senv, client_fd = - 1,
            sender_path = socket_path_of cfg, client_rx = []\<rparr>" "0 \<le> env_socket senv"
          "closed_fds ev2 = []" by auto
        obtain r3 s3 ev3 where a: "accept_client senv s2 = (r3, s3, ev3)" by (metis prod_cases3)
        note ac = accept_client_cases [OF s2(1,2) a]
        show ?thesis
        proof (cases r3)
          case (Inl e)
          from Inl res' p dims ok1 s ok2 a ac have eq: "r = Inl (SenderError AcceptFailed)"
            "pr' = discard_parts pr"
            "ev = map Os ev1 @ ev2 @ snd (sender_shutdown s3) @ map Os (snd (pool_shutdown pool))"
            by simp_all
          have "mset (closed_fds ev) = mset (open_heap henv (heap_path_of cfg) # shared_fd pool #
              opened_sockets senv AcceptFailed)"
            unfolding eq using Inl ac pool s2 by simp
          with eq pool show ?thesis by fastforce
        next
          case ok3: (Inr u3)
          with a s2 have acc: "0 \<le> client_fd s3"
            by (auto simp: accept_client_def Let_def fd_move_assign_def split: if_splits)
          obtain r4 ev4 where i: "send_init senv (init_packet_of cfg) (get_slot_fd pool 0) s3 =
              (r4, ev4)" by force
          note ic = send_init_cases [OF acc i]
          show ?thesis
          proof (cases r4)
            case (Inl e)
            from Inl res' p dims ok1 s ok2 a ok3 i ac have eq: "r = Inl (SenderError e)"
              "pr_pool pr' = None" "pr_sender pr' = None"
              "ev = map Os ev1 @ ev2 @ ev4 @ snd (sender_shutdown s3) @
                 map Os (snd (pool_shutdown pool))"
              by auto
            have "opened_sockets senv e = [env_accept senv, env_socket senv]"
              using Inl ic by auto
            moreover have closed3: "closed_fds (snd (sender_shutdown s3)) =
                [env_accept senv, env_socket senv]"
              using ok3 ac by auto
            ultimately have "mset (closed_fds ev) = mset (open_heap henv (heap_path_of cfg) #
                shared_fd pool # opened_sockets senv e)"
              unfolding eq using ic pool s2(3) by simp
            with eq pool show ?thesis by fastforce
          next
            case (Inr u4)
            from Inr res' p dims ok1 s ok2 a ok3 i have eq: "r = Inr ()" "frame_counter pr' = 0"
              "pr_pool pr' = Some pool" "pr_sender pr' = Some s3" "ev = map Os ev1 @ ev2 @ ev3 @ ev4"
              by auto
            with Inr ok3 ac ic pool s2 show ?thesis by auto
          qed
        qed
      qed
    qed
  qed
qed


text \<open>
  Init of the producer on every path: bad dimensions change nothing; when the pool
  fails nothing is kept; when the socket, bind, listen, accept or the handshake fails, no
  pool and no sender are kept and exactly the descriptors opened so far (heap device, frame
  buffer, listening socket, accepted connection) are closed, each once. On success the pool
  is well-formed with the configured number of slots (4 when none is configured), the heap
  device alone is closed, and the last things sent are the init packet, the marker byte and
  the buffer's descriptor.
\<close>

theorem producer_init_paths:
  assumes fds: "\<forall>sz fd. env_alloc henv sz = Some fd \<longrightarrow> 0 \<le> fd"
    and res: "producer_init henv senv cfg pr = (r, pr', ev)"
  shows "case r of
      Inl e \<Rightarrow>
        (case e of
           BadDimensions \<Rightarrow> (cfg_width cfg \<le> 0 \<or> cfg_height cfg \<le> 0) \<and> pr' = pr \<and> ev = []
         | PoolError _ \<Rightarrow> pr_pool pr' = None
         | SenderError se \<Rightarrow> pr_pool pr' = None \<and> pr_sender pr' = None \<and>
             (\<exists>fd sz. env_alloc henv sz = Some fd \<and>
                mset (closed_fds ev) =
                  mset (open_heap henv (heap_path_of cfg) # fd # opened_sockets senv se))
         | _ \<Rightarrow> False)
    | Inr _ \<Rightarrow> \<exists>pool s ev'. pr_pool pr' = Some pool \<and> pr_sender pr' = Some s \<and> pool_wf pool \<and>
        initialized pool \<and> num_slots pool = slot_count_of cfg \<and> slot_stride pool = stride_of cfg \<and>
        server_fd s = env_socket senv \<and> client_fd s = env_accept senv \<and>
        frame_counter pr' = 0 \<and> closed_fds ev = [open_heap henv (heap_path_of cfg)] \<and>
        ev = ev' @ [SendBytes (init_packet_bytes (init_packet_of cfg)), SendBytes [0xFF],
          PassFd (shared_fd pool)]"
  using assms by (rule producer_init_cases)

definition example_socket_env :: socket_env where
  "example_socket_env = \<lparr>env_socket = 5, env_bind = (\<lambda>_. 0), env_listen = 0, env_accept = 6,
     env_send_init = 32, env_sendmsg = 1\<rparr>"

definition example_config :: producer_config where
  "example_config = \<lparr>cfg_socket_path = None, cfg_heap_path = None, cfg_slot_count = 0,
     cfg_width = 64, cfg_height = 48, cfg_relay_mode = False\<rparr>"

theorem producer_init_paths_witness:
  "\<exists>pr' ev. producer_init example_env (example_socket_env\<lparr>env_accept := - 1\<rparr>) example_config
       producer_new = (Inl (SenderError AcceptFailed), pr', ev) \<and> pr_pool pr' = None \<and>
     (\<exists>fd. mset (closed_fds ev) = mset [3, fd, 5])"
proof -
  have fds: "\<forall>sz fd. env_alloc example_env sz = Some fd \<longrightarrow> 0 \<le> fd"
    by (simp add: example_env_def)
  have "align_up (raw_frame_size 64 48) 4096 = 12288"
    by (simp add: align_up_def raw_frame_size_def u64_of_int_def)
  then obtain pr' ev where eq: "producer_init example_env (example_socket_env\<lparr>env_accept := - 1\<rparr>)
      example_config producer_new = (Inl (SenderError AcceptFailed), pr', ev)"
    by (simp add: producer_init_def example_config_def pool_init_def example_env_def
        example_socket_env_def open_heap_def kMaxSlots_def slot_pool_new_def fd_move_assign_def
        fd_reset_def sender_init_def ipc_sender_new_def accept_client_def Let_def)
  have "open_heap example_env x = 3" for x
    by (simp add: open_heap_def example_env_def)
  with producer_init_paths [OF fds eq] eq show ?thesis
    by (auto simp: example_socket_env_def)
qed

lemma small_frame: "int n < 2 ^ 62 \<Longrightarrow> n + 4095 < 2 ^ 64" for n :: nat
  by simp

lemma round_up_bounds:
  fixes n :: nat
  shows "n \<le> (n + 4095) div 4096 * 4096" "(n + 4095) div 4096 * 4096 < n + 4096"
proof -
  obtain q r where qr: "(n + 4095) div 4096 = q" "(n + 4095) mod 4096 = r" by simp
  have "q * 4096 + r = n + 4095" "r < 4096"
    using div_mult_mod_eq [of "n + 4095" 4096] mod_less_divisor [of 4096 "n + 4095"]
    unfolding qr by auto
  then show "n \<le> (n + 4095) div 4096 * 4096" "(n + 4095) div 4096 * 4096 < n + 4096"
    unfolding qr by linarith+
qed

lemma stride_of_bounds:
  assumes "0 < cfg_width cfg" "cfg_width cfg < 2 ^ 31" "0 < cfg_height cfg" "cfg_height cfg < 2 ^ 31"
    and "cfg_width cfg * cfg_height cfg * 3 < 2 ^ 62"
  shows "4096 dvd unat (stride_of cfg)"
    "nat (cfg_width cfg * cfg_height cfg * 3) \<le> unat (stride_of cfg)"
    "unat (stride_of cfg) < nat (cfg_width cfg * cfg_height cfg * 3) + 4096"
proof -
  let ?n = "nat (cfg_width cfg * cfg_height cfg * 3)"
  have raw: "unat (raw_frame_size (cfg_width cfg) (cfg_height cfg)) = ?n"
    by (rule unat_raw_frame_size [OF assms(1-4)]) (rule less_trans [OF assms(5)], simp)
  have "unat (stride_of cfg) = (?n + 4095) div 4096 * 4096"
    unfolding stride_of_def
  proof (subst unat_align_up)
    have "int ?n < 2 ^ 62" using assms(1,3,5) by simp
    then show "unat (raw_frame_size (cfg_width cfg) (cfg_height cfg)) + 4095 < 2 ^ 64"
      unfolding raw by (rule small_frame)
  qed (simp only: raw)
  moreover note round_up_bounds [of ?n]
  ultimately show "4096 dvd unat (stride_of cfg)" "?n \<le> unat (stride_of cfg)"
      "unat (stride_of cfg) < ?n + 4096"
    by auto
qed

text \<open>
  A slot of an initialised producer holds a frame of the configured size: the stride is
  the frame's 3 * width * height bytes rounded up to the next multiple of 4096, so the bytes
  that SubmitFrame stores for a frame of at most that many pixels end inside the slot's own
  window. (Nothing in SubmitFrame checks the size: the bound is on its arguments.)
\<close>

theorem frame_fits_slot:
  assumes "cfg_width cfg < 2 ^ 31" "cfg_height cfg < 2 ^ 31"
    and "cfg_width cfg * cfg_height cfg * 3 < 2 ^ 62"
    and fds: "\<forall>sz fd. env_alloc henv sz = Some fd \<longrightarrow> 0 \<le> fd"
    and init: "producer_init henv senv cfg pr = (Inr u, pr', ev)"
    and pool: "pr_pool pr' = Some pool" and i: "in_range pool i"
    and size: "w * h \<le> cfg_width cfg * cfg_height cfg" "0 \<le> w" "0 \<le> h"
  shows "4096 dvd unat (slot_stride pool) \<and>
    int (unat (slot_stride pool)) < cfg_width cfg * cfg_height cfg * 3 + 4096 \<and>
    unat (get_slot_offset pool i) + length (nv12_to_rgb24 nv12 uv w h ys) \<le>
      unat (get_slot_offset pool i) + unat (get_slot_stride pool i) \<and>
    unat (get_slot_offset pool i) + unat (get_slot_stride pool i) \<le> unat (get_buffer_size pool)"
proof -
  let ?n = "nat (cfg_width cfg * cfg_height cfg * 3)"
  have pos: "0 < cfg_width cfg" "0 < cfg_height cfg"
    using init by (auto simp: producer_init_def Let_def split: if_splits)
  have wf: "pool_wf pool" "initialized pool" "slot_stride pool = stride_of cfg"
    using producer_init_cases [OF fds init] pool by auto
  note st = stride_of_bounds [OF pos(1) assms(1) pos(2) assms(2,3), folded wf(3)]
  have n: "int ?n = cfg_width cfg * cfg_height cfg * 3" using pos by simp
  have "nat (w * h) \<le> nat (cfg_width cfg * cfg_height cfg)"
    using size(1) by simp
  then have len: "length (nv12_to_rgb24 nv12 uv w h ys) \<le> ?n"
    using size(2,3) pos by (simp add: length_nv12_to_rgb24 nat_mult_distrib)
  have k: "nat i < length (slots pool)" by (rule in_range_nth [OF wf(1) i])
  then have "Suc (nat i) * unat (slot_stride pool) \<le> length (slots pool) * unat (slot_stride pool)"
    by (intro mult_le_mono1) simp
  with wf(1,2) k i have "unat (get_slot_offset pool i) + unat (get_slot_stride pool i) \<le>
      unat (get_buffer_size pool)"
    by (simp add: pool_wf_def get_slot_offset_def get_slot_stride_def get_buffer_size_def
        mult.commute)
  moreover have "unat (get_slot_stride pool i) = unat (slot_stride pool)"
    using i by (simp add: get_slot_stride_def)
  ultimately show ?thesis using st len n by linarith
qed


theorem frame_fits_slot_witness:
  "\<exists>pr' ev pool. producer_init example_env example_socket_env example_config producer_new =
       (Inr (), pr', ev) \<and> pr_pool pr' = Some pool \<and> 4096 dvd unat (slot_stride pool)"
proof -
  have fds: "\<forall>sz fd. env_alloc example_env sz = Some fd \<longrightarrow> 0 \<le> fd"
    by (simp add: example_env_def)
  have "align_up (raw_frame_size 64 48) 4096 = 12288"
    by (simp add: align_up_def raw_frame_size_def u64_of_int_def)
  then obtain pr' ev where eq: "producer_init example_env example_socket_env example_config
      producer_new = (Inr (), pr', ev)"
    by (simp add: producer_init_def example_config_def pool_init_def example_env_def
        example_socket_env_def open_heap_def kMaxSlots_def slot_pool_new_def fd_move_assign_def
        fd_reset_def sender_init_def ipc_sender_new_def accept_client_def Let_def send_init_def
        sent_bytes_def get_slot_fd_def in_range_def)
  obtain pool where pool: "pr_pool pr' = Some pool" "num_slots pool = slot_count_of example_config"
    using producer_init_cases [OF fds eq] by auto
  then have "in_range pool 0" by (simp add: in_range_def slot_count_of_def example_config_def)
  then have "4096 dvd unat (slot_stride pool)"
    using frame_fits_slot [OF _ _ _ fds eq pool(1), of 0 64 48] by (simp add: example_config_def)
  with eq pool show ?thesis by blast
qed

end
