(* ===== verification/Consumer.thy ===== *)
theory Consumer
  imports Producer
begin

text \<open>
  The frame consumer: the connecting end of the Unix socket
  (\<open>dmabuf_consumer/src/ipc_receiver.cpp\<close>) and \<open>DmaBufConsumer\<close>
  (\<open>dmabuf_consumer/src/consumer.cpp\<close>): the handshake with all its checks, \<open>MapFrame\<close> with
  its bounds, \<open>ReleaseFrame\<close>, \<open>Shutdown\<close>. The last section puts producer and consumer
  together: what the one sends, the other accepts and reads back.
\<close>

section \<open>IpcReceiver\<close>

text \<open>
  What a blocking read gives (None: a negative return, an empty list: end of file), and what
  \<open>recvmsg\<close> gives: None for a return of 0 or less, otherwise the descriptor in the control
  message, if there is one.
\<close>

record receiver_env =
  re_socket :: int
  re_connect :: "string \<Rightarrow> int"
  re_recv_init :: "u8 list option"
  re_recvmsg :: "int option option"

type_synonym ipc_receiver = dma_buf_fd

datatype receiver_error =
    RSocketFailed
  | SocketPathTooLong
  | ConnectFailed
  | RecvInitNotConnected
  | RecvInitEof
  | RecvInitFailed
  | RecvInitShort int
  | RecvInitBadMagic u32
  | RecvInitBadSlotCount int
  | RecvInitMsgFailed
  | RecvInitNoFd
  | RecvFrameEof
  | RecvFrameFailed
  | RecvFrameShort int
  | RecvFrameBadMagic u32
  | SendReleaseFailed
  | SendReleaseShort int

definition receiver_connect ::
  "receiver_env \<Rightarrow> string \<Rightarrow> ipc_receiver \<Rightarrow> (receiver_error + unit) \<times> ipc_receiver \<times> os_event list" where
  "receiver_connect env path sock =
     (let fd = re_socket env in
      if fd < 0 then (Inl RSocketFailed, sock, [])
      else
        let (sock1, _, closes) = fd_move_assign sock fd in
        if length path \<ge> 108 then
          (let (sock2, cl) = fd_reset sock1 in (Inl SocketPathTooLong, sock2, closes @ cl))
        else if re_connect env path < 0 then
          (let (sock2, cl) = fd_reset sock1 in (Inl ConnectFailed, sock2, closes @ cl))
        else (Inr (), sock1, closes))"

definition recv_init ::
  "receiver_env \<Rightarrow> ipc_receiver \<Rightarrow> receiver_error + (init_packet \<times> int)" where
  "recv_init env sock =
     (if sock < 0 then Inl RecvInitNotConnected
      else
        case re_recv_init env of
          None \<Rightarrow> Inl RecvInitFailed
        | Some bs \<Rightarrow>
            if bs = [] then Inl RecvInitEof
            else if length bs \<noteq> 32 then Inl (RecvInitShort (int (length bs)))
            else
              let pkt = init_packet_of_bytes bs; slot_count = int_of_u32 (ip_slot_count pkt) in
              if ip_magic pkt \<noteq> IQ9_INIT_MAGIC then Inl (RecvInitBadMagic (ip_magic pkt))
              else if slot_count \<le> 0 then Inl (RecvInitBadSlotCount slot_count)
              else
                case re_recvmsg env of
                  None \<Rightarrow> Inl RecvInitMsgFailed
                | Some ctrl \<Rightarrow>
                    let received_fd = (case ctrl of None \<Rightarrow> - 1 | Some fd \<Rightarrow> fd) in
                    if received_fd < 0 then Inl RecvInitNoFd else Inr (pkt, received_fd))"

definition recv_task :: "u8 list option \<Rightarrow> receiver_error + task_packet" where
  "recv_task got =
     (case got of
        None \<Rightarrow> Inl RecvFrameFailed
      | Some bs \<Rightarrow>
          if bs = [] then Inl RecvFrameEof
          else if length bs \<noteq> 32 then Inl (RecvFrameShort (int (length bs)))
          else
            let pkt = task_packet_of_bytes bs in
            if tp_magic pkt \<noteq> IQ9_TASK_MAGIC then Inl (RecvFrameBadMagic (tp_magic pkt))
            else Inr pkt)"

text \<open>\<open>n\<close> is what \<open>send\<close> returned; the bytes it took are sent even when it took too few.\<close>

definition send_release ::
  "int \<Rightarrow> release_packet \<Rightarrow> (receiver_error + unit) \<times> io_event list" where
  "send_release n pkt =
     (let ev = sent_bytes n (release_packet_bytes pkt) in
      if n < 0 then (Inl SendReleaseFailed, ev)
      else if n \<noteq> 12 then (Inl (SendReleaseShort n), ev)
      else (Inr (), ev))"

definition receiver_shutdown :: "ipc_receiver \<Rightarrow> ipc_receiver \<times> os_event list" where
  "receiver_shutdown sock = fd_reset sock"

section \<open>DmaBufConsumer\<close>

record consumer =
  cs_receiver :: ipc_receiver
  cs_initialized :: bool
  cs_shared_fd :: int
  cs_base :: "u64 option"
  cs_stride :: u64
  cs_buffer_size :: u64
  cs_stats :: sync_stats
  cs_slot_count :: int

definition consumer_new :: consumer where
  "consumer_new = \<lparr>cs_receiver = - 1, cs_initialized = False, cs_shared_fd = - 1, cs_base = None,
     cs_stride = 0, cs_buffer_size = 0, cs_stats = sync_stats_new, cs_slot_count = 0\<rparr>"

record frame =
  fr_fd :: int
  fr_data :: u64
  fr_width :: u32
  fr_height :: u32
  fr_channels :: u32
  fr_data_size :: u32
  fr_timestamp_ns :: u64
  fr_slot_index :: u32
  fr_slot_stride :: u32
  fr_slot_offset :: u64

datatype consumer_error =
    ConsumerAlreadyInitialized
  | ReceiverError receiver_error
  | InvalidSlotCount
  | SizesOutOfRange
  | BufferSizeMismatch
  | ConsumerMmapFailed
  | ConsumerNotInitialized
  | InvalidTaskMagic
  | SlotIndexOutOfRange int
  | FrameExceedsWindow

definition kMaxBufferSize :: u64 where
  "kMaxBufferSize = 128 * 1024 * 1024"

definition with_receiver :: "consumer \<Rightarrow> ipc_receiver \<times> os_event list \<Rightarrow> consumer" where
  "with_receiver c r = c\<lparr>cs_receiver := fst r\<rparr>"

definition consumer_init ::
  "receiver_env \<Rightarrow> (u64 \<Rightarrow> int \<Rightarrow> u64 option) \<Rightarrow> string \<Rightarrow> consumer \<Rightarrow>
     (consumer_error + unit) \<times> consumer \<times> os_event list" where
  "consumer_init env do_mmap path c =
     (if cs_initialized c then (Inl ConsumerAlreadyInitialized, c, [])
      else case receiver_connect env path (cs_receiver c) of
        (Inl e, sock, ev) \<Rightarrow> (Inl (ReceiverError e), c\<lparr>cs_receiver := sock\<rparr>, ev)
      | (Inr _, sock, ev) \<Rightarrow>
        let c1 = c\<lparr>cs_receiver := sock\<rparr>; down = receiver_shutdown sock in
        (case recv_init env sock of
           Inl e \<Rightarrow> (Inl (ReceiverError e), with_receiver c1 down, ev @ snd down)
         | Inr (pkt, fd) \<Rightarrow>
             let slot_count = int_of_u32 (ip_slot_count pkt);
                 stride = u64_of_u32 (ip_slot_stride pkt);
                 bytes = u64_of_u32 (ip_buffer_size pkt);
                 close_fd = (if fd \<ge> 0 then [Close fd] else [])
             in
             if slot_count \<le> 0 \<or> slot_count > kMaxSlots
             then (Inl InvalidSlotCount, with_receiver c1 down, ev @ close_fd @ snd down)
             else if stride = 0 \<or> bytes = 0 \<or> bytes > kMaxBufferSize
             then (Inl SizesOutOfRange, with_receiver c1 down, ev @ close_fd @ snd down)
             else if stride * u64_of_int slot_count \<noteq> bytes
             then (Inl BufferSizeMismatch, with_receiver c1 down, ev @ close_fd @ snd down)
             else
               case do_mmap bytes fd of
                 None \<Rightarrow> (Inl ConsumerMmapFailed, with_receiver c1 down,
                   ev @ [Close fd] @ snd down)
               | Some ptr \<Rightarrow>
                   (Inr (),
                    c1\<lparr>cs_shared_fd := fd, cs_base := Some ptr, cs_stride := stride,
                       cs_buffer_size := bytes, cs_stats := sync_stats_new,
                       cs_slot_count := slot_count, cs_initialized := True\<rparr>,
                    ev)))"

definition consumer_shutdown :: "consumer \<Rightarrow> consumer \<times> os_event list" where
  "consumer_shutdown c =
     (if cs_initialized c then
        let unmaps = (case cs_base c of
                        Some ptr \<Rightarrow> if cs_buffer_size c > 0 then [Munmap ptr (cs_buffer_size c)] else []
                      | None \<Rightarrow> []);
            closes = (if cs_shared_fd c \<ge> 0 then [Close (cs_shared_fd c)] else []);
            down = receiver_shutdown (cs_receiver c)
        in (c\<lparr>cs_shared_fd := - 1, cs_base := None, cs_stride := 0, cs_buffer_size := 0,
              cs_slot_count := 0, cs_receiver := fst down, cs_initialized := False\<rparr>,
            unmaps @ closes @ snd down)
      else (c, []))"

text \<open>
  \<open>MapFrame\<close>: the sizes are 64-bit products of 32-bit fields; the pointer arithmetic is on
  64-bit addresses. A failing cache synchronisation is ignored, as in the code.
\<close>

definition raw_size :: "task_packet \<Rightarrow> u64" where
  "raw_size pkt = u64_of_u32 (tp_width pkt) * u64_of_u32 (tp_height pkt) * u64_of_u32 (tp_channels pkt)"

definition map_frame ::
  "u64 \<Rightarrow> task_packet \<Rightarrow> consumer \<Rightarrow> (consumer_error + frame) \<times> consumer" where
  "map_frame sync_us pkt c =
     (if \<not> cs_initialized c then (Inl ConsumerNotInitialized, c)
      else if tp_magic pkt \<noteq> IQ9_TASK_MAGIC then (Inl InvalidTaskMagic, c)
      else
        let idx = int_of_u32 (tp_slot_index pkt) in
        if idx < 0 \<or> idx \<ge> cs_slot_count c then (Inl (SlotIndexOutOfRange idx), c)
        else
          let raw = raw_size pkt; offset = u64_of_int idx * cs_stride c in
          if raw = 0 \<or> offset > cs_buffer_size c \<or> raw > cs_stride c \<or>
             offset + raw > cs_buffer_size c
          then (Inl FrameExceedsWindow, c)
          else
            (Inr \<lparr>fr_fd = cs_shared_fd c,
               fr_data = (case cs_base c of None \<Rightarrow> 0 | Some b \<Rightarrow> b) + offset,
               fr_width = tp_width pkt, fr_height = tp_height pkt, fr_channels = tp_channels pkt,
               fr_data_size = u32_of_u64 raw, fr_timestamp_ns = tp_timestamp_ns pkt,
               fr_slot_index = tp_slot_index pkt, fr_slot_stride = u32_of_u64 (cs_stride c),
               fr_slot_offset = offset\<rparr>,
             c\<lparr>cs_stats := note_start sync_us (cs_stats c)\<rparr>))"

definition recv_frame ::
  "u8 list option \<Rightarrow> u64 \<Rightarrow> consumer \<Rightarrow> (consumer_error + frame) \<times> consumer" where
  "recv_frame got sync_us c =
     (if \<not> cs_initialized c then (Inl ConsumerNotInitialized, c)
      else case recv_task got of
        Inl e \<Rightarrow> (Inl (ReceiverError e), c)
      | Inr pkt \<Rightarrow> map_frame sync_us pkt c)"

definition release_frame ::
  "int \<Rightarrow> u64 \<Rightarrow> frame \<Rightarrow> consumer \<Rightarrow> (consumer_error + unit) \<times> consumer \<times> io_event list" where
  "release_frame n sync_us fr c =
     (let idx = int_of_u32 (fr_slot_index fr);
          c1 = (if idx \<ge> 0 \<and> idx < cs_slot_count c \<and> cs_shared_fd c \<ge> 0
                then c\<lparr>cs_stats := (note_end sync_us (cs_stats c))
                         \<lparr>sync_samples := sync_samples (cs_stats c) + 1\<rparr>\<rparr>
                else c);
          pkt = \<lparr>rp_magic = IQ9_RELEASE_MAGIC, rp_slot_index = fr_slot_index fr, rp_status = 0\<rparr>
      in case send_release n pkt of
           (Inl e, ev) \<Rightarrow> (Inl (ReceiverError e), c1, ev)
         | (Inr _, ev) \<Rightarrow> (Inr (), c1, ev))"


section \<open>The invariant of the consumer\<close>

text \<open>
  An initialised consumer has mapped a buffer of exactly \<open>slot_count\<close> strides, at most
  128 MB, and holds the descriptor; otherwise it holds nothing.
\<close>

definition consumer_wf :: "consumer \<Rightarrow> bool" where
  "consumer_wf c \<longleftrightarrow>
     (if cs_initialized c
      then 1 \<le> cs_slot_count c \<and> cs_slot_count c \<le> kMaxSlots \<and> 0 < unat (cs_stride c) \<and>
           unat (cs_stride c) * nat (cs_slot_count c) = unat (cs_buffer_size c) \<and>
           unat (cs_buffer_size c) \<le> 134217728 \<and> 0 \<le> cs_shared_fd c \<and> cs_base c \<noteq> None
      else cs_slot_count c = 0 \<and> cs_shared_fd c = - 1 \<and> cs_base c = None)"

lemma consumer_wf_new [wf_intros]: "consumer_wf consumer_new"
  by (simp add: consumer_wf_def consumer_new_def)

lemma consumer_shutdown_wf [wf_intros]: "consumer_wf c \<Longrightarrow> consumer_wf (fst (consumer_shutdown c))"
  by (simp add: consumer_shutdown_def consumer_wf_def Let_def)

lemma recv_init_ok:
  "recv_init env sock = Inr (pkt, fd) \<Longrightarrow>
     0 \<le> sock \<and> 0 \<le> fd \<and> re_recvmsg env = Some (Some fd) \<and>
     re_recv_init env = Some (init_packet_bytes pkt) \<and> ip_magic pkt = IQ9_INIT_MAGIC \<and>
     0 < int_of_u32 (ip_slot_count pkt)"
  by (auto simp: recv_init_def Let_def c_init.enc_dec split: if_splits option.splits)

text \<open>The sizes of the packet are 32-bit, so the 64-bit product of the check cannot wrap.\<close>

lemma small_product_less: "a < 4294967296 \<Longrightarrow> b \<le> 32 \<Longrightarrow> a * b < 18446744073709551616" for a b :: nat
  using mult_le_mono [of a 4294967295 b 32] by simp

lemma stride_product:
  assumes "0 < n" "n \<le> kMaxSlots"
  shows "unat (u64_of_u32 stride * u64_of_int n) = unat stride * nat n"
proof -
  have n: "unat (u64_of_int n) = nat n" "nat n \<le> 32"
    using assms by (simp_all add: unat_u64_of_int kMaxSlots_def)
  show ?thesis
    using small_product_less [OF unat_u32_bound n(2), of stride] n(1)
    by (subst unat_u64_mult) simp_all
qed

lemma kMaxBufferSize_less: "kMaxBufferSize < bytes \<longleftrightarrow> 134217728 < unat bytes"
  by (simp add: kMaxBufferSize_def word_less_nat_alt)

lemma u64_of_u32_eq_0: "u64_of_u32 w = 0 \<longleftrightarrow> unat w = 0"
  by (metis unat_u64_of_u32 unat_0 unat_eq_zero)

text \<open>The checks of the handshake, as one condition on the numbers in the packet.\<close>

definition init_packet_acceptable :: "init_packet \<Rightarrow> bool" where
  "init_packet_acceptable pkt \<longleftrightarrow>
     1 \<le> int_of_u32 (ip_slot_count pkt) \<and> int_of_u32 (ip_slot_count pkt) \<le> 32 \<and>
     0 < unat (ip_slot_stride pkt) \<and> unat (ip_buffer_size pkt) \<le> 134217728 \<and>
     unat (ip_slot_stride pkt) * nat (int_of_u32 (ip_slot_count pkt)) = unat (ip_buffer_size pkt)"

lemma handshake_checks:
  assumes "0 < int_of_u32 (ip_slot_count pkt)"
  shows "init_packet_acceptable pkt \<longleftrightarrow>
    \<not> (int_of_u32 (ip_slot_count pkt) \<le> 0 \<or> int_of_u32 (ip_slot_count pkt) > kMaxSlots) \<and>
    \<not> (u64_of_u32 (ip_slot_stride pkt) = 0 \<or> u64_of_u32 (ip_buffer_size pkt) = 0 \<or>
       u64_of_u32 (ip_buffer_size pkt) > kMaxBufferSize) \<and>
    u64_of_u32 (ip_slot_stride pkt) * u64_of_int (int_of_u32 (ip_slot_count pkt)) =
      u64_of_u32 (ip_buffer_size pkt)"
proof (cases "int_of_u32 (ip_slot_count pkt) \<le> kMaxSlots")
  case True
  have prod: "u64_of_u32 (ip_slot_stride pkt) * u64_of_int (int_of_u32 (ip_slot_count pkt)) =
      u64_of_u32 (ip_buffer_size pkt) \<longleftrightarrow>
      unat (ip_slot_stride pkt) * nat (int_of_u32 (ip_slot_count pkt)) = unat (ip_buffer_size pkt)"
    unfolding word_unat_eq_iff stride_product [OF assms True] by simp
  show ?thesis
    using assms True unfolding prod init_packet_acceptable_def u64_of_u32_eq_0
      kMaxBufferSize_less unat_u64_of_u32
    by (auto simp: kMaxSlots_def) (metis nat_0_less_mult_iff zero_less_nat_eq)
next
  case False
  then show ?thesis by (auto simp: init_packet_acceptable_def kMaxSlots_def)
qed


text \<open>
  The consumer accepts a handshake exactly when the numbers in the init packet are
  sound over the integers (1 to 32 slots, a positive stride, stride times slots equal to the
  buffer size, at most 128 MB: the 64-bit check cannot be fooled by wrap-around), and then
  it is initialised with exactly those numbers. When it refuses, it stays uninitialised,
  its socket is closed and so is the descriptor that had been received, once.
\<close>

theorem consumer_init_handshake:
  assumes "consumer_wf c" "\<not> cs_initialized c"
    and conn: "receiver_connect env path (cs_receiver c) = (Inr u, sock, ev)"
    and recv: "recv_init env sock = Inr (pkt, fd)"
    and map: "do_mmap (u64_of_u32 (ip_buffer_size pkt)) fd = Some ptr"
    and res: "consumer_init env do_mmap path c = (r, c', log)"
  shows "(r = Inr () \<longleftrightarrow> init_packet_acceptable pkt) \<and>
    (if init_packet_acceptable pkt
     then consumer_wf c' \<and> cs_initialized c' \<and> cs_slot_count c' = int_of_u32 (ip_slot_count pkt) \<and>
       cs_stride c' = u64_of_u32 (ip_slot_stride pkt) \<and>
       cs_buffer_size c' = u64_of_u32 (ip_buffer_size pkt) \<and> cs_shared_fd c' = fd \<and> log = ev
     else \<not> cs_initialized c' \<and> cs_receiver c' = - 1 \<and> log = ev @ [Close fd, Close sock])"
proof -
  note pkt = recv_init_ok [OF recv]
  then have down: "receiver_shutdown sock = (- 1, [Close sock])" "0 \<le> fd"
    by (auto simp: receiver_shutdown_def fd_reset_def)
  note checks = handshake_checks [of pkt]
  let ?n = "int_of_u32 (ip_slot_count pkt)"
  let ?ok = "c\<lparr>cs_receiver := sock, cs_shared_fd := fd, cs_base := Some ptr,
      cs_stride := u64_of_u32 (ip_slot_stride pkt),
      cs_buffer_size := u64_of_u32 (ip_buffer_size pkt), cs_stats := sync_stats_new,
      cs_slot_count := ?n, cs_initialized := True\<rparr>"
  have eq: "init_packet_acceptable pkt \<Longrightarrow> consumer_init env do_mmap path c = (Inr (), ?ok, ev)"
    using assms(2) conn recv map checks pkt by (simp add: consumer_init_def Let_def)
  have neq: "\<not> init_packet_acceptable pkt \<Longrightarrow> (\<exists>e. consumer_init env do_mmap path c =
      (Inl e, c\<lparr>cs_receiver := - 1\<rparr>, ev @ [Close fd, Close sock]))"
    using assms(2) conn recv map checks pkt down
    by (auto simp: consumer_init_def Let_def with_receiver_def)
  have wf: "init_packet_acceptable pkt \<Longrightarrow> consumer_wf ?ok"
    using down by (simp add: consumer_wf_def init_packet_acceptable_def kMaxSlots_def)
  show ?thesis
  proof (cases "init_packet_acceptable pkt")
    case True
    with eq wf res show ?thesis by auto
  next
    case False
    with neq res assms(2) show ?thesis by auto
  qed
qed


section \<open>The window of a mapped frame\<close>

lemma unat_u64_sum_le:
  assumes "unat (a :: u64) \<le> k" "unat b \<le> k" "k + k < 18446744073709551616"
  shows "unat (a + b) = unat a + unat b"
  using assms by (intro unat_u64_add) linarith

lemma map_frame_ok:
  assumes "consumer_wf c" "map_frame us pkt c = (Inr fr, c')"
  defines "i \<equiv> int_of_u32 (tp_slot_index pkt)"
  shows "cs_initialized c \<and> 0 \<le> i \<and> i < cs_slot_count c \<and> tp_magic pkt = IQ9_TASK_MAGIC \<and>
    fr_slot_index fr = tp_slot_index pkt \<and>
    unat (fr_slot_offset fr) = nat i * unat (cs_stride c) \<and>
    fr_data_size fr = u32_of_u64 (raw_size pkt) \<and> unat (fr_data_size fr) = unat (raw_size pkt) \<and>
    0 < unat (raw_size pkt) \<and> unat (raw_size pkt) \<le> unat (cs_stride c) \<and>
    cs_base c \<noteq> None \<and> fr_data fr = the (cs_base c) + fr_slot_offset fr"
proof -
  have init: "cs_initialized c" using assms(2) by (auto simp: map_frame_def split: if_splits)
  then have wf: "1 \<le> cs_slot_count c" "cs_slot_count c \<le> 32"
      "unat (cs_stride c) * nat (cs_slot_count c) = unat (cs_buffer_size c)"
      "unat (cs_buffer_size c) \<le> 134217728" "cs_base c \<noteq> None"
    using assms(1) by (auto simp: consumer_wf_def kMaxSlots_def)
  have i: "0 \<le> i" "i < cs_slot_count c"
    using assms(2) init unfolding i_def by (auto simp: map_frame_def Let_def split: if_splits)
  have ui: "unat (u64_of_int i) = nat i" using i wf by (simp add: unat_u64_of_int)
  have "unat (cs_stride c) \<le> unat (cs_buffer_size c)"
    using wf(1) by (simp flip: wf(3)) linarith
  then have st: "unat (cs_stride c) \<le> 134217728" using wf(4) by simp
  have "nat i * unat (cs_stride c) \<le> nat (cs_slot_count c) * unat (cs_stride c)"
    using i by (intro mult_le_mono1) simp
  then have "nat i * unat (cs_stride c) \<le> 134217728"
    unfolding mult.commute [of "nat (cs_slot_count c)"] wf(3) using wf(4) by (rule le_trans)
  then have off: "unat (u64_of_int i * cs_stride c) = nat i * unat (cs_stride c)"
    using ui by (subst unat_u64_mult) simp_all
  have raw: "raw_size pkt \<noteq> 0" "raw_size pkt \<le> cs_stride c"
    using assms(2) init i unfolding i_def by (auto simp: map_frame_def Let_def split: if_splits)
  then have "0 < unat (raw_size pkt)" "unat (raw_size pkt) \<le> unat (cs_stride c)"
    by (simp_all add: unat_gt_0 word_le_nat_alt)
  moreover from this st have "unat (u32_of_u64 (raw_size pkt)) = unat (raw_size pkt)"
    by (simp add: unat_u32_of_u64)
  ultimately show ?thesis
    using assms(2) init i off wf(5) unfolding i_def
    by (auto simp: map_frame_def Let_def split: if_splits)
qed

text \<open>
  C3: Memory safety of a mapped frame: when MapFrame accepts a packet, the bytes
  [slot_offset, slot_offset + data_size) lie inside the window of the packet's own slot and
  inside the mapped buffer, the pointer is the mapping's base plus that offset, and the
  frames of two different slots never share a byte.
\<close>

theorem map_frame_window:
  assumes wf: "consumer_wf c" and fr: "map_frame us pkt c = (Inr fr, c')"
  shows "unat (fr_slot_offset fr) = unat (tp_slot_index pkt) * unat (cs_stride c) \<and>
    0 < unat (fr_data_size fr) \<and> unat (fr_data_size fr) \<le> unat (cs_stride c) \<and>
    unat (fr_slot_offset fr) + unat (fr_data_size fr) \<le> unat (cs_buffer_size c) \<and>
    fr_data fr = the (cs_base c) + fr_slot_offset fr \<and>
    (\<forall>us2 pkt2 fr2 c2. map_frame us2 pkt2 c = (Inr fr2, c2) \<and>
       unat (tp_slot_index pkt) < unat (tp_slot_index pkt2) \<longrightarrow>
       unat (fr_slot_offset fr) + unat (fr_data_size fr) \<le> unat (fr_slot_offset fr2))"
proof -
  have idx: "nat (int_of_u32 w) = unat w" if "0 \<le> int_of_u32 w" for w
    using int_of_u32_nonneg_unat [OF that] by simp
  note ok = map_frame_ok [OF wf fr]
  then have off: "unat (fr_slot_offset fr) = unat (tp_slot_index pkt) * unat (cs_stride c)"
    using idx by simp
  have "unat (tp_slot_index pkt) < nat (cs_slot_count c)"
    using ok idx [of "tp_slot_index pkt"] by linarith
  then have "Suc (unat (tp_slot_index pkt)) * unat (cs_stride c) \<le>
      nat (cs_slot_count c) * unat (cs_stride c)"
    by (intro mult_le_mono1) simp
  then have buf: "unat (fr_slot_offset fr) + unat (cs_stride c) \<le> unat (cs_buffer_size c)"
    using wf ok by (simp add: consumer_wf_def off mult.commute)
  have dis: "unat (fr_slot_offset fr) + unat (cs_stride c) \<le> unat (fr_slot_offset fr2)"
    if "map_frame us2 pkt2 c = (Inr fr2, c2)"
      "unat (tp_slot_index pkt) < unat (tp_slot_index pkt2)" for us2 pkt2 fr2 c2
  proof -
    have "unat (fr_slot_offset fr2) = unat (tp_slot_index pkt2) * unat (cs_stride c)"
      using map_frame_ok [OF wf that(1)] idx by simp
    moreover have "Suc (unat (tp_slot_index pkt)) * unat (cs_stride c) \<le>
        unat (tp_slot_index pkt2) * unat (cs_stride c)"
      using that(2) by (intro mult_le_mono1) simp
    ultimately show ?thesis by (simp add: off)
  qed
  show ?thesis using off ok buf dis by (auto intro: le_trans [OF add_left_mono])
qed


definition example_receiver_env :: receiver_env where
  "example_receiver_env = \<lparr>re_socket = 7, re_connect = (\<lambda>_. 0),
     re_recv_init = Some (init_packet_bytes (init_packet_of example_config)),
     re_recvmsg = Some (Some 8)\<rparr>"

definition example_consumer :: consumer where
  "example_consumer = \<lparr>cs_receiver = 7, cs_initialized = True, cs_shared_fd = 8,
     cs_base = Some 65536, cs_stride = 12288, cs_buffer_size = 49152, cs_stats = sync_stats_new,
     cs_slot_count = 4\<rparr>"

lemma example_consumer_wf: "consumer_wf example_consumer"
  by (simp add: consumer_wf_def example_consumer_def kMaxSlots_def)

lemma example_stride: "align_up (raw_frame_size 64 48) 4096 = 12288"
  by (simp add: align_up_def raw_frame_size_def u64_of_int_def)

lemma example_init_packet: "init_packet_of example_config =
    \<lparr>ip_magic = IQ9_INIT_MAGIC, ip_slot_count = 4, ip_slot_stride = 12288,
     ip_buffer_size = 49152, ip_width = 64, ip_height = 48, ip_channels = 3, ip_data_type = 1\<rparr>"
  by (simp add: init_packet_of_def stride_of_def slot_count_of_def example_config_def example_stride
      make_init_packet_def u32_of_int_def u32_of_u64_def u64_of_int_def)

lemma example_recv_init:
  "recv_init example_receiver_env 7 = Inr (init_packet_of example_config, 8)"
proof -
  have "length (init_packet_bytes (init_packet_of example_config)) = 32"
    by (rule c_init.length_enc)
  then have "init_packet_bytes (init_packet_of example_config) \<noteq> []" by auto
  then show ?thesis
    by (simp add: recv_init_def example_receiver_env_def c_init.length_enc c_init.dec_enc
        example_init_packet int_of_u32_def Let_def)
qed

lemma example_connect:
  "receiver_connect example_receiver_env ''/tmp/s'' (cs_receiver consumer_new) = (Inr (), 7, [])"
  by (simp add: receiver_connect_def example_receiver_env_def consumer_new_def fd_move_assign_def
      fd_reset_def Let_def)

theorem consumer_init_handshake_witness:
  "\<exists>c' log. consumer_init example_receiver_env (\<lambda>_ _. Some 65536) ''/tmp/s'' consumer_new =
     (Inr (), c', log) \<and> consumer_wf c' \<and> cs_slot_count c' = 4"
proof -
  obtain r c' log where
    eq: "consumer_init example_receiver_env (\<lambda>_ _. Some 65536) ''/tmp/s'' consumer_new = (r, c', log)"
    by (metis prod_cases3)
  have acc: "init_packet_acceptable (init_packet_of example_config)"
    by (simp add: init_packet_acceptable_def example_init_packet int_of_u32_def)
  have "\<not> cs_initialized consumer_new" by (simp add: consumer_new_def)
  from consumer_init_handshake [OF consumer_wf_new this example_connect example_recv_init _ eq] eq acc
  show ?thesis by (auto simp: example_init_packet int_of_u32_def)
qed

theorem map_frame_window_witness:
  "\<exists>fr c'. map_frame 5 (make_task_packet 1 64 48 0) example_consumer = (Inr fr, c') \<and>
     unat (fr_slot_offset fr) + unat (fr_data_size fr) \<le> 49152"
proof -
  obtain fr c' where
    eq: "map_frame 5 (make_task_packet 1 64 48 0) example_consumer = (Inr fr, c')"
    by (simp add: map_frame_def make_task_packet_def example_consumer_def raw_size_def u64_of_u32_def
        u32_of_int_def int_of_u32_def u64_of_int_def Let_def)
  from map_frame_window [OF example_consumer_wf eq] eq show ?thesis
    by (auto simp: example_consumer_def)
qed

text \<open>
  The dimension check of MapFrame is on the product modulo 2^64, not on the product: a
  task packet of 3340214413 x 2761311370 pixels with 2 channels passes as a frame of 4
  bytes, so width, height and channels of an accepted frame do not bound its data.
\<close>

theorem map_frame_size_wraps:
  "\<exists>pkt fr c'. map_frame 0 pkt example_consumer = (Inr fr, c') \<and> fr_data_size fr = 4 \<and>
     unat (fr_width fr) * unat (fr_height fr) * unat (fr_channels fr) = 2 ^ 64 + 4"
proof -
  let ?pkt = "\<lparr>tp_magic = IQ9_TASK_MAGIC, tp_slot_index = 0, tp_width = 3340214413,
      tp_height = 2761311370, tp_channels = 2, tp_data_type = 1, tp_timestamp_ns = 0\<rparr>"
  have "raw_size ?pkt = 4" by (simp add: raw_size_def u64_of_u32_def)
  then have "\<exists>fr. map_frame 0 ?pkt example_consumer =
      (Inr fr, example_consumer\<lparr>cs_stats := note_start 0 (cs_stats example_consumer)\<rparr>) \<and>
      fr_data_size fr = 4 \<and> fr_width fr = 3340214413 \<and> fr_height fr = 2761311370 \<and>
      fr_channels fr = 2"
    by (simp add: map_frame_def example_consumer_def int_of_u32_def u64_of_int_def Let_def
        u32_of_u64_def)
  then show ?thesis by force
qed

section \<open>Producer and consumer together\<close>

lemma init_packet_of_acceptable:
  assumes "pool_wf pool" "initialized pool" "slot_stride pool = stride_of cfg"
    and "num_slots pool = slot_count_of cfg" "unat (get_buffer_size pool) \<le> 134217728"
  shows "init_packet_acceptable (init_packet_of cfg) \<and>
    u64_of_u32 (ip_slot_stride (init_packet_of cfg)) = slot_stride pool \<and>
    u64_of_u32 (ip_buffer_size (init_packet_of cfg)) = buffer_size pool \<and>
    int_of_u32 (ip_slot_count (init_packet_of cfg)) = num_slots pool \<and>
    ip_magic (init_packet_of cfg) = IQ9_INIT_MAGIC"
proof -
  let ?n = "slot_count_of cfg"
  have n: "1 \<le> ?n" "?n \<le> 32" "length (slots pool) = nat ?n"
    and size: "unat (buffer_size pool) = unat (stride_of cfg) * nat ?n"
    and pos: "0 < unat (stride_of cfg)"
    using assms by (auto simp: pool_wf_def kMaxSlots_def)
  have small2: "unat (stride_of cfg) * nat ?n \<le> 134217728"
    using assms(5) size by (simp add: get_buffer_size_def)
  have "1 \<le> nat ?n" using n(1) by simp
  then have "unat (stride_of cfg) * 1 \<le> unat (stride_of cfg) * nat ?n"
    by (rule mult_le_mono2)
  then have small: "unat (stride_of cfg) \<le> 134217728" "unat (stride_of cfg) * nat ?n \<le> 134217728"
    using small2 by linarith+
  have "unat (u64_of_int ?n) = nat ?n" using n by (simp add: unat_u64_of_int)
  then have prod: "unat (stride_of cfg * u64_of_int ?n) = unat (stride_of cfg) * nat ?n"
    using small(2) by (subst unat_u64_mult) simp_all
  have i: "int_of_u32 (u32_of_int ?n) = ?n" using n by (intro int_of_u32_of_int) auto
  have trunc: "unat (u32_of_u64 x) = unat x" if "unat x \<le> 134217728" for x
    using that by (simp add: unat_u32_of_u64)
  have "buffer_size pool = stride_of cfg * u64_of_int ?n"
    unfolding word_unat_eq_iff prod size ..
  with i trunc [OF small(1)] trunc [of "stride_of cfg * u64_of_int ?n"] prod small n pos assms(3,4)
  show ?thesis
    by (auto simp: init_packet_acceptable_def init_packet_of_def make_init_packet_def
        word_unat_eq_iff)
qed


lemma task_packet_raw_size:
  assumes "0 < w" "w < 2 ^ 31" "0 < h" "h < 2 ^ 31" "w * h * 3 < 2 ^ 62"
  shows "unat (raw_size (make_task_packet i w h ts)) = nat (w * h * 3)"
proof -
  have u: "unat (u32_of_int w) = nat w" "unat (u32_of_int h) = nat h"
    using assms by (simp_all add: unat_u32_of_int)
  have n: "nat w * nat h * 3 = nat (w * h * 3)"
    using assms by (simp add: nat_mult_distrib)
  have "nat (w * h * 3) < 2 ^ 62" using assms(5) by simp
  then have small: "nat w * nat h * 3 < 18446744073709551616" unfolding n by simp
  have wh: "unat (u64_of_u32 (u32_of_int w) * u64_of_u32 (u32_of_int h)) = nat w * nat h"
    using small by (subst unat_u64_mult) (simp_all add: u)
  have three: "unat (u64_of_u32 3) = 3" by (simp add: u64_of_u32_def)
  have "unat (raw_size (make_task_packet i w h ts)) = nat w * nat h * 3"
    unfolding raw_size_def make_task_packet_def
    using small by (simp only: task_packet.simps) (subst unat_u64_mult, simp_all only: wh three)
  with n show ?thesis by simp
qed

lemma map_frame_accepts:
  assumes "consumer_wf c" "cs_initialized c" "tp_magic pkt = IQ9_TASK_MAGIC"
    and i: "0 \<le> int_of_u32 (tp_slot_index pkt)" "int_of_u32 (tp_slot_index pkt) < cs_slot_count c"
    and raw: "0 < unat (raw_size pkt)" "unat (raw_size pkt) \<le> unat (cs_stride c)"
  shows "\<exists>fr c'. map_frame us pkt c = (Inr fr, c')"
proof -
  let ?i = "int_of_u32 (tp_slot_index pkt)"
  have wf: "cs_slot_count c \<le> 32" "unat (cs_stride c) * nat (cs_slot_count c) = unat (cs_buffer_size c)"
      "unat (cs_buffer_size c) \<le> 134217728"
    using assms(1,2) by (auto simp: consumer_wf_def kMaxSlots_def)
  have ui: "unat (u64_of_int ?i) = nat ?i" using i wf(1) by (simp add: unat_u64_of_int)
  have "Suc (nat ?i) * unat (cs_stride c) \<le> nat (cs_slot_count c) * unat (cs_stride c)"
    using i by (intro mult_le_mono1) simp
  then have le: "nat ?i * unat (cs_stride c) + unat (cs_stride c) \<le> unat (cs_buffer_size c)"
    unfolding mult.commute [of "nat (cs_slot_count c)"] wf(2) by simp
  then have off: "unat (u64_of_int ?i * cs_stride c) = nat ?i * unat (cs_stride c)"
    using ui wf(3) by (subst unat_u64_mult) simp_all
  have sum: "unat (u64_of_int ?i * cs_stride c + raw_size pkt) =
      nat ?i * unat (cs_stride c) + unat (raw_size pkt)"
    using off le raw(2) wf(3) by (subst unat_u64_add) simp_all
  have "raw_size pkt \<noteq> 0" using raw(1) by auto
  moreover have "\<not> u64_of_int ?i * cs_stride c > cs_buffer_size c"
    "\<not> raw_size pkt > cs_stride c"
    "\<not> u64_of_int ?i * cs_stride c + raw_size pkt > cs_buffer_size c"
    unfolding word_less_nat_alt sum off using le raw(2) by linarith+
  ultimately show ?thesis
    using assms(2,3) i by (simp add: map_frame_def Let_def)
qed

text \<open>
  C4: Producer and consumer agree. When the producer's Init succeeds with a buffer of at
  most 128 MB, the consumer that receives the bytes of its init packet and a descriptor
  accepts the handshake and has the producer's slot count, stride and buffer size; and the
  task packet that SubmitFrame sends for any slot and any frame that fits maps to exactly
  the window in which the producer stored that frame: same offset, same number of bytes.
\<close>

theorem producer_consumer_agree:
  assumes dims: "cfg_width cfg < 2 ^ 31" "cfg_height cfg < 2 ^ 31"
      "cfg_width cfg * cfg_height cfg * 3 < 2 ^ 62"
    and fds: "\<forall>sz fd. env_alloc henv sz = Some fd \<longrightarrow> 0 \<le> fd"
    and init: "producer_init henv senv cfg pr = (Inr u, pr', ev)"
    and pool: "pr_pool pr' = Some pool" "unat (get_buffer_size pool) \<le> 134217728"
    and recv: "recv_init renv sock = Inr (init_packet_of cfg, fd)"
    and conn: "receiver_connect renv path (- 1) = (Inr u2, sock, cev)"
    and map: "do_mmap (buffer_size pool) fd = Some ptr"
  shows "\<exists>c. consumer_init renv do_mmap path consumer_new = (Inr (), c, cev) \<and>
    consumer_wf c \<and> cs_slot_count c = num_slots pool \<and> cs_stride c = slot_stride pool \<and>
    cs_buffer_size c = get_buffer_size pool \<and>
    (\<forall>i w h ts us nv12 uv ys. in_range pool i \<and> 0 < w \<and> w < 2 ^ 31 \<and> 0 < h \<and> h < 2 ^ 31 \<and>
       w * h \<le> cfg_width cfg * cfg_height cfg \<longrightarrow>
       (\<exists>fr c'. map_frame us (make_task_packet i w h ts) c = (Inr fr, c') \<and>
          unat (fr_slot_offset fr) = unat (get_slot_offset pool i) \<and>
          fr_data fr = ptr + fr_slot_offset fr \<and>
          unat (fr_data_size fr) = length (nv12_to_rgb24 nv12 uv w h ys)))"
proof -
  have pos: "0 < cfg_width cfg" "0 < cfg_height cfg"
    using init by (auto simp: producer_init_def Let_def split: if_splits)
  have p: "pool_wf pool" "initialized pool" "slot_stride pool = stride_of cfg"
      "num_slots pool = slot_count_of cfg"
    using producer_init_cases [OF fds init] pool(1) by auto
  note acc = init_packet_of_acceptable [OF p pool(2)]
  let ?n = "int_of_u32 (ip_slot_count (init_packet_of cfg))"
  define c where "c = consumer_new\<lparr>cs_receiver := sock, cs_shared_fd := fd, cs_base := Some ptr,
      cs_stride := slot_stride pool, cs_buffer_size := buffer_size pool,
      cs_stats := sync_stats_new, cs_slot_count := ?n, cs_initialized := True\<rparr>"
  have rfd: "0 \<le> fd" and cnt: "0 < ?n" using recv_init_ok [OF recv] by auto
  have eq: "consumer_init renv do_mmap path consumer_new = (Inr (), c, cev)"
    using conn recv map acc handshake_checks [OF cnt, THEN iffD1, OF conjunct1 [OF acc]]
    by (simp add: consumer_init_def Let_def consumer_new_def c_def)
  have wf: "consumer_wf c"
    using rfd acc by (simp add: consumer_wf_def c_def init_packet_acceptable_def kMaxSlots_def)
      (metis unat_u64_of_u32)
  have frames: "\<exists>fr c'. map_frame us (make_task_packet i w h ts) c = (Inr fr, c') \<and>
          unat (fr_slot_offset fr) = unat (get_slot_offset pool i) \<and>
          fr_data fr = ptr + fr_slot_offset fr \<and>
          unat (fr_data_size fr) = length (nv12_to_rgb24 nv12 uv w h ys)"
    if a: "in_range pool i" "0 < w" "w < 2 ^ 31" "0 < h" "h < 2 ^ 31"
      "w * h \<le> cfg_width cfg * cfg_height cfg" for i w h ts us nv12 uv ys
  proof -
    let ?pkt = "make_task_packet i w h ts"
    have i: "0 \<le> i" "i < num_slots pool" "num_slots pool \<le> 32"
      using a(1) p by (auto simp: in_range_def pool_wf_def kMaxSlots_def)
    then have idx: "int_of_u32 (tp_slot_index ?pkt) = i"
      by (simp add: make_task_packet_def int_of_u32_of_int)
    have raw: "unat (raw_size ?pkt) = nat (w * h * 3)"
      using a dims(3) by (intro task_packet_raw_size) linarith+
    have "nat (w * h * 3) \<le> nat (cfg_width cfg * cfg_height cfg * 3)"
      using a(6) by simp
    also have "\<dots> \<le> unat (cs_stride c)"
      using stride_of_bounds(2) [OF pos(1) dims(1) pos(2) dims(2,3)] p(3) by (simp add: c_def)
    finally have le: "unat (raw_size ?pkt) \<le> unat (cs_stride c)" by (simp only: raw)
    have "0 < w * h * 3" using a by simp
    then have gt: "0 < unat (raw_size ?pkt)" unfolding raw by simp
    have c: "cs_initialized c" "tp_magic ?pkt = IQ9_TASK_MAGIC" "0 \<le> int_of_u32 (tp_slot_index ?pkt)"
        "int_of_u32 (tp_slot_index ?pkt) < cs_slot_count c"
      using idx i acc by (simp_all add: c_def make_task_packet_def)
    obtain fr c' where fr: "map_frame us ?pkt c = (Inr fr, c')"
      using map_frame_accepts [OF wf c gt le] by blast
    have "unat (slot_offset (slots pool ! nat i)) = nat i * unat (slot_stride pool)"
      using in_range_nth [OF p(1) a(1)] p by (simp add: pool_wf_def)
    moreover have "nat (w * h * 3) = 3 * (nat w * nat h)"
      using a by (simp add: nat_mult_distrib)
    ultimately show ?thesis
      using map_frame_ok [OF wf fr] idx fr raw a(1)
      by (auto simp: c_def get_slot_offset_def length_nv12_to_rgb24)
  qed
  show ?thesis using eq wf acc frames by (auto simp: c_def get_buffer_size_def)
qed


theorem producer_consumer_agree_witness:
  "\<exists>c. consumer_init example_receiver_env (\<lambda>_ _. Some 65536) ''/tmp/s'' consumer_new = (Inr (), c, []) \<and>
     consumer_wf c \<and> cs_slot_count c = 4"
proof -
  have fds: "\<forall>sz fd. env_alloc example_env sz = Some fd \<longrightarrow> 0 \<le> fd"
    by (simp add: example_env_def)
  obtain pr' ev where eq: "producer_init example_env example_socket_env example_config
      producer_new = (Inr (), pr', ev)"
    by (simp add: producer_init_def example_config_def pool_init_def example_env_def example_stride
        example_socket_env_def open_heap_def kMaxSlots_def slot_pool_new_def fd_move_assign_def
        fd_reset_def sender_init_def ipc_sender_new_def accept_client_def Let_def send_init_def
        sent_bytes_def get_slot_fd_def in_range_def)
  obtain pool where pool: "pr_pool pr' = Some pool" "num_slots pool = 4" "pool_wf pool"
      "slot_stride pool = 12288" "initialized pool"
    using producer_init_cases [OF fds eq]
    by (auto simp: slot_count_of_def example_config_def stride_of_def example_stride)
  then have "unat (get_buffer_size pool) \<le> 134217728"
    by (auto simp: pool_wf_def get_buffer_size_def)
  moreover have "receiver_connect example_receiver_env ''/tmp/s'' (- 1) = (Inr (), 7, [])"
    using example_connect by (simp add: consumer_new_def)
  ultimately show ?thesis
    using producer_consumer_agree [where path = "''/tmp/s''" and cev = "[]" and ptr = 65536
        and do_mmap = "\<lambda>_ _. Some 65536", OF _ _ _ fds eq pool(1) _ example_recv_init] pool(2)
    by (auto simp: example_config_def)
qed

end
