(* ===== verification/FrameProtocol.thy ===== *)
theory FrameProtocol
  imports Consumer
begin

text \<open>
  The life of a slot between the processes, with several channel threads calling
  \<open>SubmitFrame\<close> at once. Each call of \<open>SlotPool\<close> holds the pool's mutex, so the operations
  of theory \<open>SlotPool\<close> are the atomic steps; \<open>SubmitFrame\<close> is cut into them in the code's
  order (\<open>producer.cpp\<close>): acquire, (fill and) send the packet, submit; or revert. The
  consumer receives packets in order, holds frames and releases them in any order; the
  releases travel in order and are polled by whichever thread comes first.
\<close>

section \<open>States and steps\<close>

datatype phase = Idle | Writing int | Sent int

record proto =
  px_pool :: slot_pool
  px_thr :: "nat \<Rightarrow> phase"
  px_tasks :: "int list"
  px_held :: "int list"
  px_rels :: "int list"

datatype label =
    LAcquire nat
  | LRevert nat
  | LSend nat
  | LSubmit nat
  | LPoll
  | LRecv
  | LRelease int

inductive pstep :: "proto \<Rightarrow> label \<Rightarrow> proto \<Rightarrow> bool" where
  p_acquire: "px_thr s t = Idle \<Longrightarrow> acquire_slot (px_pool s) = (i, p') \<Longrightarrow> 0 \<le> i \<Longrightarrow>
    pstep s (LAcquire t) (s\<lparr>px_pool := p', px_thr := (px_thr s)(t := Writing i)\<rparr>)"
| p_revert: "px_thr s t = Writing i \<Longrightarrow> revert_slot (px_pool s) i = (ok, p') \<Longrightarrow>
    pstep s (LRevert t) (s\<lparr>px_pool := p', px_thr := (px_thr s)(t := Idle)\<rparr>)"
| p_send: "px_thr s t = Writing i \<Longrightarrow>
    pstep s (LSend t) (s\<lparr>px_thr := (px_thr s)(t := Sent i), px_tasks := px_tasks s @ [i]\<rparr>)"
| p_submit: "px_thr s t = Sent i \<Longrightarrow> submit_slot (px_pool s) i = (ok, p') \<Longrightarrow>
    pstep s (LSubmit t) (s\<lparr>px_pool := p', px_thr := (px_thr s)(t := Idle)\<rparr>)"
| p_poll: "px_rels s = i # rest \<Longrightarrow> release_slot (px_pool s) i = (ok, p') \<Longrightarrow>
    pstep s LPoll (s\<lparr>px_pool := p', px_rels := rest\<rparr>)"
| c_recv: "px_tasks s = i # rest \<Longrightarrow>
    pstep s LRecv (s\<lparr>px_tasks := rest, px_held := i # px_held s\<rparr>)"
| c_release: "i \<in> set (px_held s) \<Longrightarrow>
    pstep s (LRelease i) (s\<lparr>px_held := remove1 i (px_held s), px_rels := px_rels s @ [i]\<rparr>)"

inductive_cases pstep_acquireE: "pstep s (LAcquire t) s'"
inductive_cases pstep_pollE: "pstep s LPoll s'"
inductive_simps pstep_send_iff: "pstep s (LSend t) s'"
inductive_simps pstep_submit_iff: "pstep s (LSubmit t) s'"
inductive_simps pstep_recv_iff: "pstep s LRecv s'"
inductive_simps pstep_release_iff: "pstep s (LRelease i) s'"

definition any_step :: "proto \<Rightarrow> proto \<Rightarrow> bool" where
  "any_step s s' \<longleftrightarrow> (\<exists>l. pstep s l s')"

text \<open>The same, but no release is polled between the send and the submit of its own slot.\<close>

definition ordered_step :: "proto \<Rightarrow> proto \<Rightarrow> bool" where
  "ordered_step s s' \<longleftrightarrow> (\<exists>l. pstep s l s' \<and>
     (l = LPoll \<longrightarrow> (\<forall>t. px_thr s t \<noteq> Sent (hd (px_rels s)))))"

definition proto_init :: "proto \<Rightarrow> bool" where
  "proto_init s \<longleftrightarrow> pool_wf (px_pool s) \<and> (\<forall>t. px_thr s t = Idle) \<and> px_tasks s = [] \<and>
     px_held s = [] \<and> px_rels s = [] \<and> (\<forall>i st. slot_status (px_pool s) i = Some st \<longrightarrow> st = IDLE)"

section \<open>Exclusive ownership\<close>

definition travelling :: "proto \<Rightarrow> int list" where
  "travelling s = px_tasks s @ px_held s @ px_rels s"

definition owns :: "phase \<Rightarrow> int \<Rightarrow> bool" where
  "owns ph i \<longleftrightarrow> ph = Writing i \<or> ph = Sent i"

definition exclusive :: "proto \<Rightarrow> bool" where
  "exclusive s \<longleftrightarrow> pool_wf (px_pool s) \<and> distinct (travelling s) \<and>
     (\<forall>i. slot_status (px_pool s) i = Some IDLE \<longrightarrow> i \<notin> set (travelling s)) \<and>
     (\<forall>t i. owns (px_thr s t) i \<longrightarrow> slot_status (px_pool s) i = Some IN_USE) \<and>
     (\<forall>t t' i. owns (px_thr s t) i \<and> owns (px_thr s t') i \<longrightarrow> t = t') \<and>
     (\<forall>t i. px_thr s t = Writing i \<longrightarrow> i \<notin> set (travelling s))"

lemma exclusive_init: "proto_init s \<Longrightarrow> exclusive s"
  by (simp add: proto_init_def exclusive_def travelling_def owns_def)

lemma owns_simps [simp]: "owns Idle i \<longleftrightarrow> False" "owns (Writing j) i \<longleftrightarrow> i = j" "owns (Sent j) i \<longleftrightarrow> i = j"
  by (auto simp: owns_def)

lemma exclusiveD:
  assumes "exclusive s"
  shows "pool_wf (px_pool s)" "distinct (travelling s)"
    "slot_status (px_pool s) i = Some IDLE \<Longrightarrow> i \<notin> set (travelling s)"
    "owns (px_thr s t) i \<Longrightarrow> slot_status (px_pool s) i = Some IN_USE"
    "owns (px_thr s t) i \<Longrightarrow> owns (px_thr s t') i \<Longrightarrow> t = t'"
    "px_thr s t = Writing i \<Longrightarrow> i \<notin> set (travelling s)"
  using assms unfolding exclusive_def by blast+

lemma exclusiveI:
  assumes "pool_wf (px_pool s)" "distinct (travelling s)"
    and "\<And>i. slot_status (px_pool s) i = Some IDLE \<Longrightarrow> i \<notin> set (travelling s)"
    and "\<And>t i. owns (px_thr s t) i \<Longrightarrow> slot_status (px_pool s) i = Some IN_USE"
    and "\<And>t t' i. owns (px_thr s t) i \<Longrightarrow> owns (px_thr s t') i \<Longrightarrow> t = t'"
    and "\<And>t i. px_thr s t = Writing i \<Longrightarrow> i \<notin> set (travelling s)"
  shows "exclusive s"
  using assms unfolding exclusive_def by blast

lemma exclusive_step: "pstep s l s' \<Longrightarrow> exclusive s \<Longrightarrow> exclusive s'"
proof (induction rule: pstep.induct)
  case (p_acquire s t i p')
  note D = exclusiveD [OF p_acquire(4)]
  note acq = sp.acq_idle [OF D(1) p_acquire(2,3)] sp.acq_inv' [OF D(1) p_acquire(2)]
  then have "i \<notin> set (travelling s)" "\<not> owns (px_thr s u) i" for u
    using D(3) [of i] D(4) [of u i] by auto
  with acq D show ?case
    unfolding exclusive_def travelling_def by (auto split: if_splits)
next
  case (p_revert s t i ok p')
  note D = exclusiveD [OF p_revert(3)]
  have i: "owns (px_thr s t) i" "i \<notin> set (travelling s)"
    using p_revert(1) D(6) by auto
  have wf: "pool_wf p'" using sp.rev_inv [OF D(1), of i] p_revert(2) by simp
  have st: "slot_status p' = (slot_status (px_pool s))(i := Some IDLE)"
    using sp.rev_law [OF D(1) p_revert(2)] D(4) [OF i(1)] by simp
  have "\<not> owns (px_thr s u) i" if "u \<noteq> t" for u using D(5) i(1) that by blast
  with i wf st D show ?case
    unfolding exclusive_def travelling_def by (auto split: if_splits)
next
  case (p_send s t i)
  note D = exclusiveD [OF p_send(2)]
  have i: "owns (px_thr s t) i" "i \<notin> set (travelling s)"
    using p_send(1) D(6) by auto
  let ?s = "s\<lparr>px_thr := (px_thr s)(t := Sent i), px_tasks := px_tasks s @ [i]\<rparr>"
  show ?case
  proof (rule exclusiveI)
    have owns: "owns (px_thr ?s u) j \<longleftrightarrow> owns (px_thr s u) j" for u j
      using p_send(1) by simp
    show "slot_status (px_pool ?s) j = Some IN_USE" if "owns (px_thr ?s u) j" for u j
      using that D(4) unfolding owns by simp
    show "u = u'" if "owns (px_thr ?s u) j" "owns (px_thr ?s u') j" for u u' j
      using that D(5) unfolding owns by blast
    show "j \<notin> set (travelling ?s)" if "slot_status (px_pool ?s) j = Some IDLE" for j
      using that D(3) [of j] D(4) [OF i(1)] by (auto simp: travelling_def)
    show "j \<notin> set (travelling ?s)" if w: "px_thr ?s u = Writing j" for u j
    proof -
      have "px_thr s u = Writing j" "u \<noteq> t" using w by (auto split: if_splits)
      then show ?thesis using D(5) [of u j t] D(6) i(1) by (auto simp: travelling_def)
    qed
    show "pool_wf (px_pool ?s)" "distinct (travelling ?s)"
      using D(1,2) i(2) by (auto simp: travelling_def)
  qed
next
  case (p_submit s t i ok p')
  note D = exclusiveD [OF p_submit(3)]
  have i: "owns (px_thr s t) i" using p_submit(1) by auto
  have wf: "pool_wf p'" using sp.sub_inv [OF D(1), of i] p_submit(2) by simp
  have st: "slot_status p' = (slot_status (px_pool s))(i := Some ON_FLIGHT)"
    using sp.sub_law [OF D(1) p_submit(2)] D(4) [OF i] by simp
  have "\<not> owns (px_thr s u) i" if "u \<noteq> t" for u using D(5) i that by blast
  with wf st D show ?case
    unfolding exclusive_def travelling_def by (auto split: if_splits)
next
  case (p_poll s i rest ok p')
  note D = exclusiveD [OF p_poll(3)]
  have wf: "pool_wf p'" using sp.rel_inv [OF D(1), of i] p_poll(2) by simp
  have st: "if slot_status (px_pool s) i = Some ON_FLIGHT
      then slot_status p' = (slot_status (px_pool s))(i := Some IDLE) else p' = px_pool s"
    using sp.rel_law [OF D(1) p_poll(2)] by auto
  have "slot_status (px_pool s) i = Some ON_FLIGHT \<Longrightarrow> \<not> owns (px_thr s u) i" for u
    using D(4) [of u i] by auto
  with wf st D p_poll(1) show ?case
    unfolding exclusive_def travelling_def by (auto split: if_splits)
next
  case (c_recv s i rest)
  then show ?case unfolding exclusive_def travelling_def by auto
next
  case (c_release i s)
  then have "set (travelling (s\<lparr>px_held := remove1 i (px_held s), px_rels := px_rels s @ [i]\<rparr>)) =
      set (travelling s)" "distinct (travelling (s\<lparr>px_held := remove1 i (px_held s), px_rels := px_rels s @ [i]\<rparr>))"
    by (auto simp: exclusive_def travelling_def set_remove1_eq distinct_remove1)
  with c_release(2) show ?case unfolding exclusive_def by auto
qed

interpretation proto_sys: step_relation proto_init any_step exclusive
proof
  show "exclusive s" if "proto_init s" for s using that by (rule exclusive_init)
  show "exclusive s'" if "exclusive s" "any_step s s'" for s s'
    using that exclusive_step by (auto simp: any_step_def)
qed



section \<open>Slots that are lost\<close>

lemma lost_step:
  assumes ex: "exclusive s" and step: "any_step s s'"
    and lost: "slot_status (px_pool s) i = Some ON_FLIGHT" "i \<notin> set (travelling s)"
  shows "slot_status (px_pool s') i = Some ON_FLIGHT \<and> i \<notin> set (travelling s')"
proof -
  obtain l where "pstep s l s'" using step by (auto simp: any_step_def)
  then show ?thesis
    using ex lost
  proof (induction rule: pstep.induct)
    case (p_acquire s t j p')
    with sp.acq_idle [OF exclusiveD(1) [OF p_acquire(4)] p_acquire(2,3)] show ?case
      by (auto simp: travelling_def)
  next
    case (p_revert s t j ok p')
    with sp.rev_law [OF exclusiveD(1) [OF p_revert(3)] p_revert(2)] show ?case
      by (auto simp: travelling_def split: if_splits)
  next
    case (p_send s t j)
    then show ?case using exclusiveD(4) [OF p_send(2), of t j] by (auto simp: travelling_def)
  next
    case (p_submit s t j ok p')
    with sp.sub_law [OF exclusiveD(1) [OF p_submit(3)] p_submit(2)] show ?case
      by (auto simp: travelling_def split: if_splits)
  next
    case (p_poll s j rest ok p')
    with sp.rel_law [OF exclusiveD(1) [OF p_poll(3)] p_poll(2)] show ?case
      by (auto simp: travelling_def split: if_splits)
  qed (auto simp: travelling_def dest: notin_set_remove1)
qed

lemma lost_steps:
  "any_step\<^sup>*\<^sup>* s s' \<Longrightarrow> exclusive s \<Longrightarrow> slot_status (px_pool s) i = Some ON_FLIGHT \<Longrightarrow>
     i \<notin> set (travelling s) \<Longrightarrow>
     exclusive s' \<and> slot_status (px_pool s') i = Some ON_FLIGHT \<and> i \<notin> set (travelling s')"
  by (induction rule: rtranclp_induct) (blast intro: proto_sys.step_inv dest: lost_step)+

definition example_proto :: proto where
  "example_proto = \<lparr>px_pool = example_pool, px_thr = (\<lambda>_. Idle), px_tasks = [], px_held = [], px_rels = []\<rparr>"

lemma example_proto_init: "proto_init example_proto"
  using example_pool_wf
  by (auto simp: proto_init_def example_proto_def slot_status_def in_range_def example_pool_eval
      nth_Cons' split: if_splits)

text \<open>The run that loses slot 0: its release is polled before its submit.\<close>

definition early_release_end :: proto where
  "early_release_end = example_proto\<lparr>px_pool := set_state (set_state example_pool 0 IN_USE) 0 ON_FLIGHT,
     px_thr := (((\<lambda>_. Idle)(0 := Writing 0))(0 := Sent 0))(0 := Idle)\<rparr>"

lemma acquire_example: "acquire_slot example_pool = (0, set_state example_pool 0 IN_USE)"
  by (simp add: acquire_slot_def example_pool_eval)

lemma early_release_run: "any_step\<^sup>*\<^sup>* example_proto early_release_end"
proof -
  let ?p = "set_state example_pool 0 IN_USE"
  let ?q = "set_state ?p 0 ON_FLIGHT"
  let ?s1 = "example_proto\<lparr>px_pool := ?p, px_thr := (\<lambda>_. Idle)(0 := Writing 0)\<rparr>"
  let ?s2 = "?s1\<lparr>px_thr := ((\<lambda>_. Idle)(0 := Writing 0))(0 := Sent 0), px_tasks := [0]\<rparr>"
  let ?s3 = "?s2\<lparr>px_tasks := [], px_held := [0]\<rparr>"
  let ?s4 = "?s3\<lparr>px_held := [], px_rels := [0]\<rparr>"
  let ?s5 = "?s4\<lparr>px_pool := ?p, px_rels := []\<rparr>"
  have "any_step example_proto ?s1"
    using pstep.p_acquire [of example_proto 0 0 ?p] acquire_example
    by (auto simp: any_step_def example_proto_def)
  moreover have "any_step ?s1 ?s2"
    using pstep.p_send [of ?s1 0 0] by (auto simp: any_step_def example_proto_def)
  moreover have "any_step ?s2 ?s3"
    using pstep.c_recv [of ?s2 0 "[]"] by (auto simp: any_step_def example_proto_def)
  moreover have "any_step ?s3 ?s4"
    using pstep.c_release [of 0 ?s3] by (auto simp: any_step_def example_proto_def)
  moreover have "release_slot ?p 0 = (False, ?p)"
    by (simp add: release_slot_def example_pool_eval in_range_def set_state_def)
  then have "any_step ?s4 ?s5"
    using pstep.p_poll [of ?s4 0 "[]" False ?p] by (auto simp: any_step_def example_proto_def)
  moreover have "submit_slot ?p 0 = (True, ?q)"
    by (simp add: submit_slot_def example_pool_eval in_range_def set_state_def)
  then have "any_step ?s5 early_release_end"
    using pstep.p_submit [of ?s5 0 0 True ?q]
    by (auto simp: any_step_def example_proto_def early_release_end_def)
  ultimately show ?thesis by (meson converse_rtranclp_into_rtranclp rtranclp.rtrancl_refl)
qed

text \<open>
  A slot in flight that is neither on its way to the consumer, nor held by it, nor on
  its way back is lost for ever: whatever happens next it stays in flight, so no acquire
  will return it again. Such states are reachable: SubmitFrame sends the packet before it
  marks the slot in flight, so a consumer that answers at once has its release refused
  (the slot is still being written) and dropped; the witness is that run.
\<close>

theorem lost_slot_stays_lost:
  assumes "proto_init s" "any_step\<^sup>*\<^sup>* s s'"
    and "slot_status (px_pool s') i = Some ON_FLIGHT"
    and "i \<notin> set (px_tasks s' @ px_held s' @ px_rels s')"
    and "any_step\<^sup>*\<^sup>* s' s''"
  shows "slot_status (px_pool s'') i = Some ON_FLIGHT \<and> fst (acquire_slot (px_pool s'')) \<noteq> i"
proof -
  have ex: "exclusive s''" and st: "slot_status (px_pool s'') i = Some ON_FLIGHT"
    using lost_steps [OF assms(5) proto_sys.reach_inv [OF assms(1,2)] assms(3)] assms(4)
    by (auto simp: travelling_def)
  obtain j p' where acq: "acquire_slot (px_pool s'') = (j, p')" by force
  have "0 \<le> i" using st by (auto simp: slot_status_def in_range_def split: if_splits)
  then have "j \<noteq> i" using sp.acq_idle [OF exclusiveD(1) [OF ex] acq] st by auto
  with st acq show ?thesis by simp
qed

theorem lost_slot_stays_lost_witness:
  "any_step\<^sup>*\<^sup>* example_proto early_release_end \<and>
   fst (acquire_slot (px_pool early_release_end)) \<noteq> 0"
proof -
  have st: "slot_status (px_pool early_release_end) 0 = Some ON_FLIGHT"
    "0 \<notin> set (px_tasks early_release_end @ px_held early_release_end @ px_rels early_release_end)"
    by (simp_all add: early_release_end_def example_proto_def slot_status_def in_range_def
        example_pool_eval set_state_def)
  show ?thesis
    using lost_slot_stays_lost [OF example_proto_init early_release_run st rtranclp.rtrancl_refl]
      early_release_run by simp
qed


section \<open>No slot is lost when submits come before polls\<close>

definition conserved :: "proto \<Rightarrow> bool" where
  "conserved s \<longleftrightarrow> exclusive s \<and>
     (\<forall>i. slot_status (px_pool s) i = Some ON_FLIGHT \<longrightarrow> i \<in> set (travelling s)) \<and>
     (\<forall>t i. px_thr s t = Sent i \<longrightarrow> i \<in> set (travelling s))"

lemma conservedD:
  "conserved s \<Longrightarrow> exclusive s"
  "conserved s \<Longrightarrow> slot_status (px_pool s) i = Some ON_FLIGHT \<Longrightarrow> i \<in> set (travelling s)"
  "conserved s \<Longrightarrow> px_thr s t = Sent i \<Longrightarrow> i \<in> set (travelling s)"
  unfolding conserved_def by blast+

lemma conserved_frame:
  assumes "conserved s" "exclusive s'" "set (travelling s) \<subseteq> set (travelling s')"
    and "\<And>i. slot_status (px_pool s') i = Some ON_FLIGHT \<Longrightarrow>
      slot_status (px_pool s) i = Some ON_FLIGHT \<or> i \<in> set (travelling s')"
    and "\<And>t i. px_thr s' t = Sent i \<Longrightarrow> px_thr s t = Sent i \<or> i \<in> set (travelling s')"
  shows "conserved s'"
  using assms unfolding conserved_def by blast

lemma conserved_step:
  assumes step: "ordered_step s s'" and inv: "conserved s"
  shows "conserved s'"
proof -
  obtain l where l: "pstep s l s'" "l = LPoll \<Longrightarrow> \<forall>t. px_thr s t \<noteq> Sent (hd (px_rels s))"
    using step by (auto simp: ordered_step_def)
  have ex: "exclusive s'" using exclusive_step [OF l(1)] conservedD(1) [OF inv] .
  note wf = exclusiveD(1) [OF conservedD(1) [OF inv]]
  from l(1) show ?thesis
  proof cases
    case (p_acquire t i p')
    with sp.acq_idle [OF wf p_acquire(4,5)] show ?thesis
      by (intro conserved_frame [OF inv ex]) (auto simp: travelling_def split: if_splits)
  next
    case (p_revert t i ok p')
    with sp.rev_law [OF wf p_revert(4)] show ?thesis
      by (intro conserved_frame [OF inv ex]) (auto simp: travelling_def split: if_splits)
  next
    case (p_send t i)
    then show ?thesis
      by (intro conserved_frame [OF inv ex]) (auto simp: travelling_def split: if_splits)
  next
    case (p_submit t i ok p')
    with sp.sub_law [OF wf p_submit(4)] conservedD(3) [OF inv p_submit(3)] show ?thesis
      by (intro conserved_frame [OF inv ex]) (auto simp: travelling_def split: if_splits)
  next
    case (p_poll i rest ok p')
    have st: "if slot_status (px_pool s) i = Some ON_FLIGHT
        then slot_status p' = (slot_status (px_pool s))(i := Some IDLE) else p' = px_pool s"
      using sp.rel_law [OF wf p_poll(4)] by auto
    have "px_thr s t \<noteq> Sent i" for t using l(2) p_poll(1,3) by auto
    then have snt: "j \<in> set (travelling s')" if "px_thr s' t = Sent j" for t j
      using that conservedD(3) [OF inv, of t j] p_poll by (auto simp: travelling_def)
    have fl: "j \<in> set (travelling s')" if "slot_status (px_pool s') j = Some ON_FLIGHT" for j
      using that conservedD(2) [OF inv, of j] p_poll st
      by (auto simp: travelling_def split: if_splits)
    show ?thesis using ex snt fl by (auto simp: conserved_def)
  next
    case (c_recv i rest)
    then show ?thesis by (intro conserved_frame [OF inv ex]) (auto simp: travelling_def)
  next
    case (c_release i)
    then show ?thesis
      by (intro conserved_frame [OF inv ex]) (auto simp: travelling_def in_set_remove1)
  qed
qed

interpretation ordered_sys: step_relation proto_init ordered_step conserved
proof
  show "conserved s" if "proto_init s" for s
    using that exclusive_init by (auto simp: conserved_def proto_init_def)
  show "conserved s'" if "conserved s" "ordered_step s s'" for s s'
    using that(2,1) by (rule conserved_step)
qed

text \<open>
  C6: The early release is the only way to lose a slot: if no release is polled between
  the send and the submit of its own slot, then in every reachable state each slot in flight
  is on its way to the consumer, held by it, or on its way back, so a consumer that releases
  every frame gives every slot back.
\<close>

theorem no_slot_lost_when_ordered:
  assumes "proto_init s" "ordered_step\<^sup>*\<^sup>* s s'" "slot_status (px_pool s') i = Some ON_FLIGHT"
  shows "i \<in> set (px_tasks s') \<or> i \<in> set (px_held s') \<or> i \<in> set (px_rels s')"
  using conservedD(2) [OF ordered_sys.reach_inv [OF assms(1,2)] assms(3)]
  by (auto simp: travelling_def)


lemma ordered_run:
  "\<exists>s'. ordered_step\<^sup>*\<^sup>* example_proto s' \<and> slot_status (px_pool s') 0 = Some ON_FLIGHT"
proof -
  let ?p = "set_state example_pool 0 IN_USE"
  let ?q = "set_state ?p 0 ON_FLIGHT"
  let ?s1 = "example_proto\<lparr>px_pool := ?p, px_thr := (\<lambda>_. Idle)(0 := Writing 0)\<rparr>"
  let ?s2 = "?s1\<lparr>px_thr := ((\<lambda>_. Idle)(0 := Writing 0))(0 := Sent 0), px_tasks := [0]\<rparr>"
  let ?s3 = "?s2\<lparr>px_pool := ?q, px_thr := (((\<lambda>_. Idle)(0 := Writing 0))(0 := Sent 0))(0 := Idle)\<rparr>"
  have "pstep example_proto (LAcquire 0) ?s1"
    using pstep.p_acquire [of example_proto 0 0 ?p] acquire_example
    by (auto simp: example_proto_def)
  moreover have "pstep ?s1 (LSend 0) ?s2"
    using pstep.p_send [of ?s1 0 0] by (auto simp: example_proto_def)
  moreover have "submit_slot ?p 0 = (True, ?q)"
    by (simp add: submit_slot_def example_pool_eval in_range_def set_state_def)
  then have "pstep ?s2 (LSubmit 0) ?s3"
    using pstep.p_submit [of ?s2 0 0 True ?q] by (auto simp: example_proto_def)
  ultimately have "ordered_step example_proto ?s1" "ordered_step ?s1 ?s2" "ordered_step ?s2 ?s3"
    unfolding ordered_step_def by blast+
  then have "ordered_step\<^sup>*\<^sup>* example_proto ?s3" by (meson converse_rtranclp_into_rtranclp rtranclp.rtrancl_refl)
  moreover have "slot_status (px_pool ?s3) 0 = Some ON_FLIGHT"
    by (simp add: slot_status_def in_range_def example_pool_eval set_state_def)
  ultimately show ?thesis by blast
qed

theorem no_slot_lost_when_ordered_witness:
  "\<exists>s'. ordered_step\<^sup>*\<^sup>* example_proto s' \<and> slot_status (px_pool s') 0 = Some ON_FLIGHT \<and>
     (0 \<in> set (px_tasks s') \<or> 0 \<in> set (px_held s') \<or> 0 \<in> set (px_rels s'))"
  using ordered_run no_slot_lost_when_ordered [OF example_proto_init] by blast

end
