(* ===== verification/Uds.thy ===== *)
theory Uds
  imports Packets
begin

text \<open>
  The stream helpers of the relay (\<open>rule_process/include/channel_protocol.hpp\<close>):
  \<open>recvAll\<close> and \<open>sendAll\<close>, which turn short reads and short writes into whole records, and
  \<open>connectUds\<close>. The receiving side is a list of segments, the pieces in which the bytes
  arrive (an empty segment is a failing call); what \<open>send\<close> answers is a sequence of numbers.
\<close>

section \<open>Model\<close>

text \<open>Each turn of the loop is one \<open>recv\<close>: it takes at most what is missing of one segment.\<close>

fun recv_all :: "u8 list list \<Rightarrow> nat \<Rightarrow> u8 list \<Rightarrow> bool \<times> u8 list \<times> u8 list list" where
  "recv_all segs 0 acc = (True, acc, segs)"
| "recv_all [] (Suc n) acc = (False, acc, [])"
| "recv_all (seg # segs) (Suc n) acc =
     (if seg = [] then (False, acc, segs)
      else if length seg \<le> Suc n then recv_all segs (Suc n - length seg) (acc @ seg)
      else (True, acc @ take (Suc n) seg, drop (Suc n) seg # segs))"

function send_all :: "(nat \<Rightarrow> int) \<Rightarrow> nat \<Rightarrow> u8 list \<Rightarrow> bool \<times> u8 list" where
  "send_all ans k bs =
     (if bs = [] then (True, [])
      else
        let n = ans k in
        if n \<le> 0 then (False, [])
        else
          let (ok, sent) = send_all ans (k + 1) (drop (nat n) bs)
          in (ok, take (nat n) bs @ sent))"
  by pat_completeness auto
termination
  by (relation "measure (\<lambda>(ans, k, bs). length bs)") (auto simp: neq_Nil_conv)

declare send_all.simps [simp del]

definition connect_uds :: "(string \<Rightarrow> int) \<Rightarrow> int \<Rightarrow> string \<Rightarrow> int option \<times> os_event list" where
  "connect_uds do_connect fd path =
     (if fd < 0 then (None, [])
      else if do_connect (take 107 path) < 0 then (None, [Close fd])
      else (Some fd, []))"

section \<open>Whole records\<close>

lemma recv_all_ok:
  assumes "\<forall>seg \<in> set segs. seg \<noteq> []" "n \<le> length (concat segs)"
  shows "\<exists>rest. recv_all segs n acc = (True, acc @ take n (concat segs), rest) \<and>
    concat rest = drop n (concat segs) \<and> (\<forall>seg \<in> set rest. seg \<noteq> [])"
  using assms
proof (induction segs n acc rule: recv_all.induct)
  case (3 seg segs n acc)
  show ?case
  proof (cases "length seg \<le> Suc n")
    case True
    then have "Suc n - length seg \<le> length (concat segs)" using 3(3) by simp
    with 3(1,2) True obtain rest where
      "recv_all segs (Suc n - length seg) (acc @ seg) =
        (True, (acc @ seg) @ take (Suc n - length seg) (concat segs), rest)"
      "concat rest = drop (Suc n - length seg) (concat segs)" "\<forall>seg \<in> set rest. seg \<noteq> []"
      by auto
    with True 3(2) show ?thesis by simp
  next
    case False
    with 3(2) show ?thesis by auto
  qed
qed auto

lemma recv_all_short:
  "(\<forall>seg \<in> set segs. seg \<noteq> []) \<Longrightarrow> length (concat segs) < n \<Longrightarrow>
     recv_all segs n acc = (False, acc @ concat segs, [])"
  by (induction segs n acc rule: recv_all.induct) auto

lemma send_all_ok: "send_all ans k bs = (True, sent) \<Longrightarrow> sent = bs"
proof (induction ans k bs arbitrary: sent rule: send_all.induct)
  case (1 ans k bs)
  show ?case
  proof (cases "bs = [] \<or> ans k \<le> 0")
    case True
    with 1(2) show ?thesis by (subst (asm) send_all.simps) (auto simp: Let_def split: if_splits)
  next
    case False
    with 1(2) obtain sent' where rest: "send_all ans (k + 1) (drop (nat (ans k)) bs) = (True, sent')"
      "sent = take (nat (ans k)) bs @ sent'"
      by (subst (asm) send_all.simps) (auto simp: Let_def split: prod.splits)
    have "sent' = drop (nat (ans k)) bs"
      using 1(1) [OF _ refl _ rest(1)] False by blast
    then show ?thesis by (simp add: rest(2))
  qed
qed

text \<open>A record is sent whole exactly when the kernel never answers 0 or less before the end.\<close>

lemma send_all_progress: "\<forall>k. 0 < ans k \<Longrightarrow> send_all ans k bs = (True, bs)"
proof (induction ans k bs rule: send_all.induct)
  case (1 ans k bs)
  have pos: "\<not> ans k \<le> 0" using 1(2) by (simp add: not_le)
  show ?case
  proof (cases "bs = []")
    case True
    then show ?thesis by (subst send_all.simps) simp
  next
    case False
    with pos 1(1) [OF False refl pos 1(2)] show ?thesis by (subst send_all.simps) (simp add: Let_def)
  qed
qed

text \<open>Reading records of one width one after the other.\<close>

fun recv_records :: "(u8 list \<Rightarrow> 'a) \<Rightarrow> nat \<Rightarrow> nat \<Rightarrow> u8 list list \<Rightarrow> 'a list option" where
  "recv_records dec w 0 segs = Some []"
| "recv_records dec w (Suc n) segs =
     (case recv_all segs w [] of
        (False, _, _) \<Rightarrow> None
      | (True, bs, rest) \<Rightarrow>
          (case recv_records dec w n rest of None \<Rightarrow> None | Some xs \<Rightarrow> Some (dec bs # xs)))"

context byte_codec
begin

lemma recv_records_stream:
  assumes "concat segs = concat (map enc xs) @ tail" "\<forall>seg \<in> set segs. seg \<noteq> []"
  shows "recv_records dec width (length xs) segs = Some xs"
  using assms
proof (induction xs arbitrary: segs)
  case (Cons x xs)
  have "width \<le> length (concat segs)" using Cons(2) by (simp add: length_enc)
  then obtain rest where rest: "recv_all segs width [] = (True, take width (concat segs), rest)"
      "concat rest = drop width (concat segs)" "\<forall>seg \<in> set rest. seg \<noteq> []"
    using recv_all_ok [OF Cons(3), of width "[]"] by auto
  then have "concat rest = concat (map enc xs) @ tail" "dec (take width (concat segs)) = x"
    using Cons(2) by (simp_all add: length_enc dec_enc)
  with Cons.IH rest show ?case by simp
qed simp

end

text \<open>
  Task packets cross the relay socket whole and in order: if every sendAll reports
  success, then however the kernel cuts the writes and however the bytes are cut into reads,
  recvAll of 32 bytes at a time returns exactly the packets sent; and recvAll fails exactly
  when the stream ends before the record does, after taking all that was there.
\<close>

theorem uds_packets_roundtrip:
  assumes "\<forall>i < length pkts. send_all (ans i) 0 (task_packet_bytes (pkts ! i)) = (True, sent i)"
    and "concat segs = concat (map sent [0..<length pkts]) @ tail"
    and segs: "\<forall>seg \<in> set segs. seg \<noteq> []"
  shows "recv_records task_packet_of_bytes 32 (length pkts) segs = Some pkts \<and>
    (\<forall>n. fst (recv_all segs n []) \<longleftrightarrow> n \<le> length (concat segs))"
proof
  have sent: "sent i = task_packet_bytes (pkts ! i)" if "i < length pkts" for i
    using assms(1) that send_all_ok by blast
  have "map sent [0..<length pkts] = map task_packet_bytes pkts"
    by (intro nth_equalityI) (simp_all add: sent)
  then have "concat segs = concat (map task_packet_bytes pkts) @ tail"
    using assms(2) by simp
  then show "recv_records task_packet_of_bytes 32 (length pkts) segs = Some pkts"
    using segs by (rule c_task.recv_records_stream)
  show "\<forall>n. fst (recv_all segs n []) \<longleftrightarrow> n \<le> length (concat segs)"
    using recv_all_ok [OF segs] recv_all_short [OF segs] by (metis fst_conv not_le)
qed

definition example_task :: task_packet where
  "example_task = \<lparr>tp_magic = IQ9_TASK_MAGIC, tp_slot_index = 1, tp_width = 64, tp_height = 48,
     tp_channels = 3, tp_data_type = 1, tp_timestamp_ns = 5\<rparr>"

theorem uds_packets_roundtrip_witness:
  "recv_records task_packet_of_bytes 32 1
     [take 7 (task_packet_bytes example_task), drop 7 (task_packet_bytes example_task)] =
   Some [example_task]"
proof -
  have len: "length (task_packet_bytes example_task) = 32" by (rule c_task.length_enc)
  have sent: "\<forall>i < length [example_task]. send_all (\<lambda>_. 5) 0 (task_packet_bytes ([example_task] ! i)) =
      (True, task_packet_bytes example_task)"
    by (simp add: send_all_progress)
  let ?bs = "task_packet_bytes example_task"
  have concat: "concat [take 7 ?bs, drop 7 ?bs] =
      concat (map (\<lambda>_. ?bs) [0..<length [example_task]]) @ []"
    by simp
  have "take 7 ?bs \<noteq> []" "drop 7 ?bs \<noteq> []"
    unfolding length_0_conv [symmetric] using len by simp_all
  then have segs: "\<forall>seg \<in> set [take 7 ?bs, drop 7 ?bs]. seg \<noteq> []" by simp
  show ?thesis
    using uds_packets_roundtrip [OF sent concat segs] unfolding One_nat_def by simp
qed

end
