(* ===== verification/CFloat.thy ===== *)
theory CFloat
  imports Complex_Main Prelude
begin

text \<open>
  The floating point numbers of the code: \<open>float\<close> and \<open>double\<close> are IEEE 754 binary32 and
  binary64 with round to nearest, ties to even. A finite value is an exact rational; every
  operation is the exact one followed by rounding, executable. The two zeros are one value:
  nothing in the modelled code looks at the sign of a zero. The interface \<open>rounding\<close> states
  what the geometry of the rules relies on: rounding is monotone and exact on its own
  results and their doubles.
\<close>

section \<open>Logarithm and rounding\<close>

fun nlog2 :: "nat \<Rightarrow> nat" where
  "nlog2 n = (if n < 2 then 0 else Suc (nlog2 (n div 2)))"

declare nlog2.simps [simp del]

definition ilog2 :: "rat \<Rightarrow> int" where
  "ilog2 q = (if 1 \<le> q then int (nlog2 (nat \<lfloor>q\<rfloor>))
     else - int (Suc (nlog2 (nat (\<lceil>1 / q\<rceil> - 1)))))"

definition round_even :: "rat \<Rightarrow> int" where
  "round_even x =
     (let f = \<lfloor>x\<rfloor>; r = x - of_int f in
      if r < 1 / 2 then f else if r > 1 / 2 then f + 1 else if even f then f else f + 1)"

datatype fmt = B32 | B64

fun prec :: "fmt \<Rightarrow> int" where "prec B32 = 24" | "prec B64 = 53"
fun emin :: "fmt \<Rightarrow> int" where "emin B32 = - 126" | "emin B64 = - 1022"
fun emax :: "fmt \<Rightarrow> int" where "emax B32 = 127" | "emax B64 = 1023"

definition quantum :: "fmt \<Rightarrow> rat \<Rightarrow> rat" where
  "quantum f q = 2 powi (max (ilog2 \<bar>q\<bar>) (emin f) - (prec f - 1))"

definition rnd :: "fmt \<Rightarrow> rat \<Rightarrow> rat" where
  "rnd f q = (if q = 0 then 0 else of_int (round_even (q / quantum f q)) * quantum f q)"

lemma nlog2_bounds: "0 < n \<Longrightarrow> 2 ^ nlog2 n \<le> n \<and> n < 2 ^ Suc (nlog2 n)"
proof (induction n rule: nlog2.induct)
  case (1 n)
  show ?case
  proof (cases "n < 2")
    case True
    with 1 show ?thesis by (subst nlog2.simps, subst nlog2.simps) auto
  next
    case False
    with 1 have "2 ^ nlog2 (n div 2) \<le> n div 2 \<and> n div 2 < 2 ^ Suc (nlog2 (n div 2))"
      by simp
    moreover have "nlog2 n = Suc (nlog2 (n div 2))"
      using False by (subst nlog2.simps) simp
    ultimately show ?thesis by (auto simp: power_Suc)
  qed
qed

lemma two_powi_pos: "0 < (2 :: rat) powi e"
  by simp

lemma two_powi_Suc: "(2 :: rat) powi (e + 1) = 2 * 2 powi e"
  by (simp add: power_int_add)

lemma two_powi_mono: "e \<le> e' \<Longrightarrow> (2 :: rat) powi e \<le> 2 powi e'"
  by (intro power_int_increasing) auto

lemma two_powi_strict: "e < e' \<Longrightarrow> (2 :: rat) powi e < 2 powi e'"
  by (intro power_int_strict_increasing) auto

lemma of_nat_two_powi: "(2 :: rat) powi int k = of_nat (2 ^ k)"
  by simp

lemma two_powi_add: "(2 :: rat) powi a * 2 powi b = 2 powi (a + b)"
  by (simp add: power_int_add)

lemma two_powi_nat: "0 \<le> e \<Longrightarrow> (2 :: rat) powi e = of_int (2 ^ nat e)"
  using of_nat_two_powi [of "nat e"] by simp

lemma ilog2_bounds:
  assumes "0 < q"
  shows "2 powi ilog2 q \<le> q \<and> q < 2 powi (ilog2 q + 1)"
proof (cases "1 \<le> q")
  case True
  define n where "n = nat \<lfloor>q\<rfloor>"
  have n: "0 < n" "of_nat n \<le> q" "q < of_nat n + 1"
    using True by (auto simp: n_def) linarith+
  note b = nlog2_bounds [OF n(1)]
  have lo: "(of_nat (2 ^ nlog2 n) :: rat) \<le> of_nat n"
    and up: "(of_nat (Suc n) :: rat) \<le> of_nat (2 ^ Suc (nlog2 n))"
    unfolding of_nat_le_iff using b by auto
  have "q < of_nat (Suc n)" using n(3) by simp
  then have "2 powi int (nlog2 n) \<le> q" "q < 2 powi int (Suc (nlog2 n))"
    unfolding of_nat_two_powi using order_trans [OF lo n(2)] less_le_trans [OF _ up] by blast+
  moreover have "ilog2 q = int (nlog2 n)" "ilog2 q + 1 = int (Suc (nlog2 n))"
    using True by (simp_all add: ilog2_def n_def)
  ultimately show ?thesis by metis
next
  case False
  define m where "m = nat (\<lceil>1 / q\<rceil> - 1)"
  have inv: "1 < 1 / q" using False assms by simp
  then have m: "0 < m" "of_nat m < 1 / q" "1 / q \<le> of_nat m + 1"
    by (auto simp: m_def) linarith+
  note b = nlog2_bounds [OF m(1)]
  have lo': "(of_nat (2 ^ nlog2 m) :: rat) \<le> of_nat m"
    and up': "(of_nat (Suc m) :: rat) \<le> of_nat (2 ^ Suc (nlog2 m))"
    unfolding of_nat_le_iff using b by auto
  have "1 / q \<le> of_nat (Suc m)" using m(3) by simp
  then have up: "1 / q \<le> 2 powi int (Suc (nlog2 m))" and lo: "2 powi int (nlog2 m) < 1 / q"
    unfolding of_nat_two_powi using le_less_trans [OF lo' m(2)] order_trans [OF _ up'] by blast+
  have e: "ilog2 q = - int (Suc (nlog2 m))" "ilog2 q + 1 = - int (nlog2 m)"
    using False by (simp_all add: ilog2_def m_def)
  define A B where "A = (2 :: rat) powi int (Suc (nlog2 m))" and "B = (2 :: rat) powi int (nlog2 m)"
  have AB: "0 < A" "0 < B" by (simp_all add: A_def B_def)
  have "1 / q \<le> A" "B < 1 / q" using up lo by (simp_all only: A_def B_def)
  then have "inverse A \<le> q" "q < inverse B" using AB assms by (simp_all add: field_simps)
  then show ?thesis unfolding e(2) unfolding e(1) power_int_minus A_def B_def by blast
qed

lemma ilog2_unique:
  assumes "2 powi e \<le> q" "q < 2 powi (e + 1)"
  shows "ilog2 q = e"
proof -
  have q: "0 < q" using assms(1) two_powi_pos [of e] by linarith
  note b = ilog2_bounds [OF q]
  have "\<not> ilog2 q < e" using b assms two_powi_mono [of "ilog2 q + 1" e] by force
  moreover have "\<not> e < ilog2 q" using b assms two_powi_mono [of "e + 1" "ilog2 q"] by force
  ultimately show ?thesis by simp
qed

lemma ilog2_mono:
  assumes "0 < q" "q \<le> r"
  shows "ilog2 q \<le> ilog2 r"
proof (rule ccontr)
  assume "\<not> ?thesis"
  then have "2 powi (ilog2 r + 1) \<le> (2 :: rat) powi ilog2 q" by (intro two_powi_mono) simp
  then show False using ilog2_bounds [of q] ilog2_bounds [of r] assms by force
qed

lemma round_even_of_int [simp]: "round_even (of_int k) = k"
  by (simp add: round_even_def Let_def)

lemma round_even_floor: "\<lfloor>x\<rfloor> \<le> round_even x \<and> round_even x \<le> \<lfloor>x\<rfloor> + 1"
  by (simp add: round_even_def Let_def)

lemma round_even_mono: "x \<le> y \<Longrightarrow> round_even x \<le> round_even y"
proof (cases "\<lfloor>x\<rfloor> = \<lfloor>y\<rfloor>")
  case True
  assume "x \<le> y"
  with True show ?thesis by (auto simp: round_even_def Let_def)
next
  case False
  assume "x \<le> y"
  then have "\<lfloor>x\<rfloor> \<le> \<lfloor>y\<rfloor>" by (rule floor_mono)
  with False show ?thesis using round_even_floor [of x] round_even_floor [of y] by linarith
qed

lemma round_even_close: "\<bar>of_int (round_even x) - x\<bar> \<le> 1 / 2"
proof -
  have "0 \<le> x - of_int \<lfloor>x\<rfloor>" "x - of_int \<lfloor>x\<rfloor> < 1" by linarith+
  then show ?thesis by (auto simp: round_even_def Let_def)
qed

lemma round_even_minus: "round_even (- x) = - round_even x"
proof (cases "x = of_int \<lfloor>x\<rfloor>")
  case True
  then have "round_even (- x) = round_even (of_int (- \<lfloor>x\<rfloor>))" by (metis of_int_minus)
  then have "round_even (- x) = - \<lfloor>x\<rfloor>" unfolding round_even_of_int .
  moreover have "round_even x = \<lfloor>x\<rfloor>" using True by (metis round_even_of_int)
  ultimately show ?thesis by simp
next
  case False
  then have fl: "\<lfloor>- x\<rfloor> = - \<lfloor>x\<rfloor> - 1"
    by (metis ceiling_altdef ceiling_def diff_minus_eq_add minus_diff_eq add_uminus_conv_diff
        uminus_add_conv_diff minus_minus)
  show ?thesis by (auto simp: round_even_def Let_def fl)
qed


section \<open>Rounding to a format\<close>

lemma quantum_pos [simp]: "0 < quantum f q"
  by (simp add: quantum_def)

lemma quantum_nonneg [simp]: "0 \<le> quantum f q"
  by (simp add: quantum_def)

lemma quantum_minus [simp]: "quantum f (- q) = quantum f q"
  by (simp add: quantum_def)

lemma rnd_0 [simp]: "rnd f 0 = 0"
  by (simp add: rnd_def)

lemma rnd_minus: "rnd f (- q) = - rnd f q"
  by (simp add: rnd_def round_even_minus)

lemma prec_pos: "1 < prec f"
  by (cases f) auto

text \<open>Every multiple \<open>k\<close> of a quantum with \<open>|k| \<le> 2^prec\<close> is a value of the format.\<close>

lemma rnd_exact:
  assumes k: "\<bar>k\<bar> \<le> 2 ^ nat (prec f)" and e: "emin f \<le> e"
  shows "rnd f (of_int k * 2 powi (e - (prec f - 1))) = of_int k * 2 powi (e - (prec f - 1))"
    (is "rnd f ?x = ?x")
proof (cases "k = 0")
  case False
  let ?u = "2 powi (e - (prec f - 1)) :: rat"
  have u: "0 < ?u" by simp
  have pos: "0 < \<bar>?x\<bar>" using False by simp
  define e' where "e' = max (ilog2 \<bar>?x\<bar>) (emin f)"
  have pp: "int (nat (prec f)) = prec f" using prec_pos [of f] by simp
  have two_p: "(2 :: rat) powi prec f = of_int (2 ^ nat (prec f))"
    using of_nat_two_powi [of "nat (prec f)"] unfolding pp by simp
  have abs: "\<bar>?x\<bar> = of_int \<bar>k\<bar> * ?u" by (simp add: abs_mult)
  have add: "(2 :: rat) powi prec f * ?u = 2 powi (e + 1)"
    by (simp flip: power_int_add)
  show ?thesis
  proof (cases "\<bar>k\<bar> = 2 ^ nat (prec f)")
    case True
    then have x: "\<bar>?x\<bar> = 2 powi (e + 1)" unfolding abs True two_p [symmetric] add by simp
    then have "ilog2 \<bar>?x\<bar> = e + 1"
      using two_powi_strict [of "e + 1" "e + 1 + 1"] by (intro ilog2_unique) auto
    then have q: "quantum f ?x = 2 * ?u"
      using e by (simp add: quantum_def two_powi_Suc [symmetric] algebra_simps)
    obtain m where m: "k = 2 * m"
    proof -
      obtain j where "nat (prec f) = Suc j" using prec_pos [of f] by (cases "nat (prec f)") auto
      then have "even k" using True by (metis dvd_abs_iff dvd_triv_left power_Suc)
      then show ?thesis using that by (auto elim: evenE)
    qed
    have "?x / quantum f ?x = of_int m" unfolding q using m u by simp
    then have "rnd f ?x = of_int m * quantum f ?x"
      using False unfolding rnd_def by (simp only: round_even_of_int) simp
    then show ?thesis unfolding q using m by simp
  next
    case neq: False
    then have "of_int \<bar>k\<bar> < (2 :: rat) powi prec f"
      unfolding two_p of_int_less_iff using k by simp
    then have "\<bar>?x\<bar> < 2 powi (e + 1)"
      unfolding abs add [symmetric] using u by (intro mult_strict_right_mono)
    then have "ilog2 \<bar>?x\<bar> \<le> e"
      using ilog2_bounds [OF pos] two_powi_mono [of "e + 1" "ilog2 \<bar>?x\<bar>"] by force
    then have e': "e' \<le> e" using e by (simp add: e'_def)
    have q: "quantum f ?x = 2 powi (e' - (prec f - 1))" by (simp add: quantum_def e'_def)
    define Q where "Q = quantum f ?x"
    have "e - e' + (e' - (prec f - 1)) = e - (prec f - 1)" by simp
    then have u_eq: "?u = of_int (2 ^ nat (e - e')) * Q"
      using two_powi_add [of "e - e'" "e' - (prec f - 1)"] two_powi_nat [of "e - e'"] e'
      unfolding Q_def q by (simp only:)
    have Q: "0 < Q" by (simp add: Q_def)
    have "of_int k * ?u / Q = of_int (k * 2 ^ nat (e - e'))" unfolding u_eq using Q by simp
    then have "rnd f ?x = of_int (k * 2 ^ nat (e - e')) * Q"
      using False unfolding rnd_def Q_def [symmetric] by (simp only: round_even_of_int) simp
    also have "\<dots> = ?x" unfolding u_eq by simp
    finally show ?thesis .
  qed
qed simp


lemma round_even_pow_bound:
  assumes "x < 2 powi prec f"
  shows "round_even x \<le> 2 ^ nat (prec f)"
proof -
  have "int (nat (prec f)) = prec f" using prec_pos [of f] by simp
  then have "x \<le> of_int (2 ^ nat (prec f))"
    using assms of_nat_two_powi [of "nat (prec f)"] by simp
  from round_even_mono [OF this] show ?thesis unfolding round_even_of_int .
qed

lemma scaled_bound:
  assumes "q \<noteq> 0"
  shows "\<bar>q\<bar> / quantum f q < 2 powi prec f"
proof -
  let ?e = "max (ilog2 \<bar>q\<bar>) (emin f)"
  have "\<bar>q\<bar> < 2 powi (ilog2 \<bar>q\<bar> + 1)" using assms ilog2_bounds [of "\<bar>q\<bar>"] by simp
  also have "\<dots> \<le> 2 powi (?e + 1)" by (intro two_powi_mono) simp
  also have "\<dots> = 2 powi prec f * quantum f q"
    by (simp add: quantum_def flip: power_int_add)
  finally show ?thesis by (simp add: divide_less_eq)
qed

lemma round_even_nonneg: "0 \<le> x \<Longrightarrow> 0 \<le> round_even x"
  using round_even_mono [of 0 x] round_even_of_int [of 0] by simp

text \<open>What rounding gives is a value of the format.\<close>

lemma rnd_form:
  "\<exists>k e. rnd f q = of_int k * 2 powi (e - (prec f - 1)) \<and> \<bar>k\<bar> \<le> 2 ^ nat (prec f) \<and> emin f \<le> e"
proof (cases "q = 0")
  case True
  then show ?thesis by (intro exI [of _ 0] exI [of _ "emin f"]) simp
next
  case False
  let ?k = "round_even (q / quantum f q)"
  have bound: "\<bar>q / quantum f q\<bar> < 2 powi prec f"
    using scaled_bound [OF False, of f] by (simp add: abs_of_pos [OF quantum_pos])
  have "?k \<le> 2 ^ nat (prec f)" using bound by (intro round_even_pow_bound) linarith
  moreover have "- ?k \<le> 2 ^ nat (prec f)"
    unfolding round_even_minus [symmetric] using bound by (intro round_even_pow_bound) linarith
  ultimately have abs: "\<bar>?k\<bar> \<le> 2 ^ nat (prec f)" by simp
  show ?thesis
  proof (intro exI conjI)
    show "rnd f q = of_int ?k * 2 powi (max (ilog2 \<bar>q\<bar>) (emin f) - (prec f - 1))"
      using False by (simp add: rnd_def quantum_def)
  qed (use abs in auto)
qed

lemma rnd_idem: "rnd f (rnd f q) = rnd f q"
proof -
  obtain k e where "rnd f q = of_int k * 2 powi (e - (prec f - 1))" "\<bar>k\<bar> \<le> 2 ^ nat (prec f)" "emin f \<le> e"
    using rnd_form [of f q] by blast
  then show ?thesis using rnd_exact [of k f e] by simp
qed

lemma rnd_twice: "rnd f (2 * rnd f q) = 2 * rnd f q"
proof -
  obtain k e where k: "rnd f q = of_int k * 2 powi (e - (prec f - 1))" "\<bar>k\<bar> \<le> 2 ^ nat (prec f)" "emin f \<le> e"
    using rnd_form [of f q] by blast
  have "e + 1 - (prec f - 1) = (e - (prec f - 1)) + 1" by simp
  then have "2 * rnd f q = of_int k * 2 powi (e + 1 - (prec f - 1))"
    unfolding k(1) by (simp only: two_powi_Suc)
  then show ?thesis using rnd_exact [of k f "e + 1"] k(2,3) by (simp only:)
qed

lemma rnd_nonneg: "0 \<le> q \<Longrightarrow> 0 \<le> rnd f q"
  by (simp add: rnd_def round_even_nonneg less_imp_le [OF quantum_pos])

lemma rnd_powi: "emin f \<le> e \<Longrightarrow> rnd f (2 powi e) = 2 powi e"
proof -
  assume e: "emin f \<le> e"
  have "prec f - 1 + (e - (prec f - 1)) = e" by simp
  then have "of_int (2 ^ nat (prec f - 1)) * (2 :: rat) powi (e - (prec f - 1)) = 2 powi e"
    using two_powi_add [of "prec f - 1" "e - (prec f - 1)"] two_powi_nat [of "prec f - 1"]
      prec_pos [of f] by (simp only:)
  moreover have "(2 :: int) ^ nat (prec f - 1) \<le> 2 ^ nat (prec f)"
    by (intro power_increasing) auto
  ultimately show ?thesis using rnd_exact [of "2 ^ nat (prec f - 1)" f e] e by simp
qed

lemma rnd_mono_pos:
  assumes "0 < q" "q \<le> r"
  shows "rnd f q \<le> rnd f r"
proof (cases "quantum f q = quantum f r")
  case True
  have "q / quantum f r \<le> r / quantum f r" using assms by (intro divide_right_mono) auto
  from round_even_mono [OF this] show ?thesis
    using assms True by (simp add: rnd_def less_imp_le [OF quantum_pos])
next
  case False
  let ?a = "max (ilog2 q) (emin f)" and ?b = "max (ilog2 r) (emin f)"
  have le: "?a \<le> ?b" using ilog2_mono [OF assms] by linarith
  have "quantum f q = 2 powi (?a - (prec f - 1))" "quantum f r = 2 powi (?b - (prec f - 1))"
    using assms by (simp_all add: quantum_def)
  with False have "?a \<noteq> ?b" by metis
  with le have lt: "?a < ?b" by linarith
  then have b: "?b = ilog2 r" by linarith
  have "round_even (q / quantum f q) \<le> 2 ^ nat (prec f)"
    using scaled_bound [of q f] assms by (intro round_even_pow_bound) simp
  then have "of_int (round_even (q / quantum f q)) \<le> (of_int (2 ^ nat (prec f)) :: rat)"
    unfolding of_int_le_iff .
  also have "\<dots> = 2 powi prec f"
    using of_nat_two_powi [of "nat (prec f)"] prec_pos [of f] by simp
  finally have "rnd f q \<le> 2 powi prec f * quantum f q"
    using assms by (simp add: rnd_def)
  also have "\<dots> = 2 powi (?a + 1)" using assms by (simp add: quantum_def flip: power_int_add)
  also have "\<dots> \<le> 2 powi ?b" by (intro two_powi_mono) (use lt in linarith)
  also have "\<dots> = of_int (2 ^ nat (prec f - 1)) * quantum f r"
  proof -
    have "prec f - 1 + (?b - (prec f - 1)) = ?b" by simp
    moreover have "quantum f r = 2 powi (?b - (prec f - 1))" using assms by (simp add: quantum_def)
    ultimately show ?thesis
      using two_powi_add [of "prec f - 1" "?b - (prec f - 1)"] two_powi_nat [of "prec f - 1"]
        prec_pos [of f] by (simp only:)
  qed
  also have "\<dots> \<le> of_int (round_even (r / quantum f r)) * quantum f r"
  proof (intro mult_right_mono)
    have "2 powi ?b \<le> r" using ilog2_bounds [of r] assms b by simp
    then have "of_int (2 ^ nat (prec f - 1)) \<le> r / quantum f r"
      using \<open>2 powi ?b = of_int (2 ^ nat (prec f - 1)) * quantum f r\<close> by (simp add: le_divide_eq)
    from round_even_mono [OF this] show "of_int (2 ^ nat (prec f - 1)) \<le>
        (of_int (round_even (r / quantum f r)) :: rat)"
      unfolding of_int_le_iff round_even_of_int .
  qed simp
  finally show ?thesis using assms by (simp add: rnd_def)
qed

lemma rnd_mono:
  assumes "q \<le> r"
  shows "rnd f q \<le> rnd f r"
proof -
  consider "0 < q" | "r < 0" | "q \<le> 0" "0 \<le> r" using assms by linarith
  then show ?thesis
  proof cases
    case 1
    then show ?thesis using rnd_mono_pos assms by blast
  next
    case 2
    then have "rnd f (- r) \<le> rnd f (- q)" using rnd_mono_pos [of "- r" "- q" f] assms by simp
    then show ?thesis by (simp add: rnd_minus)
  next
    case 3
    have "0 \<le> rnd f (- q)" using 3 by (intro rnd_nonneg) simp
    then show ?thesis using rnd_nonneg [of r f] 3 by (simp add: rnd_minus)
  qed
qed


text \<open>
  What the geometry relies on. Its lemmas: a rounded quotient of a part by a whole is at
  most 1, and the rounded area of a union is at least each rounded area it was made of.
\<close>

locale rounding =
  fixes r :: "rat \<Rightarrow> rat"
  assumes r_mono: "x \<le> y \<Longrightarrow> r x \<le> r y"
    and r_0: "r 0 = 0"
    and r_1: "r 1 = 1"
    and r_idem: "r (r x) = r x"
    and r_twice: "r (2 * r x) = 2 * r x"
begin

lemma r_nonneg: "0 \<le> x \<Longrightarrow> 0 \<le> r x"
  using r_mono [of 0 x] r_0 by simp

lemma quotient_le_1:
  assumes "0 \<le> a" "a \<le> b" "0 < b"
  shows "0 \<le> r (a / b) \<and> r (a / b) \<le> 1"
proof -
  have "0 \<le> a / b" "a / b \<le> 1" using assms by auto
  then show ?thesis using r_mono [of "a / b" 1] r_1 r_nonneg [of "a / b"] by simp
qed

text \<open>\<open>fl(fl(a + b) - i) \<ge> i\<close> when \<open>i\<close> is at most both areas.\<close>

lemma union_ge_intersection:
  assumes "i \<le> a" "i \<le> b" "r i = i"
  shows "i \<le> r (r (a + b) - i)"
proof -
  have "r (2 * i) \<le> r (a + b)" using assms by (intro r_mono) simp
  then have "i \<le> r (a + b) - i" using r_twice [of i] assms(3) by simp
  from r_mono [OF this] show ?thesis using assms(3) by simp
qed

end

interpretation rounding "rnd f" for f
proof
  have "rnd f (2 powi 0) = 2 powi 0" by (rule rnd_powi) (cases f, simp_all)
  then show "rnd f 1 = 1" by simp
qed (simp_all add: rnd_mono rnd_idem rnd_twice)

section \<open>Values and operations\<close>

datatype cfloat = Fin rat | PInf | NInf | NaN

definition fl :: "fmt \<Rightarrow> rat \<Rightarrow> cfloat" where
  "fl f q =
     (let x = rnd f q in
      if 2 powi (emax f + 1) \<le> x then PInf
      else if x \<le> - (2 powi (emax f + 1)) then NInf
      else Fin x)"

fun fneg :: "cfloat \<Rightarrow> cfloat" where
  "fneg (Fin q) = Fin (- q)"
| "fneg PInf = NInf"
| "fneg NInf = PInf"
| "fneg NaN = NaN"

fun fadd :: "fmt \<Rightarrow> cfloat \<Rightarrow> cfloat \<Rightarrow> cfloat" where
  "fadd f (Fin a) (Fin b) = fl f (a + b)"
| "fadd f NaN _ = NaN"
| "fadd f _ NaN = NaN"
| "fadd f PInf NInf = NaN"
| "fadd f NInf PInf = NaN"
| "fadd f PInf _ = PInf"
| "fadd f NInf _ = NInf"
| "fadd f _ PInf = PInf"
| "fadd f _ NInf = NInf"

definition fsub :: "fmt \<Rightarrow> cfloat \<Rightarrow> cfloat \<Rightarrow> cfloat" where
  "fsub f a b = fadd f a (fneg b)"

fun sgn_of :: "cfloat \<Rightarrow> int" where
  "sgn_of (Fin q) = (if q > 0 then 1 else if q < 0 then - 1 else 0)"
| "sgn_of PInf = 1"
| "sgn_of NInf = - 1"
| "sgn_of NaN = 0"

definition inf_of_sgn :: "int \<Rightarrow> cfloat" where
  "inf_of_sgn s = (if s > 0 then PInf else if s < 0 then NInf else NaN)"

fun fmul :: "fmt \<Rightarrow> cfloat \<Rightarrow> cfloat \<Rightarrow> cfloat" where
  "fmul f (Fin a) (Fin b) = fl f (a * b)"
| "fmul f NaN _ = NaN"
| "fmul f _ NaN = NaN"
| "fmul f a b = inf_of_sgn (sgn_of a * sgn_of b)"

text \<open>A quotient by zero takes the sign of its dividend: there is one zero.\<close>

fun fdiv :: "fmt \<Rightarrow> cfloat \<Rightarrow> cfloat \<Rightarrow> cfloat" where
  "fdiv f (Fin a) (Fin b) = (if b = 0 then inf_of_sgn (sgn_of (Fin a)) else fl f (a / b))"
| "fdiv f NaN _ = NaN"
| "fdiv f _ NaN = NaN"
| "fdiv f (Fin a) _ = Fin 0"
| "fdiv f a (Fin b) = inf_of_sgn (sgn_of a * (if b < 0 then - 1 else 1))"
| "fdiv f _ _ = NaN"

fun flt :: "cfloat \<Rightarrow> cfloat \<Rightarrow> bool" where
  "flt (Fin a) (Fin b) \<longleftrightarrow> a < b"
| "flt (Fin a) PInf \<longleftrightarrow> True"
| "flt NInf (Fin b) \<longleftrightarrow> True"
| "flt NInf PInf \<longleftrightarrow> True"
| "flt _ _ \<longleftrightarrow> False"

definition feq :: "cfloat \<Rightarrow> cfloat \<Rightarrow> bool" where
  "feq a b \<longleftrightarrow> a = b \<and> a \<noteq> NaN"

definition fle :: "cfloat \<Rightarrow> cfloat \<Rightarrow> bool" where
  "fle a b \<longleftrightarrow> flt a b \<or> feq a b"

text \<open>\<open>std::max\<close> and \<open>std::min\<close>: the first argument unless the comparison holds.\<close>

definition fmax :: "cfloat \<Rightarrow> cfloat \<Rightarrow> cfloat" where
  "fmax a b = (if flt a b then b else a)"

definition fmin :: "cfloat \<Rightarrow> cfloat \<Rightarrow> cfloat" where
  "fmin a b = (if flt b a then b else a)"

text \<open>\<open>static_cast<float>\<close> of a double.\<close>

fun to_float :: "cfloat \<Rightarrow> cfloat" where
  "to_float (Fin q) = fl B32 q"
| "to_float x = x"

fun isqrt :: "nat \<Rightarrow> nat" where
  "isqrt n = (if n = 0 then 0
     else let s = 2 * isqrt (n div 4) in if (s + 1) * (s + 1) \<le> n then s + 1 else s)"

declare isqrt.simps [simp del]

text \<open>\<open>std::sqrt\<close>: the square root rounded to nearest (it is never halfway but when exact).\<close>

definition sqrt_rat :: "fmt \<Rightarrow> rat \<Rightarrow> rat" where
  "sqrt_rat f q =
     (let u = 2 powi (ilog2 q div 2 - (prec f - 1));
          m = of_nat (isqrt (nat \<lfloor>q / (u * u)\<rfloor>));
          h = (m + 1 / 2) * u
      in if h * h < q then (m + 1) * u else m * u)"

fun fsqrt :: "fmt \<Rightarrow> cfloat \<Rightarrow> cfloat" where
  "fsqrt f (Fin q) = (if q < 0 then NaN else if q = 0 then Fin 0 else Fin (sqrt_rat f q))"
| "fsqrt f PInf = PInf"
| "fsqrt f NInf = NaN"
| "fsqrt f NaN = NaN"

text \<open>
  \<open>static_cast<uint64_t>\<close> of a floating value: truncation; out of range (undefined in C) it
  saturates, as the AArch64 instruction does.
\<close>

fun u64_of_float :: "cfloat \<Rightarrow> u64" where
  "u64_of_float (Fin q) = (if q < 0 then 0 else if q \<ge> 2 ^ 64 then - 1 else word_of_int \<lfloor>q\<rfloor>)"
| "u64_of_float PInf = - 1"
| "u64_of_float _ = 0"

lemma isqrt_bounds: "isqrt n * isqrt n \<le> n \<and> n < (isqrt n + 1) * (isqrt n + 1)"
proof (induction n rule: isqrt.induct)
  case (1 n)
  show ?case
  proof (cases "n = 0")
    case True
    then show ?thesis by (simp add: isqrt.simps)
  next
    case False
    define t where "t = isqrt (n div 4)"
    have t: "t * t \<le> n div 4" "n div 4 < (t + 1) * (t + 1)"
      using 1 [OF False] by (auto simp: t_def)
    have "(2 * t) * (2 * t) \<le> n" "n < (2 * t + 2) * (2 * t + 2)"
      using t by (auto simp: algebra_simps)
    moreover have "isqrt n = (if (2 * t + 1) * (2 * t + 1) \<le> n then 2 * t + 1 else 2 * t)"
      using False unfolding t_def by (subst isqrt.simps) (simp only: Let_def if_False)
    ultimately show ?thesis by auto
  qed
qed

end
