(* ===== verification/Geometry.thy ===== *)
theory Geometry
  imports CFloat
begin

text \<open>
  The geometry and the vector arithmetic of the rules (\<open>rule_process/utils/MathUtils.h\<close>), in
  binary32 with every rounding: boxes, areas, intersection over union, the danger zone
  around a box, dot products and cosine similarity. Fused multiply-add is not used.
\<close>

abbreviation "F \<equiv> B32"

record bbox =
  bx1 :: cfloat
  by1 :: cfloat
  bx2 :: cfloat
  by2 :: cfloat

definition to_bbox :: "cfloat list \<Rightarrow> bbox" where
  "to_bbox vec =
     (if length vec < 4 then \<lparr>bx1 = Fin 0, by1 = Fin 0, bx2 = Fin 0, by2 = Fin 0\<rparr>
      else \<lparr>bx1 = vec ! 0, by1 = vec ! 1, bx2 = vec ! 2, by2 = vec ! 3\<rparr>)"

definition bbox_area :: "bbox \<Rightarrow> cfloat" where
  "bbox_area b = fmul F (fmax (Fin 0) (fsub F (bx2 b) (bx1 b))) (fmax (Fin 0) (fsub F (by2 b) (by1 b)))"

definition calculate_iou_bbox :: "bbox \<Rightarrow> bbox \<Rightarrow> cfloat" where
  "calculate_iou_bbox a b =
     (let interX1 = fmax (bx1 a) (bx1 b); interY1 = fmax (by1 a) (by1 b);
          interX2 = fmin (bx2 a) (bx2 b); interY2 = fmin (by2 a) (by2 b);
          interArea = fmul F (fmax (Fin 0) (fsub F interX2 interX1))
                             (fmax (Fin 0) (fsub F interY2 interY1));
          unionArea = fsub F (fadd F (bbox_area a) (bbox_area b)) interArea
      in if fle unionArea (Fin 0) then Fin 0 else fdiv F interArea unionArea)"

definition calculate_iou :: "cfloat list \<Rightarrow> cfloat list \<Rightarrow> cfloat" where
  "calculate_iou boxA boxB = calculate_iou_bbox (to_bbox boxA) (to_bbox boxB)"

definition calculate_danger_zone :: "cfloat list \<Rightarrow> cfloat \<Rightarrow> cfloat \<Rightarrow> cfloat list" where
  "calculate_danger_zone car_bbox h_expand v_expand =
     (let b = to_bbox car_bbox;
          width = fmax (Fin 0) (fsub F (bx2 b) (bx1 b));
          height = fmax (Fin 0) (fsub F (by2 b) (by1 b));
          pad_x = fmul F width h_expand;
          pad_y = fmul F height v_expand
      in [fsub F (bx1 b) pad_x, by1 b, fadd F (bx2 b) pad_x, fadd F (by2 b) pad_y])"

definition dot_product :: "cfloat list \<Rightarrow> cfloat list \<Rightarrow> cfloat" where
  "dot_product a b = foldl (\<lambda>sum (x, y). fadd F sum (fmul F x y)) (Fin 0) (zip a b)"

definition magnitude :: "cfloat list \<Rightarrow> cfloat" where
  "magnitude a = fsqrt F (dot_product a a)"

definition cosine_similarity :: "cfloat list \<Rightarrow> cfloat list \<Rightarrow> cfloat" where
  "cosine_similarity a b =
     (let magA = magnitude a; magB = magnitude b in
      if feq magA (Fin 0) \<or> feq magB (Fin 0) then Fin 0
      else fdiv F (dot_product a b) (fmul F magA magB))"

section \<open>Boxes with coordinates in range\<close>

text \<open>
  Coordinates that are binary32 values of magnitude at most 2^60: areas and their sums stay
  finite.
\<close>

definition coord_ok :: "cfloat \<Rightarrow> bool" where
  "coord_ok c \<longleftrightarrow> (\<exists>q. c = Fin q \<and> \<bar>q\<bar> \<le> 2 powi 60 \<and> rnd F q = q)"

definition bbox_ok :: "bbox \<Rightarrow> bool" where
  "bbox_ok b \<longleftrightarrow> coord_ok (bx1 b) \<and> coord_ok (by1 b) \<and> coord_ok (bx2 b) \<and> coord_ok (by2 b)"

lemma fl_fin:
  assumes "\<bar>q\<bar> \<le> 2 powi e" "emin F \<le> e" "e \<le> 127"
  shows "fl F q = Fin (rnd F q) \<and> \<bar>rnd F q\<bar> \<le> 2 powi e"
proof -
  have "rnd F q \<le> rnd F (2 powi e)" "rnd F (- q) \<le> rnd F (2 powi e)"
    using assms(1) by (intro rnd_mono; simp add: abs_le_iff)+
  then have b: "\<bar>rnd F q\<bar> \<le> 2 powi e"
    using rnd_powi [OF assms(2)] by (simp add: rnd_minus)
  have "(2 :: rat) powi e < 2 powi 128" using assms(3) by (intro two_powi_strict) simp
  with b show ?thesis by (simp add: fl_def Let_def abs_le_iff) linarith?
qed


text \<open>The same computation on the rationals under the coordinates.\<close>

definition side :: "rat \<Rightarrow> rat \<Rightarrow> rat" where
  "side lo hi = max 0 (rnd F (hi - lo))"

definition area4 :: "rat \<Rightarrow> rat \<Rightarrow> rat \<Rightarrow> rat \<Rightarrow> rat" where
  "area4 x1 y1 x2 y2 = rnd F (side x1 x2 * side y1 y2)"

lemma fmax_Fin: "fmax (Fin a) (Fin b) = Fin (max a b)"
  by (simp add: fmax_def max_def)

lemma fmin_Fin: "fmin (Fin a) (Fin b) = Fin (min a b)"
  by (auto simp: fmin_def min_def)

lemma side_nonneg: "0 \<le> side lo hi"
  by (simp add: side_def)

lemma area4_nonneg: "0 \<le> area4 x1 y1 x2 y2"
  by (simp add: area4_def r_nonneg side_nonneg)

lemma side_Fin:
  assumes "\<bar>lo\<bar> \<le> 2 powi 60" "\<bar>hi\<bar> \<le> 2 powi 60"
  shows "fmax (Fin 0) (fsub F (Fin hi) (Fin lo)) = Fin (side lo hi) \<and> side lo hi \<le> 2 powi 61"
proof -
  have "(2 :: rat) powi 61 = 2 powi 60 + 2 powi 60" using two_powi_Suc [of 60] by simp
  then have "\<bar>hi - lo\<bar> \<le> 2 powi 61" using assms by linarith
  then have "fl F (hi - lo) = Fin (rnd F (hi - lo)) \<and> \<bar>rnd F (hi - lo)\<bar> \<le> 2 powi 61"
    by (intro fl_fin) auto
  then show ?thesis by (simp add: fsub_def fmax_Fin side_def abs_le_iff)
qed

lemma area_Fin:
  assumes "\<bar>x1\<bar> \<le> 2 powi 60" "\<bar>x2\<bar> \<le> 2 powi 60" "\<bar>y1\<bar> \<le> 2 powi 60" "\<bar>y2\<bar> \<le> 2 powi 60"
  shows "fmul F (fmax (Fin 0) (fsub F (Fin x2) (Fin x1))) (fmax (Fin 0) (fsub F (Fin y2) (Fin y1))) =
      Fin (area4 x1 y1 x2 y2) \<and> area4 x1 y1 x2 y2 \<le> 2 powi 122"
proof -
  have "side x1 x2 * side y1 y2 \<le> 2 powi 61 * 2 powi 61"
    using side_Fin assms side_nonneg by (intro mult_mono) auto
  also have "\<dots> = 2 powi 122" unfolding two_powi_add by simp
  finally have "\<bar>side x1 x2 * side y1 y2\<bar> \<le> 2 powi 122" using side_nonneg by simp
  then have "fl F (side x1 x2 * side y1 y2) = Fin (area4 x1 y1 x2 y2) \<and> \<bar>area4 x1 y1 x2 y2\<bar> \<le> 2 powi 122"
    unfolding area4_def by (intro fl_fin) auto
  then show ?thesis using side_Fin assms by (simp add: abs_le_iff)
qed

text \<open>An intersection's area is at most the area of a box that contains it.\<close>

lemma side_mono: "lo' \<le> lo \<Longrightarrow> hi \<le> hi' \<Longrightarrow> side lo hi \<le> side lo' hi'"
  unfolding side_def by (intro max.mono rnd_mono) auto

lemma area4_mono:
  "x1' \<le> x1 \<Longrightarrow> y1' \<le> y1 \<Longrightarrow> x2 \<le> x2' \<Longrightarrow> y2 \<le> y2' \<Longrightarrow>
     area4 x1 y1 x2 y2 \<le> area4 x1' y1' x2' y2'"
  unfolding area4_def by (intro rnd_mono mult_mono side_mono side_nonneg)

definition iou4 :: "rat \<Rightarrow> rat \<Rightarrow> rat \<Rightarrow> rat" where
  "iou4 i a b = (let u = rnd F (rnd F (a + b) - i) in if u \<le> 0 then 0 else rnd F (i / u))"

lemma iou4_bounds:
  assumes "0 \<le> i" "i \<le> a" "i \<le> b" "rnd F i = i"
  shows "0 \<le> iou4 i a b \<and> iou4 i a b \<le> 1"
proof -
  have "i \<le> rnd F (rnd F (a + b) - i)" using assms by (intro union_ge_intersection)
  then show ?thesis
    using quotient_le_1 [OF assms(1), of "rnd F (rnd F (a + b) - i)"] by (simp add: iou4_def Let_def)
qed

lemma iou_union_bound:
  assumes "0 \<le> i" "i \<le> a" "0 \<le> b" "a \<le> 2 powi 122" "b \<le> 2 powi 122"
  shows "fl F (a + b) = Fin (rnd F (a + b)) \<and>
    fl F (rnd F (a + b) - i) = Fin (rnd F (rnd F (a + b) - i))"
proof -
  have two: "(2 :: rat) powi 123 = 2 powi 122 + 2 powi 122" using two_powi_Suc [of 122] by simp
  then have ab: "\<bar>a + b\<bar> \<le> 2 powi 123" using assms by linarith
  note s = fl_fin [OF ab]
  have "(2 :: rat) powi 124 = 2 powi 123 + 2 powi 123" using two_powi_Suc [of 123] by simp
  then have "\<bar>rnd F (a + b) - i\<bar> \<le> 2 powi 124" using s two assms by auto
  from fl_fin [OF this] s show ?thesis by auto
qed

lemma calculate_iou_Fin:
  assumes ok: "bbox_ok a" "bbox_ok b"
  shows "\<exists>i aa ab. calculate_iou_bbox a b = Fin (iou4 i aa ab) \<and> 0 \<le> i \<and> i \<le> aa \<and> i \<le> ab \<and>
    rnd F i = i \<and> bbox_area a = Fin aa \<and> bbox_area b = Fin ab \<and> (a = b \<longrightarrow> i = aa)"
proof -
  obtain ax1 ay1 ax2 ay2 where a: "bx1 a = Fin ax1" "by1 a = Fin ay1" "bx2 a = Fin ax2" "by2 a = Fin ay2"
      "\<bar>ax1\<bar> \<le> 2 powi 60" "\<bar>ay1\<bar> \<le> 2 powi 60" "\<bar>ax2\<bar> \<le> 2 powi 60" "\<bar>ay2\<bar> \<le> 2 powi 60"
    using ok(1) by (auto simp: bbox_ok_def coord_ok_def)
  obtain x1 y1 x2 y2 where b: "bx1 b = Fin x1" "by1 b = Fin y1" "bx2 b = Fin x2" "by2 b = Fin y2"
      "\<bar>x1\<bar> \<le> 2 powi 60" "\<bar>y1\<bar> \<le> 2 powi 60" "\<bar>x2\<bar> \<le> 2 powi 60" "\<bar>y2\<bar> \<le> 2 powi 60"
    using ok(2) by (auto simp: bbox_ok_def coord_ok_def)
  define aa ab i where "aa = area4 ax1 ay1 ax2 ay2" and "ab = area4 x1 y1 x2 y2"
    and "i = area4 (max ax1 x1) (max ay1 y1) (min ax2 x2) (min ay2 y2)"
  have areas: "bbox_area a = Fin aa" "aa \<le> 2 powi 122" "bbox_area b = Fin ab" "ab \<le> 2 powi 122"
    using area_Fin a b by (simp_all add: bbox_area_def aa_def ab_def)
  have ineq: "0 \<le> i" "i \<le> aa" "i \<le> ab" "0 \<le> ab"
    by (auto simp: i_def aa_def ab_def area4_nonneg intro!: area4_mono)
  have "\<bar>max ax1 x1\<bar> \<le> 2 powi 60" "\<bar>max ay1 y1\<bar> \<le> 2 powi 60"
      "\<bar>min ax2 x2\<bar> \<le> 2 powi 60" "\<bar>min ay2 y2\<bar> \<le> 2 powi 60"
    using a(5-8) b(5-8) unfolding max_def min_def by simp_all
  note i = area_Fin [OF this(1,3,2,4), folded i_def]
  have u: "fsub F (fadd F (Fin aa) (Fin ab)) (Fin i) = Fin (rnd F (rnd F (aa + ab) - i))"
    using iou_union_bound [OF ineq(1,2,4) areas(2,4)] by (simp add: fsub_def)
  have q: "fl F (i / rnd F (rnd F (aa + ab) - i)) = Fin (rnd F (i / rnd F (rnd F (aa + ab) - i)))"
    if "0 < rnd F (rnd F (aa + ab) - i)"
  proof -
    have "i \<le> rnd F (rnd F (aa + ab) - i)"
      using ineq by (intro union_ge_intersection) (simp_all add: i_def area4_def rnd_idem)
    then have "\<bar>i / rnd F (rnd F (aa + ab) - i)\<bar> \<le> 2 powi 0" using that ineq(1) by simp
    from fl_fin [OF this] show ?thesis by simp
  qed
  have "calculate_iou_bbox a b = Fin (iou4 i aa ab)"
    unfolding calculate_iou_bbox_def Let_def areas(1,3) unfolding a(1-4) b(1-4) fmax_Fin fmin_Fin
      conjunct1 [OF i] u
    using q by (auto simp: iou4_def Let_def fle_def feq_def not_le)
  moreover have "a = b \<longrightarrow> i = aa" using a b by (auto simp: i_def aa_def)
  moreover have "rnd F i = i" by (simp add: i_def area4_def rnd_idem)
  ultimately show ?thesis using ineq areas by blast
qed


lemma disjoint_iou:
  assumes ok: "bbox_ok a" "bbox_ok b" and apart: "flt (bx2 a) (bx1 b) \<or> flt (by2 a) (by1 b)"
  shows "calculate_iou_bbox a b = Fin 0"
proof -
  obtain ax1 ay1 ax2 ay2 where a: "bx1 a = Fin ax1" "by1 a = Fin ay1" "bx2 a = Fin ax2" "by2 a = Fin ay2"
      "\<bar>ax1\<bar> \<le> 2 powi 60" "\<bar>ay1\<bar> \<le> 2 powi 60" "\<bar>ax2\<bar> \<le> 2 powi 60" "\<bar>ay2\<bar> \<le> 2 powi 60"
    using ok(1) by (auto simp: bbox_ok_def coord_ok_def)
  obtain x1 y1 x2 y2 where b: "bx1 b = Fin x1" "by1 b = Fin y1" "bx2 b = Fin x2" "by2 b = Fin y2"
      "\<bar>x1\<bar> \<le> 2 powi 60" "\<bar>y1\<bar> \<le> 2 powi 60" "\<bar>x2\<bar> \<le> 2 powi 60" "\<bar>y2\<bar> \<le> 2 powi 60"
    using ok(2) by (auto simp: bbox_ok_def coord_ok_def)
  define i where "i = area4 (max ax1 x1) (max ay1 y1) (min ax2 x2) (min ay2 y2)"
  have "\<bar>max ax1 x1\<bar> \<le> 2 powi 60" "\<bar>max ay1 y1\<bar> \<le> 2 powi 60"
      "\<bar>min ax2 x2\<bar> \<le> 2 powi 60" "\<bar>min ay2 y2\<bar> \<le> 2 powi 60"
    using a(5-8) b(5-8) unfolding max_def min_def by simp_all
  note i = area_Fin [OF this(1,3,2,4), folded i_def]
  have zero: "side lo hi = 0" if "hi \<le> lo" for lo hi
    using r_mono [of "hi - lo" 0 F] that by (simp add: side_def r_0)
  have "side (max ax1 x1) (min ax2 x2) = 0 \<or> side (max ay1 y1) (min ay2 y2) = 0"
    using apart unfolding a(1-4) b(1-4) by (auto intro!: zero)
  then have "i = 0" by (auto simp: i_def area4_def)
  then have inter: "fmul F (fmax (Fin 0) (fsub F (fmin (bx2 a) (bx2 b)) (fmax (bx1 a) (bx1 b))))
      (fmax (Fin 0) (fsub F (fmin (by2 a) (by2 b)) (fmax (by1 a) (by1 b)))) = Fin 0"
    using i unfolding a(1-4) b(1-4) fmax_Fin fmin_Fin by simp
  obtain j aa ab where j: "calculate_iou_bbox a b = Fin (iou4 j aa ab)" "bbox_area a = Fin aa"
      "bbox_area b = Fin ab" "0 \<le> j" "j \<le> aa" "j \<le> ab" "rnd F j = j"
    using calculate_iou_Fin [OF ok] by auto
  show ?thesis
    using j(1) unfolding calculate_iou_bbox_def Let_def inter
    by (auto simp: fsub_def j(2,3) fl_def Let_def r_0 r_idem fle_def feq_def split: if_splits)
qed

text \<open>
  Intersection over union in binary32, with all its roundings: for boxes whose
  coordinates are floats of magnitude at most 2^60 the result is a finite number in [0, 1]
  (never a NaN, an infinity or a value above 1, so a threshold of 1 is never exceeded); it is
  0 for boxes that do not meet, and exactly 1 for a box with itself when its area is not
  rounded to 0.
\<close>

theorem iou_in_unit_interval:
  assumes "bbox_ok a" "bbox_ok b"
  shows "(\<exists>q. calculate_iou_bbox a b = Fin q \<and> 0 \<le> q \<and> q \<le> 1) \<and>
    (flt (bx2 a) (bx1 b) \<or> flt (by2 a) (by1 b) \<longrightarrow> calculate_iou_bbox a b = Fin 0) \<and>
    (flt (Fin 0) (bbox_area a) \<longrightarrow> calculate_iou_bbox a a = Fin 1)"
proof (intro conjI impI)
  show "\<exists>q. calculate_iou_bbox a b = Fin q \<and> 0 \<le> q \<and> q \<le> 1"
    using calculate_iou_Fin [OF assms] iou4_bounds by metis
  show "calculate_iou_bbox a b = Fin 0" if "flt (bx2 a) (bx1 b) \<or> flt (by2 a) (by1 b)"
    by (rule disjoint_iou [OF assms that])
  show "calculate_iou_bbox a a = Fin 1" if pos: "flt (Fin 0) (bbox_area a)"
  proof -
    obtain i aa ab where j: "calculate_iou_bbox a a = Fin (iou4 i aa ab)" "rnd F i = i"
        "bbox_area a = Fin aa" "bbox_area a = Fin ab" "i = aa"
      using calculate_iou_Fin [OF assms(1,1)] by blast
    then have "aa = i" "ab = i" by simp_all
    note i = j(1) [unfolded this] j(2) j(3) [unfolded \<open>aa = i\<close>]
    have "0 < i" using pos i(3) by simp
    moreover have "rnd F (i + i) = 2 * i" using r_twice [of F i] i(2) by (simp only: mult_2)
    then have "rnd F (rnd F (i + i) - i) = i" using i(2) by simp
    ultimately have "iou4 i i i = 1" by (simp add: iou4_def r_1)
    then show ?thesis using i(1) by simp
  qed
qed

definition unit_box :: bbox where
  "unit_box = \<lparr>bx1 = Fin 0, by1 = Fin 0, bx2 = Fin 1, by2 = Fin 1\<rparr>"

lemma unit_box_ok: "bbox_ok unit_box"
  by (simp add: bbox_ok_def coord_ok_def unit_box_def r_0 r_1)

theorem iou_in_unit_interval_witness:
  "calculate_iou_bbox unit_box unit_box = Fin 1"
proof -
  have "rnd F 1 = 1" by (rule r_1)
  then have "flt (Fin 0) (bbox_area unit_box)"
    by (simp add: bbox_area_def unit_box_def fsub_def fmax_def fl_def Let_def)
  then show ?thesis using iou_in_unit_interval [OF unit_box_ok unit_box_ok] by blast
qed

section \<open>The danger zone\<close>

text \<open>
  The danger zone of a box contains the box: with coordinates that are floats of
  magnitude at most 2^60 and finite expansions between 0 and 2^60, the left and right edges
  move outwards or stay, the bottom moves down or stays and the top stays, whatever the
  roundings do.
\<close>

theorem danger_zone_contains:
  assumes "length vec = 4" "\<forall>c \<in> set vec. coord_ok c"
    and "h = Fin hq" "0 \<le> hq" "hq \<le> 2 powi 60" "v = Fin vq" "0 \<le> vq" "vq \<le> 2 powi 60"
  shows "\<exists>x1 x2 y2. calculate_danger_zone vec h v = [Fin x1, vec ! 1, Fin x2, Fin y2] \<and>
    fle (Fin x1) (vec ! 0) \<and> fle (vec ! 2) (Fin x2) \<and> fle (vec ! 3) (Fin y2)"
proof -
  obtain a b c d where vec: "vec = [Fin a, Fin b, Fin c, Fin d]" and
    bound: "\<bar>a\<bar> \<le> 2 powi 60" "\<bar>b\<bar> \<le> 2 powi 60" "\<bar>c\<bar> \<le> 2 powi 60" "\<bar>d\<bar> \<le> 2 powi 60"
    and repr: "rnd F a = a" "rnd F c = c" "rnd F d = d"
    using assms(1,2) by (auto simp: length_Suc_conv numeral_eq_Suc coord_ok_def)
  have pad: "\<exists>p. fmul F (Fin s) (Fin e) = Fin p \<and> 0 \<le> p \<and> p \<le> 2 powi 121"
    if "0 \<le> s" "s \<le> 2 powi 61" "0 \<le> e" "e \<le> 2 powi 60" for s e
  proof -
    have "s * e \<le> 2 powi 61 * 2 powi 60" using that by (intro mult_mono) auto
    then have "\<bar>s * e\<bar> \<le> 2 powi 121" using that unfolding two_powi_add by simp
    from fl_fin [OF this] that r_nonneg [of "s * e" F] show ?thesis by (auto simp: abs_le_iff)
  qed
  obtain px where px: "fmul F (Fin (side a c)) h = Fin px" "0 \<le> px" "px \<le> 2 powi 121"
    using pad [of "side a c" hq] side_nonneg side_Fin [OF bound(1,3)] assms(3-5) by auto
  obtain py where py: "fmul F (Fin (side b d)) v = Fin py" "0 \<le> py" "py \<le> 2 powi 121"
    using pad [of "side b d" vq] side_nonneg side_Fin [OF bound(2,4)] assms(6-8) by auto
  have fin: "fl F (x + s * p) = Fin (rnd F (x + s * p))"
    if "\<bar>x\<bar> \<le> 2 powi 60" "0 \<le> p" "p \<le> 2 powi 121" "s = 1 \<or> s = - 1" for x p s
  proof -
    have "(2 :: rat) powi 122 = 2 powi 121 + 2 powi 121" "(2 :: rat) powi 60 \<le> 2 powi 121"
      using two_powi_Suc [of 121] by (simp_all add: two_powi_mono)
    then have "\<bar>x + s * p\<bar> \<le> 2 powi 122" using that by auto
    from fl_fin [OF this] show ?thesis by simp
  qed
  have "calculate_danger_zone vec h v =
      [Fin (rnd F (a - px)), Fin b, Fin (rnd F (c + px)), Fin (rnd F (d + py))]"
    using side_Fin bound px(1) py(1) fin [of a px "- 1"] fin [of c px 1] fin [of d py 1] px py
    by (simp add: calculate_danger_zone_def to_bbox_def vec Let_def fsub_def)
  moreover have "rnd F (a - px) \<le> a" "c \<le> rnd F (c + px)" "d \<le> rnd F (d + py)"
    using r_mono [of "a - px" a F] r_mono [of c "c + px" F] r_mono [of d "d + py" F] px py repr
    by simp_all
  ultimately show ?thesis by (auto simp: vec fle_def feq_def)
qed


theorem danger_zone_contains_witness:
  "\<exists>x1 x2 y2. calculate_danger_zone [Fin 0, Fin 0, Fin 1, Fin 1] (Fin 0) (Fin 0) = [Fin x1, Fin 0, Fin x2, Fin y2] \<and>
     fle (Fin x1) (Fin 0) \<and> fle (Fin 1) (Fin x2)"
proof -
  have "\<forall>c \<in> set [Fin 0, Fin 0, Fin 1, Fin 1]. coord_ok c"
    by (simp add: coord_ok_def r_0 r_1)
  from danger_zone_contains [OF _ this refl _ _ refl, where hq = 0 and vq = 0] show ?thesis by auto
qed

end
