(* ===== verification/OrdMap.thy ===== *)
theory OrdMap
  imports Prelude "HOL-Library.Char_ord" "HOL-Library.List_Lexorder"
begin

text \<open>
  \<open>std::map\<close>: an association list in strictly ascending key order, so that iterating it is
  iterating the list. \<open>std::string\<close> keys compare by unsigned bytes, which is the list order
  on characters. Clients rely on the laws of \<open>store\<close>.
\<close>

type_synonym ('k, 'v) omap = "('k \<times> 'v) list"

fun om_get :: "('k, 'v) omap \<Rightarrow> 'k \<Rightarrow> 'v option" where
  "om_get [] k = None"
| "om_get ((k', v) # m) k = (if k = k' then Some v else om_get m k)"

fun om_put :: "'k :: linorder \<Rightarrow> 'v \<Rightarrow> ('k, 'v) omap \<Rightarrow> ('k, 'v) omap" where
  "om_put k v [] = [(k, v)]"
| "om_put k v ((k', v') # m) =
     (if k < k' then (k, v) # (k', v') # m
      else if k = k' then (k, v) # m
      else (k', v') # om_put k v m)"

definition om_del :: "'k \<Rightarrow> ('k, 'v) omap \<Rightarrow> ('k, 'v) omap" where
  "om_del k m = filter (\<lambda>e. fst e \<noteq> k) m"

definition om_wf :: "('k :: linorder, 'v) omap \<Rightarrow> bool" where
  "om_wf m \<longleftrightarrow> sorted_wrt (<) (map fst m)"

locale store =
  fixes get :: "'m \<Rightarrow> 'k \<Rightarrow> 'v option"
    and put :: "'k \<Rightarrow> 'v \<Rightarrow> 'm \<Rightarrow> 'm"
    and del :: "'k \<Rightarrow> 'm \<Rightarrow> 'm"
    and wf :: "'m \<Rightarrow> bool"
  assumes get_put: "wf m \<Longrightarrow> get (put k v m) = (get m)(k := Some v)"
    and get_del: "wf m \<Longrightarrow> get (del k m) = (get m)(k := None)"
    and wf_put: "wf m \<Longrightarrow> wf (put k v m)"
    and wf_del: "wf m \<Longrightarrow> wf (del k m)"
begin

lemma get_put_same: "wf m \<Longrightarrow> get (put k v m) k = Some v"
  by (simp add: get_put)

lemma wf_del_list: "wf m \<Longrightarrow> wf (foldl (\<lambda>m k. del k m) m ks)"
  by (induction ks arbitrary: m) (auto intro: wf_del)

lemma get_del_list: "wf m \<Longrightarrow> get (foldl (\<lambda>m k. del k m) m ks) =
    (\<lambda>k. if k \<in> set ks then None else get m k)"
  by (induction ks arbitrary: m) (auto simp: get_del wf_del)

lemma wf_put_list: "wf m \<Longrightarrow> wf (foldl (\<lambda>m (k, v). put k v m) m kvs)"
  by (induction kvs arbitrary: m) (auto intro: wf_put)

end

lemma om_get_none: "k \<notin> fst ` set m \<Longrightarrow> om_get m k = None"
  by (induction m) auto

lemma om_keys_put: "fst ` set (om_put k v m) = insert k (fst ` set m)"
  by (induction k v m rule: om_put.induct) (simp_all add: insert_commute)

lemma om_wf_Cons: "om_wf ((k, v) # m) \<longleftrightarrow> (\<forall>k' \<in> fst ` set m. k < k') \<and> om_wf m"
  by (auto simp: om_wf_def)

lemma om_wf_Nil [simp]: "om_wf []"
  by (simp add: om_wf_def)

lemma om_get_put_at: "om_wf m \<Longrightarrow> om_get (om_put k v m) j = (if j = k then Some v else om_get m j)"
  by (induction k v m rule: om_put.induct) (auto simp: om_wf_Cons)

lemma om_get_put_aux: "om_wf m \<Longrightarrow> om_get (om_put k v m) = (om_get m)(k := Some v)"
  by (rule ext) (simp add: om_get_put_at)

lemma om_wf_put: "om_wf m \<Longrightarrow> om_wf (om_put k v m)"
proof (induction m)
  case (Cons e m)
  obtain k' v' where e: "e = (k', v')" by force
  with Cons show ?case by (auto simp: om_wf_Cons om_keys_put)
qed (simp add: om_wf_def)

lemma om_wf_del: "om_wf m \<Longrightarrow> om_wf (om_del k m)"
  by (induction m) (auto simp: om_del_def om_wf_Cons)

lemma om_get_del_at: "om_get (om_del k m) j = (if j = k then None else om_get m j)"
  by (induction m) (auto simp: om_del_def)

lemma om_get_del_aux: "om_get (om_del k m) = (om_get m)(k := None)"
  by (rule ext) (simp add: om_get_del_at)

interpretation om: store om_get om_put om_del om_wf
  by unfold_locales (simp_all add: om_get_put_aux om_get_del_aux om_wf_put om_wf_del)

lemma om_get_Some_iff: "om_wf m \<Longrightarrow> om_get m k = Some v \<longleftrightarrow> (k, v) \<in> set m"
proof (induction m)
  case (Cons e m)
  obtain k' v' where e: "e = (k', v')" by force
  have "k \<noteq> k'" if "(k, v) \<in> set m" for v
    using Cons.prems that by (force simp: e om_wf_Cons)
  with Cons show ?case by (auto simp: e om_wf_Cons)
qed simp

lemma om_wf_distinct: "om_wf m \<Longrightarrow> distinct (map fst m)"
  by (simp add: om_wf_def strict_sorted_iff)

lemma length_om_del:
  "om_wf m \<Longrightarrow> length (om_del k m) = (if om_get m k = None then length m else length m - 1)"
proof (induction m)
  case (Cons e m)
  obtain k' v' where e: "e = (k', v')" by force
  have same: "om_del k m = m" if "k \<notin> fst ` set m"
    using that by (force simp: om_del_def filter_id_conv)
  show ?case
  proof (cases "k = k'")
    case True
    then have "k \<notin> fst ` set m" using Cons.prems by (force simp: e om_wf_Cons)
    with True same show ?thesis by (simp add: e om_del_def)
  next
    case False
    have "0 < length m" if "om_get m k \<noteq> None" using that by (cases m) auto
    with False Cons show ?thesis by (auto simp: e om_del_def om_wf_Cons)
  qed
qed (simp add: om_del_def)

text \<open>Values stored in place: a map over the entries keeps the keys and their order.\<close>

definition om_map :: "('k \<Rightarrow> 'v \<Rightarrow> 'v) \<Rightarrow> ('k, 'v) omap \<Rightarrow> ('k, 'v) omap" where
  "om_map f m = map (\<lambda>(k, v). (k, f k v)) m"

lemma om_wf_map [simp]: "om_wf (om_map f m) = om_wf m"
  by (simp add: om_wf_def om_map_def comp_def case_prod_unfold)

lemma om_get_map: "om_get (om_map f m) k = map_option (f k) (om_get m k)"
  by (induction m) (auto simp: om_map_def)

end
