(* ===== verification/Rules.thy ===== *)
theory Rules
  imports Geometry OrdMap
begin

text \<open>
  The rules of the rule engine (\<open>rule_process\<close>): the event and alert types
  (\<open>core/DataTypes.h\<close>), the base class (\<open>core/Rule.h\<close>), and the three rules with their
  state: \<open>DoorCollisionRule\<close>, \<open>LeftItemRule\<close>, \<open>OpenTrunkFaceRule\<close> with its face database
  (\<open>utils/FaceDatabase.cpp\<close>). Each rule has a configuration check and an \<open>apply\<close> that maps
  its state and an event to alerts and a new state.
\<close>

section \<open>Types and the base class\<close>

record detection =
  d_class :: string
  d_bbox :: "cfloat list"
  d_track :: int
  d_conf :: cfloat
  d_emb :: "cfloat list"

record event_meta =
  ev_source :: string
  ev_source_num :: int
  ev_ts :: u64
  ev_removed :: "int list"
  ev_dets :: "detection list"
  ev_slot :: u32
  ev_width :: u32
  ev_height :: u32
  ev_channels :: u32
  ev_ts_ns :: u64

record alert =
  al_rule :: string
  al_priority :: int
  al_key :: string
  al_track :: int
  al_ts :: u64

record rule_config =
  rc_name :: string
  rc_priority :: int
  rc_sources :: "string list"
  rc_classes :: "string list"
  rc_params :: "(string, cfloat) omap"
  rc_strs :: "(string, string) omap"

text \<open>\<open>Status\<close>: None is ok, otherwise the message.\<close>

type_synonym status = "string option"

definition get_param :: "rule_config \<Rightarrow> string \<Rightarrow> cfloat" where
  "get_param rc k = (case om_get (rc_params rc) k of Some v \<Rightarrow> v | None \<Rightarrow> Fin 0)"

definition has_param :: "rule_config \<Rightarrow> string \<Rightarrow> bool" where
  "has_param rc k \<longleftrightarrow> om_get (rc_params rc) k \<noteq> None"

definition get_str_param :: "rule_config \<Rightarrow> string \<Rightarrow> string" where
  "get_str_param rc k = (case om_get (rc_strs rc) k of Some v \<Rightarrow> v | None \<Rightarrow> [])"

definition build_alert :: "rule_config \<Rightarrow> event_meta \<Rightarrow> int \<Rightarrow> string \<Rightarrow> alert" where
  "build_alert rc ev track custom =
     \<lparr>al_rule = rc_name rc, al_priority = rc_priority rc,
      al_key = (if custom = [] then ev_source ev @ ''_'' @ rc_name rc @ ''_'' @ dec_int track else custom),
      al_track = track, al_ts = ev_ts ev\<rparr>"

section \<open>DoorCollisionRule\<close>

record door_rule =
  dr_rc :: rule_config
  dr_class_a :: string
  dr_class_b :: string
  dr_iou :: cfloat
  dr_zone :: bool
  dr_h :: cfloat
  dr_v :: cfloat

definition half :: cfloat where
  "half = Fin (1 / 2)"

definition door_new :: "rule_config \<Rightarrow> door_rule" where
  "door_new rc =
     \<lparr>dr_rc = rc,
      dr_class_a = (if length (rc_classes rc) \<ge> 2 then rc_classes rc ! 0 else []),
      dr_class_b = (if length (rc_classes rc) \<ge> 2 then rc_classes rc ! 1 else []),
      dr_iou = get_param rc ''iou_threshold'',
      dr_zone = flt half (get_param rc ''use_danger_zone''),
      dr_h = get_param rc ''h_expand'', dr_v = get_param rc ''v_expand''\<rparr>"

fun first_missing :: "rule_config \<Rightarrow> string list \<Rightarrow> string option" where
  "first_missing rc [] = None"
| "first_missing rc (p # ps) = (if \<not> has_param rc p then Some p else first_missing rc ps)"

definition door_validate :: "door_rule \<Rightarrow> status" where
  "door_validate r =
     (let cs = rc_classes (dr_rc r) in
      if length cs \<noteq> 2 \<or> cs ! 0 = [] \<or> cs ! 1 = [] \<or> cs ! 0 = cs ! 1
      then Some ''DoorCollisionRule requires exactly 2 distinct target_classes''
      else case first_missing (dr_rc r) [''iou_threshold'', ''use_danger_zone'', ''h_expand'', ''v_expand''] of
        Some p \<Rightarrow> Some (''Missing param: '' @ p)
      | None \<Rightarrow>
          if fle (dr_iou r) (Fin 0) \<or> fle (Fin 1) (dr_iou r) then Some ''IoU threshold must be between 0 and 1''
          else if flt (dr_h r) (Fin 0) \<or> flt (dr_v r) (Fin 0)
          then Some ''Danger zone expansion must be non-negative''
          else None)"

definition door_box :: "door_rule \<Rightarrow> detection \<Rightarrow> cfloat list" where
  "door_box r a = (if dr_zone r then calculate_danger_zone (d_bbox a) (dr_h r) (dr_v r) else d_bbox a)"

definition door_hit :: "door_rule \<Rightarrow> detection \<Rightarrow> detection \<Rightarrow> bool" where
  "door_hit r a b \<longleftrightarrow> flt (dr_iou r) (calculate_iou (door_box r a) (d_bbox b))"

definition door_key :: "door_rule \<Rightarrow> event_meta \<Rightarrow> detection \<Rightarrow> detection \<Rightarrow> string" where
  "door_key r ev a b = ev_source ev @ ''_'' @ rc_name (dr_rc r) @ ''_'' @
     dec_int (d_track a) @ ''_'' @ dec_int (d_track b)"

definition door_apply :: "door_rule \<Rightarrow> event_meta \<Rightarrow> alert list" where
  "door_apply r ev =
     (let as = filter (\<lambda>d. d_class d = dr_class_a r) (ev_dets ev);
          bs = filter (\<lambda>d. d_class d \<noteq> dr_class_a r \<and> d_class d = dr_class_b r) (ev_dets ev)
      in concat (map (\<lambda>a. map (\<lambda>b. build_alert (dr_rc r) ev (d_track a) (door_key r ev a b))
                           (filter (door_hit r a) bs)) as))"

section \<open>LeftItemRule\<close>

record item_state =
  it_bbox :: "cfloat list"
  it_start :: u64
  it_alerted :: bool

record person_state =
  ps_cx :: cfloat
  ps_cy :: cfloat
  ps_static :: int

record left_state =
  ls_items :: "(int, item_state) omap"
  ls_persons :: "(int, person_state) omap"
  ls_bags :: "int list"

record left_rule =
  lr_rc :: rule_config
  lr_grace :: u64
  lr_iou :: cfloat
  lr_merge :: bool
  lr_h :: cfloat
  lr_v :: cfloat
  lr_classes :: "string list"

definition kUnifiedBagTrackId :: int where
  "kUnifiedBagTrackId = - 1000"

definition lit :: "rat \<Rightarrow> cfloat" where
  "lit q = fl F q"

definition left_new :: "rule_config \<Rightarrow> left_rule" where
  "left_new rc =
     \<lparr>lr_rc = rc,
      lr_grace = u64_of_float (fmul F (get_param rc ''grace_period_sec'') (lit 1000000)),
      lr_iou = get_param rc ''item_owner_iou_threshold'',
      lr_merge = fle half (get_param rc ''merge_handbag_backpack''),
      lr_h = get_param rc ''item_owner_h_expand'', lr_v = get_param rc ''item_owner_v_expand'',
      lr_classes = rc_classes rc\<rparr>"

definition left_init :: left_state where
  "left_init = \<lparr>ls_items = [], ls_persons = [], ls_bags = []\<rparr>"

definition left_validate :: "left_rule \<Rightarrow> status" where
  "left_validate r =
     (if \<not> has_param (lr_rc r) ''grace_period_sec'' then Some ''Missing param: grace_period_sec''
      else if \<not> has_param (lr_rc r) ''item_owner_iou_threshold''
      then Some ''Missing param: item_owner_iou_threshold''
      else if lr_grace r = 0 then Some ''Grace period must be positive''
      else if flt (lr_iou r) (Fin 0) \<or> flt (Fin 1) (lr_iou r)
      then Some ''item_owner_iou_threshold must be between 0 and 1''
      else if flt (lr_h r) (Fin 0) \<or> flt (lr_v r) (Fin 0)
      then Some ''item_owner_h_expand / item_owner_v_expand must be non-negative''
      else None)"

definition is_bag :: "string \<Rightarrow> bool" where
  "is_bag c \<longleftrightarrow> c = ''handbag'' \<or> c = ''backpack''"

text \<open>The bag boxes that reach \<open>unionBboxXYXY\<close> have at least four coordinates.\<close>

definition union_bbox :: "cfloat list list \<Rightarrow> cfloat list" where
  "union_bbox boxes =
     (case boxes of
        [] \<Rightarrow> []
      | b # bs \<Rightarrow>
          foldl (\<lambda>u x. if length x < 4 then u
                       else [fmin (u ! 0) (x ! 0), fmin (u ! 1) (x ! 1),
                             fmax (u ! 2) (x ! 2), fmax (u ! 3) (x ! 3)])
            [b ! 0, b ! 1, b ! 2, b ! 3] bs)"

definition is_static_person :: "int \<Rightarrow> cfloat list \<Rightarrow> (int, person_state) omap \<Rightarrow>
    bool \<times> (int, person_state) omap" where
  "is_static_person track bbox persons =
     (if length bbox < 4 then (False, persons)
      else
        let cx = fmul F (fadd F (bbox ! 0) (bbox ! 2)) half;
            cy = fmul F (fadd F (bbox ! 1) (bbox ! 3)) half;
            ps = (case om_get persons track of Some p \<Rightarrow> p
                  | None \<Rightarrow> \<lparr>ps_cx = Fin (- 1), ps_cy = Fin (- 1), ps_static = 0\<rparr>)
        in
        if flt (ps_cx ps) (Fin 0) then
          if flt (lit (96 / 100)) (bbox ! 3) \<and> flt (lit (45 / 100)) cx
          then (True, om_put track \<lparr>ps_cx = cx, ps_cy = cy, ps_static = 1\<rparr> persons)
          else (False, om_put track (ps\<lparr>ps_cx := cx, ps_cy := cy\<rparr>) persons)
        else
          let dx = fsub F cx (ps_cx ps); dy = fsub F cy (ps_cy ps);
              dist = fsqrt F (fadd F (fmul F dx dx) (fmul F dy dy))
          in
          if flt dist (lit (8 / 1000)) then
            let n = ps_static ps + 1
            in (n \<ge> 1, om_put track \<lparr>ps_cx = cx, ps_cy = cy, ps_static = n\<rparr> persons)
          else (False, om_put track \<lparr>ps_cx = cx, ps_cy = cy, ps_static = 0\<rparr> persons))"


text \<open>The pass over the detections: people who can own an item, item boxes, bag boxes.\<close>

record scan =
  sc_persons :: "(int, person_state) omap"
  sc_owners :: "cfloat list list"
  sc_updates :: "(int \<times> cfloat list) list"
  sc_boxes :: "cfloat list list"
  sc_ids :: "int list"

definition left_scan :: "left_rule \<Rightarrow> scan \<Rightarrow> detection \<Rightarrow> scan" where
  "left_scan r sc d =
     (if d_class d = ''person'' then
        if fle (lit (4 / 10)) (d_conf d) then
          let (static, ps) = is_static_person (d_track d) (d_bbox d) (sc_persons sc)
          in sc\<lparr>sc_persons := ps,
                sc_owners := (if static then sc_owners sc else sc_owners sc @ [d_bbox d])\<rparr>
        else sc
      else if d_class d \<notin> set (lr_classes r) then sc
      else if lr_merge r \<and> is_bag (d_class d) then
        if length (d_bbox d) \<ge> 4
        then sc\<lparr>sc_boxes := sc_boxes sc @ [d_bbox d], sc_ids := sc_ids sc @ [d_track d]\<rparr>
        else sc
      else sc\<lparr>sc_updates := sc_updates sc @ [(d_track d, d_bbox d)]\<rparr>)"

definition left_updates :: "left_rule \<Rightarrow> scan \<Rightarrow> (int \<times> cfloat list) list" where
  "left_updates r sc =
     (if lr_merge r \<and> sc_boxes sc \<noteq> []
      then sc_updates sc @ [(kUnifiedBagTrackId, union_bbox (sc_boxes sc))]
      else sc_updates sc)"

text \<open>The first locked section: drop what was removed, then write the boxes that were seen.\<close>

definition drop_removed :: "left_rule \<Rightarrow> int list \<Rightarrow> scan \<Rightarrow> left_state \<Rightarrow> left_state" where
  "drop_removed r removed sc st =
     (let items = foldl (\<lambda>m k. om_del k m) (ls_items st) removed;
          persons = foldl (\<lambda>m k. om_del k m) (sc_persons sc) removed;
          gone = (\<exists>rid \<in> set removed. rid \<in> set (ls_bags st))
      in if lr_merge r then
           \<lparr>ls_items = (if gone then om_del kUnifiedBagTrackId items else items),
            ls_persons = persons,
            ls_bags = (if sc_boxes sc \<noteq> [] then remdups (sc_ids sc)
                       else if gone then [] else ls_bags st)\<rparr>
         else \<lparr>ls_items = items, ls_persons = persons, ls_bags = ls_bags st\<rparr>)"

definition new_item :: item_state where
  "new_item = \<lparr>it_bbox = [], it_start = 0, it_alerted = False\<rparr>"

definition put_box :: "(int, item_state) omap \<Rightarrow> int \<times> cfloat list \<Rightarrow> (int, item_state) omap" where
  "put_box m u =
     (let s = (case om_get m (fst u) of Some s \<Rightarrow> s | None \<Rightarrow> new_item)
      in om_put (fst u) (s\<lparr>it_bbox := snd u\<rparr>) m)"

definition owner_zones :: "left_rule \<Rightarrow> cfloat list list \<Rightarrow> cfloat list list" where
  "owner_zones r owners =
     map (\<lambda>b. calculate_danger_zone b (lr_h r) (lr_v r)) (filter (\<lambda>b. length b \<ge> 4) owners)"

definition has_owner :: "left_rule \<Rightarrow> cfloat list list \<Rightarrow> item_state \<Rightarrow> bool" where
  "has_owner r zones it \<longleftrightarrow> list_ex (\<lambda>z. flt (lr_iou r) (calculate_iou z (it_bbox it))) zones"

text \<open>One item: owned items are reset; an item without owner alerts once, after the grace.\<close>

definition item_step :: "u64 \<Rightarrow> u64 \<Rightarrow> bool \<Rightarrow> item_state \<Rightarrow> item_state \<times> bool" where
  "item_step grace ts owned it =
     (if owned then (it\<lparr>it_start := 0, it_alerted := False\<rparr>, False)
      else
        let it1 = (if it_start it = 0 then it\<lparr>it_start := ts\<rparr> else it) in
        if \<not> it_alerted it1 \<and> ts - it_start it1 \<ge> grace
        then (it1\<lparr>it_alerted := True\<rparr>, True)
        else (it1, False))"

definition item_alert :: "left_rule \<Rightarrow> event_meta \<Rightarrow> int \<Rightarrow> alert" where
  "item_alert r ev track =
     (if track = kUnifiedBagTrackId
      then build_alert (lr_rc r) ev kUnifiedBagTrackId
             (ev_source ev @ ''_'' @ rc_name (lr_rc r) @ ''_merged_bag'')
      else build_alert (lr_rc r) ev track [])"

definition left_apply :: "left_rule \<Rightarrow> event_meta \<Rightarrow> left_state \<Rightarrow> alert list \<times> left_state" where
  "left_apply r ev st =
     (let sc = foldl (left_scan r) \<lparr>sc_persons = ls_persons st, sc_owners = [], sc_updates = [],
                 sc_boxes = [], sc_ids = []\<rparr> (ev_dets ev);
          st1 = drop_removed r (ev_removed ev) sc st;
          items = foldl put_box (ls_items st1) (left_updates r sc);
          zones = owner_zones r (sc_owners sc);
          step = (\<lambda>it. item_step (lr_grace r) (ev_ts ev) (has_owner r zones it) it)
      in (map (\<lambda>(k, it). item_alert r ev k) (filter (\<lambda>(k, it). snd (step it)) items),
          st1\<lparr>ls_items := om_map (\<lambda>k it. fst (step it)) items\<rparr>))"

section \<open>FaceDatabase and OpenTrunkFaceRule\<close>

text \<open>
  What reading and parsing the face file gave (the JSON library is not part of this code):
  each face's value is an array of numbers, not an array, or an array of something else (then
  the conversion throws).
\<close>

datatype face_entry = NotArray | BadArray string | Embedding "cfloat list"

datatype face_file =
    CannotOpen
  | NotJson string
  | NoFaces
  | Faces "(string \<times> face_entry) list"

record face_db =
  fd_faces :: "(string, cfloat list) omap"
  fd_size :: nat

fun load_entries :: "nat \<Rightarrow> (string \<times> face_entry) list \<Rightarrow> (string, cfloat list) omap \<Rightarrow>
    string option \<times> (string, cfloat list) omap" where
  "load_entries n [] m = (None, m)"
| "load_entries n ((k, NotArray) # es) m = load_entries n es m"
| "load_entries n ((k, BadArray what) # es) m = (Some what, m)"
| "load_entries n ((k, Embedding e) # es) m =
     (if length e \<noteq> n then load_entries n es m else load_entries n es (om_put k e m))"

definition face_db_load :: "face_file \<Rightarrow> string \<Rightarrow> face_db \<Rightarrow> status \<times> face_db" where
  "face_db_load file path db =
     (case file of
        CannotOpen \<Rightarrow> (Some (''Cannot open face database file: '' @ path), db)
      | NotJson what \<Rightarrow> (Some (''Error parsing face database: '' @ what), db)
      | NoFaces \<Rightarrow> (Some ''Invalid face database format: missing faces object'', db)
      | Faces es \<Rightarrow>
          (let (err, m) = load_entries (fd_size db) es []
           in (map_option (\<lambda>what. ''Error parsing face database: '' @ what) err, db\<lparr>fd_faces := m\<rparr>)))"

fun best_face :: "cfloat list \<Rightarrow> (string, cfloat list) omap \<Rightarrow> string \<times> cfloat \<Rightarrow> string \<times> cfloat" where
  "best_face x [] best = best"
| "best_face x ((k, e) # m) best =
     (let score = cosine_similarity x e
      in best_face x m (if flt (snd best) score then (k, score) else best))"

definition face_compare :: "face_db \<Rightarrow> cfloat list \<Rightarrow> string \<times> cfloat" where
  "face_compare db x =
     (if x = [] then (''unknown'', Fin 0)
      else if length x \<noteq> fd_size db then (''unknown'', Fin 0)
      else best_face x (fd_faces db) (''unknown'', Fin (- 1)))"

record face_state =
  fs_user :: string
  fs_known :: bool

record trunk_rule =
  tk_rc :: rule_config
  tk_class :: string
  tk_thr :: cfloat
  tk_loaded :: bool
  tk_error :: string
  tk_db :: face_db

definition embedding_size :: "rule_config \<Rightarrow> nat" where
  "embedding_size rc =
     (case om_get (rc_params rc) ''embedding_size'' of
        None \<Rightarrow> 0
      | Some v \<Rightarrow> if fle v (Fin 0) then 0 else unat (u64_of_float v))"

definition trunk_new :: "(string \<Rightarrow> face_file) \<Rightarrow> rule_config \<Rightarrow> trunk_rule" where
  "trunk_new read_file rc =
     (let n = embedding_size rc; file = get_str_param rc ''embedding_file'';
          db0 = \<lparr>fd_faces = [], fd_size = n\<rparr>;
          (st, db) = (if n > 0 \<and> file \<noteq> [] then face_db_load (read_file file) file db0
                      else (Some [], db0))
      in \<lparr>tk_rc = rc, tk_class = (if length (rc_classes rc) = 1 then rc_classes rc ! 0 else []),
          tk_thr = get_param rc ''similarity_threshold'', tk_loaded = (st = None),
          tk_error = (case st of None \<Rightarrow> [] | Some e \<Rightarrow> e), tk_db = db\<rparr>)"

definition trunk_validate :: "trunk_rule \<Rightarrow> status" where
  "trunk_validate r =
     (let rc = tk_rc r in
      if length (rc_classes rc) \<noteq> 1 \<or> rc_classes rc ! 0 = []
      then Some ''OpenTrunkFaceRule requires exactly 1 target_class''
      else if \<not> has_param rc ''similarity_threshold'' then Some ''Missing param: similarity_threshold''
      else if \<not> has_param rc ''embedding_size'' \<or> fle (get_param rc ''embedding_size'') (Fin 0)
      then Some ''Missing param: embedding_size''
      else if get_str_param rc ''embedding_file'' = [] then Some ''Missing param: embedding_file''
      else if \<not> tk_loaded r
      then Some (if tk_error r = [] then ''Face database load failed'' else tk_error r)
      else if fle (tk_thr r) (Fin 0) \<or> flt (Fin 1) (tk_thr r)
      then Some ''Similarity threshold must be (0,1]''
      else None)"

definition trunk_det :: "trunk_rule \<Rightarrow> event_meta \<Rightarrow> alert list \<times> (int, face_state) omap \<Rightarrow> detection \<Rightarrow>
    alert list \<times> (int, face_state) omap" where
  "trunk_det r ev acc d =
     (let (alerts, cache) = acc; tid = d_track d;
          key = (\<lambda>user. rc_name (tk_rc r) @ ''_'' @ user) in
      if d_class d \<noteq> tk_class r then acc
      else case om_get cache tid of
        Some fs \<Rightarrow>
          (if fs_known fs then (alerts @ [build_alert (tk_rc r) ev tid (key (fs_user fs))], cache) else acc)
      | None \<Rightarrow>
          if d_emb d = [] then acc
          else
            let (user, score) = face_compare (tk_db r) (d_emb d); known = fle (tk_thr r) score;
                cache' = om_put tid \<lparr>fs_user = user, fs_known = known\<rparr> cache
            in (if known then alerts @ [build_alert (tk_rc r) ev tid (key user)] else alerts, cache'))"

definition trunk_apply :: "trunk_rule \<Rightarrow> event_meta \<Rightarrow> (int, face_state) omap \<Rightarrow>
    alert list \<times> (int, face_state) omap" where
  "trunk_apply r ev cache =
     foldl (trunk_det r ev) ([], foldl (\<lambda>m k. om_del k m) cache (ev_removed ev)) (ev_dets ev)"


section \<open>Door collisions\<close>

lemma split_at_char:
  "xs @ c # ys = xs' @ c # ys' \<Longrightarrow> c \<notin> set xs \<Longrightarrow> c \<notin> set xs' \<Longrightarrow> xs = xs' \<and> ys = ys'"
proof (induction xs arbitrary: xs')
  case Nil
  then show ?case by (cases xs') auto
next
  case (Cons x xs)
  then show ?case by (cases xs') auto
qed

lemma underscore_dec_int: "CHR ''_'' \<notin> set (dec_int i)"
proof
  assume "CHR ''_'' \<in> set (dec_int i)"
  then have "CHR ''_'' \<in> set (dec_nat (nat (- i))) \<or> CHR ''_'' \<in> set (dec_nat (nat i))"
    by (auto simp: dec_int_def split: if_splits)
  then have "is_digit (CHR ''_'')" using dec_nat_digits by blast
  then show False by (simp add: is_digit_def)
qed

lemma door_key_inject:
  "door_key r ev a b = door_key r ev a' b' \<longleftrightarrow> d_track a = d_track a' \<and> d_track b = d_track b'"
proof
  assume "door_key r ev a b = door_key r ev a' b'"
  then have "dec_int (d_track a) @ CHR ''_'' # dec_int (d_track b) =
      dec_int (d_track a') @ CHR ''_'' # dec_int (d_track b')"
    by (simp add: door_key_def)
  from split_at_char [OF this underscore_dec_int underscore_dec_int]
  show "d_track a = d_track a' \<and> d_track b = d_track b'" by (simp add: dec_int_inject)
qed (simp add: door_key_def)

text \<open>
  DoorCollisionRule, on a configuration that passed its check, alerts for exactly the
  pairs of a detection of the first class and one of the second whose boxes (the first one
  widened to its danger zone when that is on) overlap by more than the threshold; two pairs
  get the same deduplication key only if they have the same two track numbers.
\<close>

theorem door_alerts_are_collisions:
  assumes "door_validate (door_new rc) = None"
  shows "set (door_apply (door_new rc) ev) =
      {build_alert rc ev (d_track a) (door_key (door_new rc) ev a b) | a b.
         a \<in> set (ev_dets ev) \<and> b \<in> set (ev_dets ev) \<and>
         d_class a = rc_classes rc ! 0 \<and> d_class b = rc_classes rc ! 1 \<and>
         door_hit (door_new rc) a b} \<and>
    (\<forall>a b a' b'. door_key (door_new rc) ev a b = door_key (door_new rc) ev a' b' \<longleftrightarrow>
       d_track a = d_track a' \<and> d_track b = d_track b')"
proof -
  have cl: "length (rc_classes rc) = 2" "rc_classes rc ! 0 \<noteq> rc_classes rc ! 1"
    using assms by (auto simp: door_validate_def door_new_def Let_def split: if_splits)
  then have "dr_class_a (door_new rc) = rc_classes rc ! 0" "dr_class_b (door_new rc) = rc_classes rc ! 1"
    "dr_rc (door_new rc) = rc"
    by (simp_all add: door_new_def)
  then have "set (door_apply (door_new rc) ev) =
      {build_alert rc ev (d_track a) (door_key (door_new rc) ev a b) | a b.
         a \<in> set (ev_dets ev) \<and> b \<in> set (ev_dets ev) \<and>
         d_class a = rc_classes rc ! 0 \<and> d_class b = rc_classes rc ! 1 \<and>
         door_hit (door_new rc) a b}"
    using cl(2) unfolding door_apply_def Let_def by auto
  then show ?thesis using door_key_inject by blast
qed

definition example_door_config :: rule_config where
  "example_door_config = \<lparr>rc_name = ''DoorCollisionRule'', rc_priority = 0, rc_sources = [''0''],
     rc_classes = [''car'', ''person''],
     rc_params = [(''h_expand'', Fin 0), (''iou_threshold'', half), (''use_danger_zone'', Fin 0),
       (''v_expand'', Fin 0)], rc_strs = []\<rparr>"

lemma example_door_valid: "door_validate (door_new example_door_config) = None"
  by (simp add: door_validate_def door_new_def example_door_config_def has_param_def get_param_def
      half_def fle_def feq_def)

definition example_event :: "detection list \<Rightarrow> event_meta" where
  "example_event dets = \<lparr>ev_source = ''0'', ev_source_num = 0, ev_ts = 5, ev_removed = [],
     ev_dets = dets, ev_slot = 0, ev_width = 64, ev_height = 48, ev_channels = 3, ev_ts_ns = 5000\<rparr>"

theorem door_alerts_are_collisions_witness:
  "door_apply (door_new example_door_config) (example_event []) = []"
proof -
  have "ev_dets (example_event []) = []" by (simp add: example_event_def)
  then have "set (door_apply (door_new example_door_config) (example_event [])) = {}"
    using door_alerts_are_collisions [OF example_door_valid, of "example_event []"] by simp
  then show ?thesis by simp
qed

section \<open>Left items\<close>

text \<open>One item over several events, each with its time and whether the item had an owner.\<close>

fun item_run :: "u64 \<Rightarrow> (u64 \<times> bool) list \<Rightarrow> item_state \<Rightarrow> bool list \<times> item_state" where
  "item_run grace [] it = ([], it)"
| "item_run grace ((ts, owned) # obs) it =
     (let (it1, al) = item_step grace ts owned it; (als, it2) = item_run grace obs it1
      in (al # als, it2))"

lemma item_run_alerted:
  "it_alerted it \<Longrightarrow> it_start it \<noteq> 0 \<Longrightarrow> \<forall>(ts, owned) \<in> set obs. \<not> owned \<Longrightarrow>
     item_run grace obs it = (replicate (length obs) False, it)"
  by (induction obs) (auto simp: item_step_def Let_def)

lemma item_run_waiting:
  "it_start it = t0 \<Longrightarrow> t0 \<noteq> 0 \<Longrightarrow> \<not> it_alerted it \<Longrightarrow>
   i < length tss \<Longrightarrow>
   fst (item_run grace (map (\<lambda>t. (t, False)) tss) it) ! i \<longleftrightarrow>
     tss ! i - t0 \<ge> grace \<and> (\<forall>j < i. \<not> tss ! j - t0 \<ge> grace)"
proof (induction tss arbitrary: it i)
  case Nil
  then show ?case by simp
next
  case (Cons t tss)
  show ?case
  proof (cases "t - t0 \<ge> grace")
    case True
    then have "item_step grace t False it = (it\<lparr>it_alerted := True\<rparr>, True)"
      using Cons.prems by (simp add: item_step_def Let_def)
    moreover have "item_run grace (map (\<lambda>t. (t, False)) tss) (it\<lparr>it_alerted := True\<rparr>) =
        (replicate (length tss) False, it\<lparr>it_alerted := True\<rparr>)"
      using Cons.prems item_run_alerted [of "it\<lparr>it_alerted := True\<rparr>" "map (\<lambda>t. (t, False)) tss" grace]
      by simp
    ultimately show ?thesis using True Cons.prems(4) by (cases i) auto
  next
    case False
    then have step: "item_step grace t False it = (it, False)"
      using Cons.prems by (simp add: item_step_def Let_def)
    show ?thesis
    proof (cases i)
      case 0
      with False step show ?thesis by (simp add: split_beta)
    next
      case (Suc k)
      with Cons.IH [of it k] Cons.prems False step show ?thesis
        by (auto simp: split_beta less_Suc_eq_0_disj)
    qed
  qed
qed

lemma item_run_length [simp]: "length (fst (item_run grace obs it)) = length obs"
  by (induction obs arbitrary: it) (auto simp: split_beta Let_def)

text \<open>
  C7: An item that has just lost its owner (or was never owned), observed without owner at
  times t0, t1, t2, ... with t0 not 0, raises exactly one alert: at the first observation
  that is at least the grace period after t0; none before, and none after, however long it
  stays. An owner at any time resets the item to this starting point.
\<close>

theorem left_item_alerts_once:
  assumes "t0 \<noteq> 0" "i < length (t0 # tss)"
  shows "(fst (item_run grace (map (\<lambda>t. (t, False)) (t0 # tss))
              (fst (item_step grace ts True it))) ! i \<longleftrightarrow>
          (t0 # tss) ! i - t0 \<ge> grace \<and> (\<forall>j < i. \<not> (t0 # tss) ! j - t0 \<ge> grace)) \<and>
    length (filter id (fst (item_run grace (map (\<lambda>t. (t, False)) (t0 # tss))
              (fst (item_step grace ts True it))))) \<le> 1"
proof -
  let ?it = "fst (item_step grace ts True it)"
  let ?w = "?it\<lparr>it_start := t0\<rparr>"
  let ?run = "fst (item_run grace (map (\<lambda>t. (t, False)) (t0 # tss)) ?it)"
  have fresh: "it_start ?it = 0" "\<not> it_alerted ?it" by (simp_all add: item_step_def)
  have same: "item_step grace t0 False ?it = item_step grace t0 False ?w"
    using fresh assms(1) by (simp add: item_step_def Let_def)
  then have eq: "?run = fst (item_run grace (map (\<lambda>t. (t, False)) (t0 # tss)) ?w)"
    by simp
  have at: "?run ! k \<longleftrightarrow> (t0 # tss) ! k - t0 \<ge> grace \<and> (\<forall>j < k. \<not> (t0 # tss) ! j - t0 \<ge> grace)"
    if "k < length (t0 # tss)" for k
    unfolding eq using item_run_waiting [of ?w t0 k "t0 # tss" grace] fresh assms(1) that by simp
  have len: "length ?run = length (t0 # tss)" unfolding eq item_run_length by simp
  have uniq: "k = k'" if "k < length ?run" "k' < length ?run" "?run ! k" "?run ! k'" for k k'
    using at [of k] at [of k'] that len by (metis linorder_neqE_nat)
  have "card {k. k < length ?run \<and> ?run ! k} \<le> 1"
    using uniq by (auto simp: card_le_Suc0_iff_eq)
  then have "length (filter id ?run) \<le> 1" by (simp add: length_filter_conv_card)
  with at [OF assms(2)] show ?thesis by blast
qed

theorem left_item_alerts_once_witness:
  "fst (item_run 10 (map (\<lambda>t. (t, False)) [5, 15]) (fst (item_step 10 3 True new_item))) ! 1"
proof -
  have "(5 :: u64) \<noteq> 0" "1 < length [5 :: u64, 15]" by simp_all
  from conjunct1 [OF left_item_alerts_once [OF this, of 10 3 new_item]] show ?thesis
    by (simp del: item_run.simps list.map)
qed

text \<open>The map of items stays ordered, and what happens to one item.\<close>

lemma put_box_wf: "om_wf m \<Longrightarrow> om_wf (put_box m u)"
  by (simp add: put_box_def Let_def om.wf_put)

lemma put_box_other: "om_wf m \<Longrightarrow> k \<noteq> fst u \<Longrightarrow> om_get (put_box m u) k = om_get m k"
  by (simp add: put_box_def Let_def om_get_put_at)

lemma put_boxes_wf: "om_wf m \<Longrightarrow> om_wf (foldl put_box m us)"
  by (induction us arbitrary: m) (auto intro: put_box_wf)

lemma put_boxes_absent:
  "om_wf m \<Longrightarrow> k \<notin> fst ` set us \<Longrightarrow> om_get (foldl put_box m us) k = om_get m k"
  by (induction us arbitrary: m) (simp_all add: put_box_wf put_box_other)

lemma put_boxes_keeps:
  "om_wf m \<Longrightarrow> om_get m k = Some it \<Longrightarrow>
     \<exists>it'. om_get (foldl put_box m us) k = Some it' \<and> it_start it' = it_start it \<and>
       it_alerted it' = it_alerted it"
proof (induction us arbitrary: m it)
  case (Cons u us)
  obtain it' where it': "om_get (put_box m u) k = Some it'" "it_start it' = it_start it"
      "it_alerted it' = it_alerted it"
    using Cons.prems by (cases "k = fst u") (auto simp: put_box_def Let_def om_get_put_at)
  from Cons.IH [OF put_box_wf [OF Cons.prems(1)] it'(1)] it'(2,3) show ?case by simp
qed simp

lemma drop_removed_wf: "om_wf (ls_items st) \<Longrightarrow> om_wf (ls_items (drop_removed r removed sc st))"
  by (auto simp: drop_removed_def Let_def om.wf_del_list om.wf_del)

lemma drop_removed_gone:
  "om_wf (ls_items st) \<Longrightarrow> k \<in> set removed \<Longrightarrow> om_get (ls_items (drop_removed r removed sc st)) k = None"
  by (auto simp: drop_removed_def Let_def om.get_del_list om_get_del_at)

lemma drop_removed_kept:
  "om_wf (ls_items st) \<Longrightarrow> k \<notin> set removed \<Longrightarrow> k \<noteq> kUnifiedBagTrackId \<Longrightarrow>
     om_get (ls_items (drop_removed r removed sc st)) k = om_get (ls_items st) k"
  by (auto simp: drop_removed_def Let_def om.get_del_list om_get_del_at)

definition scan_of :: "left_rule \<Rightarrow> event_meta \<Rightarrow> left_state \<Rightarrow> scan" where
  "scan_of r ev st = foldl (left_scan r) \<lparr>sc_persons = ls_persons st, sc_owners = [],
     sc_updates = [], sc_boxes = [], sc_ids = []\<rparr> (ev_dets ev)"

definition items_of :: "left_rule \<Rightarrow> event_meta \<Rightarrow> left_state \<Rightarrow> (int, item_state) omap" where
  "items_of r ev st = foldl put_box (ls_items (drop_removed r (ev_removed ev) (scan_of r ev st) st))
     (left_updates r (scan_of r ev st))"

definition owned_in :: "left_rule \<Rightarrow> event_meta \<Rightarrow> left_state \<Rightarrow> item_state \<Rightarrow> bool" where
  "owned_in r ev st it = has_owner r (owner_zones r (sc_owners (scan_of r ev st))) it"

lemma left_apply_unfold:
  "left_apply r ev st =
     (map (\<lambda>(k, it). item_alert r ev k)
        (filter (\<lambda>(k, it). snd (item_step (lr_grace r) (ev_ts ev) (owned_in r ev st it) it)) (items_of r ev st)),
      (drop_removed r (ev_removed ev) (scan_of r ev st) st)
        \<lparr>ls_items := om_map (\<lambda>k it. fst (item_step (lr_grace r) (ev_ts ev) (owned_in r ev st it) it))
           (items_of r ev st)\<rparr>)"
  by (simp add: left_apply_def scan_of_def items_of_def owned_in_def Let_def)

lemma items_of_wf: "om_wf (ls_items st) \<Longrightarrow> om_wf (items_of r ev st)"
  by (simp add: items_of_def put_boxes_wf drop_removed_wf)

text \<open>
  LeftItemRule over a whole event: the map of items stays ordered; the alerts are
  exactly those of the items whose step raises one, at most one for each item; an item the
  event removes and does not show again is forgotten; and an item the event does not remove
  keeps its waiting time and its alerted flag into that step, also when it was not detected.
\<close>

theorem left_apply_steps_items:
  assumes "om_wf (ls_items st)" "left_apply r ev st = (als, st')"
  shows "om_wf (ls_items st') \<and>
    map al_track als = map fst (filter (\<lambda>(k, it). snd (item_step (lr_grace r) (ev_ts ev) (owned_in r ev st it) it))
      (items_of r ev st)) \<and>
    distinct (map al_track als) \<and>
    (\<forall>k. om_get (ls_items st') k = map_option (\<lambda>it. fst (item_step (lr_grace r) (ev_ts ev) (owned_in r ev st it) it))
      (om_get (items_of r ev st) k)) \<and>
    (\<forall>k \<in> set (ev_removed ev). k \<notin> fst ` set (left_updates r (scan_of r ev st)) \<longrightarrow>
       om_get (ls_items st') k = None) \<and>
    (\<forall>k it. om_get (ls_items st) k = Some it \<and> k \<notin> set (ev_removed ev) \<and> k \<noteq> kUnifiedBagTrackId \<longrightarrow>
       (\<exists>it'. om_get (items_of r ev st) k = Some it' \<and> it_start it' = it_start it \<and>
          it_alerted it' = it_alerted it))"
proof -
  let ?items = "items_of r ev st" and ?st1 = "drop_removed r (ev_removed ev) (scan_of r ev st) st"
  let ?P = "\<lambda>(k, it). snd (item_step (lr_grace r) (ev_ts ev) (owned_in r ev st it) it)"
  have wf: "om_wf ?items" by (rule items_of_wf [OF assms(1)])
  have als: "als = map (\<lambda>(k, it). item_alert r ev k) (filter ?P ?items)"
    and st': "ls_items st' = om_map (\<lambda>k it. fst (item_step (lr_grace r) (ev_ts ev) (owned_in r ev st it) it)) ?items"
    using assms(2) by (auto simp: left_apply_unfold)
  have tr: "map al_track als = map fst (filter ?P ?items)"
    unfolding als by (auto simp: item_alert_def build_alert_def)
  have "distinct (map fst (filter ?P ?items))"
    using om_wf_distinct [OF wf] by (simp add: distinct_map_filter)
  moreover have "om_get (ls_items st') k = None"
    if "k \<in> set (ev_removed ev)" "k \<notin> fst ` set (left_updates r (scan_of r ev st))" for k
    unfolding st' om_get_map items_of_def
    using put_boxes_absent [OF drop_removed_wf [OF assms(1)] that(2)] drop_removed_gone [OF assms(1) that(1)]
    by simp
  moreover have "\<exists>it'. om_get ?items k = Some it' \<and> it_start it' = it_start it \<and> it_alerted it' = it_alerted it"
    if "om_get (ls_items st) k = Some it" "k \<notin> set (ev_removed ev)" "k \<noteq> kUnifiedBagTrackId" for k it
    unfolding items_of_def using that assms(1)
    by (intro put_boxes_keeps drop_removed_wf) (simp_all add: drop_removed_kept)
  ultimately show ?thesis using wf tr by (simp add: st' om_get_map)
qed

definition example_left_rule :: left_rule where
  "example_left_rule = left_new (example_door_config\<lparr>rc_name := ''LeftItemRule''\<rparr>)"

theorem left_apply_steps_items_witness:
  "om_wf (ls_items (snd (left_apply example_left_rule (example_event []) left_init)))"
proof -
  have "om_wf (ls_items left_init)" by (simp add: left_init_def)
  from left_apply_steps_items [OF this prod.collapse [symmetric]] show ?thesis by blast
qed


section \<open>Known faces\<close>

lemma flt_trans: "flt a b \<Longrightarrow> flt b c \<Longrightarrow> flt a c"
  by (cases a; cases b; cases c) auto

lemma flt_NaN: "flt a b \<Longrightarrow> a \<noteq> NaN \<and> b \<noteq> NaN"
  by (cases a; cases b) auto

lemma not_flt_trans: "\<not> flt a b \<Longrightarrow> \<not> flt b c \<Longrightarrow> b \<noteq> NaN \<Longrightarrow> \<not> flt a c"
  by (cases a; cases b; cases c) auto

lemma best_face_spec:
  assumes "snd best \<noteq> NaN"
  shows "(best_face x m best = best \<or>
      (\<exists>e. (fst (best_face x m best), e) \<in> set m \<and> snd (best_face x m best) = cosine_similarity x e)) \<and>
    snd (best_face x m best) \<noteq> NaN \<and> \<not> flt (snd (best_face x m best)) (snd best) \<and>
    (\<forall>(k, e) \<in> set m. \<not> flt (snd (best_face x m best)) (cosine_similarity x e))"
  using assms
proof (induction x m best rule: best_face.induct)
  case (1 x best)
  have "\<not> flt c c" for c by (cases c) auto
  with 1 show ?case by auto
next
  case (2 x k e m best)
  let ?s = "cosine_similarity x e"
  show ?case
  proof (cases "flt (snd best) ?s")
    case True
    then have "?s \<noteq> NaN" using flt_NaN by blast
    define res where "res = best_face x m (k, ?s)"
    have IH: "res = (k, ?s) \<or> (\<exists>e. (fst res, e) \<in> set m \<and> snd res = cosine_similarity x e)"
      "snd res \<noteq> NaN" "\<not> flt (snd res) ?s"
      "\<forall>(k, e) \<in> set m. \<not> flt (snd res) (cosine_similarity x e)"
      using 2(1) [OF refl] True \<open>?s \<noteq> NaN\<close> by (auto simp: res_def)
    have "\<not> flt (snd res) (snd best)"
      using IH(3) True flt_trans by blast
    moreover have "best_face x ((k, e) # m) best = res" using True by (simp add: res_def Let_def)
    ultimately show ?thesis using IH by auto
  next
    case False
    define res where "res = best_face x m best"
    have IH: "res = best \<or> (\<exists>e. (fst res, e) \<in> set m \<and> snd res = cosine_similarity x e)"
      "snd res \<noteq> NaN" "\<not> flt (snd res) (snd best)"
      "\<forall>(k, e) \<in> set m. \<not> flt (snd res) (cosine_similarity x e)"
      using 2(1) [OF refl] False 2(2) by (auto simp: res_def)
    have "\<not> flt (snd res) ?s"
      by (rule not_flt_trans [OF IH(3) False 2(2)])
    moreover have "best_face x ((k, e) # m) best = res" using False by (simp add: res_def Let_def)
    ultimately show ?thesis using IH by auto
  qed
qed

text \<open>
  The face comparison returns a nearest enrolled face: its score is the similarity of an
  enrolled embedding of that name and no enrolled face scores higher; with no face above -1
  the answer is "unknown", which never reaches a threshold above 0; and of two equal scores
  the first name in the database's order wins.
\<close>

theorem face_compare_nearest:
  assumes "x \<noteq> []" "length x = fd_size db" "face_compare db x = (user, score)"
  shows "(\<forall>(k, e) \<in> set (fd_faces db). \<not> flt score (cosine_similarity x e)) \<and>
    (\<forall>thr. flt (Fin 0) thr \<and> fle thr score \<longrightarrow>
       (\<exists>e. (user, e) \<in> set (fd_faces db) \<and> score = cosine_similarity x e)) \<and>
    (fd_faces db = [] \<longrightarrow> user = ''unknown'' \<and> score = Fin (- 1))"
proof -
  have eq: "best_face x (fd_faces db) (''unknown'', Fin (- 1)) = (user, score)"
    using assms by (simp add: face_compare_def)
  note spec = best_face_spec [of "(''unknown'', Fin (- 1))" x "fd_faces db", unfolded eq]
  have "\<not> fle thr (Fin (- 1))" if "flt (Fin 0) thr" for thr
    using that by (cases thr) (auto simp: fle_def feq_def)
  then show ?thesis using spec eq by auto
qed

theorem face_compare_nearest_witness:
  "face_compare \<lparr>fd_faces = [(''a'', [Fin 1])], fd_size = 1\<rparr> [Fin 0] = (''a'', Fin 0)"
proof -
  have fl0: "fl F 0 = Fin 0" by (simp add: fl_def Let_def r_0)
  let ?db = "\<lparr>fd_faces = [(''a'', [Fin 1])], fd_size = 1\<rparr>"
  have eq: "face_compare ?db [Fin 0] = (''a'', Fin 0)"
    by (simp add: face_compare_def cosine_similarity_def magnitude_def dot_product_def fl0 feq_def Let_def)
  have "\<not> flt (Fin 0) (cosine_similarity [Fin 0] [Fin 1])"
    using face_compare_nearest [OF _ _ eq] by simp
  with eq show ?thesis by simp
qed

text \<open>What one detection does to the alerts and the cache of identities.\<close>

definition trunk_inv :: "trunk_rule \<Rightarrow> (int, face_state) omap \<Rightarrow> alert list \<times> (int, face_state) omap \<Rightarrow> bool" where
  "trunk_inv r cache0 acc \<longleftrightarrow> om_wf (snd acc) \<and>
     (\<forall>k fs. om_get cache0 k = Some fs \<longrightarrow> om_get (snd acc) k = Some fs) \<and>
     (\<forall>k fs. om_get cache0 k = None \<and> om_get (snd acc) k = Some fs \<longrightarrow>
        (\<exists>emb. emb \<noteq> [] \<and> fs_user fs = fst (face_compare (tk_db r) emb) \<and>
           fs_known fs = fle (tk_thr r) (snd (face_compare (tk_db r) emb)))) \<and>
     (\<forall>al \<in> set (fst acc). \<exists>fs. om_get (snd acc) (al_track al) = Some fs \<and> fs_known fs \<and>
        (al_key al = rc_name (tk_rc r) @ ''_'' @ fs_user fs))"

lemma build_alert_key: "k \<noteq> [] \<Longrightarrow> al_key (build_alert rc ev t k) = k"
  "al_track (build_alert rc ev t k) = t"
  by (simp_all add: build_alert_def)

lemma trunk_det_inv: "trunk_inv r cache0 acc \<Longrightarrow> trunk_inv r cache0 (trunk_det r ev acc d)"
proof -
  assume inv: "trunk_inv r cache0 acc"
  obtain als cache where acc: "acc = (als, cache)" by force
  show ?thesis
  proof (cases "d_class d \<noteq> tk_class r \<or> (om_get cache (d_track d) = None \<and> d_emb d = [])")
    case True
    then have "trunk_det r ev acc d = acc" by (auto simp: trunk_det_def acc Let_def)
    with inv show ?thesis by simp
  next
    case run: False
    show ?thesis
    proof (cases "om_get cache (d_track d)")
      case (Some fs)
      with run inv show ?thesis
        by (auto simp: trunk_det_def acc Let_def trunk_inv_def build_alert_key)
    next
      case None
      obtain user score where cmp: "face_compare (tk_db r) (d_emb d) = (user, score)" by force
      let ?fs = "\<lparr>fs_user = user, fs_known = fle (tk_thr r) score\<rparr>"
      have step: "trunk_det r ev acc d =
          (if fle (tk_thr r) score
           then als @ [build_alert (tk_rc r) ev (d_track d) (rc_name (tk_rc r) @ ''_'' @ user)] else als,
           om_put (d_track d) ?fs cache)"
        using run None cmp by (simp add: trunk_det_def acc Let_def)
      have wf: "om_wf cache" using inv by (simp add: trunk_inv_def acc)
      have old: "om_get cache0 (d_track d) = None"
        using inv None by (cases "om_get cache0 (d_track d)") (auto simp: trunk_inv_def acc)
      have new: "\<exists>emb. emb \<noteq> [] \<and> fs_user ?fs = fst (face_compare (tk_db r) emb) \<and>
           fs_known ?fs = fle (tk_thr r) (snd (face_compare (tk_db r) emb))"
        using run None cmp by (intro exI [of _ "d_emb d"]) auto
      show ?thesis
        using inv old new None unfolding step unfolding trunk_inv_def acc
        by (auto simp: om_get_put_at [OF wf] om.wf_put [OF wf] build_alert_key)
    qed
  qed
qed

text \<open>
  OpenTrunkFaceRule alerts only for known faces, and an identity sticks: after an event,
  every alert names the identity cached for its track, which is marked known; an identity
  cached before stays the same until the event removes its track (later embeddings of the
  track are not looked at); and a newly cached identity is the comparison of an embedding,
  known exactly when its score reaches the threshold.
\<close>

theorem trunk_alerts_known_faces:
  assumes "om_wf cache" "trunk_apply r ev cache = (als, cache')"
  shows "om_wf cache' \<and>
    (\<forall>al \<in> set als. \<exists>fs. om_get cache' (al_track al) = Some fs \<and> fs_known fs \<and>
       al_key al = rc_name (tk_rc r) @ ''_'' @ fs_user fs) \<and>
    (\<forall>k fs. om_get cache k = Some fs \<and> k \<notin> set (ev_removed ev) \<longrightarrow> om_get cache' k = Some fs) \<and>
    (\<forall>k fs. (om_get cache k = None \<or> k \<in> set (ev_removed ev)) \<and> om_get cache' k = Some fs \<longrightarrow>
       (\<exists>emb. emb \<noteq> [] \<and> fs_user fs = fst (face_compare (tk_db r) emb) \<and>
          fs_known fs = fle (tk_thr r) (snd (face_compare (tk_db r) emb))))"
proof -
  let ?c0 = "foldl (\<lambda>m k. om_del k m) cache (ev_removed ev)"
  have c0: "om_get ?c0 k = (if k \<in> set (ev_removed ev) then None else om_get cache k)" for k
    by (simp add: om.get_del_list [OF assms(1)])
  have "trunk_inv r ?c0 ([], ?c0)"
    by (auto simp: trunk_inv_def om.wf_del_list [OF assms(1)])
  then have "trunk_inv r ?c0 (foldl (trunk_det r ev) ([], ?c0) ds)" for ds
    by (induction ds rule: rev_induct) (simp_all add: trunk_det_inv)
  from this [of "ev_dets ev"] have inv: "trunk_inv r ?c0 (als, cache')"
    using assms(2) by (simp add: trunk_apply_def)
  have kept: "om_get ?c0 k = Some fs" if "om_get cache k = Some fs" "k \<notin> set (ev_removed ev)" for k fs
    using that by (simp add: c0)
  have fresh: "om_get ?c0 k = None" if "om_get cache k = None \<or> k \<in> set (ev_removed ev)" for k
    using that by (auto simp: c0)
  show ?thesis
    using inv kept fresh unfolding trunk_inv_def fst_conv snd_conv by blast
qed

theorem trunk_alerts_known_faces_witness:
  "om_wf (snd (trunk_apply (trunk_new (\<lambda>_. CannotOpen) example_door_config) (example_event []) []))"
proof -
  have "om_wf ([] :: (int, face_state) omap)" by simp
  from trunk_alerts_known_faces [OF this prod.collapse [symmetric]] show ?thesis by blast
qed

end
