(* ===== verification/RuleCore.thy ===== *)
theory RuleCore
  imports Rules
begin

text \<open>
  The core of the rule engine: \<open>Registry\<close>, \<open>Dispatcher\<close>, \<open>AlertManager\<close> and \<open>RuleEngine\<close>
  (\<open>rule_process/include/core\<close>, \<open>src/core\<close>). \<open>std::sort\<close> does not fix the order of equal
  elements, so the sorters are arguments; what the code relies on is the interface
  \<open>alert_sorter\<close>.
\<close>

section \<open>AlertManager\<close>

record alert_params =
  ap_cooldown_s :: int
  ap_max :: nat
  ap_threshold :: nat
  ap_ratio :: cfloat

definition default_params :: alert_params where
  "default_params = \<lparr>ap_cooldown_s = 5, ap_max = 10000, ap_threshold = 8000, ap_ratio = Fin (1 / 2)\<rparr>"

record alert_manager =
  am_history :: "(string, u64) omap"
  am_cooldown :: u64
  am_max :: nat
  am_threshold :: nat
  am_ratio :: cfloat

definition am_new :: "alert_params \<Rightarrow> alert_manager" where
  "am_new p = \<lparr>am_history = [], am_cooldown = u64_of_int (ap_cooldown_s p) * 1000000,
     am_max = ap_max p, am_threshold = ap_threshold p, am_ratio = ap_ratio p\<rparr>"

definition in_cooldown :: "u64 \<Rightarrow> (string, u64) omap \<Rightarrow> string \<Rightarrow> u64 \<Rightarrow> bool" where
  "in_cooldown cd h key now =
     (case om_get h key of None \<Rightarrow> False | Some ts \<Rightarrow> now - ts < cd)"

text \<open>The loop over the sorted alerts: the history, what is emitted, and the last time seen.\<close>

fun am_loop :: "u64 \<Rightarrow> (string, u64) omap \<Rightarrow> u64 \<Rightarrow> alert list \<Rightarrow> (string, u64) omap \<times> alert list \<times> u64" where
  "am_loop cd h now [] = (h, [], now)"
| "am_loop cd h now (al # als) =
     (let now = al_ts al in
      if in_cooldown cd h (al_key al) now then am_loop cd h now als
      else
        let (h', out, now') = am_loop cd (om_put (al_key al) now h) now als
        in (h', al # out, now'))"

definition expired :: "u64 \<Rightarrow> u64 \<Rightarrow> u64 \<Rightarrow> bool" where
  "expired cd now ts \<longleftrightarrow> ts \<le> now \<and> now - ts \<ge> cd"

definition desired_size :: "alert_manager \<Rightarrow> nat \<Rightarrow> nat" where
  "desired_size am n =
     (let d1 = (if am_max am > 0 \<and> n > am_max am then am_max am else n) in
      if am_threshold am > 0 \<and> n > am_threshold am then
        (if flt (Fin 0) (am_ratio am) \<and> flt (am_ratio am) (Fin 1) then
           let target = unat (u64_of_float (fmul B64 (fl B64 (of_nat n)) (fsub B64 (Fin 1) (am_ratio am))))
           in if target < d1 then target else d1
         else if fle (Fin 1) (am_ratio am) then 0
         else d1)
      else d1)"

definition cleanup_history ::
  "((u64 \<times> string) list \<Rightarrow> (u64 \<times> string) list) \<Rightarrow> u64 \<Rightarrow> alert_manager \<Rightarrow> alert_manager" where
  "cleanup_history sort_entries now am =
     (if am_history am = [] then am
      else
        let h = (if now > 0 \<and> am_cooldown am > 0
                 then filter (\<lambda>(k, ts). \<not> expired (am_cooldown am) now ts) (am_history am)
                 else am_history am);
            desired = desired_size am (length h)
        in if desired \<ge> length h then am\<lparr>am_history := h\<rparr>
           else
             let entries = sort_entries (map (\<lambda>(k, ts). (ts, k)) h);
                 gone = map snd (take (length h - desired) entries)
             in am\<lparr>am_history := foldl (\<lambda>m k. om_del k m) h gone\<rparr>)"

definition process_alerts ::
  "(alert list \<Rightarrow> alert list) \<Rightarrow> ((u64 \<times> string) list \<Rightarrow> (u64 \<times> string) list) \<Rightarrow>
     alert_manager \<Rightarrow> alert list \<Rightarrow> alert list \<times> alert_manager" where
  "process_alerts sort_alerts sort_entries am raw =
     (let (h, out, now) = am_loop (am_cooldown am) (am_history am) 0 (sort_alerts raw);
          am1 = am\<lparr>am_history := h\<rparr>;
          over_soft = am_threshold am > 0 \<and> length h > am_threshold am;
          over_hard = am_max am > 0 \<and> length h > am_max am
      in (out, if over_soft \<or> over_hard then cleanup_history sort_entries now am1 else am1))"

section \<open>The interface of the sorters\<close>

locale alert_sorter =
  fixes sort_alerts :: "alert list \<Rightarrow> alert list"
    and sort_entries :: "(u64 \<times> string) list \<Rightarrow> (u64 \<times> string) list"
  assumes alerts_mset: "mset (sort_alerts xs) = mset xs"
    and alerts_sorted: "sorted (map al_priority (sort_alerts xs))"
    and entries_mset: "mset (sort_entries es) = mset es"
    and entries_sorted: "sorted (map fst (sort_entries es))"
begin

lemma alerts_set: "set (sort_alerts xs) = set xs"
  by (metis alerts_mset set_mset_mset)

lemma entries_set: "set (sort_entries es) = set es"
  by (metis entries_mset set_mset_mset)

lemma entries_length: "length (sort_entries es) = length es"
  by (metis entries_mset size_mset)

end

text \<open>A stable insertion sort is one admissible sorter.\<close>

interpretation stable: alert_sorter "sort_key al_priority" "sort_key fst"
  by unfold_locales auto

section \<open>One frame of alerts\<close>

text \<open>All raw alerts of a frame carry the event's time, so the loop sees one time only.\<close>

definition emitted :: "u64 \<Rightarrow> (string, u64) omap \<Rightarrow> u64 \<Rightarrow> alert list \<Rightarrow> alert list" where
  "emitted cd h now als = fst (snd (am_loop cd h now als))"

lemma emitted_simps [simp]:
  "emitted cd h now [] = []"
  "emitted cd h now (a # als) =
     (if in_cooldown cd h (al_key a) (al_ts a) then emitted cd h (al_ts a) als
      else a # emitted cd (om_put (al_key a) (al_ts a) h) (al_ts a) als)"
  by (simp_all add: emitted_def Let_def split_beta)

lemma am_loop_wf: "om_wf h \<Longrightarrow> om_wf (fst (am_loop cd h now als))"
  by (induction cd h now als rule: am_loop.induct) (auto simp: Let_def split_beta om.wf_put)

lemma emitted_subset: "set (emitted cd h now als) \<subseteq> set als"
  by (induction cd h now als rule: am_loop.induct) auto

lemma in_cooldown_put:
  "om_wf h \<Longrightarrow> 0 < cd \<Longrightarrow> in_cooldown cd (om_put k t h) k' t \<longleftrightarrow> k' = k \<or> in_cooldown cd h k' t"
  by (auto simp: in_cooldown_def om_get_put_at)

lemma emitted_not_cooling:
  assumes "om_wf h" "0 < cd" "\<forall>a \<in> set als. al_ts a = t" "b \<in> set (emitted cd h now als)"
  shows "\<not> in_cooldown cd h (al_key b) t"
  using assms
proof (induction als arbitrary: h now)
  case (Cons a als)
  show ?case
  proof (cases "in_cooldown cd h (al_key a) t")
    case True
    with Cons show ?thesis by auto
  next
    case False
    with Cons.prems have "b = a \<or> b \<in> set (emitted cd (om_put (al_key a) t h) t als)" by auto
    then show ?thesis
      using Cons.IH [of "om_put (al_key a) t h" t] Cons.prems False
      by (auto simp: om.wf_put in_cooldown_put)
  qed
qed simp

lemma emitted_distinct:
  assumes "om_wf h" "0 < cd" "\<forall>a \<in> set als. al_ts a = t"
  shows "distinct (map al_key (emitted cd h now als))"
  using assms
proof (induction als arbitrary: h now)
  case (Cons a als)
  have wf: "om_wf (om_put (al_key a) t h)" using Cons.prems by (simp add: om.wf_put)
  have "al_key b \<noteq> al_key a" if "b \<in> set (emitted cd (om_put (al_key a) t h) t als)" for b
    using emitted_not_cooling [OF wf Cons.prems(2) _ that, of t] Cons.prems
    by (auto simp: in_cooldown_put)
  then have "al_key a \<notin> al_key ` set (emitted cd (om_put (al_key a) t h) t als)" by force
  then show ?case using Cons wf by simp
qed simp

lemma emitted_covers:
  assumes "om_wf h" "0 < cd" "\<forall>a \<in> set als. al_ts a = t"
    and "b \<in> set als" "\<not> in_cooldown cd h (al_key b) t"
  shows "\<exists>a \<in> set (emitted cd h now als). al_key a = al_key b"
  using assms
proof (induction als arbitrary: h now)
  case (Cons a als)
  show ?case
  proof (cases "in_cooldown cd h (al_key a) t")
    case True
    with Cons show ?thesis by auto
  next
    case False
    then show ?thesis
      using Cons.IH [of "om_put (al_key a) t h" t] Cons.prems
      by (cases "al_key b = al_key a") (auto simp: om.wf_put in_cooldown_put)
  qed
qed simp

lemma emitted_first_priority:
  assumes "om_wf h" "0 < cd" "\<forall>a \<in> set als. al_ts a = t" "sorted (map al_priority als)"
    and "a \<in> set (emitted cd h now als)" "b \<in> set als" "al_key b = al_key a"
  shows "al_priority a \<le> al_priority b"
  using assms
proof (induction als arbitrary: h now)
  case (Cons c als)
  show ?case
  proof (cases "in_cooldown cd h (al_key c) t")
    case True
    then have "\<not> in_cooldown cd h (al_key a) t"
      using emitted_not_cooling [OF Cons.prems(1-3,5)] by simp
    with True Cons.prems(7) have "b \<noteq> c" by auto
    with True Cons show ?thesis by auto
  next
    case False
    have wf: "om_wf (om_put (al_key c) t h)" using Cons.prems by (simp add: om.wf_put)
    consider "a = c" | "a \<in> set (emitted cd (om_put (al_key c) t h) t als)"
      using False Cons.prems by auto
    then show ?thesis
    proof cases
      case 1
      with Cons.prems show ?thesis by auto
    next
      case 2
      have "al_key a \<noteq> al_key c"
        using emitted_not_cooling [OF wf Cons.prems(2) _ 2, of t] Cons.prems(1-3)
        by (auto simp: in_cooldown_put)
      then have "b \<in> set als" using Cons.prems(6,7) by auto
      with Cons.IH [OF wf Cons.prems(2) _ _ 2] Cons.prems show ?thesis by auto
    qed
  qed
qed simp

context alert_sorter
begin

lemma process_alerts_spec:
  assumes "om_wf (am_history am)" "0 < am_cooldown am" "\<forall>a \<in> set raw. al_ts a = t"
    and "process_alerts sort_alerts sort_entries am raw = (out, am')"
  shows "distinct (map al_key out)"
    "\<forall>a \<in> set out. a \<in> set raw \<and> \<not> in_cooldown (am_cooldown am) (am_history am) (al_key a) t \<and>
       (\<forall>b \<in> set raw. al_key b = al_key a \<longrightarrow> al_priority a \<le> al_priority b)"
    "\<forall>b \<in> set raw. \<not> in_cooldown (am_cooldown am) (am_history am) (al_key b) t \<longrightarrow>
       (\<exists>a \<in> set out. al_key a = al_key b)"
proof -
  have out: "out = emitted (am_cooldown am) (am_history am) 0 (sort_alerts raw)"
    using assms(4) by (auto simp: process_alerts_def emitted_def Let_def split: prod.splits)
  have t: "\<forall>a \<in> set (sort_alerts raw). al_ts a = t" using assms(3) by (simp add: alerts_set)
  note args = assms(1,2) t
  show "distinct (map al_key out)" unfolding out by (rule emitted_distinct [OF args])
  show "\<forall>b \<in> set raw. \<not> in_cooldown (am_cooldown am) (am_history am) (al_key b) t \<longrightarrow>
       (\<exists>a \<in> set out. al_key a = al_key b)"
    unfolding out using emitted_covers [OF args] alerts_set by auto
  show "\<forall>a \<in> set out. a \<in> set raw \<and> \<not> in_cooldown (am_cooldown am) (am_history am) (al_key a) t \<and>
       (\<forall>b \<in> set raw. al_key b = al_key a \<longrightarrow> al_priority a \<le> al_priority b)"
    unfolding out using emitted_subset emitted_not_cooling [OF args]
      emitted_first_priority [OF args alerts_sorted] alerts_set by blast
qed

end


text \<open>
  C8: One frame of alerts (all raw alerts carry the event's time t), with a positive
  cooldown: for each deduplication key that is not cooling down exactly one alert is emitted,
  one of smallest priority value among the raw alerts of that key; for a key that is cooling
  down none is.
\<close>

theorem alerts_once_per_key:
  assumes "alert_sorter sort_alerts sort_entries"
    and "om_wf (am_history am)" "0 < am_cooldown am" "\<forall>a \<in> set raw. al_ts a = t"
    and "process_alerts sort_alerts sort_entries am raw = (out, am')"
  shows "distinct (map al_key out) \<and>
    (\<forall>a \<in> set out. a \<in> set raw \<and> \<not> in_cooldown (am_cooldown am) (am_history am) (al_key a) t \<and>
       (\<forall>b \<in> set raw. al_key b = al_key a \<longrightarrow> al_priority a \<le> al_priority b)) \<and>
    (\<forall>b \<in> set raw. \<not> in_cooldown (am_cooldown am) (am_history am) (al_key b) t \<longrightarrow>
       (\<exists>a \<in> set out. al_key a = al_key b))"
  using alert_sorter.process_alerts_spec [OF assms] by blast

lemma am_new_default: "om_wf (am_history (am_new default_params))" "0 < am_cooldown (am_new default_params)"
  by (simp_all add: am_new_def default_params_def u64_of_int_def)

definition example_alert :: "string \<Rightarrow> int \<Rightarrow> alert" where
  "example_alert k p = \<lparr>al_rule = ''r'', al_priority = p, al_key = k, al_track = 1, al_ts = 7\<rparr>"

theorem alerts_once_per_key_witness:
  "distinct (map al_key (fst (process_alerts (sort_key al_priority) (sort_key fst) (am_new default_params)
     [example_alert ''a'' 2, example_alert ''a'' 1])))"
proof -
  have t: "\<forall>a \<in> set [example_alert ''a'' 2, example_alert ''a'' 1]. al_ts a = 7"
    by (simp add: example_alert_def)
  from alerts_once_per_key [OF stable.alert_sorter_axioms am_new_default t prod.collapse [symmetric]]
  show ?thesis by blast
qed

section \<open>The history is bounded\<close>

lemma desired_size_le: "desired_size am n \<le> n \<and> (0 < am_max am \<longrightarrow> desired_size am n \<le> am_max am)"
  by (auto simp: desired_size_def Let_def)

lemma length_del_list:
  "om_wf m \<Longrightarrow> distinct ks \<Longrightarrow> set ks \<subseteq> fst ` set m \<Longrightarrow>
     length (foldl (\<lambda>m k. om_del k m) m ks) = length m - length ks"
proof (induction ks arbitrary: m)
  case (Cons k ks)
  have sub: "set ks \<subseteq> fst ` set (om_del k m)"
    using Cons.prems(2,3) by (fastforce simp: om_del_def)
  obtain v where "(k, v) \<in> set m" using Cons.prems(3) by auto
  then have "om_get m k = Some v" using Cons.prems(1) by (simp add: om_get_Some_iff)
  then have "length (om_del k m) = length m - 1" using Cons.prems(1) by (simp add: length_om_del)
  with Cons.IH [OF om.wf_del [OF Cons.prems(1)] _ sub] Cons.prems(2) show ?case by simp
qed simp

lemma om_wf_filter: "om_wf m \<Longrightarrow> om_wf (filter P m)"
  by (induction m) (auto simp: om_wf_Cons)

context alert_sorter
begin

lemma cleanup_history_size:
  assumes "om_wf (am_history am)"
  shows "om_wf (am_history (cleanup_history sort_entries now am)) \<and>
    (0 < am_max am \<longrightarrow> length (am_history (cleanup_history sort_entries now am)) \<le> am_max am)"
proof (cases "am_history am = []")
  case True
  then show ?thesis by (simp add: cleanup_history_def)
next
  case False
  define h where "h = (if now > 0 \<and> am_cooldown am > 0
      then filter (\<lambda>(k, ts). \<not> expired (am_cooldown am) now ts) (am_history am) else am_history am)"
  have wf: "om_wf h" using assms by (simp add: h_def om_wf_filter)
  let ?d = "desired_size am (length h)"
  let ?es = "sort_entries (map (\<lambda>(k, ts). (ts, k)) h)"
  let ?gone = "map snd (take (length h - ?d) ?es)"
  show ?thesis
  proof (cases "?d \<ge> length h")
    case True
    then have eq: "cleanup_history sort_entries now am = am\<lparr>am_history := h\<rparr>"
      using False by (simp add: cleanup_history_def h_def Let_def)
    have "0 < am_max am \<Longrightarrow> length h \<le> am_max am"
      using True desired_size_le [of am "length h"] by linarith
    then show ?thesis using wf unfolding eq by simp
  next
    case big: False
    then have eq: "cleanup_history sort_entries now am =
        am\<lparr>am_history := foldl (\<lambda>m k. om_del k m) h ?gone\<rparr>"
      using False by (simp add: cleanup_history_def h_def Let_def)
    have "mset (map snd ?es) = mset (map fst h)"
      by (simp add: entries_mset multiset.map_comp comp_def case_prod_unfold)
    then have dist: "distinct (map snd ?es)" and keys: "set (map snd ?es) = set (map fst h)"
      using om_wf_distinct [OF wf] by (metis mset_eq_imp_distinct_iff, metis set_mset_mset)
    have "distinct ?gone" using dist by (metis distinct_take take_map)
    moreover have "set ?gone \<subseteq> set (map snd ?es)"
      unfolding set_map by (intro image_mono set_take_subset)
    then have "set ?gone \<subseteq> fst ` set h" unfolding keys by simp
    moreover have "length ?gone = length h - ?d" by (simp add: entries_length)
    ultimately have "length (foldl (\<lambda>m k. om_del k m) h ?gone) = ?d"
      using length_del_list [OF wf] big by simp
    then show ?thesis
      unfolding eq using om.wf_del_list [OF wf] desired_size_le [of am "length h"] by simp
  qed
qed

lemma process_alerts_bounded:
  assumes "om_wf (am_history am)" "process_alerts sort_alerts sort_entries am raw = (out, am')"
  shows "om_wf (am_history am') \<and> (0 < am_max am \<longrightarrow> length (am_history am') \<le> am_max am) \<and>
    am_max am' = am_max am \<and> am_cooldown am' = am_cooldown am"
proof -
  obtain h out' now where l: "am_loop (am_cooldown am) (am_history am) 0 (sort_alerts raw) = (h, out', now)"
    by (metis prod_cases3)
  have wf: "om_wf h" using am_loop_wf [OF assms(1), of "am_cooldown am" 0 "sort_alerts raw"] l by simp
  have frame: "am_max (cleanup_history sort_entries now b) = am_max b"
    "am_cooldown (cleanup_history sort_entries now b) = am_cooldown b" for b
    by (simp_all add: cleanup_history_def Let_def)
  have "om_wf (am_history (am\<lparr>am_history := h\<rparr>))" using wf by simp
  note c = cleanup_history_size [OF this, of now]
  show ?thesis
    using assms(2) wf c frame [of "am\<lparr>am_history := h\<rparr>"]
    by (auto simp: process_alerts_def l Let_def split: if_splits)
qed

end

text \<open>
  The alert history never grows beyond its hard limit: whatever alerts arrive, over any
  sequence of frames, after each frame it is an ordered map of at most max_history_size
  entries (when that limit is positive).
\<close>

theorem alert_history_bounded:
  assumes "alert_sorter sort_alerts sort_entries" "om_wf (am_history am)" "0 < am_max am"
    and "length (am_history am) \<le> am_max am"
  shows "length (am_history (foldl (\<lambda>am raw. snd (process_alerts sort_alerts sort_entries am raw)) am frames))
      \<le> am_max am"
proof -
  have "om_wf (am_history (foldl (\<lambda>am raw. snd (process_alerts sort_alerts sort_entries am raw)) am frames)) \<and>
    length (am_history (foldl (\<lambda>am raw. snd (process_alerts sort_alerts sort_entries am raw)) am frames))
      \<le> am_max am \<and>
    am_max (foldl (\<lambda>am raw. snd (process_alerts sort_alerts sort_entries am raw)) am frames) = am_max am"
  proof (induction frames rule: rev_induct)
    case Nil
    with assms show ?case by simp
  next
    case (snoc raw frames)
    let ?am = "foldl (\<lambda>am raw. snd (process_alerts sort_alerts sort_entries am raw)) am frames"
    from alert_sorter.process_alerts_bounded [OF assms(1) conjunct1 [OF snoc] prod.collapse [symmetric]]
    show ?case using snoc assms(3) by simp
  qed
  then show ?thesis by blast
qed

theorem alert_history_bounded_witness:
  "length (am_history (foldl (\<lambda>am raw. snd (process_alerts (sort_key al_priority) (sort_key fst) am raw))
     (am_new default_params) [[example_alert ''a'' 1]])) \<le> 10000"
proof -
  have "length (am_history (am_new default_params)) \<le> am_max (am_new default_params)"
    "0 < am_max (am_new default_params)" "am_max (am_new default_params) = 10000"
    by (simp_all add: am_new_def default_params_def)
  with alert_history_bounded [OF stable.alert_sorter_axioms am_new_default(1)] show ?thesis by metis
qed


section \<open>Registry, Dispatcher, RuleEngine\<close>

text \<open>A rule object with its private state.\<close>

datatype rule =
    RDoor door_rule
  | RLeft left_rule left_state
  | RTrunk trunk_rule "(int, face_state) omap"

definition create_rule :: "(string \<Rightarrow> face_file) \<Rightarrow> rule_config \<Rightarrow> rule option" where
  "create_rule read_file rc =
     (if rc_name rc = ''DoorCollisionRule'' then Some (RDoor (door_new rc))
      else if rc_name rc = ''LeftItemRule'' then Some (RLeft (left_new rc) left_init)
      else if rc_name rc = ''OpenTrunkFaceRule'' then Some (RTrunk (trunk_new read_file rc) [])
      else None)"

fun rule_validate :: "rule \<Rightarrow> status" where
  "rule_validate (RDoor r) = door_validate r"
| "rule_validate (RLeft r _) = left_validate r"
| "rule_validate (RTrunk r _) = trunk_validate r"

fun rule_config_of :: "rule \<Rightarrow> rule_config" where
  "rule_config_of (RDoor r) = dr_rc r"
| "rule_config_of (RLeft r _) = lr_rc r"
| "rule_config_of (RTrunk r _) = tk_rc r"

fun rule_apply :: "event_meta \<Rightarrow> rule \<Rightarrow> alert list \<times> rule" where
  "rule_apply ev (RDoor r) = (door_apply r ev, RDoor r)"
| "rule_apply ev (RLeft r st) = (let (als, st') = left_apply r ev st in (als, RLeft r st'))"
| "rule_apply ev (RTrunk r st) = (let (als, st') = trunk_apply r ev st in (als, RTrunk r st'))"

text \<open>
  The dispatcher's table holds pointers to shared rule objects; here the objects are a list
  and the routes of a source are indices into it. A rule that names a source twice is on its
  route twice.
\<close>

definition routes :: "rule list \<Rightarrow> string \<Rightarrow> nat list" where
  "routes rules src =
     concat (map (\<lambda>i. map (\<lambda>_. i) (filter (\<lambda>s. s = src) (rc_sources (rule_config_of (rules ! i)))))
       [0..<length rules])"

fun dispatch_routes :: "event_meta \<Rightarrow> nat list \<Rightarrow> rule list \<Rightarrow> alert list \<times> rule list" where
  "dispatch_routes ev [] rules = ([], rules)"
| "dispatch_routes ev (i # is) rules =
     (let (als, r') = rule_apply ev (rules ! i);
          (rest, rules') = dispatch_routes ev is (rules[i := r'])
      in (als @ rest, rules'))"

definition dispatch :: "event_meta \<Rightarrow> rule list \<Rightarrow> alert list \<times> rule list" where
  "dispatch ev rules = dispatch_routes ev (routes rules (ev_source ev)) rules"

record engine =
  en_rules :: "rule list"
  en_alerts :: alert_manager

fun valid_rules :: "(string \<Rightarrow> face_file) \<Rightarrow> rule_config list \<Rightarrow> rule list" where
  "valid_rules read_file [] = []"
| "valid_rules read_file (c # cs) =
     (case create_rule read_file c of
        None \<Rightarrow> valid_rules read_file cs
      | Some r \<Rightarrow> if rule_validate r = None then r # valid_rules read_file cs
                  else valid_rules read_file cs)"

definition engine_new :: "(string \<Rightarrow> face_file) \<Rightarrow> rule_config list \<Rightarrow> alert_params \<Rightarrow> engine" where
  "engine_new read_file cfgs p = \<lparr>en_rules = valid_rules read_file cfgs, en_alerts = am_new p\<rparr>"

definition process_event ::
  "(alert list \<Rightarrow> alert list) \<Rightarrow> ((u64 \<times> string) list \<Rightarrow> (u64 \<times> string) list) \<Rightarrow>
     event_meta \<Rightarrow> engine \<Rightarrow> alert list \<times> engine" where
  "process_event sort_alerts sort_entries ev en =
     (let (candidates, rules) = dispatch ev (en_rules en);
          (final, am) = process_alerts sort_alerts sort_entries (en_alerts en) candidates
      in (final, \<lparr>en_rules = rules, en_alerts = am\<rparr>))"

section \<open>What the engine promises\<close>

fun rule_wf :: "rule \<Rightarrow> bool" where
  "rule_wf (RDoor r) \<longleftrightarrow> door_validate r = None"
| "rule_wf (RLeft r st) \<longleftrightarrow> left_validate r = None \<and> om_wf (ls_items st)"
| "rule_wf (RTrunk r cache) \<longleftrightarrow> trunk_validate r = None \<and> om_wf cache"

definition engine_wf :: "engine \<Rightarrow> bool" where
  "engine_wf en \<longleftrightarrow> (\<forall>r \<in> set (en_rules en). rule_wf r) \<and> om_wf (am_history (en_alerts en))"

lemma left_apply_wf: "om_wf (ls_items st) \<Longrightarrow> om_wf (ls_items (snd (left_apply r ev st)))"
  by (simp add: left_apply_unfold items_of_wf)

lemma trunk_det_wf: "om_wf (snd acc) \<Longrightarrow> om_wf (snd (trunk_det r ev acc d))"
  by (auto simp: trunk_det_def Let_def split_beta om.wf_put split: option.splits)

lemma trunk_apply_wf: "om_wf cache \<Longrightarrow> om_wf (snd (trunk_apply r ev cache))"
proof -
  assume wf: "om_wf cache"
  have "om_wf (snd (foldl (trunk_det r ev) ([], foldl (\<lambda>m k. om_del k m) cache (ev_removed ev)) ds))" for ds
    by (induction ds rule: rev_induct) (simp_all add: trunk_det_wf om.wf_del_list [OF wf])
  then show ?thesis by (simp add: trunk_apply_def)
qed

lemma rule_apply_wf: "rule_wf r \<Longrightarrow> rule_wf (snd (rule_apply ev r)) \<and>
    rule_config_of (snd (rule_apply ev r)) = rule_config_of r"
  by (cases r) (auto simp: Let_def split_beta left_apply_wf trunk_apply_wf)

lemma door_apply_ts: "al \<in> set (door_apply r ev) \<Longrightarrow> al_ts al = ev_ts ev"
  by (auto simp: door_apply_def Let_def build_alert_def)

lemma left_apply_ts: "al \<in> set (fst (left_apply r ev st)) \<Longrightarrow> al_ts al = ev_ts ev"
  by (auto simp: left_apply_unfold item_alert_def build_alert_def)

lemma trunk_det_ts:
  "\<forall>al \<in> set (fst acc). al_ts al = t \<Longrightarrow> ev_ts ev = t \<Longrightarrow>
     \<forall>al \<in> set (fst (trunk_det r ev acc d)). al_ts al = t"
  by (auto simp: trunk_det_def Let_def split_beta build_alert_def split: option.splits)

lemma trunk_apply_ts: "\<forall>al \<in> set (fst (trunk_apply r ev cache)). al_ts al = ev_ts ev"
proof -
  have "\<forall>al \<in> set (fst (foldl (trunk_det r ev) ([], c) ds)). al_ts al = ev_ts ev" for c ds
  proof (induction ds rule: rev_induct)
    case (snoc d ds)
    from trunk_det_ts [OF snoc refl] show ?case by simp
  qed simp
  then show ?thesis by (simp add: trunk_apply_def)
qed

lemma rule_apply_ts: "al \<in> set (fst (rule_apply ev r)) \<Longrightarrow> al_ts al = ev_ts ev"
  using trunk_apply_ts left_apply_ts door_apply_ts
  by (cases r) (auto simp: Let_def split_beta)

lemma dispatch_routes_inv:
  "\<forall>r \<in> set rules. rule_wf r \<Longrightarrow> \<forall>i \<in> set is. i < length rules \<Longrightarrow>
     (\<forall>al \<in> set (fst (dispatch_routes ev is rules)). al_ts al = ev_ts ev) \<and>
     (\<forall>r \<in> set (snd (dispatch_routes ev is rules)). rule_wf r) \<and>
     length (snd (dispatch_routes ev is rules)) = length rules \<and>
     (\<forall>j < length rules. j \<notin> set is \<longrightarrow> snd (dispatch_routes ev is rules) ! j = rules ! j)"
proof (induction "is" arbitrary: rules)
  case (Cons i "is")
  let ?r = "snd (rule_apply ev (rules ! i))" and ?als = "fst (rule_apply ev (rules ! i))"
  have wf: "rule_wf ?r" using Cons.prems rule_apply_wf [of "rules ! i"] by simp
  then have "\<forall>r \<in> set (rules[i := ?r]). rule_wf r"
    using Cons.prems(1) set_update_subset_insert [of rules i ?r] by auto
  with Cons.IH [of "rules[i := ?r]"] Cons.prems(2) rule_apply_ts [of _ ev "rules ! i"] show ?case
    by (auto simp: split_beta Let_def)
qed simp

lemma routes_bound: "i \<in> set (routes rules src) \<Longrightarrow> i < length rules \<and> src \<in> set (rc_sources (rule_config_of (rules ! i)))"
  by (auto simp: routes_def)

lemma valid_rules_wf: "\<forall>r \<in> set (valid_rules read_file cfgs). rule_wf r"
proof (induction cfgs)
  case (Cons c cfgs)
  have "rule_wf r" if "create_rule read_file c = Some r" "rule_validate r = None" for r
    using that by (auto simp: create_rule_def left_init_def split: if_splits)
  with Cons show ?case by (auto split: option.splits)
qed simp

lemma engine_new_wf: "engine_wf (engine_new read_file cfgs p)"
  using valid_rules_wf by (simp add: engine_wf_def engine_new_def am_new_def)

lemma process_event_wf:
  assumes "alert_sorter sort_alerts sort_entries" "engine_wf en"
    and "process_event sort_alerts sort_entries ev en = (final, en')"
  shows "engine_wf en'"
proof -
  have bound: "\<forall>i \<in> set (routes (en_rules en) (ev_source ev)). i < length (en_rules en)"
    using routes_bound by blast
  obtain cand rules where d: "dispatch ev (en_rules en) = (cand, rules)" by force
  obtain out am where p: "process_alerts sort_alerts sort_entries (en_alerts en) cand = (out, am)" by force
  have "om_wf (am_history (en_alerts en))" using assms(2) by (simp add: engine_wf_def)
  from alert_sorter.process_alerts_bounded [OF assms(1) this p] have "om_wf (am_history am)" by blast
  moreover have "\<forall>r \<in> set rules. rule_wf r"
    using dispatch_routes_inv [OF _ bound, of ev] assms(2) d by (simp add: engine_wf_def dispatch_def)
  ultimately show ?thesis
    using assms(3) by (auto simp: process_event_def d p engine_wf_def)
qed



end
