(* ===== verification/Strings.thy ===== *)
theory Strings
  imports Prelude "HOL-Library.Sublist"
begin

text \<open>
  The string operations several parts of the pipeline share: \<open>std::string::find\<close> and
  \<open>replace\<close>, zero padding as \<open>printf\<close> does it, and the depth counting loop that finds the
  end of a bracketed block (in \<open>rule_process/src/main.cpp\<close>, \<open>consumer_demo.cpp\<close> and
  \<open>gstmsgagg.cpp\<close>).
\<close>

section \<open>Searching and replacing\<close>

definition find_from :: "string \<Rightarrow> string \<Rightarrow> nat \<Rightarrow> nat option" where
  "find_from pat s pos = List.find (\<lambda>i. prefix pat (drop i s)) [pos..<Suc (length s)]"

definition replace_at :: "nat \<Rightarrow> nat \<Rightarrow> string \<Rightarrow> string \<Rightarrow> string" where
  "replace_at pos n new s = take pos s @ new @ drop (pos + n) s"

lemma find_upt_Some:
  "List.find P [m..<n] = Some i \<longleftrightarrow> m \<le> i \<and> i < n \<and> P i \<and> (\<forall>j. m \<le> j \<and> j < i \<longrightarrow> \<not> P j)"
proof -
  have nth: "[m..<n] ! j = m + j" if "j < n - m" for j using that by simp
  show ?thesis
    unfolding find_Some_iff
  proof safe
    fix k j
    assume "k < length [m..<n]" "P ([m..<n] ! k)" "\<forall>j<k. \<not> P ([m..<n] ! j)" "i = [m..<n] ! k"
      "m \<le> j" "j < [m..<n] ! k" "P j"
    then show False using nth [of "j - m"] nth [of k] by (auto dest: spec [of _ "j - m"])
  next
    assume *: "m \<le> i" "i < n" "P i" "\<forall>j. m \<le> j \<and> j < i \<longrightarrow> \<not> P j"
    then show "\<exists>k<length [m..<n]. P ([m..<n] ! k) \<and> i = [m..<n] ! k \<and> (\<forall>j<k. \<not> P ([m..<n] ! j))"
      by (intro exI [of _ "i - m"]) (auto simp: less_diff_conv)
  qed auto
qed

lemma find_upt_None: "List.find P [m..<n] = None \<longleftrightarrow> (\<forall>j. m \<le> j \<and> j < n \<longrightarrow> \<not> P j)"
  by (auto simp: find_None_iff)

lemma find_from_Some:
  "find_from pat s pos = Some i \<longleftrightarrow>
     pos \<le> i \<and> i \<le> length s \<and> prefix pat (drop i s) \<and> (\<forall>j. pos \<le> j \<and> j < i \<longrightarrow> \<not> prefix pat (drop j s))"
  unfolding find_from_def find_upt_Some by (simp add: less_Suc_eq_le)

lemma find_from_None:
  "find_from pat s pos = None \<longleftrightarrow> (\<forall>j. pos \<le> j \<and> j \<le> length s \<longrightarrow> \<not> prefix pat (drop j s))"
  unfolding find_from_def find_upt_None by (auto simp: less_Suc_eq_le)

text \<open>What is found is where the string splits; nothing before it does.\<close>

lemma find_from_split:
  assumes "find_from pat s 0 = Some i"
  obtains post where "s = take i s @ pat @ post" "i + length pat \<le> length s"
proof -
  from assms obtain post where "drop i s = pat @ post" "i \<le> length s"
    unfolding find_from_Some prefix_def by blast
  then have "s = take i s @ pat @ post" by (metis append_take_drop_id)
  moreover from this have "i + length pat \<le> length s"
    using \<open>i \<le> length s\<close> by (metis add_le_cancel_left le_add1 length_append length_take min.absorb2)
  ultimately show thesis using that by blast
qed

section \<open>Padding\<close>

text \<open>\<open>%03d\<close>: at least three characters, zeros after the sign.\<close>

definition pad_zero :: "nat \<Rightarrow> string \<Rightarrow> string" where
  "pad_zero n s = replicate (n - length s) (CHR ''0'') @ s"

definition fmt_03d :: "int \<Rightarrow> string" where
  "fmt_03d i = (if i < 0 then ''-'' @ pad_zero 2 (dec_nat (nat (- i))) else pad_zero 3 (dec_nat (nat i)))"

lemma read_nat_pad_zero: "read_nat (pad_zero n s) = read_nat s"
proof -
  have "foldl (\<lambda>acc c. 10 * acc + read_digit c) 0 (replicate k (CHR ''0'')) = 0" for k
    by (induction k) (simp_all add: read_digit_def)
  then show ?thesis by (simp add: pad_zero_def read_nat_def)
qed

lemma set_pad_zero: "c \<in> set (pad_zero n (dec_nat k)) \<Longrightarrow> is_digit c"
  by (auto simp: pad_zero_def is_digit_def dest: dec_nat_digits)

lemma pad_zero_nonempty [simp]: "pad_zero n (dec_nat k) \<noteq> []"
  by (simp add: pad_zero_def)

lemma fmt_03d_inject: "fmt_03d i = fmt_03d j \<longleftrightarrow> i = j"
proof -
  have neg: "pad_zero n (dec_nat k) \<noteq> CHR ''-'' # s" for n k s
    using set_pad_zero [of _ n k] not_digit_minus by (metis list.set_intros(1))
  have inj: "pad_zero n (dec_nat k) = pad_zero n (dec_nat l) \<Longrightarrow> k = l" for n k l
    by (metis read_nat_pad_zero read_nat_dec_nat)
  show ?thesis
  proof
    assume eq: "fmt_03d i = fmt_03d j"
    show "i = j"
    proof (cases "i < 0"; cases "j < 0")
      assume "i < 0" "j < 0"
      then show ?thesis using eq inj [of 2 "nat (- i)" "nat (- j)"] by (simp add: fmt_03d_def)
    next
      assume "i < 0" "\<not> j < 0"
      then show ?thesis using eq neg [of 3 "nat j"] by (simp add: fmt_03d_def) metis
    next
      assume "\<not> i < 0" "j < 0"
      then show ?thesis using eq neg [of 3 "nat i"] by (simp add: fmt_03d_def)
    next
      assume "\<not> i < 0" "\<not> j < 0"
      then show ?thesis using eq inj [of 3 "nat i" "nat j"] by (simp add: fmt_03d_def)
    qed
  qed simp
qed

section \<open>Bracketed blocks\<close>

text \<open>
  The loop of the sources: it counts opening brackets up and closing ones down and stops
  behind the closing bracket that brings the depth to 0.
\<close>

fun close_off :: "char \<Rightarrow> char \<Rightarrow> string \<Rightarrow> int \<Rightarrow> nat option" where
  "close_off op cl [] d = None"
| "close_off op cl (c # cs) d =
     (if c = op then map_option Suc (close_off op cl cs (d + 1))
      else if c = cl then
        (if d - 1 = 0 then Some 1 else map_option Suc (close_off op cl cs (d - 1)))
      else map_option Suc (close_off op cl cs d))"

definition bracket_depth :: "char \<Rightarrow> char \<Rightarrow> string \<Rightarrow> int" where
  "bracket_depth op cl s = (\<Sum>c\<leftarrow>s. if c = op then 1 else if c = cl then - 1 else 0)"

lemma bracket_depth_simps [simp]:
  "bracket_depth op cl [] = 0"
  "bracket_depth op cl (c # s) = (if c = op then 1 else if c = cl then - 1 else 0) + bracket_depth op cl s"
  "bracket_depth op cl (s @ t) = bracket_depth op cl s + bracket_depth op cl t"
  by (simp_all add: bracket_depth_def)

text \<open>The end found is the first closing bracket behind which the depth is 0.\<close>

lemma close_off_Some:
  assumes "cl \<noteq> op"
  shows "close_off op cl s d = Some n \<longleftrightarrow>
     0 < n \<and> n \<le> length s \<and> s ! (n - 1) = cl \<and> d + bracket_depth op cl (take n s) = 0 \<and>
     (\<forall>m. 0 < m \<and> m < n \<and> s ! (m - 1) = cl \<longrightarrow> d + bracket_depth op cl (take m s) \<noteq> 0)"
  using assms
proof (induction op cl s d arbitrary: n rule: close_off.induct)
  case (2 op cl c cs d)
  define v where "v = (if c = op then 1 else if c = cl then - 1 else (0 :: int))"
  define stop where "stop = (c = cl \<and> d + v = 0)"
  have step: "close_off op cl (c # cs) d = (if stop then Some 1 else map_option Suc (close_off op cl cs (d + v)))"
    using 2(4) by (auto simp: v_def stop_def)
  have depth: "bracket_depth op cl (c # t) = v + bracket_depth op cl t" for t
    by (simp add: v_def)
  have ih: "close_off op cl cs (d + v) = Some k \<longleftrightarrow>
     0 < k \<and> k \<le> length cs \<and> cs ! (k - 1) = cl \<and> d + v + bracket_depth op cl (take k cs) = 0 \<and>
     (\<forall>m. 0 < m \<and> m < k \<and> cs ! (m - 1) = cl \<longrightarrow> d + v + bracket_depth op cl (take m cs) \<noteq> 0)"
    if "\<not> stop" for k
    using 2(1-3) [of k] 2(4) that
    by (cases "c = op"; cases "c = cl") (simp_all add: v_def stop_def)
  have split: "(\<forall>m. 0 < m \<and> m < Suc (Suc k) \<and> (c # cs) ! (m - 1) = cl \<longrightarrow>
        d + bracket_depth op cl (take m (c # cs)) \<noteq> 0) \<longleftrightarrow>
      \<not> stop \<and> (\<forall>m. 0 < m \<and> m < Suc k \<and> cs ! (m - 1) = cl \<longrightarrow> d + v + bracket_depth op cl (take m cs) \<noteq> 0)"
    (is "(\<forall>m. ?A m) \<longleftrightarrow> \<not> stop \<and> (\<forall>m. ?B m)") for k
  proof -
    have "?A (Suc m) \<longleftrightarrow> (if m = 0 then \<not> stop else ?B m)" for m
      using depth [of "[]"] depth [of "take m cs"]
      by (cases m; cases "c = cl") (simp_all add: stop_def depth add.assoc del: bracket_depth_simps(2))
    moreover have "?A 0" "?B 0" by simp_all
    ultimately have "(\<forall>m. ?A m) \<longleftrightarrow> (\<forall>m. if m = 0 then \<not> stop else ?B m)"
      by (metis (full_types) not0_implies_Suc)
    then show ?thesis using \<open>?B 0\<close> by metis
  qed
  show ?case
  proof (cases n)
    case (Suc k)
    show ?thesis
    proof (cases k)
      case 0
      then show ?thesis unfolding step Suc by (auto simp: stop_def ih depth simp del: bracket_depth_simps(2))
    next
      case (Suc l)
      show ?thesis
        unfolding step \<open>n = Suc k\<close> Suc split using ih [of "Suc l"]
        by (cases stop) (simp_all add: depth add.assoc del: bracket_depth_simps(2))
    qed
  qed (simp add: step)
qed auto

end
