(* ===== verification/Scene.thy ===== *)
theory Scene
  imports Strings RuleCore "HOL-Library.Monad_Syntax"
begin

text \<open>
  The input of the rule process: the scene updates that arrive over MQTT
  (\<open>rule_process/src/adapters/event_adapter.cpp\<close>), the extraction of the scene from its
  envelope and the two configuration files (\<open>rule_process/src/main.cpp\<close>).

  The JSON library is not part of the repository. Its values are given by the kinds the
  library documents; parsing, printing and the numeric conversions are fields of
  \<open>json_lib\<close>, arguments of every operation that uses them. A conversion that answers None
  is one that throws.
\<close>

section \<open>JSON values\<close>

datatype json =
    JNull
  | JDiscarded
  | JBool bool
  | JInt int
  | JFloat cfloat
  | JStr string
  | JArr "json list"
  | JObj "(string \<times> json) list"

record json_lib =
  jl_parse :: "string \<Rightarrow> json option"
  jl_dump :: "json \<Rightarrow> string option"
  jl_int :: "json \<Rightarrow> int option"
  jl_u32 :: "json \<Rightarrow> u32 option"
  jl_u64 :: "json \<Rightarrow> u64 option"
  jl_float :: "json \<Rightarrow> cfloat option"
  jl_double :: "json \<Rightarrow> cfloat option"

text \<open>\<open>find\<close> and \<open>contains\<close> answer no on a value that is not an object; \<open>value\<close> throws there.\<close>

definition jfind :: "json \<Rightarrow> string \<Rightarrow> json option" where
  "jfind j k = (case j of JObj kvs \<Rightarrow> map_of kvs k | _ \<Rightarrow> None)"

definition jcontains :: "json \<Rightarrow> string \<Rightarrow> bool" where
  "jcontains j k \<longleftrightarrow> jfind j k \<noteq> None"

definition jvalue :: "(json \<Rightarrow> 'a option) \<Rightarrow> json \<Rightarrow> string \<Rightarrow> 'a \<Rightarrow> 'a option" where
  "jvalue get j k d =
     (case j of JObj kvs \<Rightarrow> (case map_of kvs k of None \<Rightarrow> Some d | Some v \<Rightarrow> get v) | _ \<Rightarrow> None)"

fun get_str :: "json \<Rightarrow> string option" where
  "get_str (JStr s) = Some s"
| "get_str _ = None"

fun get_bool :: "json \<Rightarrow> bool option" where
  "get_bool (JBool b) = Some b"
| "get_bool _ = None"

fun get_vec :: "(json \<Rightarrow> 'a option) \<Rightarrow> json \<Rightarrow> 'a list option" where
  "get_vec get (JArr xs) = those (map get xs)"
| "get_vec get _ = None"

fun is_array :: "json \<Rightarrow> bool" where
  "is_array (JArr _) = True" | "is_array _ = False"

fun is_object :: "json \<Rightarrow> bool" where
  "is_object (JObj _) = True" | "is_object _ = False"

fun is_integer :: "json \<Rightarrow> bool" where
  "is_integer (JInt _) = True" | "is_integer _ = False"

fun is_number :: "json \<Rightarrow> bool" where
  "is_number (JInt _) = True" | "is_number (JFloat _) = True" | "is_number _ = False"

fun elements :: "json \<Rightarrow> json list" where
  "elements (JArr xs) = xs" | "elements _ = []"

section \<open>The scene adapter\<close>

definition format_source_id :: "int \<Rightarrow> string" where
  "format_source_id sid = ''source_'' @ fmt_03d sid"

definition adapt_detection :: "json_lib \<Rightarrow> json \<Rightarrow> detection option" where
  "adapt_detection L evt =
     do { cls \<leftarrow> jvalue get_str evt ''class_name'' ''unknown'';
          track \<leftarrow> jvalue (jl_int L) evt ''track_id'' 0;
          conf \<leftarrow> jvalue (jl_float L) evt ''confidence'' (Fin 1);
          bbox \<leftarrow> (case jfind evt ''bbox'' of
                     Some b \<Rightarrow> if is_array b \<and> length (elements b) = 4 then get_vec (jl_float L) b else Some []
                   | None \<Rightarrow> Some []);
          emb \<leftarrow> (case jfind evt ''embedding'' of
                    Some e \<Rightarrow> if is_array e then get_vec (jl_float L) e else Some []
                  | None \<Rightarrow> Some []);
          Some \<lparr>d_class = cls, d_bbox = bbox, d_track = track, d_conf = conf, d_emb = emb\<rparr> }"

text \<open>A source is skipped (Some None), refused by an exception (None), or adapted.\<close>

definition adapt_source :: "json_lib \<Rightarrow> json \<Rightarrow> event_meta option option" where
  "adapt_source L source =
     (if \<not> is_object source then Some None
      else if jcontains source ''image_path'' \<or> jcontains source ''rgba_path'' then Some None
      else
        case jfind source ''image_meta'' of
          None \<Rightarrow> Some None
        | Some im \<Rightarrow>
            if \<not> is_object im then Some None
            else
              case (jfind im ''slot_index'', jfind im ''width'', jfind im ''height'') of
                (Some js, Some jw, Some jh) \<Rightarrow>
                  do { sid \<leftarrow> jvalue (jl_int L) source ''source_id'' 0;
                       ts \<leftarrow> jvalue (jl_u64 L) source ''timestamp_ns'' 0;
                       slot \<leftarrow> jl_u32 L js;
                       w \<leftarrow> jl_u32 L jw;
                       h \<leftarrow> jl_u32 L jh;
                       ch \<leftarrow> jvalue (jl_u32 L) im ''channels'' 3;
                       removed \<leftarrow> (case jfind source ''removed_track_ids'' of
                                     Some r \<Rightarrow> if is_array r then get_vec (jl_int L) r else Some []
                                   | None \<Rightarrow> Some []);
                       dets \<leftarrow> (case jfind source ''events'' of
                                  Some es \<Rightarrow> if is_array es then those (map (adapt_detection L) (filter is_object (elements es)))
                                             else Some []
                                | None \<Rightarrow> Some []);
                       Some (Some \<lparr>ev_source = format_source_id sid, ev_source_num = sid, ev_ts = ts div 1000,
                         ev_removed = removed, ev_dets = dets, ev_slot = slot, ev_width = w, ev_height = h,
                         ev_channels = ch, ev_ts_ns = ts\<rparr>) }
              | _ \<Rightarrow> Some None)"

definition adapt_scene_update :: "json_lib \<Rightarrow> string \<Rightarrow> event_meta list option" where
  "adapt_scene_update L text =
     (case jl_parse L text of
        None \<Rightarrow> Some []
      | Some j \<Rightarrow>
          do { ty \<leftarrow> jvalue get_str j ''type'' [];
               if ty \<noteq> ''scene_update'' then Some []
               else
                 case jfind j ''sources'' of
                   None \<Rightarrow> Some []
                 | Some ss \<Rightarrow>
                     if \<not> is_array ss then Some []
                     else map_option (\<lambda>ms. map the (filter (\<lambda>m. m \<noteq> None) ms))
                            (those (map (adapt_source L) (elements ss))) })"

section \<open>The scene inside its envelope\<close>

definition scene_head :: string where
  \<open>scene_head = ''{"type":"scene_update"''\<close>

definition inner_payload :: "string \<Rightarrow> string" where
  "inner_payload payload =
     (case find_from scene_head payload 0 of
        None \<Rightarrow> []
      | Some start \<Rightarrow>
          (case close_off (CHR ''{'') (CHR ''}'') (drop start payload) 0 of
             None \<Rightarrow> []
           | Some n \<Rightarrow> take n (drop start payload)))"

section \<open>Configuration files\<close>

record app_config =
  ac_broker :: string
  ac_port :: int
  ac_scene_topic :: string
  ac_done_topic :: string
  ac_relay_path :: string
  ac_rules_path :: string
  ac_debug_jsonl :: string
  ac_log_timing :: bool

definition app_config_default :: app_config where
  "app_config_default =
     \<lparr>ac_broker = [], ac_port = 1883, ac_scene_topic = ''iq9/scene_update'', ac_done_topic = ''iq9/frame_done'',
      ac_relay_path = ''/tmp/iq9_rule_relay.sock'', ac_rules_path = [], ac_debug_jsonl = [], ac_log_timing = False\<rparr>"

text \<open>A string field that is taken over only when it is a string.\<close>

definition str_field :: "json \<Rightarrow> string \<Rightarrow> string \<Rightarrow> string" where
  "str_field j k d = (case jfind j k of Some (JStr s) \<Rightarrow> s | _ \<Rightarrow> d)"

text \<open>
  \<open>what\<close> gives the message of a parse error; the file is None when it cannot be opened. The
  result is None when a conversion throws past the function, else an error or the settings.
\<close>

definition load_app_config ::
  "json_lib \<Rightarrow> (string \<Rightarrow> string) \<Rightarrow> string \<Rightarrow> string option \<Rightarrow> (string + app_config) option" where
  "load_app_config L what path file =
     (case file of
        None \<Rightarrow> Some (Inl (''Cannot open config: '' @ path))
      | Some text \<Rightarrow>
          (case jl_parse L text of
             None \<Rightarrow> Some (Inl (''config JSON: '' @ what text))
           | Some j \<Rightarrow>
               do { c \<leftarrow> (case jfind j ''mqtt'' of
                           None \<Rightarrow> Some app_config_default
                         | Some m \<Rightarrow>
                             do { b \<leftarrow> (case jfind m ''broker_ip'' of None \<Rightarrow> Some [] | Some v \<Rightarrow> get_str v);
                                  p \<leftarrow> (case jfind m ''port'' of None \<Rightarrow> Some 1883 | Some v \<Rightarrow> jl_int L v);
                                  s \<leftarrow> (case jfind m ''scene_update_topic'' of
                                          None \<Rightarrow> Some (ac_scene_topic app_config_default) | Some v \<Rightarrow> get_str v);
                                  d \<leftarrow> (case jfind m ''frame_done_topic'' of
                                          None \<Rightarrow> Some (ac_done_topic app_config_default) | Some v \<Rightarrow> get_str v);
                                  Some (app_config_default\<lparr>ac_broker := b, ac_port := p, ac_scene_topic := s,
                                    ac_done_topic := d\<rparr>) });
                    let c = c\<lparr>ac_relay_path := str_field j ''relay_socket'' (ac_relay_path c)\<rparr>;
                    case jfind j ''rules_config'' of
                      Some (JStr r) \<Rightarrow>
                        Some (Inr (c\<lparr>ac_rules_path := r,
                          ac_debug_jsonl := str_field j ''scene_debug_jsonl'' (ac_debug_jsonl c),
                          ac_log_timing := (case jfind j ''log_scene_timing'' of Some (JBool t) \<Rightarrow> t
                                            | _ \<Rightarrow> ac_log_timing c)\<rparr>))
                    | _ \<Rightarrow> Some (Inl ''rules_config path required'') }))"

text \<open>\<open>static_cast<size_t>\<close> of an int: the value modulo the width of \<open>size_t\<close>.\<close>

definition size_of_int :: "int \<Rightarrow> nat" where
  "size_of_int i = unat (u64_of_int i)"

definition int_field :: "json_lib \<Rightarrow> json \<Rightarrow> string \<Rightarrow> ('a \<Rightarrow> int \<Rightarrow> 'a) \<Rightarrow> 'a \<Rightarrow> 'a option" where
  "int_field L j k upd x =
     (case jfind j k of
        Some v \<Rightarrow> if is_integer v then map_option (upd x) (jl_int L v) else Some x
      | None \<Rightarrow> Some x)"

definition load_alert_params :: "json_lib \<Rightarrow> json \<Rightarrow> alert_params option" where
  "load_alert_params L rt =
     (case jfind rt ''alert_manager'' of
        None \<Rightarrow> Some default_params
      | Some am \<Rightarrow>
          if \<not> is_object am then Some default_params
          else
            do { p \<leftarrow> int_field L am ''cooldown_seconds'' (\<lambda>p i. p\<lparr>ap_cooldown_s := i\<rparr>) default_params;
                 p \<leftarrow> int_field L am ''max_history_size'' (\<lambda>p i. p\<lparr>ap_max := size_of_int i\<rparr>) p;
                 p \<leftarrow> int_field L am ''cleanup_threshold'' (\<lambda>p i. p\<lparr>ap_threshold := size_of_int i\<rparr>) p;
                 case jfind am ''cleanup_ratio'' of
                   Some v \<Rightarrow> if is_number v then map_option (\<lambda>r. p\<lparr>ap_ratio := r\<rparr>) (jl_double L v) else Some p
                 | None \<Rightarrow> Some p })"

text \<open>One entry of \<open>params\<close>: numbers and booleans are numeric parameters, strings are string ones.\<close>

definition load_param :: "json_lib \<Rightarrow> rule_config \<Rightarrow> string \<times> json \<Rightarrow> rule_config option" where
  "load_param L rc kv =
     (case kv of (k, v) \<Rightarrow>
        if is_number v then map_option (\<lambda>x. rc\<lparr>rc_params := om_put k x (rc_params rc)\<rparr>) (jl_float L v)
        else
          case v of
            JBool b \<Rightarrow> Some (rc\<lparr>rc_params := om_put k (if b then Fin 1 else Fin 0) (rc_params rc)\<rparr>)
          | JStr s \<Rightarrow> Some (rc\<lparr>rc_strs := om_put k s (rc_strs rc)\<rparr>)
          | _ \<Rightarrow> Some rc)"

fun load_params :: "json_lib \<Rightarrow> rule_config \<Rightarrow> (string \<times> json) list \<Rightarrow> rule_config option" where
  "load_params L rc [] = Some rc"
| "load_params L rc (kv # kvs) = do { rc \<leftarrow> load_param L rc kv; load_params L rc kvs }"

definition load_rule :: "json_lib \<Rightarrow> json \<Rightarrow> rule_config option option" where
  "load_rule L rule =
     (case (jfind rule ''name'', jfind rule ''priority'', jfind rule ''target_sources'', jfind rule ''target_classes'') of
        (Some jn, Some jp, Some jss, Some jcs) \<Rightarrow>
          do { n \<leftarrow> get_str jn;
               p \<leftarrow> jl_int L jp;
               ss \<leftarrow> get_vec get_str jss;
               cs \<leftarrow> get_vec get_str jcs;
               let rc = \<lparr>rc_name = n, rc_priority = p, rc_sources = ss, rc_classes = cs, rc_params = [], rc_strs = []\<rparr>;
               rc \<leftarrow> (case jfind rule ''params'' of
                       Some (JObj kvs) \<Rightarrow> load_params L rc kvs
                     | _ \<Rightarrow> Some rc);
               Some (Some rc) }
      | _ \<Rightarrow> Some None)"

record engine_config =
  ec_alerts :: alert_params
  ec_rules :: "rule_config list"

definition load_rules_json :: "json_lib \<Rightarrow> string option \<Rightarrow> engine_config option" where
  "load_rules_json L file =
     (case file of
        None \<Rightarrow> Some \<lparr>ec_alerts = default_params, ec_rules = []\<rparr>
      | Some text \<Rightarrow>
          (case jl_parse L text of
             None \<Rightarrow> Some \<lparr>ec_alerts = default_params, ec_rules = []\<rparr>
           | Some rt \<Rightarrow>
               do { am \<leftarrow> load_alert_params L rt;
                    case jfind rt ''rules'' of
                      Some (JArr rules) \<Rightarrow>
                        do { rs \<leftarrow> those (map (load_rule L) rules);
                             Some \<lparr>ec_alerts = am, ec_rules = map the (filter (\<lambda>r. r \<noteq> None) rs)\<rparr> }
                    | _ \<Rightarrow> Some \<lparr>ec_alerts = am, ec_rules = []\<rparr> }))"

section \<open>What the adapter delivers\<close>

lemma those_Some_length: "those xs = Some ys \<Longrightarrow> length ys = length xs"
  by (induction xs arbitrary: ys) (auto split: option.splits)

lemma those_Some_nth: "those xs = Some ys \<Longrightarrow> i < length xs \<Longrightarrow> xs ! i = Some (ys ! i)"
  by (induction xs arbitrary: ys i) (auto simp: nth_Cons split: option.splits nat.splits)

lemma those_Some_set: "those xs = Some ys \<Longrightarrow> y \<in> set ys \<Longrightarrow> Some y \<in> set xs"
  by (metis in_set_conv_nth those_Some_length those_Some_nth)

lemma those_map_Some:
  assumes "those (map f xs) = Some ys" "y \<in> set ys"
  obtains x where "x \<in> set xs" "f x = Some y"
proof -
  from those_Some_set [OF assms] obtain x where "x \<in> set xs" "Some y = f x"
    by (auto simp: image_iff)
  then show thesis using that by simp
qed

lemma get_vec_length: "is_array j \<Longrightarrow> get_vec get j = Some xs \<Longrightarrow> length xs = length (elements j)"
  by (cases j) (auto dest: those_Some_length)

definition detection_ok :: "detection \<Rightarrow> bool" where
  "detection_ok d \<longleftrightarrow> length (d_bbox d) = 0 \<or> length (d_bbox d) = 4"

definition event_ok :: "event_meta \<Rightarrow> bool" where
  "event_ok m \<longleftrightarrow> ev_source m = format_source_id (ev_source_num m) \<and> ev_ts m = ev_ts_ns m div 1000 \<and>
     (\<forall>d \<in> set (ev_dets m). detection_ok d)"

lemma adapt_detection_ok:
  assumes "adapt_detection L evt = Some d"
  shows "detection_ok d"
proof -
  from assms obtain bbox where
    "(case jfind evt ''bbox'' of
        Some b \<Rightarrow> if is_array b \<and> length (elements b) = 4 then get_vec (jl_float L) b else Some []
      | None \<Rightarrow> Some []) = Some bbox" "d_bbox d = bbox"
    by (auto simp: adapt_detection_def bind_eq_Some_conv)
  then show ?thesis
    by (auto simp: detection_ok_def get_vec_length split: option.splits if_splits)
qed

lemma adapt_source_ok:
  assumes "adapt_source L source = Some (Some m)"
  shows "event_ok m"
proof -
  from assms obtain dets where
    "(case jfind source ''events'' of
        Some es \<Rightarrow> if is_array es then those (map (adapt_detection L) (filter is_object (elements es))) else Some []
      | None \<Rightarrow> Some []) = Some dets"
    and m: "ev_dets m = dets" "ev_source m = format_source_id (ev_source_num m)" "ev_ts m = ev_ts_ns m div 1000"
    by (auto simp: adapt_source_def bind_eq_Some_conv split: if_splits option.splits)
  then have "\<forall>d \<in> set dets. detection_ok d"
    by (auto split: option.splits if_splits elim!: those_map_Some intro: adapt_detection_ok)
  with m show ?thesis by (simp add: event_ok_def)
qed

lemma format_source_id_inject: "format_source_id i = format_source_id j \<longleftrightarrow> i = j"
  by (simp add: format_source_id_def fmt_03d_inject)

lemma adapt_scene_update_ok:
  assumes "adapt_scene_update L text = Some ms" "m \<in> set ms"
  shows "event_ok m"
proof -
  from assms obtain ss zs where "those (map (adapt_source L) ss) = Some zs" "Some m \<in> set zs"
    by (fastforce simp: adapt_scene_update_def bind_eq_Some_conv split: option.splits if_splits)
  then obtain x where "adapt_source L x = Some (Some m)"
    by (metis those_map_Some)
  then show ?thesis by (rule adapt_source_ok)
qed

definition example_lib :: json_lib where
  "example_lib = \<lparr>
     jl_parse = (\<lambda>s. if s = ''S'' then
        Some (JObj [(''sources'', JArr [JNull,
            JObj [(''image_meta'', JObj [(''height'', JInt 4), (''slot_index'', JInt 1), (''width'', JInt 8)]),
              (''events'', JArr [JObj [(''bbox'', JArr [JInt 1, JInt 2, JInt 3, JInt 4])], JObj [(''bbox'', JArr [JInt 1])]]),
              (''source_id'', JInt 7), (''timestamp_ns'', JInt 5000)]]),
          (''type'', JStr ''scene_update'')])
        else None),
     jl_dump = (\<lambda>_. Some ''{}''),
     jl_int = (\<lambda>j. case j of JInt i \<Rightarrow> Some i | _ \<Rightarrow> None),
     jl_u32 = (\<lambda>j. case j of JInt i \<Rightarrow> Some (u32_of_int i) | _ \<Rightarrow> None),
     jl_u64 = (\<lambda>j. case j of JInt i \<Rightarrow> Some (u64_of_int i) | _ \<Rightarrow> None),
     jl_float = (\<lambda>j. case j of JInt i \<Rightarrow> Some (Fin (of_int i)) | _ \<Rightarrow> None),
     jl_double = (\<lambda>j. case j of JInt i \<Rightarrow> Some (Fin (of_int i)) | _ \<Rightarrow> None)\<rparr>"

text \<open>
  C10: What adaptSceneUpdate delivers is well formed: the source's name is the padded number,
  the time in microseconds is the nanosecond time divided by 1000, every box is absent or has
  exactly four coordinates; and two delivered sources have the same name exactly when they
  have the same number (the names key the rules and the alert history).
\<close>

theorem scene_adapter_wf:
  assumes "adapt_scene_update L text = Some ms"
  shows "(\<forall>m \<in> set ms. event_ok m) \<and>
    (\<forall>m \<in> set ms. \<forall>m' \<in> set ms. ev_source m = ev_source m' \<longleftrightarrow> ev_source_num m = ev_source_num m')"
  using adapt_scene_update_ok [OF assms] by (auto simp: event_ok_def format_source_id_inject)

theorem scene_adapter_wf_witness:
  "\<exists>m. adapt_scene_update example_lib ''S'' = Some [m] \<and> event_ok m \<and> ev_slot m = 1 \<and> ev_ts m = 5 \<and>
     ev_source m = ''source_007'' \<and> map (length \<circ> d_bbox) (ev_dets m) = [4, 0]"
proof -
  have "adapt_scene_update example_lib ''S'' \<noteq> None" by code_simp
  then obtain ms where ms: "adapt_scene_update example_lib ''S'' = Some ms" by auto
  have "length (the (adapt_scene_update example_lib ''S'')) = 1 \<and>
     (let m = hd (the (adapt_scene_update example_lib ''S'')) in ev_slot m = 1 \<and> ev_ts m = 5 \<and>
     ev_source m = ''source_007'' \<and> map (length \<circ> d_bbox) (ev_dets m) = [4, 0])"
    by code_simp
  with ms obtain m where "ms = [m]" "ev_slot m = 1 \<and> ev_ts m = 5 \<and>
     ev_source m = ''source_007'' \<and> map (length \<circ> d_bbox) (ev_dets m) = [4, 0]"
    by (cases ms) (auto simp: Let_def)
  with ms scene_adapter_wf [OF ms] show ?thesis by auto
qed

section \<open>What the extraction finds\<close>

text \<open>A block of braces: it ends with the first closing brace that balances it.\<close>

definition brace_block :: "string \<Rightarrow> bool" where
  "brace_block b \<longleftrightarrow>
     b \<noteq> [] \<and> last b = CHR ''}'' \<and> bracket_depth (CHR ''{'') (CHR ''}'') b = 0 \<and>
     (\<forall>m. 0 < m \<and> m < length b \<and> b ! (m - 1) = CHR ''}'' \<longrightarrow>
        bracket_depth (CHR ''{'') (CHR ''}'') (take m b) \<noteq> 0)"

lemma close_off_block:
  "close_off (CHR ''{'') (CHR ''}'') s 0 = Some n \<longleftrightarrow> n \<le> length s \<and> brace_block (take n s)"
proof (cases "0 < n \<and> n \<le> length s")
  case True
  then have "s \<noteq> []" by auto
  with True have "take n s \<noteq> []" "last (take n s) = s ! (n - 1)" "length (take n s) = n"
    by (simp_all add: last_conv_nth min.absorb2)
  moreover have "(\<forall>m. 0 < m \<and> m < n \<and> s ! (m - 1) = CHR ''}'' \<longrightarrow>
        bracket_depth (CHR ''{'') (CHR ''}'') (take m s) \<noteq> 0) \<longleftrightarrow>
      (\<forall>m. 0 < m \<and> m < n \<and> take n s ! (m - 1) = CHR ''}'' \<longrightarrow>
        bracket_depth (CHR ''{'') (CHR ''}'') (take m (take n s)) \<noteq> 0)"
    by (simp add: min.absorb1 less_imp_le cong: conj_cong imp_cong)
  ultimately show ?thesis using True by (simp add: close_off_Some brace_block_def)
next
  case False
  then show ?thesis by (auto simp: close_off_Some brace_block_def)
qed

text \<open>
  The scene update is cut out of its envelope exactly: the result is the text b when the
  payload is p followed by b and anything else, the head of a scene update stands at the
  start of b and nowhere before, and b is a block whose braces balance for the first time
  at its last character. In every other case the result is empty and the payload itself is
  parsed.
\<close>

theorem inner_payload_exact:
  "inner_payload payload = b \<and> b \<noteq> [] \<longleftrightarrow>
   (\<exists>p q. payload = p @ b @ q \<and> find_from scene_head payload 0 = Some (length p) \<and> brace_block b)"
proof
  assume "inner_payload payload = b \<and> b \<noteq> []"
  then obtain i n where i: "find_from scene_head payload 0 = Some i"
    and n: "close_off (CHR ''{'') (CHR ''}'') (drop i payload) 0 = Some n" and b: "b = take n (drop i payload)"
    by (auto simp: inner_payload_def split: option.splits)
  have "payload = take i payload @ b @ drop n (drop i payload)"
    unfolding b by (simp only: append_take_drop_id)
  moreover have "length (take i payload) = i" using i by (simp add: find_from_Some)
  moreover have "brace_block b" using n unfolding b close_off_block by blast
  ultimately show "\<exists>p q. payload = p @ b @ q \<and> find_from scene_head payload 0 = Some (length p) \<and> brace_block b"
    using i by metis
next
  assume "\<exists>p q. payload = p @ b @ q \<and> find_from scene_head payload 0 = Some (length p) \<and> brace_block b"
  then obtain p q where pq: "payload = p @ b @ q" "find_from scene_head payload 0 = Some (length p)"
    "brace_block b" by blast
  then have "close_off (CHR ''{'') (CHR ''}'') (drop (length p) payload) 0 = Some (length b)"
    by (simp add: close_off_block)
  with pq show "inner_payload payload = b \<and> b \<noteq> []"
    by (simp add: inner_payload_def brace_block_def)
qed

end
