(* ===== verification/Relay.thy ===== *)
theory Relay
  imports Scene Uds
begin

text \<open>
  The rule process (\<open>rule_process/src/main.cpp\<close>): one scene update in, the alerted frames out
  over the relay socket as \<open>[meta_len][meta_json][packet]\<close>, and the other frames given back in
  one \<open>frame_done\<close> message. The state is the rule engine, the relay descriptor, and what has
  been written so far.
\<close>

section \<open>Model\<close>

text \<open>
  \<open>std::min_element\<close> with the priority comparison: the first alert of smallest priority.
\<close>

fun min_alert :: "alert \<Rightarrow> alert list \<Rightarrow> alert" where
  "min_alert best [] = best"
| "min_alert best (a # as) = min_alert (if al_priority a < al_priority best then a else best) as"

definition select_alert :: "alert list \<Rightarrow> alert" where
  "select_alert alerts = min_alert (hd alerts) (tl alerts)"

record relay =
  rl_engine :: engine
  rl_fd :: int
  rl_out :: "(int \<times> bool \<times> u8 list) list"
  rl_os :: "os_event list"

text \<open>
  What the system answers while one source is handled: the flag of the main thread (None when
  the caller passes no flag), the new socket, \<open>connect\<close>, and the answers of \<open>send\<close> in the three
  \<open>sendAll\<close> calls.
\<close>

record relay_env =
  rv_ready :: "bool option"
  rv_socket :: int
  rv_connect :: "string \<Rightarrow> int"
  rv_ans :: "nat \<Rightarrow> nat \<Rightarrow> int"

definition relay_packet :: "event_meta \<Rightarrow> task_packet" where
  "relay_packet meta =
     \<lparr>tp_magic = IQ9_TASK_MAGIC, tp_slot_index = ev_slot meta, tp_width = ev_width meta,
      tp_height = ev_height meta, tp_channels = ev_channels meta,
      tp_data_type = pixel_format_u32 PIXEL_FMT_RGB24, tp_timestamp_ns = ev_ts_ns meta\<rparr>"

text \<open>Objects print their keys in order, so they are written in that order here.\<close>

definition relay_meta_json :: "alert \<Rightarrow> event_meta \<Rightarrow> json" where
  "relay_meta_json chosen meta =
     JObj [(''detections'', JArr (map (\<lambda>d. JObj [(''class'', JStr (d_class d)),
              (''confidence'', JFloat (d_conf d)), (''track_id'', JInt (d_track d))]) (ev_dets meta))),
           (''rule'', JStr (al_rule chosen)),
           (''source_id'', JInt (int_of_u32 (ev_slot meta)))]"

definition string_bytes :: "string \<Rightarrow> u8 list" where
  "string_bytes s = map of_char s"

definition ensure_relay :: "string \<Rightarrow> relay_env \<Rightarrow> relay \<Rightarrow> bool \<times> relay" where
  "ensure_relay path env st =
     (if rl_fd st \<ge> 0 then (True, st)
      else if rv_ready env = Some False then (False, st)
      else
        case connect_uds (rv_connect env) (rv_socket env) path of
          (None, evs) \<Rightarrow> (False, st\<lparr>rl_os := rl_os st @ evs\<rparr>)
        | (Some fd, evs) \<Rightarrow> (True, st\<lparr>rl_fd := fd, rl_os := rl_os st @ evs\<rparr>))"

text \<open>The three \<open>sendAll\<close> calls with the short-circuit of the condition; what left is recorded.\<close>

definition send_relay :: "(nat \<Rightarrow> nat \<Rightarrow> int) \<Rightarrow> string \<Rightarrow> task_packet \<Rightarrow> bool \<times> u8 list" where
  "send_relay ans meta_str pkt =
     (let meta_len = (of_nat (length meta_str) :: u32);
          (ok1, b1) = send_all (ans 0) 0 (enc_u32 meta_len)
      in if \<not> ok1 then (False, b1)
         else
           let (ok2, b2) = send_all (ans 1) 0 (string_bytes meta_str)
           in if \<not> ok2 then (False, b1 @ b2)
              else
                let (ok3, b3) = send_all (ans 2) 0 (task_packet_bytes pkt)
                in (ok3, b1 @ b2 @ b3))"

text \<open>One source of the scene: whether it was relayed, or None when printing throws.\<close>

definition relay_meta ::
  "json_lib \<Rightarrow> (alert list \<Rightarrow> alert list) \<Rightarrow> ((u64 \<times> string) list \<Rightarrow> (u64 \<times> string) list) \<Rightarrow>
     string \<Rightarrow> relay_env \<Rightarrow> event_meta \<Rightarrow> relay \<Rightarrow> bool option \<times> relay" where
  "relay_meta L sa se path env meta st =
     (let (alerts, en) = process_event sa se meta (rl_engine st);
          st = st\<lparr>rl_engine := en\<rparr>
      in if alerts = [] then (Some False, st)
         else
           let chosen = select_alert alerts;
               (ready, st) = ensure_relay path env st
           in if \<not> ready then (Some False, st)
              else
                case jl_dump L (relay_meta_json chosen meta) of
                  None \<Rightarrow> (None, st)
                | Some meta_str \<Rightarrow>
                    let (ok, bs) = send_relay (rv_ans env) meta_str (relay_packet meta);
                        st = st\<lparr>rl_out := rl_out st @ [(rl_fd st, ok, bs)]\<rparr>
                    in if ok then (Some True, st)
                       else (Some False, st\<lparr>rl_os := rl_os st @ [Close (rl_fd st)], rl_fd := - 1\<rparr>))"

text \<open>The loop over the sources collects the numbers of the relayed ones.\<close>

fun relay_loop ::
  "json_lib \<Rightarrow> (alert list \<Rightarrow> alert list) \<Rightarrow> ((u64 \<times> string) list \<Rightarrow> (u64 \<times> string) list) \<Rightarrow>
     string \<Rightarrow> (nat \<Rightarrow> relay_env) \<Rightarrow> nat \<Rightarrow> event_meta list \<Rightarrow> int set \<Rightarrow> relay \<Rightarrow> int set option \<times> relay" where
  "relay_loop L sa se path envs i [] vqa st = (Some vqa, st)"
| "relay_loop L sa se path envs i (meta # metas) vqa st =
     (case relay_meta L sa se path (envs i) meta st of
        (None, st') \<Rightarrow> (None, st')
      | (Some sent, st') \<Rightarrow>
          relay_loop L sa se path envs (Suc i) metas (if sent then insert (ev_source_num meta) vqa else vqa) st')"

text \<open>
  \<open>processScenePayload\<close>: None when an exception leaves it, Some None when it answers false,
  else the relayed sources and the sources of the scene.
\<close>

definition scene_text :: "string \<Rightarrow> string" where
  "scene_text payload = (if inner_payload payload = [] then payload else inner_payload payload)"

definition process_scene_payload ::
  "json_lib \<Rightarrow> (alert list \<Rightarrow> alert list) \<Rightarrow> ((u64 \<times> string) list \<Rightarrow> (u64 \<times> string) list) \<Rightarrow>
     string \<Rightarrow> (nat \<Rightarrow> relay_env) \<Rightarrow> string \<Rightarrow> relay \<Rightarrow> (int set \<times> event_meta list) option option \<times> relay" where
  "process_scene_payload L sa se path envs payload st =
     (case jl_parse L (scene_text payload) of
        None \<Rightarrow> (Some None, st)
      | Some rt \<Rightarrow>
          (case jvalue get_str rt ''type'' [] of
             None \<Rightarrow> (None, st)
           | Some ty \<Rightarrow>
               if ty \<noteq> ''scene_update'' then (Some None, st)
               else
                 case adapt_scene_update L (scene_text payload) of
                   None \<Rightarrow> (None, st)
                 | Some metas \<Rightarrow>
                     if metas = [] then (Some None, st)
                     else
                       case relay_loop L sa se path envs 0 metas {} st of
                         (None, st') \<Rightarrow> (None, st')
                       | (Some vqa, st') \<Rightarrow> (Some (Some (vqa, metas)), st')))"

definition release_entries :: "int set \<Rightarrow> event_meta list \<Rightarrow> (u32 \<times> int) list" where
  "release_entries vqa metas =
     map (\<lambda>m. (ev_slot m, ev_source_num m)) (filter (\<lambda>m. ev_source_num m \<notin> vqa) metas)"

definition frame_done_json :: "(u32 \<times> int) list \<Rightarrow> json" where
  "frame_done_json es =
     JObj [(''release_entries'',
             JArr (map (\<lambda>(slot, src). JObj [(''slot_index'', JInt (int (unat slot))), (''source_id'', JInt src)]) es)),
           (''type'', JStr ''frame_done'')]"

text \<open>
  The message handler: the entries it asks the producer to release and the message handed to
  the publisher; None when nothing is published. Exceptions end in the subscriber's handler.
\<close>

definition on_scene ::
  "json_lib \<Rightarrow> (alert list \<Rightarrow> alert list) \<Rightarrow> ((u64 \<times> string) list \<Rightarrow> (u64 \<times> string) list) \<Rightarrow>
     string \<Rightarrow> (nat \<Rightarrow> relay_env) \<Rightarrow> string \<Rightarrow> relay \<Rightarrow> ((u32 \<times> int) list \<times> json) option \<times> relay" where
  "on_scene L sa se path envs payload st =
     (case process_scene_payload L sa se path envs payload st of
        (Some (Some (vqa, metas)), st') \<Rightarrow>
          (let es = release_entries vqa metas in (Some (es, frame_done_json es), st'))
      | (_, st') \<Rightarrow> (None, st'))"

section \<open>Selecting the alert\<close>

lemma min_alert_in: "min_alert b as \<in> insert b (set as)"
proof (induction as arbitrary: b)
  case (Cons a as)
  show ?case using Cons [of a] Cons [of b] by auto
qed simp

lemma min_alert_le: "\<forall>a \<in> insert b (set as). al_priority (min_alert b as) \<le> al_priority a"
proof (induction as arbitrary: b)
  case (Cons a as)
  show ?case using Cons [of a] Cons [of b] by auto
qed simp

lemma select_alert_min:
  assumes "alerts \<noteq> []"
  shows "select_alert alerts \<in> set alerts" "\<forall>a \<in> set alerts. al_priority (select_alert alerts) \<le> al_priority a"
  using assms min_alert_in [of "hd alerts" "tl alerts"] min_alert_le [of "hd alerts" "tl alerts"]
  by (cases alerts; simp add: select_alert_def)+

section \<open>What one source does\<close>

definition frame_bytes :: "string \<Rightarrow> task_packet \<Rightarrow> u8 list" where
  "frame_bytes meta_str pkt =
     enc_u32 (of_nat (length meta_str)) @ string_bytes meta_str @ task_packet_bytes pkt"

lemma send_relay_ok: "send_relay ans s pkt = (True, bs) \<Longrightarrow> bs = frame_bytes s pkt"
  by (auto simp: send_relay_def frame_bytes_def Let_def split: prod.splits if_splits dest!: send_all_ok)

lemma send_relay_progress: "\<forall>i k. 0 < ans i k \<Longrightarrow> send_relay ans s pkt = (True, frame_bytes s pkt)"
  by (simp add: send_relay_def frame_bytes_def Let_def send_all_progress)

text \<open>The frames that went out whole.\<close>

definition whole_frames :: "(int \<times> bool \<times> u8 list) list \<Rightarrow> u8 list list" where
  "whole_frames out = map (\<lambda>(_, _, bs). bs) (filter (\<lambda>(_, ok, _). ok) out)"

definition frame_slot :: "u8 list \<Rightarrow> u32" where
  "frame_slot bs = tp_slot_index (task_packet_of_bytes (drop (length bs - 32) bs))"

lemma frame_slot_frame_bytes: "frame_slot (frame_bytes s pkt) = tp_slot_index pkt"
proof -
  have "length (task_packet_bytes pkt) = 32" by (rule c_task.length_enc)
  then have "drop (length (frame_bytes s pkt) - 32) (frame_bytes s pkt) = task_packet_bytes pkt"
    by (simp add: frame_bytes_def)
  then show ?thesis by (simp add: frame_slot_def c_task.dec_enc)
qed

lemma ensure_relay_out [simp]: "rl_out (snd (ensure_relay path env st)) = rl_out st"
  by (auto simp: ensure_relay_def split: prod.splits option.splits)

lemma relay_meta_cases:
  assumes "relay_meta L sa se path env meta st = (Some sent, st')"
  shows "\<exists>more. rl_out st' = rl_out st @ more \<and>
    (if sent then \<exists>fd s. more = [(fd, True, frame_bytes s (relay_packet meta))] else whole_frames more = [])"
proof -
  obtain alerts en where pe: "process_event sa se meta (rl_engine st) = (alerts, en)" by force
  obtain ready st1 where er: "ensure_relay path env (st\<lparr>rl_engine := en\<rparr>) = (ready, st1)" by force
  have out: "rl_out st1 = rl_out st"
    using ensure_relay_out [of path env "st\<lparr>rl_engine := en\<rparr>"] er by simp
  show ?thesis
  proof (cases "alerts = [] \<or> \<not> ready")
    case True
    then show ?thesis
      using assms pe er out by (auto simp: relay_meta_def whole_frames_def Let_def split: if_splits)
  next
    case False
    then obtain s where s: "jl_dump L (relay_meta_json (select_alert alerts) meta) = Some s"
      using assms pe er by (auto simp: relay_meta_def Let_def split: option.splits)
    obtain ok bs where sr: "send_relay (rv_ans env) s (relay_packet meta) = (ok, bs)" by force
    have st': "sent = ok" "rl_out st' = rl_out st @ [(rl_fd st1, ok, bs)]"
      using False assms pe er s sr out by (auto simp: relay_meta_def Let_def split: if_splits)
    then show ?thesis
      using sr by (auto simp: whole_frames_def dest!: send_relay_ok)
  qed
qed

lemma whole_frames_append: "whole_frames (xs @ ys) = whole_frames xs @ whole_frames ys"
  by (simp add: whole_frames_def)

text \<open>The loop: which sources were sent, in order.\<close>

lemma relay_loop_flags:
  assumes "relay_loop L sa se path envs i metas vqa st = (Some vqa', st')"
  shows "\<exists>flags more. length flags = length metas \<and> rl_out st' = rl_out st @ more \<and>
    map frame_slot (whole_frames more) = map (ev_slot \<circ> fst) (filter snd (zip metas flags)) \<and>
    vqa' = vqa \<union> (ev_source_num \<circ> fst) ` set (filter snd (zip metas flags))"
  using assms
proof (induction L sa se path envs i metas vqa st rule: relay_loop.induct)
  case (1 L sa se path envs i vqa st)
  then show ?case by (auto intro: exI [of _ "[]"] simp: whole_frames_def)
next
  case (2 L sa se path envs i meta metas vqa st)
  obtain sent st1 where rm: "relay_meta L sa se path (envs i) meta st = (Some sent, st1)"
    using 2(2) by (auto split: prod.splits option.splits)
  obtain m1 where m1: "rl_out st1 = rl_out st @ m1"
    "if sent then \<exists>fd s. m1 = [(fd, True, frame_bytes s (relay_packet meta))] else whole_frames m1 = []"
    using relay_meta_cases [OF rm] by blast
  from 2(2) rm have rest: "relay_loop L sa se path envs (Suc i) metas
      (if sent then insert (ev_source_num meta) vqa else vqa) st1 = (Some vqa', st')" by simp
  from 2(1) [OF rm [symmetric] refl rest] obtain flags m2 where fm: "length flags = length metas"
    "rl_out st' = rl_out st1 @ m2"
    "map frame_slot (whole_frames m2) = map (ev_slot \<circ> fst) (filter snd (zip metas flags))"
    "vqa' = (if sent then insert (ev_source_num meta) vqa else vqa) \<union>
       (ev_source_num \<circ> fst) ` set (filter snd (zip metas flags))"
    by blast
  have "map frame_slot (whole_frames m1) = (if sent then [ev_slot meta] else [])"
    using m1(2) by (auto simp: whole_frames_def frame_slot_frame_bytes relay_packet_def split: if_splits)
  with fm m1(1) show ?case
    by (intro exI [of _ "sent # flags"] exI [of _ "m1 @ m2"]) (auto simp: whole_frames_append)
qed

lemma zip_filter_split:
  "length fs = length xs \<Longrightarrow>
     mset (map (f \<circ> fst) (filter snd (zip xs fs))) + mset (map (f \<circ> fst) (filter (\<lambda>p. \<not> snd p) (zip xs fs))) =
     mset (map f xs)"
  by (induction fs xs rule: list_induct2) auto

lemma unsent_release:
  assumes "length flags = length metas" "distinct (map ev_source_num metas)"
  shows "map fst (release_entries ((ev_source_num \<circ> fst) ` set (filter snd (zip metas flags))) metas) =
    map (ev_slot \<circ> fst) (filter (\<lambda>p. \<not> snd p) (zip metas flags))"
proof -
  let ?V = "(ev_source_num \<circ> fst) ` set (filter snd (zip metas flags))"
  have key: "ev_source_num m \<in> ?V \<longleftrightarrow> b" if "(m, b) \<in> set (zip metas flags)" for m b
  proof
    assume "ev_source_num m \<in> ?V"
    then obtain m' where m': "(m', True) \<in> set (zip metas flags)" "ev_source_num m' = ev_source_num m"
      by auto
    from m'(1) obtain k where "k < length metas" "metas ! k = m'" "flags ! k"
      by (auto simp: set_zip)
    moreover from that obtain j where "j < length metas" "metas ! j = m" "flags ! j = b"
      by (auto simp: set_zip)
    moreover note assms(2) m'(2)
    ultimately show b by (auto simp: distinct_conv_nth)
  next
    assume b
    with that show "ev_source_num m \<in> ?V" by force
  qed
  have "map fst (zip metas flags) = metas" using assms(1) by simp
  then have "map ev_slot (filter (\<lambda>m. ev_source_num m \<notin> ?V) metas) =
      map ev_slot (filter (\<lambda>m. ev_source_num m \<notin> ?V) (map fst (zip metas flags)))" by simp
  also have "\<dots> = map (ev_slot \<circ> fst) (filter (\<lambda>p. ev_source_num (fst p) \<notin> ?V) (zip metas flags))"
    by (simp add: filter_map comp_def)
  also have "filter (\<lambda>p. ev_source_num (fst p) \<notin> ?V) (zip metas flags) = filter (\<lambda>p. \<not> snd p) (zip metas flags)"
  proof (rule filter_cong [OF refl])
    fix p assume "p \<in> set (zip metas flags)"
    then show "(ev_source_num (fst p) \<notin> ?V) = (\<not> snd p)" using key [of "fst p" "snd p"] by simp
  qed
  finally show ?thesis by (simp add: release_entries_def comp_def)
qed

section \<open>Every frame of a scene is accounted for\<close>

lemma on_scene_cases:
  assumes "on_scene L sa se path envs payload st = (Some (es, msg), st')"
    and "adapt_scene_update L (scene_text payload) = Some metas"
  shows "\<exists>vqa. relay_loop L sa se path envs 0 metas {} st = (Some vqa, st') \<and>
    es = release_entries vqa metas \<and> msg = frame_done_json es"
  using assms
  by (auto simp: on_scene_def process_scene_payload_def Let_def split: prod.splits option.splits if_splits)

definition example_scene_lib :: json_lib where
  "example_scene_lib = example_lib\<lparr>jl_parse := (\<lambda>s.
     let box = JArr [JInt 1, JInt 1, JInt 3, JInt 3];
         meta = (\<lambda>i. JObj [(''height'', JInt 4), (''slot_index'', JInt i), (''width'', JInt 8)]);
         evs = JArr [JObj [(''bbox'', box), (''class_name'', JStr ''a'')], JObj [(''bbox'', box), (''class_name'', JStr ''b'')]]
     in Some (JObj [(''sources'', JArr [
          JObj [(''events'', evs), (''image_meta'', meta 2), (''source_id'', JInt 0), (''timestamp_ns'', JInt 5000)],
          JObj [(''image_meta'', meta 3), (''source_id'', JInt 1), (''timestamp_ns'', JInt 5000)]]),
        (''type'', JStr ''scene_update'')]))\<rparr>"

definition example_relay :: relay where
  "example_relay = \<lparr>rl_engine = engine_new (\<lambda>_. CannotOpen)
     [\<lparr>rc_name = ''DoorCollisionRule'', rc_priority = 1, rc_sources = [''source_000''], rc_classes = [''a'', ''b''],
       rc_params = [(''h_expand'', Fin 0), (''iou_threshold'', Fin (1/2)), (''use_danger_zone'', Fin 0), (''v_expand'', Fin 0)],
       rc_strs = []\<rparr>] (default_params\<lparr>ap_max := 0, ap_threshold := 0\<rparr>),
     rl_fd = 5, rl_out = [], rl_os = []\<rparr>"

definition example_relay_env :: "nat \<Rightarrow> relay_env" where
  "example_relay_env i = \<lparr>rv_ready = Some True, rv_socket = 5, rv_connect = (\<lambda>_. 0), rv_ans = (\<lambda>_ _. 100)\<rparr>"

text \<open>When printing never throws, the loop reaches its end.\<close>

lemma relay_loop_total:
  assumes "\<forall>j. jl_dump L j \<noteq> None"
  shows "\<exists>vqa' st'. relay_loop L sa se path envs i metas vqa st = (Some vqa', st')"
proof (induction metas arbitrary: i vqa st)
  case (Cons meta metas)
  have "fst (relay_meta L sa se path (envs i) meta st) \<noteq> None"
    by (auto simp: relay_meta_def Let_def assms [rule_format] simp del: not_None_eq
        split: prod.splits option.splits)
  then obtain sent st1 where "relay_meta L sa se path (envs i) meta st = (Some sent, st1)"
    by (metis not_Some_eq prod.collapse)
  then show ?case using Cons by simp
qed simp

lemma scene_slots_balance:
  assumes "on_scene L sa se path envs payload st = (Some (es, msg), st')"
    and "adapt_scene_update L (scene_text payload) = Some metas"
    and "distinct (map ev_source_num metas)"
  shows "\<exists>more. rl_out st' = rl_out st @ more \<and> msg = frame_done_json es \<and>
    mset (map frame_slot (whole_frames more)) + mset (map fst es) = mset (map ev_slot metas)"
proof -
  obtain vqa where vqa: "relay_loop L sa se path envs 0 metas {} st = (Some vqa, st')"
    "es = release_entries vqa metas" "msg = frame_done_json es"
    using on_scene_cases [OF assms(1,2)] by blast
  then obtain flags more where fm: "length flags = length metas" "rl_out st' = rl_out st @ more"
    "map frame_slot (whole_frames more) = map (ev_slot \<circ> fst) (filter snd (zip metas flags))"
    "vqa = (ev_source_num \<circ> fst) ` set (filter snd (zip metas flags))"
    using relay_loop_flags by fastforce
  then have "map fst es = map (ev_slot \<circ> fst) (filter (\<lambda>p. \<not> snd p) (zip metas flags))"
    unfolding vqa(2) using unsent_release [OF fm(1) assms(3)] by simp
  with fm vqa(3) zip_filter_split [OF fm(1), of ev_slot] show ?thesis by metis
qed

text \<open>
  C11: Every frame of a scene is accounted for exactly once: when the sources of a scene
  have different numbers and the handler gets to its end, the slots of the frames written
  whole to the relay together with the slots named in frame_done are exactly the slots of
  the scene, none lost and none in both, whatever the rules decide and however connecting
  and sending fails.
\<close>

theorem scene_slots_accounted:
  assumes "on_scene L sa se path envs payload st = (Some (es, msg), st')"
    and "adapt_scene_update L (scene_text payload) = Some metas"
    and "distinct (map ev_source_num metas)"
  shows "\<exists>more. rl_out st' = rl_out st @ more \<and> msg = frame_done_json es \<and>
    mset (map frame_slot (whole_frames more)) + mset (map fst es) = mset (map ev_slot metas)"
  using assms by (rule scene_slots_balance)

theorem scene_slots_accounted_witness:
  "\<exists>es msg st'. on_scene example_scene_lib (sort_key al_priority) (sort_key fst) [] example_relay_env
      ''S'' example_relay = (Some (es, msg), st') \<and>
     mset (map frame_slot (whole_frames (rl_out st'))) + mset (map fst es) = {#2, 3#}"
proof -
  let ?m = "the (adapt_scene_update example_scene_lib (scene_text ''S''))"
  have some: "adapt_scene_update example_scene_lib (scene_text ''S'') \<noteq> None"
    and facts: "map ev_source_num ?m = [0, 1] \<and> map ev_slot ?m = [2, 3]"
    by code_simp+
  then obtain metas where metas: "adapt_scene_update example_scene_lib (scene_text ''S'') = Some metas"
    "map ev_source_num metas = [0, 1]" "map ev_slot metas = [2, 3]" by auto
  have dump: "\<forall>j. jl_dump example_scene_lib j \<noteq> None"
    by (simp add: example_scene_lib_def example_lib_def)
  obtain vqa st' where loop: "relay_loop example_scene_lib (sort_key al_priority) (sort_key fst) []
      example_relay_env 0 metas {} example_relay = (Some vqa, st')"
    using relay_loop_total [OF dump] by blast
  obtain rt where rt: "jl_parse example_scene_lib (scene_text ''S'') = Some rt"
    "jvalue get_str rt ''type'' [] = Some ''scene_update''"
    by (simp add: example_scene_lib_def Let_def jvalue_def)
  have "metas \<noteq> []" using metas(2) by auto
  with metas(1) loop rt have scene: "on_scene example_scene_lib (sort_key al_priority) (sort_key fst) []
      example_relay_env ''S'' example_relay = (Some (release_entries vqa metas,
        frame_done_json (release_entries vqa metas)), st')"
    by (simp add: on_scene_def process_scene_payload_def Let_def)
  have "distinct (map ev_source_num metas)" by (simp add: metas(2))
  from scene_slots_accounted [OF scene metas(1) this] scene metas(3) show ?thesis
    by (auto simp: example_relay_def)
qed

text \<open>
  Two sources with one number: when one of them is relayed, the other is in no frame_done.
\<close>

lemma relayed_source_not_released:
  "src \<in> vqa \<Longrightarrow> (slot, src) \<notin> set (release_entries vqa metas)"
  by (auto simp: release_entries_def)

section \<open>What is relayed\<close>

text \<open>
  A source is relayed only when the engine lets an alert through, with the alert of
  smallest priority in its metadata and the packet of its own slot; the frame on the wire
  is the length of the metadata, the metadata and the packet. A source that is not relayed
  leaves no whole frame, and a failed send closes the descriptor that was used.
\<close>

theorem relay_source_outcome:
  assumes "relay_meta L sa se path env meta st = (Some sent, st')"
    and "process_event sa se meta (rl_engine st) = (alerts, en)"
  shows "rl_engine st' = en \<and>
    (if sent
     then alerts \<noteq> [] \<and> (\<exists>chosen \<in> set alerts. \<exists>s. (\<forall>a \<in> set alerts. al_priority chosen \<le> al_priority a) \<and>
            jl_dump L (relay_meta_json chosen meta) = Some s \<and>
            rl_out st' = rl_out st @ [(rl_fd st', True, frame_bytes s (relay_packet meta))])
     else (rl_out st' = rl_out st \<or>
           (\<exists>fd bs. rl_out st' = rl_out st @ [(fd, False, bs)] \<and> rl_fd st' = - 1 \<and> last (rl_os st') = Close fd)))"
proof -
  have keep: "rl_engine (snd (ensure_relay path env s)) = rl_engine s" for s
    by (auto simp: ensure_relay_def split: prod.splits option.splits)
  obtain ready st1 where er: "ensure_relay path env (st\<lparr>rl_engine := en\<rparr>) = (ready, st1)" by force
  have st1: "rl_out st1 = rl_out st" "rl_engine st1 = en"
    using ensure_relay_out [of path env "st\<lparr>rl_engine := en\<rparr>"] keep [of "st\<lparr>rl_engine := en\<rparr>"] er by auto
  show ?thesis
  proof (cases "alerts = [] \<or> \<not> ready")
    case True
    then show ?thesis using assms er st1 by (auto simp: relay_meta_def Let_def split: if_splits)
  next
    case False
    then obtain s where s: "jl_dump L (relay_meta_json (select_alert alerts) meta) = Some s"
      using assms er by (auto simp: relay_meta_def Let_def split: option.splits)
    obtain ok bs where sr: "send_relay (rv_ans env) s (relay_packet meta) = (ok, bs)" by force
    have *: "sent = ok" "rl_out st' = rl_out st @ [(rl_fd st1, ok, bs)]" "rl_engine st' = en"
      "if ok then rl_fd st' = rl_fd st1 else rl_fd st' = - 1 \<and> rl_os st' = rl_os st1 @ [Close (rl_fd st1)]"
      using False assms er s sr st1 by (auto simp: relay_meta_def Let_def split: if_splits)
    show ?thesis
    proof (cases ok)
      case True
      then have "bs = frame_bytes s (relay_packet meta)" using sr send_relay_ok [of "rv_ans env" s "relay_packet meta" bs] by simp
      with True * False s select_alert_min [of alerts] show ?thesis by auto
    qed (use * in auto)
  qed
qed

lemma empty_engine_event:
  "process_event (sort_key al_priority) (sort_key fst) ev (engine_new rf [] default_params) =
     ([], engine_new rf [] default_params)"
  by (simp add: process_event_def engine_new_def dispatch_def routes_def process_alerts_def am_new_def
      default_params_def Let_def)

theorem relay_source_outcome_witness:
  "\<exists>sent st'. relay_meta example_scene_lib (sort_key al_priority) (sort_key fst) [] (example_relay_env 0)
      (example_event []) (example_relay\<lparr>rl_engine := engine_new (\<lambda>_. CannotOpen) [] default_params\<rparr>) =
        (Some sent, st') \<and> \<not> sent \<and> rl_out st' = []"
proof -
  let ?st = "example_relay\<lparr>rl_engine := engine_new (\<lambda>_. CannotOpen) [] default_params\<rparr>"
  have pe: "process_event (sort_key al_priority) (sort_key fst) (example_event []) (rl_engine ?st) =
      ([], rl_engine ?st)"
    by (simp add: empty_engine_event)
  then have rm: "relay_meta example_scene_lib (sort_key al_priority) (sort_key fst) [] (example_relay_env 0)
      (example_event []) ?st = (Some False, ?st)"
    by (simp add: relay_meta_def Let_def)
  from relay_source_outcome [OF rm pe] rm show ?thesis by (auto simp: example_relay_def)
qed

end
