(* ===== verification/ThreadPool.thy ===== *)
theory ThreadPool
  imports Prelude
begin

text \<open>
  The bounded thread pool of the consumer (\<open>dmabuf_consumer/src/vlm/thread_pool.cpp\<close>). Every
  critical section of the mutex is one operation; the workers interleave with the callers in
  any order, which is the step relation \<open>tp_step\<close>. A task runs between its take and its
  finish. The labels of a run are what an observer sees.
\<close>

section \<open>Model\<close>

datatype 'a worker = Waiting | Running 'a | Exited

record 'a tpool =
  tq_queue :: "'a list"
  tq_active :: nat
  tq_completed :: nat
  tq_stop :: bool
  tq_max :: nat
  tq_workers :: "'a worker list"

definition tp_new :: "nat \<Rightarrow> nat \<Rightarrow> 'a tpool" where
  "tp_new threads max_queue = \<lparr>tq_queue = [], tq_active = 0, tq_completed = 0, tq_stop = False,
     tq_max = max_queue, tq_workers = replicate threads Waiting\<rparr>"

definition tp_submit :: "'a \<Rightarrow> 'a tpool \<Rightarrow> bool \<times> 'a tpool" where
  "tp_submit t p =
     (if tq_stop p then (False, p)
      else if length (tq_queue p) \<ge> tq_max p then (False, p)
      else (True, p\<lparr>tq_queue := tq_queue p @ [t]\<rparr>))"

definition tp_evict_oldest :: "'a tpool \<Rightarrow> bool \<times> 'a tpool" where
  "tp_evict_oldest p =
     (case tq_queue p of [] \<Rightarrow> (False, p) | _ # ts \<Rightarrow> (True, p\<lparr>tq_queue := ts\<rparr>))"

definition tp_stop :: "'a tpool \<Rightarrow> 'a tpool" where
  "tp_stop p = p\<lparr>tq_stop := True\<rparr>"

text \<open>
  A worker's turn at the condition variable: it returns when the pool is stopped and empty,
  takes the front task, or goes on waiting (None).
\<close>

definition tp_wake :: "nat \<Rightarrow> 'a tpool \<Rightarrow> 'a tpool option" where
  "tp_wake i p =
     (if \<not> (tq_stop p \<or> tq_queue p \<noteq> []) then None
      else case tq_queue p of
        [] \<Rightarrow> Some (p\<lparr>tq_workers := (tq_workers p)[i := Exited]\<rparr>)
      | t # ts \<Rightarrow> Some (p\<lparr>tq_queue := ts, tq_active := tq_active p + 1,
                         tq_workers := (tq_workers p)[i := Running t]\<rparr>))"

definition tp_finish :: "nat \<Rightarrow> 'a tpool \<Rightarrow> 'a tpool" where
  "tp_finish i p = p\<lparr>tq_active := tq_active p - 1, tq_completed := tq_completed p + 1,
     tq_workers := (tq_workers p)[i := Waiting]\<rparr>"

text \<open>\<open>drain\<close> returns in a state where this holds; \<open>pending\<close> and \<open>completed\<close> read the counters.\<close>

definition tp_drained :: "'a tpool \<Rightarrow> bool" where
  "tp_drained p \<longleftrightarrow> tq_queue p = [] \<and> tq_active p = 0"

definition tp_pending :: "'a tpool \<Rightarrow> nat" where
  "tp_pending p = length (tq_queue p)"

definition tp_joined :: "'a tpool \<Rightarrow> bool" where
  "tp_joined p \<longleftrightarrow> (\<forall>w \<in> set (tq_workers p). w = Exited)"

datatype 'a tp_label =
    Submitted 'a bool
  | Evicted 'a
  | Taken 'a
  | Finished 'a
  | WorkerExit
  | Stopped
  | Looked

inductive tp_step :: "'a tp_label \<Rightarrow> 'a tpool \<Rightarrow> 'a tpool \<Rightarrow> bool" where
  step_submit: "tp_submit t p = (ok, p') \<Longrightarrow> tp_step (Submitted t ok) p p'"
| step_evict: "tq_queue p = t # ts \<Longrightarrow> tp_evict_oldest p = (True, p') \<Longrightarrow> tp_step (Evicted t) p p'"
| step_evict_none: "tp_evict_oldest p = (False, p') \<Longrightarrow> tp_step Looked p p'"
| step_take: "i < length (tq_workers p) \<Longrightarrow> tq_workers p ! i = Waiting \<Longrightarrow> tq_queue p = t # ts \<Longrightarrow>
    tp_wake i p = Some p' \<Longrightarrow> tp_step (Taken t) p p'"
| step_exit: "i < length (tq_workers p) \<Longrightarrow> tq_workers p ! i = Waiting \<Longrightarrow> tq_queue p = [] \<Longrightarrow>
    tp_wake i p = Some p' \<Longrightarrow> tp_step WorkerExit p p'"
| step_finish: "i < length (tq_workers p) \<Longrightarrow> tq_workers p ! i = Running t \<Longrightarrow> tp_finish i p = p' \<Longrightarrow>
    tp_step (Finished t) p p'"
| step_stop: "tp_stop p = p' \<Longrightarrow> tp_step Stopped p p'"

inductive_simps tp_step_simps [simp]:
  "tp_step (Submitted t ok) p p'" "tp_step (Evicted t) p p'" "tp_step Looked p p'"
  "tp_step (Taken t) p p'" "tp_step WorkerExit p p'" "tp_step (Finished t) p p'" "tp_step Stopped p p'"

section \<open>Runs and their traces\<close>

fun accepted :: "'a tp_label list \<Rightarrow> 'a list" where
  "accepted [] = []"
| "accepted (Submitted t True # ls) = t # accepted ls"
| "accepted (_ # ls) = accepted ls"

fun departed :: "'a tp_label list \<Rightarrow> 'a list" where
  "departed [] = []"
| "departed (Taken t # ls) = t # departed ls"
| "departed (Evicted t # ls) = t # departed ls"
| "departed (_ # ls) = departed ls"

fun taken :: "'a tp_label list \<Rightarrow> 'a list" where
  "taken [] = []"
| "taken (Taken t # ls) = t # taken ls"
| "taken (_ # ls) = taken ls"

fun evicted :: "'a tp_label list \<Rightarrow> 'a list" where
  "evicted [] = []"
| "evicted (Evicted t # ls) = t # evicted ls"
| "evicted (_ # ls) = evicted ls"

fun finished :: "'a tp_label list \<Rightarrow> 'a list" where
  "finished [] = []"
| "finished (Finished t # ls) = t # finished ls"
| "finished (_ # ls) = finished ls"

fun running :: "'a worker list \<Rightarrow> 'a list" where
  "running [] = []"
| "running (Running t # ws) = t # running ws"
| "running (_ # ws) = running ws"

lemma accepted_append [simp]: "accepted (ls @ ms) = accepted ls @ accepted ms"
  by (induction ls rule: accepted.induct) simp_all

lemma departed_append [simp]: "departed (ls @ ms) = departed ls @ departed ms"
  by (induction ls rule: departed.induct) simp_all

lemma taken_append [simp]: "taken (ls @ ms) = taken ls @ taken ms"
  by (induction ls rule: taken.induct) simp_all

lemma evicted_append [simp]: "evicted (ls @ ms) = evicted ls @ evicted ms"
  by (induction ls rule: evicted.induct) simp_all

lemma finished_append [simp]: "finished (ls @ ms) = finished ls @ finished ms"
  by (induction ls rule: finished.induct) simp_all

lemma departed_mset: "mset (departed ls) = mset (taken ls) + mset (evicted ls)"
  by (induction ls rule: departed.induct) auto

lemma running_append: "running (xs @ ys) = running xs @ running ys"
  by (induction xs rule: running.induct) auto

lemma running_Cons: "running (w # ws) = running [w] @ running ws"
  by (cases w) simp_all

lemma running_update:
  assumes "i < length ws"
  shows "mset (running (ws[i := w])) + mset (running [ws ! i]) = mset (running ws) + mset (running [w])"
proof -
  have "running ws = running (take i ws) @ running [ws ! i] @ running (drop (Suc i) ws)"
    using arg_cong [OF id_take_nth_drop [OF assms], of running]
      running_Cons [of "ws ! i" "drop (Suc i) ws"] by (simp add: running_append)
  moreover have "running (ws[i := w]) = running (take i ws) @ running [w] @ running (drop (Suc i) ws)"
    using assms running_Cons [of w "drop (Suc i) ws"]
    by (simp add: upd_conv_take_nth_drop running_append)
  ultimately show ?thesis by (simp only: mset_append ac_simps)
qed

definition tp_trace_step :: "'a tpool \<times> 'a tp_label list \<Rightarrow> 'a tpool \<times> 'a tp_label list \<Rightarrow> bool" where
  "tp_trace_step s t \<longleftrightarrow> (\<exists>l. tp_step l (fst s) (fst t) \<and> snd t = snd s @ [l])"

definition tp_trace_init :: "nat \<Rightarrow> nat \<Rightarrow> 'a tpool \<times> 'a tp_label list \<Rightarrow> bool" where
  "tp_trace_init threads max_queue s \<longleftrightarrow> s = (tp_new threads max_queue, [])"

definition tp_accounts :: "nat \<Rightarrow> nat \<Rightarrow> 'a tpool \<times> 'a tp_label list \<Rightarrow> bool" where
  "tp_accounts threads max_queue s \<longleftrightarrow>
     (let p = fst s; tr = snd s in
       tq_max p = max_queue \<and> length (tq_workers p) = threads \<and> length (tq_queue p) \<le> max_queue \<and>
       accepted tr = departed tr @ tq_queue p \<and>
       mset (taken tr) = mset (finished tr) + mset (running (tq_workers p)) \<and>
       tq_active p = length (running (tq_workers p)) \<and> tq_completed p = length (finished tr) \<and>
       (Exited \<in> set (tq_workers p) \<longrightarrow> tq_stop p \<and> tq_queue p = []))"

lemma running_replicate [simp]: "running (replicate n Waiting) = []"
  by (induction n) simp_all

lemma tp_accounts_init: "tp_trace_init n m s \<Longrightarrow> tp_accounts n m s"
  by (auto simp: tp_trace_init_def tp_accounts_def tp_new_def Let_def)

text \<open>Putting a task on a waiting worker, and taking it off again.\<close>

lemma running_start:
  "i < length ws \<Longrightarrow> ws ! i = Waiting \<Longrightarrow> mset (running (ws[i := Running t])) = add_mset t (mset (running ws))"
  using running_update [of i ws "Running t"] by simp

lemma running_exit:
  "i < length ws \<Longrightarrow> ws ! i = Waiting \<Longrightarrow> mset (running (ws[i := Exited])) = mset (running ws)"
  using running_update [of i ws Exited] by simp

lemma running_end:
  "i < length ws \<Longrightarrow> ws ! i = Running t \<Longrightarrow> mset (running ws) = add_mset t (mset (running (ws[i := Waiting])))"
  using running_update [of i ws Waiting] by simp

lemma running_lengths:
  "i < length ws \<Longrightarrow> ws ! i = Waiting \<Longrightarrow> length (running (ws[i := Running t])) = Suc (length (running ws))"
  "i < length ws \<Longrightarrow> ws ! i = Waiting \<Longrightarrow> length (running (ws[i := Exited])) = length (running ws)"
  "i < length ws \<Longrightarrow> ws ! i = Running t \<Longrightarrow> length (running ws) = Suc (length (running (ws[i := Waiting])))"
  using running_start [of i ws t] running_exit [of i ws] running_end [of i ws t]
  by (metis size_mset size_add_mset)+

lemma exited_update: "Exited \<in> set (ws[i := w]) \<Longrightarrow> w \<noteq> Exited \<Longrightarrow> Exited \<in> set ws"
  using set_update_subset_insert [of ws i w] by auto

lemma tp_accounts_step:
  assumes acc: "tp_accounts n m s" and "tp_trace_step s t"
  shows "tp_accounts n m t"
proof -
  obtain p tr where s: "s = (p, tr)" by force
  from assms(2) s obtain l p' where l: "tp_step l p p'" and tt: "t = (p', tr @ [l])"
    by (auto simp: tp_trace_step_def prod_eq_iff)
  from l show ?thesis
  proof cases
    case (step_submit t ok)
    then show ?thesis using acc by (cases ok) (auto simp: tp_accounts_def s tt tp_submit_def split: if_splits)
  next
    case (step_evict t ts)
    then show ?thesis using acc by (auto simp: tp_accounts_def s tt tp_evict_oldest_def)
  next
    case step_evict_none
    then show ?thesis using acc
      by (auto simp: tp_accounts_def s tt tp_evict_oldest_def split: list.splits)
  next
    case (step_take i t ts)
    note st = running_start [OF step_take(2,3)] running_lengths(1) [OF step_take(2,3)]
    show ?thesis using acc step_take st
      by (auto simp: tp_accounts_def s tt tp_wake_def dest: exited_update split: if_splits)
  next
    case (step_exit i)
    note st = running_exit [OF step_exit(2,3)] running_lengths(2) [OF step_exit(2,3)]
    show ?thesis using acc step_exit st
      by (auto simp: tp_accounts_def s tt tp_wake_def split: if_splits)
  next
    case (step_finish i t)
    note st = running_end [OF step_finish(2,3)] running_lengths(3) [OF step_finish(2,3)]
    show ?thesis using acc step_finish st
      by (auto simp: tp_accounts_def s tt tp_finish_def dest: exited_update)
  next
    case step_stop
    then show ?thesis using acc by (auto simp: tp_accounts_def s tt tp_stop_def)
  qed
qed

interpretation tp_sys: step_relation "tp_trace_init n m" tp_trace_step "tp_accounts n m" for n m
  by unfold_locales (auto intro: tp_accounts_init tp_accounts_step)

section \<open>Every accepted task runs once, in order, or is evicted\<close>

text \<open>
  C12: Task accounting of the thread pool: after any interleaving of the callers and the
  workers, the tasks that left the queue followed by the queued ones are the accepted ones in
  their order of submission; those taken are finished or running, each once; the counters
  agree with them; and the queue never exceeds its bound. When drain returns, and when the
  destructor has joined at least one worker, every accepted task has been finished or
  evicted, none lost and none run twice.
\<close>

theorem thread_pool_accounting:
  assumes "tp_trace_step\<^sup>*\<^sup>* (tp_new threads max_queue, []) (p, tr)"
  shows "accepted tr = departed tr @ tq_queue p \<and>
    mset (taken tr) = mset (finished tr) + mset (running (tq_workers p)) \<and>
    tq_completed p = length (finished tr) \<and> tp_pending p \<le> max_queue \<and>
    (tp_drained p \<or> tp_joined p \<and> 0 < threads \<longrightarrow>
       mset (accepted tr) = mset (finished tr) + mset (evicted tr))"
proof -
  have "tp_trace_init threads max_queue (tp_new threads max_queue, [])"
    by (simp add: tp_trace_init_def)
  then have acc: "tp_accounts threads max_queue (p, tr)"
    using assms by (rule tp_sys.reach_inv)
  have "running (tq_workers p) = [] \<and> tq_queue p = []" if "tp_drained p \<or> tp_joined p \<and> 0 < threads"
  proof (cases "tp_drained p")
    case True
    then show ?thesis using acc by (simp add: tp_drained_def tp_accounts_def)
  next
    case False
    have none: "\<forall>w \<in> set ws. w = Exited \<Longrightarrow> running ws = []" for ws :: "'a worker list"
      by (induction ws rule: running.induct) auto
    from False that have "tp_joined p" "0 < threads" by auto
    moreover from this acc have "tq_workers p \<noteq> []" by (auto simp: tp_accounts_def)
    ultimately show ?thesis using acc none [of "tq_workers p"]
      by (cases "tq_workers p") (auto simp: tp_accounts_def tp_joined_def)
  qed
  with acc show ?thesis by (auto simp: tp_accounts_def tp_pending_def departed_mset)
qed

definition example_pool_end :: "nat tpool" where
  "example_pool_end = \<lparr>tq_queue = [], tq_active = 0, tq_completed = 1, tq_stop = False, tq_max = 1,
     tq_workers = [Waiting]\<rparr>"

lemma example_pool_run:
  "tp_trace_step\<^sup>*\<^sup>* (tp_new 1 1, [])
     (example_pool_end, [Submitted 7 True, Submitted 8 False, Taken 7, Finished (7 :: nat)])"
proof -
  let ?q = "(tp_new 1 1)\<lparr>tq_queue := [7 :: nat]\<rparr>"
  let ?r = "(tp_new 1 1)\<lparr>tq_active := 1, tq_workers := [Running (7 :: nat)]\<rparr>"
  have "tp_trace_step (tp_new 1 1, []) (?q, [Submitted 7 True])"
    "tp_trace_step (?q, [Submitted 7 True]) (?q, [Submitted 7 True, Submitted 8 False])"
    by (auto simp: tp_trace_step_def tp_submit_def tp_new_def)
  moreover have "tp_trace_step (?q, [Submitted 7 True, Submitted 8 False])
      (?r, [Submitted 7 True, Submitted 8 False, Taken 7])"
    by (auto simp: tp_trace_step_def tp_wake_def tp_new_def)
  moreover have "tp_trace_step (?r, [Submitted 7 True, Submitted 8 False, Taken 7])
     (example_pool_end, [Submitted 7 True, Submitted 8 False, Taken 7, Finished 7])"
    by (auto simp: tp_trace_step_def tp_finish_def tp_new_def example_pool_end_def)
  ultimately show ?thesis by (meson converse_rtranclp_into_rtranclp rtranclp.rtrancl_refl)
qed

theorem thread_pool_accounting_witness:
  "mset (accepted [Submitted 7 True, Submitted 8 False, Taken 7, Finished (7 :: nat)]) = {#7#} \<and>
   tp_drained example_pool_end"
proof -
  have "tp_drained example_pool_end" by (simp add: tp_drained_def example_pool_end_def)
  with thread_pool_accounting [OF example_pool_run] show ?thesis by simp
qed

section \<open>Draining gets on\<close>

text \<open>
  What is left to do: a queued task needs a take and a finish, a running one a finish.
\<close>

definition tp_work :: "'a tpool \<Rightarrow> nat" where
  "tp_work p = 2 * length (tq_queue p) + length (running (tq_workers p))"

fun is_work :: "'a tp_label \<Rightarrow> bool" where
  "is_work (Taken _) = True" | "is_work (Finished _) = True" | "is_work _ = False"

lemma running_nonempty: "running ws \<noteq> [] \<Longrightarrow> \<exists>i t. i < length ws \<and> ws ! i = Running t"
  by (induction ws rule: running.induct) (force simp: nth_Cons split: nat.splits)+



end
