(* ===== verification/Prompt.thy ===== *)
theory Prompt
  imports Strings
begin

text \<open>
  The prompt of the vision-language task (\<open>buildPrompt\<close> of \<open>consumer_demo.cpp\<close>): the rule name
  and the detections are cut out of the metadata text and put in the place of the
  placeholders of the template, by loops that replace until nothing is found. A loop that
  does not end is the value None.
\<close>

section \<open>Model\<close>

partial_function (option) replace_loop :: "string \<Rightarrow> string \<Rightarrow> string \<Rightarrow> string option" where
  "replace_loop pat new s =
     (case find_from pat s 0 of
        None \<Rightarrow> Some s
      | Some pos \<Rightarrow> replace_loop pat new (replace_at pos (length pat) new s))"

definition rule_placeholder :: string where "rule_placeholder = ''{rule}''"
definition dets_placeholder :: string where "dets_placeholder = ''{dets}''"
definition rule_key :: string where \<open>rule_key = ''"rule":''\<close>
definition dets_key :: string where \<open>dets_key = ''"detections":''\<close>
definition quote :: string where \<open>quote = ''"''\<close>

text \<open>The text between the first two quotes behind the rule key, or the given default.\<close>

definition extract_rule :: "string \<Rightarrow> string \<Rightarrow> string" where
  "extract_rule dflt meta =
     (case find_from rule_key meta 0 of
        None \<Rightarrow> dflt
      | Some rp \<Rightarrow>
          (case find_from quote meta (rp + 7) of
             None \<Rightarrow> dflt
           | Some rq \<Rightarrow>
               (case find_from quote meta (rq + 1) of
                  None \<Rightarrow> dflt
                | Some re \<Rightarrow> take (re - rq - 1) (drop (rq + 1) meta))))"

text \<open>The array behind the detections key; nothing when its brackets do not balance.\<close>

definition extract_dets :: "string \<Rightarrow> string" where
  "extract_dets meta =
     (case find_from dets_key meta 0 of
        None \<Rightarrow> ''none''
      | Some dp \<Rightarrow>
          (case find_from ''['' meta dp of
             None \<Rightarrow> ''none''
           | Some da \<Rightarrow>
               (case close_off (CHR ''['') (CHR '']'') (drop da meta) 0 of
                  None \<Rightarrow> []
                | Some n \<Rightarrow> take n (drop da meta))))"

definition build_prompt :: "string \<Rightarrow> string \<Rightarrow> string option" where
  "build_prompt meta tmpl =
     (let rule = (if meta = [] then ''unknown'' else extract_rule ''unknown'' meta);
          dets = (if meta = [] then ''none'' else extract_dets meta)
      in case replace_loop rule_placeholder rule tmpl of
           None \<Rightarrow> None
         | Some s \<Rightarrow> replace_loop dets_placeholder dets s)"

section \<open>When the loops end\<close>

definition occurs :: "string \<Rightarrow> string \<Rightarrow> bool" where
  "occurs pat s \<longleftrightarrow> (\<exists>i \<le> length s. prefix pat (drop i s))"

lemma occurs_find: "occurs pat s \<longleftrightarrow> find_from pat s 0 \<noteq> None"
  unfolding occurs_def find_from_None by auto

lemma occurs_sublist: "occurs pat s \<longleftrightarrow> (\<exists>l r. s = l @ pat @ r)"
proof
  assume "occurs pat s"
  then obtain i where "find_from pat s 0 = Some i" unfolding occurs_find by blast
  then show "\<exists>l r. s = l @ pat @ r" by (metis find_from_split)
next
  assume "\<exists>l r. s = l @ pat @ r"
  then obtain l r where "s = l @ pat @ r" by blast
  then show "occurs pat s" unfolding occurs_def by (intro exI [of _ "length l"]) simp
qed

text \<open>What a loop that ends leaves: no occurrence.\<close>

lemma replace_loop_result:
  assumes "replace_loop pat new s = Some t"
  shows "\<not> occurs pat t"
  by (rule replace_loop.raw_induct [where P = "\<lambda>pat new s t. \<not> occurs pat t", OF _ assms])
    (auto simp: occurs_find split: option.splits)

text \<open>A replacement that contains its own placeholder is replaced for ever.\<close>

lemma occurs_replaced: "occurs pat new \<Longrightarrow> occurs pat (replace_at pos n new s)"
  unfolding occurs_sublist replace_at_def by (metis append.assoc)

lemma replace_loop_diverges:
  assumes "occurs pat new" "occurs pat s"
  shows "replace_loop pat new s = None"
proof -
  have "occurs pat new \<longrightarrow> \<not> occurs pat s" if "replace_loop pat new s = Some t" for t
  proof (rule replace_loop.raw_induct [where P = "\<lambda>pat new s t. occurs pat new \<longrightarrow> \<not> occurs pat s", OF _ that])
    fix f :: "string \<Rightarrow> string \<Rightarrow> string \<Rightarrow> string option" and pat new s t
    assume ih: "\<And>pat new s t. f pat new s = Some t \<Longrightarrow> occurs pat new \<longrightarrow> \<not> occurs pat s"
      and eq: "(case find_from pat s 0 of None \<Rightarrow> Some s
        | Some pos \<Rightarrow> f pat new (replace_at pos (length pat) new s)) = Some t"
    show "occurs pat new \<longrightarrow> \<not> occurs pat s"
    proof (cases "find_from pat s 0")
      case None
      then show ?thesis by (simp add: occurs_find)
    next
      case (Some pos)
      with eq ih [of pat new "replace_at pos (length pat) new s" t] show ?thesis
        using occurs_replaced by simp
    qed
  qed
  with assms show ?thesis by (cases "replace_loop pat new s") auto
qed

text \<open>
  A replacement without the first character of the placeholder: every round removes one.
\<close>

lemma replace_loop_total_char:
  assumes "c \<in> set pat" "c \<notin> set new"
  shows "\<exists>t. replace_loop pat new s = Some t"
proof (induction "length (filter (\<lambda>x. x = c) s)" arbitrary: s rule: less_induct)
  case less
  show ?case
  proof (cases "find_from pat s 0")
    case None
    then show ?thesis by (subst replace_loop.simps) simp
  next
    case (Some i)
    then obtain post where post: "s = take i s @ pat @ post" "i + length pat \<le> length s"
      by (rule find_from_split)
    have i: "length (take i s) = i" using post(2) by simp
    have "replace_at i (length pat) new s = take i s @ new @ post"
      unfolding replace_at_def using arg_cong [OF post(1), of "drop (i + length pat)"] i by simp
    moreover have "length (filter (\<lambda>x. x = c) (take i s @ new @ post)) <
        length (filter (\<lambda>x. x = c) (take i s @ pat @ post))"
    proof -
      have "filter (\<lambda>x. x = c) new = []" "filter (\<lambda>x. x = c) pat \<noteq> []"
        using assms by (auto simp: filter_empty_conv)
      then show ?thesis by simp
    qed
    ultimately have "\<exists>t. replace_loop pat new (replace_at i (length pat) new s) = Some t"
      using less post(1) by metis
    with Some show ?thesis by (subst replace_loop.simps) simp
  qed
qed

text \<open>
  A replacement whose first and last characters are not in the placeholder and that does not
  contain it: no new occurrence arises at its edges, so the search moves on to the right.
\<close>

definition closed_text :: "string \<Rightarrow> string \<Rightarrow> bool" where
  "closed_text pat x \<longleftrightarrow> \<not> occurs pat x \<and> (x = [] \<or> last x \<notin> set pat)"

lemma prefix_at_closed:
  assumes "prefix pat (drop i (x @ r))" "i < length x" "pat \<noteq> []"
  shows "occurs pat x \<or> last x \<in> set pat"
proof (cases "i + length pat \<le> length x")
  case True
  have "prefix pat (drop i x @ r)" using assms by simp
  then have "prefix pat (drop i x)"
    using True by (metis append_eq_append_conv_if length_drop nat_add_left_cancel_le add_diff_inverse_nat
        assms(2) less_imp_le not_le prefix_def prefix_length_prefix)
  then show ?thesis using assms(2) unfolding occurs_def by (intro disjI1 exI [of _ i]) simp
next
  case False
  then have "drop i x \<noteq> []" "length (drop i x) < length pat" using assms(2) by auto
  moreover have "prefix pat (drop i x @ r)" using assms by simp
  ultimately have "prefix (drop i x) pat"
    by (metis less_imp_le prefix_length_prefix prefixI)
  then have "set (drop i x) \<subseteq> set pat" by (auto simp: prefix_def)
  moreover have "last x \<in> set (drop i x)"
    using assms(2) by (metis \<open>drop i x \<noteq> []\<close> last_drop last_in_set)
  ultimately show ?thesis by blast
qed

lemma occurs_append_hd:
  assumes "occurs pat (a @ b)" "b \<noteq> []" "hd b \<notin> set pat"
  shows "occurs pat a \<or> occurs pat b"
proof -
  obtain l r where lr: "a @ b = l @ pat @ r" using assms(1) unfolding occurs_sublist by blast
  then obtain us where "a = l @ us \<and> us @ b = pat @ r \<or> l = a @ us \<and> us @ pat @ r = b"
    by (auto simp: append_eq_append_conv2)
  then show ?thesis
  proof
    assume us: "a = l @ us \<and> us @ b = pat @ r"
    then obtain vs where "us = pat @ vs \<or> us @ vs = pat \<and> b = vs @ r"
      by (auto simp: append_eq_append_conv2)
    then have "\<exists>q. us = pat @ q"
      using assms(2,3) by (cases vs) auto
    then show ?thesis using us unfolding occurs_sublist by auto
  next
    assume "l = a @ us \<and> us @ pat @ r = b"
    then show ?thesis unfolding occurs_sublist by blast
  qed
qed

lemma closed_text_extend:
  assumes "closed_text pat new" "pat \<noteq> []" "new \<noteq> []" "hd new \<notin> set pat"
    and first: "find_from pat (x @ r) 0 = Some (length x + j)" "j \<le> length r"
  shows "closed_text pat (x @ take j r @ new)"
proof -
  have "\<not> occurs pat (x @ take j r)"
  proof
    assume "occurs pat (x @ take j r)"
    then obtain l q where lq: "x @ take j r = l @ pat @ q" unfolding occurs_sublist by blast
    have "length (x @ take j r) = length (l @ pat @ q)" by (simp only: lq)
    then have "length l + length pat \<le> length x + j" using first(2) by simp
    then have "length l < length x + j" using assms(2) by (cases pat) auto
    moreover have "x @ r = l @ pat @ q @ drop j r"
      using lq by (metis append.assoc append_take_drop_id)
    then have "prefix pat (drop (length l) (x @ r))" by simp
    ultimately show False using first(1) unfolding find_from_Some by blast
  qed
  then have "\<not> occurs pat ((x @ take j r) @ new)"
    using occurs_append_hd [of pat "x @ take j r" new] assms by (auto simp: closed_text_def)
  then show ?thesis using assms(1,3) by (auto simp: closed_text_def)
qed

lemma replace_loop_total_closed:
  assumes "closed_text pat new" "pat \<noteq> []" "new \<noteq> []" "hd new \<notin> set pat"
  shows "closed_text pat x \<Longrightarrow> \<exists>t. replace_loop pat new (x @ r) = Some t"
proof (induction "length r" arbitrary: x r rule: less_induct)
  case less
  show ?case
  proof (cases "find_from pat (x @ r) 0")
    case None
    then show ?thesis by (subst replace_loop.simps) simp
  next
    case (Some i)
    then have pre: "prefix pat (drop i (x @ r))" unfolding find_from_Some by blast
    obtain q where post: "i + length pat \<le> length (x @ r)" by (rule find_from_split [OF Some])
    have "length x \<le> i"
    proof (rule ccontr)
      assume "\<not> length x \<le> i"
      then have lt: "i < length x" by simp
      then have "x \<noteq> []" by auto
      with prefix_at_closed [OF pre lt assms(2)] less(2) show False by (simp add: closed_text_def)
    qed
    then obtain j where j: "i = length x + j" by (metis le_iff_add)
    have "replace_at i (length pat) new (x @ r) = (x @ take j r @ new) @ drop (j + length pat) r"
      by (simp add: replace_at_def j)
    moreover have "length (drop (j + length pat) r) < length r"
      using post j assms(2) by (cases pat) auto
    moreover have "closed_text pat (x @ take j r @ new)"
      using closed_text_extend [OF assms] Some post j by simp
    ultimately have "\<exists>t. replace_loop pat new (replace_at i (length pat) new (x @ r)) = Some t"
      using less(1) by metis
    with Some show ?thesis by (subst replace_loop.simps) simp
  qed
qed

section \<open>The prompt is always built\<close>

lemma extract_dets_shape:
  "extract_dets meta = ''none'' \<or> extract_dets meta = [] \<or>
   hd (extract_dets meta) = CHR ''['' \<and> last (extract_dets meta) = CHR '']'' \<and> extract_dets meta \<noteq> []"
proof (cases "extract_dets meta = ''none'' \<or> extract_dets meta = []")
  case False
  then obtain dp da n where da: "find_from ''['' meta dp = Some da"
    and n: "close_off (CHR ''['') (CHR '']'') (drop da meta) 0 = Some n"
    and eq: "extract_dets meta = take n (drop da meta)"
    by (auto simp: extract_dets_def split: option.splits)
  from n have n': "0 < n" "n \<le> length (drop da meta)" "drop da meta ! (n - 1) = CHR '']''"
    by (simp_all add: close_off_Some)
  from da have "prefix ''['' (drop da meta)" by (simp add: find_from_Some)
  then obtain rest where "drop da meta = CHR ''['' # rest" by (auto simp: prefix_def)
  then have "hd (take n (drop da meta)) = CHR ''[''" "take n (drop da meta) \<noteq> []"
    using n'(1) by (cases n; simp)+
  moreover from this n' have "last (take n (drop da meta)) = CHR '']''"
    by (simp add: last_conv_nth min.absorb2)
  ultimately show ?thesis unfolding eq by blast
qed auto

text \<open>
  buildPrompt returns: for every template and every metadata whose rule name has no
  opening brace and whose detections do not contain the placeholder, both replacement loops
  end, and no detections placeholder is left in the prompt. (Without metadata the prompt is
  always built.)
\<close>

theorem build_prompt_returns:
  assumes "meta = [] \<or> CHR ''{'' \<notin> set (extract_rule ''unknown'' meta) \<and>
    \<not> occurs dets_placeholder (extract_dets meta)"
  shows "\<exists>prompt. build_prompt meta tmpl = Some prompt \<and> \<not> occurs dets_placeholder prompt"
proof -
  define rule where "rule = (if meta = [] then ''unknown'' else extract_rule ''unknown'' meta)"
  define dets where "dets = (if meta = [] then ''none'' else extract_dets meta)"
  have "CHR ''{'' \<in> set rule_placeholder" by (simp add: rule_placeholder_def)
  moreover have "CHR ''{'' \<notin> set rule" using assms by (auto simp: rule_def)
  ultimately obtain s where s: "replace_loop rule_placeholder rule tmpl = Some s"
    using replace_loop_total_char by blast
  have pat: "dets_placeholder \<noteq> []" "CHR ''['' \<notin> set dets_placeholder" "CHR '']'' \<notin> set dets_placeholder"
    "CHR ''{'' \<in> set dets_placeholder"
    by (simp_all add: dets_placeholder_def)
  have "\<exists>t. replace_loop dets_placeholder dets s = Some t"
  proof (cases "dets = ''none'' \<or> dets = []")
    case True
    then have "CHR ''{'' \<notin> set dets" by auto
    then show ?thesis using replace_loop_total_char [OF pat(4)] by blast
  next
    case False
    then have "meta \<noteq> []" by (auto simp: dets_def)
    with False assms extract_dets_shape [of meta] have
      "\<not> occurs dets_placeholder dets" "hd dets = CHR ''[''" "last dets = CHR '']''" "dets \<noteq> []"
      by (auto simp: dets_def)
    then have "closed_text dets_placeholder dets" "hd dets \<notin> set dets_placeholder"
      using pat by (simp_all add: closed_text_def)
    moreover have "closed_text dets_placeholder []"
      using pat(1) by (simp add: closed_text_def occurs_def)
    ultimately show ?thesis
      using replace_loop_total_closed [of dets_placeholder dets "[]" s] pat(1) \<open>dets \<noteq> []\<close> by simp
  qed
  then obtain t where "replace_loop dets_placeholder dets s = Some t" ..
  with s replace_loop_result [OF this] show ?thesis
    by (simp add: build_prompt_def rule_def dets_def)
qed

theorem build_prompt_returns_witness:
  "\<exists>prompt. build_prompt [] ''see {rule} {dets}'' = Some prompt \<and> \<not> occurs dets_placeholder prompt"
  using build_prompt_returns [of "[]" "''see {rule} {dets}''"] by simp

text \<open>
  The condition on the rule name matters: a name that contains the placeholder itself makes
  the loop run for ever.
\<close>

lemma build_prompt_diverges:
  assumes "meta \<noteq> []" "occurs rule_placeholder (extract_rule ''unknown'' meta)" "occurs rule_placeholder tmpl"
  shows "build_prompt meta tmpl = None"
  using replace_loop_diverges [OF assms(2,3)] assms(1) by (simp add: build_prompt_def)

end
