(* ===== verification/VlmTask.thy ===== *)
theory VlmTask
  imports Scene Nv12
begin

text \<open>
  One task of the vision-language path of the consumer: scaling and encoding the frame
  (\<open>dmabuf_consumer/src/vlm/jpeg_encoder.cpp\<close>), the request to the server
  (\<open>vlm_client.cpp\<close>), the log line (\<open>jsonl_logger.cpp\<close>) and the lambda of
  \<open>consumer_demo.cpp\<close> that runs them one after the other. The JPEG library, the HTTP library
  and the file system are arguments.
\<close>

section \<open>Scaling\<close>

text \<open>
  Nearest neighbour on 32-bit coordinates: the products wrap, the pointer sums do not.
\<close>

definition resize_px ::
  "(nat \<Rightarrow> u8) \<Rightarrow> u32 \<Rightarrow> u32 \<Rightarrow> u32 \<Rightarrow> u32 \<Rightarrow> u32 \<Rightarrow> nat \<Rightarrow> nat \<Rightarrow> u8 list" where
  "resize_px src src_w src_h src_row_bytes dst_w dst_h dy dx =
     (let sy = (of_nat dy * src_h) div dst_h;
          sx = (of_nat dx * src_w) div dst_w;
          px = unat (sy * src_row_bytes) + unat (sx * 3)
      in [src px, src (px + 1), src (px + 2)])"

definition resize_rgb24 ::
  "(nat \<Rightarrow> u8) \<Rightarrow> u32 \<Rightarrow> u32 \<Rightarrow> u32 \<Rightarrow> u32 \<Rightarrow> u32 \<Rightarrow> u8 list" where
  "resize_rgb24 src src_w src_h src_row_bytes dst_w dst_h =
     concat (concat (map (\<lambda>dy. map (\<lambda>dx. resize_px src src_w src_h src_row_bytes dst_w dst_h dy dx)
                                 [0..<unat dst_w]) [0..<unat dst_h]))"

section \<open>JpegEncoder\<close>

record encoder_config =
  en_quality :: int
  en_target_width :: u32
  en_target_height :: u32

definition encoder_config_default :: encoder_config where
  "encoder_config_default = \<lparr>en_quality = 80, en_target_width = 448, en_target_height = 448\<rparr>"

text \<open>The JPEG library: whether a handle is given, and the compressor (an error text or the bytes).\<close>

record jpeg_lib =
  tj_init :: bool
  tj_compress :: "(nat \<Rightarrow> u8) \<Rightarrow> u32 \<Rightarrow> u32 \<Rightarrow> u32 \<Rightarrow> int \<Rightarrow> string + u8 list"

definition list_memory :: "u8 list \<Rightarrow> nat \<Rightarrow> u8" where
  "list_memory xs i = (if i < length xs then xs ! i else 0)"

definition encode ::
  "jpeg_lib \<Rightarrow> encoder_config \<Rightarrow> (nat \<Rightarrow> u8) \<Rightarrow> u32 \<Rightarrow> u32 \<Rightarrow> u32 \<Rightarrow> string + u8 list" where
  "encode tj cfg rgb w h row_bytes =
     (let (src, ew, eh, erb) =
        (if w \<noteq> en_target_width cfg \<or> h \<noteq> en_target_height cfg
         then (list_memory (resize_rgb24 rgb w h row_bytes (en_target_width cfg) (en_target_height cfg)),
               en_target_width cfg, en_target_height cfg, en_target_width cfg * 3)
         else (rgb, w, h, row_bytes))
      in if \<not> tj_init tj then Inl ''tjInitCompress failed''
         else case tj_compress tj src ew erb eh (en_quality cfg) of
           Inl e \<Rightarrow> Inl (''tjCompress2 failed: '' @ e)
         | Inr jpeg \<Rightarrow> Inr jpeg)"

section \<open>VlmClient\<close>

record vlm_config =
  vc_server_url :: string
  vc_model :: string
  vc_timeout :: int

definition vlm_config_default :: vlm_config where
  "vlm_config_default = \<lparr>vc_server_url = ''http://127.0.0.1:8000'', vc_model = ''qwen3-vl-4b'', vc_timeout = 30\<rparr>"

record vlm_request =
  vq_jpeg :: "u8 list"
  vq_prompt :: string
  vq_source :: int
  vq_rule :: string
  vq_ts :: u64
  vq_frame :: u64
  vq_dets :: string

record vlm_response =
  vr_success :: bool
  vr_content :: string
  vr_error :: string
  vr_latency :: cfloat
  vr_created :: int

definition vlm_response_init :: vlm_response where
  "vlm_response_init = \<lparr>vr_success = False, vr_content = [], vr_error = [], vr_latency = Fin 0, vr_created = 0\<rparr>"

text \<open>The transport: a handle, opening the picture file, the transfer (error text or body), the time it took.\<close>

record transport =
  cu_init :: bool
  cu_fopen :: "string \<Rightarrow> bool"
  cu_perform :: "string \<Rightarrow> string \<Rightarrow> int \<Rightarrow> string + string"
  cu_latency :: cfloat

definition request_json :: "vlm_config \<Rightarrow> vlm_request \<Rightarrow> string \<Rightarrow> json" where
  "request_json cfg req file_url =
     JObj [(''messages'', JArr [JObj [
              (''content'', JArr [
                 JObj [(''image_url'', JObj [(''url'', JStr file_url)]), (''type'', JStr ''image_url'')],
                 JObj [(''text'', JStr (vq_prompt req)), (''type'', JStr ''text'')]]),
              (''role'', JStr ''user'')]]),
           (''model'', JStr (vc_model cfg))]"

definition build_request_body :: "json_lib \<Rightarrow> vlm_config \<Rightarrow> vlm_request \<Rightarrow> string \<Rightarrow> string option" where
  "build_request_body L cfg req file_url = jl_dump L (request_json cfg req file_url)"

text \<open>
  \<open>j["choices"][0]["message"]["content"]\<close>: a missing or ill-typed step ends in an exception.
\<close>

definition first_element :: "json \<Rightarrow> json option" where
  "first_element j = (case j of JArr (x # _) \<Rightarrow> Some x | _ \<Rightarrow> None)"

definition answer_content :: "json \<Rightarrow> string option" where
  "answer_content j =
     do { cs \<leftarrow> jfind j ''choices''; c \<leftarrow> first_element cs; m \<leftarrow> jfind c ''message'';
          t \<leftarrow> jfind m ''content''; get_str t }"

text \<open>\<open>what\<close> is the text of the exception, \<open>i64\<close> the conversion of \<open>created\<close>.\<close>

definition parse_response ::
  "json_lib \<Rightarrow> (json \<Rightarrow> int option) \<Rightarrow> (string \<Rightarrow> string) \<Rightarrow> string \<Rightarrow> cfloat \<Rightarrow> vlm_response" where
  "parse_response L i64 what body latency =
     (let resp = vlm_response_init\<lparr>vr_latency := latency\<rparr>;
          failed = (\<lambda>r. r\<lparr>vr_success := False, vr_error := ''JSON parse error: '' @ what body\<rparr>)
      in case jl_parse L body of
           None \<Rightarrow> failed resp
         | Some j \<Rightarrow>
             (case answer_content j of
                None \<Rightarrow> failed resp
              | Some content \<Rightarrow>
                  let resp = resp\<lparr>vr_content := content\<rparr>
                  in case jfind j ''created'' of
                       None \<Rightarrow> resp\<lparr>vr_success := True\<rparr>
                     | Some c \<Rightarrow> (case i64 c of
                         None \<Rightarrow> failed resp
                       | Some n \<Rightarrow> resp\<lparr>vr_created := n, vr_success := True\<rparr>)))"

definition frame_path :: "u64 \<Rightarrow> string" where
  "frame_path frame_number =
     ''/mnt/workspace/develop/vlm_pipeline/output'' @ ''/vlm_frame_'' @ dec_nat (unat frame_number) @ ''.jpg''"

text \<open>
  \<open>infer\<close>: the response and the picture file it wrote; None when building the body throws.
\<close>

definition infer ::
  "json_lib \<Rightarrow> (json \<Rightarrow> int option) \<Rightarrow> (string \<Rightarrow> string) \<Rightarrow> transport \<Rightarrow> vlm_config \<Rightarrow> vlm_request \<Rightarrow>
     vlm_response option \<times> (string \<times> u8 list) list" where
  "infer L i64 what tr cfg req =
     (if \<not> cu_init tr then (Some (vlm_response_init\<lparr>vr_error := ''curl_easy_init failed''\<rparr>), [])
      else
        let path = frame_path (vq_frame req)
        in if \<not> cu_fopen tr path
           then (Some (vlm_response_init\<lparr>vr_error := ''failed to open temp file: '' @ path\<rparr>), [])
           else
             let written = [(path, vq_jpeg req)]
             in case build_request_body L cfg req (''file://'' @ path) of
                  None \<Rightarrow> (None, written)
                | Some body \<Rightarrow>
                    (case cu_perform tr (vc_server_url cfg @ ''/v1/chat/completions'') body (vc_timeout cfg) of
                       Inl e \<Rightarrow> (Some (vlm_response_init\<lparr>vr_error := ''curl error: '' @ e, vr_latency := cu_latency tr\<rparr>), written)
                     | Inr answer \<Rightarrow> (Some (parse_response L i64 what answer (cu_latency tr)), written)))"

section \<open>JsonlLogger\<close>

record log_entry =
  le_ts :: u64
  le_source :: int
  le_rule :: string
  le_dets :: string
  le_resp :: string
  le_ok :: bool
  le_err :: string
  le_encode_ms :: cfloat
  le_http_ms :: cfloat
  le_total_ms :: cfloat
  le_frame :: u64
  le_jpeg_bytes :: nat

definition log_json :: "json_lib \<Rightarrow> log_entry \<Rightarrow> json" where
  "log_json L e =
     JObj [(''dets'', if le_dets e = [] then JArr []
              else case jl_parse L (le_dets e) of None \<Rightarrow> JDiscarded | Some j \<Rightarrow> j),
           (''enc_ms'', JFloat (le_encode_ms e)), (''err'', JStr (le_err e)),
           (''frame'', JInt (uint (le_frame e))), (''http_ms'', JFloat (le_http_ms e)),
           (''jpeg_bytes'', JInt (int (le_jpeg_bytes e))), (''ok'', JBool (le_ok e)),
           (''resp'', JStr (le_resp e)), (''rule'', JStr (le_rule e)), (''src'', JInt (le_source e)),
           (''total_ms'', JFloat (le_total_ms e)), (''ts'', JInt (uint (le_ts e)))]"

text \<open>The open file is the list of its lines, None when it could not be opened.\<close>

definition logger_log :: "json_lib \<Rightarrow> log_entry \<Rightarrow> string list option \<Rightarrow> bool option \<times> string list option" where
  "logger_log L e file =
     (case file of
        None \<Rightarrow> (Some False, None)
      | Some lines \<Rightarrow>
          (case jl_dump L (log_json L e) of
             None \<Rightarrow> (None, Some lines)
           | Some text \<Rightarrow> (Some True, Some (lines @ [text]))))"

section \<open>The task\<close>

record vlm_task =
  vt_rgb :: "u8 list"
  vt_width :: u32
  vt_height :: u32
  vt_row_bytes :: u32
  vt_prompt :: string
  vt_source :: int
  vt_rule :: string
  vt_ts :: u64
  vt_frame :: u64
  vt_meta :: string

definition task_request :: "vlm_task \<Rightarrow> u8 list \<Rightarrow> vlm_request" where
  "task_request t jpeg = \<lparr>vq_jpeg = jpeg, vq_prompt = vt_prompt t, vq_source = vt_source t, vq_rule = vt_rule t,
     vq_ts = vt_ts t, vq_frame = vt_frame t, vq_dets = vt_meta t\<rparr>"

text \<open>The entry a task logs; None when an exception leaves the task.\<close>

definition task_entry ::
  "json_lib \<Rightarrow> (json \<Rightarrow> int option) \<Rightarrow> (string \<Rightarrow> string) \<Rightarrow> jpeg_lib \<Rightarrow> transport \<Rightarrow>
     encoder_config \<Rightarrow> vlm_config \<Rightarrow> cfloat \<Rightarrow> cfloat \<Rightarrow> vlm_task \<Rightarrow> log_entry option" where
  "task_entry L i64 what tj tr ecfg vcfg enc_ms total_ms t =
     (let enc = encode tj ecfg (list_memory (vt_rgb t)) (vt_width t) (vt_height t) (vt_row_bytes t);
          jpeg = (case enc of Inl _ \<Rightarrow> [] | Inr b \<Rightarrow> b);
          resp = (case enc of
                    Inl _ \<Rightarrow> Some vlm_response_init
                  | Inr b \<Rightarrow> fst (infer L i64 what tr vcfg (task_request t b)))
      in case resp of
           None \<Rightarrow> None
         | Some r \<Rightarrow>
             Some \<lparr>le_ts = vt_ts t, le_source = vt_source t, le_rule = vt_rule t, le_dets = vt_meta t,
               le_resp = vr_content r, le_ok = vr_success r,
               le_err = (case enc of Inl e \<Rightarrow> e | Inr _ \<Rightarrow> vr_error r),
               le_encode_ms = enc_ms, le_http_ms = vr_latency r, le_total_ms = total_ms,
               le_frame = vt_frame t, le_jpeg_bytes = length jpeg\<rparr>)"

section \<open>The scaled picture\<close>

lemma length_resize_px [simp]: "length (resize_px src sw sh rb dw dh dy dx) = 3"
  by (simp add: resize_px_def Let_def)

lemma resize_rgb24_shape:
  "length (resize_rgb24 src sw sh rb dw dh) = 3 * (unat dw * unat dh) \<and>
   (\<forall>dy < unat dh. \<forall>dx < unat dw. \<forall>k < 3.
      resize_rgb24 src sw sh rb dw dh ! ((dy * unat dw + dx) * 3 + k) = resize_px src sw sh rb dw dh dy dx ! k)"
proof -
  let ?rows = "concat (map (\<lambda>dy. map (resize_px src sw sh rb dw dh dy) [0..<unat dw]) [0..<unat dh])"
  have all: "\<forall>xs \<in> set ?rows. length xs = 3" by auto
  have len: "length (concat xss) = 3 * length xss" if "\<forall>xs \<in> set xss. length xs = 3" for xss :: "u8 list list"
    using that by (induction xss) auto
  have "concat ?rows ! ((dy * unat dw + dx) * 3 + k) = resize_px src sw sh rb dw dh dy dx ! k"
    if "dy < unat dh" "dx < unat dw" "k < 3" for dy dx k
  proof -
    have "dy * unat dw + dx < length ?rows"
      using index_bound [OF that(1,2)] by (simp add: nv12_rows_length)
    then have "concat ?rows ! ((dy * unat dw + dx) * 3 + k) = ?rows ! (dy * unat dw + dx) ! k"
      using nth_concat_blocks [OF all] that(3) by blast
    also have "?rows ! (dy * unat dw + dx) = resize_px src sw sh rb dw dh dy dx"
      using that(1,2) by (rule nv12_pixel_pos)
    finally show ?thesis .
  qed
  then show ?thesis
    unfolding resize_rgb24_def using len [OF all] nv12_rows_length
    by (simp add: nv12_rows_length)
qed

text \<open>One scaled coordinate, when the product fits.\<close>

lemma scaled_coord:
  assumes "d < unat dst" "unat dst * unat (src :: u32) < 4294967296"
  shows "unat ((of_nat d * src) div dst) = d * unat src div unat dst"
    "d * unat src div unat dst < unat src \<or> unat src = 0"
proof -
  have le: "d * unat src \<le> unat dst * unat src" using assms(1) by simp
  then have small: "d * unat src < 4294967296" using assms(2) by linarith
  have "d < 4294967296" using assms(1) unat_u32_bound [of dst] by linarith
  then have "unat (of_nat d :: u32) = d" by (simp add: unat_of_nat)
  then have "unat (of_nat d * src) = d * unat src" using small by (simp add: unat_word_ariths)
  then show "unat ((of_nat d * src) div dst) = d * unat src div unat dst" by (simp add: unat_div)
  show "d * unat src div unat dst < unat src \<or> unat src = 0"
    using assms(1) by (cases "unat src = 0") (simp_all add: div_less_iff_less_mult mult.commute)
qed

text \<open>
  Scaling is nearest neighbour and stays inside the source: for sizes whose products fit in
  32 bits, the result has exactly three bytes per target pixel, the pixel (dx, dy) is the source pixel
  (dx * sw / dw, dy * sh / dh), and every byte it reads lies in the source picture; with
  equal sizes and packed rows scaling changes nothing.
\<close>

theorem resize_nearest:
  assumes "unat dst_w * unat src_w < 4294967296" "unat dst_h * unat src_h < 4294967296"
    and "unat src_h * unat row_bytes < 4294967296" "3 * unat src_w \<le> unat row_bytes" "0 < unat src_w" "0 < unat src_h"
  shows "length (resize_rgb24 src src_w src_h row_bytes dst_w dst_h) = 3 * (unat dst_w * unat dst_h) \<and>
    (\<forall>dy < unat dst_h. \<forall>dx < unat dst_w. \<forall>k < 3.
       let a = (dy * unat src_h div unat dst_h) * unat row_bytes + 3 * (dx * unat src_w div unat dst_w) + k
       in resize_rgb24 src src_w src_h row_bytes dst_w dst_h ! ((dy * unat dst_w + dx) * 3 + k) = src a \<and>
          a < unat src_h * unat row_bytes)"
proof -
  have "resize_px src src_w src_h row_bytes dst_w dst_h dy dx ! k = src a \<and> a < unat src_h * unat row_bytes"
    if d: "dy < unat dst_h" "dx < unat dst_w" "k < 3"
      and a: "a = (dy * unat src_h div unat dst_h) * unat row_bytes + 3 * (dx * unat src_w div unat dst_w) + k"
    for dy dx k a
  proof -
    define sy where "sy = (of_nat dy * src_h) div dst_h"
    define sx where "sx = (of_nat dx * src_w) div dst_w"
    have sy: "unat sy = dy * unat src_h div unat dst_h" "unat sy < unat src_h"
      using scaled_coord [OF d(1) assms(2)] assms(6) by (auto simp: sy_def)
    have sx: "unat sx = dx * unat src_w div unat dst_w" "unat sx < unat src_w"
      using scaled_coord [OF d(2) assms(1)] assms(5) by (auto simp: sx_def)
    have row: "unat sy * unat row_bytes + unat row_bytes \<le> unat src_h * unat row_bytes"
      using mult_le_mono1 [of "Suc (unat sy)" "unat src_h" "unat row_bytes"] sy(2) by simp
    have "unat (sy * row_bytes) = unat sy * unat row_bytes"
      using row assms(3) by (simp add: unat_word_ariths)
    moreover have "unat (sx * 3) = 3 * unat sx"
      using sx(2) assms(4) unat_u32_bound [of row_bytes] by (simp add: unat_word_ariths)
    ultimately have "resize_px src src_w src_h row_bytes dst_w dst_h dy dx =
        map (\<lambda>k. src (unat sy * unat row_bytes + 3 * unat sx + k)) [0, 1, 2]"
      by (simp add: resize_px_def Let_def sy_def sx_def)
    moreover have "k = 0 \<or> k = 1 \<or> k = 2" using d(3) by linarith
    moreover have "unat sy * unat row_bytes + 3 * unat sx + k < unat src_h * unat row_bytes"
      using row sx(2) assms(4) d(3) by linarith
    ultimately show ?thesis unfolding a sy(1) [symmetric] sx(1) [symmetric] by auto
  qed
  then show ?thesis using resize_rgb24_shape by (simp add: Let_def)
qed

theorem resize_nearest_witness:
  "resize_rgb24 (\<lambda>i. of_nat i) 2 2 6 1 1 ! 1 = 1 \<and> length (resize_rgb24 (\<lambda>i. of_nat i) 2 2 6 1 1) = 3"
  using resize_nearest [of 1 2 1 2 6 "\<lambda>i. of_nat i"]
  by (auto simp: Let_def dest: spec [of _ 0] dest!: spec [of _ "1 :: nat"])

section \<open>What the log tells\<close>

lemma parse_response_outcome:
  "if vr_success (parse_response L i64 what body lat)
   then vr_error (parse_response L i64 what body lat) = [] \<and>
     (\<exists>j. jl_parse L body = Some j \<and> answer_content j = Some (vr_content (parse_response L i64 what body lat)))
   else vr_error (parse_response L i64 what body lat) \<noteq> []"
  by (auto simp: parse_response_def vlm_response_init_def Let_def split: option.splits)

text \<open>
  C14: The log tells success from failure: a task that runs to its end logs success exactly with
  an empty error; then the picture was encoded, its file written, the transfer succeeded and
  the logged response is the content of the server's answer. Otherwise an error is named, and
  no picture was sent when the encoding failed.
\<close>

theorem task_log_truthful:
  assumes "task_entry L i64 what tj tr ecfg vcfg enc_ms total_ms t = Some e"
  shows "(le_ok e \<longleftrightarrow> le_err e = []) \<and>
    (le_ok e \<longrightarrow> (\<exists>jpeg body answer j.
       encode tj ecfg (list_memory (vt_rgb t)) (vt_width t) (vt_height t) (vt_row_bytes t) = Inr jpeg \<and>
       le_jpeg_bytes e = length jpeg \<and> cu_fopen tr (frame_path (vt_frame t)) \<and>
       build_request_body L vcfg (task_request t jpeg) (''file://'' @ frame_path (vt_frame t)) = Some body \<and>
       cu_perform tr (vc_server_url vcfg @ ''/v1/chat/completions'') body (vc_timeout vcfg) = Inr answer \<and>
       jl_parse L answer = Some j \<and> answer_content j = Some (le_resp e)))"
proof (cases "encode tj ecfg (list_memory (vt_rgb t)) (vt_width t) (vt_height t) (vt_row_bytes t)")
  case (Inl err)
  then have "err \<noteq> []" by (auto simp: encode_def Let_def split: prod.splits if_splits sum.splits)
  with Inl assms show ?thesis by (auto simp: task_entry_def vlm_response_init_def Let_def)
next
  case (Inr jpeg)
  then obtain r where r: "fst (infer L i64 what tr vcfg (task_request t jpeg)) = Some r"
    and e: "le_ok e = vr_success r" "le_err e = vr_error r" "le_resp e = vr_content r" "le_jpeg_bytes e = length jpeg"
    using assms by (auto simp: task_entry_def Let_def split: option.splits)
  have fr: "vq_frame (task_request t jpeg) = vt_frame t" by (simp add: task_request_def)
  show ?thesis
  proof (cases "cu_init tr \<and> cu_fopen tr (frame_path (vt_frame t))")
    case False
    then show ?thesis using r e by (auto simp: infer_def fr vlm_response_init_def Let_def split: if_splits)
  next
    case True
    then obtain body where body:
      "build_request_body L vcfg (task_request t jpeg) (''file://'' @ frame_path (vt_frame t)) = Some body"
      using r by (auto simp: infer_def fr Let_def split: option.splits)
    show ?thesis
    proof (cases "cu_perform tr (vc_server_url vcfg @ ''/v1/chat/completions'') body (vc_timeout vcfg)")
      case (Inl err)
      with True body r e show ?thesis by (auto simp: infer_def fr vlm_response_init_def Let_def)
    next
      case (Inr answer)
      with True body r have "r = parse_response L i64 what answer (cu_latency tr)"
        by (auto simp: infer_def fr Let_def)
      with parse_response_outcome [of L i64 what answer "cu_latency tr"] True body Inr e
        \<open>encode _ _ _ _ _ _ = _\<close> show ?thesis by (auto split: if_splits)
    qed
  qed
qed

definition example_task_lib :: json_lib where
  "example_task_lib = example_lib\<lparr>jl_parse := (\<lambda>_.
     Some (JObj [(''choices'', JArr [JObj [(''message'', JObj [(''content'', JStr ''ok'')])]])]))\<rparr>"

theorem task_log_truthful_witness:
  "\<exists>e. task_entry example_task_lib (\<lambda>_. None) (\<lambda>_. []) \<lparr>tj_init = True, tj_compress = (\<lambda>_ _ _ _ _. Inr [1, 2])\<rparr>
      \<lparr>cu_init = True, cu_fopen = (\<lambda>_. True), cu_perform = (\<lambda>_ _ _. Inr []), cu_latency = Fin 1\<rparr>
      encoder_config_default vlm_config_default (Fin 1) (Fin 2)
      \<lparr>vt_rgb = [], vt_width = 448, vt_height = 448, vt_row_bytes = 1344, vt_prompt = [], vt_source = 0,
       vt_rule = [], vt_ts = 0, vt_frame = 0, vt_meta = []\<rparr> = Some e \<and> le_ok e \<and> le_err e = []"
  (is "\<exists>e. ?t = Some e \<and> _")
proof -
  have "\<exists>e. ?t = Some e \<and> le_resp e = ''ok'' \<and> le_ok e"
    by (simp add: task_entry_def encode_def encoder_config_default_def infer_def task_request_def build_request_body_def
        example_task_lib_def example_lib_def parse_response_def answer_content_def jfind_def first_element_def
        vlm_response_init_def Let_def)
  then obtain e where e: "?t = Some e" "le_ok e" by blast
  with task_log_truthful [OF e(1)] show ?thesis by blast
qed

end
