(* ===== verification/ConsumerDemo.thy ===== *)
theory ConsumerDemo
  imports Consumer Relay ThreadPool Prompt VlmTask
begin

text \<open>
  The consumer program (\<open>dmabuf_consumer/demo/consumer_demo.cpp\<close>): its options, the start
  sequence, the reading of relayed frames with its peek at the first four bytes, the
  vision-language stage with its drop policy, and the loop that maps, uses and releases one
  frame per turn. The pool, the consumer and the prompt are those of their theories.
\<close>

section \<open>Options\<close>

record demo_options =
  op_socket :: string
  op_relay :: string
  op_frames :: int
  op_output :: string
  op_max_ppm :: int
  op_ppm_ms :: int
  op_vlm :: bool
  op_url :: string
  op_prompt :: string
  op_threads :: int
  op_queue :: int
  op_quality :: int
  op_timeout :: int
  op_jsonl :: string
  op_policy :: string

definition demo_defaults :: demo_options where
  "demo_defaults = \<lparr>op_socket = ''/tmp/dmabuf_ipc.sock'', op_relay = ''/tmp/iq9_rule_relay.sock'',
     op_frames = 100, op_output = ''./ppm_output/'', op_max_ppm = 10, op_ppm_ms = 1000, op_vlm = False,
     op_url = ''http://127.0.0.1:8000'', op_prompt = ''Describe image'', op_threads = 2, op_queue = 16,
     op_quality = 80, op_timeout = 30, op_jsonl = ''/tmp/vlm_responses.jsonl'', op_policy = ''drop-newest''\<rparr>"

text \<open>\<open>std::atoi\<close>: blanks, a sign, the digits up to the first other character.\<close>

definition atoi :: "string \<Rightarrow> int" where
  "atoi s =
     (let t = dropWhile (\<lambda>c. c = CHR '' '' \<or> c \<in> {CHR 0x09, CHR 0x0A, CHR 0x0B, CHR 0x0C, CHR 0x0D}) s;
          neg = (t \<noteq> [] \<and> hd t = CHR ''-'');
          u = (if t \<noteq> [] \<and> (hd t = CHR ''-'' \<or> hd t = CHR ''+'') then tl t else t);
          n = int (read_nat (takeWhile is_digit u))
      in if neg then - n else n)"

definition is_flag :: "string \<Rightarrow> bool" where
  "is_flag a \<longleftrightarrow> a \<noteq> [] \<and> hd a = CHR ''-''"

text \<open>The positional arguments, at most six are used, and the flags behind them.\<close>

definition parse_positional :: "string list \<Rightarrow> demo_options \<Rightarrow> demo_options" where
  "parse_positional ps o0 =
     (let o1 = (if length ps > 0 then o0\<lparr>op_socket := ps ! 0\<rparr> else o0);
          o2 = (if length ps > 1 then o1\<lparr>op_relay := ps ! 1\<rparr> else o1);
          o3 = (if length ps > 2 then o2\<lparr>op_frames := atoi (ps ! 2)\<rparr> else o2);
          o4 = (if length ps > 3 then o3\<lparr>op_output := ps ! 3\<rparr> else o3);
          o5 = (if length ps > 4 then o4\<lparr>op_max_ppm := atoi (ps ! 4)\<rparr> else o4)
      in if length ps > 5 then o5\<lparr>op_ppm_ms := atoi (ps ! 5)\<rparr> else o5)"

definition set_option :: "string \<Rightarrow> string \<Rightarrow> demo_options \<Rightarrow> demo_options option" where
  "set_option a v opts =
     (if a = ''--vlm-url'' then Some (opts\<lparr>op_url := v\<rparr>)
      else if a = ''--vlm-prompt'' then Some (opts\<lparr>op_prompt := v\<rparr>)
      else if a = ''--vlm-threads'' then Some (opts\<lparr>op_threads := atoi v\<rparr>)
      else if a = ''--vlm-queue'' then Some (opts\<lparr>op_queue := atoi v\<rparr>)
      else if a = ''--vlm-jpeg-quality'' then Some (opts\<lparr>op_quality := atoi v\<rparr>)
      else if a = ''--vlm-timeout'' then Some (opts\<lparr>op_timeout := atoi v\<rparr>)
      else if a = ''--vlm-jsonl'' then Some (opts\<lparr>op_jsonl := v\<rparr>)
      else if a = ''--vlm-drop-policy'' then Some (opts\<lparr>op_policy := v\<rparr>)
      else None)"

text \<open>None: the usage is printed and the program ends.\<close>

fun parse_flags :: "string list \<Rightarrow> demo_options \<Rightarrow> demo_options option" where
  "parse_flags [] opts = Some opts"
| "parse_flags [a] opts =
     (if a = ''--vlm-enabled'' then Some (opts\<lparr>op_vlm := True\<rparr>)
      else if a = ''--help'' \<or> a = ''-h'' then None else Some opts)"
| "parse_flags (a # v # rest) opts =
     (if a = ''--vlm-enabled'' then parse_flags (v # rest) (opts\<lparr>op_vlm := True\<rparr>)
      else case set_option a v opts of
        Some opts' \<Rightarrow> parse_flags rest opts'
      | None \<Rightarrow> if a = ''--help'' \<or> a = ''-h'' then None else parse_flags (v # rest) opts)"

definition parse_args :: "string list \<Rightarrow> demo_options option" where
  "parse_args args =
     parse_flags (dropWhile (\<lambda>a. \<not> is_flag a) args)
       (parse_positional (takeWhile (\<lambda>a. \<not> is_flag a) args) demo_defaults)"

section \<open>Start\<close>

record listen_env =
  li_socket :: int
  li_bind :: "string \<Rightarrow> int"
  li_listen :: int
  li_accept :: int

datatype demo_error =
    RelaySocketFailed | RelayBindFailed | RelayListenFailed | RelayAcceptFailed
  | DemoInitFailed consumer_error

definition open_relay :: "listen_env \<Rightarrow> string \<Rightarrow> (demo_error + int) \<times> os_event list" where
  "open_relay env path =
     (let fd = li_socket env in
      if fd < 0 then (Inl RelaySocketFailed, [Unlink path])
      else if li_bind env (take 107 path) < 0 then (Inl RelayBindFailed, [Unlink path, Close fd])
      else if li_listen env < 0 then (Inl RelayListenFailed, [Unlink path, Close fd, Unlink path])
      else if li_accept env < 0 then (Inl RelayAcceptFailed, [Unlink path, Close fd, Unlink path])
      else (Inr (li_accept env), [Unlink path, Close fd]))"

definition demo_start ::
  "listen_env \<Rightarrow> receiver_env \<Rightarrow> (u64 \<Rightarrow> int \<Rightarrow> u64 option) \<Rightarrow> demo_options \<Rightarrow>
     (demo_error + int \<times> consumer) \<times> os_event list" where
  "demo_start lenv renv do_mmap opts =
     (case open_relay lenv (op_relay opts) of
        (Inl e, evs) \<Rightarrow> (Inl e, evs)
      | (Inr relay_fd, evs) \<Rightarrow>
          (case consumer_init renv do_mmap (op_socket opts) consumer_new of
             (Inl e, _, evs') \<Rightarrow>
               (Inl (DemoInitFailed e), evs @ evs' @ [Close relay_fd, Unlink (op_relay opts)])
           | (Inr _, c, evs') \<Rightarrow> (Inr (relay_fd, c), evs @ evs')))"

definition demo_end :: "int \<Rightarrow> demo_options \<Rightarrow> consumer \<Rightarrow> os_event list" where
  "demo_end relay_fd opts c = [Close relay_fd, Unlink (op_relay opts)] @ snd (consumer_shutdown c)"

section \<open>Reading a relayed frame\<close>

text \<open>The relay stream comes in segments; a peek sees at most the first one and takes nothing.\<close>

definition recv_exact :: "u8 list list \<Rightarrow> nat \<Rightarrow> bool \<times> u8 list \<times> u8 list list" where
  "recv_exact segs n = recv_all segs n []"

definition peek_u32 :: "u8 list list \<Rightarrow> u32 option" where
  "peek_u32 segs =
     (case segs of [] \<Rightarrow> None | seg # _ \<Rightarrow> if length seg < 4 then None else Some (dec_u32 (take 4 seg)))"

datatype relay_input = NoMore | BadFraming | Task string task_packet

definition bytes_string :: "u8 list \<Rightarrow> string" where
  "bytes_string bs = map (\<lambda>b. char_of (unat b)) bs"

definition read_packet :: "string \<Rightarrow> u8 list list \<Rightarrow> relay_input \<times> u8 list list" where
  "read_packet meta segs =
     (case recv_exact segs 32 of
        (False, _, rest) \<Rightarrow> (NoMore, rest)
      | (True, bs, rest) \<Rightarrow> (Task meta (task_packet_of_bytes bs), rest))"

definition read_relay :: "u8 list list \<Rightarrow> relay_input \<times> u8 list list" where
  "read_relay segs =
     (case peek_u32 segs of
        None \<Rightarrow> (NoMore, segs)
      | Some peek \<Rightarrow>
          if peek = IQ9_TASK_MAGIC then read_packet [] segs
          else if 0 < peek \<and> peek < 65536 then
            (case recv_exact segs 4 of
               (False, _, rest) \<Rightarrow> (NoMore, rest)
             | (True, lb, rest) \<Rightarrow>
                 (case recv_exact rest (unat (dec_u32 lb)) of
                    (False, _, rest') \<Rightarrow> (NoMore, rest')
                  | (True, mb, rest') \<Rightarrow> read_packet (bytes_string mb) rest'))
          else (BadFraming, segs))"

section \<open>One turn of the loop\<close>

record demo =
  dm_consumer :: consumer
  dm_segs :: "u8 list list"
  dm_frames :: int
  dm_ppms :: int
  dm_next_ppm :: u64
  dm_vlm_num :: u64
  dm_pool :: "vlm_task tpool"
  dm_written :: "(int \<times> frame) list"
  dm_sent :: "io_event list"

text \<open>
  What the world gives in one turn: the mapped memory, the time of cache synchronisation, the
  answer of \<open>send\<close>, and what the workers of the pool do before each of its calls.
\<close>

record turn_env =
  tu_mem :: "u64 \<Rightarrow> u8"
  tu_sync :: u64
  tu_send :: int
  tu_work :: "nat \<Rightarrow> vlm_task tpool \<Rightarrow> vlm_task tpool"

definition frame_copy :: "(u64 \<Rightarrow> u8) \<Rightarrow> frame \<Rightarrow> u8 list" where
  "frame_copy mem fr = map (\<lambda>i. mem (fr_data fr + of_nat i)) [0..<unat (fr_data_size fr)]"

definition make_task :: "(u64 \<Rightarrow> u8) \<Rightarrow> string \<Rightarrow> string \<Rightarrow> task_packet \<Rightarrow> frame \<Rightarrow> u64 \<Rightarrow> vlm_task option" where
  "make_task mem tmpl meta pkt fr num =
     (case build_prompt meta tmpl of
        None \<Rightarrow> None
      | Some prompt \<Rightarrow>
          Some \<lparr>vt_rgb = frame_copy mem fr, vt_width = fr_width fr, vt_height = fr_height fr,
            vt_row_bytes = fr_width fr * 3, vt_prompt = prompt, vt_source = int_of_u32 (tp_slot_index pkt),
            vt_rule = (if meta = [] then [] else extract_rule [] meta), vt_ts = tp_timestamp_ns pkt,
            vt_frame = num, vt_meta = meta\<rparr>)"

text \<open>Handing a task to the pool, with the drop policy when the queue is full.\<close>

definition submit_or_drop ::
  "string \<Rightarrow> (nat \<Rightarrow> 'a tpool \<Rightarrow> 'a tpool) \<Rightarrow> 'a \<Rightarrow> 'a tpool \<Rightarrow> 'a tpool" where
  "submit_or_drop policy work t pool =
     (let (ok, p1) = tp_submit t (work 0 pool)
      in if ok then p1
         else if policy = ''drop-oldest'' then
           let (_, p2) = tp_evict_oldest (work 1 p1); (_, p3) = tp_submit t (work 2 p2) in p3
         else p1)"

definition vlm_stage ::
  "demo_options \<Rightarrow> turn_env \<Rightarrow> string \<Rightarrow> task_packet \<Rightarrow> frame \<Rightarrow> demo \<Rightarrow> demo option" where
  "vlm_stage opts env meta pkt fr st =
     (if op_vlm opts \<and> tp_data_type pkt = pixel_format_u32 PIXEL_FMT_RGB24 then
        case make_task (tu_mem env) (op_prompt opts) meta pkt fr (dm_vlm_num st) of
          None \<Rightarrow> None
        | Some t \<Rightarrow> Some (st\<lparr>dm_vlm_num := dm_vlm_num st + 1,
            dm_pool := submit_or_drop (op_policy opts) (tu_work env) t (dm_pool st)\<rparr>)
      else Some st)"

definition ppm_interval :: "demo_options \<Rightarrow> u64" where
  "ppm_interval opts = u64_of_int (op_ppm_ms opts) * 1000000"

definition dump_stage :: "demo_options \<Rightarrow> frame \<Rightarrow> demo \<Rightarrow> demo" where
  "dump_stage opts fr st =
     (if dm_ppms st < op_max_ppm opts \<and> (ppm_interval opts = 0 \<or> fr_timestamp_ns fr \<ge> dm_next_ppm st)
      then st\<lparr>dm_written := dm_written st @ [(dm_ppms st, fr)],
              dm_next_ppm := fr_timestamp_ns fr + ppm_interval opts, dm_ppms := dm_ppms st + 1\<rparr>
      else st)"

text \<open>True: the loop goes on. None: the turn does not end (a prompt that is replaced for ever).\<close>

definition demo_step :: "demo_options \<Rightarrow> turn_env \<Rightarrow> demo \<Rightarrow> (bool \<times> demo) option" where
  "demo_step opts env st =
     (case read_relay (dm_segs st) of
        (NoMore, rest) \<Rightarrow> Some (False, st\<lparr>dm_segs := rest\<rparr>)
      | (BadFraming, rest) \<Rightarrow> Some (True, st\<lparr>dm_segs := rest\<rparr>)
      | (Task meta pkt, rest) \<Rightarrow>
          let st = st\<lparr>dm_segs := rest\<rparr> in
          if tp_magic pkt \<noteq> IQ9_TASK_MAGIC then Some (True, st)
          else
            case map_frame (tu_sync env) pkt (dm_consumer st) of
              (Inl _, c) \<Rightarrow> Some (False, st\<lparr>dm_consumer := c\<rparr>)
            | (Inr fr, c) \<Rightarrow>
                (case vlm_stage opts env meta pkt fr (st\<lparr>dm_consumer := c\<rparr>) of
                   None \<Rightarrow> None
                 | Some st \<Rightarrow>
                     let st = dump_stage opts fr st in
                     (case release_frame (tu_send env) (tu_sync env) fr (dm_consumer st) of
                        (Inl _, c, ev) \<Rightarrow> Some (False, st\<lparr>dm_consumer := c, dm_sent := dm_sent st @ ev\<rparr>)
                      | (Inr _, c, ev) \<Rightarrow>
                          Some (True, st\<lparr>dm_consumer := c, dm_sent := dm_sent st @ ev,
                            dm_frames := dm_frames st + 1\<rparr>))))"

text \<open>\<open>shut k\<close>: the shutdown flag at the head of turn k. None: the loop does not end.\<close>

partial_function (option) demo_loop ::
  "demo_options \<Rightarrow> (nat \<Rightarrow> turn_env) \<Rightarrow> (nat \<Rightarrow> bool) \<Rightarrow> nat \<Rightarrow> demo \<Rightarrow> demo option" where
  "demo_loop opts envs shut k st =
     (if \<not> (dm_frames st < op_frames opts \<and> \<not> shut k) then Some st
      else case demo_step opts (envs k) st of
        None \<Rightarrow> None
      | Some (go, st') \<Rightarrow> if go then demo_loop opts envs shut (Suc k) st' else Some st')"

section \<open>Across the socket\<close>

lemma char_of_byte: "char_of (unat (of_char c :: u8)) = c"
proof -
  have "(of_char c :: u8) = of_nat (of_char c)" by (simp only: of_nat_of_char)
  then have "unat (of_char c :: u8) = of_char c" by (simp only: unat_byte nat_of_char_less_256)
  then show ?thesis by simp
qed

lemma bytes_string_string_bytes [simp]: "bytes_string (string_bytes s) = s"
  by (simp add: bytes_string_def string_bytes_def char_of_byte comp_def)

lemma recv_exact_next:
  assumes "concat segs = bs @ later" "\<forall>seg \<in> set segs. seg \<noteq> []"
  shows "\<exists>rest. recv_exact segs (length bs) = (True, bs, rest) \<and> concat rest = later \<and> (\<forall>seg \<in> set rest. seg \<noteq> [])"
proof -
  have "length bs \<le> length (concat segs)" by (simp add: assms(1))
  from recv_all_ok [OF assms(2) this, of "[]"] show ?thesis
    unfolding assms(1) by (auto simp: recv_exact_def)
qed

lemma read_packet_next:
  assumes "concat segs = task_packet_bytes pkt @ later" "\<forall>seg \<in> set segs. seg \<noteq> []"
  shows "\<exists>rest. read_packet meta segs = (Task meta pkt, rest) \<and> concat rest = later \<and> (\<forall>seg \<in> set rest. seg \<noteq> [])"
proof -
  have len: "length (task_packet_bytes pkt) = 32" by (rule c_task.length_enc)
  from recv_exact_next [OF assms] obtain rest where
    "recv_exact segs 32 = (True, task_packet_bytes pkt, rest)" "concat rest = later" "\<forall>seg \<in> set rest. seg \<noteq> []"
    unfolding len by blast
  then show ?thesis by (simp add: read_packet_def c_task.dec_enc)
qed

lemma peek_first:
  assumes "concat segs = enc_u32 n @ later" "segs \<noteq> []" "4 \<le> length (hd segs)"
  shows "peek_u32 segs = Some n"
proof -
  obtain seg others where seg: "segs = seg # others" using assms(2) by (cases segs) auto
  then have "take 4 seg = take 4 (concat segs)" using assms(3) by simp
  also have "\<dots> = enc_u32 n" unfolding assms(1) by simp
  finally show ?thesis using seg assms(3) by (simp add: peek_u32_def)
qed



section \<open>Bad framing\<close>

lemma bad_framing_turn:
  assumes "read_relay (dm_segs st) = (BadFraming, dm_segs st)"
  shows "demo_step opts env st = Some (True, st)"
  using assms by (simp add: demo_step_def)

text \<open>
  Bad framing never ends: when the first four bytes of the stream are neither the
  packet magic nor a length from 1 to 65535, the turn goes on without taking them, so
  without a shutdown signal the loop does not return, whatever else happens.
\<close>

theorem bad_framing_livelock:
  assumes "peek_u32 (dm_segs st) = Some w" "w \<noteq> IQ9_TASK_MAGIC" "w = 0 \<or> 65536 \<le> w"
    and "dm_frames st < op_frames opts" "\<forall>k. \<not> shut k"
  shows "demo_loop opts envs shut k st = None"
proof -
  have "\<not> (0 < w \<and> w < 65536)" using assms(3) by (auto simp: not_less)
  then have bad: "read_relay (dm_segs st) = (BadFraming, dm_segs st)"
    using assms(1,2) by (auto simp: read_relay_def)
  have "\<not> (read_relay (dm_segs s) = (BadFraming, dm_segs s) \<and> dm_frames s < op_frames os \<and> (\<forall>k. \<not> sh k))"
    if "demo_loop os es sh k s = Some t" for os es sh k s t
  proof (rule demo_loop.raw_induct [where P = "\<lambda>os es sh k s t.
      \<not> (read_relay (dm_segs s) = (BadFraming, dm_segs s) \<and> dm_frames s < op_frames os \<and> (\<forall>k. \<not> sh k))", OF _ that],
      rule notI)
    fix f :: "demo_options \<Rightarrow> (nat \<Rightarrow> turn_env) \<Rightarrow> (nat \<Rightarrow> bool) \<Rightarrow> nat \<Rightarrow> demo \<Rightarrow> demo option"
      and opts envs shut k st t
    assume ih: "\<And>os es sh k s t. f os es sh k s = Some t \<Longrightarrow>
        \<not> (read_relay (dm_segs s) = (BadFraming, dm_segs s) \<and> dm_frames s < op_frames os \<and> (\<forall>k. \<not> sh k))"
      and eq: "(if \<not> (dm_frames st < op_frames opts \<and> \<not> shut k) then Some st
        else case demo_step opts (envs k) st of None \<Rightarrow> None
          | Some (go, st') \<Rightarrow> if go then f opts envs shut (Suc k) st' else Some st') = Some t"
      and c: "read_relay (dm_segs st) = (BadFraming, dm_segs st) \<and> dm_frames st < op_frames opts \<and> (\<forall>k. \<not> shut k)"
    then have "f opts envs shut (Suc k) st = Some t" by (simp add: bad_framing_turn)
    with ih c show False by blast
  qed
  with bad assms(4,5) show ?thesis by (cases "demo_loop opts envs shut k st") blast+
qed

definition example_demo :: "u8 list list \<Rightarrow> demo" where
  "example_demo segs = \<lparr>dm_consumer = example_consumer, dm_segs = segs, dm_frames = 0, dm_ppms = 0,
     dm_next_ppm = 0, dm_vlm_num = 0, dm_pool = tp_new 2 16, dm_written = [], dm_sent = []\<rparr>"

definition example_turn :: turn_env where
  "example_turn = \<lparr>tu_mem = (\<lambda>_. 0), tu_sync = 0, tu_send = 12, tu_work = (\<lambda>_ p. p)\<rparr>"

theorem bad_framing_livelock_witness:
  "demo_loop demo_defaults (\<lambda>_. example_turn) (\<lambda>_. False) 0 (example_demo [[0, 0, 0, 0]]) = None"
proof (rule bad_framing_livelock)
  show "peek_u32 (dm_segs (example_demo [[0, 0, 0, 0]])) = Some 0"
    by (simp add: example_demo_def peek_u32_def dec_u32_def)
qed (simp_all add: magic_defs example_demo_def demo_defaults_def)

section \<open>The drop policy\<close>

text \<open>
  The drop policy: when no worker takes anything meanwhile and the pool accepts
  tasks, a new task is queued last if there is room; if the queue is full, drop-oldest
  removes exactly the oldest queued task and queues the new one, and any other policy drops
  the new task and leaves the queue alone. The queue never exceeds its bound.
\<close>

theorem drop_policy:
  assumes "\<not> tq_stop pool" "length (tq_queue pool) \<le> tq_max pool" "0 < tq_max pool" "\<forall>i p. work i p = p"
  shows "tq_queue (submit_or_drop policy work t pool) =
      (if length (tq_queue pool) < tq_max pool then tq_queue pool @ [t]
       else if policy = ''drop-oldest'' then tl (tq_queue pool) @ [t]
       else tq_queue pool) \<and>
    length (tq_queue (submit_or_drop policy work t pool)) \<le> tq_max pool"
proof (cases "length (tq_queue pool) < tq_max pool")
  case True
  then show ?thesis using assms by (simp add: submit_or_drop_def tp_submit_def)
next
  case False
  then obtain q qs where "tq_queue pool = q # qs" using assms by (cases "tq_queue pool") auto
  with False assms show ?thesis by (simp add: submit_or_drop_def tp_submit_def tp_evict_oldest_def)
qed

theorem drop_policy_witness:
  "tq_queue (submit_or_drop ''drop-oldest'' (\<lambda>_ p. p) 9 ((tp_new 1 1)\<lparr>tq_queue := [7 :: nat]\<rparr>)) = [9]"
  using drop_policy [of "(tp_new 1 1)\<lparr>tq_queue := [7 :: nat]\<rparr>" "\<lambda>_ p. p" "''drop-oldest''" 9]
  by (simp add: tp_new_def)

section \<open>One frame, one release\<close>

definition demo_wf :: "demo_options \<Rightarrow> demo \<Rightarrow> bool" where
  "demo_wf opts st \<longleftrightarrow> 0 \<le> dm_ppms st \<and> dm_ppms st \<le> max 0 (op_max_ppm opts) \<and>
     map fst (dm_written st) = map int [0..<nat (dm_ppms st)]"

lemma vlm_stage_keeps:
  "vlm_stage opts env meta pkt fr st = Some st' \<Longrightarrow>
     dm_consumer st' = dm_consumer st \<and> dm_segs st' = dm_segs st \<and> dm_frames st' = dm_frames st \<and>
     dm_ppms st' = dm_ppms st \<and> dm_written st' = dm_written st \<and> dm_sent st' = dm_sent st"
  by (auto simp: vlm_stage_def split: if_splits option.splits)

lemma dump_stage_wf: "demo_wf opts st \<Longrightarrow> demo_wf opts (dump_stage opts fr st)"
  by (auto simp: demo_wf_def dump_stage_def nat_add_distrib)

lemma dump_stage_keeps:
  "dm_consumer (dump_stage opts fr st) = dm_consumer st \<and> dm_frames (dump_stage opts fr st) = dm_frames st \<and>
   dm_sent (dump_stage opts fr st) = dm_sent st"
  by (simp add: dump_stage_def)

lemma release_frame_sent:
  "release_frame n us fr c = (Inr (), c', ev) \<Longrightarrow>
     ev = [SendBytes (release_packet_bytes \<lparr>rp_magic = IQ9_RELEASE_MAGIC, rp_slot_index = fr_slot_index fr, rp_status = 0\<rparr>)]"
  by (auto simp: release_frame_def send_release_def sent_bytes_def Let_def c_release.length_enc
      split: if_splits sum.splits prod.splits)

text \<open>
  One turn of the consumer: when it counts a frame, the frame was read whole with the
  right magic, lies in a slot of the producer, and exactly one release packet for that
  slot was sent; when it does not, nothing was sent unless the loop ends with a send
  error. The pictures written are numbered from 0 without gaps and never later than asked.
\<close>

theorem demo_turn:
  assumes "demo_step opts env st = Some (go, st')" "demo_wf opts st"
  shows "demo_wf opts st' \<and>
    (if dm_frames st' = dm_frames st + 1
     then go \<and> (\<exists>meta pkt rest fr c. read_relay (dm_segs st) = (Task meta pkt, rest) \<and> tp_magic pkt = IQ9_TASK_MAGIC \<and>
        map_frame (tu_sync env) pkt (dm_consumer st) = (Inr fr, c) \<and> fr_slot_index fr = tp_slot_index pkt \<and>
        dm_segs st' = rest \<and>
        dm_sent st' = dm_sent st @ [SendBytes (release_packet_bytes
           \<lparr>rp_magic = IQ9_RELEASE_MAGIC, rp_slot_index = tp_slot_index pkt, rp_status = 0\<rparr>)])
     else dm_frames st' = dm_frames st \<and> (go \<longrightarrow> dm_sent st' = dm_sent st))"
proof -
  have wf_segs: "demo_wf opts (s\<lparr>dm_segs := r\<rparr>) = demo_wf opts s" for s r by (simp add: demo_wf_def)
  have wf_cons: "demo_wf opts (s\<lparr>dm_consumer := c\<rparr>) = demo_wf opts s" for s c by (simp add: demo_wf_def)
  obtain inp rest where rd: "read_relay (dm_segs st) = (inp, rest)" by force
  show ?thesis
  proof (cases inp)
    case (Task meta pkt)
    show ?thesis
    proof (cases "tp_magic pkt = IQ9_TASK_MAGIC")
      case False
      then show ?thesis using assms rd Task by (auto simp: demo_step_def demo_wf_def)
    next
      case True
      obtain res c where mf: "map_frame (tu_sync env) pkt (dm_consumer st) = (res, c)" by force
      show ?thesis
      proof (cases res)
        case (Inl e)
        then show ?thesis using assms rd Task True mf by (auto simp: demo_step_def demo_wf_def)
      next
        case (Inr fr)
        have slot: "fr_slot_index fr = tp_slot_index pkt"
          using mf Inr by (auto simp: map_frame_def Let_def split: if_splits)
        define s0 where "s0 = st\<lparr>dm_segs := rest, dm_consumer := c\<rparr>"
        obtain s1 where s1: "vlm_stage opts env meta pkt fr s0 = Some s1"
          using assms(1) rd Task True mf Inr by (auto simp: demo_step_def Let_def s0_def split: option.splits)
        define s2 where "s2 = dump_stage opts fr s1"
        obtain r c' ev where rel: "release_frame (tu_send env) (tu_sync env) fr (dm_consumer s2) = (r, c', ev)"
          using prod_cases3 by blast
        have s1k: "dm_frames s1 = dm_frames st" "dm_sent s1 = dm_sent st" "dm_segs s1 = rest" "demo_wf opts s1"
          using vlm_stage_keeps [OF s1] assms(2) by (auto simp: s0_def demo_wf_def)
        then have s2k: "dm_frames s2 = dm_frames st" "dm_sent s2 = dm_sent st" "dm_segs s2 = rest" "demo_wf opts s2"
          using dump_stage_keeps [of opts fr s1] dump_stage_wf [of opts s1 fr]
          by (auto simp: s2_def dump_stage_def)
        have "demo_step opts env st = (case r of
            Inl _ \<Rightarrow> Some (False, s2\<lparr>dm_consumer := c', dm_sent := dm_sent s2 @ ev\<rparr>)
          | Inr _ \<Rightarrow> Some (True, s2\<lparr>dm_consumer := c', dm_sent := dm_sent s2 @ ev, dm_frames := dm_frames s2 + 1\<rparr>))"
          using rd Task True mf Inr s1 rel
          by (simp add: demo_step_def Let_def s0_def s2_def split: sum.split)
        moreover have "r = Inr () \<Longrightarrow> ev = [SendBytes (release_packet_bytes
            \<lparr>rp_magic = IQ9_RELEASE_MAGIC, rp_slot_index = tp_slot_index pkt, rp_status = 0\<rparr>)]"
          using rel release_frame_sent [of "tu_send env" "tu_sync env" fr "dm_consumer s2" c' ev] slot by simp
        ultimately show ?thesis using assms(1) s2k rd Task True mf Inr slot
          by (cases r) (auto simp: demo_wf_def)
      qed
    qed
  qed (use assms rd in \<open>auto simp: demo_step_def demo_wf_def\<close>)
qed

theorem demo_turn_witness:
  "\<exists>go st'. demo_step demo_defaults example_turn (example_demo []) = Some (go, st') \<and> demo_wf demo_defaults st' \<and> \<not> go"
proof -
  have "demo_step demo_defaults example_turn (example_demo []) = Some (False, example_demo [])"
    by (simp add: demo_step_def example_demo_def read_relay_def peek_u32_def)
  moreover have "demo_wf demo_defaults (example_demo [])"
    by (simp add: demo_wf_def example_demo_def)
  ultimately show ?thesis using demo_turn by blast
qed

end
