(* ===== verification/FrameCache.thy ===== *)
theory FrameCache
  imports Producer Relay
begin

text \<open>
  The frame cache service (\<open>frame_cache/src/frame_cache_service.cpp\<close>): it owns the producer and
  the subscription to \<open>frame_done\<close>, the second way back for slots beside the release packets
  of the consumer. The last section closes the circle of a scene: what the rule process does
  not relay it names in \<open>frame_done\<close>, and this service frees exactly those slots.
\<close>

section \<open>Model\<close>

record frame_cache =
  fc_producer :: "producer option"
  fc_subscribed :: bool
  fc_inited :: bool

definition frame_cache_new :: frame_cache where
  "frame_cache_new = \<lparr>fc_producer = None, fc_subscribed = False, fc_inited = False\<rparr>"

record frame_cache_params =
  fp_producer :: producer_config
  fp_done_topic :: string
  fp_client_id :: string

datatype frame_cache_error =
    FcAlreadyInitialized
  | FcEmptyTopic
  | FcProducerFailed producer_error
  | FcMqttFailed string

text \<open>\<open>subscribe\<close> is the subscriber's \<open>Initialize\<close> with the client's name: None is success.\<close>

definition fc_init ::
  "heap_env \<Rightarrow> socket_env \<Rightarrow> (string \<Rightarrow> string option) \<Rightarrow> frame_cache_params \<Rightarrow> frame_cache \<Rightarrow>
     (frame_cache_error + unit) \<times> frame_cache \<times> io_event list" where
  "fc_init henv senv subscribe p fc =
     (if fc_inited fc then (Inl FcAlreadyInitialized, fc, [])
      else if fp_done_topic p = [] then (Inl FcEmptyTopic, fc, [])
      else
        case producer_init henv senv (fp_producer p) producer_new of
          (Inl e, _, evs) \<Rightarrow> (Inl (FcProducerFailed e), fc\<lparr>fc_producer := None\<rparr>, evs)
        | (Inr _, pr, evs) \<Rightarrow>
            (case subscribe (fp_client_id p @ ''_frame_done'') of
               Some me \<Rightarrow> (Inl (FcMqttFailed me), fc\<lparr>fc_producer := None, fc_subscribed := False\<rparr>,
                          evs @ snd (producer_shutdown pr))
             | None \<Rightarrow> (Inr (), \<lparr>fc_producer = Some pr, fc_subscribed = True, fc_inited = True\<rparr>, evs)))"

definition fc_shutdown :: "frame_cache \<Rightarrow> frame_cache \<times> io_event list" where
  "fc_shutdown fc =
     (if \<not> fc_inited fc then (fc, [])
      else (frame_cache_new,
            case fc_producer fc of None \<Rightarrow> [] | Some pr \<Rightarrow> snd (producer_shutdown pr)))"

text \<open>
  The loop over the entries: False when a conversion throws; what was released before stays
  released.
\<close>

fun release_loop :: "json_lib \<Rightarrow> json list \<Rightarrow> producer \<Rightarrow> bool \<times> producer" where
  "release_loop L [] pr = (True, pr)"
| "release_loop L (re # res) pr =
     (if \<not> is_object re then release_loop L res pr
      else
        case jvalue (jl_u32 L) re ''slot_index'' 0 of
          None \<Rightarrow> (False, pr)
        | Some slot \<Rightarrow> release_loop L res (snd (release_slot_direct slot pr)))"

text \<open>The message handler; False when an exception leaves it (the subscriber logs it).\<close>

definition on_frame_done :: "json_lib \<Rightarrow> string \<Rightarrow> frame_cache \<Rightarrow> bool \<times> frame_cache" where
  "on_frame_done L payload fc =
     (case fc_producer fc of
        None \<Rightarrow> (True, fc)
      | Some pr \<Rightarrow>
          (case jl_parse L payload of
             None \<Rightarrow> (True, fc)
           | Some j \<Rightarrow>
               (case jvalue get_str j ''type'' [] of
                  None \<Rightarrow> (False, fc)
                | Some ty \<Rightarrow>
                    if ty \<noteq> ''frame_done'' then (True, fc)
                    else
                      case jfind j ''release_entries'' of
                        Some (JArr res) \<Rightarrow>
                          (let (ok, pr') = release_loop L res pr in (ok, fc\<lparr>fc_producer := Some pr'\<rparr>))
                      | _ \<Rightarrow> (True, fc))))"

section \<open>Initialisation and shutdown\<close>

definition fc_wf :: "frame_cache \<Rightarrow> bool" where
  "fc_wf fc \<longleftrightarrow> (fc_inited fc \<longleftrightarrow> fc_producer fc \<noteq> None) \<and> (fc_inited fc \<longleftrightarrow> fc_subscribed fc)"

lemma fc_wf_steps [wf_intros]:
  "fc_wf frame_cache_new"
  "fc_wf fc \<Longrightarrow> fc_wf (fst (snd (fc_init henv senv sub p fc)))"
  "fc_wf fc \<Longrightarrow> fc_wf (fst (fc_shutdown fc))"
  "fc_wf fc \<Longrightarrow> fc_wf (snd (on_frame_done L payload fc))"
  by (auto simp: fc_wf_def frame_cache_new_def fc_init_def fc_shutdown_def on_frame_done_def Let_def
      split: prod.splits sum.splits option.splits json.splits)

section \<open>What a message frees\<close>

definition entry_json :: "u32 \<times> int \<Rightarrow> json" where
  "entry_json e = JObj [(''slot_index'', JInt (int (unat (fst e)))), (''source_id'', JInt (snd e))]"

lemma frame_done_json_entries:
  "frame_done_json es = JObj [(''release_entries'', JArr (map entry_json es)), (''type'', JStr ''frame_done'')]"
  by (simp add: frame_done_json_def entry_json_def case_prod_unfold)

definition release_ops :: "(u32 \<times> int) list \<Rightarrow> slot_op list" where
  "release_ops es = map (\<lambda>e. Release (int_of_u32 (fst e))) es"

lemma release_slot_direct_pool:
  assumes "pr_pool pr = Some pool"
  shows "pr_pool (snd (release_slot_direct w pr)) = Some (slot_step pool (Release (int_of_u32 w)))"
  using assms by (simp add: release_slot_direct_def Let_def case_prod_unfold)

lemma release_loop_entries:
  assumes "\<forall>w :: u32. jl_u32 L (JInt (int (unat w))) = Some w" "pr_pool pr = Some pool"
  shows "\<exists>pr'. release_loop L (map entry_json es) pr = (True, pr') \<and>
    pr_pool pr' = Some (foldl slot_step pool (release_ops es))"
  using assms(2)
proof (induction es arbitrary: pr pool)
  case (Cons e es)
  from Cons(1) [OF release_slot_direct_pool [OF Cons(2), of "fst e"]] show ?case
    using assms(1) by (simp add: entry_json_def jvalue_def release_ops_def)
qed (simp add: release_ops_def)

text \<open>A run of releases frees the named slots that are in flight and touches nothing else.\<close>

lemma release_run_status:
  assumes "pool_wf pool"
  shows "pool_wf (foldl slot_step pool (release_ops es)) \<and>
    slot_status (foldl slot_step pool (release_ops es)) i =
      (if slot_status pool i = Some ON_FLIGHT \<and> i \<in> (int_of_u32 \<circ> fst) ` set es then Some IDLE
       else slot_status pool i)"
  using assms
proof (induction es arbitrary: pool)
  case (Cons e es)
  let ?k = "int_of_u32 (fst e)"
  obtain ok q where q: "release_slot pool ?k = (ok, q)" by force
  have "slot_status (slot_step pool (Release ?k)) i =
      (if slot_status pool i = Some ON_FLIGHT \<and> i = ?k then Some IDLE else slot_status pool i)"
    using sp.rel_law [OF Cons(2) q] q by (cases ok) auto
  moreover have "pool_wf (slot_step pool (Release ?k))" using Cons(2) by (rule slot_step_wf)
  ultimately show ?case
    using Cons(1) [of "slot_step pool (Release ?k)"] by (auto simp: release_ops_def)
qed (simp add: release_ops_def)

lemma on_frame_done_releases:
  assumes "jl_parse L payload = Some (frame_done_json es)"
    and "\<forall>w :: u32. jl_u32 L (JInt (int (unat w))) = Some w"
    and "fc_producer fc = Some pr" "pr_pool pr = Some pool"
  shows "\<exists>pr'. on_frame_done L payload fc = (True, fc\<lparr>fc_producer := Some pr'\<rparr>) \<and>
    pr_pool pr' = Some (foldl slot_step pool (release_ops es))"
proof -
  obtain pr' where pr': "release_loop L (map entry_json es) pr = (True, pr')"
    "pr_pool pr' = Some (foldl slot_step pool (release_ops es))"
    using release_loop_entries [OF assms(2,4)] by blast
  have "on_frame_done L payload fc = (True, fc\<lparr>fc_producer := Some pr'\<rparr>)"
    using assms(1,3) pr'(1)
    by (simp add: on_frame_done_def frame_done_json_entries jvalue_def jfind_def)
  with pr'(2) show ?thesis by blast
qed

text \<open>
  C16: The circle of a scene closes: let the library print frame_done so that it parses back
  and convert slot numbers faithfully, let all slots of the scene be in flight and its sources
  have different numbers. Then after the rule process has handled the scene and the frame
  cache the frame_done it published, every slot of the scene is either idle again or was
  written whole to the relay and still in flight for the consumer to release, and all other
  slots are as before.
\<close>

theorem scene_circle_closes:
  assumes "on_scene L sa se path envs payload st = (Some (es, msg), st')"
    and "adapt_scene_update L (scene_text payload) = Some metas" "distinct (map ev_source_num metas)"
    and "jl_dump L msg = Some done" "jl_parse L done = Some msg"
    and "\<forall>w :: u32. jl_u32 L (JInt (int (unat w))) = Some w"
    and "fc_producer fc = Some pr" "pr_pool pr = Some pool" "pool_wf pool"
    and "distinct (map ev_slot metas)" "\<forall>m \<in> set metas. slot_status pool (int_of_u32 (ev_slot m)) = Some ON_FLIGHT"
  shows "\<exists>relayed pr' pool'. rl_out st' = rl_out st @ relayed \<and>
    on_frame_done L done fc = (True, fc\<lparr>fc_producer := Some pr'\<rparr>) \<and> pr_pool pr' = Some pool' \<and> pool_wf pool' \<and>
    (\<forall>m \<in> set metas. slot_status pool' (int_of_u32 (ev_slot m)) =
       (if ev_slot m \<in> frame_slot ` set (whole_frames relayed) then Some ON_FLIGHT else Some IDLE)) \<and>
    (\<forall>i. i \<notin> (int_of_u32 \<circ> ev_slot) ` set metas \<longrightarrow> slot_status pool' i = slot_status pool i)"
proof -
  obtain relayed where bal: "rl_out st' = rl_out st @ relayed" "msg = frame_done_json es"
    "mset (map frame_slot (whole_frames relayed)) + mset (map fst es) = mset (map ev_slot metas)"
    using scene_slots_balance [OF assms(1-3)] by blast
  obtain pr' where pr': "on_frame_done L done fc = (True, fc\<lparr>fc_producer := Some pr'\<rparr>)"
    "pr_pool pr' = Some (foldl slot_step pool (release_ops es))"
    using on_frame_done_releases [OF _ assms(6-8)] assms(5) bal(2) by blast
  have slots: "frame_slot ` set (whole_frames relayed) \<union> fst ` set es = ev_slot ` set metas"
    using arg_cong [OF bal(3), of set_mset] by simp
  have "mset (map frame_slot (whole_frames relayed) @ map fst es) = mset (map ev_slot metas)"
    using bal(3) by simp
  then have "distinct (map frame_slot (whole_frames relayed) @ map fst es)"
    using assms(10) mset_eq_imp_distinct_iff by blast
  then have disj: "frame_slot ` set (whole_frames relayed) \<inter> fst ` set es = {}" by simp
  have inj: "int_of_u32 v = int_of_u32 w \<longleftrightarrow> v = w" for v w unfolding int_of_u32_def by (metis signed_word_eqI)
  note run = release_run_status [OF assms(9), of es]
  have "slot_status (foldl slot_step pool (release_ops es)) (int_of_u32 (ev_slot m)) =
      (if ev_slot m \<in> frame_slot ` set (whole_frames relayed) then Some ON_FLIGHT else Some IDLE)"
    if "m \<in> set metas" for m
  proof -
    have "int_of_u32 (ev_slot m) \<in> (int_of_u32 \<circ> fst) ` set es \<longleftrightarrow> ev_slot m \<in> fst ` set es"
      by (auto simp: inj image_iff)
    also have "\<dots> \<longleftrightarrow> ev_slot m \<notin> frame_slot ` set (whole_frames relayed)"
      using slots disj that by blast
    finally show ?thesis using run assms(11) that by auto
  qed
  moreover have "slot_status (foldl slot_step pool (release_ops es)) i = slot_status pool i"
    if "i \<notin> (int_of_u32 \<circ> ev_slot) ` set metas" for i
  proof -
    have "i \<notin> (int_of_u32 \<circ> fst) ` set es"
    proof
      assume "i \<in> (int_of_u32 \<circ> fst) ` set es"
      then obtain w where "w \<in> fst ` set es" "i = int_of_u32 w" by auto
      then have "w \<in> ev_slot ` set metas" using slots by blast
      with \<open>i = int_of_u32 w\<close> that show False by auto
    qed
    then show ?thesis using run by simp
  qed
  ultimately show ?thesis using bal(1) pr' run by blast
qed

definition circle_lib :: json_lib where
  "circle_lib = example_lib\<lparr>
     jl_parse := (\<lambda>s. if s = ''D'' then Some (frame_done_json [(1, 7)]) else jl_parse example_lib s),
     jl_dump := (\<lambda>_. Some ''D'')\<rparr>"

definition idle_relay :: relay where
  "idle_relay = \<lparr>rl_engine = engine_new (\<lambda>_. CannotOpen) [] default_params, rl_fd = 5, rl_out = [], rl_os = []\<rparr>"

definition circle_pool :: slot_pool where
  "circle_pool = foldl slot_step example_pool [Acquire, Acquire, Submit 0, Submit 1]"

lemma circle_pool_facts:
  "pool_wf circle_pool" "slot_status circle_pool 0 = Some ON_FLIGHT" "slot_status circle_pool 1 = Some ON_FLIGHT"
proof -
  show "pool_wf circle_pool"
    unfolding circle_pool_def by (simp add: slot_step_wf example_pool_wf del: slot_step.simps)
  have eq: "circle_pool = example_pool\<lparr>slots := [\<lparr>slot_offset = 0, slot_st = ON_FLIGHT\<rparr>, \<lparr>slot_offset = 4096, slot_st = ON_FLIGHT\<rparr>]\<rparr>"
    by (simp add: circle_pool_def example_pool_eval acquire_slot_def submit_slot_def set_state_def in_range_def Let_def)
  show "slot_status circle_pool 0 = Some ON_FLIGHT" "slot_status circle_pool 1 = Some ON_FLIGHT"
    unfolding eq by (simp_all add: example_pool_eval slot_status_def in_range_def)
qed

theorem scene_circle_closes_witness:
  "\<exists>pr' pool'. on_frame_done circle_lib ''D'' \<lparr>fc_producer = Some (producer_new\<lparr>pr_pool := Some circle_pool\<rparr>),
       fc_subscribed = True, fc_inited = True\<rparr> =
     (True, \<lparr>fc_producer = Some pr', fc_subscribed = True, fc_inited = True\<rparr>) \<and> pr_pool pr' = Some pool' \<and>
     slot_status pool' 1 = Some IDLE \<and> slot_status pool' 0 = Some ON_FLIGHT"
proof -
  let ?on = "on_scene circle_lib (sort_key al_priority) (sort_key fst) [] example_relay_env ''S'' idle_relay"
  let ?fc = "\<lparr>fc_producer = Some (producer_new\<lparr>pr_pool := Some circle_pool\<rparr>), fc_subscribed = True, fc_inited = True\<rparr>"
  let ?ms = "the (adapt_scene_update circle_lib (scene_text ''S''))"
  have "adapt_scene_update circle_lib (scene_text ''S'') \<noteq> None"
    and "map ev_source_num ?ms = [7] \<and> map ev_slot ?ms = [1]" by code_simp+
  then obtain m where m: "adapt_scene_update circle_lib (scene_text ''S'') = Some [m]"
    "ev_source_num m = 7" "ev_slot m = 1" by (auto simp: map_eq_Cons_conv)
  have type: "(case jl_parse circle_lib (scene_text ''S'') of None \<Rightarrow> None | Some rt \<Rightarrow> jvalue get_str rt ''type'' []) =
      Some ''scene_update''" by code_simp
  then obtain rt where rt: "jl_parse circle_lib (scene_text ''S'') = Some rt"
    "jvalue get_str rt ''type'' [] = Some ''scene_update''" by (auto split: option.splits)
  have "relay_meta circle_lib (sort_key al_priority) (sort_key fst) [] (example_relay_env 0) m idle_relay =
      (Some False, idle_relay)"
    by (simp add: relay_meta_def idle_relay_def empty_engine_event Let_def)
  then have on: "?on = (Some ([(1, 7)], frame_done_json [(1, 7)]), idle_relay)"
    using m rt by (simp add: on_scene_def process_scene_payload_def release_entries_def Let_def)
  have num: "\<forall>w :: u32. jl_u32 circle_lib (JInt (int (unat w))) = Some w"
    by (simp add: circle_lib_def example_lib_def u32_of_int_def)
  have "\<exists>relayed pr' pool'. rl_out idle_relay = rl_out idle_relay @ relayed \<and>
    on_frame_done circle_lib ''D'' ?fc = (True, ?fc\<lparr>fc_producer := Some pr'\<rparr>) \<and> pr_pool pr' = Some pool' \<and> pool_wf pool' \<and>
    (\<forall>m \<in> set [m]. slot_status pool' (int_of_u32 (ev_slot m)) =
       (if ev_slot m \<in> frame_slot ` set (whole_frames relayed) then Some ON_FLIGHT else Some IDLE)) \<and>
    (\<forall>i. i \<notin> (int_of_u32 \<circ> ev_slot) ` set [m] \<longrightarrow> slot_status pool' i = slot_status circle_pool i)"
    by (rule scene_circle_closes [OF on m(1) _ _ _ num, where pool = circle_pool
        and pr = "producer_new\<lparr>pr_pool := Some circle_pool\<rparr>"])
      (simp_all add: circle_lib_def circle_pool_facts m int_of_u32_def)
  then obtain pr' pool' where "on_frame_done circle_lib ''D'' ?fc = (True, ?fc\<lparr>fc_producer := Some pr'\<rparr>)"
    "pr_pool pr' = Some pool'" "slot_status pool' 1 = Some IDLE" "slot_status pool' 0 = slot_status circle_pool 0"
    by (auto simp: m int_of_u32_def whole_frames_def)
  then show ?thesis by (auto simp: circle_pool_facts)
qed

end
