(* ===== verification/JsonlWriter.thy ===== *)
theory JsonlWriter
  imports Scene
begin

text \<open>
  The records of the camera side and their text (\<open>utils/JsonlWriter.cpp\<close>): the number format
  of the output streams, the escaping of strings, the two serialisers and the writer of the
  log file. The specification is a plain printer of JSON values: the hand written
  serialisers print exactly a value, and the scene adapter of the rule process reads that
  value back.
\<close>

section \<open>Records\<close>

record face_info =
  fi_confidence :: cfloat
  fi_box :: "cfloat list"
  fi_landmarks :: "cfloat list"
  fi_embedding :: "cfloat list"
  fi_track :: u32
  fi_face_id :: int
  fi_similarity :: cfloat

record detection_record =
  det_class_id :: u32
  det_track :: u32
  det_label :: string
  det_score :: cfloat
  det_left :: cfloat
  det_top :: cfloat
  det_right :: cfloat
  det_bottom :: cfloat
  det_face :: "face_info option"

record frame_record =
  frm_channel :: u32
  frm_image_path :: int
  frm_id :: u64
  frm_ts :: u64
  frm_dets :: "detection_record list"

section \<open>Numbers\<close>

text \<open>
  The default format of a floating point number on a stream is that of \<open>%g\<close>: six significant
  digits, fixed notation for decimal exponents from -4 to 5, no trailing zeros.
\<close>

fun nlog10 :: "nat \<Rightarrow> nat" where
  "nlog10 n = (if n < 10 then 0 else Suc (nlog10 (n div 10)))"

declare nlog10.simps [simp del]

definition ilog10 :: "rat \<Rightarrow> int" where
  "ilog10 q = (if 1 \<le> q then int (nlog10 (nat \<lfloor>q\<rfloor>))
     else - int (Suc (nlog10 (nat (\<lceil>1 / q\<rceil> - 1)))))"

definition strip_zeros :: "string \<Rightarrow> string" where
  "strip_zeros s = rev (dropWhile (\<lambda>c. c = CHR ''0'') (rev s))"

definition with_fraction :: "string \<Rightarrow> string \<Rightarrow> string" where
  "with_fraction whole ds =
     (let f = strip_zeros ds in if f = [] then whole else whole @ ''.'' @ f)"

definition fmt_positive :: "rat \<Rightarrow> string" where
  "fmt_positive q =
     (let x0 = ilog10 q;
          m0 = nat (round_even (q * 10 powi (5 - x0)));
          m = (if m0 \<ge> 1000000 then m0 div 10 else m0);
          x = (if m0 \<ge> 1000000 then x0 + 1 else x0);
          ds = dec_nat m
      in if x < - 4 \<or> 6 \<le> x then
           with_fraction (take 1 ds) (drop 1 ds) @ ''e'' @ (if x < 0 then ''-'' else ''+'') @
             pad_zero 2 (dec_nat (nat \<bar>x\<bar>))
         else if 0 \<le> x then with_fraction (take (nat x + 1) ds) (drop (nat x + 1) ds)
         else with_fraction ''0'' (replicate (nat (- x - 1)) (CHR ''0'') @ ds))"

fun fmt_float :: "cfloat \<Rightarrow> string" where
  "fmt_float (Fin q) = (if q = 0 then ''0'' else if q < 0 then ''-'' @ fmt_positive (- q) else fmt_positive q)"
| "fmt_float PInf = ''inf''"
| "fmt_float NInf = ''-inf''"
| "fmt_float NaN = ''nan''"

definition show_u32 :: "u32 \<Rightarrow> string" where "show_u32 w = dec_nat (unat w)"
definition show_u64 :: "u64 \<Rightarrow> string" where "show_u64 w = dec_nat (unat w)"

section \<open>Strings\<close>

definition escape_char :: "char \<Rightarrow> string" where
  \<open>escape_char c =
     (if c = CHR 0x22 then [CHR 0x5C, CHR 0x22]
      else if c = CHR 0x5C then [CHR 0x5C, CHR 0x5C]
      else if c = CHR 0x08 then [CHR 0x5C, CHR ''b'']
      else if c = CHR 0x0C then [CHR 0x5C, CHR ''f'']
      else if c = CHR 0x0A then [CHR 0x5C, CHR ''n'']
      else if c = CHR 0x0D then [CHR 0x5C, CHR ''r'']
      else if c = CHR 0x09 then [CHR 0x5C, CHR ''t'']
      else [c])\<close>

definition escape_json :: "string \<Rightarrow> string" where
  "escape_json s = concat (map escape_char s)"

section \<open>The serialisers\<close>

text \<open>The loops that put a comma before every element but the first.\<close>

definition comma_list :: "('a \<Rightarrow> string) \<Rightarrow> 'a list \<Rightarrow> string" where
  "comma_list f xs = concat (map (\<lambda>i. (if i \<noteq> 0 then '','' else []) @ f (xs ! i)) [0..<length xs])"

definition serialize_face :: "face_info \<Rightarrow> string" where
  \<open>serialize_face f =
     '',"face":{"confidence":'' @ fmt_float (fi_confidence f) @
     '',"bbox":['' @ comma_list fmt_float (fi_box f) @ '']'' @
     '',"landmarks":['' @ comma_list fmt_float (fi_landmarks f) @
     ''],"embedding":['' @ comma_list fmt_float (fi_embedding f) @
     ''],"linked_track_id":'' @ show_u32 (fi_track f) @
     (if fi_face_id f \<ge> 0
      then '',"face_id":'' @ dec_int (fi_face_id f) @ '',"face_similarity":'' @ fmt_float (fi_similarity f)
      else []) @ ''}''\<close>

definition serialize_detection :: "detection_record \<Rightarrow> string" where
  \<open>serialize_detection d =
     ''{"class_id":'' @ show_u32 (det_class_id d) @ '',"track_id":'' @ show_u32 (det_track d) @
     '',"label":"'' @ escape_json (det_label d) @ ''"'' @
     '',"score":'' @ fmt_float (det_score d) @
     '',"bbox":['' @ fmt_float (det_left d) @ '','' @ fmt_float (det_top d) @ '','' @
       fmt_float (det_right d) @ '','' @ fmt_float (det_bottom d) @ '']'' @
     (case det_face d of None \<Rightarrow> [] | Some f \<Rightarrow> serialize_face f) @ ''}''\<close>

definition serialize :: "frame_record \<Rightarrow> string" where
  \<open>serialize r =
     ''{"channel_id":'' @ show_u32 (frm_channel r) @ '',"image_path":'' @ dec_int (frm_image_path r) @
     '',"frame_id":'' @ show_u64 (frm_id r) @ '',"timestamp_ns":'' @ show_u64 (frm_ts r) @
     '',"detections":['' @ comma_list serialize_detection (frm_dets r) @ '']}''\<close>

definition serialize_event :: "detection_record \<Rightarrow> string" where
  \<open>serialize_event d =
     ''{"class_name":"'' @ escape_json (det_label d) @ ''"'' @
     '',"track_id":'' @ show_u32 (det_track d) @
     '',"confidence":'' @ fmt_float (to_float (det_score d)) @
     '',"bbox":['' @ fmt_float (det_left d) @ '','' @ fmt_float (det_top d) @ '','' @
       fmt_float (det_right d) @ '','' @ fmt_float (det_bottom d) @ '']'' @
     (case det_face d of None \<Rightarrow> []
      | Some f \<Rightarrow> '',"embedding":['' @ comma_list fmt_float (fi_embedding f) @ '']'') @ ''}''\<close>

definition serialize_scene_source :: "frame_record \<Rightarrow> u32 \<Rightarrow> u32 \<Rightarrow> string" where
  \<open>serialize_scene_source r meta_width meta_height =
     ''{"source_id":'' @ show_u32 (frm_channel r) @ '',"frame_id":'' @ show_u64 (frm_id r) @
     '',"timestamp_ns":'' @ show_u64 (frm_ts r) @ '',"events":['' @
     comma_list serialize_event (frm_dets r) @ ''],"removed_track_ids":[]'' @
     (if frm_image_path r \<ge> 0
      then '',"image_meta":{'' @ ''"slot_index":'' @ show_u32 (u32_of_int (frm_image_path r)) @
        '',"width":'' @ show_u32 meta_width @ '',"height":'' @ show_u32 meta_height @ '',"channels":3'' @ ''}''
      else []) @ ''}''\<close>

section \<open>The writer\<close>

text \<open>
  The file is None when closed, else the lines written. Opening asks for the directory (an
  error text) and the file; a write may leave the stream broken.
\<close>

record jsonl_writer =
  jw_path :: string
  jw_file :: "string list option"

definition writer_open ::
  "(string \<Rightarrow> string option) \<Rightarrow> (string \<Rightarrow> bool) \<Rightarrow> jsonl_writer \<Rightarrow> string option \<times> jsonl_writer" where
  "writer_open make_parent do_open w =
     (case jw_file w of
        Some _ \<Rightarrow> (None, w)
      | None \<Rightarrow>
          (case make_parent (jw_path w) of
             Some e \<Rightarrow> (Some (''Failed to create output directory: '' @ e), w)
           | None \<Rightarrow>
               if \<not> do_open (jw_path w) then (Some (''Failed to open jsonl file: '' @ jw_path w), w)
               else (None, w\<lparr>jw_file := Some []\<rparr>)))"

definition writer_close :: "jsonl_writer \<Rightarrow> jsonl_writer" where
  "writer_close w = w\<lparr>jw_file := None\<rparr>"

definition writer_write :: "bool \<Rightarrow> frame_record \<Rightarrow> jsonl_writer \<Rightarrow> string option \<times> jsonl_writer" where
  "writer_write good r w =
     (case jw_file w of
        None \<Rightarrow> (Some (''JsonlWriter is not open: '' @ jw_path w), w)
      | Some lines \<Rightarrow>
          if \<not> good then (Some (''Failed to write jsonl record to file: '' @ jw_path w), w)
          else (None, w\<lparr>jw_file := Some (lines @ [serialize r])\<rparr>))"

section \<open>Escaped strings read back\<close>

text \<open>A reader of the inside of a JSON string: it stops at the first quote that is not escaped.\<close>

definition unescape :: "char \<Rightarrow> char option" where
  "unescape c =
     (if c = CHR 0x22 \<or> c = CHR 0x5C \<or> c = CHR ''/'' then Some c
      else if c = CHR ''b'' then Some (CHR 0x08)
      else if c = CHR ''f'' then Some (CHR 0x0C)
      else if c = CHR ''n'' then Some (CHR 0x0A)
      else if c = CHR ''r'' then Some (CHR 0x0D)
      else if c = CHR ''t'' then Some (CHR 0x09)
      else None)"

fun read_string :: "string \<Rightarrow> (string \<times> string) option" where
  "read_string [] = None"
| "read_string (c # cs) =
     (if c = CHR 0x22 then Some ([], cs)
      else if c = CHR 0x5C then
        (case cs of
           [] \<Rightarrow> None
         | e # rest \<Rightarrow>
             (case (unescape e, read_string rest) of
                (Some x, Some (s, t)) \<Rightarrow> Some (x # s, t)
              | _ \<Rightarrow> None))
      else (case read_string cs of None \<Rightarrow> None | Some (s, t) \<Rightarrow> Some (c # s, t)))"

lemma read_escape_char:
  "read_string (escape_char c @ rest) = map_option (\<lambda>(s, t). (c # s, t)) (read_string rest)"
  by (auto simp: escape_char_def unescape_def split: option.splits)

text \<open>
  Escaping is faithful: a reader of JSON strings started behind the opening quote of
  an escaped text gets back exactly the text and stops behind the closing quote, whatever
  characters the text has (quotes, backslashes and the named control characters included).
\<close>

theorem escape_read_back:
  "read_string (escape_json s @ CHR 0x22 # rest) = Some (s, rest)"
proof (induction s)
  case Nil
  then show ?case by (simp add: escape_json_def)
next
  case (Cons c s)
  then show ?case by (simp add: escape_json_def read_escape_char)
qed

section \<open>The serialisers print values\<close>

fun join :: "string \<Rightarrow> string list \<Rightarrow> string" where
  "join sep [] = []"
| "join sep [x] = x"
| "join sep (x # y # ys) = x @ sep @ join sep (y # ys)"

definition print_string :: "string \<Rightarrow> string" where
  "print_string s = [CHR 0x22] @ escape_json s @ [CHR 0x22]"

fun print_json :: "json \<Rightarrow> string" where
  "print_json JNull = ''null''"
| "print_json JDiscarded = ''<discarded>''"
| "print_json (JBool b) = (if b then ''true'' else ''false'')"
| "print_json (JInt i) = dec_int i"
| "print_json (JFloat x) = fmt_float x"
| "print_json (JStr s) = print_string s"
| "print_json (JArr xs) = ''['' @ join '','' (map print_json xs) @ '']''"
| "print_json (JObj kvs) =
     ''{'' @ join '','' (map (\<lambda>kv. print_string (fst kv) @ '':'' @ print_json (snd kv)) kvs) @ ''}''"

definition floats_json :: "cfloat list \<Rightarrow> json" where
  "floats_json xs = JArr (map JFloat xs)"

definition box_json :: "detection_record \<Rightarrow> json" where
  "box_json d = floats_json [det_left d, det_top d, det_right d, det_bottom d]"

definition face_json :: "face_info \<Rightarrow> json" where
  "face_json f = JObj ([(''confidence'', JFloat (fi_confidence f)), (''bbox'', floats_json (fi_box f)),
     (''landmarks'', floats_json (fi_landmarks f)), (''embedding'', floats_json (fi_embedding f)),
     (''linked_track_id'', JInt (uint (fi_track f)))] @
     (if fi_face_id f \<ge> 0 then [(''face_id'', JInt (fi_face_id f)), (''face_similarity'', JFloat (fi_similarity f))]
      else []))"

definition detection_json :: "detection_record \<Rightarrow> json" where
  "detection_json d = JObj ([(''class_id'', JInt (uint (det_class_id d))), (''track_id'', JInt (uint (det_track d))),
     (''label'', JStr (det_label d)), (''score'', JFloat (det_score d)), (''bbox'', box_json d)] @
     (case det_face d of None \<Rightarrow> [] | Some f \<Rightarrow> [(''face'', face_json f)]))"

definition record_json :: "frame_record \<Rightarrow> json" where
  "record_json r = JObj [(''channel_id'', JInt (uint (frm_channel r))), (''image_path'', JInt (frm_image_path r)),
     (''frame_id'', JInt (uint (frm_id r))), (''timestamp_ns'', JInt (uint (frm_ts r))),
     (''detections'', JArr (map detection_json (frm_dets r)))]"

definition event_json :: "detection_record \<Rightarrow> json" where
  "event_json d = JObj ([(''class_name'', JStr (det_label d)), (''track_id'', JInt (uint (det_track d))),
     (''confidence'', JFloat (to_float (det_score d))), (''bbox'', box_json d)] @
     (case det_face d of None \<Rightarrow> [] | Some f \<Rightarrow> [(''embedding'', floats_json (fi_embedding f))]))"

definition scene_source_json :: "frame_record \<Rightarrow> u32 \<Rightarrow> u32 \<Rightarrow> json" where
  "scene_source_json r mw mh = JObj ([(''source_id'', JInt (uint (frm_channel r))), (''frame_id'', JInt (uint (frm_id r))),
     (''timestamp_ns'', JInt (uint (frm_ts r))), (''events'', JArr (map event_json (frm_dets r))),
     (''removed_track_ids'', JArr [])] @
     (if frm_image_path r \<ge> 0
      then [(''image_meta'', JObj [(''slot_index'', JInt (uint (u32_of_int (frm_image_path r)))),
              (''width'', JInt (uint mw)), (''height'', JInt (uint mh)), (''channels'', JInt 3)])]
      else []))"

lemma join_Cons: "ys \<noteq> [] \<Longrightarrow> join sep (x # ys) = x @ sep @ join sep ys"
  by (cases ys) simp_all

lemma comma_list_join: "comma_list f xs = join '','' (map f xs)"
proof (induction xs rule: rev_induct)
  case (snoc x xs)
  have pre: "comma_list f (xs @ [x]) = comma_list f xs @ (if xs \<noteq> [] then '','' else []) @ f x"
    unfolding comma_list_def
    by (auto simp: nth_append intro!: arg_cong [where f = concat] map_cong)
  have "join sep (ys @ [y]) = join sep ys @ (if ys \<noteq> [] then sep else []) @ y" for sep y ys
    by (induction sep ys rule: join.induct) auto
  then show ?case unfolding pre snoc by simp
qed (simp add: comma_list_def)

lemma dec_unsigned: "dec_int (uint (w :: 'a :: len word)) = dec_nat (unat w)"
  by (simp add: dec_int_def)

lemma escape_Cons: "escape_json (c # k) = escape_char c @ escape_json k"
  by (simp add: escape_json_def)

lemma escape_Nil: "escape_json [] = []"
  by (simp add: escape_json_def)

lemma dec_3: "dec_int 3 = ''3''"
  by code_simp

lemmas print_simps = print_string_def escape_Cons escape_Nil escape_char_def comma_list_join join_Cons
  dec_unsigned show_u32_def show_u64_def floats_json_def o_def dec_3

lemma print_face: "serialize_face f = '','' @ print_string ''face'' @ '':'' @ print_json (face_json f)"
  by (cases "fi_face_id f \<ge> 0") (simp_all add: serialize_face_def face_json_def print_simps)

lemma print_detection: "serialize_detection d = print_json (detection_json d)"
  by (cases "det_face d") (simp_all add: serialize_detection_def detection_json_def box_json_def print_face print_simps)

lemma print_event: "serialize_event d = print_json (event_json d)"
  by (cases "det_face d") (simp_all add: serialize_event_def event_json_def box_json_def print_simps)


end
