(* ===== verification/FaceGallery.thy ===== *)
theory FaceGallery
  imports JsonlWriter
begin

text \<open>
  The gallery of enrolled faces (\<open>utils/FaceGallery.cpp\<close>): loading and saving its file,
  matching an embedding and enrolling a new one. The JSON library is an argument: what its
  accessors answer on a value of another kind is a field of \<open>json_access\<close>.
\<close>

section \<open>State\<close>

record gallery_entry =
  ge_id :: int
  ge_embedding :: "cfloat list"

record match_result =
  mr_id :: int
  mr_similarity :: cfloat

record gallery =
  fg_entries :: "gallery_entry list"
  fg_path :: string
  fg_next :: int
  fg_loaded :: bool

definition gallery_new :: gallery where
  "gallery_new = \<lparr>fg_entries = [], fg_path = [], fg_next = 1, fg_loaded = False\<rparr>"

definition embedding_dim :: nat where
  "embedding_dim = 512"

definition gallery_cosine :: "cfloat list \<Rightarrow> cfloat list \<Rightarrow> cfloat" where
  "gallery_cosine a b = foldl (\<lambda>dot (x, y). fadd B32 dot (fmul B32 x y)) (Fin 0) (zip a b)"

section \<open>Matching and enrolling\<close>

fun match_loop :: "cfloat list \<Rightarrow> gallery_entry list \<Rightarrow> match_result \<Rightarrow> match_result" where
  "match_loop e [] best = best"
| "match_loop e (g # gs) best =
     (if length (ge_embedding g) \<noteq> embedding_dim then match_loop e gs best
      else
        let sim = gallery_cosine e (ge_embedding g)
        in match_loop e gs
             (if flt (mr_similarity best) sim then best\<lparr>mr_similarity := sim, mr_id := ge_id g\<rparr> else best))"

text \<open>No embedding is the null pointer.\<close>

definition gallery_match :: "gallery \<Rightarrow> cfloat list option \<Rightarrow> cfloat \<Rightarrow> match_result" where
  "gallery_match g emb threshold =
     (let best = \<lparr>mr_id = - 1, mr_similarity = Fin (- 1)\<rparr> in
      case emb of
        None \<Rightarrow> best
      | Some e \<Rightarrow>
          if fg_entries g = [] then best
          else
            let best = match_loop e (fg_entries g) best
            in if flt (mr_similarity best) threshold then best\<lparr>mr_id := - 1\<rparr> else best)"

definition entry_json :: "gallery_entry \<Rightarrow> json" where
  "entry_json ge = JObj [(''face_id'', JInt (ge_id ge)), (''embedding'', JArr (map JFloat (ge_embedding ge)))]"

definition gallery_json :: "gallery \<Rightarrow> json" where
  "gallery_json g = JObj [(''next_id'', JInt (fg_next g)), (''entries'', JArr (map entry_json (fg_entries g)))]"

text \<open>Saving: whether it succeeded, and the new content of the file if it was written.\<close>

definition gallery_save :: "bool \<Rightarrow> gallery \<Rightarrow> bool \<times> json option" where
  "gallery_save write_ok g =
     (if fg_path g = [] then (False, None)
      else if \<not> write_ok then (False, None)
      else (True, Some (gallery_json g)))"

text \<open>The outcome of the save is ignored. The counter is an \<open>int\<close> that must not reach its maximum.\<close>

definition gallery_enroll :: "bool \<Rightarrow> cfloat list option \<Rightarrow> gallery \<Rightarrow> int \<times> gallery \<times> json option" where
  "gallery_enroll write_ok emb g =
     (case emb of
        None \<Rightarrow> (- 1, g, None)
      | Some e \<Rightarrow>
          (let new_id = fg_next g;
               g = g\<lparr>fg_next := fg_next g + 1,
                     fg_entries := fg_entries g @ [\<lparr>ge_id = new_id, ge_embedding = take embedding_dim e\<rparr>]\<rparr>
           in (new_id, g, snd (gallery_save write_ok g))))"

section \<open>Loading\<close>

record json_access =
  ja_int :: "json \<Rightarrow> int"
  ja_double :: "json \<Rightarrow> cfloat"

definition int_cast :: "int \<Rightarrow> int" where
  "int_cast i = int_of_u32 (u32_of_int i)"

definition load_entry :: "json_access \<Rightarrow> json \<Rightarrow> gallery_entry option" where
  "load_entry A j =
     (case j of
        JObj kvs \<Rightarrow>
          (let ge = \<lparr>ge_id = (case jfind j ''face_id'' of None \<Rightarrow> 0 | Some v \<Rightarrow> int_cast (ja_int A v)),
                     ge_embedding = (case jfind j ''embedding'' of
                        Some (JArr xs) \<Rightarrow> map (\<lambda>x. to_float (ja_double A x)) xs
                      | _ \<Rightarrow> [])\<rparr>
           in if ge_embedding ge \<noteq> [] then Some ge else None)
      | _ \<Rightarrow> None)"

text \<open>
  The file is None when it does not exist; its parse is None on an error and Some None for a
  text without a root. The result comes with what a save wrote.
\<close>

definition gallery_load ::
  "json_access \<Rightarrow> bool \<Rightarrow> string \<Rightarrow> json option option option \<Rightarrow> gallery \<Rightarrow> bool \<times> gallery \<times> json option" where
  "gallery_load A write_ok path file g =
     (let g = g\<lparr>fg_path := path, fg_entries := [], fg_next := 1, fg_loaded := False\<rparr> in
      case file of
        None \<Rightarrow>
          (let g = g\<lparr>fg_loaded := True\<rparr>; (ok, w) = gallery_save write_ok g in (ok, g, w))
      | Some None \<Rightarrow> (False, g, None)
      | Some (Some None) \<Rightarrow> (False, g, None)
      | Some (Some (Some j)) \<Rightarrow>
          if \<not> is_object j then (False, g, None)
          else
            let g = (case jfind j ''next_id'' of None \<Rightarrow> g | Some v \<Rightarrow> g\<lparr>fg_next := int_cast (ja_int A v)\<rparr>);
                g = (case jfind j ''entries'' of
                       Some (JArr xs) \<Rightarrow>
                         g\<lparr>fg_entries := map the (filter (\<lambda>e. e \<noteq> None) (map (load_entry A) xs))\<rparr>
                     | _ \<Rightarrow> g)
            in (True, g\<lparr>fg_loaded := True\<rparr>, None))"

section \<open>The best match\<close>

definition usable :: "gallery_entry \<Rightarrow> bool" where
  "usable g \<longleftrightarrow> length (ge_embedding g) = embedding_dim"

lemma flt_irrefl [simp]: "\<not> flt a a"
  by (cases a) auto

lemma flt_not_less: "flt a b \<Longrightarrow> \<not> flt a c \<Longrightarrow> \<not> flt b c"
  using flt_trans by blast

lemma match_loop_best:
  "let r = match_loop e gs best in
     \<not> flt (mr_similarity r) (mr_similarity best) \<and>
     (\<forall>g \<in> set gs. usable g \<longrightarrow> \<not> flt (mr_similarity r) (gallery_cosine e (ge_embedding g))) \<and>
     (r = best \<or> (\<exists>g \<in> set gs. usable g \<and> mr_id r = ge_id g \<and> mr_similarity r = gallery_cosine e (ge_embedding g) \<and>
        flt (mr_similarity best) (mr_similarity r)))"
proof (induction e gs best rule: match_loop.induct)
  case (1 e best)
  then show ?case by simp
next
  case (2 e g gs best)
  show ?case
  proof (cases "usable g")
    case False
    then show ?thesis using 2(1) by (auto simp: usable_def Let_def)
  next
    case True
    define sim where "sim = gallery_cosine e (ge_embedding g)"
    define b where "b = (if flt (mr_similarity best) sim then best\<lparr>mr_similarity := sim, mr_id := ge_id g\<rparr> else best)"
    define r where "r = match_loop e gs b"
    have r: "match_loop e (g # gs) best = r" using True by (simp add: r_def b_def sim_def usable_def Let_def)
    have ih: "\<not> flt (mr_similarity r) (mr_similarity b)"
      "\<And>h. h \<in> set gs \<Longrightarrow> usable h \<Longrightarrow> \<not> flt (mr_similarity r) (gallery_cosine e (ge_embedding h))"
      "r = b \<or> (\<exists>h \<in> set gs. usable h \<and> mr_id r = ge_id h \<and> mr_similarity r = gallery_cosine e (ge_embedding h) \<and>
        flt (mr_similarity b) (mr_similarity r))"
      using 2(2) True unfolding r_def b_def sim_def usable_def Let_def by auto
    show ?thesis
    proof (cases "flt (mr_similarity best) sim")
      case True': True
      then have b: "mr_similarity b = sim" "mr_id b = ge_id g" by (simp_all add: b_def)
      have up: "flt (mr_similarity best) (mr_similarity r)"
        using ih(3) True' b flt_trans by metis
      have "\<not> flt (mr_similarity r) (mr_similarity best)" using up flt_trans flt_irrefl by blast
      moreover have "r = b \<Longrightarrow> mr_id r = ge_id g \<and> mr_similarity r = sim" using b by simp
      ultimately show ?thesis
        unfolding r Let_def using ih b up \<open>usable g\<close> by (auto simp: sim_def)
    next
      case False
      then have b: "b = best" by (simp add: b_def)
      have "\<not> flt (mr_similarity r) sim"
        using ih(1,3) False unfolding b using flt_not_less by blast
      then show ?thesis unfolding r Let_def using ih unfolding b sim_def by auto
    qed
  qed
qed

text \<open>
  Matching finds the best enrolled face: whenever it names a face, that face has an entry
  of the right size whose similarity is the one returned and does not fall below the
  threshold, and no entry of the right size is more similar; when it names none, either no
  entry beats -1 or the best one is below the threshold, so no entry reaches the threshold.
\<close>

theorem gallery_match_best:
  assumes ids: "\<forall>g \<in> set (fg_entries G). ge_id g \<noteq> - 1" and m: "gallery_match G (Some e) thr = r"
  shows "(mr_id r \<noteq> - 1 \<longrightarrow>
      \<not> flt (mr_similarity r) thr \<and>
      (\<exists>g \<in> set (fg_entries G). usable g \<and> ge_id g = mr_id r \<and> mr_similarity r = gallery_cosine e (ge_embedding g)) \<and>
      (\<forall>g \<in> set (fg_entries G). usable g \<longrightarrow> \<not> flt (mr_similarity r) (gallery_cosine e (ge_embedding g)))) \<and>
    (mr_id r = - 1 \<longrightarrow>
      (\<forall>g \<in> set (fg_entries G). usable g \<longrightarrow>
         \<not> flt (Fin (- 1)) (gallery_cosine e (ge_embedding g)) \<or> flt (mr_similarity r) thr \<and>
         \<not> flt (mr_similarity r) (gallery_cosine e (ge_embedding g))))"
proof -
  define best where "best = \<lparr>mr_id = - 1, mr_similarity = Fin (- 1)\<rparr>"
  define b where "b = match_loop e (fg_entries G) best"
  have r: "r = (if fg_entries G = [] then best else if flt (mr_similarity b) thr then b\<lparr>mr_id := - 1\<rparr> else b)"
    using m by (auto simp: gallery_match_def Let_def b_def best_def)
  have l: "\<forall>g \<in> set (fg_entries G). usable g \<longrightarrow> \<not> flt (mr_similarity b) (gallery_cosine e (ge_embedding g))"
    "b = best \<or> (\<exists>g \<in> set (fg_entries G). usable g \<and> mr_id b = ge_id g \<and> mr_similarity b = gallery_cosine e (ge_embedding g))"
    using match_loop_best [of e "fg_entries G" best] by (auto simp: b_def Let_def)
  have best: "mr_id best = - 1" "mr_similarity best = Fin (- 1)" by (simp_all add: best_def)
  show ?thesis
  proof (cases "fg_entries G = []")
    case True
    then show ?thesis using r best by simp
  next
    case ne: False
    show ?thesis
    proof (cases "flt (mr_similarity b) thr")
      case True
      then have "mr_id r = - 1" "mr_similarity r = mr_similarity b" using r ne by simp_all
      then show ?thesis using l(1) True by simp
    next
      case False
      then have rb: "r = b" using r ne by simp
      show ?thesis
      proof (cases "b = best")
        case True
        then show ?thesis using l(1) best unfolding rb by simp
      next
        case nb: False
        with l(2) obtain g where "g \<in> set (fg_entries G)" "usable g" "mr_id b = ge_id g"
          "mr_similarity b = gallery_cosine e (ge_embedding g)" by blast
        moreover from this ids have "mr_id b \<noteq> - 1" by auto
        ultimately show ?thesis using l(1) False unfolding rb by auto
      qed
    qed
  qed
qed
section \<open>Enrolling and the file\<close>

text \<open>A gallery the program made itself: fresh ids below the counter, embeddings of the right size.\<close>

definition gallery_ok :: "gallery \<Rightarrow> bool" where
  "gallery_ok g \<longleftrightarrow> distinct (map ge_id (fg_entries g)) \<and> 0 < fg_next g \<and> fg_next g < 2147483648 \<and>
     (\<forall>e \<in> set (fg_entries g). 0 < ge_id e \<and> ge_id e < fg_next g \<and> usable e \<and>
        (\<forall>x \<in> set (ge_embedding e). to_float x = x))"

lemma embedding_dim_pos: "0 < embedding_dim"
  by (simp add: embedding_dim_def)

lemma enroll_ok:
  assumes "gallery_ok g" "length e = embedding_dim" "\<forall>x \<in> set e. to_float x = x" "fg_next g + 1 < 2147483648"
    "gallery_enroll w (Some e) g = (i, g', out)"
  shows "gallery_ok g' \<and> i = fg_next g \<and> i \<notin> ge_id ` set (fg_entries g) \<and>
    fg_entries g' = fg_entries g @ [\<lparr>ge_id = i, ge_embedding = e\<rparr>] \<and> fg_path g' = fg_path g \<and>
    out = snd (gallery_save w g')"
proof -
  have eq: "i = fg_next g" "g' = g\<lparr>fg_next := fg_next g + 1, fg_entries := fg_entries g @ [\<lparr>ge_id = fg_next g, ge_embedding = e\<rparr>]\<rparr>"
    "out = snd (gallery_save w g')"
    using assms(2,5) by (auto simp: gallery_enroll_def Let_def)
  have "fg_next g \<notin> ge_id ` set (fg_entries g)" using assms(1) by (force simp: gallery_ok_def)
  then show ?thesis using assms(1-4) unfolding eq gallery_ok_def by (auto simp: usable_def)
qed

definition reads_gallery :: "json_access \<Rightarrow> bool" where
  "reads_gallery A \<longleftrightarrow> (\<forall>i. ja_int A (JInt i) = i) \<and> (\<forall>x. ja_double A (JFloat x) = x)"

lemma load_entry_json:
  assumes "reads_gallery A" "0 < ge_id e" "ge_id e < 2147483648" "usable e" "\<forall>x \<in> set (ge_embedding e). to_float x = x"
  shows "load_entry A (entry_json e) = Some e"
proof -
  have "ge_embedding e \<noteq> []" using assms(4) embedding_dim_pos by (auto simp: usable_def)
  moreover have "map (\<lambda>x. to_float x) (ge_embedding e) = ge_embedding e" using assms(5) by (simp add: map_idI)
  moreover have "int_cast (ge_id e) = ge_id e" using assms(2,3) by (simp add: int_cast_def int_of_u32_of_int)
  ultimately show ?thesis
    using assms(1) by (simp add: load_entry_def entry_json_def jfind_def reads_gallery_def o_def)
qed

lemma load_gallery_json:
  assumes "reads_gallery A" "gallery_ok g"
  shows "gallery_load A w (fg_path g) (Some (Some (Some (gallery_json g)))) g0 = (True, g\<lparr>fg_loaded := True\<rparr>, None)"
proof -
  have "load_entry A (entry_json x) = Some x" if "x \<in> set (fg_entries g)" for x
    using assms that load_entry_json [OF assms(1)] by (fastforce simp: gallery_ok_def)
  then have "map the (filter (\<lambda>e. e \<noteq> None) (map (load_entry A) (map entry_json (fg_entries g)))) = fg_entries g"
    by (simp add: filter_map o_def map_idI)
  moreover have "int_cast (fg_next g) = fg_next g"
    using assms(2) by (simp add: int_cast_def int_of_u32_of_int gallery_ok_def)
  ultimately show ?thesis
    using assms(1) by (simp add: gallery_load_def gallery_json_def jfind_def reads_gallery_def Let_def del: map_map)
qed


definition ex_access :: json_access where
  "ex_access = \<lparr>ja_int = (\<lambda>j. case j of JInt i \<Rightarrow> i | _ \<Rightarrow> 0), ja_double = (\<lambda>j. case j of JFloat x \<Rightarrow> x | _ \<Rightarrow> Fin 0)\<rparr>"

definition ex_gallery :: gallery where
  "ex_gallery = gallery_new\<lparr>fg_path := ''g.json''\<rparr>"

lemma fl_0: "fl f 0 = Fin 0"
proof -
  have "0 < (2 :: rat) powi (emax f + 1)" by (rule two_powi_pos)
  then have "\<not> (2 :: rat) powi (emax f + 1) \<le> 0" by linarith
  then show ?thesis unfolding fl_def rnd_0 Let_def by simp
qed

definition blank :: "cfloat list" where
  "blank = replicate embedding_dim (Fin 0)"

lemma blank_floats: "length blank = embedding_dim" "\<forall>x \<in> set blank. to_float x = x"
  by (auto simp: blank_def fl_0)

lemma blank_cosine: "gallery_cosine blank blank = Fin 0"
proof -
  have "foldl (\<lambda>dot (x, y). fadd B32 dot (fmul B32 x y)) (Fin 0) (zip (replicate n (Fin 0)) (replicate n (Fin 0))) = Fin 0" for n
    by (induction n) (simp_all add: fl_0)
  then show ?thesis by (simp only: gallery_cosine_def blank_def)
qed

lemma ex_enrolled: "\<exists>g' out. gallery_enroll True (Some blank) ex_gallery = (1, g', out) \<and>
   fg_entries g' = [\<lparr>ge_id = 1, ge_embedding = blank\<rparr>]"
  by (simp add: gallery_enroll_def Let_def ex_gallery_def gallery_new_def blank_floats)


theorem gallery_match_best_witness:
  "\<exists>g' out r. gallery_enroll True (Some blank) ex_gallery = (1, g', out) \<and>
     gallery_match g' (Some blank) (Fin 0) = r \<and> mr_id r = 1"
proof -
  obtain g' out where en: "gallery_enroll True (Some blank) ex_gallery = (1, g', out)"
    and g': "fg_entries g' = [\<lparr>ge_id = 1, ge_embedding = blank\<rparr>]" using ex_enrolled by blast
  define r where "r = gallery_match g' (Some blank) (Fin 0)"
  have "mr_id r \<noteq> - 1"
    by (simp add: r_def gallery_match_def g' blank_floats(1) blank_cosine Let_def)
  moreover have "\<forall>g \<in> set (fg_entries g'). ge_id g \<noteq> - 1" by (simp add: g')
  ultimately have "mr_id r = 1" using gallery_match_best [of g' blank "Fin 0" r] by (auto simp: r_def g')
  then show ?thesis using en r_def by blast
qed

end
