(* ===== verification/AppSettings.thy ===== *)
theory AppSettings
  imports FaceGallery
begin

text \<open>
  The configuration of the camera process (\<open>config/AppConfig.hpp\<close>, \<open>config/ConfigLoader.cpp\<close>).
  A parsed document is a \<open>json\<close> value; the conversions of the JSON library on a member of
  another type than asked are the fields of \<open>json_glib\<close>. Paths are those of a POSIX system.
\<close>

section \<open>The configuration\<close>

record agg_settings =
  gs_enabled :: bool
  gs_batch :: u32
  gs_capacity :: u32
  gs_drain :: u32

record mqtt_settings =
  qs_enabled :: bool
  qs_broker :: string
  qs_port :: int
  qs_pub :: string
  qs_sub :: string
  qs_client :: string
  qs_qos :: int

record cache_settings =
  cs_enabled :: bool
  cs_socket :: string
  cs_heap :: string
  cs_slots :: int
  cs_width :: int
  cs_height :: int
  cs_relay :: bool
  cs_topic :: string

record msgagg_settings =
  ms_enabled :: bool
  ms_timeout :: u32
  ms_dir :: string

record latency_settings =
  ls_enabled :: bool
  ls_dir :: string
  ls_every :: u32
  ls_flush :: bool

record app_settings =
  as_model :: string
  as_videos :: "string list"
  as_labels :: string
  as_output :: string
  as_log :: string
  as_backend :: string
  as_system :: string
  as_device :: u32
  as_tensors :: "string list"
  as_engines :: "string list"
  as_tracker :: string
  as_postprocess :: string
  as_confidence :: cfloat
  as_channels :: u32
  as_sync :: bool
  as_drop :: bool
  as_buffers :: u32
  as_face :: bool
  as_mask :: int
  as_face_config :: string
  as_gallery :: string
  as_threshold :: cfloat
  as_min_face :: u32
  as_min_score :: cfloat
  as_interval :: u32
  as_loops :: u32
  as_mem_interval :: u32
  as_mem_log :: string
  as_agg :: agg_settings
  as_mqtt :: mqtt_settings
  as_cache :: cache_settings
  as_msgagg :: msgagg_settings
  as_latency :: latency_settings

definition settings_default :: app_settings where
  "settings_default =
     \<lparr>as_model = [], as_videos = [], as_labels = [], as_output = [], as_log = [],
      as_backend = ''/usr/lib/libQnnHtp.so'', as_system = ''/usr/lib/libQnnSystem.so'', as_device = 0,
      as_tensors = [''boxes'', ''scores'', ''class_idx''], as_engines = [''fcv'', ''c2d''], as_tracker = [],
      as_postprocess = ''yolov8'', as_confidence = Fin 40,
      as_channels = 6, as_sync = False, as_drop = False, as_buffers = 8,
      as_face = False, as_mask = 255, as_face_config = [], as_gallery = [],
      as_threshold = fl B32 (3 / 10), as_min_face = 40, as_min_score = fl B32 (6 / 10), as_interval = 0,
      as_loops = 1, as_mem_interval = 5, as_mem_log = [],
      as_agg = \<lparr>gs_enabled = False, gs_batch = 6, gs_capacity = 6, gs_drain = 1000\<rparr>,
      as_mqtt = \<lparr>qs_enabled = False, qs_broker = ''127.0.0.1'', qs_port = 1883,
                 qs_pub = ''multi_cam_app/detections'', qs_sub = ''multi_cam_app/commands'',
                 qs_client = ''multi_cam_app'', qs_qos = 1\<rparr>,
      as_cache = \<lparr>cs_enabled = False, cs_socket = ''/tmp/dmabuf_ipc.sock'',
                  cs_heap = ''/dev/dma_heap/qcom,system'', cs_slots = 8, cs_width = 1920, cs_height = 1080,
                  cs_relay = True, cs_topic = []\<rparr>,
      as_msgagg = \<lparr>ms_enabled = False, ms_timeout = 500, ms_dir = []\<rparr>,
      as_latency = \<lparr>ls_enabled = False, ls_dir = [], ls_every = 1, ls_flush = True\<rparr>\<rparr>"

section \<open>Paths\<close>

text \<open>The components of a path, the last one empty when the path ends with a separator.\<close>

fun split_path :: "string \<Rightarrow> string list" where
  "split_path [] = [[]]"
| "split_path (c # cs) =
     (if c = CHR ''/'' then [] # split_path cs
      else case split_path cs of w # ws \<Rightarrow> (c # w) # ws | [] \<Rightarrow> [[c]])"

fun join_path :: "string list \<Rightarrow> string" where
  "join_path [] = []"
| "join_path [w] = w"
| "join_path (w # ws) = w @ CHR ''/'' # join_path ws"

text \<open>
  The names kept by the normalisation, last one first: dots and empty names disappear, two dots
  take the name before them away, and at the root they disappear.
\<close>

definition keep_name :: "bool \<Rightarrow> string list \<Rightarrow> string \<Rightarrow> string list" where
  "keep_name rooted st w =
     (if w = [] \<or> w = ''.'' then st
      else if w = ''..'' then
        (case st of
           [] \<Rightarrow> (if rooted then [] else [w])
         | v # vs \<Rightarrow> (if v = ''..'' then w # st else vs))
      else w # st)"

definition is_rooted :: "string \<Rightarrow> bool" where
  "is_rooted p = (p \<noteq> [] \<and> hd p = CHR ''/'')"

definition lexically_normal :: "string \<Rightarrow> string" where
  "lexically_normal p =
     (if p = [] then []
      else
        let ws = split_path p;
            st = foldl (keep_name (is_rooted p)) [] ws;
            body = join_path (rev st);
            tail = (if st \<noteq> [] \<and> hd st \<noteq> ''..'' \<and> (last ws = [] \<or> last ws = ''.'' \<or> last ws = ''..'')
                    then ''/'' else [])
        in if is_rooted p then CHR ''/'' # body @ tail
           else if st = [] then ''.'' else body @ tail)"

text \<open>The join of a directory and a relative path, and the parent of a normalised path.\<close>

definition append_path :: "string \<Rightarrow> string \<Rightarrow> string" where
  "append_path d v = (if d = [] \<or> last d = CHR ''/'' then d @ v else d @ CHR ''/'' # v)"

definition parent_path :: "string \<Rightarrow> string" where
  "parent_path p =
     (let front = join_path (butlast (split_path p))
      in if is_rooted p \<and> front = [] then ''/'' else front)"

definition IsAbsolutePath :: "string \<Rightarrow> bool" where
  "IsAbsolutePath p =
     (case p of
        [] \<Rightarrow> False
      | c # cs \<Rightarrow>
          if c = CHR ''/'' \<or> c = CHR 0x5C then True
          else
            3 \<le> length p
            \<and> (let n = (of_char c :: nat) in 65 \<le> n \<and> n \<le> 90 \<or> 97 \<le> n \<and> n \<le> 122)
            \<and> p ! 1 = CHR '':'' \<and> (p ! 2 = CHR ''/'' \<or> p ! 2 = CHR 0x5C))"

definition NormalizePathSeparators :: "string \<Rightarrow> string" where
  "NormalizePathSeparators = map (\<lambda>c. if c = CHR 0x5C then CHR ''/'' else c)"

definition ResolvePath :: "string \<Rightarrow> string \<Rightarrow> string" where
  "ResolvePath base v =
     (if v = [] then v
      else if IsAbsolutePath v then NormalizePathSeparators v
      else NormalizePathSeparators (lexically_normal (append_path base v)))"

section \<open>Members\<close>

record json_glib =
  jg_int :: "json \<Rightarrow> int"
  jg_double :: "json \<Rightarrow> cfloat"
  jg_bool :: "json \<Rightarrow> bool"

definition GetStringMember :: "json \<Rightarrow> string \<Rightarrow> string option" where
  "GetStringMember obj k = (case jfind obj k of Some (JStr s) \<Rightarrow> Some s | _ \<Rightarrow> None)"

definition string_element :: "json \<Rightarrow> string option" where
  "string_element j = (case j of JStr s \<Rightarrow> Some s | _ \<Rightarrow> None)"

definition GetStringArrayMember :: "json \<Rightarrow> string \<Rightarrow> string list option" where
  "GetStringArrayMember obj k = (case jfind obj k of Some (JArr xs) \<Rightarrow> those (map string_element xs) | _ \<Rightarrow> None)"

text \<open>A value node: neither null nor a container.\<close>

definition holds_value :: "json \<Rightarrow> bool" where
  "holds_value j = (case j of JBool _ \<Rightarrow> True | JInt _ \<Rightarrow> True | JFloat _ \<Rightarrow> True | JStr _ \<Rightarrow> True | _ \<Rightarrow> False)"

definition ToLowerAscii :: "string \<Rightarrow> string" where
  "ToLowerAscii =
     map (\<lambda>c. let n = (of_char c :: nat) in if 65 \<le> n \<and> n \<le> 90 then char_of (n + 32) else c)"

definition IsSupportedMlConverterEngineNick :: "string \<Rightarrow> bool" where
  "IsSupportedMlConverterEngineNick s = (s \<in> {''fcv'', ''c2d'', ''gles'', ''ocv'', ''none''})"

definition ErrorWithPrefix :: "string \<Rightarrow> string \<Rightarrow> string" where
  "ErrorWithPrefix p d = (if d = [] then p else p @ '': '' @ d)"

text \<open>The recurring forms of an optional member: a non-empty string, a boolean, an \<open>int\<close> in a range.\<close>

definition opt_str :: "json \<Rightarrow> string \<Rightarrow> (string \<Rightarrow> 'c \<Rightarrow> 'c) \<Rightarrow> 'c \<Rightarrow> 'c" where
  "opt_str obj k upd c =
     (case GetStringMember obj k of Some s \<Rightarrow> if s \<noteq> [] then upd s c else c | None \<Rightarrow> c)"

definition opt_member :: "json \<Rightarrow> string \<Rightarrow> (json \<Rightarrow> 'c \<Rightarrow> 'c) \<Rightarrow> 'c \<Rightarrow> 'c" where
  "opt_member obj k upd c = (case jfind obj k of Some v \<Rightarrow> upd v c | None \<Rightarrow> c)"

definition opt_bool :: "json_glib \<Rightarrow> json \<Rightarrow> string \<Rightarrow> (bool \<Rightarrow> 'c \<Rightarrow> 'c) \<Rightarrow> 'c \<Rightarrow> 'c" where
  "opt_bool G obj k upd = opt_member obj k (\<lambda>v. upd (jg_bool G v))"

definition opt_int :: "json_glib \<Rightarrow> json \<Rightarrow> string \<Rightarrow> (int \<Rightarrow> bool) \<Rightarrow> (int \<Rightarrow> 'c \<Rightarrow> 'c) \<Rightarrow> 'c \<Rightarrow> 'c" where
  "opt_int G obj k ok upd =
     opt_member obj k (\<lambda>v c. let i = int_cast (jg_int G v) in if ok i then upd i c else c)"

definition opt_object :: "json \<Rightarrow> string \<Rightarrow> (json \<Rightarrow> 'c \<Rightarrow> 'c) \<Rightarrow> 'c \<Rightarrow> 'c" where
  "opt_object doc k f c = (case jfind doc k of Some (JObj kvs) \<Rightarrow> f (JObj kvs) c | _ \<Rightarrow> c)"

section \<open>Loading\<close>

definition and_then :: "'e + 'a \<Rightarrow> ('a \<Rightarrow> 'e + 'b) \<Rightarrow> 'e + 'b" where
  "and_then r f = (case r of Inl e \<Rightarrow> Inl e | Inr x \<Rightarrow> f x)"

definition required_path :: "string \<Rightarrow> json \<Rightarrow> string \<Rightarrow> string + string" where
  "required_path dir doc k =
     (case GetStringMember doc k of
        Some s \<Rightarrow>
          if s = [] then Inl (''config.'' @ k @ '' is required and must be a string'') else Inr (ResolvePath dir s)
      | None \<Rightarrow> Inl (''config.'' @ k @ '' is required and must be a string''))"

fun resolve_videos :: "string \<Rightarrow> string list \<Rightarrow> string + string list" where
  "resolve_videos dir [] = Inr []"
| "resolve_videos dir (v # vs) =
     (if v = [] then Inl ''config.videos_path contains an empty path''
      else and_then (resolve_videos dir vs) (\<lambda>ps. Inr (ResolvePath dir v # ps)))"

definition load_videos :: "string \<Rightarrow> json \<Rightarrow> string + string list" where
  "load_videos dir doc =
     (case GetStringArrayMember doc ''videos_path'' of
        Some vs \<Rightarrow>
          if vs = [] then Inl ''config.videos_path is required and must be a non-empty string array''
          else resolve_videos dir vs
      | None \<Rightarrow> Inl ''config.videos_path is required and must be a non-empty string array'')"

definition load_confidence :: "json_glib \<Rightarrow> json \<Rightarrow> app_settings \<Rightarrow> string + app_settings" where
  "load_confidence G doc c =
     (case jfind doc ''confidence'' of
        None \<Rightarrow> Inr c
      | Some v \<Rightarrow>
          if \<not> holds_value v then Inl ''config.confidence must be a numeric value''
          else if flt (jg_double G v) (Fin 0) \<or> flt (Fin 100) (jg_double G v)
            then Inl ''config.confidence must be in range [0, 100]''
          else Inr (c\<lparr>as_confidence := jg_double G v\<rparr>))"

definition load_positive ::
  "json_glib \<Rightarrow> json \<Rightarrow> string \<Rightarrow> (u32 \<Rightarrow> app_settings \<Rightarrow> app_settings) \<Rightarrow> app_settings \<Rightarrow> string + app_settings" where
  "load_positive G doc k upd c =
     (case jfind doc k of
        None \<Rightarrow> Inr c
      | Some v \<Rightarrow>
          (let i = int_cast (jg_int G v)
           in if i \<le> 0 then Inl (''config.'' @ k @ '' must be greater than 0'') else Inr (upd (u32_of_int i) c)))"

fun check_engines :: "string list \<Rightarrow> string + string list" where
  "check_engines [] = Inr []"
| "check_engines (e # es) =
     (if e = [] then Inl ''config.qtimlvconverter_engine_order contains an empty value''
      else if \<not> IsSupportedMlConverterEngineNick (ToLowerAscii e)
        then Inl (''config.qtimlvconverter_engine_order contains invalid value '' @ CHR 0x27 # e
                  @ CHR 0x27 # ''. Allowed values: fcv, c2d, gles, none'')
      else and_then (check_engines es) (\<lambda>ns. Inr (ToLowerAscii e # ns)))"

definition load_engines :: "json \<Rightarrow> app_settings \<Rightarrow> string + app_settings" where
  "load_engines doc c =
     (if jfind doc ''qtimlvconverter_engine_order'' = None then Inr c
      else
        case GetStringArrayMember doc ''qtimlvconverter_engine_order'' of
          Some es \<Rightarrow>
            if es = [] then Inl ''config.qtimlvconverter_engine_order must be a non-empty string array''
            else and_then (check_engines es) (\<lambda>ns. Inr (c\<lparr>as_engines := ns\<rparr>))
        | None \<Rightarrow> Inl ''config.qtimlvconverter_engine_order must be a non-empty string array'')"

definition load_tracker :: "json \<Rightarrow> app_settings \<Rightarrow> string + app_settings" where
  "load_tracker doc c =
     (if jfind doc ''qtiobjtracker_parameters'' = None then Inr c
      else
        case GetStringMember doc ''qtiobjtracker_parameters'' of
          Some s \<Rightarrow> Inr (c\<lparr>as_tracker := s\<rparr>)
        | None \<Rightarrow> Inl ''config.qtiobjtracker_parameters must be a string'')"

text \<open>The optional objects, each over the part of the configuration it sets.\<close>

definition load_face :: "json_glib \<Rightarrow> string \<Rightarrow> json \<Rightarrow> app_settings \<Rightarrow> app_settings" where
  "load_face G dir obj c =
     (let c = opt_bool G obj ''enabled'' (\<lambda>b c. c\<lparr>as_face := b\<rparr>) c;
          c = opt_int G obj ''channel_mask'' (\<lambda>_. True) (\<lambda>i c. c\<lparr>as_mask := i\<rparr>) c;
          c = opt_member obj ''face_interval_ms'' (\<lambda>v c. c\<lparr>as_interval := u32_of_int (jg_int G v)\<rparr>) c;
          c = opt_str obj ''face_config_path'' (\<lambda>s c. c\<lparr>as_face_config := ResolvePath dir s\<rparr>) c;
          c = opt_str obj ''gallery_path'' (\<lambda>s c. c\<lparr>as_gallery := ResolvePath dir s\<rparr>) c;
          c = opt_member obj ''gallery_threshold'' (\<lambda>v c. c\<lparr>as_threshold := to_float (jg_double G v)\<rparr>) c;
          c = opt_int G obj ''gallery_min_face_size'' (\<lambda>i. 0 < i) (\<lambda>i c. c\<lparr>as_min_face := u32_of_int i\<rparr>) c
      in opt_member obj ''gallery_min_score'' (\<lambda>v c. c\<lparr>as_min_score := to_float (jg_double G v)\<rparr>) c)"

definition load_memtest :: "json_glib \<Rightarrow> string \<Rightarrow> json \<Rightarrow> app_settings \<Rightarrow> app_settings" where
  "load_memtest G dir obj c =
     (let c = opt_int G obj ''loop_count'' (\<lambda>i. 0 \<le> i) (\<lambda>i c. c\<lparr>as_loops := u32_of_int i\<rparr>) c;
          c = opt_int G obj ''mem_sample_interval_s'' (\<lambda>i. 0 < i) (\<lambda>i c. c\<lparr>as_mem_interval := u32_of_int i\<rparr>) c
      in opt_str obj ''log_path'' (\<lambda>s c. c\<lparr>as_mem_log := ResolvePath dir s\<rparr>) c)"

definition load_aggregator :: "json_glib \<Rightarrow> json \<Rightarrow> agg_settings \<Rightarrow> agg_settings" where
  "load_aggregator G obj g =
     (let g = opt_bool G obj ''enabled'' (\<lambda>b g. g\<lparr>gs_enabled := b\<rparr>) g;
          g = opt_int G obj ''batch_size'' (\<lambda>i. 0 < i) (\<lambda>i g. g\<lparr>gs_batch := u32_of_int i\<rparr>) g;
          g = opt_int G obj ''queue_capacity'' (\<lambda>i. 0 < i) (\<lambda>i g. g\<lparr>gs_capacity := u32_of_int i\<rparr>) g
      in opt_int G obj ''drain_timeout_ms'' (\<lambda>i. 0 < i) (\<lambda>i g. g\<lparr>gs_drain := u32_of_int i\<rparr>) g)"

definition load_mqtt :: "json_glib \<Rightarrow> json \<Rightarrow> mqtt_settings \<Rightarrow> mqtt_settings" where
  "load_mqtt G obj q =
     (let q = opt_bool G obj ''enabled'' (\<lambda>b q. q\<lparr>qs_enabled := b\<rparr>) q;
          q = opt_str obj ''broker_ip'' (\<lambda>s q. q\<lparr>qs_broker := s\<rparr>) q;
          q = opt_int G obj ''port'' (\<lambda>i. 0 < i \<and> i \<le> 65535) (\<lambda>i q. q\<lparr>qs_port := i\<rparr>) q;
          q = opt_str obj ''pub_topic'' (\<lambda>s q. q\<lparr>qs_pub := s\<rparr>) q;
          q = opt_str obj ''sub_topic'' (\<lambda>s q. q\<lparr>qs_sub := s\<rparr>) q;
          q = opt_str obj ''client_id'' (\<lambda>s q. q\<lparr>qs_client := s\<rparr>) q
      in opt_int G obj ''qos'' (\<lambda>i. 0 \<le> i \<and> i \<le> 2) (\<lambda>i q. q\<lparr>qs_qos := i\<rparr>) q)"

definition load_cache :: "json_glib \<Rightarrow> json \<Rightarrow> cache_settings \<Rightarrow> cache_settings" where
  "load_cache G obj k =
     (let k = opt_bool G obj ''enabled'' (\<lambda>b k. k\<lparr>cs_enabled := b\<rparr>) k;
          k = opt_str obj ''socket_path'' (\<lambda>s k. k\<lparr>cs_socket := s\<rparr>) k;
          k = opt_str obj ''heap_path'' (\<lambda>s k. k\<lparr>cs_heap := s\<rparr>) k;
          k = opt_int G obj ''slot_count'' (\<lambda>i. 0 < i \<and> i \<le> 32) (\<lambda>i k. k\<lparr>cs_slots := i\<rparr>) k;
          k = opt_int G obj ''width'' (\<lambda>i. 0 < i) (\<lambda>i k. k\<lparr>cs_width := i\<rparr>) k;
          k = opt_int G obj ''height'' (\<lambda>i. 0 < i) (\<lambda>i k. k\<lparr>cs_height := i\<rparr>) k;
          k = opt_bool G obj ''relay_mode'' (\<lambda>b k. k\<lparr>cs_relay := b\<rparr>) k
      in opt_str obj ''frame_done_topic'' (\<lambda>s k. k\<lparr>cs_topic := s\<rparr>) k)"

definition load_msgagg :: "json_glib \<Rightarrow> string \<Rightarrow> json \<Rightarrow> msgagg_settings \<Rightarrow> msgagg_settings" where
  "load_msgagg G dir obj m =
     (let m = opt_bool G obj ''enabled'' (\<lambda>b m. m\<lparr>ms_enabled := b\<rparr>) m;
          m = opt_int G obj ''timeout_ms'' (\<lambda>i. 0 < i) (\<lambda>i m. m\<lparr>ms_timeout := u32_of_int i\<rparr>) m
      in opt_str obj ''scene_jsonl_dir'' (\<lambda>s m. m\<lparr>ms_dir := ResolvePath dir s\<rparr>) m)"

definition load_latency :: "json_glib \<Rightarrow> string \<Rightarrow> json \<Rightarrow> latency_settings \<Rightarrow> latency_settings" where
  "load_latency G dir obj l =
     (let l = opt_bool G obj ''enabled'' (\<lambda>b l. l\<lparr>ls_enabled := b\<rparr>) l;
          l = opt_str obj ''output_dir'' (\<lambda>s l. l\<lparr>ls_dir := ResolvePath dir s\<rparr>) l;
          l = opt_int G obj ''sample_every_n'' (\<lambda>i. 0 < i) (\<lambda>i l. l\<lparr>ls_every := u32_of_int i\<rparr>) l
      in opt_bool G obj ''flush_per_sample'' (\<lambda>b l. l\<lparr>ls_flush := b\<rparr>) l)"

definition kHardChannelLimit :: u32 where
  "kHardChannelLimit = 6"

definition clamp_channels :: "app_settings \<Rightarrow> app_settings" where
  "clamp_channels c =
     (let n = min (as_channels c) kHardChannelLimit;
          n = (if n = 0 then 1 else n)
      in c\<lparr>as_channels := n, as_videos := take (unat n) (as_videos c)\<rparr>)"

text \<open>The members in the order of the source: required paths, optional scalars, objects, limits.\<close>

definition load_paths :: "json_glib \<Rightarrow> string \<Rightarrow> json \<Rightarrow> string + app_settings" where
  "load_paths G dir doc =
     and_then (required_path dir doc ''model_path'') (\<lambda>m.
     and_then (load_videos dir doc) (\<lambda>vs.
     and_then (required_path dir doc ''labels_path'') (\<lambda>ls.
     and_then (required_path dir doc ''output_dir'') (\<lambda>out.
     let c = settings_default\<lparr>as_model := m, as_videos := vs, as_labels := ls, as_output := out\<rparr>;
         c = (case GetStringMember doc ''log_dir'' of
                Some s \<Rightarrow> c\<lparr>as_log := (if s \<noteq> [] then ResolvePath dir s else out @ ''/../log'')\<rparr>
              | None \<Rightarrow> c\<lparr>as_log := out @ ''/../log''\<rparr>);
         c = opt_str doc ''qnn_backend'' (\<lambda>s c. c\<lparr>as_backend := ResolvePath dir s\<rparr>) c;
         c = opt_str doc ''qnn_system'' (\<lambda>s c. c\<lparr>as_system := ResolvePath dir s\<rparr>) c;
         c = opt_str doc ''postprocess_module'' (\<lambda>s c. c\<lparr>as_postprocess := s\<rparr>) c
     in Inr (opt_member doc ''qnn_backend_device_id'' (\<lambda>v c. c\<lparr>as_device := u32_of_int (jg_int G v)\<rparr>) c)))))"


definition load_scalars :: "json_glib \<Rightarrow> json \<Rightarrow> app_settings \<Rightarrow> string + app_settings" where
  "load_scalars G doc c =
     and_then (load_confidence G doc c) (\<lambda>c.
     and_then (load_positive G doc ''max_channels'' (\<lambda>n c. c\<lparr>as_channels := n\<rparr>) c) (\<lambda>c.
     let c = opt_bool G doc ''appsink_sync'' (\<lambda>b c. c\<lparr>as_sync := b\<rparr>) c;
         c = opt_bool G doc ''appsink_drop'' (\<lambda>b c. c\<lparr>as_drop := b\<rparr>) c
     in and_then (load_positive G doc ''appsink_max_buffers'' (\<lambda>n c. c\<lparr>as_buffers := n\<rparr>) c) (\<lambda>c.
     let c = (case GetStringArrayMember doc ''qnn_tensors'' of
                Some ts \<Rightarrow> if ts \<noteq> [] then c\<lparr>as_tensors := ts\<rparr> else c
              | None \<Rightarrow> c)
     in and_then (load_engines doc c) (load_tracker doc))))"

definition load_objects :: "json_glib \<Rightarrow> string \<Rightarrow> json \<Rightarrow> app_settings \<Rightarrow> string + app_settings" where
  "load_objects G dir doc c =
     (let c = opt_object doc ''face'' (load_face G dir) c;
          c = opt_object doc ''memtest'' (load_memtest G dir) c;
          c = c\<lparr>as_agg := opt_object doc ''aggregator'' (load_aggregator G) (as_agg c)\<rparr>;
          c = c\<lparr>as_mqtt := opt_object doc ''mqtt'' (load_mqtt G) (as_mqtt c)\<rparr>;
          c = c\<lparr>as_cache := opt_object doc ''frame_cache'' (load_cache G) (as_cache c)\<rparr>
      in if cs_enabled (as_cache c) \<and> \<not> qs_enabled (as_mqtt c)
           then Inl ''frame_cache.enabled requires mqtt.enabled (for frame_done subscription)''
         else if cs_enabled (as_cache c) \<and> cs_topic (as_cache c) = []
           then Inl ''frame_cache.enabled requires a non-empty frame_cache.frame_done_topic''
         else
           Inr (c\<lparr>as_msgagg := opt_object doc ''msgagg'' (load_msgagg G dir) (as_msgagg c),
                  as_latency := opt_object doc ''latency_test'' (load_latency G dir) (as_latency c)\<rparr>))"

definition config_dir :: "string \<Rightarrow> string" where
  "config_dir path = parent_path (lexically_normal path)"

text \<open>
  The parse of the file is an error message, or a document that may lack a root. The result is
  an error message or the configuration, which the caller gets only then.
\<close>

definition LoadFromFile :: "json_glib \<Rightarrow> string \<Rightarrow> string + json option \<Rightarrow> string + app_settings" where
  "LoadFromFile G path parsed =
     (case parsed of
        Inl details \<Rightarrow> Inl (ErrorWithPrefix ''Failed to parse config json'' details)
      | Inr (Some (JObj kvs)) \<Rightarrow>
          (let doc = JObj kvs; dir = config_dir path
           in and_then (load_paths G dir doc) (\<lambda>c.
              and_then (load_scalars G doc c) (\<lambda>c.
              and_then (load_objects G dir doc c) (\<lambda>c. Inr (clamp_channels c)))))
      | Inr _ \<Rightarrow> Inl ''Config root must be a JSON object'')"

section \<open>What a loaded configuration is\<close>

definition agg_ok :: "agg_settings \<Rightarrow> bool" where
  "agg_ok g = (gs_batch g \<noteq> 0 \<and> gs_capacity g \<noteq> 0 \<and> gs_drain g \<noteq> 0)"

definition mqtt_ok :: "mqtt_settings \<Rightarrow> bool" where
  "mqtt_ok q =
     (0 < qs_port q \<and> qs_port q \<le> 65535 \<and> 0 \<le> qs_qos q \<and> qs_qos q \<le> 2
      \<and> qs_broker q \<noteq> [] \<and> qs_pub q \<noteq> [] \<and> qs_sub q \<noteq> [] \<and> qs_client q \<noteq> [])"

definition cache_ok :: "cache_settings \<Rightarrow> bool" where
  "cache_ok k =
     (0 < cs_slots k \<and> cs_slots k \<le> 32 \<and> 0 < cs_width k \<and> 0 < cs_height k
      \<and> cs_socket k \<noteq> [] \<and> cs_heap k \<noteq> [])"

definition engines_ok :: "string list \<Rightarrow> bool" where
  "engines_ok es = (es \<noteq> [] \<and> (\<forall>e\<in>set es. IsSupportedMlConverterEngineNick e))"

definition scalars_ok :: "app_settings \<Rightarrow> bool" where
  "scalars_ok c =
     (\<not> flt (as_confidence c) (Fin 0) \<and> \<not> flt (Fin 100) (as_confidence c) \<and> as_channels c \<noteq> 0
      \<and> as_buffers c \<noteq> 0 \<and> as_tensors c \<noteq> [] \<and> engines_ok (as_engines c) \<and> as_min_face c \<noteq> 0
      \<and> as_mem_interval c \<noteq> 0)"

definition paths_ok :: "app_settings \<Rightarrow> bool" where
  "paths_ok c =
     (as_model c \<noteq> [] \<and> as_videos c \<noteq> [] \<and> [] \<notin> set (as_videos c) \<and> as_labels c \<noteq> [] \<and> as_output c \<noteq> []
      \<and> as_log c \<noteq> [] \<and> as_backend c \<noteq> [] \<and> as_system c \<noteq> [])"

definition objects_ok :: "app_settings \<Rightarrow> bool" where
  "objects_ok c =
     (agg_ok (as_agg c) \<and> mqtt_ok (as_mqtt c) \<and> cache_ok (as_cache c)
      \<and> (cs_enabled (as_cache c) \<longrightarrow> qs_enabled (as_mqtt c) \<and> cs_topic (as_cache c) \<noteq> [])
      \<and> ms_timeout (as_msgagg c) \<noteq> 0 \<and> ls_every (as_latency c) \<noteq> 0)"

definition settings_ok :: "app_settings \<Rightarrow> bool" where
  "settings_ok c =
     (paths_ok c \<and> scalars_ok c \<and> objects_ok c
      \<and> unat (as_channels c) \<le> 6 \<and> length (as_videos c) \<le> unat (as_channels c))"

lemma opt_str_inv:
  assumes "P c" "\<And>s c. s \<noteq> [] \<Longrightarrow> P c \<Longrightarrow> P (upd s c)"
  shows "P (opt_str obj k upd c)"
  using assms by (auto simp: opt_str_def split: option.splits)

lemma opt_member_inv:
  assumes "P c" "\<And>v c. P c \<Longrightarrow> P (upd v c)"
  shows "P (opt_member obj k upd c)"
  using assms by (auto simp: opt_member_def split: option.splits)

lemma opt_bool_inv:
  assumes "P c" "\<And>b c. P c \<Longrightarrow> P (upd b c)"
  shows "P (opt_bool G obj k upd c)"
  using assms by (auto simp: opt_bool_def intro: opt_member_inv [where P = P])

lemma opt_int_inv:
  assumes "P c" "\<And>i c. ok i \<Longrightarrow> - 2147483648 \<le> i \<Longrightarrow> i < 2147483648 \<Longrightarrow> P c \<Longrightarrow> P (upd i c)"
  shows "P (opt_int G obj k ok upd c)"
  using assms int_of_u32_range
  by (auto simp: opt_int_def Let_def int_cast_def intro!: opt_member_inv [where P = P])

lemma opt_object_inv:
  assumes "P c" "\<And>kvs c. P c \<Longrightarrow> P (f (JObj kvs) c)"
  shows "P (opt_object doc k f c)"
  using assms by (auto simp: opt_object_def split: option.splits json.splits)

lemmas opt_inv = opt_str_inv opt_member_inv opt_bool_inv opt_int_inv

lemma u32_of_int_nonzero: "0 < i \<Longrightarrow> i < 2147483648 \<Longrightarrow> u32_of_int i \<noteq> 0"
  using unat_u32_of_int [of i] by (intro notI) simp

lemma load_aggregator_ok: "agg_ok g \<Longrightarrow> agg_ok (load_aggregator G obj g)"
  unfolding load_aggregator_def Let_def
  by (intro opt_inv [where P = agg_ok]) (auto simp: agg_ok_def u32_of_int_nonzero)

lemma load_mqtt_ok: "mqtt_ok q \<Longrightarrow> mqtt_ok (load_mqtt G obj q)"
  unfolding load_mqtt_def Let_def
  by (intro opt_inv [where P = mqtt_ok]) (auto simp: mqtt_ok_def)

lemma load_cache_ok: "cache_ok k \<Longrightarrow> cache_ok (load_cache G obj k)"
  unfolding load_cache_def Let_def
  by (intro opt_inv [where P = cache_ok]) (auto simp: cache_ok_def)

lemma and_then_Inr [simp]: "and_then r f = Inr y \<longleftrightarrow> (\<exists>x. r = Inr x \<and> f x = Inr y)"
  by (cases r) (auto simp: and_then_def)

lemma join_path_nonempty: "ws \<noteq> [] \<Longrightarrow> [] \<notin> set ws \<Longrightarrow> join_path ws \<noteq> []"
  by (cases ws rule: join_path.cases) auto

lemma kept_names_nonempty: "[] \<notin> set st \<Longrightarrow> [] \<notin> set (foldl (keep_name r) st ws)"
proof (induction ws arbitrary: st)
  case (Cons w ws)
  have "[] \<notin> set (keep_name r st w)"
    using Cons.prems by (auto simp: keep_name_def split: list.splits)
  then show ?case using Cons.IH by simp
qed simp

lemma lexically_normal_nonempty: "p \<noteq> [] \<Longrightarrow> lexically_normal p \<noteq> []"
  using kept_names_nonempty [of "[]" "is_rooted p" "split_path p"]
  by (auto simp: lexically_normal_def Let_def join_path_nonempty)

lemma ResolvePath_nonempty [simp]: "ResolvePath d v = [] \<longleftrightarrow> v = []" "[] = ResolvePath d v \<longleftrightarrow> v = []"
  using lexically_normal_nonempty [of "append_path d v"]
  by (auto simp: ResolvePath_def NormalizePathSeparators_def append_path_def)

lemma required_path_ok: "required_path d doc k = Inr p \<Longrightarrow> p \<noteq> []"
  by (auto simp: required_path_def split: option.splits if_splits)

lemma resolve_videos_ok: "resolve_videos d vs = Inr ps \<Longrightarrow> length ps = length vs \<and> [] \<notin> set ps"
  by (induction vs arbitrary: ps) (auto split: if_splits)

lemma load_videos_ok: "load_videos d doc = Inr ps \<Longrightarrow> ps \<noteq> [] \<and> [] \<notin> set ps"
  by (auto simp: load_videos_def split: option.splits if_splits dest: resolve_videos_ok)

lemma check_engines_ok:
  "check_engines es = Inr ns \<Longrightarrow> ns = map ToLowerAscii es \<and> (\<forall>e\<in>set ns. IsSupportedMlConverterEngineNick e)"
  by (induction es arbitrary: ns) (auto split: if_splits)

definition stage_ok :: "app_settings \<Rightarrow> bool" where
  "stage_ok c =
     (paths_ok c \<and> scalars_ok c \<and> objects_ok c
      \<and> as_mqtt c = as_mqtt settings_default \<and> as_cache c = as_cache settings_default)"

lemma engines_default: "engines_ok [''fcv'', ''c2d'']"
  by (simp add: engines_ok_def IsSupportedMlConverterEngineNick_def)

lemmas stage_defs = stage_ok_def paths_ok_def scalars_ok_def objects_ok_def

lemma stage_default:
  assumes "m \<noteq> []" "vs \<noteq> []" "[] \<notin> set vs" "ls \<noteq> []" "out \<noteq> []" "lg \<noteq> []"
  shows "stage_ok (settings_default
    \<lparr>as_model := m, as_videos := vs, as_labels := ls, as_output := out, as_log := lg\<rparr>)"
  using assms engines_default by (simp add: stage_defs settings_default_def agg_ok_def mqtt_ok_def cache_ok_def)

lemma default_parts [simp]:
  "mqtt_ok (as_mqtt settings_default)" "cache_ok (as_cache settings_default)" "\<not> cs_enabled (as_cache settings_default)"
  by (simp_all add: settings_default_def mqtt_ok_def cache_ok_def)

lemma stage_irrelevant [simp]:
  "stage_ok (c\<lparr>as_device := v0\<rparr>) = stage_ok c"
  "stage_ok (c\<lparr>as_tracker := v1\<rparr>) = stage_ok c"
  "stage_ok (c\<lparr>as_postprocess := v2\<rparr>) = stage_ok c"
  "stage_ok (c\<lparr>as_sync := v3\<rparr>) = stage_ok c"
  "stage_ok (c\<lparr>as_drop := v4\<rparr>) = stage_ok c"
  "stage_ok (c\<lparr>as_face := v5\<rparr>) = stage_ok c"
  "stage_ok (c\<lparr>as_mask := v6\<rparr>) = stage_ok c"
  "stage_ok (c\<lparr>as_face_config := v7\<rparr>) = stage_ok c"
  "stage_ok (c\<lparr>as_gallery := v8\<rparr>) = stage_ok c"
  "stage_ok (c\<lparr>as_threshold := v9\<rparr>) = stage_ok c"
  "stage_ok (c\<lparr>as_min_score := v10\<rparr>) = stage_ok c"
  "stage_ok (c\<lparr>as_interval := v11\<rparr>) = stage_ok c"
  "stage_ok (c\<lparr>as_loops := v12\<rparr>) = stage_ok c"
  "stage_ok (c\<lparr>as_mem_log := v13\<rparr>) = stage_ok c"
  by (simp_all add: stage_defs)

lemma stage_update [simp]:
  assumes "stage_ok c"
  shows
  "stage_ok (c\<lparr>as_backend := v0\<rparr>) \<longleftrightarrow> v0 \<noteq> []"
  "stage_ok (c\<lparr>as_system := v1\<rparr>) \<longleftrightarrow> v1 \<noteq> []"
  "stage_ok (c\<lparr>as_confidence := v2\<rparr>) \<longleftrightarrow> \<not> flt v2 (Fin 0) \<and> \<not> flt (Fin 100) v2"
  "stage_ok (c\<lparr>as_channels := v3\<rparr>) \<longleftrightarrow> v3 \<noteq> 0"
  "stage_ok (c\<lparr>as_buffers := v4\<rparr>) \<longleftrightarrow> v4 \<noteq> 0"
  "stage_ok (c\<lparr>as_tensors := v5\<rparr>) \<longleftrightarrow> v5 \<noteq> []"
  "stage_ok (c\<lparr>as_engines := v6\<rparr>) \<longleftrightarrow> engines_ok v6"
  "stage_ok (c\<lparr>as_min_face := v7\<rparr>) \<longleftrightarrow> v7 \<noteq> 0"
  "stage_ok (c\<lparr>as_mem_interval := v8\<rparr>) \<longleftrightarrow> v8 \<noteq> 0"
  using assms by (simp_all add: stage_defs)

lemma load_paths_ok:
  assumes "load_paths G d doc = Inr c"
  shows "stage_ok c"
proof -
  obtain m vs ls out where r: "required_path d doc ''model_path'' = Inr m" "load_videos d doc = Inr vs"
      "required_path d doc ''labels_path'' = Inr ls" "required_path d doc ''output_dir'' = Inr out"
    using assms by (auto simp: load_paths_def)
  define lg where "lg = (case GetStringMember doc ''log_dir'' of
      Some s \<Rightarrow> (if s \<noteq> [] then ResolvePath d s else out @ ''/../log'') | None \<Rightarrow> out @ ''/../log'')"
  let ?c = "settings_default
    \<lparr>as_model := m, as_videos := vs, as_labels := ls, as_output := out, as_log := lg\<rparr>"
  let ?opt = "opt_str doc ''postprocess_module'' (\<lambda>s c. c\<lparr>as_postprocess := s\<rparr>)
    (opt_str doc ''qnn_system'' (\<lambda>s c. c\<lparr>as_system := ResolvePath d s\<rparr>)
      (opt_str doc ''qnn_backend'' (\<lambda>s c. c\<lparr>as_backend := ResolvePath d s\<rparr>) ?c))"
  have c: "c = opt_member doc ''qnn_backend_device_id'' (\<lambda>v c. c\<lparr>as_device := u32_of_int (jg_int G v)\<rparr>) ?opt"
    using assms r by (auto simp: load_paths_def lg_def Let_def split: option.splits)
  have "stage_ok ?c"
    using r(1,3,4) [THEN required_path_ok] r(2) [THEN load_videos_ok]
    by (intro stage_default) (auto simp: lg_def split: option.splits)
  then have "stage_ok ?opt"
    by (intro opt_str_inv [where P = stage_ok]) simp_all
  then show ?thesis unfolding c by (intro opt_member_inv [where P = stage_ok]) simp_all
qed

lemma load_confidence_ok: "load_confidence G doc c = Inr c' \<Longrightarrow> stage_ok c \<Longrightarrow> stage_ok c'"
  by (auto simp: load_confidence_def split: option.splits if_splits)

lemma load_positive_ok:
  assumes "load_positive G doc k upd c = Inr c'" "stage_ok c" "\<And>n c. n \<noteq> 0 \<Longrightarrow> stage_ok c \<Longrightarrow> stage_ok (upd n c)"
  shows "stage_ok c'"
  using assms int_of_u32_range
  by (auto simp: load_positive_def Let_def int_cast_def u32_of_int_nonzero split: option.splits if_splits)

lemma load_engines_ok: "load_engines doc c = Inr c' \<Longrightarrow> stage_ok c \<Longrightarrow> stage_ok c'"
  by (auto simp: load_engines_def engines_ok_def split: option.splits if_splits dest: check_engines_ok)

lemma load_tracker_ok: "load_tracker doc c = Inr c' \<Longrightarrow> stage_ok c \<Longrightarrow> stage_ok c'"
  by (auto simp: load_tracker_def split: option.splits if_splits)

lemma load_scalars_ok:
  assumes "load_scalars G doc c = Inr c'" "stage_ok c"
  shows "stage_ok c'"
proof -
  obtain c1 where 1: "load_confidence G doc c = Inr c1"
      and "and_then (load_positive G doc ''max_channels'' (\<lambda>n c. c\<lparr>as_channels := n\<rparr>) c1) (\<lambda>c.
        let c = opt_bool G doc ''appsink_sync'' (\<lambda>b c. c\<lparr>as_sync := b\<rparr>) c;
            c = opt_bool G doc ''appsink_drop'' (\<lambda>b c. c\<lparr>as_drop := b\<rparr>) c
        in and_then (load_positive G doc ''appsink_max_buffers'' (\<lambda>n c. c\<lparr>as_buffers := n\<rparr>) c) (\<lambda>c.
        let c = (case GetStringArrayMember doc ''qnn_tensors'' of
                   Some ts \<Rightarrow> if ts \<noteq> [] then c\<lparr>as_tensors := ts\<rparr> else c | None \<Rightarrow> c)
        in and_then (load_engines doc c) (load_tracker doc))) = Inr c'"
    using assms(1) by (auto simp only: load_scalars_def and_then_Inr)
  then obtain c2 where 2: "load_positive G doc ''max_channels'' (\<lambda>n c. c\<lparr>as_channels := n\<rparr>) c1 = Inr c2"
      and rest: "and_then (load_positive G doc ''appsink_max_buffers'' (\<lambda>n c. c\<lparr>as_buffers := n\<rparr>)
        (opt_bool G doc ''appsink_drop'' (\<lambda>b c. c\<lparr>as_drop := b\<rparr>)
          (opt_bool G doc ''appsink_sync'' (\<lambda>b c. c\<lparr>as_sync := b\<rparr>) c2))) (\<lambda>c.
        let c = (case GetStringArrayMember doc ''qnn_tensors'' of
                   Some ts \<Rightarrow> if ts \<noteq> [] then c\<lparr>as_tensors := ts\<rparr> else c | None \<Rightarrow> c)
        in and_then (load_engines doc c) (load_tracker doc)) = Inr c'"
    by (auto simp only: and_then_Inr Let_def)
  let ?c3 = "opt_bool G doc ''appsink_drop'' (\<lambda>b c. c\<lparr>as_drop := b\<rparr>)
    (opt_bool G doc ''appsink_sync'' (\<lambda>b c. c\<lparr>as_sync := b\<rparr>) c2)"
  obtain c4 where 4: "load_positive G doc ''appsink_max_buffers'' (\<lambda>n c. c\<lparr>as_buffers := n\<rparr>) ?c3 = Inr c4"
      and last: "and_then (load_engines doc (case GetStringArrayMember doc ''qnn_tensors'' of
                   Some ts \<Rightarrow> if ts \<noteq> [] then c4\<lparr>as_tensors := ts\<rparr> else c4 | None \<Rightarrow> c4)) (load_tracker doc) = Inr c'"
    using rest by (auto simp only: and_then_Inr Let_def)
  have "stage_ok c2"
    by (rule load_positive_ok [OF 2]) (simp_all add: load_confidence_ok [OF 1 assms(2)])
  then have "stage_ok ?c3"
    by (intro opt_bool_inv [where P = stage_ok]) simp_all
  then have "stage_ok c4"
    by (rule load_positive_ok [OF 4]) simp_all
  then have "stage_ok (case GetStringArrayMember doc ''qnn_tensors'' of
                   Some ts \<Rightarrow> if ts \<noteq> [] then c4\<lparr>as_tensors := ts\<rparr> else c4 | None \<Rightarrow> c4)"
    by (simp split: option.split)
  then show ?thesis using last by (auto intro: load_engines_ok load_tracker_ok)
qed

lemma load_face_ok: "stage_ok c \<Longrightarrow> stage_ok (load_face G d obj c)"
  unfolding load_face_def Let_def
  by (intro opt_inv [where P = stage_ok]) (simp_all add: u32_of_int_nonzero)

lemma load_memtest_ok: "stage_ok c \<Longrightarrow> stage_ok (load_memtest G d obj c)"
  unfolding load_memtest_def Let_def
  by (intro opt_inv [where P = stage_ok]) (simp_all add: u32_of_int_nonzero)

lemma load_msgagg_ok: "ms_timeout m \<noteq> 0 \<Longrightarrow> ms_timeout (load_msgagg G d obj m) \<noteq> 0"
  unfolding load_msgagg_def Let_def
  by (intro opt_inv [where P = "\<lambda>m. ms_timeout m \<noteq> 0"]) (auto simp: u32_of_int_nonzero)

lemma load_latency_ok: "ls_every m \<noteq> 0 \<Longrightarrow> ls_every (load_latency G d obj m) \<noteq> 0"
  unfolding load_latency_def Let_def
  by (intro opt_inv [where P = "\<lambda>m. ls_every m \<noteq> 0"]) (auto simp: u32_of_int_nonzero)

lemma load_objects_ok:
  assumes "load_objects G d doc c = Inr c'" "stage_ok c"
  shows "paths_ok c' \<and> scalars_ok c' \<and> objects_ok c'"
proof -
  define e where "e = opt_object doc ''memtest'' (load_memtest G d) (opt_object doc ''face'' (load_face G d) c)"
  have e: "stage_ok e"
    unfolding e_def using assms(2)
    by (intro opt_object_inv [where P = stage_ok]) (simp_all add: load_face_ok load_memtest_ok)
  have parts: "agg_ok (opt_object doc ''aggregator'' (load_aggregator G) (as_agg e))"
      "mqtt_ok (opt_object doc ''mqtt'' (load_mqtt G) (as_mqtt e))"
      "cache_ok (opt_object doc ''frame_cache'' (load_cache G) (as_cache e))"
    using e unfolding stage_ok_def objects_ok_def
    by (auto intro: opt_object_inv [where P = agg_ok] opt_object_inv [where P = mqtt_ok]
        opt_object_inv [where P = cache_ok] load_aggregator_ok load_mqtt_ok load_cache_ok)
  have times: "ms_timeout (opt_object doc ''msgagg'' (load_msgagg G d) (as_msgagg e)) \<noteq> 0"
      "ls_every (opt_object doc ''latency_test'' (load_latency G d) (as_latency e)) \<noteq> 0"
    using e
    by (rule_tac [1] opt_object_inv [where P = "\<lambda>m. ms_timeout m \<noteq> 0"],
        rule_tac [3] opt_object_inv [where P = "\<lambda>m. ls_every m \<noteq> 0"])
      (simp_all add: stage_defs load_msgagg_ok load_latency_ok)
  have c': "c' = e\<lparr>as_agg := opt_object doc ''aggregator'' (load_aggregator G) (as_agg e),
      as_mqtt := opt_object doc ''mqtt'' (load_mqtt G) (as_mqtt e),
      as_cache := opt_object doc ''frame_cache'' (load_cache G) (as_cache e),
      as_msgagg := opt_object doc ''msgagg'' (load_msgagg G d) (as_msgagg e),
      as_latency := opt_object doc ''latency_test'' (load_latency G d) (as_latency e)\<rparr>"
    and joined: "cs_enabled (opt_object doc ''frame_cache'' (load_cache G) (as_cache e)) \<longrightarrow>
      qs_enabled (opt_object doc ''mqtt'' (load_mqtt G) (as_mqtt e))
      \<and> cs_topic (opt_object doc ''frame_cache'' (load_cache G) (as_cache e)) \<noteq> []"
    using assms(1) by (auto simp: load_objects_def Let_def e_def split: if_splits)
  show ?thesis
    using e parts times joined unfolding c' by (simp add: stage_defs)
qed

lemma channels_limit: "n \<noteq> (0 :: u32) \<Longrightarrow> min n 6 \<noteq> 0 \<and> unat (min n 6) \<le> 6"
  by (simp add: min_def word_le_nat_alt)

lemma clamp_channels_ok:
  assumes "paths_ok c" "scalars_ok c" "objects_ok c"
  shows "settings_ok (clamp_channels c)"
proof -
  have n: "min (as_channels c) 6 \<noteq> 0" "unat (min (as_channels c) 6) \<le> 6"
    using assms(2) channels_limit [of "as_channels c"] by (simp_all add: scalars_ok_def)
  then have "take (unat (min (as_channels c) 6)) (as_videos c) \<noteq> []"
    using assms(1) by (simp add: paths_ok_def unat_eq_0)
  moreover have "[] \<notin> set (take k (as_videos c))" for k
    using assms(1) by (auto simp: paths_ok_def dest: in_set_takeD)
  ultimately show ?thesis
    using assms n
    by (simp add: settings_ok_def clamp_channels_def kHardChannelLimit_def Let_def paths_ok_def scalars_ok_def objects_ok_def)
qed

lemma load_settings_ok:
  assumes "LoadFromFile G path parsed = Inr c"
  shows "settings_ok c"
proof -
  obtain kvs c0 c1 c2 where "load_paths G (config_dir path) (JObj kvs) = Inr c0"
      "load_scalars G (JObj kvs) c0 = Inr c1" "load_objects G (config_dir path) (JObj kvs) c1 = Inr c2"
      "c = clamp_channels c2"
    using assms by (auto simp: LoadFromFile_def Let_def split: sum.splits option.splits json.splits)
  then show ?thesis
    using load_paths_ok load_scalars_ok load_objects_ok clamp_channels_ok by metis
qed

section \<open>Which documents load\<close>

definition object_flag :: "json_glib \<Rightarrow> json \<Rightarrow> string \<Rightarrow> bool" where
  "object_flag G doc k =
     (case jfind doc k of
        Some (JObj kvs) \<Rightarrow> (case jfind (JObj kvs) ''enabled'' of Some v \<Rightarrow> jg_bool G v | None \<Rightarrow> False)
      | _ \<Rightarrow> False)"

definition object_string :: "json \<Rightarrow> string \<Rightarrow> string \<Rightarrow> string" where
  "object_string doc k m =
     (case jfind doc k of
        Some (JObj kvs) \<Rightarrow> (case GetStringMember (JObj kvs) m of Some s \<Rightarrow> s | None \<Rightarrow> [])
      | _ \<Rightarrow> [])"

definition required_ok :: "json \<Rightarrow> string \<Rightarrow> bool" where
  "required_ok doc k = (case GetStringMember doc k of Some s \<Rightarrow> s \<noteq> [] | None \<Rightarrow> False)"

definition positive_ok :: "json_glib \<Rightarrow> json \<Rightarrow> string \<Rightarrow> bool" where
  "positive_ok G doc k = (case jfind doc k of Some v \<Rightarrow> 0 < int_cast (jg_int G v) | None \<Rightarrow> True)"

text \<open>The documents that load, in terms of their members alone.\<close>

definition acceptable :: "json_glib \<Rightarrow> json \<Rightarrow> bool" where
  "acceptable G doc =
     (required_ok doc ''model_path'' \<and> required_ok doc ''labels_path'' \<and> required_ok doc ''output_dir''
      \<and> (case GetStringArrayMember doc ''videos_path'' of Some vs \<Rightarrow> vs \<noteq> [] \<and> [] \<notin> set vs | None \<Rightarrow> False)
      \<and> (case jfind doc ''confidence'' of
           Some v \<Rightarrow> holds_value v \<and> \<not> flt (jg_double G v) (Fin 0) \<and> \<not> flt (Fin 100) (jg_double G v)
         | None \<Rightarrow> True)
      \<and> positive_ok G doc ''max_channels'' \<and> positive_ok G doc ''appsink_max_buffers''
      \<and> (jfind doc ''qtimlvconverter_engine_order'' = None
         \<or> (case GetStringArrayMember doc ''qtimlvconverter_engine_order'' of
              Some es \<Rightarrow> es \<noteq> [] \<and> (\<forall>e\<in>set es. IsSupportedMlConverterEngineNick (ToLowerAscii e))
            | None \<Rightarrow> False))
      \<and> (jfind doc ''qtiobjtracker_parameters'' = None \<or> GetStringMember doc ''qtiobjtracker_parameters'' \<noteq> None)
      \<and> (object_flag G doc ''frame_cache'' \<longrightarrow>
         object_flag G doc ''mqtt'' \<and> object_string doc ''frame_cache'' ''frame_done_topic'' \<noteq> []))"

lemma required_path_loads: "(\<exists>p. required_path d doc k = Inr p) \<longleftrightarrow> required_ok doc k"
  by (auto simp: required_path_def required_ok_def split: option.splits)

lemma resolve_videos_loads: "(\<exists>ps. resolve_videos d vs = Inr ps) \<longleftrightarrow> [] \<notin> set vs"
  by (induction vs) auto

lemma load_videos_loads:
  "(\<exists>ps. load_videos d doc = Inr ps) \<longleftrightarrow>
   (case GetStringArrayMember doc ''videos_path'' of Some vs \<Rightarrow> vs \<noteq> [] \<and> [] \<notin> set vs | None \<Rightarrow> False)"
  using resolve_videos_loads by (auto simp: load_videos_def split: option.splits)

lemma load_confidence_loads:
  "(\<exists>c'. load_confidence G doc c = Inr c') \<longleftrightarrow>
   (case jfind doc ''confidence'' of
      Some v \<Rightarrow> holds_value v \<and> \<not> flt (jg_double G v) (Fin 0) \<and> \<not> flt (Fin 100) (jg_double G v)
    | None \<Rightarrow> True)"
  by (auto simp: load_confidence_def split: option.splits)

lemma load_positive_loads: "(\<exists>c'. load_positive G doc k upd c = Inr c') \<longleftrightarrow> positive_ok G doc k"
  by (auto simp: load_positive_def positive_ok_def Let_def split: option.splits)

lemma unsupported_empty: "\<not> IsSupportedMlConverterEngineNick (ToLowerAscii [])"
  by (simp add: IsSupportedMlConverterEngineNick_def ToLowerAscii_def)

lemma check_engines_loads:
  "(\<exists>ns. check_engines es = Inr ns) \<longleftrightarrow> (\<forall>e\<in>set es. IsSupportedMlConverterEngineNick (ToLowerAscii e))"
  using unsupported_empty by (induction es) auto

lemma load_engines_loads:
  "(\<exists>c'. load_engines doc c = Inr c') \<longleftrightarrow>
   jfind doc ''qtimlvconverter_engine_order'' = None
   \<or> (case GetStringArrayMember doc ''qtimlvconverter_engine_order'' of
        Some es \<Rightarrow> es \<noteq> [] \<and> (\<forall>e\<in>set es. IsSupportedMlConverterEngineNick (ToLowerAscii e))
      | None \<Rightarrow> False)"
  using check_engines_loads by (auto simp: load_engines_def split: option.splits)

lemma load_tracker_loads:
  "(\<exists>c'. load_tracker doc c = Inr c') \<longleftrightarrow>
   jfind doc ''qtiobjtracker_parameters'' = None \<or> GetStringMember doc ''qtiobjtracker_parameters'' \<noteq> None"
  by (auto simp: load_tracker_def split: option.splits)

lemma and_then_loads:
  assumes "(\<exists>x. r = Inr x) \<longleftrightarrow> A" "\<And>x. r = Inr x \<Longrightarrow> (\<exists>y. f x = Inr y) \<longleftrightarrow> B"
  shows "(\<exists>y. and_then r f = Inr y) \<longleftrightarrow> A \<and> B"
  using assms by (auto simp: and_then_def split: sum.splits)

lemma load_paths_loads:
  "(\<exists>c. load_paths G d doc = Inr c) \<longleftrightarrow>
   required_ok doc ''model_path''
   \<and> (case GetStringArrayMember doc ''videos_path'' of Some vs \<Rightarrow> vs \<noteq> [] \<and> [] \<notin> set vs | None \<Rightarrow> False)
   \<and> required_ok doc ''labels_path'' \<and> required_ok doc ''output_dir''"
proof -
  have last: "(\<exists>y. and_then r (\<lambda>x. Inr (g x)) = Inr y) \<longleftrightarrow> (\<exists>x. r = Inr x)" for r :: "string + string" and g
    by auto
  show ?thesis
    unfolding load_paths_def Let_def
    by (rule and_then_loads [OF required_path_loads], rule and_then_loads [OF load_videos_loads],
        rule and_then_loads [OF required_path_loads])
      (simp only: last required_path_loads)
qed

lemma load_scalars_loads:
  "(\<exists>c'. load_scalars G doc c = Inr c') \<longleftrightarrow>
   (\<exists>c'. load_confidence G doc c = Inr c') \<and> positive_ok G doc ''max_channels''
   \<and> positive_ok G doc ''appsink_max_buffers'' \<and> (\<exists>c'. load_engines doc c = Inr c')
   \<and> (\<exists>c'. load_tracker doc c = Inr c')"
  unfolding load_scalars_def Let_def
  by (rule and_then_loads [OF refl], rule and_then_loads [OF load_positive_loads],
      rule and_then_loads [OF load_positive_loads], rule and_then_loads)
    (simp_all only: load_engines_loads load_tracker_loads)

lemma cache_enabled_kept:
  "cs_enabled (load_cache G obj k) = (case jfind obj ''enabled'' of Some v \<Rightarrow> jg_bool G v | None \<Rightarrow> cs_enabled k)"
  unfolding load_cache_def Let_def
  by (rule opt_str_inv [where P = "\<lambda>k. cs_enabled k = X" for X], rule opt_bool_inv [where P = "\<lambda>k. cs_enabled k = X" for X],
      (rule opt_int_inv [where P = "\<lambda>k. cs_enabled k = X" for X])+, (rule opt_str_inv [where P = "\<lambda>k. cs_enabled k = X" for X])+)
    (simp_all add: opt_bool_def opt_member_def split: option.split)

lemma cache_topic_kept:
  "cs_topic (load_cache G obj k) =
   (case GetStringMember obj ''frame_done_topic'' of Some s \<Rightarrow> if s \<noteq> [] then s else cs_topic k | None \<Rightarrow> cs_topic k)"
proof -
  have step: "cs_topic (opt_str obj ''frame_done_topic'' (\<lambda>s k. k\<lparr>cs_topic := s\<rparr>) k') =
      (case GetStringMember obj ''frame_done_topic'' of Some s \<Rightarrow> if s \<noteq> [] then s else cs_topic k | None \<Rightarrow> cs_topic k)"
    if "cs_topic k' = cs_topic k" for k'
    using that by (simp add: opt_str_def split: option.split)
  show ?thesis
    unfolding load_cache_def Let_def
    by (rule step) (intro opt_inv [where P = "\<lambda>k'. cs_topic k' = cs_topic k"]; simp)
qed

lemma mqtt_enabled_kept:
  "qs_enabled (load_mqtt G obj q) = (case jfind obj ''enabled'' of Some v \<Rightarrow> jg_bool G v | None \<Rightarrow> qs_enabled q)"
  unfolding load_mqtt_def Let_def
  by (rule opt_int_inv [where P = "\<lambda>q. qs_enabled q = X" for X],
      (rule opt_str_inv [where P = "\<lambda>q. qs_enabled q = X" for X])+, rule opt_int_inv [where P = "\<lambda>q. qs_enabled q = X" for X],
      rule opt_str_inv [where P = "\<lambda>q. qs_enabled q = X" for X])
    (simp_all add: opt_bool_def opt_member_def split: option.split)

lemma load_objects_loads:
  assumes "stage_ok c"
  shows "(\<exists>c'. load_objects G d doc c = Inr c') \<longleftrightarrow>
    (object_flag G doc ''frame_cache'' \<longrightarrow>
     object_flag G doc ''mqtt'' \<and> object_string doc ''frame_cache'' ''frame_done_topic'' \<noteq> [])"
proof -
  define e where "e = opt_object doc ''memtest'' (load_memtest G d) (opt_object doc ''face'' (load_face G d) c)"
  have "stage_ok e"
    unfolding e_def using assms
    by (intro opt_object_inv [where P = stage_ok]) (simp_all add: load_face_ok load_memtest_ok)
  then have e: "as_mqtt e = as_mqtt settings_default" "as_cache e = as_cache settings_default"
    by (simp_all add: stage_ok_def)
  have "cs_enabled (opt_object doc ''frame_cache'' (load_cache G) (as_cache e)) = object_flag G doc ''frame_cache''"
      "qs_enabled (opt_object doc ''mqtt'' (load_mqtt G) (as_mqtt e)) = object_flag G doc ''mqtt''"
      "cs_topic (opt_object doc ''frame_cache'' (load_cache G) (as_cache e)) =
        object_string doc ''frame_cache'' ''frame_done_topic''"
    unfolding e
    by (simp_all add: opt_object_def object_flag_def object_string_def cache_enabled_kept mqtt_enabled_kept
        cache_topic_kept settings_default_def split: option.split json.split)
  then show ?thesis
    by (auto simp: load_objects_def Let_def e_def [symmetric])
qed

lemma loads_iff_acceptable:
  "(\<exists>c. LoadFromFile G path (Inr (Some (JObj kvs))) = Inr c) \<longleftrightarrow> acceptable G (JObj kvs)"
proof -
  let ?doc = "JObj kvs" and ?d = "config_dir path"
  have clamp: "(\<exists>y. and_then r (\<lambda>x. Inr (clamp_channels x)) = Inr y) \<longleftrightarrow> (\<exists>x. r = Inr x)"
    for r :: "string + app_settings"
    by auto
  have objects: "(\<exists>y. and_then (load_objects G ?d ?doc c2) (\<lambda>c. Inr (clamp_channels c)) = Inr y) \<longleftrightarrow>
      (object_flag G ?doc ''frame_cache'' \<longrightarrow>
       object_flag G ?doc ''mqtt'' \<and> object_string ?doc ''frame_cache'' ''frame_done_topic'' \<noteq> [])"
    if "load_paths G ?d ?doc = Inr c1" "load_scalars G ?doc c1 = Inr c2" for c1 c2
    using that by (simp only: clamp load_objects_loads load_scalars_ok load_paths_ok)
  have scalars: "(\<exists>y. and_then (load_scalars G ?doc c1) (\<lambda>c. and_then (load_objects G ?d ?doc c)
      (\<lambda>c. Inr (clamp_channels c))) = Inr y) \<longleftrightarrow>
      (\<exists>c2. load_scalars G ?doc c1 = Inr c2) \<and> (object_flag G ?doc ''frame_cache'' \<longrightarrow>
       object_flag G ?doc ''mqtt'' \<and> object_string ?doc ''frame_cache'' ''frame_done_topic'' \<noteq> [])"
    if "load_paths G ?d ?doc = Inr c1" for c1
    by (rule and_then_loads [OF refl]) (rule objects [OF that])
  have "(\<exists>c. LoadFromFile G path (Inr (Some ?doc)) = Inr c) \<longleftrightarrow>
      (\<exists>y. and_then (load_paths G ?d ?doc) (\<lambda>c. and_then (load_scalars G ?doc c)
        (\<lambda>c. and_then (load_objects G ?d ?doc c) (\<lambda>c. Inr (clamp_channels c)))) = Inr y)"
    by (simp only: LoadFromFile_def Let_def sum.case option.case json.case)
  also note and_then_loads [OF load_paths_loads scalars
      [unfolded load_scalars_loads load_confidence_loads load_engines_loads load_tracker_loads]]
  finally show ?thesis unfolding acceptable_def by blast
qed

section \<open>Properties\<close>

text \<open>
  C27: What a load hands out is usable: every required path is set, there is a video for each of
  at most six channels and never more videos than channels, every number a later module divides
  by, waits for or allocates is positive and in its range, the engines are ones the converter
  has, and a frame cache comes with a broker and a topic to hear of finished frames.
\<close>

theorem loaded_settings_ok: "LoadFromFile G path parsed = Inr c \<Longrightarrow> settings_ok c"
  by (rule load_settings_ok)

definition example_glib :: json_glib where
  "example_glib =
     \<lparr>jg_int = (\<lambda>j. case j of JInt i \<Rightarrow> i | _ \<Rightarrow> 0), jg_double = (\<lambda>j. case j of JFloat x \<Rightarrow> x | _ \<Rightarrow> Fin 0),
      jg_bool = (\<lambda>j. case j of JBool b \<Rightarrow> b | _ \<Rightarrow> False)\<rparr>"

definition example_doc :: "(string \<times> json) list" where
  "example_doc =
     [(''model_path'', JStr ''../models/yolo.bin''), (''videos_path'', JArr [JStr ''a.mp4'', JStr ''/data/b.mp4'']),
      (''labels_path'', JStr ''labels.txt''), (''output_dir'', JStr ''./out/''), (''max_channels'', JInt 9),
      (''qtimlvconverter_engine_order'', JArr [JStr ''FCV'', JStr ''ocv'']),
      (''mqtt'', JObj [(''enabled'', JBool True), (''port'', JInt 70000)]),
      (''frame_cache'', JObj [(''enabled'', JBool True), (''slot_count'', JInt 33), (''frame_done_topic'', JStr ''done'')])]"

lemma example_doc_acceptable: "acceptable example_glib (JObj example_doc)"
  by code_simp

theorem loaded_settings_ok_witness:
  "\<exists>c. LoadFromFile example_glib ''config.json'' (Inr (Some (JObj example_doc))) = Inr c \<and> settings_ok c"
proof -
  obtain c where "LoadFromFile example_glib ''config.json'' (Inr (Some (JObj example_doc))) = Inr c"
    using example_doc_acceptable loads_iff_acceptable by blast
  then show ?thesis by (blast intro: loaded_settings_ok)
qed

text \<open>
  A document is accepted exactly when its members meet the rules, whatever else it holds:
  the conversions, defaults and the order of the checks reject nothing more and let
  nothing through.
\<close>

theorem load_accepts:
  "(\<exists>c. LoadFromFile G path (Inr (Some (JObj kvs))) = Inr c) \<longleftrightarrow> acceptable G (JObj kvs)"
  by (rule loads_iff_acceptable)

text \<open>Relative paths are taken from the directory of the configuration.\<close>

lemma relative_paths:
  "ResolvePath (config_dir ''/opt/app/config/config.json'') ''../models/./yolo.bin'' = ''/opt/app/models/yolo.bin''"
  "ResolvePath (config_dir ''config.json'') ''../out/'' = ''../out/''"
  "ResolvePath (config_dir ''/opt/config.json'') ''C:/data/a.mp4'' = ''C:/data/a.mp4''"
  by code_simp+

text \<open>
  The text of the engine error leaves out an engine that is accepted; the interval is
  not checked, so that a negative one is the longest; surplus videos go without a word.
\<close>

lemma ocv_accepted: "check_engines [''OCV''] = Inr [''ocv'']"
  by code_simp

lemma negative_interval: "u32_of_int (- 1) = 0xFFFFFFFF"
  by (simp add: u32_of_int_def)

lemma surplus_videos_dropped: "as_videos (clamp_channels c) = take (unat (as_channels (clamp_channels c))) (as_videos c)"
  by (simp add: clamp_channels_def Let_def)

end
