(* ===== verification/MqttLink.thy ===== *)
theory MqttLink
  imports Prelude "HOL-Library.Sublist"
begin

text \<open>
  The MQTT wrappers of the camera process (\<open>utils/mqtt/MqttClient.cpp\<close>, \<open>MqttPublisher.cpp\<close>,
  \<open>MqttSubscriber.cpp\<close>). The client library answers every call with a return code, zero for
  success; what it owns is a set of live handles, so that a leak or a call on a dead handle
  shows in the state.
\<close>

section \<open>The handles of the library\<close>

datatype mqtt_call =
    CallSetCallbacks
  | CallConnect
  | CallDisconnect
  | CallSubscribe string int
  | CallUnsubscribe string
  | CallPublish string int string int bool

record mqtt_world =
  mw_next :: nat
  mw_live :: "nat list"
  mw_calls :: "(nat option \<times> mqtt_call) list"
  mw_misused :: bool

definition world_new :: mqtt_world where
  "world_new = \<lparr>mw_next = 0, mw_live = [], mw_calls = [], mw_misused = False\<rparr>"

definition handle_live :: "nat option \<Rightarrow> mqtt_world \<Rightarrow> bool" where
  "handle_live h w = (case h of Some k \<Rightarrow> k \<in> set (mw_live w) | None \<Rightarrow> False)"

definition mqtt_use :: "nat option \<Rightarrow> mqtt_call \<Rightarrow> mqtt_world \<Rightarrow> mqtt_world" where
  "mqtt_use h call w =
     w\<lparr>mw_calls := mw_calls w @ [(h, call)], mw_misused := mw_misused w \<or> \<not> handle_live h w\<rparr>"

definition mqtt_create :: "mqtt_world \<Rightarrow> nat \<times> mqtt_world" where
  "mqtt_create w = (mw_next w, w\<lparr>mw_next := mw_next w + 1, mw_live := mw_next w # mw_live w\<rparr>)"

definition mqtt_destroy :: "nat option \<Rightarrow> mqtt_world \<Rightarrow> mqtt_world" where
  "mqtt_destroy h w =
     (case h of
        Some k \<Rightarrow> w\<lparr>mw_live := remove1 k (mw_live w), mw_misused := mw_misused w \<or> k \<notin> set (mw_live w)\<rparr>
      | None \<Rightarrow> w)"

section \<open>Client\<close>

record mqtt_client =
  mc_url :: string
  mc_handle :: "nat option"
  mc_connected :: bool
  mc_callback :: bool
  mc_published :: u64
  mc_received :: u64

definition MqttClient_new :: "string \<Rightarrow> int \<Rightarrow> mqtt_client" where
  "MqttClient_new ip port =
     \<lparr>mc_url = ''tcp://'' @ ip @ '':'' @ dec_int port, mc_handle = None, mc_connected = False,
      mc_callback = False, mc_published = 0, mc_received = 0\<rparr>"

text \<open>Every operation returns an error text or None; \<open>E\<close> is the library's text of a code.\<close>

definition Connect ::
  "(int \<Rightarrow> string) \<Rightarrow> int \<Rightarrow> int \<Rightarrow> mqtt_client \<Rightarrow> mqtt_world \<Rightarrow> string option \<times> mqtt_client \<times> mqtt_world" where
  "Connect E rc_create rc_connect c w =
     (if rc_create \<noteq> 0 then (Some (''MQTTClient_create failed: '' @ E rc_create), c, w)
      else
        let (h, w) = mqtt_create w;
            c = c\<lparr>mc_handle := Some h\<rparr>;
            w = mqtt_use (mc_handle c) CallSetCallbacks w;
            w = mqtt_use (mc_handle c) CallConnect w
        in if rc_connect \<noteq> 0
           then (Some (''Failed to connect to '' @ mc_url c @ '': '' @ E rc_connect),
                 c\<lparr>mc_handle := None\<rparr>, mqtt_destroy (mc_handle c) w)
           else (None, c\<lparr>mc_connected := True\<rparr>, w))"

definition Disconnect :: "mqtt_client \<Rightarrow> mqtt_world \<Rightarrow> mqtt_client \<times> mqtt_world" where
  "Disconnect c w =
     (if \<not> mc_connected c then (c, w)
      else if mc_handle c \<noteq> None then
        (c\<lparr>mc_handle := None, mc_connected := False\<rparr>,
         mqtt_destroy (mc_handle c) (mqtt_use (mc_handle c) CallDisconnect w))
      else (c\<lparr>mc_connected := False\<rparr>, w))"

definition client_subscribe ::
  "(int \<Rightarrow> string) \<Rightarrow> int \<Rightarrow> string \<Rightarrow> int \<Rightarrow> mqtt_client \<Rightarrow> mqtt_world \<Rightarrow> string option \<times> mqtt_world" where
  "client_subscribe E rc topic qos c w =
     (if \<not> mc_connected c then (Some ''Cannot subscribe: not connected'', w)
      else
        let w = mqtt_use (mc_handle c) (CallSubscribe topic qos) w
        in if rc \<noteq> 0
           then (Some (''Subscribe failed for topic '' @ CHR 0x27 # topic @ CHR 0x27 # '': '' @ E rc), w)
           else (None, w))"

definition client_unsubscribe ::
  "(int \<Rightarrow> string) \<Rightarrow> int \<Rightarrow> string \<Rightarrow> mqtt_client \<Rightarrow> mqtt_world \<Rightarrow> string option \<times> mqtt_world" where
  "client_unsubscribe E rc topic c w =
     (if \<not> mc_connected c then (Some ''Cannot unsubscribe: not connected'', w)
      else
        let w = mqtt_use (mc_handle c) (CallUnsubscribe topic) w
        in if rc \<noteq> 0
           then (Some (''Unsubscribe failed for topic '' @ CHR 0x27 # topic @ CHR 0x27 # '': '' @ E rc), w)
           else (None, w))"

text \<open>Publishing after the test of the flag, which is made without a lock.\<close>

definition publish_call ::
  "(int \<Rightarrow> string) \<Rightarrow> int \<Rightarrow> string \<Rightarrow> string \<Rightarrow> int \<Rightarrow> bool \<Rightarrow> mqtt_client \<Rightarrow> mqtt_world
   \<Rightarrow> string option \<times> mqtt_client \<times> mqtt_world" where
  "publish_call E rc topic payload qos retained c w =
     (let w = mqtt_use (mc_handle c)
                (CallPublish topic (int_of_u32 (u32_of_int (int (length payload)))) payload qos retained) w
      in if rc \<noteq> 0 then (Some (''Publish failed to '' @ CHR 0x27 # topic @ CHR 0x27 # '': '' @ E rc), c, w)
         else (None, c\<lparr>mc_published := mc_published c + 1\<rparr>, w))"

definition client_publish ::
  "(int \<Rightarrow> string) \<Rightarrow> int \<Rightarrow> string \<Rightarrow> string \<Rightarrow> int \<Rightarrow> bool \<Rightarrow> mqtt_client \<Rightarrow> mqtt_world
   \<Rightarrow> string option \<times> mqtt_client \<times> mqtt_world" where
  "client_publish E rc topic payload qos retained c w =
     (if \<not> mc_connected c then (Some ''Cannot publish: not connected'', c, w)
      else publish_call E rc topic payload qos retained c w)"

definition SetMessageCallback :: "mqtt_client \<Rightarrow> mqtt_client" where
  "SetMessageCallback c = c\<lparr>mc_callback := True\<rparr>"

text \<open>
  The callbacks of the library. A message comes with its topic, of a given length or closed by a
  zero character; the result is what the message callback is called with.
\<close>

definition arrived_topic :: "string \<Rightarrow> int \<Rightarrow> string" where
  "arrived_topic name len = (if 0 < len then take (nat len) name else takeWhile (\<lambda>c. c \<noteq> CHR 0x00) name)"

definition OnMessageArrived ::
  "string \<Rightarrow> int \<Rightarrow> string \<Rightarrow> mqtt_client \<Rightarrow> (string \<times> string) option \<times> mqtt_client" where
  "OnMessageArrived name len payload c =
     ((if mc_callback c then Some (arrived_topic name len, payload) else None),
      c\<lparr>mc_received := mc_received c + 1\<rparr>)"

definition OnConnectionLost :: "mqtt_client \<Rightarrow> mqtt_client" where
  "OnConnectionLost c = c\<lparr>mc_connected := False\<rparr>"

section \<open>Publisher\<close>

record mqtt_publisher =
  mp_ip :: string
  mp_port :: int
  mp_topic :: string
  mp_qos :: int
  mp_client :: "mqtt_client option"

definition MqttPublisher_new :: "string \<Rightarrow> int \<Rightarrow> string \<Rightarrow> int \<Rightarrow> mqtt_publisher" where
  "MqttPublisher_new ip port topic qos =
     \<lparr>mp_ip = ip, mp_port = port, mp_topic = topic, mp_qos = qos, mp_client = None\<rparr>"

text \<open>Dropping an owned client runs its destructor.\<close>

definition drop_client :: "mqtt_client option \<Rightarrow> mqtt_world \<Rightarrow> mqtt_world" where
  "drop_client oc w = (case oc of Some c \<Rightarrow> snd (Disconnect c w) | None \<Rightarrow> w)"

definition publisher_initialize ::
  "(int \<Rightarrow> string) \<Rightarrow> int \<Rightarrow> int \<Rightarrow> mqtt_publisher \<Rightarrow> mqtt_world \<Rightarrow> string option \<times> mqtt_publisher \<times> mqtt_world" where
  "publisher_initialize E rc_create rc_connect p w =
     (let w = drop_client (mp_client p) w;
          (e, c, w) = Connect E rc_create rc_connect (MqttClient_new (mp_ip p) (mp_port p)) w
      in if e \<noteq> None then (e, p\<lparr>mp_client := None\<rparr>, drop_client (Some c) w)
         else (None, p\<lparr>mp_client := Some c\<rparr>, w))"

definition publisher_shutdown :: "mqtt_publisher \<Rightarrow> mqtt_world \<Rightarrow> mqtt_publisher \<times> mqtt_world" where
  "publisher_shutdown p w =
     (case mp_client p of
        Some c \<Rightarrow> (let (c, w) = Disconnect c w in (p\<lparr>mp_client := None\<rparr>, drop_client (Some c) w))
      | None \<Rightarrow> (p, w))"

definition publisher_publish_to ::
  "(int \<Rightarrow> string) \<Rightarrow> int \<Rightarrow> string \<Rightarrow> string \<Rightarrow> int \<Rightarrow> mqtt_publisher \<Rightarrow> mqtt_world
   \<Rightarrow> string option \<times> mqtt_publisher \<times> mqtt_world" where
  "publisher_publish_to E rc topic payload qos p w =
     (case mp_client p of
        None \<Rightarrow> (Some ''MqttPublisher not initialized'', p, w)
      | Some c \<Rightarrow>
          (let (e, c, w) = client_publish E rc topic payload qos False c w
           in (e, p\<lparr>mp_client := Some c\<rparr>, w)))"

definition publisher_publish ::
  "(int \<Rightarrow> string) \<Rightarrow> int \<Rightarrow> string \<Rightarrow> mqtt_publisher \<Rightarrow> mqtt_world
   \<Rightarrow> string option \<times> mqtt_publisher \<times> mqtt_world" where
  "publisher_publish E rc payload p w = publisher_publish_to E rc (mp_topic p) payload (mp_qos p) p w"

definition publisher_connected :: "mqtt_publisher \<Rightarrow> bool" where
  "publisher_connected p = (case mp_client p of Some c \<Rightarrow> mc_connected c | None \<Rightarrow> False)"

definition publisher_count :: "mqtt_publisher \<Rightarrow> u64" where
  "publisher_count p = (case mp_client p of Some c \<Rightarrow> mc_published c | None \<Rightarrow> 0)"

section \<open>Subscriber\<close>

record mqtt_subscriber =
  mb_ip :: string
  mb_port :: int
  mb_topic :: string
  mb_qos :: int
  mb_client :: "mqtt_client option"
  mb_handler :: bool
  mb_queue :: "(string \<times> string) list"

definition MqttSubscriber_new :: "string \<Rightarrow> int \<Rightarrow> string \<Rightarrow> int \<Rightarrow> mqtt_subscriber" where
  "MqttSubscriber_new ip port topic qos =
     \<lparr>mb_ip = ip, mb_port = port, mb_topic = topic, mb_qos = qos, mb_client = None, mb_handler = False, mb_queue = []\<rparr>"

definition kMaxQueueSize :: nat where
  "kMaxQueueSize = 1000"

definition subscriber_initialize ::
  "(int \<Rightarrow> string) \<Rightarrow> int \<Rightarrow> int \<Rightarrow> int \<Rightarrow> mqtt_subscriber \<Rightarrow> mqtt_world
   \<Rightarrow> string option \<times> mqtt_subscriber \<times> mqtt_world" where
  "subscriber_initialize E rc_create rc_connect rc_sub s w =
     (let w = drop_client (mb_client s) w;
          (e, c, w) = Connect E rc_create rc_connect (MqttClient_new (mb_ip s) (mb_port s)) w
      in if e \<noteq> None then (e, s\<lparr>mb_client := None\<rparr>, drop_client (Some c) w)
         else
           let c = SetMessageCallback c;
               (e, w) = (if mb_topic s \<noteq> [] then client_subscribe E rc_sub (mb_topic s) (mb_qos s) c w else (None, w))
           in if e \<noteq> None
              then (let (c, w) = Disconnect c w in (e, s\<lparr>mb_client := None\<rparr>, drop_client (Some c) w))
              else (None, s\<lparr>mb_client := Some c\<rparr>, w))"

definition subscriber_shutdown :: "mqtt_subscriber \<Rightarrow> mqtt_world \<Rightarrow> mqtt_subscriber \<times> mqtt_world" where
  "subscriber_shutdown s w =
     (case mb_client s of
        Some c \<Rightarrow> (let (c, w) = Disconnect c w in (s\<lparr>mb_client := None\<rparr>, drop_client (Some c) w))
      | None \<Rightarrow> (s, w))"

definition subscriber_subscribe ::
  "(int \<Rightarrow> string) \<Rightarrow> int \<Rightarrow> string \<Rightarrow> int \<Rightarrow> mqtt_subscriber \<Rightarrow> mqtt_world \<Rightarrow> string option \<times> mqtt_world" where
  "subscriber_subscribe E rc topic qos s w =
     (case mb_client s of
        None \<Rightarrow> (Some ''MqttSubscriber not initialized'', w)
      | Some c \<Rightarrow> client_subscribe E rc topic qos c w)"

text \<open>The topics, each with the code the library answers; the first failure ends the loop.\<close>

fun SubscribeMultiple ::
  "(int \<Rightarrow> string) \<Rightarrow> (string \<times> int) list \<Rightarrow> int \<Rightarrow> mqtt_subscriber \<Rightarrow> mqtt_world \<Rightarrow> string option \<times> mqtt_world" where
  "SubscribeMultiple E [] qos s w = (None, w)"
| "SubscribeMultiple E ((topic, rc) # ts) qos s w =
     (let (e, w) = subscriber_subscribe E rc topic qos s w
      in if e \<noteq> None then (e, w) else SubscribeMultiple E ts qos s w)"

definition SetMessageHandler :: "mqtt_subscriber \<Rightarrow> mqtt_subscriber" where
  "SetMessageHandler s = s\<lparr>mb_handler := True\<rparr>"

text \<open>
  A message for the subscriber: whether the handler is called with it, and the queue. An
  exception of the handler is caught and changes nothing here.
\<close>

definition OnMessage :: "string \<Rightarrow> string \<Rightarrow> mqtt_subscriber \<Rightarrow> (string \<times> string) option \<times> mqtt_subscriber" where
  "OnMessage topic payload s =
     (let q = (if kMaxQueueSize \<le> length (mb_queue s) then tl (mb_queue s) else mb_queue s)
      in ((if mb_handler s then Some (topic, payload) else None), s\<lparr>mb_queue := q @ [(topic, payload)]\<rparr>))"

definition HasMessages :: "mqtt_subscriber \<Rightarrow> bool" where
  "HasMessages s = (mb_queue s \<noteq> [])"

definition PopMessage :: "mqtt_subscriber \<Rightarrow> (string \<times> string) option \<times> mqtt_subscriber" where
  "PopMessage s = (case mb_queue s of [] \<Rightarrow> (None, s) | m # ms \<Rightarrow> (Some m, s\<lparr>mb_queue := ms\<rparr>))"

definition QueueSize :: "mqtt_subscriber \<Rightarrow> nat" where
  "QueueSize s = length (mb_queue s)"

definition subscriber_connected :: "mqtt_subscriber \<Rightarrow> bool" where
  "subscriber_connected s = (case mb_client s of Some c \<Rightarrow> mc_connected c | None \<Rightarrow> False)"

definition subscriber_received :: "mqtt_subscriber \<Rightarrow> u64" where
  "subscriber_received s = (case mb_client s of Some c \<Rightarrow> mc_received c | None \<Rightarrow> 0)"

text \<open>A message through the client's callback to the subscriber that owns it.\<close>

definition deliver_message ::
  "string \<Rightarrow> int \<Rightarrow> string \<Rightarrow> mqtt_subscriber \<Rightarrow> (string \<times> string) option \<times> mqtt_subscriber" where
  "deliver_message name len payload s =
     (case mb_client s of
        None \<Rightarrow> (None, s)
      | Some c \<Rightarrow>
          (case OnMessageArrived name len payload c of
             (None, c) \<Rightarrow> (None, s\<lparr>mb_client := Some c\<rparr>)
           | (Some (t, p), c) \<Rightarrow> OnMessage t p (s\<lparr>mb_client := Some c\<rparr>)))"

section \<open>Who owns the handles\<close>

text \<open>
  The handles of the connected clients, and the books of a set of clients: they own distinct
  live handles, and the live handles beyond theirs are the \<open>n\<close> left behind by lost connections.
\<close>

definition held :: "mqtt_client list \<Rightarrow> nat option list" where
  "held cs = map mc_handle (filter mc_connected cs)"

definition books :: "mqtt_client list \<Rightarrow> mqtt_world \<Rightarrow> nat \<Rightarrow> bool" where
  "books cs w n =
     (\<not> mw_misused w \<and> distinct (mw_live w) \<and> (\<forall>h\<in>set (mw_live w). h < mw_next w)
      \<and> distinct (held cs) \<and> set (held cs) \<subseteq> Some ` set (mw_live w)
      \<and> length (mw_live w) = n + length (held cs))"

lemma held_simps [simp]:
  "held [] = []" "held (c # cs) = (if mc_connected c then mc_handle c # held cs else held cs)"
  "held (cs @ ds) = held cs @ held ds"
  by (simp_all add: held_def)

lemma books_rotate: "books (cs @ ds) w n \<longleftrightarrow> books (ds @ cs) w n"
  by (auto simp: books_def)

lemma books_new: "books [] world_new 0"
  by (simp add: books_def world_new_def)

lemma handle_live_iff: "handle_live h w \<longleftrightarrow> h \<in> Some ` set (mw_live w)"
  by (cases h) (auto simp: handle_live_def)

lemma books_use:
  assumes "books (c # cs) w n" "mc_connected c"
  shows "books (c # cs) (mqtt_use (mc_handle c) call w) n"
  using assms by (simp add: books_def mqtt_use_def handle_live_iff)

lemma books_destroy:
  assumes "books (c # cs) w n" "mc_connected c"
  shows "books cs (mqtt_destroy (mc_handle c) w) n"
proof -
  obtain h where h: "mc_handle c = Some h" "h \<in> set (mw_live w)"
    using assms by (auto simp: books_def)
  have "length (mw_live w) = Suc (n + length (held cs))"
    using assms by (simp add: books_def)
  then have "length (remove1 h (mw_live w)) = n + length (held cs)"
    using h by (simp add: length_remove1)
  moreover have "set (held cs) \<subseteq> Some ` set (remove1 h (mw_live w))"
    using assms h by (auto simp: books_def)
  ultimately show ?thesis
    using assms h by (auto simp: books_def mqtt_destroy_def dest: notin_set_remove1)
qed

lemma books_disconnect:
  assumes "books (c # cs) w n"
  shows "books cs (snd (Disconnect c w)) n \<and> \<not> mc_connected (fst (Disconnect c w))"
proof (cases "mc_connected c")
  case True
  then have "mc_handle c \<noteq> None" using assms by (auto simp: books_def)
  moreover have "books cs (mqtt_destroy (mc_handle c) (mqtt_use (mc_handle c) CallDisconnect w)) n"
    using books_destroy [OF books_use [OF assms True] True] .
  ultimately show ?thesis using True by (simp add: Disconnect_def)
qed (use assms in \<open>simp_all add: Disconnect_def books_def\<close>)

lemma Disconnect_idle: "\<not> mc_connected c \<Longrightarrow> Disconnect c w = (c, w)"
  by (simp add: Disconnect_def)

lemma books_drop: "books (c # cs) w n \<Longrightarrow> books cs (drop_client (Some c) w) n"
  by (simp add: drop_client_def books_disconnect)

lemma fresh_handle:
  assumes "books cs w n" "mqtt_create w = (h, w')" "mc_connected c" "mc_handle c = Some h"
  shows "books (c # cs) w' n"
proof -
  have "mw_next w \<notin> set (mw_live w)" using assms(1) by (auto simp: books_def)
  then show ?thesis using assms by (auto simp: books_def mqtt_create_def less_Suc_eq)
qed

lemma books_connect:
  assumes "books cs w n" "\<not> mc_connected c"
  shows "case Connect E r1 r2 c w of (e, c', w') \<Rightarrow> books (c' # cs) w' n \<and> (mc_connected c' \<longleftrightarrow> e = None)"
proof (cases "r1 = 0")
  case True
  obtain h v where v: "mqtt_create w = (h, v)" by fastforce
  let ?c = "c\<lparr>mc_handle := Some h, mc_connected := True\<rparr>"
  have "books (?c # cs) v n" using fresh_handle [OF assms(1) v, of ?c] by simp
  then have b: "books (?c # cs) (mqtt_use (Some h) CallConnect (mqtt_use (Some h) CallSetCallbacks v)) n"
    using books_use [of ?c] by simp
  have d: "books cs (mqtt_destroy (Some h) (mqtt_use (Some h) CallConnect (mqtt_use (Some h) CallSetCallbacks v))) n"
    using books_destroy [OF b] by simp
  show ?thesis
  proof (cases "r2 = 0")
    case True
    then show ?thesis using b \<open>r1 = 0\<close> v by (simp add: Connect_def)
  next
    case False
    then show ?thesis using d \<open>r1 = 0\<close> v assms(2) by (simp add: Connect_def books_def)
  qed
next
  case False
  then show ?thesis using assms by (simp add: Connect_def books_def)
qed

lemma books_lost:
  assumes "books (c # cs) w n"
  shows "books (OnConnectionLost c # cs) w (n + (if mc_connected c then 1 else 0))"
  using assms by (auto simp: books_def OnConnectionLost_def split: if_splits)

lemma client_new_idle [simp]: "\<not> mc_connected (MqttClient_new ip port)"
  by (simp add: MqttClient_new_def)

section \<open>A publisher and a subscriber of one process\<close>

text \<open>The two wrappers over one library, and a count of the lost connections.\<close>

record mqtt_pair =
  mx_pub :: mqtt_publisher
  mx_sub :: mqtt_subscriber
  mx_world :: mqtt_world
  mx_lost :: nat

datatype mqtt_op =
    PubInitialize int int
  | PubPublish int string
  | PubPublishTo int string string int
  | PubShutdown
  | PubLost
  | SubInitialize int int int
  | SubSubscribe "(string \<times> int) list" int
  | SubMessage string int string
  | SubPop
  | SubShutdown
  | SubLost

definition lose :: "mqtt_client option \<Rightarrow> mqtt_client option \<times> nat" where
  "lose oc =
     (case oc of Some c \<Rightarrow> (Some (OnConnectionLost c), if mc_connected c then 1 else 0) | None \<Rightarrow> (None, 0))"

fun mqtt_step :: "(int \<Rightarrow> string) \<Rightarrow> mqtt_pair \<Rightarrow> mqtt_op \<Rightarrow> mqtt_pair" where
  "mqtt_step E x (PubInitialize r1 r2) =
     (let (e, p, w) = publisher_initialize E r1 r2 (mx_pub x) (mx_world x) in x\<lparr>mx_pub := p, mx_world := w\<rparr>)"
| "mqtt_step E x (PubPublish r t) =
     (let (e, p, w) = publisher_publish E r t (mx_pub x) (mx_world x) in x\<lparr>mx_pub := p, mx_world := w\<rparr>)"
| "mqtt_step E x (PubPublishTo r topic t q) =
     (let (e, p, w) = publisher_publish_to E r topic t q (mx_pub x) (mx_world x) in x\<lparr>mx_pub := p, mx_world := w\<rparr>)"
| "mqtt_step E x PubShutdown =
     (let (p, w) = publisher_shutdown (mx_pub x) (mx_world x) in x\<lparr>mx_pub := p, mx_world := w\<rparr>)"
| "mqtt_step E x PubLost =
     (let (oc, k) = lose (mp_client (mx_pub x))
      in x\<lparr>mx_pub := (mx_pub x)\<lparr>mp_client := oc\<rparr>, mx_lost := mx_lost x + k\<rparr>)"
| "mqtt_step E x (SubInitialize r1 r2 r3) =
     (let (e, s, w) = subscriber_initialize E r1 r2 r3 (mx_sub x) (mx_world x) in x\<lparr>mx_sub := s, mx_world := w\<rparr>)"
| "mqtt_step E x (SubSubscribe ts q) =
     (let (e, w) = SubscribeMultiple E ts q (mx_sub x) (mx_world x) in x\<lparr>mx_world := w\<rparr>)"
| "mqtt_step E x (SubMessage name len t) = x\<lparr>mx_sub := snd (deliver_message name len t (mx_sub x))\<rparr>"
| "mqtt_step E x SubPop = x\<lparr>mx_sub := snd (PopMessage (mx_sub x))\<rparr>"
| "mqtt_step E x SubShutdown =
     (let (s, w) = subscriber_shutdown (mx_sub x) (mx_world x) in x\<lparr>mx_sub := s, mx_world := w\<rparr>)"
| "mqtt_step E x SubLost =
     (let (oc, k) = lose (mb_client (mx_sub x))
      in x\<lparr>mx_sub := (mx_sub x)\<lparr>mb_client := oc\<rparr>, mx_lost := mx_lost x + k\<rparr>)"

definition client_list :: "mqtt_client option \<Rightarrow> mqtt_client list" where
  "client_list oc = (case oc of Some c \<Rightarrow> [c] | None \<Rightarrow> [])"

lemma client_list_simps [simp]: "client_list None = []" "client_list (Some c) = [c]"
  by (simp_all add: client_list_def)

definition pair_books :: "mqtt_pair \<Rightarrow> bool" where
  "pair_books x =
     books (client_list (mp_client (mx_pub x)) @ client_list (mb_client (mx_sub x))) (mx_world x) (mx_lost x)"

lemma books_drop_client: "books (client_list oc @ cs) w n \<Longrightarrow> books cs (drop_client oc w) n"
  by (cases oc) (simp_all add: books_drop, simp add: drop_client_def)

lemma books_publisher_initialize:
  assumes "books (client_list (mp_client p) @ cs) w n" "publisher_initialize E r1 r2 p w = (e, p', w')"
  shows "books (client_list (mp_client p') @ cs) w' n"
  using books_connect [OF books_drop_client [OF assms(1)] client_new_idle, of E r1 r2 "mp_ip p" "mp_port p"] assms(2)
  by (auto simp: publisher_initialize_def Let_def books_drop split: prod.splits if_splits)

lemma books_publish:
  assumes "books (client_list (mp_client p) @ cs) w n" "publisher_publish_to E r topic t q p w = (e, p', w')"
  shows "books (client_list (mp_client p') @ cs) w' n"
proof (cases "mp_client p")
  case (Some c)
  then have b: "books (c # cs) w n" using assms(1) by simp
  have count: "books (c\<lparr>mc_published := k\<rparr> # cs) v n \<longleftrightarrow> books (c # cs) v n" for k v
    by (simp add: books_def)
  show ?thesis
    using b books_use [OF b] assms(2) Some
    by (auto simp: publisher_publish_to_def client_publish_def publish_call_def Let_def count split: prod.splits if_splits)
qed (use assms in \<open>simp add: publisher_publish_to_def\<close>)

lemma books_shutdown:
  assumes "books (client_list oc @ cs) w n" "oc = Some c" "Disconnect c w = (c', v)"
  shows "books cs (drop_client (Some c') v) n"
  using books_disconnect [of c cs w n] assms by (simp add: drop_client_def Disconnect_idle)

lemma books_publisher_shutdown:
  assumes "books (client_list (mp_client p) @ cs) w n" "publisher_shutdown p w = (p', w')"
  shows "books (client_list (mp_client p') @ cs) w' n"
  using assms books_shutdown [OF assms(1)]
  by (auto simp: publisher_shutdown_def Let_def split: option.splits prod.splits)

lemma books_lose:
  assumes "books (client_list oc @ cs) w n" "lose oc = (oc', k)"
  shows "books (client_list oc' @ cs) w (n + k)"
  using assms books_lost [of _ cs w n] by (cases oc) (auto simp: lose_def)

lemma books_client_subscribe:
  assumes "books (c # cs) w n" "client_subscribe E r topic q c w = (e, w')"
  shows "books (c # cs) w' n"
  using assms books_use [OF assms(1)]
  by (auto simp: client_subscribe_def Let_def split: if_splits)

lemma books_callback: "books (SetMessageCallback c # cs) w n \<longleftrightarrow> books (c # cs) w n"
  by (simp add: books_def SetMessageCallback_def)

lemma books_subscriber_initialize:
  assumes "books (client_list (mb_client s) @ cs) w n" "subscriber_initialize E r1 r2 r3 s w = (e, s', w')"
  shows "books (client_list (mb_client s') @ cs) w' n"
proof -
  obtain e1 c1 w1 where con: "Connect E r1 r2 (MqttClient_new (mb_ip s) (mb_port s)) (drop_client (mb_client s) w) = (e1, c1, w1)"
    by (metis prod_cases3)
  have b1: "books (c1 # cs) w1 n"
    using books_connect [OF books_drop_client [OF assms(1)] client_new_idle, of E r1 r2 "mb_ip s" "mb_port s"] con
    by simp
  show ?thesis
  proof (cases "e1 = None")
    case True
    let ?c = "SetMessageCallback c1"
    obtain e2 w2 where sub: "(if mb_topic s \<noteq> [] then client_subscribe E r3 (mb_topic s) (mb_qos s) ?c w1 else (None, w1)) = (e2, w2)"
      by (metis surj_pair)
    have b2: "books (?c # cs) w2 n"
      using sub b1 books_client_subscribe [of ?c cs w1 n] by (auto simp: books_callback split: if_splits)
    obtain c3 w3 where dis: "Disconnect ?c w2 = (c3, w3)" by fastforce
    have b3: "books cs (drop_client (Some c3) w3) n"
      using books_shutdown [of "Some ?c"] b2 dis by simp
    show ?thesis
      using assms(2) con True sub b2 b3 dis
      by (auto simp: subscriber_initialize_def Let_def split: if_splits)
  next
    case False
    then show ?thesis using assms(2) con books_drop [OF b1] by (auto simp: subscriber_initialize_def Let_def)
  qed
qed

lemma books_subscriber_shutdown:
  assumes "books (client_list (mb_client s) @ cs) w n" "subscriber_shutdown s w = (s', w')"
  shows "books (client_list (mb_client s') @ cs) w' n"
  using assms books_shutdown [OF assms(1)]
  by (auto simp: subscriber_shutdown_def Let_def split: option.splits prod.splits)

lemma books_subscribe_multiple:
  assumes "books (client_list (mb_client s) @ cs) w n" "SubscribeMultiple E ts q s w = (e, w')"
  shows "books (client_list (mb_client s) @ cs) w' n"
  using assms
proof (induction ts arbitrary: w)
  case (Cons t ts)
  obtain topic r where t: "t = (topic, r)" by (cases t)
  obtain e1 w1 where sub: "subscriber_subscribe E r topic q s w = (e1, w1)" by fastforce
  have "books (client_list (mb_client s) @ cs) w1 n"
    using Cons.prems(1) sub books_client_subscribe
    by (cases "mb_client s") (auto simp: subscriber_subscribe_def)
  then show ?case using Cons t sub by (auto split: if_splits)
qed simp

lemma books_deliver:
  assumes "books (client_list (mb_client s) @ cs) w n"
  shows "books (client_list (mb_client (snd (deliver_message name len t s))) @ cs) w n"
  using assms
  by (auto simp: deliver_message_def OnMessageArrived_def OnMessage_def books_def Let_def split: option.splits)

lemma pop_client: "mb_client (snd (PopMessage s)) = mb_client s"
  by (simp add: PopMessage_def split: list.split)

lemma pair_books_sub:
  "pair_books x \<longleftrightarrow>
   books (client_list (mb_client (mx_sub x)) @ client_list (mp_client (mx_pub x))) (mx_world x) (mx_lost x)"
  unfolding pair_books_def by (rule books_rotate)

lemma mqtt_step_books: "pair_books x \<Longrightarrow> pair_books (mqtt_step E x op)"
proof (induction x op rule: mqtt_step.induct)
  case (1 E x r1 r2)
  then show ?case by (auto simp: pair_books_def intro: books_publisher_initialize split: prod.splits)
next
  case (2 E x r t)
  then show ?case by (auto simp: pair_books_def publisher_publish_def intro: books_publish split: prod.splits)
next
  case (3 E x r topic t q)
  then show ?case by (auto simp: pair_books_def intro: books_publish split: prod.splits)
next
  case (4 E x)
  then show ?case by (auto simp: pair_books_def intro: books_publisher_shutdown split: prod.splits)
next
  case (5 E x)
  then show ?case by (auto simp: pair_books_def intro: books_lose split: prod.splits)
next
  case (6 E x r1 r2 r3)
  then show ?case by (auto simp: pair_books_sub intro: books_subscriber_initialize split: prod.splits)
next
  case (7 E x ts q)
  then show ?case by (auto simp: pair_books_sub intro: books_subscribe_multiple split: prod.splits)
next
  case (8 E x name len t)
  then show ?case by (simp add: pair_books_sub books_deliver)
next
  case (9 E x)
  then show ?case by (simp add: pair_books_sub pop_client)
next
  case (10 E x)
  then show ?case by (auto simp: pair_books_sub intro: books_subscriber_shutdown split: prod.splits)
next
  case (11 E x)
  then show ?case by (auto simp: pair_books_sub intro: books_lose split: prod.splits)
qed

interpretation mq_sys: step_system "mqtt_step E" pair_books
  for E by unfold_locales (rule mqtt_step_books)

definition pair_new :: "mqtt_publisher \<Rightarrow> mqtt_subscriber \<Rightarrow> mqtt_pair" where
  "pair_new p s = \<lparr>mx_pub = p\<lparr>mp_client := None\<rparr>, mx_sub = s\<lparr>mb_client := None\<rparr>, mx_world = world_new, mx_lost = 0\<rparr>"

lemma pair_new_books: "pair_books (pair_new p s)"
  by (simp add: pair_books_def pair_new_def books_new)

text \<open>
  Whatever the two wrappers of a process are asked to do, in any order and with any answer of
  the library or the network, no call is made on a handle that is not live, and the live handles
  are those of the connected wrappers and, for every connection that was lost, one more that
  nothing will ever destroy.
\<close>

theorem mqtt_handles:
  "let x = foldl (mqtt_step E) (pair_new p s) ops
   in \<not> mw_misused (mx_world x)
      \<and> length (mw_live (mx_world x)) =
        mx_lost x + of_bool (publisher_connected (mx_pub x)) + of_bool (subscriber_connected (mx_sub x))"
proof -
  define x where "x = foldl (mqtt_step E) (pair_new p s) ops"
  have "pair_books x" unfolding x_def by (rule mq_sys.run_inv [OF pair_new_books])
  then have "\<not> mw_misused (mx_world x)
      \<and> length (mw_live (mx_world x)) = mx_lost x + of_bool (publisher_connected (mx_pub x)) + of_bool (subscriber_connected (mx_sub x))"
    by (auto simp: pair_books_def books_def publisher_connected_def subscriber_connected_def split: option.splits)
  then show ?thesis by (simp add: x_def Let_def)
qed

text \<open>The handle of a lost connection stays: neither a shutdown nor a new initialisation frees it.\<close>

lemma lost_handle_stays:
  "mw_live (mx_world (foldl (mqtt_step E) (pair_new p s) [PubInitialize 0 0, PubLost, PubShutdown])) = [0]"
  by (simp add: pair_new_def publisher_initialize_def drop_client_def Connect_def mqtt_create_def mqtt_use_def
      world_new_def MqttClient_new_def lose_def OnConnectionLost_def publisher_shutdown_def Disconnect_def Let_def)

text \<open>
  The flag is tested before the lock of a publish is taken, and a disconnect takes another lock:
  between the two a publish reaches the library with the null handle.
\<close>

lemma publish_race:
  assumes "mc_connected c" "mc_handle c = Some h"
  shows "let (c', w) = Disconnect c w in mw_misused (snd (snd (publish_call E rc topic t q r c' w)))"
  using assms by (simp add: Disconnect_def publish_call_def mqtt_use_def handle_live_def Let_def)

section \<open>The queue of a subscriber\<close>

datatype queue_op = Arrive string string | Pop

text \<open>The subscriber, what was popped and what arrived, over a run.\<close>

fun queue_step ::
  "mqtt_subscriber \<times> (string \<times> string) list \<times> (string \<times> string) list \<Rightarrow> queue_op
   \<Rightarrow> mqtt_subscriber \<times> (string \<times> string) list \<times> (string \<times> string) list" where
  "queue_step (s, popped, arrived) (Arrive t p) = (snd (OnMessage t p s), popped, arrived @ [(t, p)])"
| "queue_step (s, popped, arrived) Pop =
     (case PopMessage s of (Some m, s) \<Rightarrow> (s, popped @ [m], arrived) | (None, s) \<Rightarrow> (s, popped, arrived))"

fun queue_inv :: "mqtt_subscriber \<times> (string \<times> string) list \<times> (string \<times> string) list \<Rightarrow> bool" where
  "queue_inv (s, popped, arrived) =
     (\<exists>gone. arrived = gone @ mb_queue s \<and> subseq popped gone \<and> length (mb_queue s) \<le> kMaxQueueSize
      \<and> (kMaxQueueSize < length arrived \<or> popped = gone))"

lemma queue_arrive:
  assumes "queue_inv (s, popped, arrived)"
  shows "queue_inv (snd (OnMessage t p s), popped, arrived @ [(t, p)])"
proof -
  obtain gone where g: "arrived = gone @ mb_queue s" "subseq popped gone" "length (mb_queue s) \<le> kMaxQueueSize"
      "kMaxQueueSize < length arrived \<or> popped = gone"
    using assms by auto
  show ?thesis
  proof (cases "kMaxQueueSize \<le> length (mb_queue s)")
    case True
    then obtain m ms where q: "mb_queue s = m # ms"
      by (cases "mb_queue s") (simp_all add: kMaxQueueSize_def)
    have "subseq popped (gone @ [m])" using g(2) by (rule subseq_rev_drop_many)
    then show ?thesis
      using True g q by (auto simp: OnMessage_def Let_def intro!: exI [of _ "gone @ [m]"])
  next
    case False
    then show ?thesis using g by (auto simp: OnMessage_def Let_def)
  qed
qed

lemma queue_pop:
  assumes "queue_inv (s, popped, arrived)"
  shows "queue_inv (queue_step (s, popped, arrived) Pop)"
proof (cases "mb_queue s")
  case (Cons m ms)
  obtain gone where g: "arrived = gone @ mb_queue s" "subseq popped gone" "length (mb_queue s) \<le> kMaxQueueSize"
      "kMaxQueueSize < length arrived \<or> popped = gone"
    using assms by auto
  have "subseq (popped @ [m]) (gone @ [m])" using g(2) by simp
  then show ?thesis
    using Cons g by (auto simp: PopMessage_def intro!: exI [of _ "gone @ [m]"])
qed (use assms in \<open>simp add: PopMessage_def\<close>)

lemma queue_step_inv: "queue_inv x \<Longrightarrow> queue_inv (queue_step x op)"
proof (induction x op rule: queue_step.induct)
  case (1 s popped arrived t p)
  then show ?case using queue_arrive by (simp only: queue_step.simps)
next
  case (2 s popped arrived)
  then show ?case by (rule queue_pop)
qed

interpretation mq_queue: step_system queue_step queue_inv
  by unfold_locales (rule queue_step_inv)

text \<open>
  The queue of a subscriber always holds the most recent messages, in order and without a
  hole, at most 1000 of them; what was popped came before them in the same order; and until more
  than 1000 messages have arrived none is lost.
\<close>

theorem subscriber_queue:
  "let (s', popped, arrived) = foldl queue_step (s\<lparr>mb_queue := []\<rparr>, [], []) ops; q = mb_queue s'
   in q = drop (length arrived - length q) arrived \<and> length q \<le> kMaxQueueSize \<and> subseq (popped @ q) arrived
      \<and> (kMaxQueueSize < length arrived \<or> popped @ q = arrived)"
proof -
  obtain s' popped arrived where x: "foldl queue_step (s\<lparr>mb_queue := []\<rparr>, [], []) ops = (s', popped, arrived)"
    by (metis prod_cases3)
  have "queue_inv (s', popped, arrived)"
    using mq_queue.run_inv [of "(s\<lparr>mb_queue := []\<rparr>, [], [])" ops] x by simp
  then show ?thesis unfolding x by (auto simp: Let_def)
qed

end
