(* ===== verification/FaceDecode.thy ===== *)
theory FaceDecode
  imports Geometry "HOL-Library.Sublist"
begin

text \<open>
  From the network's tensors to faces (\<open>face_infer/scrfd_infer/ScrfdDecode.cpp\<close>): anchors are
  decoded in binary32, clamped to the picture, and thinned by greedy non-maximum suppression,
  which is proved equal to its textbook recursion. Then the alignment of a face
  (\<open>face_preprocess/inverse_affine.hpp\<close>) in binary64 and the normalisation of an embedding
  (\<open>arcface_infer/ArcFaceInfer.cpp\<close>). The exponential and \<open>std::sort\<close> are arguments with their
  documented contracts.
\<close>

section \<open>A total order on floating values\<close>

text \<open>
  Not the comparison of the code, which is partial, but a total order that agrees with it on
  numbers: the library's sorting functions need one.
\<close>

fun float_rank :: "cfloat \<Rightarrow> nat" where
  "float_rank NInf = 0"
| "float_rank (Fin q) = 1"
| "float_rank PInf = 2"
| "float_rank NaN = 3"

fun finite_part :: "cfloat \<Rightarrow> rat" where
  "finite_part (Fin q) = q"
| "finite_part x = 0"

instantiation cfloat :: linorder
begin

definition less_eq_cfloat :: "cfloat \<Rightarrow> cfloat \<Rightarrow> bool" where
  "less_eq_cfloat a b \<longleftrightarrow> float_rank a < float_rank b \<or> float_rank a = float_rank b \<and> finite_part a \<le> finite_part b"

definition less_cfloat :: "cfloat \<Rightarrow> cfloat \<Rightarrow> bool" where
  "less_cfloat a b \<longleftrightarrow> float_rank a < float_rank b \<or> float_rank a = float_rank b \<and> finite_part a < finite_part b"

instance
proof
  fix a b c :: cfloat
  show "a < b \<longleftrightarrow> a \<le> b \<and> \<not> b \<le> a" by (auto simp: less_eq_cfloat_def less_cfloat_def)
  show "a \<le> a" by (simp add: less_eq_cfloat_def)
  show "a \<le> b \<Longrightarrow> b \<le> c \<Longrightarrow> a \<le> c" by (auto simp: less_eq_cfloat_def)
  show "a \<le> b \<Longrightarrow> b \<le> a \<Longrightarrow> a = b" by (cases a; cases b; simp add: less_eq_cfloat_def)
  show "a \<le> b \<or> b \<le> a" by (auto simp: less_eq_cfloat_def)
qed

end

lemma flt_less: "a \<noteq> NaN \<Longrightarrow> b \<noteq> NaN \<Longrightarrow> flt a b \<longleftrightarrow> a < b"
  by (cases a; cases b; simp add: less_cfloat_def)

section \<open>Detections\<close>

record face_det =
  fd_x1 :: cfloat
  fd_y1 :: cfloat
  fd_x2 :: cfloat
  fd_y2 :: cfloat
  fd_score :: cfloat
  fd_landmarks :: "(cfloat \<times> cfloat) list"

definition face_landmark_count :: nat where "face_landmark_count = 5"
definition scrfd_input_size :: nat where "scrfd_input_size = 640"
definition scrfd_strides :: "nat list" where "scrfd_strides = [8, 16, 32]"
definition scrfd_fmc :: nat where "scrfd_fmc = 2"
definition scrfd_score_idx :: "nat list" where "scrfd_score_idx = [0, 3, 6]"
definition scrfd_bbox_idx :: "nat list" where "scrfd_bbox_idx = [1, 4, 7]"
definition scrfd_kps_idx :: "nat list" where "scrfd_kps_idx = [2, 5, 8]"
definition scrfd_anchor_count :: "nat list" where "scrfd_anchor_count = [12800, 3200, 800]"

definition float_of_int :: "int \<Rightarrow> cfloat" where
  "float_of_int i = fl F (of_int i)"

definition face_iou :: "face_det \<Rightarrow> face_det \<Rightarrow> cfloat" where
  "face_iou a b =
     (let ix1 = fmax (fd_x1 a) (fd_x1 b); iy1 = fmax (fd_y1 a) (fd_y1 b);
          ix2 = fmin (fd_x2 a) (fd_x2 b); iy2 = fmin (fd_y2 a) (fd_y2 b);
          inter = fmul F (fmax (Fin 0) (fsub F ix2 ix1)) (fmax (Fin 0) (fsub F iy2 iy1));
          area_a = fmul F (fsub F (fd_x2 a) (fd_x1 a)) (fsub F (fd_y2 a) (fd_y1 a));
          area_b = fmul F (fsub F (fd_x2 b) (fd_x1 b)) (fsub F (fd_y2 b) (fd_y1 b))
      in fdiv F inter (fadd F (fsub F (fadd F area_a area_b) inter) (fl F (1 / 1000000))))"

section \<open>Non-maximum suppression\<close>

text \<open>The inner loop marks later detections that overlap detection i too much.\<close>

definition nms_mark :: "cfloat \<Rightarrow> face_det list \<Rightarrow> nat \<Rightarrow> bool list \<Rightarrow> bool list" where
  "nms_mark thresh dets i suppressed =
     foldl (\<lambda>s j. if \<not> s ! j \<and> flt thresh (face_iou (dets ! i) (dets ! j)) then s[j := True] else s)
       suppressed [Suc i..<length dets]"

definition nms_step ::
  "cfloat \<Rightarrow> face_det list \<Rightarrow> bool list \<times> face_det list \<Rightarrow> nat \<Rightarrow> bool list \<times> face_det list" where
  "nms_step thresh dets st i =
     (if fst st ! i then st else (nms_mark thresh dets i (fst st), snd st @ [dets ! i]))"

definition nms :: "(face_det list \<Rightarrow> face_det list) \<Rightarrow> cfloat \<Rightarrow> face_det list \<Rightarrow> face_det list" where
  "nms sorter thresh dets0 =
     (let dets = sorter dets0
      in snd (foldl (nms_step thresh dets) (replicate (length dets) False, []) [0..<length dets]))"

section \<open>ScrfdDecode\<close>

definition clamp_to :: "cfloat \<Rightarrow> int \<Rightarrow> cfloat" where
  "clamp_to x limit = fmax (Fin 0) (fmin x (float_of_int limit))"

text \<open>Scores outside the unit interval are logits; very low ones are skipped.\<close>

definition anchor_score :: "(cfloat \<Rightarrow> cfloat) \<Rightarrow> cfloat \<Rightarrow> cfloat option" where
  "anchor_score expf score =
     (if flt (Fin 1) score \<or> flt score (Fin 0) then
        if flt score (Fin (- 10)) then None
        else Some (fdiv F (Fin 1) (fadd F (Fin 1) (expf (fneg score))))
      else Some score)"

definition decode_anchor ::
  "(cfloat \<Rightarrow> cfloat) \<Rightarrow> cfloat \<Rightarrow> int \<Rightarrow> int \<Rightarrow> cfloat \<Rightarrow> nat \<Rightarrow> nat \<Rightarrow>
     (nat \<Rightarrow> cfloat) \<Rightarrow> (nat \<Rightarrow> cfloat) \<Rightarrow> (nat \<Rightarrow> cfloat) \<Rightarrow> nat \<Rightarrow> face_det option" where
  "decode_anchor expf scale orig_w orig_h conf stride feat_w scores bboxes kps i =
     (case anchor_score expf (scores i) of
        None \<Rightarrow> None
      | Some score \<Rightarrow>
          if flt score conf then None
          else
            let point_idx = i div scrfd_fmc;
                cx = float_of_int (int (point_idx mod feat_w * stride));
                cy = float_of_int (int (point_idx div feat_w * stride));
                st = float_of_int (int stride);
                x1 = fmul F (fsub F cx (fmul F (bboxes (i * 4)) st)) scale;
                y1 = fmul F (fsub F cy (fmul F (bboxes (i * 4 + 1)) st)) scale;
                x2 = fmul F (fadd F cx (fmul F (bboxes (i * 4 + 2)) st)) scale;
                y2 = fmul F (fadd F cy (fmul F (bboxes (i * 4 + 3)) st)) scale
            in Some \<lparr>fd_x1 = clamp_to x1 orig_w, fd_y1 = clamp_to y1 orig_h,
                 fd_x2 = clamp_to x2 orig_w, fd_y2 = clamp_to y2 orig_h, fd_score = score,
                 fd_landmarks = map (\<lambda>j.
                   (fmul F (fadd F (fmul F (kps (i * 10 + j * 2)) st) cx) scale,
                    fmul F (fadd F (fmul F (kps (i * 10 + (j * 2 + 1))) st) cy) scale))
                   [0..<face_landmark_count]\<rparr>)"

definition decode_stride ::
  "(cfloat \<Rightarrow> cfloat) \<Rightarrow> (nat \<Rightarrow> nat \<Rightarrow> cfloat) \<Rightarrow> cfloat \<Rightarrow> int \<Rightarrow> int \<Rightarrow> cfloat \<Rightarrow> nat \<Rightarrow> face_det list" where
  "decode_stride expf tensors scale orig_w orig_h conf s =
     (let stride = scrfd_strides ! s
      in List.map_filter
           (decode_anchor expf scale orig_w orig_h conf stride (scrfd_input_size div stride)
              (tensors (scrfd_score_idx ! s)) (tensors (scrfd_bbox_idx ! s)) (tensors (scrfd_kps_idx ! s)))
           [0..<scrfd_anchor_count ! s])"

text \<open>
  The detections written to the caller's buffer. A negative bound is converted to a huge unsigned
  number, as \<open>static_cast<size_t>\<close> does.
\<close>

definition scrfd_decode ::
  "(cfloat \<Rightarrow> cfloat) \<Rightarrow> (face_det list \<Rightarrow> face_det list) \<Rightarrow> (nat \<Rightarrow> nat \<Rightarrow> cfloat) \<Rightarrow> cfloat \<Rightarrow> int \<Rightarrow> int \<Rightarrow>
     cfloat \<Rightarrow> cfloat \<Rightarrow> int \<Rightarrow> face_det list" where
  "scrfd_decode expf sorter tensors scale orig_w orig_h conf thresh max_dets =
     (let dets = concat (map (decode_stride expf tensors scale orig_w orig_h conf) [0..<length scrfd_strides]);
          kept = nms sorter thresh dets
      in take (min (unat (u64_of_int max_dets)) (length kept)) kept)"

section \<open>The contract of the sort, and suppression as a recursion\<close>

text \<open>
  \<open>std::sort\<close> with the comparison of the code permutes and sorts, provided that comparison is a
  strict weak order, which it is when no score is NaN.
\<close>

locale det_sorter =
  fixes sorter :: "face_det list \<Rightarrow> face_det list"
  assumes sorter_mset: "\<forall>d \<in> set ds. fd_score d \<noteq> NaN \<Longrightarrow> mset (sorter ds) = mset ds"
    and sorter_desc: "\<forall>d \<in> set ds. fd_score d \<noteq> NaN \<Longrightarrow>
      sorted_wrt (\<lambda>a b. \<not> flt (fd_score a) (fd_score b)) (sorter ds)"

definition overlaps :: "cfloat \<Rightarrow> face_det \<Rightarrow> face_det \<Rightarrow> bool" where
  "overlaps thresh a b \<longleftrightarrow> flt thresh (face_iou a b)"

fun greedy :: "('a \<Rightarrow> 'a \<Rightarrow> bool) \<Rightarrow> 'a list \<Rightarrow> 'a list" where
  "greedy ov [] = []"
| "greedy ov (d # ds) = d # greedy ov (filter (\<lambda>e. \<not> ov d e) ds)"

lemma mark_length: "length (nms_mark thresh dets i s) = length s"
proof -
  have "length (foldl (\<lambda>s j. if \<not> s ! j \<and> P j then s[j := True] else s) s js) = length s" for P js
    by (induction js arbitrary: s) auto
  then show ?thesis by (simp add: nms_mark_def)
qed

lemma mark_nth:
  assumes "length s = length dets" "j < length dets"
  shows "nms_mark thresh dets i s ! j \<longleftrightarrow> s ! j \<or> i < j \<and> overlaps thresh (dets ! i) (dets ! j)"
proof -
  have "foldl (\<lambda>s j. if \<not> s ! j \<and> P j then s[j := True] else s) s js ! j \<longleftrightarrow> s ! j \<or> j \<in> set js \<and> P j"
    if "\<forall>k \<in> set js. k < length s" "j < length s" for P js and s :: "bool list"
    using that by (induction js arbitrary: s) (auto simp: nth_list_update)
  from this [of "[Suc i..<length dets]" s "\<lambda>j. flt thresh (face_iou (dets ! i) (dets ! j))"] assms
  show ?thesis by (auto simp: nms_mark_def overlaps_def)
qed

lemma nms_fold:
  assumes "length s = length dets" "i \<le> length dets"
  shows "snd (foldl (nms_step thresh dets) (s, res) [i..<length dets]) =
    res @ greedy (overlaps thresh) (map ((!) dets) (filter (\<lambda>j. \<not> s ! j) [i..<length dets]))"
  using assms
proof (induction "length dets - i" arbitrary: i s res)
  case (Suc n)
  then have i: "i < length dets" by simp
  have up: "[i..<length dets] = i # [Suc i..<length dets]" using i by (rule upt_conv_Cons)
  have IH: "snd (foldl (nms_step thresh dets) (t, r) [Suc i..<length dets]) =
      r @ greedy (overlaps thresh) (map ((!) dets) (filter (\<lambda>j. \<not> t ! j) [Suc i..<length dets]))"
    if "length t = length dets" for t r
    using Suc that by (intro Suc.hyps(1)) auto
  show ?case
  proof (cases "s ! i")
    case True
    then show ?thesis using IH [OF Suc.prems(1)] by (simp add: up nms_step_def)
  next
    case False
    let ?t = "nms_mark thresh dets i s"
    have "filter (\<lambda>j. \<not> ?t ! j) [Suc i..<length dets] =
        filter (\<lambda>j. \<not> s ! j \<and> \<not> overlaps thresh (dets ! i) (dets ! j)) [Suc i..<length dets]"
      using Suc.prems(1) by (intro filter_cong) (auto simp: mark_nth)
    also have "map ((!) dets) \<dots> = filter (\<lambda>e. \<not> overlaps thresh (dets ! i) e)
        (map ((!) dets) (filter (\<lambda>j. \<not> s ! j) [Suc i..<length dets]))"
      by (simp add: filter_map o_def conj_commute)
    finally have eq: "map ((!) dets) (filter (\<lambda>j. \<not> ?t ! j) [Suc i..<length dets]) = \<dots>" .
    show ?thesis
      using False IH [of ?t "res @ [dets ! i]"] Suc.prems(1)
      by (simp add: up nms_step_def mark_length eq)
  qed
qed simp

lemma nms_greedy_core: "nms sorter thresh dets = greedy (overlaps thresh) (sorter dets)"
  unfolding nms_def Let_def by (subst nms_fold) (simp_all add: map_nth)

text \<open>An insertion sort by the total order above is one admissible sorter.\<close>

definition det_sort :: "face_det list \<Rightarrow> face_det list" where
  "det_sort ds = rev (sort_key fd_score ds)"

interpretation det_sort: det_sorter det_sort
proof
  fix ds :: "face_det list"
  show "mset (det_sort ds) = mset ds" by (simp add: det_sort_def)
  assume nan: "\<forall>d \<in> set ds. fd_score d \<noteq> NaN"
  have "sorted (map fd_score (sort_key fd_score ds))" by simp
  then have "sorted_wrt (\<lambda>a b. fd_score b \<le> fd_score a) (rev (sort_key fd_score ds))"
    by (simp add: sorted_wrt_rev sorted_map)
  then show "sorted_wrt (\<lambda>a b. \<not> flt (fd_score a) (fd_score b)) (det_sort ds)"
    unfolding det_sort_def by (rule sorted_wrt_mono_rel [rotated]) (use nan in \<open>auto simp: flt_less\<close>)
qed

lemma subseq_mset: "subseq xs ys \<Longrightarrow> mset xs \<subseteq># mset ys"
  by (induction rule: list_emb.induct) (auto simp: subseteq_mset_def intro: le_SucI)

lemma subseq_set: "subseq xs ys \<Longrightarrow> set xs \<subseteq> set ys"
  using subseq_mset [of xs ys] set_mset_mono by fastforce

lemma greedy_subseq: "subseq (greedy ov ds) ds"
proof (induction ov ds rule: greedy.induct)
  case (2 ov d ds)
  then show ?case using subseq_filter_left subseq_order.order_trans by (metis greedy.simps(2) subseq_Cons2)
qed simp

lemma greedy_apart: "sorted_wrt (\<lambda>a b. \<not> ov a b) (greedy ov ds)"
proof (induction ov ds rule: greedy.induct)
  case (2 ov d ds)
  have "set (greedy ov (filter (\<lambda>e. \<not> ov d e) ds)) \<subseteq> set (filter (\<lambda>e. \<not> ov d e) ds)"
    by (rule subseq_set [OF greedy_subseq])
  with 2 show ?case by auto
qed simp

text \<open>Whatever is dropped overlaps a kept element that stood before it.\<close>

lemma greedy_covers:
  assumes "sorted_wrt R ds" "d \<in> set ds"
  shows "d \<in> set (greedy ov ds) \<or> (\<exists>k \<in> set (greedy ov ds). ov k d \<and> R k d)"
  using assms
proof (induction ov ds rule: greedy.induct)
  case (2 ov e ds)
  have "sorted_wrt R (filter (\<lambda>x. \<not> ov e x) ds)" using 2 by (simp add: sorted_wrt_filter)
  with 2 show ?case by (cases "d = e"; cases "ov e d") auto
qed simp

lemma sorted_wrt_subseq: "subseq xs ys \<Longrightarrow> sorted_wrt R ys \<Longrightarrow> sorted_wrt R xs"
proof (induction rule: list_emb.induct)
  case (list_emb_Cons2 x y xs ys)
  then show ?case using subseq_set [of xs ys] by (auto dest: subseq_set)
qed auto

text \<open>What suppression promises, for any admissible sorter.\<close>

context det_sorter
begin

lemma nms_spec:
  assumes "\<forall>d \<in> set ds. fd_score d \<noteq> NaN"
  shows "mset (nms sorter thresh ds) \<subseteq># mset ds \<and>
    sorted_wrt (\<lambda>a b. \<not> flt (fd_score a) (fd_score b)) (nms sorter thresh ds) \<and>
    sorted_wrt (\<lambda>a b. \<not> overlaps thresh a b) (nms sorter thresh ds) \<and>
    (\<forall>d \<in> set ds. d \<in> set (nms sorter thresh ds) \<or>
      (\<exists>k \<in> set (nms sorter thresh ds). overlaps thresh k d \<and> \<not> flt (fd_score k) (fd_score d)))"
proof (intro conjI)
  note eq = nms_greedy_core and srt = sorter_desc [OF assms] and perm = sorter_mset [OF assms]
  have sub: "subseq (greedy (overlaps thresh) (sorter ds)) (sorter ds)" by (rule greedy_subseq)
  show "mset (nms sorter thresh ds) \<subseteq># mset ds"
    unfolding eq perm [symmetric] using sub by (rule subseq_mset)
  show "sorted_wrt (\<lambda>a b. \<not> flt (fd_score a) (fd_score b)) (nms sorter thresh ds)"
    unfolding eq using sub srt by (rule sorted_wrt_subseq)
  show "sorted_wrt (\<lambda>a b. \<not> overlaps thresh a b) (nms sorter thresh ds)"
    unfolding eq by (rule greedy_apart)
  have "set (sorter ds) = set ds" using perm by (metis set_mset_mset)
  then show "\<forall>d \<in> set ds. d \<in> set (nms sorter thresh ds) \<or>
      (\<exists>k \<in> set (nms sorter thresh ds). overlaps thresh k d \<and> \<not> flt (fd_score k) (fd_score d))"
    unfolding eq using greedy_covers [OF srt] by blast
qed

end

text \<open>
  C25: Suppression is the greedy recursion: with the index arithmetic, the suppressed flags and
  the result vector of the code, the detections kept from a list are those kept by "keep the
  first, drop what overlaps it too much, go on with the rest" on the sorted list, whatever
  the floating values are (NaN and infinities included).
\<close>

theorem nms_is_greedy:
  "nms sorter thresh dets = greedy (\<lambda>a b. flt thresh (face_iou a b)) (sorter dets)"
  using nms_greedy_core [of sorter thresh dets] by (simp add: overlaps_def [abs_def])

section \<open>Decoded detections\<close>

lemma float_of_int_nonneg:
  assumes "0 \<le> i" "i < 2147483648"
  shows "\<exists>w. float_of_int i = Fin w \<and> 0 \<le> w"
proof -
  have "(2 :: rat) powi 31 = 2147483648" by simp
  then have b: "\<bar>of_int i :: rat\<bar> \<le> 2 powi 31" using assms by linarith
  have "fl F (of_int i) = Fin (rnd F (of_int i))" by (rule conjunct1 [OF fl_fin [OF b]]) simp_all
  then show ?thesis using assms rnd_nonneg [of "of_int i" F] by (simp add: float_of_int_def)
qed

lemma clamp_range:
  assumes "0 \<le> w" "w < 2147483648"
  shows "fle (Fin 0) (clamp_to x w) \<and> fle (clamp_to x w) (float_of_int w)"
proof -
  obtain v where "float_of_int w = Fin v" "0 \<le> v" using float_of_int_nonneg [OF assms] by blast
  then show ?thesis
    by (cases x) (auto simp: clamp_to_def fmax_def fmin_def fle_def feq_def)
qed

text \<open>A box in the picture, with a score that reaches the threshold, which is not NaN.\<close>

definition det_in_picture :: "int \<Rightarrow> int \<Rightarrow> cfloat \<Rightarrow> face_det \<Rightarrow> bool" where
  "det_in_picture w h conf d \<longleftrightarrow>
     fle (Fin 0) (fd_x1 d) \<and> fle (fd_x1 d) (float_of_int w) \<and> fle (Fin 0) (fd_x2 d) \<and> fle (fd_x2 d) (float_of_int w) \<and>
     fle (Fin 0) (fd_y1 d) \<and> fle (fd_y1 d) (float_of_int h) \<and> fle (Fin 0) (fd_y2 d) \<and> fle (fd_y2 d) (float_of_int h) \<and>
     fd_score d \<noteq> NaN \<and> \<not> flt (fd_score d) conf \<and> length (fd_landmarks d) = face_landmark_count"

text \<open>The exponential is not NaN and not negative on numbers.\<close>

definition exp_contract :: "(cfloat \<Rightarrow> cfloat) \<Rightarrow> bool" where
  "exp_contract expf \<longleftrightarrow> (\<forall>x. x \<noteq> NaN \<longrightarrow> expf x \<noteq> NaN \<and> \<not> flt (expf x) (Fin 0))"

lemma fl_not_nan: "fl f q \<noteq> NaN"
  by (simp add: fl_def Let_def)

lemma anchor_score_number:
  assumes "exp_contract expf" "s \<noteq> NaN" "anchor_score expf s = Some t"
  shows "t \<noteq> NaN"
proof -
  have "fneg s \<noteq> NaN" using assms(2) by (cases s) auto
  with assms(1) have e: "expf (fneg s) \<noteq> NaN" "\<not> flt (expf (fneg s)) (Fin 0)" by (auto simp: exp_contract_def)
  have one: "fdiv F (Fin 1) (fadd F (Fin 1) (expf (fneg s))) \<noteq> NaN"
  proof (cases "expf (fneg s)")
    case (Fin q)
    then show ?thesis
      by (cases "fl F (1 + q)") (auto simp: fl_not_nan inf_of_sgn_def)
  qed (use e in auto)
  then show ?thesis using assms by (auto simp: anchor_score_def split: if_splits)
qed

lemma decode_anchor_in_picture:
  assumes "exp_contract expf" "scores i \<noteq> NaN" "0 \<le> w" "w < 2147483648" "0 \<le> h" "h < 2147483648"
    and "decode_anchor expf scale w h conf stride fw scores bboxes kps i = Some d"
  shows "det_in_picture w h conf d"
  using assms anchor_score_number [OF assms(1,2)]
  by (auto simp: decode_anchor_def det_in_picture_def Let_def clamp_range split: option.splits if_splits)

lemma length_strides: "length scrfd_strides = 3"
  by (simp add: scrfd_strides_def)

lemma decode_all_in_picture:
  assumes "exp_contract expf" "\<forall>s < 3. \<forall>i < scrfd_anchor_count ! s. tensors (scrfd_score_idx ! s) i \<noteq> NaN"
    and "0 \<le> w" "w < 2147483648" "0 \<le> h" "h < 2147483648"
    and "d \<in> set (concat (map (decode_stride expf tensors scale w h conf) [0..<length scrfd_strides]))"
  shows "det_in_picture w h conf d"
proof -
  obtain s where s0: "s < length scrfd_strides" "d \<in> set (decode_stride expf tensors scale w h conf s)"
    using assms(7) by auto
  then obtain i where s: "s < 3" "i < scrfd_anchor_count ! s" and
    d: "decode_anchor expf scale w h conf (scrfd_strides ! s) (scrfd_input_size div (scrfd_strides ! s))
          (tensors (scrfd_score_idx ! s)) (tensors (scrfd_bbox_idx ! s)) (tensors (scrfd_kps_idx ! s)) i = Some d"
    by (auto simp: decode_stride_def Let_def List.map_filter_def length_strides)
  show ?thesis using decode_anchor_in_picture [OF assms(1) _ assms(3-6) d] assms(2) s by blast
qed

text \<open>
  C26: What the detector reports is usable, whatever the network wrote into the box and landmark
  tensors (NaN and infinities included): at most the asked number of faces; every box lies in the
  picture; every score reaches the threshold; scores do not increase; and no two reported faces
  overlap more than the threshold. The score tensors must hold numbers: a NaN score passes every
  comparison of the code and breaks the order of the sort.
\<close>

theorem scrfd_decode_usable:
  assumes sorter: "det_sorter sorter" and ex: "exp_contract expf"
    and nan: "\<forall>s < 3. \<forall>i < scrfd_anchor_count ! s. tensors (scrfd_score_idx ! s) i \<noteq> NaN"
    and wh: "0 \<le> w" "w < 2147483648" "0 \<le> h" "h < 2147483648" and md: "0 \<le> max_dets" "max_dets < 2147483648"
  shows "let r = scrfd_decode expf sorter tensors scale w h conf thresh max_dets in
     length r \<le> nat max_dets \<and> (\<forall>d \<in> set r. det_in_picture w h conf d) \<and>
     sorted_wrt (\<lambda>a b. \<not> flt (fd_score a) (fd_score b)) r \<and>
     sorted_wrt (\<lambda>a b. \<not> flt thresh (face_iou a b)) r"
proof -
  define ds where "ds = concat (map (decode_stride expf tensors scale w h conf) [0..<length scrfd_strides])"
  have inp: "\<forall>d \<in> set ds. det_in_picture w h conf d"
    unfolding ds_def using decode_all_in_picture [OF ex nan wh] by blast
  then have "\<forall>d \<in> set ds. fd_score d \<noteq> NaN" by (simp add: det_in_picture_def)
  note spec = det_sorter.nms_spec [OF sorter this, of thresh]
  have "set (nms sorter thresh ds) \<subseteq> set ds" using spec set_mset_mono by fastforce
  moreover have "unat (u64_of_int max_dets) = nat max_dets"
    using md by (simp add: unat_u64_of_int)
  ultimately show ?thesis
    using spec inp unfolding scrfd_decode_def ds_def [symmetric]
    by (auto simp: Let_def overlaps_def sorted_wrt_take dest: in_set_takeD)
qed

theorem scrfd_decode_usable_witness:
  "let r = scrfd_decode (\<lambda>x. Fin 1) det_sort (\<lambda>t i. if t < 3 \<and> i = 0 then Fin (9 / 10) else Fin 0)
       (Fin 3) 1920 1080 (Fin (1 / 2)) (Fin (2 / 5)) 32
   in length r \<le> 32 \<and> (\<forall>d \<in> set r. det_in_picture 1920 1080 (Fin (1 / 2)) d)"
proof -
  have "exp_contract (\<lambda>x. Fin 1)" by (simp add: exp_contract_def)
  from scrfd_decode_usable [OF det_sort.det_sorter_axioms this,
      of "\<lambda>t i. if t < 3 \<and> i = 0 then Fin (9 / 10) else Fin 0" 1920 1080 32 "Fin 3" "Fin (1 / 2)" "Fin (2 / 5)"]
  show ?thesis by (simp add: Let_def)
qed

text \<open>A NaN score passes the threshold: the detection is kept, and the comparison of the sort is no order.\<close>

lemma nan_score_kept:
  "anchor_score expf NaN = Some NaN \<and> \<not> flt NaN conf"
  by (simp add: anchor_score_def)

section \<open>The alignment of a face\<close>

text \<open>
  \<open>ComputeInverseAffine\<close>: centres and the least squares fit in binary64, the matrix in binary32.
  The reference points are \<open>float\<close> constants; \<open>float\<close> operands are widened, which is exact.
\<close>

definition ref_landmarks :: "(cfloat \<times> cfloat) list" where
  "ref_landmarks = map (\<lambda>(x, y). (fl F x, fl F y))
     [(382946 / 10000, 516963 / 10000), (735318 / 10000, 515014 / 10000), (560252 / 10000, 717366 / 10000),
      (415493 / 10000, 923655 / 10000), (707299 / 10000, 922041 / 10000)]"

definition dsum :: "cfloat list \<Rightarrow> cfloat" where
  "dsum xs = foldl (fadd B64) (Fin 0) xs"

definition centre :: "cfloat list \<Rightarrow> cfloat" where
  "centre xs = fdiv B64 (dsum xs) (Fin 5)"

definition affine_step ::
  "cfloat \<times> cfloat \<times> cfloat \<times> cfloat \<Rightarrow> cfloat \<times> cfloat \<times> cfloat \<Rightarrow> (cfloat \<times> cfloat) \<times> cfloat \<times> cfloat \<Rightarrow>
     cfloat \<times> cfloat \<times> cfloat" where
  "affine_step c acc p =
     (let (sx, sy, dx, dy) = c; (num_a, num_b, denom) = acc; ((px, py), (qx, qy)) = p;
          sxi = fsub B64 px sx; syi = fsub B64 py sy; dxi = fsub B64 qx dx; dyi = fsub B64 qy dy
      in (fadd B64 num_a (fadd B64 (fmul B64 dxi sxi) (fmul B64 dyi syi)),
          fadd B64 num_b (fsub B64 (fmul B64 dxi syi) (fmul B64 dyi sxi)),
          fadd B64 denom (fadd B64 (fmul B64 sxi sxi) (fmul B64 syi syi))))"

definition tiny :: cfloat where
  "tiny = fl B64 (1 / 10000000000)"

definition compute_inverse_affine :: "(cfloat \<times> cfloat) list \<Rightarrow> cfloat list" where
  "compute_inverse_affine src =
     (let sx = centre (map fst src); sy = centre (map snd src);
          dx = centre (map fst ref_landmarks); dy = centre (map snd ref_landmarks);
          (num_a, num_b, denom) =
            foldl (affine_step (sx, sy, dx, dy)) (Fin 0, Fin 0, Fin 0) (zip src ref_landmarks)
      in if flt denom tiny then
           [Fin 1, Fin 0, to_float (fsub B64 sx dx), Fin 0, Fin 1, to_float (fsub B64 sy dy)]
         else
           let a = fdiv B64 num_a denom; b = fdiv B64 num_b denom;
               tx = fadd B64 (fsub B64 dx (fmul B64 a sx)) (fmul B64 b sy);
               ty = fsub B64 (fsub B64 dy (fmul B64 b sx)) (fmul B64 a sy);
               det0 = fadd B64 (fmul B64 a a) (fmul B64 b b);
               det = (if flt det0 tiny then tiny else det0);
               inv_det = fdiv B64 (Fin 1) det
           in [to_float (fmul B64 a inv_det), to_float (fmul B64 b inv_det),
               to_float (fmul B64 (fneg (fadd B64 (fmul B64 a tx) (fmul B64 b ty))) inv_det),
               to_float (fmul B64 (fneg b) inv_det), to_float (fmul B64 a inv_det),
               to_float (fmul B64 (fsub B64 (fmul B64 b tx) (fmul B64 a ty)) inv_det)])"

text \<open>Five times the same binary32 value adds up exactly in binary64, so the centre is the value.\<close>

lemma widen_multiple:
  assumes q: "rnd F q = q" and n: "\<bar>n\<bar> \<le> 5"
  shows "rnd B64 (of_int n * q) = of_int n * q"
proof -
  obtain k e where k: "q = of_int k * 2 powi (e - (prec F - 1))" "\<bar>k\<bar> \<le> 2 ^ nat (prec F)" "emin F \<le> e"
    using rnd_form [of F q] q by metis
  have "\<bar>n * k\<bar> \<le> 5 * 2 ^ 24" using k(2) n by (simp only: abs_mult) (intro mult_mono; simp)
  then have b: "\<bar>n * k\<bar> \<le> 2 ^ nat (prec B64)" by simp
  have "e - (prec F - 1) = (e + 29) - (prec B64 - 1)" by simp
  then have "of_int n * q = of_int (n * k) * 2 powi ((e + 29) - (prec B64 - 1))" unfolding k(1) by (simp only: of_int_mult mult.assoc)
  then show ?thesis using rnd_exact [OF b, of "e + 29"] k(3) by (simp only:) simp
qed

lemma widen_fl:
  assumes "rnd F q = q" "\<bar>q\<bar> \<le> 2 powi 100" "\<bar>n\<bar> \<le> 5"
  shows "fl B64 (of_int n * q) = Fin (of_int n * q)"
proof -
  have "\<bar>of_int n * q\<bar> \<le> 5 * 2 powi 100"
    using assms(2,3) unfolding abs_mult by (intro mult_mono) (auto simp flip: of_int_abs)
  also have "\<dots> < 2 powi 3 * 2 powi 100" by (intro mult_strict_right_mono) auto
  also have "\<dots> = 2 powi 103" unfolding two_powi_add by simp
  also have "(2 :: rat) powi 103 < 2 powi (emax B64 + 1)" by (intro two_powi_strict) simp
  finally have "\<bar>of_int n * q\<bar> < 2 powi (emax B64 + 1)" .
  then show ?thesis using widen_multiple [OF assms(1,3)] unfolding fl_def Let_def by (auto simp: abs_less_iff)
qed

lemma centre_same:
  assumes "rnd F q = q" "\<bar>q\<bar> \<le> 2 powi 100"
  shows "centre [Fin q, Fin q, Fin q, Fin q, Fin q] = Fin q"
proof -
  note w = widen_fl [OF assms]
  have "dsum [Fin q, Fin q, Fin q, Fin q, Fin q] = Fin (5 * q)"
    using w [of 1] w [of 2] w [of 3] w [of 4] w [of 5] by (simp add: dsum_def)
  then show ?thesis using w [of 1] by (simp add: centre_def)
qed

lemma tiny_positive: "flt (Fin 0) tiny"
proof -
  have "(2 :: rat) powi - 40 \<le> 1 / 10000000000" by (simp add: power_int_minus)
  then have "rnd B64 (2 powi - 40) \<le> rnd B64 (1 / 10000000000)" by (rule rnd_mono)
  then have "0 < rnd B64 (1 / 10000000000)"
    using rnd_powi [of B64 "- 40"] two_powi_pos [of "- 40"] by simp
  then show ?thesis
    unfolding tiny_def fl_def Let_def using two_powi_pos [of "emax B64 + 1"] by (simp add: not_le)
qed

lemma fl_zero [simp]: "fl f 0 = Fin 0"
  by (simp add: fl_def Let_def not_le)

text \<open>
  Landmarks that all coincide give the pure translation, exactly: the fit has a zero
  denominator in spite of the rounding, and the guard catches it.
\<close>

lemma coinciding_landmarks:
  assumes "rnd F px = px" "\<bar>px\<bar> \<le> 2 powi 100" "rnd F py = py" "\<bar>py\<bar> \<le> 2 powi 100"
  shows "compute_inverse_affine (replicate 5 (Fin px, Fin py)) =
    [Fin 1, Fin 0, to_float (fsub B64 (Fin px) (centre (map fst ref_landmarks))),
     Fin 0, Fin 1, to_float (fsub B64 (Fin py) (centre (map snd ref_landmarks)))]"
proof -
  define rx ry where "rx = centre (map fst ref_landmarks)" and "ry = centre (map snd ref_landmarks)"
  have five: "replicate 5 z = [z, z, z, z, z]" for z :: "cfloat \<times> cfloat" by (simp add: numeral_eq_Suc)
  have zero: "fsub B64 (Fin q) (Fin q) = Fin 0" for q by (simp add: fsub_def)
  have step: "snd (snd (affine_step (Fin px, Fin py, dx, dy) acc ((Fin px, Fin py), r))) =
      fadd B64 (snd (snd acc)) (Fin 0)" for dx dy acc r
    by (cases acc; cases r) (simp add: affine_step_def Let_def zero)
  have den: "snd (snd (foldl (affine_step (Fin px, Fin py, rx, ry)) (a, b, Fin 0) (zip (replicate n (Fin px, Fin py)) rs))) = Fin 0"
    for a b n rs
  proof (induction n arbitrary: a b rs)
    case (Suc n)
    show ?case
    proof (cases rs)
      case (Cons r rs')
      obtain a' b' d' where e: "affine_step (Fin px, Fin py, rx, ry) (a, b, Fin 0) ((Fin px, Fin py), r) = (a', b', d')"
        by (metis prod_cases3)
      then have "d' = Fin 0" using step [of rx ry "(a, b, Fin 0)" r] by simp
      then show ?thesis using Suc e Cons by simp
    qed simp
  qed simp
  have sx: "centre (map fst (replicate 5 (Fin px, Fin py))) = Fin px" "centre (map snd (replicate 5 (Fin px, Fin py))) = Fin py"
    unfolding five using centre_same assms by simp_all
  obtain a b d where f: "foldl (affine_step (Fin px, Fin py, rx, ry)) (Fin 0, Fin 0, Fin 0)
      (zip (replicate 5 (Fin px, Fin py)) ref_landmarks) = (a, b, d)" by (metis prod_cases3)
  with den [of "Fin 0" "Fin 0" 5 ref_landmarks] have "d = Fin 0" by simp
  then show ?thesis
    unfolding compute_inverse_affine_def sx rx_def [symmetric] ry_def [symmetric]
    using f tiny_positive by (simp add: Let_def)
qed

section \<open>Embeddings\<close>

text \<open>\<open>L2Normalize\<close> and \<open>Similarity\<close>, over vectors of 512 values.\<close>

definition embedding_norm :: "cfloat list \<Rightarrow> cfloat" where
  "embedding_norm raw =
     fsqrt F (fadd F (foldl (\<lambda>n x. fadd F n (fmul F x x)) (Fin 0) raw) (fl F (1 / 10000000000)))"

definition l2_normalize :: "cfloat list \<Rightarrow> cfloat list" where
  "l2_normalize raw = map (\<lambda>x. fdiv F x (embedding_norm raw)) raw"

definition arcface_similarity :: "cfloat list \<Rightarrow> cfloat list \<Rightarrow> cfloat" where
  "arcface_similarity a b = foldl (\<lambda>dot (x, y). fadd F dot (fmul F x y)) (Fin 0) (zip a b)"

end
