(* ===== verification/FaceInfer.thy ===== *)
theory FaceInfer
  imports FaceDecode Strings
begin

text \<open>
  The face pipeline of one frame (\<open>face_infer/FaceProcessor.cpp\<close> with \<open>ArcFaceInfer.cpp\<close>,
  the letterbox of \<open>FacePreprocess.cpp\<close>) and its configuration
  (\<open>config/FaceConfigLoader.hpp\<close>). The GPU kernels and the QNN runtime answer through
  arguments: whether a call succeeds, and the tensors it gives. What the class owns are
  those two engines; a thrown exception is a value.
\<close>

section \<open>Configuration\<close>

record face_config =
  fc_qnn_backend :: string
  fc_qnn_system :: string
  fc_scrfd_model :: string
  fc_arcface_model :: string
  fc_kernel_path :: string
  fc_conf :: cfloat
  fc_nms :: cfloat
  fc_max_faces :: int

definition face_max_detections :: int where "face_max_detections = 32"
definition face_embedding_dim :: nat where "face_embedding_dim = 512"

definition face_config_default :: face_config where
  "face_config_default = \<lparr>fc_qnn_backend = ''/usr/lib/libQnnHtp.so'', fc_qnn_system = ''/usr/lib/libQnnSystem.so'',
     fc_scrfd_model = [], fc_arcface_model = [], fc_kernel_path = [], fc_conf = fl F (1 / 2), fc_nms = fl F (2 / 5),
     fc_max_faces = face_max_detections\<rparr>"

definition quoted_key :: "string \<Rightarrow> string" where
  "quoted_key key = [CHR 0x22] @ key @ [CHR 0x22]"

definition after_colon :: "string \<Rightarrow> string \<Rightarrow> nat option" where
  "after_colon line key =
     (case find_from (quoted_key key) line 0 of
        None \<Rightarrow> None
      | Some pos \<Rightarrow> map_option Suc (find_from '':'' line (pos + length (quoted_key key))))"

definition parse_json_string :: "string \<Rightarrow> string \<Rightarrow> string option" where
  "parse_json_string line key =
     (case after_colon line key of
        None \<Rightarrow> None
      | Some start \<Rightarrow>
          (case find_from [CHR 0x22] line start of
             None \<Rightarrow> None
           | Some q1 \<Rightarrow>
               (case find_from [CHR 0x22] line (q1 + 1) of
                  None \<Rightarrow> None
                | Some q2 \<Rightarrow> Some (take (q2 - q1 - 1) (drop (q1 + 1) line)))))"

text \<open>\<open>strtod\<close> on the rest of the line: None when it converts nothing.\<close>

definition parse_json_number :: "(string \<Rightarrow> cfloat option) \<Rightarrow> string \<Rightarrow> string \<Rightarrow> cfloat option" where
  "parse_json_number strtod line key =
     (case after_colon line key of
        None \<Rightarrow> None
      | Some start \<Rightarrow> strtod (dropWhile (\<lambda>c. c = CHR '' '' \<or> c = CHR 0x09) (drop start line)))"

definition resolve_path :: "string \<Rightarrow> string \<Rightarrow> string" where
  "resolve_path dir path = (if path = [] \<or> hd path = CHR ''/'' then path else dir @ ''/'' @ path)"

definition dir_of :: "string \<Rightarrow> string" where
  "dir_of path =
     (if CHR ''/'' \<notin> set path then ''.''
      else butlast (rev (dropWhile (\<lambda>c. c \<noteq> CHR ''/'') (rev path))))"

text \<open>
  \<open>static_cast<int>\<close> of a floating value: truncation; out of range (undefined in C) it
  saturates, as the AArch64 instruction does.
\<close>

fun i32_of_float :: "cfloat \<Rightarrow> int" where
  "i32_of_float (Fin q) = max (- 2147483648) (min 2147483647 (if q < 0 then \<lceil>q\<rceil> else \<lfloor>q\<rfloor>))"
| "i32_of_float PInf = 2147483647"
| "i32_of_float NInf = - 2147483648"
| "i32_of_float NaN = 0"

definition config_line :: "(string \<Rightarrow> cfloat option) \<Rightarrow> string \<Rightarrow> face_config \<Rightarrow> string \<Rightarrow> face_config" where
  "config_line strtod dir c line =
     (case parse_json_string line ''scrfd_model'' of Some v \<Rightarrow> c\<lparr>fc_scrfd_model := resolve_path dir v\<rparr> | None \<Rightarrow>
     (case parse_json_string line ''arcface_model'' of Some v \<Rightarrow> c\<lparr>fc_arcface_model := resolve_path dir v\<rparr> | None \<Rightarrow>
     (case parse_json_string line ''opencl_kernel_path'' of Some v \<Rightarrow> c\<lparr>fc_kernel_path := resolve_path dir v\<rparr> | None \<Rightarrow>
     (case parse_json_string line ''qnn_backend'' of Some v \<Rightarrow> c\<lparr>fc_qnn_backend := v\<rparr> | None \<Rightarrow>
     (case parse_json_string line ''qnn_system'' of Some v \<Rightarrow> c\<lparr>fc_qnn_system := v\<rparr> | None \<Rightarrow>
     (case parse_json_number strtod line ''conf_threshold'' of Some x \<Rightarrow> c\<lparr>fc_conf := to_float x\<rparr> | None \<Rightarrow>
     (case parse_json_number strtod line ''nms_threshold'' of Some x \<Rightarrow> c\<lparr>fc_nms := to_float x\<rparr> | None \<Rightarrow>
     (case parse_json_number strtod line ''max_faces'' of Some x \<Rightarrow> c\<lparr>fc_max_faces := i32_of_float x\<rparr> | None \<Rightarrow> c))))))))"

text \<open>The file is the lines \<open>std::getline\<close> gives, None when it cannot be opened.\<close>

definition load_face_config ::
  "(string \<Rightarrow> cfloat option) \<Rightarrow> string \<Rightarrow> string list option \<Rightarrow> face_config \<Rightarrow> face_config option" where
  "load_face_config strtod json_path file cfg =
     (case file of
        None \<Rightarrow> None
      | Some ls \<Rightarrow>
          let c = foldl (config_line strtod (dir_of json_path)) cfg ls
          in if fc_scrfd_model c = [] \<or> fc_kernel_path c = [] then None else Some c)"

section \<open>The letterbox\<close>

record plane_info =
  pi_frame_len :: u32
  pi_y_offset :: u32
  pi_uv_offset :: u32
  pi_y_stride :: u32
  pi_uv_stride :: u32
  pi_width :: u32
  pi_height :: u32

definition float_u32 :: "u32 \<Rightarrow> cfloat" where
  "float_u32 w = fl F (of_nat (unat w))"

definition letterbox :: "plane_info \<Rightarrow> int \<times> int \<times> cfloat" where
  "letterbox p =
     (let im_ratio = fdiv F (float_u32 (pi_height p)) (float_u32 (pi_width p));
          (new_w, new_h) =
            (if flt (Fin 1) im_ratio then (i32_of_float (fdiv F (Fin 640) im_ratio), 640)
             else (640, i32_of_float (fmul F (Fin 640) im_ratio)));
          new_w = min new_w 640; new_h = min new_h 640
      in (new_w, new_h, fdiv F (float_u32 (pi_width p)) (float_of_int new_w)))"

section \<open>The embedding engine\<close>

record arcface =
  af_live :: bool
  af_initialized :: bool

text \<open>What the QNN runtime answers to \<open>Init\<close>: whether it loads, its output tensors, the size of the first.\<close>

record arc_init_env =
  ai_qnn_ok :: bool
  ai_outputs :: u32
  ai_size :: u32

definition arc_destroy :: "arcface \<Rightarrow> arcface" where
  "arc_destroy a = \<lparr>af_live = False, af_initialized = False\<rparr>"

definition arc_init :: "arc_init_env \<Rightarrow> arcface \<Rightarrow> bool \<times> arcface" where
  "arc_init env a =
     (if af_initialized a then (False, a)
      else if \<not> ai_qnn_ok env then (False, a)
      else
        let a = a\<lparr>af_live := True\<rparr> in
        if ai_outputs env \<noteq> 1 then (False, arc_destroy a)
        else if ai_size env \<noteq> 512 then (False, arc_destroy a)
        else (True, a\<lparr>af_initialized := True\<rparr>))"

text \<open>The runtime's answer to one execution: whether it succeeds, and its output buffer.\<close>

definition arc_infer :: "bool \<times> cfloat list option \<Rightarrow> arcface \<Rightarrow> cfloat list option" where
  "arc_infer ans a =
     (if \<not> af_initialized a then None
      else if \<not> fst ans then None
      else map_option l2_normalize (snd ans))"

section \<open>FaceProcessor\<close>

record face_processor =
  fp_config :: face_config
  fp_gpu :: bool
  fp_scrfd :: bool
  fp_arcface :: arcface
  fp_arcface_enabled :: bool
  fp_initialized :: bool

definition face_processor_new :: face_processor where
  "face_processor_new = \<lparr>fp_config = face_config_default, fp_gpu = False, fp_scrfd = False,
     fp_arcface = \<lparr>af_live = False, af_initialized = False\<rparr>, fp_arcface_enabled = False, fp_initialized = False\<rparr>"

record init_env =
  ie_loader_ok :: bool
  ie_gpu_ok :: bool
  ie_scrfd_ok :: bool
  ie_arc :: arc_init_env

definition fp_init :: "init_env \<Rightarrow> face_config \<Rightarrow> face_processor \<Rightarrow> bool \<times> face_processor" where
  "fp_init env cfg p =
     (if fp_initialized p then (False, p)
      else
        let p = p\<lparr>fp_config := cfg\<rparr> in
        if \<not> ie_loader_ok env then (False, p)
        else if \<not> ie_gpu_ok env then (False, p)
        else
          let p = p\<lparr>fp_gpu := True\<rparr> in
          if \<not> ie_scrfd_ok env then (False, p\<lparr>fp_gpu := False\<rparr>)
          else
            let p = p\<lparr>fp_scrfd := True, fp_arcface_enabled := fc_arcface_model cfg \<noteq> []\<rparr>;
                p = (if fp_arcface_enabled p then
                       (let (ok, a) = arc_init (ie_arc env) (fp_arcface p)
                        in p\<lparr>fp_arcface := a, fp_arcface_enabled := ok\<rparr>)
                     else p)
            in (True, p\<lparr>fp_initialized := True\<rparr>))"

definition fp_destroy :: "face_processor \<Rightarrow> face_processor" where
  "fp_destroy p =
     (if \<not> fp_initialized p then p
      else p\<lparr>fp_arcface := arc_destroy (fp_arcface p), fp_scrfd := False, fp_gpu := False,
             fp_initialized := False, fp_arcface_enabled := False\<rparr>)"

text \<open>
  One frame's answers: the preprocessing kernel, the detector's execution, its tensors (None is a
  null pointer); for the crop by an affine matrix, whether the kernel succeeds, and what the
  embedding engine answers to the cropped picture.
\<close>

record frame_env =
  fr_scrfd_kernel_ok :: bool
  fr_scrfd_ok :: bool
  fr_outputs :: u32
  fr_tensor :: "nat \<Rightarrow> (nat \<Rightarrow> cfloat) option"
  fr_crop_ok :: "cfloat list \<Rightarrow> bool"
  fr_arc :: "cfloat list \<Rightarrow> bool \<times> cfloat list option"

text \<open>The library functions the decoder calls.\<close>

record decode_lib =
  dl_exp :: "cfloat \<Rightarrow> cfloat"
  dl_sort :: "face_det list \<Rightarrow> face_det list"

text \<open>The one exception: a vector of negative length, from a negative \<open>max_faces\<close>.\<close>

datatype face_exn = Length_Error

definition detect_faces ::
  "decode_lib \<Rightarrow> frame_env \<Rightarrow> plane_info \<Rightarrow> face_processor \<Rightarrow> face_exn + face_det list" where
  "detect_faces L env plane p =
     (if \<not> fr_scrfd_kernel_ok env then Inr []
      else if \<not> fr_scrfd_ok env then Inr []
      else if fr_outputs env < 9 then Inr []
      else if \<exists>i \<in> set [0..<9]. fr_tensor env i = None then Inr []
      else
        let max_dets = min (fc_max_faces (fp_config p)) face_max_detections in
        if max_dets < 0 then Inl Length_Error
        else Inr (scrfd_decode (dl_exp L) (dl_sort L) (\<lambda>i. the (fr_tensor env i)) (snd (snd (letterbox plane)))
               (int_of_u32 (pi_width plane)) (int_of_u32 (pi_height plane))
               (fc_conf (fp_config p)) (fc_nms (fp_config p)) max_dets))"

definition extract_embedding :: "frame_env \<Rightarrow> face_processor \<Rightarrow> face_det \<Rightarrow> cfloat list option" where
  "extract_embedding env p det =
     (let inv = compute_inverse_affine (fd_landmarks det)
      in if \<not> fr_crop_ok env inv then None else arc_infer (fr_arc env inv) (fp_arcface p))"

definition face_embedding :: "frame_env \<Rightarrow> face_processor \<Rightarrow> face_det \<Rightarrow> cfloat list" where
  "face_embedding env p det =
     (if fp_arcface_enabled p then
        (case extract_embedding env p det of
           None \<Rightarrow> replicate face_embedding_dim (Fin 0)
         | Some e \<Rightarrow> e)
      else replicate face_embedding_dim (Fin 0))"

definition process_frame ::
  "decode_lib \<Rightarrow> frame_env \<Rightarrow> plane_info \<Rightarrow> face_processor \<Rightarrow> face_exn + (face_det \<times> cfloat list) list" where
  "process_frame L env plane p =
     (if \<not> fp_initialized p then Inr []
      else
        case detect_faces L env plane p of
          Inl e \<Rightarrow> Inl e
        | Inr dets \<Rightarrow> Inr (map (\<lambda>d. (d, face_embedding env p d)) dets))"

section \<open>What the processor owns\<close>

text \<open>
  Initialised, it owns both engines it needs, and the embedding engine exactly when it is
  enabled; otherwise it owns nothing.
\<close>

definition fp_wf :: "face_processor \<Rightarrow> bool" where
  "fp_wf p \<longleftrightarrow>
     fp_gpu p = fp_initialized p \<and> fp_scrfd p = fp_initialized p \<and>
     af_live (fp_arcface p) = fp_arcface_enabled p \<and> af_initialized (fp_arcface p) = fp_arcface_enabled p \<and>
     (fp_arcface_enabled p \<longrightarrow> fp_initialized p)"

datatype fp_op = Fp_Init init_env face_config | Fp_Destroy

fun fp_step :: "face_processor \<Rightarrow> fp_op \<Rightarrow> face_processor" where
  "fp_step p (Fp_Init env cfg) = snd (fp_init env cfg p)"
| "fp_step p Fp_Destroy = fp_destroy p"

lemma fp_init_wf: "fp_wf p \<Longrightarrow> fp_wf (snd (fp_init env cfg p))"
  by (auto simp: fp_wf_def fp_init_def arc_init_def arc_destroy_def Let_def split: prod.splits)

lemma fp_init_result:
  "fp_init env cfg p = (ok, p') \<Longrightarrow> fp_wf p \<Longrightarrow> fp_wf p'"
  "fp_init env cfg p = (True, p') \<Longrightarrow> fp_initialized p'"
  using fp_init_wf [of p env cfg] by (auto simp: fp_init_def Let_def split: if_splits prod.splits)

lemma fp_destroy_wf: "fp_wf p \<Longrightarrow> fp_wf (fp_destroy p)"
  by (auto simp: fp_wf_def fp_destroy_def arc_destroy_def)

interpretation fp_sys: step_system fp_step fp_wf
proof
  fix p x assume "fp_wf p"
  then show "fp_wf (fp_step p x)" by (cases x) (auto intro: fp_init_wf fp_destroy_wf)
qed

text \<open>
  The processor leaks no engine: after any sequence of initialisations (each failing wherever
  it may: loader, GPU, detector, embedding model or the shape of its output) and destructions,
  it owns the GPU and the detector exactly if it is initialised, the embedding engine exactly if
  it reports it enabled, and after a final destruction nothing; and an initialisation succeeds
  exactly when it was not initialised and the loader, the GPU and the detector answer well,
  whatever the embedding model does.
\<close>

theorem face_processor_resources:
  "let p = foldl fp_step face_processor_new ops in
     fp_wf p \<and>
     (let z = fp_destroy p in \<not> fp_gpu z \<and> \<not> fp_scrfd z \<and> \<not> af_live (fp_arcface z)) \<and>
     (fst (fp_init env cfg p) \<longleftrightarrow> \<not> fp_initialized p \<and> ie_loader_ok env \<and> ie_gpu_ok env \<and> ie_scrfd_ok env)"
proof -
  have "fp_wf face_processor_new" by (simp add: fp_wf_def face_processor_new_def)
  then have wf: "fp_wf (foldl fp_step face_processor_new ops)" by (rule fp_sys.run_inv)
  then show ?thesis
    by (auto simp: Let_def fp_wf_def fp_destroy_def arc_destroy_def fp_init_def split: prod.splits)
qed

section \<open>What a frame yields\<close>

text \<open>The letterbox fits the square of the network, and one side fills it.\<close>

lemma letterbox_fits:
  "let (w, h, scale) = letterbox p in w \<le> 640 \<and> h \<le> 640 \<and> (w = 640 \<or> h = 640)"
  by (auto simp: letterbox_def Let_def)

text \<open>A configuration that loads names both required files.\<close>

lemma loaded_config_required:
  "load_face_config strtod path file cfg = Some c \<Longrightarrow> fc_scrfd_model c \<noteq> [] \<and> fc_kernel_path c \<noteq> []"
  by (auto simp: load_face_config_def Let_def split: option.splits if_splits)

text \<open>
  A frame either reports faces or dies of the one exception, and the exception happens only
  when the configured number of faces is negative. Otherwise at most 32 faces and at most the configured number come
  out, and each embedding is the normalised output of the network or 512 zeros, zeros
  exactly when recognition is off or failed for this face.
\<close>

theorem process_frame_outcome:
  assumes "fp_initialized p"
  shows "case process_frame L env plane p of
     Inl e \<Rightarrow> fc_max_faces (fp_config p) < 0
   | Inr rs \<Rightarrow> int (length rs) \<le> max 0 (min 32 (fc_max_faces (fp_config p))) \<and>
       (\<forall>(d, emb) \<in> set rs.
          (if fp_arcface_enabled p \<and> extract_embedding env p d \<noteq> None
           then \<exists>raw. snd (fr_arc env (compute_inverse_affine (fd_landmarks d))) = Some raw \<and> emb = l2_normalize raw
           else emb = replicate 512 (Fin 0)))"
proof -
  have len: "int (length (scrfd_decode ex so t sc w h cf th n)) \<le> n" if "0 \<le> n" "n \<le> 32" for ex so t sc w h cf th n
  proof -
    have "unat (u64_of_int n) = nat n" using that by (simp add: unat_u64_of_int)
    then show ?thesis using that by (simp add: scrfd_decode_def Let_def)
  qed
  have emb: "if fp_arcface_enabled p \<and> extract_embedding env p d \<noteq> None
      then \<exists>raw. snd (fr_arc env (compute_inverse_affine (fd_landmarks d))) = Some raw \<and> face_embedding env p d = l2_normalize raw
      else face_embedding env p d = replicate 512 (Fin 0)" for d
    by (auto simp: face_embedding_def extract_embedding_def arc_infer_def face_embedding_dim_def Let_def
        split: option.splits if_splits)
  show ?thesis
    using assms emb len [of "min (fc_max_faces (fp_config p)) 32"]
    by (auto simp: process_frame_def detect_faces_def face_max_detections_def Let_def min.commute split: if_splits)
qed

definition good_env :: init_env where
  "good_env = \<lparr>ie_loader_ok = True, ie_gpu_ok = True, ie_scrfd_ok = True,
     ie_arc = \<lparr>ai_qnn_ok = True, ai_outputs = 1, ai_size = 512\<rparr>\<rparr>"

definition good_frame :: frame_env where
  "good_frame = \<lparr>fr_scrfd_kernel_ok = True, fr_scrfd_ok = True, fr_outputs = 9,
     fr_tensor = (\<lambda>t. Some (\<lambda>i. if t < 3 \<and> i = 0 then Fin (9 / 10) else Fin 0)),
     fr_crop_ok = (\<lambda>m. True), fr_arc = (\<lambda>m. (True, Some (replicate 512 (Fin 1))))\<rparr>"

definition vga_plane :: plane_info where
  "vga_plane = \<lparr>pi_frame_len = 460800, pi_y_offset = 0, pi_uv_offset = 307200, pi_y_stride = 640,
     pi_uv_stride = 640, pi_width = 640, pi_height = 480\<rparr>"

definition example_processor :: "int \<Rightarrow> face_processor" where
  "example_processor n =
     snd (fp_init good_env (face_config_default\<lparr>fc_arcface_model := ''m'', fc_max_faces := n\<rparr>) face_processor_new)"

lemma example_processor_simps [simp]:
  "fp_initialized (example_processor n)" "fc_max_faces (fp_config (example_processor n)) = n"
  "fp_arcface_enabled (example_processor n)"
  by (simp_all add: example_processor_def fp_init_def good_env_def arc_init_def face_processor_new_def Let_def)

theorem process_frame_outcome_witness:
  "case process_frame \<lparr>dl_exp = (\<lambda>x. Fin 1), dl_sort = det_sort\<rparr> good_frame vga_plane (example_processor 4) of
     Inl e \<Rightarrow> False | Inr rs \<Rightarrow> length rs \<le> 4"
  using process_frame_outcome [where p = "example_processor 4" and env = good_frame and plane = vga_plane
      and L = "\<lparr>dl_exp = (\<lambda>x. Fin 1), dl_sort = det_sort\<rparr>"]
  by (simp split: sum.splits)

text \<open>A configured negative number of faces, which the loader accepts, ends the process at the first frame.\<close>

lemma negative_max_faces_throws:
  "n < 0 \<Longrightarrow> process_frame L good_frame plane (example_processor n) = Inl Length_Error"
  by (simp add: process_frame_def detect_faces_def good_frame_def face_max_detections_def Let_def)

end
