(* ===== verification/MsgAgg.thy ===== *)
theory MsgAgg
  imports JsonlWriter
begin

text \<open>
  The element that merges the JSON streams of all cameras into one
  (\<open>msg_agg/gst_plugin/gstmsgagg.cpp\<close>). Every critical section of its mutex is one operation:
  the pads' chain and event handlers, request and release of pads, the state changes of the
  element, and the sections of the worker between two waits. The threads interleave in any
  order, which is the relation \<open>ma_step\<close>; its labels are what an observer sees. The JSON
  library (json-glib) is an argument.
\<close>

section \<open>State\<close>

record data_pad =
  dp_idx :: u32
  dp_queue :: "string list"
  dp_eos :: bool

datatype task_state = TaskStopped | TaskStarted | TaskPaused

text \<open>The worker is outside its function, or waits in its first or its second loop.\<close>

datatype worker_place = OutsideTask | FirstWait | SecondWait

record msg_agg =
  ma_pads :: "data_pad list"
  ma_next :: u32
  ma_active :: bool
  ma_started :: bool
  ma_timeout_ms :: u32
  ma_merge :: bool
  ma_batches :: u64
  ma_timeouts :: u64
  ma_holes :: u64
  ma_holes_eos :: u64
  ma_holes_timeout :: u64
  ma_task :: task_state
  ma_place :: worker_place

definition agg_init :: msg_agg where
  "agg_init = \<lparr>ma_pads = [], ma_next = 0, ma_active = False, ma_started = False, ma_timeout_ms = 500,
     ma_merge = False, ma_batches = 0, ma_timeouts = 0, ma_holes = 0, ma_holes_eos = 0, ma_holes_timeout = 0,
     ma_task = TaskStopped, ma_place = OutsideTask\<rparr>"

definition pad_init :: "u32 \<Rightarrow> data_pad" where
  "pad_init i = \<lparr>dp_idx = i, dp_queue = [], dp_eos = False\<rparr>"

definition set_timeout :: "u32 \<Rightarrow> msg_agg \<Rightarrow> msg_agg" where
  "set_timeout t m = m\<lparr>ma_timeout_ms := t\<rparr>"

definition set_merge :: "bool \<Rightarrow> msg_agg \<Rightarrow> msg_agg" where
  "set_merge b m = m\<lparr>ma_merge := b\<rparr>"

definition all_pads_have_data :: "msg_agg \<Rightarrow> bool" where
  "all_pads_have_data m \<longleftrightarrow> ma_pads m \<noteq> [] \<and> (\<forall>p \<in> set (ma_pads m). dp_eos p \<or> dp_queue p \<noteq> [])"

definition all_pads_eos :: "msg_agg \<Rightarrow> bool" where
  "all_pads_eos m \<longleftrightarrow> ma_pads m \<noteq> [] \<and> (\<forall>p \<in> set (ma_pads m). dp_eos p)"

definition any_pad_has_data :: "msg_agg \<Rightarrow> bool" where
  "any_pad_has_data m \<longleftrightarrow> (\<exists>p \<in> set (ma_pads m). dp_queue p \<noteq> [])"

section \<open>Pads\<close>

text \<open>
  \<open>sscanf\<close> with \<open>"data_%u"\<close>: the literal, white space, a sign, decimal digits; the value is
  that of \<open>strtoul\<close> stored in 32 bits.
\<close>

definition is_space :: "char \<Rightarrow> bool" where
  "is_space c \<longleftrightarrow> c \<in> {CHR '' '', CHR 0x09, CHR 0x0A, CHR 0x0B, CHR 0x0C, CHR 0x0D}"

definition scan_unsigned :: "string \<Rightarrow> u32 option" where
  "scan_unsigned s =
     (let s = dropWhile is_space s;
          neg = (s \<noteq> [] \<and> hd s = CHR ''-'');
          s = (if s \<noteq> [] \<and> (hd s = CHR ''-'' \<or> hd s = CHR ''+'') then tl s else s);
          ds = takeWhile is_digit s;
          v = read_nat ds
      in if ds = [] then None
         else if v \<ge> 2 ^ 64 then Some (- 1)
         else Some (if neg then - of_nat v else of_nat v))"

definition scan_data_idx :: "string \<Rightarrow> u32 option" where
  "scan_data_idx s = (if prefix ''data_'' s then scan_unsigned (drop 5 s) else None)"

text \<open>\<open>made\<close>: the object could be created. Adding a pad fails when the element has one of that name.\<close>

definition request_pad :: "bool \<Rightarrow> string option \<Rightarrow> msg_agg \<Rightarrow> u32 option \<times> msg_agg" where
  "request_pad made reqname m =
     (let (index, nextindex) =
            (case (case reqname of None \<Rightarrow> None | Some s \<Rightarrow> scan_data_idx s) of
               Some i \<Rightarrow> (i, if i \<ge> ma_next m then i + 1 else ma_next m)
             | None \<Rightarrow> (ma_next m, ma_next m + 1))
      in if \<not> made then (None, m)
         else if index \<in> dp_idx ` set (ma_pads m) then (None, m)
         else (Some index, m\<lparr>ma_pads := ma_pads m @ [pad_init index], ma_next := nextindex\<rparr>))"

definition release_pad :: "u32 \<Rightarrow> msg_agg \<Rightarrow> msg_agg" where
  "release_pad i m = m\<lparr>ma_pads := filter (\<lambda>p. dp_idx p \<noteq> i) (ma_pads m)\<rparr>"

definition update_pad :: "u32 \<Rightarrow> (data_pad \<Rightarrow> data_pad) \<Rightarrow> msg_agg \<Rightarrow> msg_agg" where
  "update_pad i f m = m\<lparr>ma_pads := map (\<lambda>p. if dp_idx p = i then f p else p) (ma_pads m)\<rparr>"

text \<open>
  The chain function. The buffer is None when it cannot be mapped; \<open>g_strndup\<close> copies up to
  the first zero byte. The result says whether the flow goes on.
\<close>

definition c_text :: "string \<Rightarrow> string" where
  "c_text s = takeWhile (\<lambda>c. c \<noteq> CHR 0x00) s"

definition data_chain :: "u32 \<Rightarrow> string option \<Rightarrow> msg_agg \<Rightarrow> bool \<times> msg_agg" where
  "data_chain i buffer m =
     (case buffer of
        None \<Rightarrow> (False, m)
      | Some s \<Rightarrow> (True, update_pad i (\<lambda>p. p\<lparr>dp_queue := dp_queue p @ [c_text s]\<rparr>) m))"

datatype pad_event = EvStreamStart | EvEos | EvCaps | EvSegment

definition data_event :: "u32 \<Rightarrow> pad_event \<Rightarrow> msg_agg \<Rightarrow> msg_agg" where
  "data_event i e m = (case e of EvEos \<Rightarrow> update_pad i (\<lambda>p. p\<lparr>dp_eos := True\<rparr>) m | _ \<Rightarrow> m)"

section \<open>Batches\<close>

text \<open>
  The JSON library: parsing answers None on an error and Some None for a text without a
  root; printing may answer no text. The largest frame number, which the code computes here
  and never uses, is left out.
\<close>

record glib_json =
  gj_parse :: "string \<Rightarrow> json option option"
  gj_print :: "json \<Rightarrow> string option"

definition merge_sources :: "glib_json \<Rightarrow> data_pad list \<Rightarrow> json list" where
  "merge_sources G ps =
     concat (map (\<lambda>p. case dp_queue p of
                        [] \<Rightarrow> []
                      | text # _ \<Rightarrow>
                          (case gj_parse G text of
                             Some (Some (JObj kvs)) \<Rightarrow> [JObj kvs]
                           | _ \<Rightarrow> [])) ps)"

definition build_scene_merge :: "glib_json \<Rightarrow> data_pad list \<Rightarrow> string option" where
  "build_scene_merge G ps =
     gj_print G (JObj [(''type'', JStr ''scene_update''), (''sources'', JArr (merge_sources G ps))])"

text \<open>The loop of the other mode: the text so far and the counters of the missing pads.\<close>

fun batch_loop :: "data_pad list \<Rightarrow> string \<Rightarrow> msg_agg \<Rightarrow> string \<times> msg_agg" where
  "batch_loop [] text m = (text, m)"
| "batch_loop (p # ps) text m =
     (let text = (if length text > 1 then text @ '','' else text) in
      case dp_queue p of
        json # _ \<Rightarrow> batch_loop ps (text @ json) m
      | [] \<Rightarrow>
          (let m = m\<lparr>ma_holes := ma_holes m + 1\<rparr>;
               m = (if dp_eos p then m\<lparr>ma_holes_eos := ma_holes_eos m + 1\<rparr>
                    else m\<lparr>ma_holes_timeout := ma_holes_timeout m + 1\<rparr>)
           in batch_loop ps (text @ ''{}'') m))"

definition pop_head :: "data_pad \<Rightarrow> data_pad" where
  "pop_head p = p\<lparr>dp_queue := tl (dp_queue p)\<rparr>"

datatype out_item = OutStart string | OutCaps | OutSegment | OutText string | OutEos

definition stream_head :: "string \<Rightarrow> out_item list" where
  "stream_head name = [OutStart (''qtimsgagg-'' @ name), OutCaps, OutSegment]"

text \<open>What a step shows; a batch shows the mode, the front of every pad, and what it pushes.\<close>

datatype agg_label =
    Requested u32
  | Released u32
  | Chained u32 string
  | GotEos u32
  | Batch bool "(u32 \<times> string option) list" "out_item list"
  | SentEos "out_item list"
  | Restart
  | Silent

definition fronts :: "data_pad list \<Rightarrow> (u32 \<times> string option) list" where
  "fronts ps = map (\<lambda>p. (dp_idx p, case dp_queue p of [] \<Rightarrow> None | s # _ \<Rightarrow> Some s)) ps"

text \<open>
  The third phase and the push that follows it, once the lock is released; only the worker
  pushes. \<open>allocated\<close>: the buffer of the merged text could be had; without it the batch is
  lost. The other mode wraps its text without a copy.
\<close>

definition phase3 :: "glib_json \<Rightarrow> string \<Rightarrow> bool \<Rightarrow> msg_agg \<Rightarrow> agg_label \<times> msg_agg" where
  "phase3 G name allocated m =
     (let (text, m') =
            (if ma_merge m
             then ((case build_scene_merge G (ma_pads m) of
                      Some t \<Rightarrow> t
                    | None \<Rightarrow> [CHR ''{'', CHR 0x22] @ ''type'' @ [CHR 0x22, CHR '':'', CHR 0x22] @ ''scene_update'' @
                        [CHR 0x22, CHR '','', CHR 0x22] @ ''sources'' @ [CHR 0x22] @ '':[]}''), m)
             else (let (t, m') = batch_loop (ma_pads m) ''{'' m in (t @ ''}'', m')));
          m' = m'\<lparr>ma_pads := map pop_head (ma_pads m), ma_batches := ma_batches m + 1, ma_place := OutsideTask\<rparr>
      in if ma_merge m \<and> \<not> allocated then (Batch True (fronts (ma_pads m)) [], m')
         else (Batch (ma_merge m) (fronts (ma_pads m))
                 ((if ma_started m then [] else stream_head name) @ [OutText text]),
               m'\<lparr>ma_started := True\<rparr>))"

text \<open>
  The sections of the worker. \<open>phase1\<close> runs when the worker holds the lock in its first loop,
  \<open>phase2\<close> in its second; a loop that goes on waiting changes nothing.
\<close>

definition phase1 :: "glib_json \<Rightarrow> string \<Rightarrow> bool \<Rightarrow> msg_agg \<Rightarrow> agg_label \<times> msg_agg" where
  "phase1 G name allocated m =
     (if ma_active m \<and> \<not> any_pad_has_data m \<and> \<not> all_pads_eos m then (Silent, m\<lparr>ma_place := FirstWait\<rparr>)
      else if \<not> ma_active m then (Silent, m\<lparr>ma_place := OutsideTask\<rparr>)
      else if all_pads_eos m \<and> \<not> any_pad_has_data m then
        (SentEos ((if ma_started m then [] else stream_head name) @ [OutEos]),
         m\<lparr>ma_started := True, ma_task := TaskPaused, ma_place := OutsideTask\<rparr>)
      else if \<not> all_pads_have_data m then (Silent, m\<lparr>ma_place := SecondWait\<rparr>)
      else phase3 G name allocated m)"

definition phase2 :: "glib_json \<Rightarrow> string \<Rightarrow> bool \<Rightarrow> bool \<Rightarrow> msg_agg \<Rightarrow> agg_label \<times> msg_agg" where
  "phase2 G name allocated timed_out m =
     (if ma_active m \<and> \<not> all_pads_have_data m \<and> \<not> all_pads_eos m \<and> \<not> timed_out then (Silent, m)
      else if \<not> ma_active m then (Silent, m\<lparr>ma_place := OutsideTask\<rparr>)
      else phase3 G name allocated
        (if all_pads_have_data m then m else m\<lparr>ma_timeouts := ma_timeouts m + 1\<rparr>))"

section \<open>State changes of the element\<close>

text \<open>\<open>ok\<close>: the base class went along. Going down stops the worker first and waits for it.\<close>

definition go_up :: "bool \<Rightarrow> msg_agg \<Rightarrow> msg_agg" where
  "go_up ok m = (if ok then m\<lparr>ma_active := True, ma_task := TaskStarted\<rparr> else m)"

definition go_down_begin :: "msg_agg \<Rightarrow> msg_agg" where
  "go_down_begin m = m\<lparr>ma_active := False, ma_task := TaskPaused\<rparr>"

definition go_down_end :: "msg_agg \<Rightarrow> msg_agg" where
  "go_down_end m = m\<lparr>ma_task := TaskStopped,
     ma_pads := map (\<lambda>p. p\<lparr>dp_queue := [], dp_eos := False\<rparr>) (ma_pads m),
     ma_batches := 0, ma_timeouts := 0, ma_holes := 0, ma_holes_eos := 0, ma_holes_timeout := 0,
     ma_started := False\<rparr>"

section \<open>Interleaving\<close>

text \<open>
  The element is in READY exactly while the task is stopped. A request, release, chain or
  event call, a state change and a section of the worker each take one step.
\<close>

inductive ma_step :: "glib_json \<Rightarrow> string \<Rightarrow> agg_label \<Rightarrow> msg_agg \<Rightarrow> msg_agg \<Rightarrow> bool" for G name where
  st_request: "request_pad made req m = (Some i, m') \<Longrightarrow> ma_step G name (Requested i) m m'"
| st_refused: "request_pad made req m = (None, m') \<Longrightarrow> ma_step G name Silent m m'"
| st_release: "i \<in> dp_idx ` set (ma_pads m) \<Longrightarrow> ma_step G name (Released i) m (release_pad i m)"
| st_chain: "i \<in> dp_idx ` set (ma_pads m) \<Longrightarrow> data_chain i (Some s) m = (True, m') \<Longrightarrow>
    ma_step G name (Chained i (c_text s)) m m'"
| st_chain_failed: "data_chain i None m = (False, m') \<Longrightarrow> ma_step G name Silent m m'"
| st_eos: "i \<in> dp_idx ` set (ma_pads m) \<Longrightarrow> ma_step G name (GotEos i) m (data_event i EvEos m)"
| st_event: "e \<noteq> EvEos \<Longrightarrow> ma_step G name Silent m (data_event i e m)"
| st_timeout: "ma_step G name Silent m (set_timeout t m)"
| st_merge: "ma_step G name Silent m (set_merge b m)"
| st_up: "ma_task m = TaskStopped \<Longrightarrow> ma_step G name Silent m (go_up ok m)"
| st_down: "ma_task m \<noteq> TaskStopped \<Longrightarrow> ma_step G name Silent m (go_down_begin m)"
| st_joined: "ma_task m = TaskPaused \<Longrightarrow> \<not> ma_active m \<Longrightarrow> ma_place m = OutsideTask \<Longrightarrow>
    ma_step G name Restart m (go_down_end m)"
| st_enter: "ma_task m = TaskStarted \<Longrightarrow> ma_place m = OutsideTask \<Longrightarrow> phase1 G name a m = (l, m') \<Longrightarrow>
    ma_step G name l m m'"
| st_first: "ma_place m = FirstWait \<Longrightarrow> phase1 G name a m = (l, m') \<Longrightarrow> ma_step G name l m m'"
| st_second: "ma_place m = SecondWait \<Longrightarrow> phase2 G name a t m = (l, m') \<Longrightarrow> ma_step G name l m m'"

inductive ma_run :: "glib_json \<Rightarrow> string \<Rightarrow> agg_label list \<Rightarrow> msg_agg \<Rightarrow> bool" for G name where
  run_start: "ma_run G name [] agg_init"
| run_step: "ma_run G name ls m \<Longrightarrow> ma_step G name l m m' \<Longrightarrow> ma_run G name (ls @ [l]) m'"

text \<open>The labels behind the last one with a property, and what they say.\<close>

definition since :: "(agg_label \<Rightarrow> bool) \<Rightarrow> agg_label list \<Rightarrow> agg_label list" where
  "since P ls = rev (takeWhile (\<lambda>l. \<not> P l) (rev ls))"

lemma since_snoc [simp]: "since P (ls @ [l]) = (if P l then [] else since P ls @ [l])"
  by (simp add: since_def)

lemma since_Nil [simp]: "since P [] = []"
  by (simp add: since_def)

fun pad_starts :: "u32 \<Rightarrow> agg_label \<Rightarrow> bool" where
  "pad_starts i (Requested j) = (i = j)"
| "pad_starts i Restart = True"
| "pad_starts i _ = False"

fun chained_by :: "u32 \<Rightarrow> agg_label \<Rightarrow> string list" where
  "chained_by i (Chained j s) = (if i = j then [s] else [])"
| "chained_by i _ = []"

fun popped_by :: "u32 \<Rightarrow> agg_label \<Rightarrow> string list" where
  "popped_by i (Batch mg fr its) = concat (map (\<lambda>(j, x). if i = j then (case x of None \<Rightarrow> [] | Some s \<Rightarrow> [s]) else []) fr)"
| "popped_by i _ = []"

definition chained :: "u32 \<Rightarrow> agg_label list \<Rightarrow> string list" where
  "chained i ls = concat (map (chained_by i) (since (pad_starts i) ls))"

definition popped :: "u32 \<Rightarrow> agg_label list \<Rightarrow> string list" where
  "popped i ls = concat (map (popped_by i) (since (pad_starts i) ls))"

fun is_batch :: "agg_label \<Rightarrow> bool" where
  "is_batch (Batch mg fr its) = True"
| "is_batch _ = False"

fun holes_of :: "agg_label \<Rightarrow> nat" where
  "holes_of (Batch False fr its) = length (filter (\<lambda>(i, x). x = None) fr)"
| "holes_of _ = 0"

fun pushed_by :: "agg_label \<Rightarrow> out_item list" where
  "pushed_by (Batch mg fr its) = its"
| "pushed_by (SentEos its) = its"
| "pushed_by _ = []"

definition this_run :: "agg_label list \<Rightarrow> agg_label list" where
  "this_run ls = since (\<lambda>l. l = Restart) ls"

definition run_output :: "agg_label list \<Rightarrow> out_item list" where
  "run_output ls = concat (map pushed_by (this_run ls))"

section \<open>What one step does\<close>

lemma batch_loop_state:
  "snd (batch_loop ps text m) =
     m\<lparr>ma_holes := ma_holes m + of_nat (length (filter (\<lambda>p. dp_queue p = []) ps)),
       ma_holes_eos := ma_holes_eos m + of_nat (length (filter (\<lambda>p. dp_queue p = [] \<and> dp_eos p) ps)),
       ma_holes_timeout := ma_holes_timeout m + of_nat (length (filter (\<lambda>p. dp_queue p = [] \<and> \<not> dp_eos p) ps))\<rparr>"
  by (induction ps "text" m rule: batch_loop.induct)
    (auto simp: Let_def add.assoc split: list.splits)

lemma holes_split:
  "length (filter (\<lambda>p. dp_queue p = []) ps) =
     length (filter (\<lambda>p. dp_queue p = [] \<and> dp_eos p) ps) + length (filter (\<lambda>p. dp_queue p = [] \<and> \<not> dp_eos p) ps)"
  by (induction ps) auto

lemma holes_fronts: "length (filter (\<lambda>(i, x). x = None) (fronts ps)) = length (filter (\<lambda>p. dp_queue p = []) ps)"
  by (induction ps) (auto simp: fronts_def split: list.splits)

text \<open>The two ways a worker's section can end otherwise than waiting or leaving.\<close>

definition batched :: "string \<Rightarrow> agg_label \<Rightarrow> msg_agg \<Rightarrow> msg_agg \<Rightarrow> bool" where
  "batched name l m m' \<longleftrightarrow>
     (\<exists>its. l = Batch (ma_merge m) (fronts (ma_pads m)) its \<and>
        (its = [] \<and> ma_started m' = ma_started m \<or>
         (\<exists>t. its = (if ma_started m then [] else stream_head name) @ [OutText t]) \<and> ma_started m')) \<and>
     ma_active m \<and> ma_pads m' = map pop_head (ma_pads m) \<and> ma_batches m' = ma_batches m + 1 \<and>
     ma_holes m' = ma_holes m + of_nat (holes_of l) \<and>
     ma_holes_eos m' + ma_holes_timeout m' = ma_holes_eos m + ma_holes_timeout m + of_nat (holes_of l) \<and>
     ma_active m' = ma_active m \<and> ma_task m' = ma_task m \<and> ma_next m' = ma_next m"

definition ended :: "string \<Rightarrow> agg_label \<Rightarrow> msg_agg \<Rightarrow> msg_agg \<Rightarrow> bool" where
  "ended name l m m' \<longleftrightarrow>
     l = SentEos ((if ma_started m then [] else stream_head name) @ [OutEos]) \<and>
     all_pads_eos m \<and> \<not> any_pad_has_data m \<and> ma_active m \<and>
     m' = m\<lparr>ma_started := True, ma_task := TaskPaused, ma_place := OutsideTask\<rparr>"

lemma phase3_batched:
  assumes "phase3 G name a m = (l, m')" "ma_active m"
  shows "batched name l m m'"
proof -
  obtain t m1 where b: "batch_loop (ma_pads m) ''{'' m = (t, m1)" by (metis surj_pair)
  have m1: "m1 = snd (batch_loop (ma_pads m) ''{'' m)" using b by simp
  have n: "holes_of (Batch False (fronts (ma_pads m)) its) = length (filter (\<lambda>p. dp_queue p = []) (ma_pads m))" for its
    by (simp add: holes_fronts)
  have h: "ma_holes m1 = ma_holes m + of_nat (length (filter (\<lambda>p. dp_queue p = []) (ma_pads m)))"
    "ma_holes_eos m1 + ma_holes_timeout m1 = ma_holes_eos m + ma_holes_timeout m +
       of_nat (length (filter (\<lambda>p. dp_queue p = []) (ma_pads m)))"
    "ma_active m1 = ma_active m" "ma_task m1 = ma_task m" "ma_next m1 = ma_next m"
    "ma_batches m1 = ma_batches m" "ma_started m1 = ma_started m"
    unfolding m1 batch_loop_state holes_split [of "ma_pads m"] by simp_all
  show ?thesis
  proof (cases "ma_merge m")
    case True
    show ?thesis
      using assms True unfolding phase3_def batched_def Let_def by (auto split: if_splits)
  next
    case False
    then have "l = Batch False (fronts (ma_pads m)) ((if ma_started m then [] else stream_head name) @ [OutText (t @ ''}'')])"
      "m' = m1\<lparr>ma_pads := map pop_head (ma_pads m), ma_batches := ma_batches m1 + 1, ma_place := OutsideTask,
         ma_started := True\<rparr>"
      using assms(1) unfolding phase3_def b Let_def by (auto simp: h)
    with False assms(2) show ?thesis unfolding batched_def by (simp add: h n del: holes_of.simps)
  qed
qed

lemma batched_timeouts [simp]: "batched name l (m\<lparr>ma_timeouts := n\<rparr>) m' = batched name l m m'"
  by (simp add: batched_def)

definition waits :: "agg_label \<Rightarrow> msg_agg \<Rightarrow> msg_agg \<Rightarrow> bool" where
  "waits l m m' \<longleftrightarrow> l = Silent \<and> (\<exists>pl. m' = m\<lparr>ma_place := pl\<rparr>)"

lemma phase1_cases:
  assumes "phase1 G name a m = (l, m')"
  shows "waits l m m' \<or> ended name l m m' \<or> batched name l m m'"
proof (cases "ma_active m \<and> \<not> any_pad_has_data m \<and> \<not> all_pads_eos m \<or> \<not> ma_active m")
  case True
  then show ?thesis using assms by (auto simp: phase1_def waits_def split: if_splits)
next
  case False
  show ?thesis
  proof (cases "all_pads_eos m \<and> \<not> any_pad_has_data m")
    case True
    with False have "ended name l m m'" using assms by (simp add: phase1_def ended_def)
    then show ?thesis by simp
  next
    case no_end: False
    show ?thesis
    proof (cases "all_pads_have_data m")
      case True
      then have "batched name l m m'" using False no_end assms by (intro phase3_batched) (auto simp: phase1_def)
      then show ?thesis by simp
    next
      case nodata: False
      then have "l = Silent" "m' = m\<lparr>ma_place := SecondWait\<rparr>" using False no_end assms by (auto simp: phase1_def)
      then show ?thesis by (auto simp: waits_def)
    qed
  qed
qed

lemma phase2_cases:
  assumes "phase2 G name a t m = (l, m')"
  shows "waits l m m' \<or> batched name l m m'"
proof (cases "ma_active m \<and> \<not> all_pads_have_data m \<and> \<not> all_pads_eos m \<and> \<not> t \<or> \<not> ma_active m")
  case True
  have "m = m\<lparr>ma_place := ma_place m\<rparr>" by simp
  then have same: "waits Silent m m" unfolding waits_def by blast
  have left: "waits Silent m (m\<lparr>ma_place := OutsideTask\<rparr>)" unfolding waits_def by blast
  from True assms have "(l, m') = (Silent, m) \<or> (l, m') = (Silent, m\<lparr>ma_place := OutsideTask\<rparr>)"
    unfolding phase2_def by (simp split: if_split_asm)
  with same left show ?thesis by blast
next
  case False
  then have "ma_active m" "phase3 G name a (if all_pads_have_data m then m else m\<lparr>ma_timeouts := ma_timeouts m + 1\<rparr>) = (l, m')"
    using assms by (auto simp: phase2_def split: if_splits)
  then have "batched name l (if all_pads_have_data m then m else m\<lparr>ma_timeouts := ma_timeouts m + 1\<rparr>) m'"
    by (intro phase3_batched) (auto split: if_splits)
  then show ?thesis by (auto split: if_splits)
qed

definition quiet :: "msg_agg \<Rightarrow> msg_agg \<Rightarrow> bool" where
  "quiet m m' \<longleftrightarrow>
     ma_pads m' = ma_pads m \<and> ma_started m' = ma_started m \<and> ma_batches m' = ma_batches m \<and>
     ma_holes m' = ma_holes m \<and> ma_holes_eos m' = ma_holes_eos m \<and> ma_holes_timeout m' = ma_holes_timeout m \<and>
     (ma_task m \<noteq> TaskStarted \<and> ma_place m = OutsideTask \<longrightarrow> ma_place m' = OutsideTask) \<and>
     (ma_task m = TaskPaused \<longrightarrow> ma_task m' = TaskPaused) \<and>
     (ma_task m' = TaskStopped \<longrightarrow> ma_task m = TaskStopped)"

lemma waits_quiet:
  assumes "waits l m m'" "ma_task m = TaskStarted \<or> ma_place m \<noteq> OutsideTask"
  shows "l = Silent" "quiet m m'"
  using assms by (auto simp: waits_def quiet_def)

lemma quiet_refl [simp]: "quiet m m"
  by (simp add: quiet_def)

lemma ma_step_cases:
  assumes "ma_step G name l m m'"
  obtains (request) i where "l = Requested i" "i \<notin> dp_idx ` set (ma_pads m)"
      "\<exists>n. m' = m\<lparr>ma_pads := ma_pads m @ [pad_init i], ma_next := n\<rparr>"
  | (release) i where "l = Released i" "m' = release_pad i m"
  | (chain) i s where "l = Chained i s" "i \<in> dp_idx ` set (ma_pads m)"
      "m' = update_pad i (\<lambda>p. p\<lparr>dp_queue := dp_queue p @ [s]\<rparr>) m"
  | (eos) i where "l = GotEos i" "m' = update_pad i (\<lambda>p. p\<lparr>dp_eos := True\<rparr>) m"
  | (silent) "l = Silent" "quiet m m'"
  | (restart) "l = Restart" "m' = go_down_end m" "ma_place m = OutsideTask"
  | (batch) "batched name l m m'" "ma_task m = TaskStarted \<or> ma_place m \<noteq> OutsideTask"
  | (ended) "ended name l m m'" "ma_task m = TaskStarted \<or> ma_place m \<noteq> OutsideTask"
  using assms
proof cases
  case (st_enter a)
  with phase1_cases [OF st_enter(3)] show ?thesis by (metis waits_quiet silent batch ended)
next
  case (st_first a)
  with phase1_cases [OF st_first(2)] show ?thesis by (metis waits_quiet silent batch ended worker_place.distinct(1))
next
  case (st_second a t)
  with phase2_cases [OF st_second(2)] show ?thesis by (metis waits_quiet silent batch worker_place.distinct(3))
next
  case (st_request made req i)
  then show ?thesis by (intro request [of i]) (auto simp: request_pad_def Let_def split: if_splits prod.splits)
next
  case (st_refused made req)
  then show ?thesis by (intro silent) (auto simp: request_pad_def Let_def split: if_splits prod.splits)
next
  case (st_chain i s)
  then show ?thesis by (intro chain [of i "c_text s"]) (auto simp: data_chain_def)
next
  case (st_eos i)
  then show ?thesis by (intro eos [of i]) (auto simp: data_event_def)
next
  case (st_event e i)
  then show ?thesis by (intro silent) (auto simp: data_event_def split: pad_event.splits)
next
  case (st_up ok)
  then show ?thesis by (intro silent) (auto simp: go_up_def quiet_def)
next
  case st_down
  then show ?thesis by (intro silent) (auto simp: go_down_begin_def quiet_def)
qed (auto simp: data_chain_def set_timeout_def set_merge_def quiet_def intro!: silent intro: release restart)

section \<open>Nothing is lost or reordered\<close>

lemma chained_snoc [simp]:
  "chained i (ls @ [l]) = (if pad_starts i l then [] else chained i ls @ chained_by i l)"
  by (simp add: chained_def)

lemma popped_snoc [simp]:
  "popped i (ls @ [l]) = (if pad_starts i l then [] else popped i ls @ popped_by i l)"
  by (simp add: popped_def)

lemma popped_fronts_Cons:
  "popped_by i (Batch mg (fronts (p # ps)) its) =
     (if i = dp_idx p then take 1 (dp_queue p) else []) @ popped_by i (Batch mg (fronts ps) its)"
  by (cases "dp_queue p") (simp_all add: fronts_def)

lemma popped_fronts_none: "i \<notin> dp_idx ` set ps \<Longrightarrow> popped_by i (Batch mg (fronts ps) its) = []"
  by (induction ps) (simp_all add: popped_fronts_Cons del: popped_by.simps, simp add: fronts_def)

lemma popped_fronts:
  assumes "distinct (map dp_idx ps)" "p \<in> set ps"
  shows "popped_by (dp_idx p) (Batch mg (fronts ps) its) = take 1 (dp_queue p)"
  using assms
proof (induction ps)
  case (Cons q ps)
  show ?case
  proof (cases "p = q")
    case True
    then show ?thesis
      using Cons.prems(1) popped_fronts_none [of "dp_idx q" ps mg its]
      by (simp add: popped_fronts_Cons del: popped_by.simps)
  next
    case False
    then have "p \<in> set ps" using Cons.prems by simp
    then have "dp_idx p \<in> dp_idx ` set ps" by (rule imageI)
    moreover have "dp_idx q \<notin> dp_idx ` set ps" using Cons.prems(1) by simp
    ultimately have "dp_idx p \<noteq> dp_idx q" by metis
    with \<open>p \<in> set ps\<close> show ?thesis using Cons.IH Cons.prems(1) by (simp add: popped_fronts_Cons del: popped_by.simps)
  qed
qed simp

definition agg_fifo :: "agg_label list \<Rightarrow> msg_agg \<Rightarrow> bool" where
  "agg_fifo ls m \<longleftrightarrow> distinct (map dp_idx (ma_pads m)) \<and>
     (\<forall>p \<in> set (ma_pads m). chained (dp_idx p) ls = popped (dp_idx p) ls @ dp_queue p)"

lemma distinct_update_pad:
  "(\<And>p. dp_idx (f p) = dp_idx p) \<Longrightarrow> map dp_idx (ma_pads (update_pad i f m)) = map dp_idx (ma_pads m)"
  by (simp add: update_pad_def o_def if_distrib cong: if_cong)

lemma fifo_step:
  assumes "agg_fifo ls m" "ma_step G name l m m'"
  shows "agg_fifo (ls @ [l]) m'"
  using assms(2)
proof (cases rule: ma_step_cases)
  case (request i)
  have "dp_idx (pad_init i) = i" "dp_queue (pad_init i) = []" by (simp_all add: pad_init_def)
  with request show ?thesis using assms(1) by (auto simp: agg_fifo_def)
next
  case (release i)
  then show ?thesis using assms(1) by (auto simp: agg_fifo_def release_pad_def distinct_map intro: inj_on_subset)
next
  case (chain i s)
  have "chained (dp_idx p) ls = popped (dp_idx p) ls @ dp_queue p" if "p \<in> set (ma_pads m)" for p
    using assms(1) that by (simp add: agg_fifo_def)
  then have "\<forall>p \<in> set (ma_pads m). chained (dp_idx p) (ls @ [l]) =
      popped (dp_idx p) (ls @ [l]) @ dp_queue p @ (if dp_idx p = i then [s] else [])"
    by (simp add: chain(1))
  moreover have "distinct (map dp_idx (ma_pads m'))"
    using assms(1) by (simp add: agg_fifo_def chain(3) distinct_update_pad)
  ultimately show ?thesis unfolding agg_fifo_def chain(3) by (auto simp: update_pad_def)
next
  case (eos i)
  then show ?thesis
    using assms(1) by (auto simp: agg_fifo_def distinct_update_pad) (auto simp: update_pad_def)
next
  case silent
  then show ?thesis using assms(1) by (simp add: agg_fifo_def quiet_def)
next
  case restart
  then show ?thesis using assms(1) by (auto simp: agg_fifo_def go_down_end_def o_def)
next
  case batch
  then obtain its where l: "l = Batch (ma_merge m) (fronts (ma_pads m)) its"
    and m': "ma_pads m' = map pop_head (ma_pads m)" by (auto simp: batched_def)
  have "chained (dp_idx p) ls = popped (dp_idx p) (ls @ [l]) @ tl (dp_queue p)" if "p \<in> set (ma_pads m)" for p
    using assms(1) that popped_fronts [of "ma_pads m" p]
    by (cases "dp_queue p") (simp_all add: agg_fifo_def l del: popped_by.simps)
  moreover have "map dp_idx (map pop_head (ma_pads m)) = map dp_idx (ma_pads m)" by (simp add: pop_head_def o_def)
  moreover have "chained i (ls @ [l]) = chained i ls" for i by (simp add: l)
  ultimately show ?thesis
    using assms(1) unfolding agg_fifo_def m' by (simp add: pop_head_def del: map_map popped_snoc chained_snoc)
next
  case ended
  then show ?thesis using assms(1) by (auto simp: agg_fifo_def ended_def)
qed

lemma run_fifo: "ma_run G name ls m \<Longrightarrow> agg_fifo ls m"
proof (induction rule: ma_run.induct)
  case run_start
  show ?case by (simp add: agg_fifo_def agg_init_def)
next
  case (run_step ls m l m')
  from run_step(3, 2) show ?case by (rule fifo_step)
qed

section \<open>The output of a run\<close>

definition stream_ok :: "string \<Rightarrow> out_item list \<Rightarrow> bool" where
  "stream_ok name out \<longleftrightarrow> out = [] \<or>
     (\<exists>ts. out = stream_head name @ map OutText ts \<or> out = stream_head name @ map OutText ts @ [OutEos])"

text \<open>Behind the end of the stream the worker sleeps until the element is restarted.\<close>

definition agg_stream :: "string \<Rightarrow> agg_label list \<Rightarrow> msg_agg \<Rightarrow> bool" where
  "agg_stream name ls m \<longleftrightarrow>
     (run_output ls = [] \<longleftrightarrow> \<not> ma_started m) \<and> stream_ok name (run_output ls) \<and>
     (OutEos \<in> set (run_output ls) \<longrightarrow> ma_task m \<noteq> TaskStarted \<and> ma_place m = OutsideTask) \<and>
     (ma_task m = TaskStopped \<longrightarrow> run_output ls = [] \<and> ma_place m = OutsideTask)"

lemma run_output_snoc:
  "run_output (ls @ [l]) = (if l = Restart then [] else run_output ls @ pushed_by l)"
  by (simp add: run_output_def this_run_def)

lemma stream_ok_snoc:
  assumes "stream_ok name out" "OutEos \<notin> set out" "x = OutText t \<or> x = OutEos"
  shows "stream_ok name (out @ (if out = [] then stream_head name else []) @ [x])"
proof (cases "out = []")
  case True
  then show ?thesis using assms(3) unfolding stream_ok_def
    by (auto intro: exI [of _ "[]"] exI [of _ "[t]"])
next
  case False
  then obtain ts where "out = stream_head name @ map OutText ts"
    using assms(1,2) by (auto simp: stream_ok_def)
  then have "out @ [OutText t] = stream_head name @ map OutText (ts @ [t])" "out @ [OutEos] = stream_head name @ map OutText ts @ [OutEos]"
    by simp_all
  then show ?thesis using False assms(3) unfolding stream_ok_def by (metis append_Nil)
qed
lemma output_step:
  assumes inv: "agg_stream name ls m" and st: "ma_step G name l m m'"
  shows "agg_stream name (ls @ [l]) m'"
  using st
proof (cases rule: ma_step_cases)
  case silent
  have out: "run_output (ls @ [l]) = run_output ls" by (simp add: run_output_snoc silent(1))
  have q: "ma_started m' = ma_started m"
    "ma_task m \<noteq> TaskStarted \<and> ma_place m = OutsideTask \<longrightarrow> ma_place m' = OutsideTask"
    "ma_task m = TaskPaused \<longrightarrow> ma_task m' = TaskPaused" "ma_task m' = TaskStopped \<longrightarrow> ma_task m = TaskStopped"
    using silent(2) unfolding quiet_def by simp_all
  have eos: "ma_task m = TaskPaused \<and> ma_place m = OutsideTask" if "OutEos \<in> set (run_output ls)"
    using inv that by (cases "ma_task m") (auto simp: agg_stream_def)
  have "ma_task m' \<noteq> TaskStarted \<and> ma_place m' = OutsideTask" if "OutEos \<in> set (run_output ls)"
    using eos [OF that] q by simp
  moreover have "run_output ls = [] \<and> ma_place m' = OutsideTask" if "ma_task m' = TaskStopped"
    using q that inv by (simp add: agg_stream_def)
  ultimately show ?thesis using inv unfolding agg_stream_def out q(1) by simp
next
  case batch
  then obtain its where l: "l = Batch (ma_merge m) (fronts (ma_pads m)) its"
    and its: "its = [] \<and> ma_started m' = ma_started m \<or>
      (\<exists>t. its = (if ma_started m then [] else stream_head name) @ [OutText t]) \<and> ma_started m'"
    and task: "ma_task m' = ma_task m" unfolding batched_def by blast
  have on: "ma_task m \<noteq> TaskStopped" "OutEos \<notin> set (run_output ls)"
    using inv batch(2) by (auto simp: agg_stream_def)
  have start: "ma_started m \<longleftrightarrow> run_output ls \<noteq> []" "stream_ok name (run_output ls)"
    using inv by (simp_all add: agg_stream_def)
  have out: "run_output (ls @ [l]) = run_output ls @ its" by (simp add: run_output_snoc l)
  from its show ?thesis
  proof
    assume "its = [] \<and> ma_started m' = ma_started m"
    then show ?thesis using on start unfolding agg_stream_def out task by simp
  next
    assume "(\<exists>t. its = (if ma_started m then [] else stream_head name) @ [OutText t]) \<and> ma_started m'"
    then obtain t where t: "its = (if run_output ls = [] then stream_head name else []) @ [OutText t]" "ma_started m'"
      unfolding start(1) by auto
    have "stream_ok name (run_output ls @ its)" unfolding t(1) by (rule stream_ok_snoc [OF start(2) on(2)]) simp
    then show ?thesis using on t unfolding agg_stream_def out task by (auto simp: stream_head_def)
  qed
next
  case ended
  then have l: "pushed_by l = (if ma_started m then [] else stream_head name) @ [OutEos]" "l \<noteq> Restart"
    and m': "m' = m\<lparr>ma_started := True, ma_task := TaskPaused, ma_place := OutsideTask\<rparr>"
    unfolding ended_def by auto
  have on: "OutEos \<notin> set (run_output ls)"
    using inv ended(2) by (auto simp: agg_stream_def)
  have start: "ma_started m \<longleftrightarrow> run_output ls \<noteq> []" "stream_ok name (run_output ls)"
    using inv by (simp_all add: agg_stream_def)
  have out: "run_output (ls @ [l]) = run_output ls @ (if run_output ls = [] then stream_head name else []) @ [OutEos]"
    using l start(1) by (simp add: run_output_snoc)
  have "stream_ok name (run_output (ls @ [l]))" unfolding out by (rule stream_ok_snoc [OF start(2) on]) simp
  moreover have "run_output (ls @ [l]) \<noteq> []" unfolding out by simp
  ultimately show ?thesis unfolding agg_stream_def m' by simp
qed (use inv in \<open>auto simp: agg_stream_def run_output_snoc stream_ok_def release_pad_def update_pad_def go_down_end_def\<close>)

lemma run_stream: "ma_run G name ls m \<Longrightarrow> agg_stream name ls m"
proof (induction rule: ma_run.induct)
  case run_start
  show ?case by (simp add: agg_stream_def agg_init_def run_output_def this_run_def stream_ok_def)
next
  case (run_step ls m l m')
  from run_step(3, 2) show ?case by (rule output_step)
qed

section \<open>A run\<close>

definition example_glib :: glib_json where
  "example_glib = \<lparr>gj_parse = (\<lambda>_. None), gj_print = (\<lambda>_. None)\<rparr>"

text \<open>Two pads; the first gets one text and ends, the second ends without one.\<close>

definition ex_ready :: msg_agg where
  "ex_ready = go_up True (snd (request_pad True None (snd (request_pad True None agg_init))))"

definition ex_ended :: msg_agg where
  "ex_ended = data_event 1 EvEos (data_event 0 EvEos (snd (data_chain 0 (Some ''a'') ex_ready)))"

definition ex_labels :: "agg_label list" where
  "ex_labels = [Requested 0, Requested 1, Silent, Chained 0 ''a'', GotEos 0, GotEos 1]"

lemma ex_run: "ma_run example_glib ''agg'' ex_labels ex_ended"
proof -
  let ?S = "ma_step example_glib ''agg''"
  have r0: "request_pad True None agg_init = (Some 0, snd (request_pad True None agg_init))"
    by code_simp
  let ?m1 = "snd (request_pad True None agg_init)"
  have r1: "request_pad True None ?m1 = (Some 1, snd (request_pad True None ?m1))" by code_simp
  have pads: "dp_idx ` set (ma_pads ex_ready) = {0, 1}" "ma_task (snd (request_pad True None ?m1)) = TaskStopped"
    by code_simp+
  let ?c = "snd (data_chain 0 (Some ''a'') ex_ready)"
  have c: "?S (Chained 0 (c_text ''a'')) ex_ready ?c"
    by (rule st_chain) (simp_all add: pads data_chain_def)
  have "dp_idx ` set (ma_pads ?c) = {0, 1}" "dp_idx ` set (ma_pads (data_event 0 EvEos ?c)) = {0, 1}"
    by code_simp+
  then have e: "?S (GotEos 0) ?c (data_event 0 EvEos ?c)"
    "?S (GotEos 1) (data_event 0 EvEos ?c) ex_ended"
    unfolding ex_ended_def by (auto intro: st_eos)
  have "ma_run example_glib ''agg'' ((((([] @ [Requested 0]) @ [Requested 1]) @ [Silent]) @ [Chained 0 (c_text ''a'')]) @ [GotEos 0] @ [GotEos 1]) ex_ended"
    unfolding append_assoc [symmetric] ex_ready_def [symmetric]
    by (rule run_step [OF run_step [OF run_step [OF run_step [OF run_step [OF run_step [OF run_start st_request [OF r0]]
      st_request [OF r1]] st_up [OF pads(2), of _ _ True]]]]])
      (use c e in \<open>simp_all flip: ex_ready_def\<close>)
  moreover have "c_text ''a'' = ''a''" by code_simp
  ultimately show ?thesis by (simp add: ex_labels_def)
qed


section \<open>The worker drains\<close>

text \<open>The turns of the worker when nobody else moves.\<close>

fun turns :: "glib_json \<Rightarrow> string \<Rightarrow> nat \<Rightarrow> msg_agg \<Rightarrow> agg_label list \<times> msg_agg" where
  "turns G name 0 m = ([], m)"
| "turns G name (Suc n) m =
     (let (l, m') = phase1 G name True m; (ls, m'') = turns G name n m' in (l # ls, m''))"

definition depth :: "msg_agg \<Rightarrow> nat" where
  "depth m = foldr (\<lambda>p. max (length (dp_queue p))) (ma_pads m) 0"

lemma depth_pop: "foldr (\<lambda>p. max (length (dp_queue p))) (map pop_head ps) 0 = foldr (\<lambda>p. max (length (dp_queue p))) ps 0 - 1"
  by (induction ps) (auto simp: pop_head_def)

lemma depth_0: "depth m = 0 \<longleftrightarrow> \<not> any_pad_has_data m"
proof -
  have "foldr (\<lambda>p. max (length (dp_queue p))) ps 0 = 0 \<longleftrightarrow> (\<forall>p \<in> set ps. dp_queue p = [])" for ps
    by (induction ps) auto
  then show ?thesis by (auto simp: depth_def any_pad_has_data_def)
qed

lemma eos_has_data: "all_pads_eos m \<Longrightarrow> all_pads_have_data m"
  by (simp add: all_pads_eos_def all_pads_have_data_def)

lemma phase1_all_eos:
  assumes "all_pads_eos m" "ma_active m" "phase1 G name a m = (l, m')"
  shows "(if depth m = 0 then ended name l m m' else
     batched name l m m' \<and> depth m' = depth m - 1 \<and> all_pads_eos m' \<and> ma_place m' = OutsideTask)"
proof (cases "depth m = 0")
  case True
  then show ?thesis using assms by (simp add: phase1_def ended_def depth_0)
next
  case False
  then have p3: "phase3 G name a m = (l, m')"
    using assms by (simp add: phase1_def depth_0 eos_has_data)
  then have b: "batched name l m m'" by (rule phase3_batched) (rule assms(2))
  have "ma_place m' = OutsideTask" using p3 by (auto simp: phase3_def Let_def split: if_splits prod.splits)
  with b show ?thesis
    using False assms(1) by (auto simp: batched_def depth_def depth_pop all_pads_eos_def pop_head_def)
qed

lemma drains:
  assumes "ma_run G name tr m" "ma_task m = TaskStarted" "ma_place m = OutsideTask" "ma_active m" "all_pads_eos m"
  shows "\<exists>ls its m'. turns G name (Suc (depth m)) m = (ls @ [SentEos its], m') \<and> length ls = depth m \<and>
    (\<forall>l \<in> set ls. is_batch l) \<and> ma_run G name (tr @ ls @ [SentEos its]) m' \<and> ma_task m' = TaskPaused"
  using assms
proof (induction "depth m" arbitrary: m tr)
  case 0
  obtain l m' where p: "phase1 G name True m = (l, m')" by (metis surj_pair)
  have e: "ended name l m m'" using phase1_all_eos [OF 0(6,5) p] 0(1) by simp
  have "ma_run G name (tr @ [l]) m'" using 0 p by (auto intro: run_step st_enter)
  with e 0(1) p show ?case by (auto simp: ended_def)
next
  case (Suc n)
  obtain l m' where p: "phase1 G name True m = (l, m')" by (metis surj_pair)
  have b: "batched name l m m'" "depth m' = n" "all_pads_eos m'" "ma_place m' = OutsideTask"
    using phase1_all_eos [OF Suc(7,6) p] Suc(2) [symmetric] by simp_all
  have r: "ma_run G name (tr @ [l]) m'" using Suc p by (auto intro: run_step st_enter)
  have "ma_task m' = TaskStarted" "ma_active m'" "is_batch l" using b(1) Suc by (auto simp: batched_def)
  with Suc(1) [OF b(2) [symmetric] r _ b(4) _ b(3)] b(2)
  obtain ls its m'' where "turns G name (Suc n) m' = (ls @ [SentEos its], m'')" "length ls = n"
    "\<forall>l \<in> set ls. is_batch l" "ma_run G name ((tr @ [l]) @ ls @ [SentEos its]) m''" "ma_task m'' = TaskPaused"
    by blast
  then show ?case
    using p Suc(2) [symmetric] \<open>is_batch l\<close>
    by (intro exI [of _ "l # ls"] exI [of _ its] exI [of _ m'']) (simp add: Let_def)
qed
text \<open>
  Once all pads have ended the worker needs nobody: it pushes exactly as many batches as
  the longest queue has texts, one each turn and without waiting, then the end of the stream,
  and goes to sleep. So the element never hangs with texts left behind.
\<close>

theorem agg_drains:
  assumes "ma_run G name tr m" "ma_task m = TaskStarted" "ma_place m = OutsideTask" "ma_active m" "all_pads_eos m"
  shows "\<exists>ls its m'. turns G name (Suc (depth m)) m = (ls @ [SentEos its], m') \<and> length ls = depth m \<and>
    (\<forall>l \<in> set ls. is_batch l) \<and> ma_run G name (tr @ ls @ [SentEos its]) m' \<and> ma_task m' = TaskPaused"
  using assms by (rule drains)

theorem agg_drains_witness:
  "\<exists>l its m'. turns example_glib ''agg'' 2 ex_ended = ([l, SentEos its], m') \<and> is_batch l \<and>
     ma_run example_glib ''agg'' (ex_labels @ [l, SentEos its]) m' \<and> ma_task m' = TaskPaused"
proof -
  have d: "depth ex_ended = 1" "ma_task ex_ended = TaskStarted" "ma_place ex_ended = OutsideTask"
    "ma_active ex_ended" "all_pads_eos ex_ended" by code_simp+
  from agg_drains [OF ex_run d(2-5)] obtain ls its m' where
    *: "turns example_glib ''agg'' (Suc 1) ex_ended = (ls @ [SentEos its], m')" "length ls = 1"
      "\<forall>l \<in> set ls. is_batch l" "ma_run example_glib ''agg'' (ex_labels @ ls @ [SentEos its]) m'" "ma_task m' = TaskPaused"
    unfolding d(1) by blast
  then obtain l where "ls = [l]" by (cases ls) auto
  with * show ?thesis by (intro exI [of _ l] exI [of _ its] exI [of _ m']) (simp add: numeral_2_eq_2)
qed


section \<open>Output and counters\<close>

definition agg_counts :: "agg_label list \<Rightarrow> msg_agg \<Rightarrow> bool" where
  "agg_counts ls m \<longleftrightarrow>
     ma_batches m = of_nat (length (filter is_batch (this_run ls))) \<and>
     ma_holes m = of_nat (sum_list (map holes_of (this_run ls))) \<and>
     ma_holes m = ma_holes_eos m + ma_holes_timeout m"

lemma this_run_snoc: "this_run (ls @ [l]) = (if l = Restart then [] else this_run ls @ [l])"
  by (simp add: this_run_def)

lemma counts_step:
  assumes inv: "agg_counts ls m" and st: "ma_step G name l m m'"
  shows "agg_counts (ls @ [l]) m'"
  using st
proof (cases rule: ma_step_cases)
  case batch
  then have "is_batch l" "l \<noteq> Restart" by (auto simp: batched_def)
  moreover have "ma_batches m' = ma_batches m + 1" "ma_holes m' = ma_holes m + of_nat (holes_of l)"
    "ma_holes_eos m' + ma_holes_timeout m' = ma_holes_eos m + ma_holes_timeout m + of_nat (holes_of l)"
    using batch(1) by (simp_all add: batched_def)
  moreover have "ma_batches m = of_nat (length (filter is_batch (this_run ls)))"
    "ma_holes_eos m + ma_holes_timeout m = ma_holes m" "ma_holes m = of_nat (sum_list (map holes_of (this_run ls)))"
    using inv by (auto simp: agg_counts_def)
  ultimately show ?thesis unfolding agg_counts_def by (simp add: this_run_snoc add.commute)
next
  case ended
  then show ?thesis using inv by (auto simp: agg_counts_def this_run_snoc ended_def)
qed (use inv in \<open>auto simp: agg_counts_def this_run_snoc release_pad_def update_pad_def go_down_end_def quiet_def\<close>)

lemma run_counts: "ma_run G name ls m \<Longrightarrow> agg_counts ls m"
proof (induction rule: ma_run.induct)
  case run_start
  show ?case by (simp add: agg_counts_def agg_init_def this_run_def)
next
  case (run_step ls m l m')
  from run_step(3, 2) show ?case by (rule counts_step)
qed

text \<open>
  What the element pushes downstream between two restarts is a well formed stream: the
  stream start, the format and the segment once and first, then texts, then at most one end
  of stream and nothing behind it. Its counters are true modulo the width of the counters:
  the batches formed, the placeholders put into them, and the placeholders are split without
  remainder into those for ended pads and those for late ones.
\<close>

theorem agg_stream_and_counts:
  assumes "ma_run G name ls m"
  shows "stream_ok name (run_output ls) \<and>
    unat (ma_batches m) = length (filter is_batch (this_run ls)) mod 2 ^ 64 \<and>
    unat (ma_holes m) = sum_list (map holes_of (this_run ls)) mod 2 ^ 64 \<and>
    ma_holes m = ma_holes_eos m + ma_holes_timeout m"
proof -
  from run_counts [OF assms] have "ma_batches m = of_nat (length (filter is_batch (this_run ls)))"
    "ma_holes m = of_nat (sum_list (map holes_of (this_run ls)))" and split: "ma_holes m = ma_holes_eos m + ma_holes_timeout m"
    unfolding agg_counts_def by blast+
  then have "unat (ma_batches m) = length (filter is_batch (this_run ls)) mod 2 ^ 64"
    "unat (ma_holes m) = sum_list (map holes_of (this_run ls)) mod 2 ^ 64" by (simp_all add: unat_of_nat)
  with split run_stream [OF assms] show ?thesis by (simp only: agg_stream_def simp_thms)
qed

theorem agg_stream_and_counts_witness:
  "\<exists>its m'. ma_run example_glib ''agg'' (ex_labels @ its) m' \<and> stream_ok ''agg'' (run_output (ex_labels @ its)) \<and>
     unat (ma_batches m') = 1"
proof -
  obtain l m1 where p: "phase1 example_glib ''agg'' True ex_ended = (l, m1)" by (metis surj_pair)
  have d: "ma_task ex_ended = TaskStarted" "ma_place ex_ended = OutsideTask"
    "is_batch (fst (phase1 example_glib ''agg'' True ex_ended))"
    "filter is_batch (this_run ex_labels) = []" by code_simp+
  have r: "ma_run example_glib ''agg'' (ex_labels @ [l]) m1"
    using ex_run p d(1,2) by (auto intro: run_step st_enter)
  have "is_batch l" using d(3) p by simp
  then have "l \<noteq> Restart" by auto
  with \<open>is_batch l\<close> have "filter is_batch (this_run (ex_labels @ [l])) = [l]" using d(4) by (simp add: this_run_snoc)
  with agg_stream_and_counts [OF r] r show ?thesis by (intro exI [of _ "[l]"] exI [of _ m1]) simp
qed

section \<open>The text of a batch\<close>

definition piece :: "data_pad \<Rightarrow> string" where
  "piece p = (case dp_queue p of [] \<Rightarrow> ''{}'' | s # _ \<Rightarrow> s)"

lemma batch_loop_text:
  assumes "length t \<ge> 1"
  shows "fst (batch_loop ps t m) =
    (if length t > 1 then t @ concat (map (\<lambda>p. '','' @ piece p) ps)
     else t @ join '','' (dropWhile (\<lambda>s. s = []) (map piece ps)))"
  using assms
proof (induction ps t m rule: batch_loop.induct)
  case (2 p ps t m)
  have j: "join '','' (s # map piece ps) = s @ concat (map (\<lambda>p. '','' @ piece p) ps)" for s
    by (induction ps arbitrary: s) (simp_all add: join_Cons)
  show ?case
  proof (cases "dp_queue p")
    case Nil
    then show ?thesis using 2 by (auto simp: piece_def Let_def j)
  next
    case (Cons s q)
    then show ?thesis using 2 by (cases "s = []") (auto simp: piece_def Let_def j)
  qed
qed simp

text \<open>
  Without merging the batch is the fronts joined by commas, a missing one as \<open>{}\<close>, between
  braces, except that leading empty texts vanish with their commas: the loop tests the
  length of the text so far, not the position of the pad.
\<close>

lemma plain_batch_text:
  "fst (batch_loop ps ''{'' m) @ ''}'' = ''{'' @ join '','' (dropWhile (\<lambda>s. s = []) (map piece ps)) @ ''}''"
  by (simp add: batch_loop_text)
end
