(* ===== verification/SceneWire.thy ===== *)
theory SceneWire
  imports MsgAgg
begin

text \<open>
  From the cameras to the rules: the records serialised by the frame offload elements
  (\<open>JsonlWriter\<close>), merged by the aggregator (\<open>MsgAgg\<close>) and read by the scene adapter of the
  rule process (\<open>Scene\<close>). Both JSON libraries are arguments; what is asked of them is that
  each reads the texts of this path back, numbers as \<open>num\<close> gives them (a printed number has
  six digits).
\<close>

fun reread :: "(cfloat \<Rightarrow> json) \<Rightarrow> json \<Rightarrow> json" where
  "reread num (JFloat x) = num x"
| "reread num (JArr xs) = JArr (map (reread num) xs)"
| "reread num (JObj kvs) = JObj (map (\<lambda>(k, v). (k, reread num v)) kvs)"
| "reread num j = j"

definition reads_numbers :: "json_lib \<Rightarrow> (cfloat \<Rightarrow> json) \<Rightarrow> (cfloat \<Rightarrow> cfloat) \<Rightarrow> bool" where
  "reads_numbers L num rd \<longleftrightarrow>
     (\<forall>x. jl_float L (num x) = Some (rd x)) \<and>
     (\<forall>w :: u32. jl_int L (JInt (uint w)) = Some (int_of_u32 w) \<and> jl_u32 L (JInt (uint w)) = Some w) \<and>
     (\<forall>w :: u64. jl_u64 L (JInt (uint w)) = Some w)"

text \<open>What the rules should get to see of a record.\<close>

definition detection_of :: "(cfloat \<Rightarrow> cfloat) \<Rightarrow> detection_record \<Rightarrow> detection" where
  "detection_of rd d = \<lparr>d_class = det_label d, d_bbox = map rd [det_left d, det_top d, det_right d, det_bottom d],
     d_track = int_of_u32 (det_track d), d_conf = rd (to_float (det_score d)),
     d_emb = (case det_face d of None \<Rightarrow> [] | Some f \<Rightarrow> map rd (fi_embedding f))\<rparr>"

definition event_of :: "(cfloat \<Rightarrow> cfloat) \<Rightarrow> u32 \<Rightarrow> u32 \<Rightarrow> frame_record \<Rightarrow> event_meta" where
  "event_of rd mw mh r = \<lparr>ev_source = format_source_id (int_of_u32 (frm_channel r)),
     ev_source_num = int_of_u32 (frm_channel r), ev_ts = frm_ts r div 1000, ev_removed = [],
     ev_dets = map (detection_of rd) (frm_dets r), ev_slot = u32_of_int (frm_image_path r), ev_width = mw,
     ev_height = mh, ev_channels = 3, ev_ts_ns = frm_ts r\<rparr>"

lemma those_map_Some_all: "(\<And>x. x \<in> set xs \<Longrightarrow> f x = Some (g x)) \<Longrightarrow> those (map f xs) = Some (map g xs)"
  by (induction xs) simp_all

lemma get_vec_floats:
  "reads_numbers L num rd \<Longrightarrow> get_vec (jl_float L) (reread num (floats_json xs)) = Some (map rd xs)"
  by (simp add: floats_json_def o_def reads_numbers_def those_map_Some_all)

lemma floats_array: "is_array (reread num (floats_json xs))" "length (elements (reread num (floats_json xs))) = length xs"
  by (simp_all add: floats_json_def)

lemma adapt_detection_event:
  assumes "reads_numbers L num rd"
  shows "adapt_detection L (reread num (event_json d)) = Some (detection_of rd d)"
proof -
  have n: "jl_float L (num x) = Some (rd x)" "jl_int L (JInt (uint (w :: u32))) = Some (int_of_u32 w)" for x w
    using assms by (simp_all add: reads_numbers_def)
  note v = get_vec_floats [OF assms] floats_array
  show ?thesis
    by (cases "det_face d")
      (simp_all add: adapt_detection_def event_json_def jvalue_def jfind_def n v box_json_def detection_of_def)
qed

lemma adapt_source_record:
  assumes "reads_numbers L num rd"
  shows "adapt_source L (reread num (scene_source_json r mw mh)) =
    Some (if frm_image_path r \<ge> 0 then Some (event_of rd mw mh r) else None)"
proof -
  have three: "JInt 3 = JInt (uint (3 :: u32))" by simp
  have n: "jl_int L (JInt (uint (w :: u32))) = Some (int_of_u32 w)" "jl_u32 L (JInt (uint (w :: u32))) = Some w"
    "jl_u64 L (JInt (uint (w' :: u64))) = Some w'" for w w'
    using assms by (simp_all add: reads_numbers_def)
  have ch: "jl_u32 L (JInt 3) = Some 3" unfolding three by (rule n(2))
  have obj: "filter is_object (map (reread num \<circ> event_json) ds) = map (reread num \<circ> event_json) ds" for ds
    by (induction ds) (simp_all add: event_json_def)
  have evs: "those (map (adapt_detection L \<circ> (reread num \<circ> event_json)) ds) = Some (map (detection_of rd) ds)" for ds
    unfolding o_def by (rule those_map_Some_all) (rule adapt_detection_event [OF assms])
  show ?thesis
  proof (cases "frm_image_path r \<ge> 0")
    case True
    then show ?thesis
      by (simp add: adapt_source_def scene_source_json_def jcontains_def jvalue_def jfind_def n ch obj evs event_of_def)
  next
    case False
    then show ?thesis
      by (simp add: adapt_source_def scene_source_json_def jcontains_def jfind_def)
  qed
qed

definition scene_value :: "(cfloat \<Rightarrow> json) \<Rightarrow> u32 \<Rightarrow> u32 \<Rightarrow> frame_record list \<Rightarrow> json" where
  "scene_value num mw mh rs = JObj [(''type'', JStr ''scene_update''),
     (''sources'', JArr (map (\<lambda>r. reread num (scene_source_json r mw mh)) rs))]"

text \<open>The records at the front of the pads, in the order of the pads.\<close>

definition front_records :: "(u32 \<Rightarrow> frame_record list) \<Rightarrow> data_pad list \<Rightarrow> frame_record list" where
  "front_records recs ps = concat (map (\<lambda>p. take 1 (recs (dp_idx p))) ps)"

lemma merge_sources_records:
  assumes "\<forall>p \<in> set ps. dp_queue p = map (\<lambda>r. serialize_scene_source r mw mh) (recs (dp_idx p)) \<and>
    (\<forall>r \<in> set (recs (dp_idx p)). gj_parse G (serialize_scene_source r mw mh) =
       Some (Some (reread num (scene_source_json r mw mh))))"
  shows "merge_sources G ps = map (\<lambda>r. reread num (scene_source_json r mw mh)) (front_records recs ps)"
  using assms
proof (induction ps)
  case (Cons p ps)
  have obj: "\<exists>kvs. reread num (scene_source_json r mw mh) = JObj kvs" for r by (simp add: scene_source_json_def)
  show ?case
  proof (cases "recs (dp_idx p)")
    case Nil
    then show ?thesis using Cons by (simp add: merge_sources_def front_records_def)
  next
    case (Cons r rs)
    obtain kvs where "reread num (scene_source_json r mw mh) = JObj kvs" using obj by blast
    with Cons show ?thesis using Cons.prems Cons.IH by (simp add: merge_sources_def front_records_def)
  qed
qed (simp add: merge_sources_def front_records_def)

lemma adapt_scene_value:
  assumes "reads_numbers L num rd" "jl_parse L text = Some (scene_value num mw mh rs)"
  shows "adapt_scene_update L text =
    Some (map (event_of rd mw mh) (filter (\<lambda>r. frm_image_path r \<ge> 0) rs))"
proof -
  have "those (map (adapt_source L \<circ> (\<lambda>r. reread num (scene_source_json r mw mh))) rs) =
      Some (map (\<lambda>r. if frm_image_path r \<ge> 0 then Some (event_of rd mw mh r) else None) rs)"
    unfolding o_def by (rule those_map_Some_all) (rule adapt_source_record [OF assms(1)])
  moreover have "map the (filter (\<lambda>m. m \<noteq> None) (map (\<lambda>r. if frm_image_path r \<ge> 0 then Some (event_of rd mw mh r) else None) rs)) =
      map (event_of rd mw mh) (filter (\<lambda>r. frm_image_path r \<ge> 0) rs)"
    by (induction rs) simp_all
  ultimately show ?thesis
    using assms(2) by (simp add: adapt_scene_update_def scene_value_def jvalue_def jfind_def)
qed

text \<open>
  C19: What the cameras record is what the rules see. When the aggregator merges pads whose
  queues hold serialised records, the text it pushes is read by the scene adapter as exactly
  the events of the front records that own a slot, in the order of the pads: same source
  name, time, slot and sizes, and per detection the same label, track, box, confidence and
  embedding. It needs only that the two JSON libraries read back the texts on this path.
\<close>

theorem merged_scene_delivered:
  assumes numbers: "reads_numbers L num rd"
    and merge: "ma_merge m"
    and queues: "\<forall>p \<in> set (ma_pads m). dp_queue p = map (\<lambda>r. serialize_scene_source r mw mh) (recs (dp_idx p)) \<and>
      (\<forall>r \<in> set (recs (dp_idx p)). gj_parse G (serialize_scene_source r mw mh) =
         Some (Some (reread num (scene_source_json r mw mh))))"
    and printed: "gj_print G (scene_value num mw mh (front_records recs (ma_pads m))) = Some msg"
    and parsed: "jl_parse L msg = Some (scene_value num mw mh (front_records recs (ma_pads m)))"
  shows "fst (phase3 G name True m) = Batch True (fronts (ma_pads m))
      ((if ma_started m then [] else stream_head name) @ [OutText msg]) \<and>
    adapt_scene_update L msg =
      Some (map (event_of rd mw mh) (filter (\<lambda>r. frm_image_path r \<ge> 0) (front_records recs (ma_pads m))))"
proof
  have "build_scene_merge G (ma_pads m) = Some msg"
    using printed merge_sources_records [OF queues] by (simp add: build_scene_merge_def scene_value_def)
  then show "fst (phase3 G name True m) = Batch True (fronts (ma_pads m))
      ((if ma_started m then [] else stream_head name) @ [OutText msg])"
    using merge by (simp add: phase3_def Let_def)
qed (rule adapt_scene_value [OF numbers parsed])

text \<open>One camera, one record with a face, a picture in slot 3.\<close>

definition ex_record :: frame_record where
  "ex_record = \<lparr>frm_channel = 2, frm_image_path = 3, frm_id = 9, frm_ts = 5000,
     frm_dets = [\<lparr>det_class_id = 0, det_track = 4, det_label = ''person'', det_score = Fin 1, det_left = Fin 0,
       det_top = Fin 1, det_right = Fin 2, det_bottom = Fin 3,
       det_face = Some \<lparr>fi_confidence = Fin 1, fi_box = [], fi_landmarks = [], fi_embedding = [Fin 1], fi_track = 4,
         fi_face_id = - 1, fi_similarity = Fin 0\<rparr>\<rparr>]\<rparr>"

definition wire_lib :: json_lib where
  "wire_lib = example_lib\<lparr>jl_parse := (\<lambda>_. Some (scene_value JFloat 8 4 [ex_record])),
     jl_int := (\<lambda>j. case j of JInt i \<Rightarrow> Some (int_of_u32 (u32_of_int i)) | _ \<Rightarrow> None),
     jl_float := (\<lambda>j. case j of JFloat x \<Rightarrow> Some x | _ \<Rightarrow> None)\<rparr>"

definition wire_glib :: glib_json where
  "wire_glib = \<lparr>gj_parse = (\<lambda>_. Some (Some (reread JFloat (scene_source_json ex_record 8 4)))), gj_print = (\<lambda>_. Some ''M'')\<rparr>"

definition wire_agg :: msg_agg where
  "wire_agg = agg_init\<lparr>ma_merge := True,
     ma_pads := [\<lparr>dp_idx = 0, dp_queue = [serialize_scene_source ex_record 8 4], dp_eos = False\<rparr>]\<rparr>"

theorem merged_scene_delivered_witness:
  "\<exists>ev. adapt_scene_update wire_lib ''M'' = Some [ev] \<and> ev_source_num ev = 2 \<and> ev_slot ev = 3 \<and>
     map d_track (ev_dets ev) = [4] \<and> map d_emb (ev_dets ev) = [[Fin 1]]"
proof -
  have n: "reads_numbers wire_lib JFloat (\<lambda>x. x)"
    by (simp add: reads_numbers_def wire_lib_def example_lib_def u32_of_int_def u64_of_int_def)
  have f: "front_records (\<lambda>_. [ex_record]) (ma_pads wire_agg) = [ex_record]"
    by (simp add: front_records_def wire_agg_def)
  have "adapt_scene_update wire_lib ''M'' = Some (map (event_of (\<lambda>x. x) 8 4) (filter (\<lambda>r. frm_image_path r \<ge> 0) [ex_record]))"
    using merged_scene_delivered [OF n, where m = wire_agg and G = wire_glib and recs = "\<lambda>_. [ex_record]" and name = "[]"
        and mw = 8 and mh = 4 and msg = "''M''"]
    unfolding f by (simp add: wire_agg_def wire_glib_def wire_lib_def)
  then show ?thesis
    by (simp add: ex_record_def event_of_def detection_of_def int_of_u32_def u32_of_int_def)
qed

end
