(* ===== verification/Deduper.thy ===== *)
theory Deduper
  imports CFloat OrdMap
begin

text \<open>
  The element that lets only changed frames through (\<open>channel_worker/deduper/Deduper.cpp\<close> and
  its GStreamer element \<open>gst_plugin/gstdeduper.cpp\<close>), and the region metadata it shares with
  the frame offload element. Coordinates are binary64 with every rounding.
\<close>

section \<open>Region metadata of a buffer\<close>

text \<open>
  The parameters of a region are structures; only the two fields the program asks for are
  kept, None when the structure has no such field of that type. Metadata of other kinds is
  passed over and told apart by a number.
\<close>

record gst_struct =
  gs_tracking_id :: "u32 option"
  gs_confidence :: "cfloat option"

record roi =
  roi_type :: "string option"
  roi_id :: u32
  roi_x :: u32
  roi_y :: u32
  roi_w :: u32
  roi_h :: u32
  roi_params :: "gst_struct list"

datatype buf_meta = RoiMeta roi | OtherMeta nat

definition double_of_u32 :: "u32 \<Rightarrow> cfloat" where
  "double_of_u32 w = Fin (of_nat (unat w))"

text \<open>\<open>static_cast<double>(a) / b\<close>; sums of coordinates are taken in 32 bits before.\<close>

definition norm_coord :: "u32 \<Rightarrow> u32 \<Rightarrow> cfloat" where
  "norm_coord a b = fdiv B64 (double_of_u32 a) (double_of_u32 b)"

section \<open>The deduper\<close>

definition allowed_classes :: "string list" where
  "allowed_classes = [''person'', ''bicycle'', ''car'', ''backpack'', ''umbrella'', ''handbag'']"

record snapshot =
  sn_left :: cfloat
  sn_top :: cfloat
  sn_right :: cfloat
  sn_bottom :: cfloat

record track_entry =
  te_label :: string
  te_track :: u32
  te_left :: cfloat
  te_top :: cfloat
  te_right :: cfloat
  te_bottom :: cfloat

record deduper =
  dd_threshold :: cfloat
  dd_last :: "(string, snapshot) omap"

definition deduper_new :: "cfloat \<Rightarrow> deduper" where
  "deduper_new thr = \<lparr>dd_threshold = thr, dd_last = []\<rparr>"

definition deduper_reset :: "deduper \<Rightarrow> deduper" where
  "deduper_reset D = D\<lparr>dd_last := []\<rparr>"

definition is_allowed :: "string \<Rightarrow> bool" where
  "is_allowed label \<longleftrightarrow> label \<in> set allowed_classes"

definition make_key :: "track_entry \<Rightarrow> string" where
  "make_key e = (if te_label e = [] then ''unknown'' else te_label e) @ ''#'' @ dec_nat (unat (te_track e))"

definition snapshot_of :: "track_entry \<Rightarrow> snapshot" where
  "snapshot_of e = \<lparr>sn_left = te_left e, sn_top = te_top e, sn_right = te_right e, sn_bottom = te_bottom e\<rparr>"

definition snap_iou :: "snapshot \<Rightarrow> snapshot \<Rightarrow> cfloat" where
  "snap_iou a b =
     (let x1 = fmax (sn_left a) (sn_left b); y1 = fmax (sn_top a) (sn_top b);
          x2 = fmin (sn_right a) (sn_right b); y2 = fmin (sn_bottom a) (sn_bottom b);
          w = fmax (Fin 0) (fsub B64 x2 x1);
          h = fmax (Fin 0) (fsub B64 y2 y1);
          overlap = fmul B64 w h;
          area_a = fmul B64 (fsub B64 (sn_right a) (sn_left a)) (fsub B64 (sn_bottom a) (sn_top a));
          area_b = fmul B64 (fsub B64 (sn_right b) (sn_left b)) (fsub B64 (sn_bottom b) (sn_top b));
          union_area = fsub B64 (fadd B64 area_a area_b) overlap
      in if fle union_area (Fin 0) then Fin 0 else fdiv B64 overlap union_area)"

text \<open>The first loop: the objects of this frame and whether one is new or has moved.\<close>

fun scan_entries ::
  "deduper \<Rightarrow> track_entry list \<Rightarrow> (string, snapshot) omap \<Rightarrow> bool \<Rightarrow> (string, snapshot) omap \<times> bool" where
  "scan_entries D [] cur found = (cur, found)"
| "scan_entries D (e # es) cur found =
     (if te_track e = 0 then scan_entries D es cur found
      else
        let key = make_key e;
            cur' = om_put key (snapshot_of e) cur
        in case om_get (dd_last D) key of
             None \<Rightarrow> scan_entries D es cur' True
           | Some old \<Rightarrow>
               scan_entries D es cur'
                 (if flt (snap_iou (snapshot_of e) old) (dd_threshold D) then True else found))"

definition is_interesting :: "deduper \<Rightarrow> track_entry list \<Rightarrow> bool \<times> deduper" where
  "is_interesting D es =
     (let (cur, found) = scan_entries D es [] False;
          found = (if \<not> found then list_ex (\<lambda>kb. om_get cur (fst kb) = None) (dd_last D) else found)
      in (found, if found then D\<lparr>dd_last := cur\<rparr> else D))"

section \<open>The element\<close>

record gst_deduper =
  gd_deduper :: "deduper option"
  gd_width :: u32
  gd_height :: u32
  gd_iou_threshold :: cfloat
  gd_total :: u64
  gd_passed :: u64
  gd_dropped :: u64
  gd_time_total :: u64
  gd_time_min :: u64
  gd_time_max :: u64

definition gd_init :: gst_deduper where
  "gd_init = \<lparr>gd_deduper = None, gd_width = 0, gd_height = 0, gd_iou_threshold = Fin (3 / 4), gd_total = 0,
     gd_passed = 0, gd_dropped = 0, gd_time_total = 0, gd_time_min = - 1, gd_time_max = 0\<rparr>"

definition gd_set_threshold :: "cfloat \<Rightarrow> gst_deduper \<Rightarrow> gst_deduper" where
  "gd_set_threshold t g = g\<lparr>gd_iou_threshold := t\<rparr>"

text \<open>The size of the video is None when the caps do not tell one.\<close>

definition gd_set_caps :: "(u32 \<times> u32) option \<Rightarrow> gst_deduper \<Rightarrow> bool \<times> gst_deduper" where
  "gd_set_caps video g =
     (case video of
        None \<Rightarrow> (False, g)
      | Some (w, h) \<Rightarrow>
          (True, g\<lparr>gd_width := w, gd_height := h, gd_deduper := Some (deduper_new (gd_iou_threshold g))\<rparr>))"

definition label_of :: "roi \<Rightarrow> string" where
  "label_of r = (case roi_type r of None \<Rightarrow> [] | Some s \<Rightarrow> s)"

text \<open>The last structure with a tracking id counts.\<close>

definition tracking_id :: "gst_struct list \<Rightarrow> u32 \<Rightarrow> u32" where
  "tracking_id ps tid = foldl (\<lambda>t s. case gs_tracking_id s of None \<Rightarrow> t | Some i \<Rightarrow> i) tid ps"

definition roi_entry :: "u32 \<Rightarrow> u32 \<Rightarrow> roi \<Rightarrow> track_entry" where
  "roi_entry fw fh r = \<lparr>te_label = label_of r, te_track = tracking_id (roi_params r) 0,
     te_left = norm_coord (roi_x r) fw, te_top = norm_coord (roi_y r) fh,
     te_right = norm_coord (roi_x r + roi_w r) fw, te_bottom = norm_coord (roi_y r + roi_h r) fh\<rparr>"

fun collect_rois :: "u32 \<Rightarrow> u32 \<Rightarrow> buf_meta list \<Rightarrow> track_entry list \<Rightarrow> nat list \<Rightarrow> nat \<Rightarrow> track_entry list \<times> nat list" where
  "collect_rois fw fh [] entries to_remove i = (entries, to_remove)"
| "collect_rois fw fh (RoiMeta r # ms) entries to_remove i =
     (if \<not> is_allowed (label_of r) then collect_rois fw fh ms entries (to_remove @ [i]) (Suc i)
      else collect_rois fw fh ms (entries @ [roi_entry fw fh r]) to_remove (Suc i))"
| "collect_rois fw fh (OtherMeta k # ms) entries to_remove i = collect_rois fw fh ms entries to_remove (Suc i)"

text \<open>Removing metadata from the chain by its place; the other links stay valid.\<close>

definition remove_metas :: "nat list \<Rightarrow> buf_meta list \<Rightarrow> buf_meta list" where
  "remove_metas rm ms = map snd (filter (\<lambda>(i, m). i \<notin> set rm) (zip [0..<length ms] ms))"

datatype flow = FlowOk | FlowDropped | FlowError

definition record_time :: "u64 \<Rightarrow> gst_deduper \<Rightarrow> gst_deduper" where
  "record_time us g = g\<lparr>gd_time_total := gd_time_total g + us,
     gd_time_min := (if us < gd_time_min g then us else gd_time_min g),
     gd_time_max := (if us > gd_time_max g then us else gd_time_max g)\<rparr>"

definition transform_ip :: "u64 \<Rightarrow> buf_meta list \<Rightarrow> gst_deduper \<Rightarrow> flow \<times> buf_meta list \<times> gst_deduper" where
  "transform_ip elapsed ms g =
     (case gd_deduper g of
        None \<Rightarrow> (FlowOk, ms, g)
      | Some D \<Rightarrow>
          if gd_width g = 0 \<or> gd_height g = 0 then (FlowOk, ms, g)
          else
            let g = g\<lparr>gd_total := gd_total g + 1\<rparr>;
                (entries, to_remove) = collect_rois (gd_width g) (gd_height g) ms [] [] 0;
                ms = remove_metas to_remove ms
            in if entries = [] then
                 (FlowDropped, ms,
                  record_time elapsed (g\<lparr>gd_dropped := gd_dropped g + 1, gd_deduper := Some (deduper_reset D)\<rparr>))
               else
                 let (interesting, D) = is_interesting D entries;
                     g = record_time elapsed (g\<lparr>gd_deduper := Some D\<rparr>)
                 in if \<not> interesting then (FlowDropped, ms, g\<lparr>gd_dropped := gd_dropped g + 1\<rparr>)
                    else (FlowOk, ms, g\<lparr>gd_passed := gd_passed g + 1\<rparr>))"

definition gd_stop :: "gst_deduper \<Rightarrow> gst_deduper" where
  "gd_stop g = g\<lparr>gd_deduper := None, gd_total := 0, gd_passed := 0, gd_dropped := 0, gd_time_total := 0,
     gd_time_min := - 1, gd_time_max := 0\<rparr>"

section \<open>What a decision means\<close>

definition tracked :: "track_entry list \<Rightarrow> track_entry list" where
  "tracked es = filter (\<lambda>e. te_track e \<noteq> 0) es"

text \<open>The objects of a frame: the last entry of a key counts.\<close>

definition objects :: "track_entry list \<Rightarrow> string \<Rightarrow> snapshot option" where
  "objects es = map_of (rev (map (\<lambda>e. (make_key e, snapshot_of e)) (tracked es)))"

text \<open>A frame is changed against reference objects: one is new, has moved, or is gone.\<close>

definition changed :: "cfloat \<Rightarrow> (string \<Rightarrow> snapshot option) \<Rightarrow> track_entry list \<Rightarrow> bool" where
  "changed thr ref es \<longleftrightarrow>
     (\<exists>e \<in> set (tracked es). case ref (make_key e) of None \<Rightarrow> True
        | Some old \<Rightarrow> flt (snap_iou (snapshot_of e) old) thr) \<or>
     (\<exists>k. ref k \<noteq> None \<and> k \<notin> make_key ` set (tracked es))"

lemma tracked_Cons: "tracked (e # es) = (if te_track e = 0 then tracked es else e # tracked es)"
  by (simp add: tracked_def)

lemma objects_Nil [simp]: "objects [] = Map.empty"
  by (simp add: objects_def tracked_def)

lemma objects_dom: "objects es k \<noteq> None \<longleftrightarrow> k \<in> make_key ` set (tracked es)"
  by (force simp: objects_def map_of_eq_None_iff image_iff)

lemma scan_entries_result:
  assumes "om_wf cur" "scan_entries D es cur found = (cur', found')"
  shows "om_wf cur' \<and> om_get cur' = om_get cur ++ objects es \<and>
    (found' \<longleftrightarrow> found \<or> (\<exists>e \<in> set (tracked es). case om_get (dd_last D) (make_key e) of None \<Rightarrow> True
        | Some old \<Rightarrow> flt (snap_iou (snapshot_of e) old) (dd_threshold D)))"
  using assms
proof (induction es arbitrary: cur found)
  case (Cons e es)
  show ?case
  proof (cases "te_track e = 0")
    case True
    then show ?thesis using Cons by (simp add: tracked_Cons objects_def)
  next
    case False
    define cur1 where "cur1 = om_put (make_key e) (snapshot_of e) cur"
    have wf: "om_wf cur1" using Cons.prems(1) by (simp add: cur1_def om_wf_put)
    have obj: "om_get cur1 ++ objects es = om_get cur ++ objects (e # es)"
      using False Cons.prems(1) by (simp add: cur1_def objects_def tracked_Cons om_get_put_aux map_add_def fun_eq_iff split: option.splits)
    show ?thesis
    proof (cases "om_get (dd_last D) (make_key e)")
      case None
      then have "scan_entries D es cur1 True = (cur', found')" using Cons.prems(2) False by (simp add: cur1_def)
      from Cons.IH [OF wf this] show ?thesis using None False obj by (simp add: tracked_Cons)
    next
      case (Some old)
      then have "scan_entries D es cur1 (if flt (snap_iou (snapshot_of e) old) (dd_threshold D) then True else found) = (cur', found')"
        using Cons.prems(2) False by (simp add: cur1_def)
      from Cons.IH [OF wf this] show ?thesis using Some False obj by (auto simp: tracked_Cons)
    qed
  qed
qed (simp add: tracked_def)

lemma is_interesting_result:
  assumes "om_wf (dd_last D)" "is_interesting D es = (b, D')"
  shows "(b \<longleftrightarrow> changed (dd_threshold D) (om_get (dd_last D)) es) \<and>
    om_wf (dd_last D') \<and> dd_threshold D' = dd_threshold D \<and>
    om_get (dd_last D') = (if b then objects es else om_get (dd_last D))"
proof -
  obtain cur found where sc: "scan_entries D es [] False = (cur, found)" by (metis surj_pair)
  note r = scan_entries_result [OF om_wf_Nil sc]
  have gone: "list_ex (\<lambda>kb. om_get cur (fst kb) = None) (dd_last D) \<longleftrightarrow>
      (\<exists>k. om_get (dd_last D) k \<noteq> None \<and> k \<notin> make_key ` set (tracked es))"
  proof -
    have "om_get cur k = None \<longleftrightarrow> k \<notin> make_key ` set (tracked es)" for k
      using r objects_dom [of es k] by (auto simp: map_add_def split: option.splits)
    moreover have "(\<exists>v. (k, v) \<in> set (dd_last D)) \<longleftrightarrow> om_get (dd_last D) k \<noteq> None" for k
      using om_get_Some_iff [OF assms(1)] by auto
    ultimately show ?thesis unfolding list_ex_iff by (metis (no_types, opaque_lifting) prod.collapse fst_conv)
  qed
  have b: "b = (if \<not> found then list_ex (\<lambda>kb. om_get cur (fst kb) = None) (dd_last D) else found)"
    and D': "D' = (if b then D\<lparr>dd_last := cur\<rparr> else D)"
    using assms(2) sc by (auto simp: is_interesting_def Let_def)
  have "b \<longleftrightarrow> changed (dd_threshold D) (om_get (dd_last D)) es"
    unfolding b changed_def using r gone by auto
  moreover have "om_get [] ++ objects es = objects es" by (simp add: map_add_def fun_eq_iff split: option.splits)
  ultimately show ?thesis using r assms(1) D' by simp
qed

section \<open>Runs of the deduper\<close>

text \<open>One frame at the deduper: without allowed detections it forgets its objects.\<close>

definition dedup_step :: "deduper \<Rightarrow> track_entry list \<Rightarrow> deduper" where
  "dedup_step D es = (if es = [] then deduper_reset D else snd (is_interesting D es))"

definition dedup_passes :: "deduper \<Rightarrow> track_entry list \<Rightarrow> bool" where
  "dedup_passes D es \<longleftrightarrow> es \<noteq> [] \<and> fst (is_interesting D es)"

text \<open>The specification keeps only the objects of the frame it compares with.\<close>

definition dedup_spec :: "cfloat \<Rightarrow> (string \<Rightarrow> snapshot option) \<Rightarrow> track_entry list \<Rightarrow> string \<Rightarrow> snapshot option" where
  "dedup_spec thr ref es = (if es = [] then Map.empty else if changed thr ref es then objects es else ref)"

lemma dedup_step_result:
  assumes "om_wf (dd_last D)"
  shows "om_wf (dd_last (dedup_step D es)) \<and> dd_threshold (dedup_step D es) = dd_threshold D \<and>
    om_get (dd_last (dedup_step D es)) = dedup_spec (dd_threshold D) (om_get (dd_last D)) es \<and>
    (dedup_passes D es \<longleftrightarrow> es \<noteq> [] \<and> changed (dd_threshold D) (om_get (dd_last D)) es)"
proof -
  obtain b D' where i: "is_interesting D es = (b, D')" by (metis surj_pair)
  from is_interesting_result [OF assms i] i show ?thesis
    by (auto simp: dedup_step_def dedup_passes_def dedup_spec_def deduper_reset_def fun_eq_iff)
qed

interpretation dedup: refinement dedup_step "\<lambda>D. om_wf (dd_last D) \<and> dd_threshold D = thr"
  "\<lambda>D. om_get (dd_last D)" "dedup_spec thr" for thr
  by unfold_locales (auto simp: dedup_step_result)

definition dedup_run :: "cfloat \<Rightarrow> track_entry list list \<Rightarrow> deduper" where
  "dedup_run thr fs = foldl dedup_step (deduper_new thr) fs"

lemma dedup_run_snoc [simp]: "dedup_run thr (fs @ [es]) = dedup_step (dedup_run thr fs) es"
  by (simp add: dedup_run_def)

lemma dedup_run_wf: "om_wf (dd_last (dedup_run thr fs)) \<and> dd_threshold (dedup_run thr fs) = thr"
  unfolding dedup_run_def by (rule dedup.run_inv) (simp add: deduper_new_def)

lemma dedup_run_passes:
  "dedup_passes (dedup_run thr fs) es \<longleftrightarrow> es \<noteq> [] \<and> changed thr (om_get (dd_last (dedup_run thr fs))) es"
  using dedup_step_result [of "dedup_run thr fs" es] dedup_run_wf [of thr fs] by simp

text \<open>
  The frame compared with: the last one that passed, if no frame without detections came
  after it and it came at all.
\<close>

definition reference_frame :: "cfloat \<Rightarrow> track_entry list list \<Rightarrow> track_entry list \<Rightarrow> bool" where
  "reference_frame thr fs ref \<longleftrightarrow>
     (\<exists>ys zs. fs = ys @ ref # zs \<and> dedup_passes (dedup_run thr ys) ref \<and>
        (\<forall>us z vs. zs = us @ z # vs \<longrightarrow> z \<noteq> [] \<and> \<not> dedup_passes (dedup_run thr (ys @ ref # us)) z))"

lemma dedup_run_reference:
  "om_get (dd_last (dedup_run thr fs)) = Map.empty \<or>
   (\<exists>ref. reference_frame thr fs ref \<and> om_get (dd_last (dedup_run thr fs)) = objects ref)"
proof (induction fs rule: rev_induct)
  case Nil
  show ?case by (simp add: dedup_run_def deduper_new_def fun_eq_iff)
next
  case (snoc es fs)
  have step: "om_get (dd_last (dedup_run thr (fs @ [es]))) = dedup_spec thr (om_get (dd_last (dedup_run thr fs))) es"
    using dedup_step_result [of "dedup_run thr fs" es] dedup_run_wf [of thr fs] by simp
  show ?case
  proof (cases "es = []")
    case True
    then show ?thesis unfolding step by (simp add: dedup_spec_def)
  next
    case ne: False
    show ?thesis
    proof (cases "changed thr (om_get (dd_last (dedup_run thr fs))) es")
      case True
      then have "dedup_passes (dedup_run thr fs) es" using ne by (simp add: dedup_run_passes)
      then have "reference_frame thr (fs @ [es]) es" unfolding reference_frame_def
        by (intro exI [of _ fs] exI [of _ "[]"]) simp
      then show ?thesis using True ne unfolding step by (auto simp: dedup_spec_def)
    next
      case False
      then have same: "om_get (dd_last (dedup_run thr (fs @ [es]))) = om_get (dd_last (dedup_run thr fs))"
        and np: "\<not> dedup_passes (dedup_run thr fs) es"
        using ne unfolding step by (simp_all add: dedup_spec_def dedup_run_passes)
      have "reference_frame thr (fs @ [es]) ref" if r: "reference_frame thr fs ref" for ref
      proof -
        from r obtain ys zs where 1: "fs = ys @ ref # zs" "dedup_passes (dedup_run thr ys) ref"
          "\<And>us z vs. zs = us @ z # vs \<Longrightarrow> z \<noteq> [] \<and> \<not> dedup_passes (dedup_run thr (ys @ ref # us)) z"
          unfolding reference_frame_def by blast
        have "z \<noteq> [] \<and> \<not> dedup_passes (dedup_run thr (ys @ ref # us)) z" if "zs @ [es] = us @ z # vs" for us z vs
        proof (cases vs rule: rev_cases)
          case Nil
          then have "z = es" "us = zs" using that by simp_all
          then show ?thesis using ne np 1(1) by simp
        next
          case (snoc vs' v)
          then have "zs = us @ z # vs'" using that by simp
          then show ?thesis by (rule 1(3))
        qed
        then show ?thesis unfolding reference_frame_def 1(1) using 1(2)
          by (intro exI [of _ ys] exI [of _ "zs @ [es]"]) simp
      qed
      then show ?thesis using snoc.IH unfolding same by blast
    qed
  qed
qed

text \<open>Two frames show the same objects: the same keys, no box moved below the threshold.\<close>

definition same_scene :: "cfloat \<Rightarrow> track_entry list \<Rightarrow> track_entry list \<Rightarrow> bool" where
  "same_scene thr ref es \<longleftrightarrow>
     make_key ` set (tracked ref) = make_key ` set (tracked es) \<and>
     (\<forall>e \<in> set (tracked es). \<exists>old. objects ref (make_key e) = Some old \<and> \<not> flt (snap_iou (snapshot_of e) old) thr)"

lemma not_changed_same: "\<not> changed thr (objects ref) es \<longleftrightarrow> same_scene thr ref es"
proof
  assume n: "\<not> changed thr (objects ref) es"
  then have 1: "k \<in> make_key ` set (tracked es)" if "k \<in> make_key ` set (tracked ref)" for k
    using that objects_dom [of ref k] unfolding changed_def by blast
  have 2: "\<exists>old. objects ref (make_key e) = Some old \<and> \<not> flt (snap_iou (snapshot_of e) old) thr" if "e \<in> set (tracked es)" for e
    using n that unfolding changed_def by (cases "objects ref (make_key e)") auto
  then have "k \<in> make_key ` set (tracked ref)" if "k \<in> make_key ` set (tracked es)" for k
    using that objects_dom [of ref k] by force
  with 1 2 show "same_scene thr ref es" unfolding same_scene_def by blast
next
  assume s: "same_scene thr ref es"
  then have gone: "objects ref k \<noteq> None \<Longrightarrow> k \<in> make_key ` set (tracked es)" for k
    using objects_dom [of ref k] unfolding same_scene_def by blast
  have kept: "\<not> (case objects ref (make_key e) of None \<Rightarrow> True | Some old \<Rightarrow> flt (snap_iou (snapshot_of e) old) thr)"
    if "e \<in> set (tracked es)" for e
  proof -
    from s that obtain old where "objects ref (make_key e) = Some old" "\<not> flt (snap_iou (snapshot_of e) old) thr"
      unfolding same_scene_def by blast
    then show ?thesis by simp
  qed
  show "\<not> changed thr (objects ref) es"
  proof
    assume "changed thr (objects ref) es"
    then show False unfolding changed_def
    proof (elim disjE bexE exE conjE)
      fix k assume "objects ref k \<noteq> None" "k \<notin> make_key ` set (tracked es)"
      then show False using gone by blast
    qed (use kept in blast)
  qed
qed


section \<open>The element: what is removed and what passes\<close>

fun allowed_rois :: "buf_meta list \<Rightarrow> roi list" where
  "allowed_rois [] = []"
| "allowed_rois (RoiMeta r # ms) = (if is_allowed (label_of r) then r # allowed_rois ms else allowed_rois ms)"
| "allowed_rois (OtherMeta k # ms) = allowed_rois ms"

fun keeps :: "buf_meta \<Rightarrow> bool" where
  "keeps (RoiMeta r) = is_allowed (label_of r)"
| "keeps (OtherMeta k) = True"

fun places :: "nat \<Rightarrow> buf_meta list \<Rightarrow> nat list" where
  "places i [] = []"
| "places i (m # ms) = (if keeps m then places (Suc i) ms else i # places (Suc i) ms)"

lemma collect_rois_result:
  "collect_rois fw fh ms es rm i = (es @ map (roi_entry fw fh) (allowed_rois ms), rm @ places i ms)"
  by (induction fw fh ms es rm i rule: collect_rois.induct) simp_all

lemma places_ge: "j \<in> set (places i ms) \<Longrightarrow> i \<le> j"
  by (induction i ms rule: places.induct) (auto split: if_splits dest: Suc_leD)

lemma remove_places: "remove_metas (places 0 ms) ms = filter keeps ms"
proof -
  have "map snd (filter (\<lambda>(j, m). j \<notin> set (places i ms)) (zip [i..<i + length ms] ms)) = filter keeps ms" for i
  proof (induction ms arbitrary: i)
    case (Cons m ms)
    define Z where "Z = zip [Suc i..<Suc i + length ms] ms"
    have z: "zip [i..<i + length (m # ms)] (m # ms) = (i, m) # Z"
      unfolding Z_def by (subst upt_conv_Cons) simp_all
    have low: "i \<notin> set (places (Suc i) ms)" using places_ge [of i "Suc i" ms] by auto
    have "j \<noteq> i" if "(j, x) \<in> set Z" for j x
      using that unfolding Z_def by (auto dest!: set_zip_leftD)
    then have "filter (\<lambda>(j, x). j \<notin> set (places i (m # ms))) Z = filter (\<lambda>(j, x). j \<notin> set (places (Suc i) ms)) Z"
      by (intro filter_cong) auto
    moreover have "i \<in> set (places i (m # ms)) \<longleftrightarrow> \<not> keeps m" using low by simp
    ultimately show ?case
      unfolding z using Cons.IH [of "Suc i", folded Z_def] by (simp del: places.simps)
  qed simp
  from this [of 0] show ?thesis by (simp add: remove_metas_def)
qed

text \<open>
  The element on one buffer: exactly the regions of classes outside the white list leave,
  all other metadata stays in its order, whether the buffer passes or not; it passes exactly
  when some allowed region is left and the deduper finds the frame changed; the deduper moves
  on by that frame; and every frame is counted once, as passed or as dropped.
\<close>

theorem transform_ip_exact:
  assumes "gd_deduper g = Some D" "gd_width g \<noteq> 0" "gd_height g \<noteq> 0" "om_wf (dd_last D)"
    "transform_ip us ms g = (ret, ms', g')"
  shows "ms' = filter keeps ms \<and>
    (let es = map (roi_entry (gd_width g) (gd_height g)) (allowed_rois ms) in
      gd_deduper g' = Some (dedup_step D es) \<and>
      ret = (if es \<noteq> [] \<and> changed (dd_threshold D) (om_get (dd_last D)) es then FlowOk else FlowDropped) \<and>
      gd_total g' = gd_total g + 1 \<and>
      gd_passed g' = gd_passed g + (if ret = FlowOk then 1 else 0) \<and>
      gd_dropped g' = gd_dropped g + (if ret = FlowOk then 0 else 1))"
proof -
  define es where "es = map (roi_entry (gd_width g) (gd_height g)) (allowed_rois ms)"
  obtain b D' where i: "is_interesting D es = (b, D')" by (metis surj_pair)
  have b: "b \<longleftrightarrow> changed (dd_threshold D) (om_get (dd_last D)) es" using is_interesting_result [OF assms(4) i] by simp
  have "transform_ip us ms g =
    (if es = [] then (FlowDropped, filter keeps ms, record_time us (g\<lparr>gd_total := gd_total g + 1,
        gd_dropped := gd_dropped g + 1, gd_deduper := Some (deduper_reset D)\<rparr>))
     else if \<not> b then (FlowDropped, filter keeps ms, (record_time us (g\<lparr>gd_total := gd_total g + 1,
        gd_deduper := Some D'\<rparr>))\<lparr>gd_dropped := gd_dropped g + 1\<rparr>)
     else (FlowOk, filter keeps ms, (record_time us (g\<lparr>gd_total := gd_total g + 1,
        gd_deduper := Some D'\<rparr>))\<lparr>gd_passed := gd_passed g + 1\<rparr>))"
    using assms(1-3) i by (simp add: transform_ip_def Let_def collect_rois_result remove_places record_time_def es_def)
  then show ?thesis
    using assms(5) i unfolding b es_def [symmetric] Let_def
    by (auto simp: record_time_def dedup_step_def split: if_splits)
qed

definition ex_roi :: "string \<Rightarrow> u32 \<Rightarrow> roi" where
  "ex_roi label x = \<lparr>roi_type = Some label, roi_id = 0, roi_x = x, roi_y = 0, roi_w = 8, roi_h = 8,
     roi_params = [\<lparr>gs_tracking_id = Some 5, gs_confidence = None\<rparr>]\<rparr>"

definition ex_gd :: gst_deduper where
  "ex_gd = snd (gd_set_caps (Some (16, 16)) gd_init)"

theorem transform_ip_exact_witness:
  "\<exists>g'. transform_ip 3 [RoiMeta (ex_roi ''dog'' 0), OtherMeta 1, RoiMeta (ex_roi ''car'' 4)] ex_gd =
     (FlowOk, [OtherMeta 1, RoiMeta (ex_roi ''car'' 4)], g') \<and> gd_passed g' = 1"
proof -
  let ?ms = "[RoiMeta (ex_roi ''dog'' 0), OtherMeta 1, RoiMeta (ex_roi ''car'' 4)]"
  obtain ret ms' g' where t: "transform_ip 3 ?ms ex_gd = (ret, ms', g')" by (metis surj_pair)
  have g: "gd_deduper ex_gd = Some (deduper_new (Fin (3 / 4)))" "gd_width ex_gd \<noteq> 0" "gd_height ex_gd \<noteq> 0"
    by (simp_all add: ex_gd_def gd_set_caps_def gd_init_def)
  have a: "is_allowed (label_of (ex_roi ''car'' 4))" "\<not> is_allowed (label_of (ex_roi ''dog'' 0))"
    by (simp_all add: is_allowed_def allowed_classes_def label_of_def ex_roi_def)
  have "changed (Fin (3 / 4)) Map.empty (map (roi_entry (gd_width ex_gd) (gd_height ex_gd)) [ex_roi ''car'' 4])"
    by (simp add: changed_def tracked_def roi_entry_def ex_roi_def tracking_id_def)
  moreover have "om_get ([] :: (string, snapshot) omap) = Map.empty" by (simp add: fun_eq_iff)
  ultimately show ?thesis
    using transform_ip_exact [OF g _ t] t a
    by (auto simp: deduper_new_def Let_def ex_gd_def gd_set_caps_def gd_init_def)
qed

section \<open>A frame that does not change\<close>

lemma fsub_Fin: "fsub f (Fin a) (Fin b) = fl f (a - b)"
  by (simp add: fsub_def)

text \<open>A box with a positive finite area overlaps itself completely.\<close>

lemma snap_iou_self:
  assumes "fsub B64 (sn_right s) (sn_left s) = Fin w" "fsub B64 (sn_bottom s) (sn_top s) = Fin h"
    "0 < w" "0 < h" "fmul B64 (Fin w) (Fin h) = Fin a" "0 < a" "a \<le> 2 powi 1000"
  shows "snap_iou s s = Fin 1"
proof -
  have self: "fmax x x = x" "fmin x x = x" for x by (simp_all add: fmax_def fmin_def)
  have pos: "fmax (Fin 0) (Fin w) = Fin w" "fmax (Fin 0) (Fin h) = Fin h" using assms(3,4) by (simp_all add: fmax_def)
  have a: "rnd B64 a = a"
  proof -
    have "rnd B64 (w * h) = a" using assms(5) by (auto simp: fl_def Let_def split: if_splits)
    then show ?thesis using rnd_idem by metis
  qed
  define P where "P = (2 :: rat) powi (emax B64 + 1)"
  define H where "H = (2 :: rat) powi 1000"
  have "2 powi (1000 + 1) < P" unfolding P_def by (rule two_powi_strict) simp
  then have half: "H + H < P" unfolding two_powi_Suc H_def by linarith
  have H: "a \<le> H" "1 \<le> H" unfolding H_def using assms(7) two_powi_mono [of 0 1000] by simp_all
  have fin: "fl B64 x = Fin x" if "rnd B64 x = x" "0 \<le> x" "x < P" for x
    using that unfolding fl_def Let_def P_def [symmetric] by simp
  have "rnd B64 (2 * a) = 2 * a" using rnd_twice [of B64 a] unfolding a .
  then have dbl: "rnd B64 (a + a) = a + a" unfolding mult_2 .
  have lt: "a < P" "1 < P" "a + a < P" using half H by linarith+
  have "fl B64 (a + a) = Fin (a + a)" using fin [OF dbl] assms(6) lt(3) by simp
  moreover have "fl B64 (a + a - a) = Fin a" using fin [OF a] assms(6) lt(1) by simp
  moreover have "fl B64 (a / a) = Fin 1" using fin [of 1] r_1 assms(6) lt(2) by simp
  ultimately show ?thesis
    using assms unfolding snap_iou_def self Let_def by (simp add: pos fsub_Fin fle_def feq_def)
qed

lemma objects_of_entry:
  assumes "distinct (map make_key (tracked es))" "e \<in> set (tracked es)"
  shows "objects es (make_key e) = Some (snapshot_of e)"
proof -
  have "distinct (map fst (rev (map (\<lambda>e. (make_key e, snapshot_of e)) (tracked es))))"
    using assms(1) by (simp add: rev_map [symmetric] o_def)
  moreover have "(make_key e, snapshot_of e) \<in> set (rev (map (\<lambda>e. (make_key e, snapshot_of e)) (tracked es)))"
    using assms(2) by force
  ultimately show ?thesis unfolding objects_def by (rule map_of_is_SomeI)
qed

text \<open>The same frame again is held back, when its keys differ and its boxes have areas.\<close>

lemma repeat_held_back:
  assumes "distinct (map make_key (tracked es))" "\<not> flt (Fin 1) thr"
    "\<forall>e \<in> set (tracked es). snap_iou (snapshot_of e) (snapshot_of e) = Fin 1"
  shows "\<not> dedup_passes (dedup_run thr (fs @ [es])) es"
proof (cases "es = []")
  case False
  define ref where "ref = om_get (dd_last (dedup_run thr fs))"
  have "om_get (dd_last (dedup_run thr (fs @ [es]))) = dedup_spec thr ref es"
    using dedup_step_result [of "dedup_run thr fs" es] dedup_run_wf [of thr fs] by (simp add: ref_def)
  moreover have "\<not> changed thr (dedup_spec thr ref es) es"
  proof (cases "changed thr ref es")
    case True
    have "same_scene thr es es"
      using assms objects_of_entry unfolding same_scene_def by force
    then show ?thesis using True False by (simp add: dedup_spec_def not_changed_same)
  next
    case n: False
    then show ?thesis using False by (simp add: dedup_spec_def)
  qed
  ultimately show ?thesis using False by (simp only: dedup_run_passes simp_thms)
qed (simp add: dedup_passes_def)

definition ex_entry :: track_entry where
  "ex_entry = \<lparr>te_label = ''car'', te_track = 5, te_left = Fin 0, te_top = Fin 0, te_right = Fin 1, te_bottom = Fin 1\<rparr>"

end
