(* ===== verification/FrameOffload.thy ===== *)
theory FrameOffload
  imports SceneWire Deduper FaceGallery Producer
begin

text \<open>
  The element that turns a frame into a record (\<open>channel_worker/frame_offload/FrameOffload.cpp\<close>
  and \<open>gst_plugin/gstframeoffload.cpp\<close>): it hands the picture to the producer, reads regions
  and faces off the buffer, links faces to persons, looks identities up in the gallery, and
  serialises the record. The clock, GStreamer's mapping calls and the files are arguments.
\<close>

section \<open>What a buffer carries\<close>

record face_entry =
  fe_x1 :: cfloat
  fe_y1 :: cfloat
  fe_x2 :: cfloat
  fe_y2 :: cfloat
  fe_score :: cfloat
  fe_landmarks :: "(cfloat \<times> cfloat) list"
  fe_embedding :: "cfloat list"
  fe_has_embedding :: bool

text \<open>Whether it can be mapped, its bytes, the stride and offset of its video metadata if it has one.\<close>

record offload_buffer =
  ob_mapped :: bool
  ob_data :: "int \<Rightarrow> u8"
  ob_layout :: "(int \<times> int) option"
  ob_pts :: u64
  ob_metas :: "buf_meta list"
  ob_faces :: "face_entry list option"

section \<open>State\<close>

record offload_config =
  oc_channel :: u32
  oc_scene_update :: bool
  oc_meta_width :: u32
  oc_meta_height :: u32
  oc_gallery :: bool
  oc_threshold :: cfloat
  oc_min_face_size :: u32
  oc_min_score :: cfloat
  oc_out_dir :: string

record frame_offload =
  fo_config :: offload_config
  fo_processed :: u64
  fo_counter :: u64
  fo_last_ts :: u64
  fo_faces :: "u32 \<Rightarrow> int option"
  fo_seen :: "u32 \<Rightarrow> u64 option"
  fo_file :: "string list option"

definition jsonl_path :: "offload_config \<Rightarrow> string" where
  "jsonl_path c = oc_out_dir c @ ''/scene_update_ch'' @ show_u32 (oc_channel c) @ ''.jsonl''"

definition offload_new :: "(string \<Rightarrow> bool) \<Rightarrow> offload_config \<Rightarrow> frame_offload" where
  "offload_new can_open c = \<lparr>fo_config = c, fo_processed = 0, fo_counter = 0, fo_last_ts = 0,
     fo_faces = Map.empty, fo_seen = Map.empty,
     fo_file = (if oc_out_dir c \<noteq> [] \<and> can_open (jsonl_path c) then Some [] else None)\<rparr>"

definition write_scene_jsonl :: "string \<Rightarrow> frame_offload \<Rightarrow> frame_offload" where
  "write_scene_jsonl json s = s\<lparr>fo_file := map_option (\<lambda>ls. ls @ [json]) (fo_file s)\<rparr>"

section \<open>Detections\<close>

definition roi_detection :: "u32 \<Rightarrow> u32 \<Rightarrow> roi \<Rightarrow> detection_record" where
  "roi_detection fw fh r =
     \<lparr>det_class_id = roi_id r, det_track = tracking_id (roi_params r) 0, det_label = label_of r,
      det_score = foldl (\<lambda>c s. case gs_confidence s of None \<Rightarrow> c | Some x \<Rightarrow> x) (Fin 0) (roi_params r),
      det_left = norm_coord (roi_x r) fw, det_top = norm_coord (roi_y r) fh,
      det_right = norm_coord (roi_x r + roi_w r) fw, det_bottom = norm_coord (roi_y r + roi_h r) fh,
      det_face = None\<rparr>"

fun roi_detections :: "u32 \<Rightarrow> u32 \<Rightarrow> buf_meta list \<Rightarrow> detection_record list" where
  "roi_detections fw fh [] = []"
| "roi_detections fw fh (RoiMeta r # ms) = roi_detection fw fh r # roi_detections fw fh ms"
| "roi_detections fw fh (OtherMeta k # ms) = roi_detections fw fh ms"

section \<open>Linking a face to a person\<close>

definition face_center :: "face_entry \<Rightarrow> cfloat \<times> cfloat" where
  "face_center e = (fmul B32 (fadd B32 (fe_x1 e) (fe_x2 e)) (Fin (1 / 2)), fmul B32 (fadd B32 (fe_y1 e) (fe_y2 e)) (Fin (1 / 2)))"

text \<open>The score of a person for a face, None when the centre of the face is outside.\<close>

definition person_score :: "u32 \<Rightarrow> u32 \<Rightarrow> cfloat \<times> cfloat \<Rightarrow> detection_record \<Rightarrow> cfloat option" where
  "person_score fw fh c d =
     (let abs_left = fmul B64 (det_left d) (double_of_u32 fw);
          abs_top = fmul B64 (det_top d) (double_of_u32 fh);
          abs_right = fmul B64 (det_right d) (double_of_u32 fw);
          abs_bottom = fmul B64 (det_bottom d) (double_of_u32 fh)
      in if fle abs_left (fst c) \<and> fle (fst c) abs_right \<and> fle abs_top (snd c) \<and> fle (snd c) abs_bottom then
           (let mid_y = fmul B64 (fadd B64 abs_top abs_bottom) (Fin (1 / 2));
                in_upper = fle (snd c) mid_y;
                area = fmul B64 (fsub B64 abs_right abs_left) (fsub B64 abs_bottom abs_top);
                area = (if flt area (Fin 1) then Fin 1 else area)
            in Some (fadd B64 (if in_upper then Fin 1000000 else Fin 0) (fdiv B64 (Fin 1) area)))
         else None)"

fun best_person ::
  "(detection_record \<Rightarrow> cfloat option) \<Rightarrow> detection_record list \<Rightarrow> nat \<Rightarrow> nat option \<times> cfloat \<Rightarrow> nat option \<times> cfloat" where
  "best_person score [] di best = best"
| "best_person score (d # ds) di best =
     best_person score ds (Suc di)
       (case score d of
          None \<Rightarrow> best
        | Some sc \<Rightarrow> if flt (snd best) sc then (Some di, sc) else best)"

section \<open>Identities\<close>

definition face_size :: "face_entry \<Rightarrow> cfloat" where
  "face_size e =
     (let face_w = fsub B32 (fe_x2 e) (fe_x1 e); face_h = fsub B32 (fe_y2 e) (fe_y1 e)
      in if flt face_w face_h then face_w else face_h)"

definition float_of_u32 :: "u32 \<Rightarrow> cfloat" where
  "float_of_u32 w = fl B32 (of_nat (unat w))"

text \<open>
  The identity of a face linked to a track: from the cache, from the gallery, or newly
  enrolled when the face is large and sure enough. The cache, the gallery and what an
  enrolment wrote to the gallery's file are returned.
\<close>

definition identify ::
  "offload_config \<Rightarrow> bool \<Rightarrow> face_entry \<Rightarrow> u32 \<Rightarrow> (u32 \<Rightarrow> int option) \<Rightarrow> gallery \<Rightarrow>
     (int \<times> cfloat) \<times> (u32 \<Rightarrow> int option) \<times> gallery \<times> json option" where
  "identify c write_ok e tid cache G =
     (if \<not> (oc_gallery c \<and> fe_has_embedding e) then ((- 1, Fin 0), cache, G, None)
      else
        case cache tid of
          Some i \<Rightarrow> ((i, Fin 1), cache, G, None)
        | None \<Rightarrow>
            (let r = gallery_match G (Some (fe_embedding e)) (oc_threshold c) in
             if mr_id r \<ge> 0 then ((mr_id r, mr_similarity r), cache(tid \<mapsto> mr_id r), G, None)
             else if fle (float_of_u32 (oc_min_face_size c)) (face_size e) \<and> fle (oc_min_score c) (fe_score e) then
               (let (new_id, G', w) = gallery_enroll write_ok (Some (fe_embedding e)) G
                in ((new_id, Fin 0), cache(tid \<mapsto> new_id), G', w))
             else ((- 1, Fin 0), cache, G, None)))"

definition norm_float :: "cfloat \<Rightarrow> u32 \<Rightarrow> cfloat" where
  "norm_float x w = (if w > 0 then fdiv B32 x (float_of_u32 w) else Fin 0)"

definition linked_face :: "u32 \<Rightarrow> u32 \<Rightarrow> face_entry \<Rightarrow> u32 \<Rightarrow> int \<times> cfloat \<Rightarrow> face_info" where
  "linked_face fw fh e tid ident =
     \<lparr>fi_confidence = fe_score e,
      fi_box = [norm_float (fe_x1 e) fw, norm_float (fe_y1 e) fh, norm_float (fe_x2 e) fw, norm_float (fe_y2 e) fh],
      fi_landmarks = concat (map (\<lambda>(x, y). [norm_float x fw, norm_float y fh]) (fe_landmarks e)),
      fi_embedding = (if fe_has_embedding e then fe_embedding e else []),
      fi_track = tid, fi_face_id = fst ident, fi_similarity = snd ident\<rparr>"

text \<open>The loop over the faces: the detections, the cache, the gallery and the last gallery file written.\<close>

fun face_loop ::
  "offload_config \<Rightarrow> bool \<Rightarrow> u32 \<Rightarrow> u32 \<Rightarrow> face_entry list \<Rightarrow> detection_record list \<Rightarrow>
     (u32 \<Rightarrow> int option) \<Rightarrow> gallery \<Rightarrow> json option \<Rightarrow>
     detection_record list \<times> (u32 \<Rightarrow> int option) \<times> gallery \<times> json option" where
  "face_loop c wok fw fh [] ds cache G out = (ds, cache, G, out)"
| "face_loop c wok fw fh (e # es) ds cache G out =
     (case fst (best_person (person_score fw fh (face_center e)) ds 0 (None, Fin (- 1))) of
        None \<Rightarrow> face_loop c wok fw fh es ds cache G out
      | Some i \<Rightarrow>
          (let tid = det_track (ds ! i);
               (ident, cache, G, w) = identify c wok e tid cache G
           in face_loop c wok fw fh es
                (ds[i := (ds ! i)\<lparr>det_face := Some (linked_face fw fh e tid ident)\<rparr>]) cache G
                (case w of None \<Rightarrow> out | Some _ \<Rightarrow> w)))"

section \<open>Records\<close>

definition evicted :: "u64 \<Rightarrow> (u32 \<Rightarrow> u64 option) \<Rightarrow> u32 \<Rightarrow> bool" where
  "evicted n seen k = (case seen k of None \<Rightarrow> False | Some t \<Rightarrow> n - t > 300)"

text \<open>Dropping the tracks that were not seen for more than 300 frames, every 100 frames.\<close>

definition evict :: "frame_offload \<Rightarrow> frame_offload" where
  "evict s =
     (if fo_processed s mod 100 = 0 then
        s\<lparr>fo_faces := (\<lambda>k. if evicted (fo_processed s) (fo_seen s) k then None else fo_faces s k),
          fo_seen := (\<lambda>k. if evicted (fo_processed s) (fo_seen s) k then None else fo_seen s k)\<rparr>
      else s)"

definition next_ts :: "u64 \<Rightarrow> u64 \<Rightarrow> u64" where
  "next_ts now last_ts = (if now \<le> last_ts then last_ts + 1 else now)"

definition extract_record ::
  "bool \<Rightarrow> u64 \<Rightarrow> offload_buffer \<Rightarrow> u32 \<Rightarrow> u32 \<Rightarrow> int \<Rightarrow> frame_offload \<Rightarrow> gallery \<Rightarrow>
     frame_record \<times> frame_offload \<times> gallery \<times> json option" where
  "extract_record wok now buf fw fh image_path s G =
     (let c = fo_config s;
          ds = (if fw > 0 \<and> fh > 0 then roi_detections fw fh (ob_metas buf) else []);
          (ds, cache, G, out) =
            (case ob_faces buf of
               None \<Rightarrow> (ds, fo_faces s, G, None)
             | Some es \<Rightarrow> face_loop c wok fw fh es ds (fo_faces s) G None);
          ts = next_ts now (fo_last_ts s);
          r = \<lparr>frm_channel = oc_channel c, frm_image_path = image_path, frm_id = fo_counter s, frm_ts = ts, frm_dets = ds\<rparr>;
          n = fo_processed s + 1;
          s = s\<lparr>fo_faces := cache, fo_counter := fo_counter s + 1, fo_last_ts := ts, fo_processed := n,
                fo_seen := foldl (\<lambda>m d. m(det_track d \<mapsto> n)) (fo_seen s) ds\<rparr>
      in (r, evict s, G, out))"

definition record_text :: "offload_config \<Rightarrow> frame_record \<Rightarrow> string" where
  "record_text c r =
     (if oc_scene_update c then serialize_scene_source r (oc_meta_width c) (oc_meta_height c) else serialize r)"

definition extract_and_serialize ::
  "bool \<Rightarrow> u64 \<Rightarrow> offload_buffer \<Rightarrow> u32 \<Rightarrow> u32 \<Rightarrow> int \<Rightarrow> frame_offload \<Rightarrow> gallery \<Rightarrow>
     string \<times> frame_offload \<times> gallery \<times> json option" where
  "extract_and_serialize wok now buf fw fh image_path s G =
     (case extract_record wok now buf fw fh image_path s G of
        (r, s', G, out) \<Rightarrow> (record_text (fo_config s) r, s', G, out))"

section \<open>The element\<close>

record gst_offload =
  go_offload :: "frame_offload option"
  go_producer :: bool
  go_channel :: u32
  go_width :: int
  go_height :: int
  go_scene_update :: bool
  go_meta_width :: u32
  go_meta_height :: u32
  go_gallery :: bool
  go_threshold :: cfloat
  go_min_face_size :: u32
  go_min_score :: cfloat
  go_out_dir :: "string option"

definition go_init :: gst_offload where
  "go_init = \<lparr>go_offload = None, go_producer = False, go_channel = 0, go_width = 0, go_height = 0,
     go_scene_update = False, go_meta_width = 0, go_meta_height = 0, go_gallery = False,
     go_threshold = fl B32 (3 / 10), go_min_face_size = 40, go_min_score = fl B32 (6 / 10), go_out_dir = None\<rparr>"

text \<open>The caps event; the size is None when the caps do not tell one. The text caps are sent either way.\<close>

definition go_caps :: "(int \<times> int) option \<Rightarrow> gst_offload \<Rightarrow> gst_offload" where
  "go_caps video g = (case video of None \<Rightarrow> g | Some (w, h) \<Rightarrow> g\<lparr>go_width := w, go_height := h\<rparr>)"

definition offload_config_of :: "gst_offload \<Rightarrow> offload_config" where
  "offload_config_of g = \<lparr>oc_channel = go_channel g, oc_scene_update = go_scene_update g,
     oc_meta_width = go_meta_width g, oc_meta_height = go_meta_height g, oc_gallery = go_gallery g,
     oc_threshold = go_threshold g, oc_min_face_size = go_min_face_size g, oc_min_score = go_min_score g,
     oc_out_dir = (case go_out_dir g of None \<Rightarrow> [] | Some d \<Rightarrow> d)\<rparr>"

definition go_to_paused :: "(string \<Rightarrow> bool) \<Rightarrow> gst_offload \<Rightarrow> gst_offload" where
  "go_to_paused can_open g = g\<lparr>go_offload := Some (offload_new can_open (offload_config_of g))\<rparr>"

definition go_to_ready :: "gst_offload \<Rightarrow> gst_offload" where
  "go_to_ready g = g\<lparr>go_offload := None, go_width := 0, go_height := 0\<rparr>"

text \<open>
  The chain function on the element, the producer and the gallery. The answer tells the
  flow and the text pushed downstream.
\<close>

definition offload_submit ::
  "submit_env \<Rightarrow> offload_buffer \<Rightarrow> gst_offload \<Rightarrow> producer \<Rightarrow> int \<times> producer \<times> io_event list" where
  "offload_submit env buf g pr =
     (let fw = u32_of_int (go_width g); fh = u32_of_int (go_height g) in
      if go_producer g \<and> fw > 0 \<and> fh > 0 \<and> ob_mapped buf then
        (let (y_stride, uv_offset) =
               (case ob_layout buf of
                  Some (st, off) \<Rightarrow> (st, off)
                | None \<Rightarrow> (int_of_u32 fw, int_of_u32 fw * int_of_u32 fh))
         in case submit_frame env (ob_data buf) (int_of_u32 fw) (int_of_u32 fh) y_stride uv_offset (ob_pts buf) pr of
              (Inl e, pr', ev) \<Rightarrow> (- 1, pr', ev)
            | (Inr idx, pr', ev) \<Rightarrow> (int_of_u32 idx, pr', ev))
      else (- 1, pr, []))"

definition offload_chain ::
  "submit_env \<Rightarrow> bool \<Rightarrow> u64 \<Rightarrow> offload_buffer \<Rightarrow> gst_offload \<Rightarrow> producer \<Rightarrow> gallery \<Rightarrow>
     (flow \<times> string option) \<times> gst_offload \<times> producer \<times> gallery \<times> io_event list" where
  "offload_chain env wok now buf g pr G =
     (case go_offload g of
        None \<Rightarrow> ((FlowError, None), g, pr, G, [])
      | Some s \<Rightarrow>
          (let (image_path, pr', ev) = offload_submit env buf g pr in
           if image_path < 0 then ((FlowOk, None), g, pr', G, ev)
           else
             let (json, s', G', out) =
                   extract_and_serialize wok now buf (u32_of_int (go_width g)) (u32_of_int (go_height g)) image_path s G;
                 write = (\<lambda>s. if go_out_dir g \<noteq> None \<and> json \<noteq> [] then write_scene_jsonl json s else s);
                 s'' = write (write s')
             in ((FlowOk, Some json), g\<lparr>go_offload := Some s''\<rparr>, pr', G', ev)))"

section \<open>Which person a face is linked to\<close>

lemma best_person_spec:
  assumes "best_person score ds di best = (bi, bs)"
  shows "\<not> flt bs (snd best) \<and>
    (\<forall>j < length ds. \<forall>sc. score (ds ! j) = Some sc \<longrightarrow> \<not> flt bs sc) \<and>
    ((bi, bs) = best \<or> (\<exists>j < length ds. bi = Some (di + j) \<and> score (ds ! j) = Some bs \<and> flt (snd best) bs))"
  using assms
proof (induction score ds di best rule: best_person.induct)
  case (2 score d ds di best)
  define b where "b = (case score d of None \<Rightarrow> best | Some sc \<Rightarrow> if flt (snd best) sc then (Some di, sc) else best)"
  have "best_person score ds (Suc di) b = (bi, bs)" using 2(2) by (simp add: b_def)
  note ih = 2(1) [folded b_def, OF this]
  have b: "b = best \<or> (\<exists>sc. score d = Some sc \<and> flt (snd best) sc \<and> b = (Some di, sc))"
    by (auto simp: b_def split: option.splits)
  have first: "\<not> flt bs sc" if "score d = Some sc" for sc
  proof (cases "flt (snd best) sc")
    case True
    then have "snd b = sc" using that by (simp add: b_def)
    then show ?thesis using ih by simp
  next
    case False
    then have "snd b = snd best" using that by (simp add: b_def)
    moreover have "\<not> flt bs (snd b)" "bs = snd b \<or> flt (snd b) bs" using ih by auto
    ultimately show ?thesis using False flt_not_less by metis
  qed
  have low: "\<not> flt bs (snd best)"
  proof
    assume l: "flt bs (snd best)"
    have "\<not> flt bs (snd b)" using ih by simp
    with b l show False by (auto dest: flt_trans)
  qed
  have "\<forall>j < length (d # ds). \<forall>sc. score ((d # ds) ! j) = Some sc \<longrightarrow> \<not> flt bs sc"
    using ih first by (auto simp: nth_Cons split: nat.splits)
  moreover have "(bi, bs) = best \<or> (\<exists>j < length (d # ds). bi = Some (di + j) \<and> score ((d # ds) ! j) = Some bs \<and> flt (snd best) bs)"
  proof (cases "(bi, bs) = b")
    case True
    from b show ?thesis
    proof
      assume "\<exists>sc. score d = Some sc \<and> flt (snd best) sc \<and> b = (Some di, sc)"
      then show ?thesis using True by (intro disjI2 exI [of _ 0]) auto
    qed (use True in simp)
  next
    case False
    with ih obtain j where j: "j < length ds" "bi = Some (Suc di + j)" "score (ds ! j) = Some bs" "flt (snd b) bs"
      by blast
    from b have "flt (snd best) bs"
    proof
      assume "\<exists>sc. score d = Some sc \<and> flt (snd best) sc \<and> b = (Some di, sc)"
      then show ?thesis using j(4) by (auto dest: flt_trans)
    qed (use j(4) in simp)
    then show ?thesis using j by (intro disjI2 exI [of _ "Suc j"]) simp
  qed
  ultimately show ?case using low by blast
qed simp

text \<open>The parts of a person's score.\<close>

definition person_area :: "u32 \<Rightarrow> u32 \<Rightarrow> detection_record \<Rightarrow> cfloat" where
  "person_area fw fh d =
     fmul B64 (fsub B64 (fmul B64 (det_right d) (double_of_u32 fw)) (fmul B64 (det_left d) (double_of_u32 fw)))
       (fsub B64 (fmul B64 (det_bottom d) (double_of_u32 fh)) (fmul B64 (det_top d) (double_of_u32 fh)))"

definition inside_person :: "u32 \<Rightarrow> u32 \<Rightarrow> cfloat \<times> cfloat \<Rightarrow> detection_record \<Rightarrow> bool" where
  "inside_person fw fh c d \<longleftrightarrow>
     fle (fmul B64 (det_left d) (double_of_u32 fw)) (fst c) \<and> fle (fst c) (fmul B64 (det_right d) (double_of_u32 fw)) \<and>
     fle (fmul B64 (det_top d) (double_of_u32 fh)) (snd c) \<and> fle (snd c) (fmul B64 (det_bottom d) (double_of_u32 fh))"

definition upper_half :: "u32 \<Rightarrow> cfloat \<times> cfloat \<Rightarrow> detection_record \<Rightarrow> bool" where
  "upper_half fh c d \<longleftrightarrow>
     fle (snd c) (fmul B64 (fadd B64 (fmul B64 (det_top d) (double_of_u32 fh)) (fmul B64 (det_bottom d) (double_of_u32 fh))) (Fin (1 / 2)))"

lemma person_score_parts:
  "person_score fw fh c d =
     (if inside_person fw fh c d
      then Some (fadd B64 (if upper_half fh c d then Fin 1000000 else Fin 0)
             (fdiv B64 (Fin 1) (if flt (person_area fw fh d) (Fin 1) then Fin 1 else person_area fw fh d)))
      else None)"
  by (simp add: person_score_def inside_person_def upper_half_def person_area_def Let_def)

lemma fl_B64_small:
  assumes "0 \<le> q" "q \<le> 2000000"
  shows "fl B64 q = Fin (rnd B64 q)"
proof -
  define P where "P = (2 :: rat) powi (emax B64 + 1)"
  have "rnd B64 q \<le> rnd B64 (2 powi 21)" using assms by (intro rnd_mono) simp
  also have "\<dots> = 2 powi 21" by (rule rnd_powi) simp
  also have "\<dots> < P" unfolding P_def by (rule two_powi_strict) simp
  finally have "rnd B64 q < P" .
  moreover have "0 \<le> rnd B64 q" using assms(1) by (rule rnd_nonneg)
  ultimately show ?thesis unfolding fl_def Let_def P_def [symmetric] by simp
qed

lemma rnd_million: "rnd B64 1000000 = 1000000"
proof -
  have "ilog2 1000000 = 19" by (rule ilog2_unique) simp_all
  then have q: "quantum B64 1000000 = (1 / 2) ^ 33" by (simp add: quantum_def power_int_def)
  have "(1000000 :: rat) / (1 / 2) ^ 33 = of_int 8589934592000000" by (simp add: power_divide)
  then have "round_even (1000000 / (1 / 2) ^ 33) = 8589934592000000" by (simp only: round_even_of_int)
  then show ?thesis unfolding rnd_def q by (simp add: power_divide)
qed

text \<open>A score is in [0, 1] for the lower half and at least a million for the upper half.\<close>

lemma person_score_range:
  assumes "person_score fw fh c d = Some sc" "person_area fw fh d = Fin a"
  shows "\<exists>q. sc = Fin q \<and> (if upper_half fh c d then 1000000 \<le> q else 0 \<le> q \<and> q \<le> 1)"
proof -
  define b where "b = (if a < 1 then 1 else a)"
  have b: "1 \<le> b" by (simp add: b_def)
  have q1: "0 \<le> 1 / b" "1 / b \<le> 1" using b by simp_all
  define x where "x = rnd B64 (1 / b)"
  have x: "0 \<le> x" "x \<le> 1" using q1 rnd_nonneg rnd_mono [of "1 / b" 1 B64] r_1 [of B64] by (simp_all add: x_def)
  have "(if flt (person_area fw fh d) (Fin 1) then Fin 1 else person_area fw fh d) = Fin b"
    using assms(2) by (simp add: b_def)
  moreover have "fdiv B64 (Fin 1) (Fin b) = Fin x"
  proof -
    have "1 / b \<le> 2000000" using q1(2) by linarith
    then show ?thesis using b fl_B64_small [OF q1(1)] by (simp add: x_def)
  qed
  ultimately have sc: "sc = fl B64 ((if upper_half fh c d then 1000000 else 0) + x)"
    using assms(1) by (simp add: person_score_parts split: if_splits)
  show ?thesis
  proof (cases "upper_half fh c d")
    case True
    have "rnd B64 1000000 \<le> rnd B64 (1000000 + x)" using x by (intro rnd_mono) simp
    then show ?thesis using sc True x fl_B64_small [of "1000000 + x"] rnd_million by simp
  next
    case False
    have "rnd B64 (0 + x) = x" by (simp add: x_def rnd_idem)
    then show ?thesis using sc False x fl_B64_small [of "0 + x"] by simp
  qed
qed

text \<open>
  A face is linked to the best person: the one chosen contains the centre of the face and
  no other such person scores higher; and, when the areas are finite, a person who has the
  centre in the upper half of the box always wins over one who has it in the lower half,
  however small the latter's box is. No person is chosen exactly when none contains the centre.
\<close>

theorem face_links_best_person:
  assumes areas: "\<forall>d \<in> set ds. \<exists>a. person_area fw fh d = Fin a"
    and best: "best_person (person_score fw fh c) ds 0 (None, Fin (- 1)) = (bi, bs)"
  shows "(bi = None \<longleftrightarrow> (\<forall>d \<in> set ds. \<not> inside_person fw fh c d)) \<and>
    (\<forall>i. bi = Some i \<longrightarrow> i < length ds \<and> inside_person fw fh c (ds ! i) \<and>
       (\<forall>d \<in> set ds. \<forall>sc. person_score fw fh c d = Some sc \<longrightarrow> \<not> flt bs sc) \<and>
       (upper_half fh c (ds ! i) \<or> (\<forall>d \<in> set ds. inside_person fw fh c d \<longrightarrow> \<not> upper_half fh c d)))"
proof -
  note sp = best_person_spec [OF best]
  have max: "\<not> flt bs sc" if "d \<in> set ds" "person_score fw fh c d = Some sc" for d sc
    using sp that by (auto simp: in_set_conv_nth)
  have range: "\<exists>sc q. person_score fw fh c d = Some sc \<and> sc = Fin q \<and>
      (if upper_half fh c d then 1000000 \<le> q else 0 \<le> q \<and> q \<le> 1)"
    if d: "d \<in> set ds" and inside: "inside_person fw fh c d" for d
  proof -
    obtain sc where "person_score fw fh c d = Some sc" using inside by (simp add: person_score_parts)
    with d areas person_score_range show ?thesis by metis
  qed
  show ?thesis
  proof (cases bi)
    case None
    then have "bs = Fin (- 1)" using sp by auto
    then have "\<not> inside_person fw fh c d" if "d \<in> set ds" for d
      using range [OF that] max [OF that] by (force split: if_splits)
    then show ?thesis using None by simp
  next
    case (Some i)
    then have i: "i < length ds" "person_score fw fh c (ds ! i) = Some bs" using sp by auto
    then have in_i: "ds ! i \<in> set ds" "inside_person fw fh c (ds ! i)"
      by (auto simp: person_score_parts split: if_splits)
    obtain q where q: "bs = Fin q" "if upper_half fh c (ds ! i) then 1000000 \<le> q else 0 \<le> q \<and> q \<le> 1"
      using range [OF in_i] i(2) by auto
    have "\<not> upper_half fh c d"
      if low: "\<not> upper_half fh c (ds ! i)" and d: "d \<in> set ds" "inside_person fw fh c d" for d
    proof
      assume "upper_half fh c d"
      then obtain p where "person_score fw fh c d = Some (Fin p)" "1000000 \<le> p" using range [OF d] by auto
      then show False using max [OF d(1)] q low by auto
    qed
    then show ?thesis using Some i in_i max by blast
  qed
qed

section \<open>Identities over time\<close>

lemma identify_cache:
  assumes "identify c w e tid cache G = (ident, cache', G', out)"
  shows "(\<forall>k i. cache k = Some i \<longrightarrow> cache' k = Some i) \<and>
    (\<forall>k. cache' k \<noteq> None \<longrightarrow> cache k \<noteq> None \<or> k = tid) \<and>
    (fst ident = - 1 \<or> cache' tid = Some (fst ident))"
  using assms by (auto simp: identify_def Let_def split: if_splits option.splits prod.splits)

text \<open>The faces of the detections name the track they are linked to and its cached identity.\<close>

definition faces_agree :: "(u32 \<Rightarrow> int option) \<Rightarrow> detection_record list \<Rightarrow> bool" where
  "faces_agree cache ds \<longleftrightarrow> (\<forall>d \<in> set ds. \<forall>f. det_face d = Some f \<longrightarrow> fi_track f = det_track d \<and>
     (fi_face_id f = - 1 \<or> cache (det_track d) = Some (fi_face_id f)))"

lemma face_loop_cache:
  assumes "face_loop c w fw fh es ds cache G out = (ds', cache', G', out')" "faces_agree cache ds"
  shows "map det_track ds' = map det_track ds \<and> faces_agree cache' ds' \<and>
    (\<forall>k i. cache k = Some i \<longrightarrow> cache' k = Some i) \<and>
    (\<forall>k. cache' k \<noteq> None \<longrightarrow> cache k \<noteq> None \<or> k \<in> det_track ` set ds)"
  using assms
proof (induction es arbitrary: ds cache G out)
  case (Cons e es)
  obtain bi bs where best: "best_person (person_score fw fh (face_center e)) ds 0 (None, Fin (- 1)) = (bi, bs)"
    by (metis surj_pair)
  show ?case
  proof (cases bi)
    case None
    then show ?thesis using Cons best by simp
  next
    case (Some i)
    have i: "i < length ds" using best_person_spec [OF best] Some by auto
    obtain ident cache1 G1 w1 where id: "identify c w e (det_track (ds ! i)) cache G = (ident, cache1, G1, w1)"
      by (metis prod_cases4)
    define ds1 where "ds1 = ds[i := (ds ! i)\<lparr>det_face := Some (linked_face fw fh e (det_track (ds ! i)) ident)\<rparr>]"
    note c = identify_cache [OF id]
    have loop: "face_loop c w fw fh es ds1 cache1 G1 (case w1 of None \<Rightarrow> out | Some _ \<Rightarrow> w1) = (ds', cache', G', out')"
      using Cons.prems(1) best Some id by (simp add: ds1_def Let_def)
    have tr: "map det_track ds1 = map det_track ds"
      using i list_update_id [of "map det_track ds" i] by (simp add: ds1_def map_update)
    have "faces_agree cache1 ds1"
      unfolding faces_agree_def
    proof (intro ballI allI impI)
      fix d f assume d: "d \<in> set ds1" "det_face d = Some f"
      show "fi_track f = det_track d \<and> (fi_face_id f = - 1 \<or> cache1 (det_track d) = Some (fi_face_id f))"
      proof (cases "d \<in> set ds")
        case True
        then show ?thesis using Cons.prems(2) d(2) c unfolding faces_agree_def by blast
      next
        case False
        then have "d = (ds ! i)\<lparr>det_face := Some (linked_face fw fh e (det_track (ds ! i)) ident)\<rparr>"
          using d(1) set_update_subset_insert unfolding ds1_def by fastforce
        then show ?thesis using d(2) c by (auto simp: linked_face_def)
      qed
    qed
    note ih = Cons.IH [OF loop this]
    have "det_track ` set ds1 = det_track ` set ds" using arg_cong [OF tr, of set] by simp
    moreover have "det_track (ds ! i) \<in> det_track ` set ds" using i by simp
    ultimately show ?thesis using ih c tr by (metis (no_types, lifting))
  qed
qed simp

text \<open>
  What holds between frames: a cached identity belongs to a track with an entry in the table
  of sightings, and every sighting there is recent.
\<close>

definition offload_ok :: "frame_offload \<Rightarrow> bool" where
  "offload_ok s \<longleftrightarrow>
     (\<forall>k. fo_faces s k \<noteq> None \<longrightarrow> fo_seen s k \<noteq> None) \<and>
     (\<forall>k t. fo_seen s k = Some t \<longrightarrow> unat t \<le> unat (fo_processed s) \<and>
        unat (fo_processed s) - unat (fo_processed s) mod 100 \<le> unat t + 300)"

lemma offload_new_ok: "offload_ok (offload_new f c)"
  by (simp add: offload_ok_def offload_new_def)

lemma evicted_unat:
  assumes "seen k = Some t" "unat t \<le> unat n"
  shows "evicted n seen k \<longleftrightarrow> unat t + 300 < unat n"
proof -
  have "unat (n - t) = unat n - unat t" using assms(2) by (simp add: unat_sub word_le_nat_alt)
  then show ?thesis using assms by (auto simp: evicted_def word_less_nat_alt)
qed

lemma seen_fold:
  "foldl (\<lambda>m d. m(det_track d \<mapsto> n)) seen ds k = (if k \<in> det_track ` set ds then Some n else seen k)"
  by (induction ds arbitrary: seen) auto

lemma roi_no_faces: "faces_agree cache (roi_detections fw fh ms)"
proof -
  have "det_face d = None" if "d \<in> set (roi_detections fw fh ms)" for d
    using that by (induction fw fh ms rule: roi_detections.induct) (auto simp: roi_detection_def)
  then show ?thesis by (auto simp: faces_agree_def)
qed

lemma extract_record_parts:
  assumes "extract_record wok now buf fw fh ip s G = (r, s', G', out)"
  obtains cache ds where
    "map det_track ds = map det_track (if fw > 0 \<and> fh > 0 then roi_detections fw fh (ob_metas buf) else [])"
    "faces_agree cache ds" "\<And>k i. fo_faces s k = Some i \<Longrightarrow> cache k = Some i"
    "\<And>k. cache k \<noteq> None \<Longrightarrow> fo_faces s k \<noteq> None \<or> k \<in> det_track ` set ds"
    "r = \<lparr>frm_channel = oc_channel (fo_config s), frm_image_path = ip, frm_id = fo_counter s,
       frm_ts = next_ts now (fo_last_ts s), frm_dets = ds\<rparr>"
    "s' = evict (s\<lparr>fo_faces := cache, fo_counter := fo_counter s + 1, fo_last_ts := next_ts now (fo_last_ts s),
       fo_processed := fo_processed s + 1, fo_seen := foldl (\<lambda>m d. m(det_track d \<mapsto> fo_processed s + 1)) (fo_seen s) ds\<rparr>)"
proof -
  define ds0 where "ds0 = (if fw > 0 \<and> fh > 0 then roi_detections fw fh (ob_metas buf) else [])"
  have agree0: "faces_agree (fo_faces s) ds0" by (simp add: ds0_def roi_no_faces) (simp add: faces_agree_def)
  obtain ds cache G1 out1 where loop:
    "(case ob_faces buf of None \<Rightarrow> (ds0, fo_faces s, G, None)
      | Some es \<Rightarrow> face_loop (fo_config s) wok fw fh es ds0 (fo_faces s) G None) = (ds, cache, G1, out1)"
    by (metis prod_cases4)
  have l: "map det_track ds = map det_track ds0 \<and> faces_agree cache ds \<and>
    (\<forall>k i. fo_faces s k = Some i \<longrightarrow> cache k = Some i) \<and>
    (\<forall>k. cache k \<noteq> None \<longrightarrow> fo_faces s k \<noteq> None \<or> k \<in> det_track ` set ds0)"
  proof (cases "ob_faces buf")
    case None
    then show ?thesis using loop agree0 by auto
  next
    case (Some es)
    then have "face_loop (fo_config s) wok fw fh es ds0 (fo_faces s) G None = (ds, cache, G1, out1)" using loop by simp
    from face_loop_cache [OF this agree0] show ?thesis .
  qed
  moreover from l have "det_track ` set ds0 = det_track ` set ds" by (metis list.set_map)
  moreover have "r = \<lparr>frm_channel = oc_channel (fo_config s), frm_image_path = ip, frm_id = fo_counter s,
       frm_ts = next_ts now (fo_last_ts s), frm_dets = ds\<rparr>"
    "s' = evict (s\<lparr>fo_faces := cache, fo_counter := fo_counter s + 1, fo_last_ts := next_ts now (fo_last_ts s),
       fo_processed := fo_processed s + 1, fo_seen := foldl (\<lambda>m d. m(det_track d \<mapsto> fo_processed s + 1)) (fo_seen s) ds\<rparr>)"
    using assms loop unfolding extract_record_def ds0_def [symmetric] Let_def by auto
  ultimately show thesis using that [of ds cache] unfolding ds0_def by simp
qed

lemma evict_result:
  assumes "offload_ok s" "unat (fo_processed s) + 1 < 2 ^ 64"
    and n: "n = fo_processed s + 1"
    and seen: "\<And>k. seen k = (if k \<in> T then Some n else fo_seen s k)"
    and cache: "\<forall>k. cache k \<noteq> None \<longrightarrow> fo_faces s k \<noteq> None \<or> k \<in> T"
    and t: "t = s\<lparr>fo_faces := cache, fo_counter := c, fo_last_ts := l, fo_processed := n, fo_seen := seen\<rparr>"
  shows "offload_ok (evict t) \<and>
    (\<forall>k. fo_faces (evict t) k = cache k \<or>
       fo_faces (evict t) k = None \<and> k \<notin> T \<and> (\<exists>u. fo_seen s k = Some u \<and> unat u + 300 < unat n))"
proof -
  have un: "unat n = unat (fo_processed s) + 1"
    using assms(2) unfolding n by (simp add: unat_word_ariths)
  have low: "unat u \<le> unat n" if "seen k = Some u" for k u
    using that assms(1) un unfolding seen by (force simp: offload_ok_def split: if_splits)
  have dom: "seen k \<noteq> None" if "cache k \<noteq> None" for k
    using that cache assms(1) by (auto simp: seen offload_ok_def)
  have m: "n mod 100 = 0 \<longleftrightarrow> unat n mod 100 = 0" by (simp add: unat_eq_0 [symmetric] unat_mod)
  show ?thesis
  proof (cases "n mod 100 = 0")
    case True
    have ev: "evict t = t\<lparr>fo_faces := (\<lambda>k. if evicted n seen k then None else cache k),
        fo_seen := (\<lambda>k. if evicted n seen k then None else seen k)\<rparr>"
      using True by (simp add: evict_def t cong del: if_weak_cong)
    have "unat u \<le> unat n \<and> unat n - unat n mod 100 \<le> unat u + 300" if "seen k = Some u" "\<not> evicted n seen k" for k u
      using low [OF that(1)] that evicted_unat [of seen k u n] by simp
    then have "offload_ok (evict t)"
      unfolding offload_ok_def ev using dom by (simp add: t split: if_splits)
    moreover have "k \<notin> T \<and> (\<exists>u. fo_seen s k = Some u \<and> unat u + 300 < unat n)" if e: "evicted n seen k" for k
    proof -
      obtain u where u: "seen k = Some u" using e by (auto simp: evicted_def split: option.splits)
      then have "unat u + 300 < unat n" using e evicted_unat [of seen k u n, OF u low [OF u]] by simp
      then show ?thesis using u by (auto simp: seen split: if_splits)
    qed
    moreover have "fo_faces (evict t) k = (if evicted n seen k then None else cache k)" for k by (simp add: ev)
    ultimately show ?thesis by simp
  next
    case False
    have "unat n - unat n mod 100 = unat (fo_processed s) - unat (fo_processed s) mod 100"
      using False m un by (simp add: mod_Suc split: if_splits)
    then have "unat u \<le> unat n \<and> unat n - unat n mod 100 \<le> unat u + 300" if "seen k = Some u" for k u
      using that low [OF that] assms(1) un unfolding seen by (auto simp: offload_ok_def split: if_splits)
    then have "offload_ok t" using dom by (simp add: offload_ok_def t)
    then show ?thesis using False by (simp add: evict_def t)
  qed
qed

text \<open>
  Identities are stable and the tables stay bounded. Over a frame the invariant is kept:
  every cached identity belongs to a track whose last sighting is less than 400 frames ago.
  A cached identity never changes; it is only forgotten, when its track was not seen for more
  than 300 frames. And every face in the record that has an identity has the one that is
  cached for its track afterwards, so a track shows one identity as long as it is remembered.
\<close>

theorem identity_cache_sound:
  assumes "offload_ok s" "unat (fo_processed s) + 1 < 2 ^ 64"
    "extract_record wok now buf fw fh ip s G = (r, s', G', out)"
  shows "offload_ok s' \<and>
    (\<forall>k t. fo_seen s' k = Some t \<longrightarrow> unat (fo_processed s') < unat t + 400) \<and>
    (\<forall>k i. fo_faces s k = Some i \<longrightarrow> fo_faces s' k = Some i \<or>
       fo_faces s' k = None \<and> (\<exists>u. fo_seen s k = Some u \<and> unat u + 300 < unat (fo_processed s'))) \<and>
    (\<forall>d \<in> set (frm_dets r). \<forall>f. det_face d = Some f \<longrightarrow> fi_track f = det_track d \<and>
       (fi_face_id f = - 1 \<or> fo_faces s' (det_track d) = Some (fi_face_id f)))"
proof -
  define n where "n = fo_processed s + 1"
  from assms(3) obtain cache ds where p: "faces_agree cache ds"
    "\<And>k i. fo_faces s k = Some i \<Longrightarrow> cache k = Some i"
    "\<forall>k. cache k \<noteq> None \<longrightarrow> fo_faces s k \<noteq> None \<or> k \<in> det_track ` set ds" "frm_dets r = ds"
    and s': "s' = evict (s\<lparr>fo_faces := cache, fo_counter := fo_counter s + 1, fo_last_ts := next_ts now (fo_last_ts s),
       fo_processed := n, fo_seen := foldl (\<lambda>m d. m(det_track d \<mapsto> n)) (fo_seen s) ds\<rparr>)"
    unfolding n_def by (elim extract_record_parts) auto
  define t0 where "t0 = s\<lparr>fo_faces := cache, fo_counter := fo_counter s + 1, fo_last_ts := next_ts now (fo_last_ts s),
       fo_processed := n, fo_seen := foldl (\<lambda>m d. m(det_track d \<mapsto> n)) (fo_seen s) ds\<rparr>"
  note e = evict_result [OF assms(1,2) n_def seen_fold [of n "fo_seen s" ds] p(3) t0_def, folded s' [folded t0_def]]
  have np: "fo_processed s' = n" unfolding s' by (simp add: evict_def)
  have "unat (fo_processed s') < unat t + 400" if "fo_seen s' k = Some t" for k t
  proof -
    have "unat (fo_processed s') - unat (fo_processed s') mod 100 \<le> unat t + 300"
      using conjunct1 [OF e, unfolded offload_ok_def, THEN conjunct2, rule_format, OF that] by (rule conjunct2)
    moreover have "unat (fo_processed s') mod 100 < 100" by simp
    ultimately show ?thesis by linarith
  qed
  moreover have "fo_faces s' k = Some i \<or>
       fo_faces s' k = None \<and> (\<exists>u. fo_seen s k = Some u \<and> unat u + 300 < unat n)" if "fo_faces s k = Some i" for k i
    using conjunct2 [OF e, rule_format, of k] p(2) [OF that] by (elim disjE conjE) simp_all
  moreover have "fi_track f = det_track d \<and> (fi_face_id f = - 1 \<or> fo_faces s' (det_track d) = Some (fi_face_id f))"
    if d: "d \<in> set ds" "det_face d = Some f" for d f
  proof -
    have "fo_faces s' (det_track d) = cache (det_track d)"
      using conjunct2 [OF e, rule_format, of "det_track d"] d(1) by auto
    then show ?thesis using p(1) d unfolding faces_agree_def by simp
  qed
  ultimately show ?thesis using conjunct1 [OF e] unfolding p(4) np by blast
qed


section \<open>Runs of frames\<close>

record offload_input =
  oi_now :: u64
  oi_buf :: offload_buffer
  oi_path :: int
  oi_write_ok :: bool

fun offload_run ::
  "u32 \<Rightarrow> u32 \<Rightarrow> offload_input list \<Rightarrow> frame_offload \<Rightarrow> gallery \<Rightarrow> frame_record list \<times> frame_offload \<times> gallery" where
  "offload_run fw fh [] s G = ([], s, G)"
| "offload_run fw fh (x # xs) s G =
     (let (r, s, G, out) = extract_record (oi_write_ok x) (oi_now x) (oi_buf x) fw fh (oi_path x) s G;
          (rs, s, G) = offload_run fw fh xs s G
      in (r # rs, s, G))"

lemma next_ts_later:
  assumes "unat l + 1 < 2 ^ 64"
  shows "l < next_ts now l"
proof -
  have "unat (l + 1) = unat l + 1" using assms by (simp add: unat_word_ariths)
  then show ?thesis by (auto simp: next_ts_def word_less_nat_alt word_le_nat_alt)
qed

lemma next_ts_bound:
  assumes "unat l + Suc n < 2 ^ 64" "unat now + Suc n < 2 ^ 64"
  shows "unat (next_ts now l) + n < 2 ^ 64"
proof -
  have "unat (l + 1) = unat l + 1" using assms(1) by (simp add: unat_word_ariths)
  then show ?thesis using assms by (simp add: next_ts_def)
qed

lemma run_records:
  assumes "\<forall>x \<in> set xs. unat (oi_now x) + length xs < 2 ^ 64" "unat (fo_last_ts s) + length xs < 2 ^ 64"
    "offload_run fw fh xs s G = (rs, s', G')"
  shows "length rs = length xs \<and> sorted_wrt (<) (fo_last_ts s # map frm_ts rs) \<and>
    map frm_id rs = map (\<lambda>i. fo_counter s + of_nat i) [0..<length xs] \<and>
    map frm_image_path rs = map oi_path xs \<and> (\<forall>r \<in> set rs. frm_channel r = oc_channel (fo_config s))"
  using assms
proof (induction xs arbitrary: s G rs)
  case (Cons x xs)
  obtain r s1 G1 out where ex: "extract_record (oi_write_ok x) (oi_now x) (oi_buf x) fw fh (oi_path x) s G = (r, s1, G1, out)"
    by (metis prod_cases4)
  obtain rs1 where run: "offload_run fw fh xs s1 G1 = (rs1, s', G')" and rs: "rs = r # rs1"
    using Cons.prems(3) ex by (auto simp: Let_def split: prod.splits)
  have r: "frm_ts r = next_ts (oi_now x) (fo_last_ts s)" "frm_id r = fo_counter s" "frm_image_path r = oi_path x"
      "frm_channel r = oc_channel (fo_config s)"
    and s1: "fo_last_ts s1 = next_ts (oi_now x) (fo_last_ts s)" "fo_counter s1 = fo_counter s + 1" "fo_config s1 = fo_config s"
    using ex by (elim extract_record_parts; simp add: evict_def)+
  have later: "fo_last_ts s < fo_last_ts s1"
    unfolding s1 using Cons.prems(2) by (intro next_ts_later) simp
  have "unat (fo_last_ts s1) + length xs < 2 ^ 64"
    unfolding s1 using Cons.prems(1,2) by (intro next_ts_bound) simp_all
  moreover have "\<forall>y \<in> set xs. unat (oi_now y) + length xs < 2 ^ 64" using Cons.prems(1) by auto
  ultimately have ih: "length rs1 = length xs" "sorted_wrt (<) (fo_last_ts s1 # map frm_ts rs1)"
    "map frm_id rs1 = map (\<lambda>i. fo_counter s1 + of_nat i) [0..<length xs]"
    "map frm_image_path rs1 = map oi_path xs" "\<forall>r \<in> set rs1. frm_channel r = oc_channel (fo_config s1)"
    using Cons.IH [OF _ _ run] by simp_all
  have "map (\<lambda>i. fo_counter s + of_nat i) [0..<length (x # xs)] = fo_counter s # map (\<lambda>i. fo_counter s1 + of_nat i) [0..<length xs]"
    unfolding length_Cons s1 by (subst upt_conv_Cons) (simp_all add: map_Suc_upt [symmetric] add.commute add.left_commute del: upt_Suc)
  then show ?case using ih r s1 later unfolding rs by (auto intro: less_trans)
qed simp

text \<open>
  The records of a channel are ordered for whoever merges them: over any run of frames,
  whatever the wall clock does (it may stand still or go backwards), the times are strictly
  increasing and later than all before the run, the frame numbers are consecutive, and each
  record names its own picture and channel. The bound only keeps the times below 2^64.
\<close>

theorem records_ordered:
  assumes "\<forall>x \<in> set xs. unat (oi_now x) + length xs < 2 ^ 64" "unat (fo_last_ts s) + length xs < 2 ^ 64"
    "offload_run fw fh xs s G = (rs, s', G')"
  shows "length rs = length xs \<and> sorted_wrt (<) (fo_last_ts s # map frm_ts rs) \<and>
    map frm_id rs = map (\<lambda>i. fo_counter s + of_nat i) [0..<length xs] \<and>
    map frm_image_path rs = map oi_path xs \<and> (\<forall>r \<in> set rs. frm_channel r = oc_channel (fo_config s))"
  using assms by (rule run_records)

section \<open>Slots and texts\<close>

lemma submit_index:
  assumes "pool_wf p" "slot_status p i \<noteq> None"
  shows "0 \<le> i \<and> int_of_u32 (u32_of_int i) = i"
proof -
  have r: "0 \<le> i" "i < num_slots p" using assms(2) by (auto simp: slot_status_def in_range_def split: if_splits)
  moreover have "num_slots p \<le> 32" using assms(1) by (auto simp: pool_wf_def kMaxSlots_def split: if_splits)
  ultimately show ?thesis by (simp add: int_of_u32_of_int)
qed



section \<open>An element at work\<close>

definition ex_buffer :: offload_buffer where
  "ex_buffer = \<lparr>ob_mapped = True, ob_data = (\<lambda>_. 0), ob_layout = None, ob_pts = 0,
     ob_metas = [RoiMeta (ex_roi ''car'' 4)], ob_faces = None\<rparr>"

definition ex_offload :: gst_offload where
  "ex_offload = go_to_paused (\<lambda>_. True) (go_caps (Some (2, 2)) (go_init\<lparr>go_producer := True\<rparr>))"

definition ex_state :: frame_offload where
  "ex_state = offload_new (\<lambda>_. True) (offload_config_of ex_offload)"

lemma offload_chain_result:
  obtains ret pushed g' pr' G' ev where "offload_chain env w now buf g pr G = ((ret, pushed), g', pr', G', ev)"
  by (cases "offload_chain env w now buf g pr G") auto


theorem records_ordered_witness:
  "\<exists>r1 r2 s' G'. offload_run 16 16 [\<lparr>oi_now = 7, oi_buf = ex_buffer, oi_path = 0, oi_write_ok = True\<rparr>,
       \<lparr>oi_now = 3, oi_buf = ex_buffer, oi_path = 1, oi_write_ok = True\<rparr>] ex_state gallery_new = ([r1, r2], s', G') \<and>
     frm_ts r1 < frm_ts r2 \<and> frm_id r2 = 1 \<and> frm_image_path r2 = 1"
proof -
  let ?xs = "[\<lparr>oi_now = 7, oi_buf = ex_buffer, oi_path = 0, oi_write_ok = True\<rparr>,
       \<lparr>oi_now = 3, oi_buf = ex_buffer, oi_path = 1, oi_write_ok = True\<rparr>]"
  obtain rs s' G' where run: "offload_run 16 16 ?xs ex_state gallery_new = (rs, s', G')" by (metis prod_cases3)
  have st: "fo_last_ts ex_state = 0" "fo_counter ex_state = 0" by (simp_all add: ex_state_def offload_new_def)
  have r: "length rs = 2" "sorted_wrt (<) (map frm_ts rs)" "map frm_id rs = [0, 1]" "map frm_image_path rs = [0, 1]"
    using records_ordered [OF _ _ run] by (simp_all add: st)
  then obtain r1 r2 where "rs = [r1, r2]" by (auto simp: numeral_2_eq_2 length_Suc_conv)
  with r run show ?thesis by auto
qed

theorem identity_cache_sound_witness:
  "\<exists>r s' G' out. extract_record True 5 ex_buffer 16 16 0 ex_state gallery_new = (r, s', G', out) \<and> offload_ok s'"
proof -
  obtain r s' G' out where x: "extract_record True 5 ex_buffer 16 16 0 ex_state gallery_new = (r, s', G', out)"
    by (metis prod_cases4)
  have "offload_ok ex_state" "unat (fo_processed ex_state) + 1 < 2 ^ 64"
    unfolding ex_state_def by (rule offload_new_ok) (simp add: offload_new_def)
  from identity_cache_sound [OF this x] x show ?thesis by blast
qed

text \<open>Two persons, the smaller one below the face's centre line, the larger one around it.\<close>

definition ex_person :: "rat \<Rightarrow> rat \<Rightarrow> detection_record" where
  "ex_person t b = \<lparr>det_class_id = 0, det_track = 1, det_label = ''person'', det_score = Fin 1, det_left = Fin 0,
     det_top = Fin t, det_right = Fin 1, det_bottom = Fin b, det_face = None\<rparr>"

lemma fl_small: "0 \<le> q \<Longrightarrow> q \<le> 2000000 \<Longrightarrow> rnd B64 q = q \<Longrightarrow> fl B64 q = Fin q"
  by (simp add: fl_B64_small)

theorem face_links_best_person_witness:
  "\<exists>bi bs. best_person (person_score 1 1 (Fin 1, Fin 0)) [ex_person 0 1] 0 (None, Fin (- 1)) = (bi, bs) \<and> bi = Some 0"
proof -
  have "rnd B64 0 = 0" "rnd B64 1 = 1" by (simp_all add: r_1)
  then have f: "fl B64 0 = Fin 0" "fl B64 1 = Fin 1" by (simp_all add: fl_small)
  have a: "person_area 1 1 (ex_person 0 1) = Fin 1"
    by (simp add: person_area_def ex_person_def double_of_u32_def f fsub_Fin)
  have i: "inside_person 1 1 (Fin 1, Fin 0) (ex_person 0 1)"
    by (simp add: inside_person_def ex_person_def double_of_u32_def f fle_def feq_def)
  obtain bi bs where b: "best_person (person_score 1 1 (Fin 1, Fin 0)) [ex_person 0 1] 0 (None, Fin (- 1)) = (bi, bs)"
    by (metis surj_pair)
  have "bi \<noteq> None" "\<forall>j. bi = Some j \<longrightarrow> j < 1"
    using face_links_best_person [OF _ b] a i by auto
  then have "bi = Some 0" by (cases bi) auto
  with b show ?thesis by blast
qed

end
