(* ===== verification/FaceElement.thy ===== *)
theory FaceElement
  imports FaceInfer FrameOffload
begin

text \<open>
  The element around the face pipeline (\<open>face_infer/gst_plugin/gstfaceinfer.cpp\<close>): it sets the
  processor up at the first caps, runs it at most once per interval, attaches at most 32 faces to
  the buffer, and tears it down at stop. What the frame offload element makes of an attached
  face whose embedding could not be extracted is stated at the end.
\<close>

section \<open>Model\<close>

record face_el =
  gi_config_path :: string
  gi_processor :: "face_processor option"
  gi_ready :: bool
  gi_last_ms :: u64
  gi_interval :: u32

definition gi_init :: face_el where
  "gi_init = \<lparr>gi_config_path = [], gi_processor = None, gi_ready = False, gi_last_ms = 0, gi_interval = 0\<rparr>"

definition gi_set_path :: "string \<Rightarrow> face_el \<Rightarrow> face_el" where
  "gi_set_path path g = g\<lparr>gi_config_path := path\<rparr>"

definition gi_set_interval :: "u32 \<Rightarrow> face_el \<Rightarrow> face_el" where
  "gi_set_interval n g = g\<lparr>gi_interval := n\<rparr>"

text \<open>Whether the caps parse, the configuration file, and the answers of the processor's engines.\<close>

record caps_env =
  ca_parse_ok :: bool
  ca_strtod :: "string \<Rightarrow> cfloat option"
  ca_file :: "string list option"
  ca_engines :: init_env

definition gi_set_caps :: "caps_env \<Rightarrow> face_el \<Rightarrow> bool \<times> face_el" where
  "gi_set_caps env g =
     (if \<not> ca_parse_ok env then (False, g)
      else if gi_ready g then (True, g)
      else if gi_config_path g = [] then (False, g)
      else
        case load_face_config (ca_strtod env) (gi_config_path g) (ca_file env) face_config_default of
          None \<Rightarrow> (False, g)
        | Some cfg \<Rightarrow>
            (let (ok, p) = fp_init (ca_engines env) cfg face_processor_new in
             if \<not> ok then (False, g\<lparr>gi_processor := None\<rparr>)
             else (True, g\<lparr>gi_processor := Some p, gi_ready := True\<rparr>)))"

text \<open>
  One buffer: the clock in milliseconds, whether it maps, whether its memory has a descriptor, its
  planes, whether the OpenCL loader is there and imports the buffer, whether the metadata can be
  added, and the frame's answers.
\<close>

record buffer_env =
  bu_now :: u64
  bu_mapped :: bool
  bu_fd_memory :: bool
  bu_plane :: plane_info
  bu_loader :: bool
  bu_import_ok :: bool
  bu_meta_ok :: bool
  bu_frame :: frame_env

datatype cl_event = Cl_Created | Cl_Released

definition meta_max_faces :: nat where "meta_max_faces = 32"

definition meta_entry :: "bool \<Rightarrow> face_det \<times> cfloat list \<Rightarrow> face_entry" where
  "meta_entry has_arc fr =
     (let d = fst fr in
      \<lparr>fe_x1 = fd_x1 d, fe_y1 = fd_y1 d, fe_x2 = fd_x2 d, fe_y2 = fd_y2 d, fe_score = fd_score d,
       fe_landmarks = fd_landmarks d, fe_embedding = snd fr, fe_has_embedding = has_arc\<rparr>)"

text \<open>The gate: skipped frames leave the time alone, others set it (also when nothing is run after it).\<close>

definition gi_gate :: "u64 \<Rightarrow> face_el \<Rightarrow> face_el option" where
  "gi_gate now g =
     (if gi_interval g > 0 then
        if now - gi_last_ms g < u64_of_u32 (gi_interval g) then None
        else Some (g\<lparr>gi_last_ms := now\<rparr>)
      else Some g)"

text \<open>The faces attached to the buffer, None for no metadata; what was done to OpenCL buffers.\<close>

definition gi_transform_ip ::
  "decode_lib \<Rightarrow> buffer_env \<Rightarrow> face_el \<Rightarrow> face_exn + ((face_entry list option \<times> cl_event list) \<times> face_el)" where
  "gi_transform_ip L env g0 =
     (case gi_gate (bu_now env) g0 of
        None \<Rightarrow> Inr ((None, []), g0)
      | Some g \<Rightarrow>
          (case gi_processor g of
             None \<Rightarrow> Inr ((None, []), g)
           | Some p \<Rightarrow>
               if \<not> gi_ready g then Inr ((None, []), g)
               else if \<not> bu_mapped env then Inr ((None, []), g)
               else if \<not> bu_fd_memory env then Inr ((None, []), g)
               else if \<not> (bu_loader env \<and> fp_gpu p) then Inr ((None, []), g)
               else if \<not> bu_import_ok env then Inr ((None, []), g)
               else
                 (case process_frame L (bu_frame env) (bu_plane env) p of
                    Inl e \<Rightarrow> Inl e
                  | Inr faces \<Rightarrow>
                      Inr ((if faces \<noteq> [] \<and> bu_meta_ok env
                            then Some (map (meta_entry (fp_arcface_enabled p)) (take meta_max_faces faces))
                            else None, [Cl_Created, Cl_Released]), g))))"

definition gi_stop :: "face_el \<Rightarrow> face_el" where
  "gi_stop g = g\<lparr>gi_processor := None, gi_ready := False\<rparr>"

text \<open>What the stopped processor still owns.\<close>

definition gi_stopped_processor :: "face_el \<Rightarrow> face_processor option" where
  "gi_stopped_processor g = map_option fp_destroy (gi_processor g)"

section \<open>The element's invariant\<close>

definition gi_wf :: "face_el \<Rightarrow> bool" where
  "gi_wf g \<longleftrightarrow>
     (gi_ready g \<longleftrightarrow> gi_processor g \<noteq> None) \<and>
     (\<forall>p. gi_processor g = Some p \<longrightarrow> fp_wf p \<and> fp_initialized p)"

datatype gi_op =
    Gi_Caps caps_env
  | Gi_Buffer decode_lib buffer_env
  | Gi_Stop
  | Gi_Path string
  | Gi_Interval u32

text \<open>An exception ends the process; the state it leaves is not looked at.\<close>

fun gi_step :: "face_el \<Rightarrow> gi_op \<Rightarrow> face_el" where
  "gi_step g (Gi_Caps env) = snd (gi_set_caps env g)"
| "gi_step g (Gi_Buffer L env) = (case gi_transform_ip L env g of Inl e \<Rightarrow> g | Inr r \<Rightarrow> snd r)"
| "gi_step g Gi_Stop = gi_stop g"
| "gi_step g (Gi_Path path) = gi_set_path path g"
| "gi_step g (Gi_Interval n) = gi_set_interval n g"

lemma new_processor_wf: "fp_wf face_processor_new"
  by (simp add: fp_wf_def face_processor_new_def)

lemma gi_caps_wf: "gi_wf g \<Longrightarrow> gi_wf (snd (gi_set_caps env g))"
  by (auto simp: gi_wf_def gi_set_caps_def Let_def split: option.splits prod.splits if_splits
      intro: fp_init_result new_processor_wf)

lemma gi_buffer_state:
  "gi_transform_ip L env g = Inr (r, g') \<Longrightarrow> g' = g \<or> g' = g\<lparr>gi_last_ms := bu_now env\<rparr>"
  by (auto simp: gi_transform_ip_def gi_gate_def split: option.splits if_splits sum.splits)

lemma gi_step_wf: "gi_wf g \<Longrightarrow> gi_wf (gi_step g x)"
proof (cases x)
  case (Gi_Buffer L env)
  assume "gi_wf g"
  then show ?thesis
    using gi_buffer_state [of L env g] by (fastforce simp: Gi_Buffer gi_wf_def split: sum.splits)
qed (auto simp: gi_caps_wf, auto simp: gi_wf_def gi_stop_def gi_set_path_def gi_set_interval_def)

interpretation gi_sys: step_system gi_step gi_wf
  by unfold_locales (rule gi_step_wf)

text \<open>
  The element is safe over any sequence of caps, buffers, property changes and stops: a
  stopped element owns no engine; while it runs, every buffer either ends in the exception of a
  negative configured number of faces, or leaves as many OpenCL buffers released as were created
  and gets either no metadata or between 1 and 32 faces.
\<close>

theorem face_element_safe:
  "let g = foldl gi_step gi_init ops in
     (case gi_stopped_processor g of None \<Rightarrow> True
      | Some p \<Rightarrow> \<not> fp_gpu p \<and> \<not> fp_scrfd p \<and> \<not> af_live (fp_arcface p)) \<and>
     (case gi_transform_ip L env g of
        Inl e \<Rightarrow> (case gi_processor g of None \<Rightarrow> False | Some p \<Rightarrow> fc_max_faces (fp_config p) < 0)
      | Inr ((meta, ev), g') \<Rightarrow>
          count_list ev Cl_Created = count_list ev Cl_Released \<and>
          (case meta of None \<Rightarrow> True | Some es \<Rightarrow> 0 < length es \<and> length es \<le> 32))"
proof -
  define g where "g = foldl gi_step gi_init ops"
  have "gi_wf gi_init" by (simp add: gi_wf_def gi_init_def)
  then have wf: "gi_wf g" unfolding g_def by (rule gi_sys.run_inv)
  have "case gi_stopped_processor g of None \<Rightarrow> True
      | Some p \<Rightarrow> \<not> fp_gpu p \<and> \<not> fp_scrfd p \<and> \<not> af_live (fp_arcface p)"
    using wf by (auto simp: gi_stopped_processor_def gi_wf_def fp_destroy_def arc_destroy_def split: option.splits)
  moreover have "case gi_transform_ip L env g of
        Inl e \<Rightarrow> (case gi_processor g of None \<Rightarrow> False | Some p \<Rightarrow> fc_max_faces (fp_config p) < 0)
      | Inr ((meta, ev), g') \<Rightarrow>
          count_list ev Cl_Created = count_list ev Cl_Released \<and>
          (case meta of None \<Rightarrow> True | Some es \<Rightarrow> 0 < length es \<and> length es \<le> 32)"
    by (auto simp: gi_transform_ip_def gi_gate_def meta_max_faces_def process_frame_def detect_faces_def
        face_max_detections_def Let_def min_def split: option.splits sum.splits if_splits)
  ultimately show ?thesis unfolding Let_def g_def [symmetric] by (rule conjI)
qed

section \<open>At most one frame per interval\<close>

text \<open>The times of the frames that pass the gate, over a run of buffers.\<close>

fun gate_times :: "face_el \<Rightarrow> u64 list \<Rightarrow> u64 list" where
  "gate_times g [] = []"
| "gate_times g (t # ts) =
     (case gi_gate t g of None \<Rightarrow> gate_times g ts | Some g' \<Rightarrow> t # gate_times g' ts)"

lemma gate_times_spaced:
  assumes "gi_interval g > 0" and "sorted (map unat (gi_last_ms g # ts))"
  shows "(\<forall>t \<in> set (gate_times g ts). unat (gi_last_ms g) + unat (gi_interval g) \<le> unat t) \<and>
    sorted_wrt (\<lambda>a b. unat a + unat (gi_interval g) \<le> unat b) (gate_times g ts)"
  using assms
proof (induction ts arbitrary: g)
  case (Cons t ts)
  have le: "gi_last_ms g \<le> t" using Cons.prems(2) by (simp add: word_le_nat_alt)
  have sub: "unat (t - gi_last_ms g) = unat t - unat (gi_last_ms g)" using le by (rule unat_sub)
  show ?case
  proof (cases "t - gi_last_ms g < u64_of_u32 (gi_interval g)")
    case True
    then show ?thesis using Cons.IH [of g] Cons.prems by (simp add: gi_gate_def)
  next
    case False
    then have "unat (gi_last_ms g) + unat (gi_interval g) \<le> unat t"
      using sub le by (simp add: word_less_nat_alt word_le_nat_alt)
    moreover have "(\<forall>u \<in> set (gate_times (g\<lparr>gi_last_ms := t\<rparr>) ts). unat t + unat (gi_interval g) \<le> unat u) \<and>
        sorted_wrt (\<lambda>a b. unat a + unat (gi_interval g) \<le> unat b) (gate_times (g\<lparr>gi_last_ms := t\<rparr>) ts)"
      using Cons.IH [of "g\<lparr>gi_last_ms := t\<rparr>"] Cons.prems by simp
    ultimately show ?thesis using False Cons.prems(1) by (fastforce simp: gi_gate_def)
  qed
qed simp

section \<open>A failed extraction\<close>

lemma zero_cosine:
  assumes "\<forall>x \<in> set ys. \<exists>q. x = Fin q"
  shows "gallery_cosine (replicate n (Fin 0)) ys = Fin 0"
proof -
  have "foldl (\<lambda>dot (x, y). fadd B32 dot (fmul B32 x y)) (Fin 0) (zip (replicate n (Fin 0)) ys) = Fin 0"
    using assms
  proof (induction ys arbitrary: n)
    case (Cons y ys)
    then show ?case by (cases n) auto
  qed simp
  then show ?thesis by (simp add: gallery_cosine_def)
qed

lemma zero_match_loop:
  assumes "\<forall>g \<in> set gs. \<forall>x \<in> set (ge_embedding g). \<exists>q. x = Fin q"
    and "mr_similarity best \<in> {Fin (- 1), Fin 0}"
  shows "mr_similarity (match_loop (replicate n (Fin 0)) gs best) \<in> {Fin (- 1), Fin 0}"
  using assms
proof (induction gs arbitrary: best)
  case (Cons g gs)
  then show ?case using zero_cosine [of "ge_embedding g" n] by (auto simp: Let_def)
qed simp

lemma zero_never_matches:
  assumes "\<forall>g \<in> set (fg_entries G). \<forall>x \<in> set (ge_embedding g). \<exists>q. x = Fin q" and "0 < t"
  shows "mr_id (gallery_match G (Some (replicate n (Fin 0))) (Fin t)) = - 1"
proof (cases "fg_entries G = []")
  case False
  let ?b = "match_loop (replicate n (Fin 0)) (fg_entries G) \<lparr>mr_id = - 1, mr_similarity = Fin (- 1)\<rparr>"
  have "mr_similarity ?b \<in> {Fin (- 1), Fin 0}" by (rule zero_match_loop [OF assms(1)]) simp
  then have "flt (mr_similarity ?b) (Fin t)" using assms(2) by auto
  then show ?thesis using False by (simp add: gallery_match_def Let_def)
qed (simp add: gallery_match_def)

text \<open>
  An extraction that fails becomes an identity. The element marks every face as having an
  embedding when recognition is on, also a face whose extraction failed and whose embedding is
  512 zeros; such a face matches no entry of a gallery of numbers at a positive threshold, so
  when it is large and sure enough the frame offload element enrols the zeros: a new identity that
  nothing will ever match, for every such track.
\<close>

theorem failed_extraction_enrolled:
  assumes "fp_arcface_enabled p" and "extract_embedding env p d = None"
    and "oc_gallery c" and "oc_threshold c = Fin t" and "0 < t" and "cache tid = None"
    and "fle (float_of_u32 (oc_min_face_size c)) (face_size (meta_entry True (d, face_embedding env p d)))"
    and "fle (oc_min_score c) (fd_score d)"
    and "\<forall>g \<in> set (fg_entries G). \<forall>x \<in> set (ge_embedding g). \<exists>q. x = Fin q"
  shows "let e = meta_entry (fp_arcface_enabled p) (d, face_embedding env p d);
            (ident, cache', G', w) = identify c wok e tid cache G
     in fe_has_embedding e \<and> fst ident = fg_next G \<and> cache' tid = Some (fg_next G) \<and>
        fg_entries G' = fg_entries G @ [\<lparr>ge_id = fg_next G, ge_embedding = replicate 512 (Fin 0)\<rparr>]"
proof -
  have emb: "face_embedding env p d = replicate 512 (Fin 0)"
    using assms(1,2) by (simp add: face_embedding_def face_embedding_dim_def)
  have m: "mr_id (gallery_match G (Some (replicate 512 (Fin 0))) (oc_threshold c)) = - 1"
    unfolding assms(4) by (rule zero_never_matches [OF assms(9,5)])
  show ?thesis
    using assms(1,3,6,7,8) m
    by (simp add: emb identify_def meta_entry_def Let_def gallery_enroll_def embedding_dim_def)
qed

text \<open>A sure face of 96 by 128 pixels whose crop kernel fails.\<close>

definition lost_face :: face_det where
  "lost_face = \<lparr>fd_x1 = Fin 0, fd_y1 = Fin 0, fd_x2 = Fin 96, fd_y2 = Fin 128, fd_score = Fin (3 / 4),
     fd_landmarks = replicate 5 (Fin 8, Fin 8)\<rparr>"

definition enrolling :: offload_config where
  "enrolling = \<lparr>oc_channel = 0, oc_scene_update = True, oc_meta_width = 0, oc_meta_height = 0, oc_gallery = True,
     oc_threshold = Fin (1 / 2), oc_min_face_size = 64, oc_min_score = Fin (1 / 2), oc_out_dir = []\<rparr>"

definition no_crop :: frame_env where
  "no_crop = good_frame\<lparr>fr_crop_ok := (\<lambda>m. False)\<rparr>"

lemma lost_face_large:
  "fle (float_of_u32 64) (fsub B32 (Fin 96) (Fin 0)) \<and> flt (fsub B32 (Fin 96) (Fin 0)) (fsub B32 (Fin 128) (Fin 0))"
  by code_simp

theorem failed_extraction_enrolled_witness:
  "let (ident, cache', G', w) = identify enrolling True
       (meta_entry True (lost_face, face_embedding no_crop (example_processor 4) lost_face)) 7 Map.empty gallery_new
   in fst ident = 1 \<and> map ge_id (fg_entries G') = [1]"
proof -
  have lost: "extract_embedding no_crop (example_processor 4) lost_face = None"
    by (simp add: extract_embedding_def no_crop_def Let_def)
  have size: "fle (float_of_u32 (oc_min_face_size enrolling))
      (face_size (meta_entry True (lost_face, face_embedding no_crop (example_processor 4) lost_face)))"
    using lost_face_large by (simp add: face_size_def meta_entry_def lost_face_def enrolling_def Let_def)
  have score: "fle (oc_min_score enrolling) (fd_score lost_face)"
    by (simp add: enrolling_def lost_face_def fle_def)
  from failed_extraction_enrolled [where c = enrolling and t = "1 / 2" and cache = Map.empty and G = gallery_new
      and tid = 7 and wok = True, OF _ lost _ _ _ _ size score]
  show ?thesis
    by (auto simp: enrolling_def gallery_new_def Let_def)
qed

end
