(* ===== verification/Aggregator.thy ===== *)
theory Aggregator
  imports JsonlWriter
begin

text \<open>
  The aggregator behind the MQTT publisher (\<open>aggregator/Aggregator.cpp\<close>): channel threads offer
  records without blocking, one consumer thread collects them into batches. The threads share
  four atomic counters, one flag and a concurrent queue; every atomic operation is one step, and
  the steps of the threads interleave in any order. Of the queue the code relies on three
  documented facts: an enqueue is atomic, items of one producer come out in their order (items of
  different producers in any order), and a dequeue fails only when the queue is empty. A run is a
  list of steps.
\<close>

section \<open>State\<close>

text \<open>
  A channel thread is idle, in the compare-and-swap loop of \<open>TryEnqueue\<close> with the size it last
  saw, between its reservation and the enqueue, or between the enqueue and the count.
\<close>

datatype 'a ag_producer = PIdle | PTrying 'a u64 | PReserved 'a | PPushed

text \<open>
  The consumer thread: not there, at the loop test, at the timed wait, between a dequeue and
  the \<open>fetch_sub\<close> that follows it (remembering where it goes on), in the inner loop, at the test
  of the batch, in the loop after the stop, returned.
\<close>

datatype ag_phase = CNone | CLoop | CWait | CSub bool | CMore | CDecide | CDrain | CDone

record 'a ag_batch =
  ab_items :: "(nat \<times> 'a) list"
  ab_partial_ok :: bool
  ab_delivered :: bool

text \<open>
  The numbers paired with items name the thread that offered them; the code does not keep them.
  \<open>ag_results\<close> lists the return values of \<open>TryEnqueue\<close> in the order they are decided, and
  \<open>ag_published\<close> the batches handed to the publisher with the test that released them.
\<close>

record 'a aggregator =
  ag_batch_size :: u32
  ag_capacity :: u32
  ag_size :: u64
  ag_queue :: "(nat \<times> 'a) list"
  ag_producers :: "'a ag_producer list"
  ag_phase :: ag_phase
  ag_batch :: "(nat \<times> 'a) list"
  ag_stop :: bool
  ag_enqueued :: u64
  ag_dropped :: u64
  ag_sent :: u64
  ag_results :: "(nat \<times> 'a \<times> bool) list"
  ag_published :: "'a ag_batch list"

definition ag_new :: "u32 \<Rightarrow> u32 \<Rightarrow> nat \<Rightarrow> 'a aggregator" where
  "ag_new bs cap threads = \<lparr>ag_batch_size = bs, ag_capacity = cap, ag_size = 0, ag_queue = [],
     ag_producers = replicate threads PIdle, ag_phase = CNone, ag_batch = [], ag_stop = False,
     ag_enqueued = 0, ag_dropped = 0, ag_sent = 0, ag_results = [], ag_published = []\<rparr>"

section \<open>Start and stop\<close>

text \<open>Start fails when there is a thread to join; the new thread starts with an empty batch.\<close>

definition ag_start :: "'a aggregator \<Rightarrow> bool \<times> 'a aggregator" where
  "ag_start a =
     (if ag_phase a \<noteq> CNone then (False, a)
      else (True, a\<lparr>ag_stop := False, ag_phase := CLoop, ag_batch := []\<rparr>))"

definition ag_request_stop :: "'a aggregator \<Rightarrow> 'a aggregator" where
  "ag_request_stop a = (if ag_phase a = CNone then a else a\<lparr>ag_stop := True\<rparr>)"

text \<open>The join in \<open>Stop\<close> returns once the thread has returned.\<close>

definition ag_join :: "'a aggregator \<Rightarrow> 'a aggregator" where
  "ag_join a = (if ag_phase a = CDone \<and> ag_stop a then a\<lparr>ag_phase := CNone\<rparr> else a)"

section \<open>TryEnqueue\<close>

definition ag_set_producer :: "nat \<Rightarrow> 'a ag_producer \<Rightarrow> 'a aggregator \<Rightarrow> 'a aggregator" where
  "ag_set_producer i p a = a\<lparr>ag_producers := (ag_producers a)[i := p]\<rparr>"

definition ag_offer :: "nat \<Rightarrow> 'a \<Rightarrow> 'a aggregator \<Rightarrow> 'a aggregator" where
  "ag_offer i x a = ag_set_producer i (PTrying x (ag_size a)) a"

text \<open>
  One turn of the loop: give up at capacity, otherwise compare and swap; a failed exchange (a
  change by another thread, or a spurious failure) reloads the size.
\<close>

definition ag_try :: "bool \<Rightarrow> nat \<Rightarrow> 'a \<Rightarrow> u64 \<Rightarrow> 'a aggregator \<Rightarrow> 'a aggregator" where
  "ag_try spurious i x cur a =
     (if cur \<ge> u64_of_u32 (ag_capacity a)
      then ag_set_producer i PIdle (a\<lparr>ag_dropped := ag_dropped a + 1,
             ag_results := ag_results a @ [(i, x, False)]\<rparr>)
      else if ag_size a = cur \<and> \<not> spurious
      then ag_set_producer i (PReserved x) (a\<lparr>ag_size := cur + 1,
             ag_results := ag_results a @ [(i, x, True)]\<rparr>)
      else ag_set_producer i (PTrying x (ag_size a)) a)"

definition ag_push :: "nat \<Rightarrow> 'a \<Rightarrow> 'a aggregator \<Rightarrow> 'a aggregator" where
  "ag_push i x a = ag_set_producer i PPushed (a\<lparr>ag_queue := ag_queue a @ [(i, x)]\<rparr>)"

definition ag_count :: "nat \<Rightarrow> 'a aggregator \<Rightarrow> 'a aggregator" where
  "ag_count i a = ag_set_producer i PIdle (a\<lparr>ag_enqueued := ag_enqueued a + 1\<rparr>)"

fun ag_producer_step :: "bool \<Rightarrow> nat \<Rightarrow> 'a aggregator \<Rightarrow> 'a aggregator" where
  "ag_producer_step spurious i a =
     (if i < length (ag_producers a) then
        (case ag_producers a ! i of
           PIdle \<Rightarrow> a
         | PTrying x cur \<Rightarrow> ag_try spurious i x cur a
         | PReserved x \<Rightarrow> ag_push i x a
         | PPushed \<Rightarrow> ag_count i a)
      else a)"

section \<open>ConsumerLoop\<close>

text \<open>The items a dequeue may return: the first of some producer. Any other choice means the front.\<close>

definition ag_front :: "(nat \<times> 'a) list \<Rightarrow> nat \<Rightarrow> bool" where
  "ag_front q k \<longleftrightarrow> k < length q \<and> fst (q ! k) \<notin> fst ` set (take k q)"

definition ag_pick :: "(nat \<times> 'a) list \<Rightarrow> nat \<Rightarrow> nat" where
  "ag_pick q k = (if ag_front q k then k else 0)"

definition ag_dequeue :: "nat \<Rightarrow> 'a aggregator \<Rightarrow> 'a aggregator" where
  "ag_dequeue k a =
     (let j = ag_pick (ag_queue a) k in
      a\<lparr>ag_batch := ag_batch a @ [ag_queue a ! j],
        ag_queue := take j (ag_queue a) @ drop (Suc j) (ag_queue a)\<rparr>)"

text \<open>
  \<open>PublishBatch\<close>: the publisher is called when there is one, its failure is only logged, and
  the batch counts as sent either way. The answer is None without a publisher.
\<close>

definition ag_publish :: "bool \<Rightarrow> bool option \<Rightarrow> 'a aggregator \<Rightarrow> 'a aggregator" where
  "ag_publish partial_ok answer a =
     a\<lparr>ag_published := ag_published a @ [\<lparr>ab_items = ag_batch a, ab_partial_ok = partial_ok,
         ab_delivered = (answer = Some True)\<rparr>],
       ag_sent := ag_sent a + 1, ag_batch := []\<rparr>"

fun ag_consumer_step :: "nat \<Rightarrow> bool option \<Rightarrow> 'a aggregator \<Rightarrow> 'a aggregator" where
  "ag_consumer_step k answer a =
     (case ag_phase a of
        CNone \<Rightarrow> a
      | CLoop \<Rightarrow> (if ag_stop a then a\<lparr>ag_phase := CDrain\<rparr> else a\<lparr>ag_phase := CWait\<rparr>)
      | CWait \<Rightarrow>
          (if ag_queue a = [] then a\<lparr>ag_phase := CDecide\<rparr>
           else (ag_dequeue k a)\<lparr>ag_phase := CSub False\<rparr>)
      | CSub drain \<Rightarrow> a\<lparr>ag_size := ag_size a - 1, ag_phase := (if drain then CDrain else CMore)\<rparr>
      | CMore \<Rightarrow>
          (if length (ag_batch a) < unat (ag_batch_size a) \<and> ag_queue a \<noteq> []
           then (ag_dequeue k a)\<lparr>ag_phase := CSub False\<rparr>
           else a\<lparr>ag_phase := CDecide\<rparr>)
      | CDecide \<Rightarrow>
          (if length (ag_batch a) \<ge> unat (ag_batch_size a) then (ag_publish False answer a)\<lparr>ag_phase := CLoop\<rparr>
           else if ag_stop a \<and> ag_batch a \<noteq> [] then (ag_publish True answer a)\<lparr>ag_phase := CLoop\<rparr>
           else a\<lparr>ag_phase := CLoop\<rparr>)
      | CDrain \<Rightarrow>
          (if ag_queue a \<noteq> [] then (ag_dequeue k a)\<lparr>ag_phase := CSub True\<rparr>
           else if ag_batch a \<noteq> [] then (ag_publish True answer a)\<lparr>ag_phase := CDone\<rparr>
           else a\<lparr>ag_phase := CDone\<rparr>)
      | CDone \<Rightarrow> a)"

section \<open>Runs\<close>

datatype 'a ag_label =
    AStart
  | AStop
  | AJoin
  | AOffer nat 'a
  | AProducer bool nat
  | AConsumer nat "bool option"

fun ag_step :: "'a aggregator \<Rightarrow> 'a ag_label \<Rightarrow> 'a aggregator" where
  "ag_step a AStart = snd (ag_start a)"
| "ag_step a AStop = ag_request_stop a"
| "ag_step a AJoin = ag_join a"
| "ag_step a (AOffer i x) =
     (if i < length (ag_producers a) \<and> ag_producers a ! i = PIdle then ag_offer i x a else a)"
| "ag_step a (AProducer spurious i) = ag_producer_step spurious i a"
| "ag_step a (AConsumer k answer) = ag_consumer_step k answer a"

definition ag_run :: "'a aggregator \<Rightarrow> 'a ag_label list \<Rightarrow> 'a aggregator" where
  "ag_run = foldl ag_step"

text \<open>\<open>SerializeBatchJson\<close>, and the text of a batch.\<close>

definition serialize_batch :: "frame_record list \<Rightarrow> string" where
  "serialize_batch rs = ''['' @ comma_list serialize rs @ '']''"

definition batch_payload :: "frame_record ag_batch \<Rightarrow> string" where
  "batch_payload b = serialize_batch (map snd (ab_items b))"

lemma serialize_batch_json: "serialize_batch rs = print_json (JArr (map record_json rs))"
proof -
  have "serialize = (\<lambda>r. print_json (record_json r))"
    by (rule ext)
      (simp add: serialize_def record_json_def print_detection [abs_def] print_simps)
  then show ?thesis by (simp add: serialize_batch_def comma_list_join o_def)
qed

section \<open>Invariants\<close>

definition is_reserved :: "'a ag_producer \<Rightarrow> bool" where
  "is_reserved p \<longleftrightarrow> (\<exists>x. p = PReserved x)"

definition is_uncounted :: "'a ag_producer \<Rightarrow> bool" where
  "is_uncounted p \<longleftrightarrow> is_reserved p \<or> p = PPushed"

definition tally :: "('b \<Rightarrow> bool) \<Rightarrow> 'b list \<Rightarrow> nat" where
  "tally P xs = length (filter P xs)"

lemma tally_simps [simp]:
  "tally P [] = 0" "tally P (xs @ ys) = tally P xs + tally P ys"
  "tally P (x # xs) = (if P x then Suc (tally P xs) else tally P xs)"
  by (simp_all add: tally_def)

lemma tally_update:
  assumes "i < length xs"
  shows "tally P (xs[i := x]) + (if P (xs ! i) then 1 else 0) = tally P xs + (if P x then 1 else 0)"
proof -
  have "tally P xs = tally P (take i xs @ xs ! i # drop (Suc i) xs)"
    using assms by (simp only: id_take_nth_drop [symmetric])
  moreover have "tally P (xs[i := x]) = tally P (take i xs @ x # drop (Suc i) xs)"
    using assms by (simp only: upd_conv_take_nth_drop)
  ultimately show ?thesis by simp
qed

lemma tally_replicate [simp]: "\<not> P x \<Longrightarrow> tally P (replicate n x) = 0"
  by (simp add: tally_def)

text \<open>The size counter is exact, and never above the capacity.\<close>

definition ag_held :: "'a aggregator \<Rightarrow> nat" where
  "ag_held a = (case ag_phase a of CSub _ \<Rightarrow> 1 | _ \<Rightarrow> 0)"

definition ag_sized :: "'a aggregator \<Rightarrow> bool" where
  "ag_sized a \<longleftrightarrow>
     unat (ag_size a) = tally is_reserved (ag_producers a) + length (ag_queue a) + ag_held a \<and>
     unat (ag_size a) \<le> unat (ag_capacity a)"

text \<open>
  Per producer, the accepted items are the published ones, then those in the batch, then those
  in the queue, then the one it is about to enqueue, in the order they were offered.
\<close>

definition ag_accepted :: "nat \<Rightarrow> 'a aggregator \<Rightarrow> 'a list" where
  "ag_accepted i a = map (fst \<circ> snd) (filter (\<lambda>(j, x, ok). j = i \<and> ok) (ag_results a))"

definition of_producer :: "nat \<Rightarrow> (nat \<times> 'a) list \<Rightarrow> 'a list" where
  "of_producer i xs = map snd (filter (\<lambda>(j, x). j = i) xs)"

definition ag_pending :: "nat \<Rightarrow> 'a aggregator \<Rightarrow> 'a list" where
  "ag_pending i a = (if i < length (ag_producers a)
     then (case ag_producers a ! i of PReserved x \<Rightarrow> [x] | _ \<Rightarrow> []) else [])"

definition published_items :: "'a aggregator \<Rightarrow> (nat \<times> 'a) list" where
  "published_items a = concat (map ab_items (ag_published a))"

definition ag_ordered :: "'a aggregator \<Rightarrow> bool" where
  "ag_ordered a \<longleftrightarrow>
     (\<forall>i. ag_accepted i a =
        of_producer i (published_items a @ ag_batch a @ ag_queue a) @ ag_pending i a) \<and>
     (ag_phase a \<in> {CNone, CDone} \<longrightarrow> ag_batch a = [])"

text \<open>The three counters (64 bit, so up to wrap-around).\<close>

definition ag_counted :: "'a aggregator \<Rightarrow> bool" where
  "ag_counted a \<longleftrightarrow>
     ag_enqueued a + of_nat (tally is_uncounted (ag_producers a)) =
       of_nat (tally (\<lambda>(j, x, ok). ok) (ag_results a)) \<and>
     ag_dropped a = of_nat (tally (\<lambda>(j, x, ok). \<not> ok) (ag_results a)) \<and>
     ag_sent a = of_nat (length (ag_published a))"

text \<open>Batches are full, except those released by a stop, and never empty.\<close>

definition batch_full :: "u32 \<Rightarrow> 'a ag_batch \<Rightarrow> bool" where
  "batch_full bs b \<longleftrightarrow> ab_items b \<noteq> [] \<and> (\<not> ab_partial_ok b \<longrightarrow> length (ab_items b) = unat bs)"

fun phase_bound :: "ag_phase \<Rightarrow> nat \<Rightarrow> nat \<Rightarrow> bool" where
  "phase_bound CLoop n bs \<longleftrightarrow> n < bs"
| "phase_bound CWait n bs \<longleftrightarrow> n < bs"
| "phase_bound (CSub drain) n bs \<longleftrightarrow> drain \<or> n \<le> bs"
| "phase_bound CMore n bs \<longleftrightarrow> n \<le> bs"
| "phase_bound CDecide n bs \<longleftrightarrow> n \<le> bs"
| "phase_bound _ n bs \<longleftrightarrow> True"

definition ag_batched :: "'a aggregator \<Rightarrow> bool" where
  "ag_batched a \<longleftrightarrow> ag_batch_size a > 0 \<longrightarrow>
     (\<forall>b \<in> set (ag_published a). batch_full (ag_batch_size a) b) \<and>
     phase_bound (ag_phase a) (length (ag_batch a)) (unat (ag_batch_size a))"

definition ag_inv :: "'a aggregator \<Rightarrow> bool" where
  "ag_inv a \<longleftrightarrow> ag_sized a \<and> ag_ordered a \<and> ag_counted a \<and> ag_batched a"

lemmas ag_op_defs = ag_start_def ag_request_stop_def ag_join_def ag_offer_def ag_try_def ag_push_def
  ag_count_def ag_set_producer_def ag_dequeue_def ag_publish_def

section \<open>Each step keeps them\<close>

lemma of_producer_simps [simp]:
  "of_producer i [] = []" "of_producer i (xs @ ys) = of_producer i xs @ of_producer i ys"
  "of_producer i (p # ps) = (if fst p = i then [snd p] else []) @ of_producer i ps"
  by (auto simp: of_producer_def split: prod.splits)

lemma pick_front: "q \<noteq> [] \<Longrightarrow> ag_front q (ag_pick q k)"
  by (simp add: ag_pick_def ag_front_def)

text \<open>Taking an item that is the first of its producer out of the queue keeps every producer's order.\<close>

lemma front_order:
  assumes "ag_front q j"
  shows "of_producer i q = of_producer i [q ! j] @ of_producer i (take j q @ drop (Suc j) q)"
proof -
  have "of_producer i q = of_producer i (take j q @ q ! j # drop (Suc j) q)"
    using assms by (simp add: ag_front_def id_take_nth_drop [symmetric])
  moreover have "of_producer i (take j q) = []" if "fst (q ! j) = i"
  proof -
    have "\<forall>p \<in> set (take j q). fst p \<noteq> i" using assms that unfolding ag_front_def by blast
    then show ?thesis by (auto simp: of_producer_def filter_empty_conv)
  qed
  ultimately show ?thesis by auto
qed

lemma front_length: "ag_front q j \<Longrightarrow> Suc (length (take j q @ drop (Suc j) q)) = length q"
  by (auto simp: ag_front_def)

lemma u64_less_capacity:
  "(cur :: u64) < u64_of_u32 cap \<Longrightarrow> unat (cur + 1) = Suc (unat cur) \<and> unat cur < unat cap"
  using unat_u32_bound [of cap] by (simp add: word_less_nat_alt unat_u64_add)

lemma u64_pred: "0 < unat (w :: u64) \<Longrightarrow> unat (w - 1) = unat w - 1"
  by (metis unat_0 unat_minus_one less_irrefl)

lemma not_reserved [simp]: "\<not> is_reserved PIdle" "\<not> is_reserved (PTrying x c)" "\<not> is_reserved PPushed"
  "is_reserved (PReserved x)"
  by (simp_all add: is_reserved_def)

lemma sized_producer: "ag_sized a \<Longrightarrow> ag_sized (ag_producer_step b i a)"
  using tally_update [of i "ag_producers a" is_reserved]
  by (auto simp: ag_sized_def ag_op_defs ag_held_def not_le dest!: u64_less_capacity
      split: ag_producer.splits)

lemma sized_consumer: "ag_sized a \<Longrightarrow> ag_sized (ag_consumer_step k ans a)"
  using front_length [OF pick_front, of "ag_queue a" k]
  by (auto simp: ag_sized_def ag_op_defs ag_held_def u64_pred Let_def split: ag_phase.splits)


lemma pending_update:
  "i < length (ag_producers a) \<Longrightarrow> ag_pending j (ag_set_producer i p a) =
     (if j = i then (case p of PReserved x \<Rightarrow> [x] | _ \<Rightarrow> []) else ag_pending j a)"
  by (auto simp: ag_pending_def ag_set_producer_def)

lemma ordered_producer: "ag_ordered a \<Longrightarrow> ag_ordered (ag_producer_step b i a)"
  by (auto simp: ag_ordered_def ag_op_defs ag_accepted_def ag_pending_def published_items_def nth_list_update
      split: ag_producer.splits)

lemma ordered_offer: "ag_ordered a \<Longrightarrow> i < length (ag_producers a) \<Longrightarrow> ag_producers a ! i = PIdle \<Longrightarrow>
    ag_ordered (ag_offer i x a)"
  by (auto simp: ag_ordered_def ag_op_defs ag_accepted_def ag_pending_def published_items_def nth_list_update)

lemma dequeue_order:
  "ag_queue a \<noteq> [] \<Longrightarrow> of_producer i (ag_batch (ag_dequeue k a) @ ag_queue (ag_dequeue k a)) =
     of_producer i (ag_batch a @ ag_queue a)"
  using front_order [OF pick_front, of "ag_queue a" i k] by (auto simp: ag_dequeue_def Let_def)

lemma dequeue_keeps [simp]:
  "ag_results (ag_dequeue k a) = ag_results a" "ag_published (ag_dequeue k a) = ag_published a"
  "ag_producers (ag_dequeue k a) = ag_producers a" "ag_phase (ag_dequeue k a) = ag_phase a"
  "ag_capacity (ag_dequeue k a) = ag_capacity a" "ag_size (ag_dequeue k a) = ag_size a"
  "ag_batch_size (ag_dequeue k a) = ag_batch_size a" "ag_stop (ag_dequeue k a) = ag_stop a"
  by (simp_all add: ag_dequeue_def Let_def)

lemma ordered_dequeue:
  "ag_ordered a \<Longrightarrow> ag_queue a \<noteq> [] \<Longrightarrow> ph \<notin> {CNone, CDone} \<Longrightarrow> ag_ordered (ag_dequeue k a\<lparr>ag_phase := ph\<rparr>)"
  using dequeue_order [of a _ k]
  by (auto simp: ag_ordered_def ag_accepted_def ag_pending_def published_items_def)

lemma ordered_publish: "ag_ordered a \<Longrightarrow> ag_ordered (ag_publish ok ans a\<lparr>ag_phase := ph\<rparr>)"
  by (auto simp: ag_ordered_def ag_accepted_def ag_pending_def published_items_def ag_publish_def)

lemma ordered_phase:
  "ag_ordered a \<Longrightarrow> ag_batch a = [] \<or> ph \<notin> {CNone, CDone} \<Longrightarrow> ag_ordered (a\<lparr>ag_phase := ph\<rparr>)"
  "ag_ordered a \<Longrightarrow> ph \<notin> {CNone, CDone} \<Longrightarrow> ag_ordered (a\<lparr>ag_size := n, ag_phase := ph\<rparr>)"
  by (auto simp: ag_ordered_def ag_accepted_def ag_pending_def published_items_def)

lemma ordered_consumer: "ag_ordered a \<Longrightarrow> ag_ordered (ag_consumer_step k ans a)"
  by (cases "ag_phase a")
    (auto simp: ordered_dequeue ordered_publish ordered_phase)

lemma not_uncounted [simp]: "\<not> is_uncounted PIdle" "\<not> is_uncounted (PTrying x c)" "is_uncounted PPushed"
  "is_uncounted (PReserved x)"
  by (simp_all add: is_uncounted_def)

lemma counted_producer: "ag_counted a \<Longrightarrow> ag_counted (ag_producer_step b i a)"
proof (cases "i < length (ag_producers a)")
  case True
  note up = tally_update [OF True, of is_uncounted]
  assume "ag_counted a"
  then show ?thesis
    using True up [of PIdle] up [of "PReserved x" for x] up [of PPushed] up [of "PTrying x c" for x c]
    by (cases "ag_producers a ! i") (auto simp: ag_counted_def ag_op_defs ac_simps dest: sym)
qed simp

lemma counted_consumer: "ag_counted a \<Longrightarrow> ag_counted (ag_consumer_step k ans a)"
  by (auto simp: ag_counted_def ag_dequeue_def ag_publish_def Let_def split: ag_phase.splits)

lemma batched_consumer: "ag_batched a \<Longrightarrow> ag_batched (ag_consumer_step k ans a)"
  by (auto simp: ag_batched_def ag_dequeue_def ag_publish_def Let_def batch_full_def word_less_nat_alt
      split: ag_phase.splits)

lemma producer_keeps:
  "ag_batch (ag_producer_step b i a) = ag_batch a" "ag_phase (ag_producer_step b i a) = ag_phase a"
  "ag_batch_size (ag_producer_step b i a) = ag_batch_size a"
  "ag_published (ag_producer_step b i a) = ag_published a" "ag_stop (ag_producer_step b i a) = ag_stop a"
  by (simp_all add: ag_op_defs split: ag_producer.splits)

lemma batched_producer: "ag_batched a \<Longrightarrow> ag_batched (ag_producer_step b i a)"
  by (simp add: ag_batched_def producer_keeps del: ag_producer_step.simps)

lemma offer_keeps:
  assumes "ag_inv a" and i: "i < length (ag_producers a)" "ag_producers a ! i = PIdle"
  shows "ag_inv (ag_offer i x a)"
proof -
  have "ag_counted (ag_offer i x a)" "ag_sized (ag_offer i x a)" "ag_batched (ag_offer i x a)"
    using assms tally_update [OF i(1), of is_uncounted "PTrying x c" for c] tally_update [OF i(1), of is_reserved "PTrying x c" for c]
    by (auto simp: ag_inv_def ag_counted_def ag_sized_def ag_batched_def ag_held_def ag_op_defs)
  then show ?thesis using assms ordered_offer by (auto simp: ag_inv_def)
qed

text \<open>Start, the stop request and the join touch only the consumer's phase, flag and batch.\<close>

lemma control_keeps:
  assumes "ag_inv a"
  shows "ag_inv (snd (ag_start a)) \<and> ag_inv (ag_request_stop a) \<and> ag_inv (ag_join a)"
proof -
  have "ag_sized (snd (ag_start a)) \<and> ag_ordered (snd (ag_start a)) \<and>
      ag_counted (snd (ag_start a)) \<and> ag_batched (snd (ag_start a))"
    using assms by (auto simp: ag_inv_def ag_sized_def ag_ordered_def ag_counted_def ag_batched_def
        ag_start_def ag_held_def ag_accepted_def ag_pending_def published_items_def word_less_nat_alt)
  moreover have "ag_inv (ag_request_stop a)"
    using assms by (auto simp: ag_inv_def ag_sized_def ag_ordered_def ag_counted_def ag_batched_def
        ag_request_stop_def ag_held_def ag_accepted_def ag_pending_def published_items_def)
  moreover have "ag_inv (ag_join a)"
    using assms by (auto simp: ag_inv_def ag_sized_def ag_ordered_def ag_counted_def ag_batched_def
        ag_join_def ag_held_def ag_accepted_def ag_pending_def published_items_def)
  ultimately show ?thesis by (simp add: ag_inv_def)
qed

lemma ag_step_inv: "ag_inv a \<Longrightarrow> ag_inv (ag_step a l)"
proof (induction a l rule: ag_step.induct)
  case (5 a b i)
  then show ?case
    unfolding ag_step.simps ag_inv_def
    by (blast intro: sized_producer ordered_producer counted_producer batched_producer)
next
  case (6 a k ans)
  then show ?case
    unfolding ag_step.simps ag_inv_def
    by (blast intro: sized_consumer ordered_consumer counted_consumer batched_consumer)
qed (simp_all add: control_keeps offer_keeps)

interpretation ag_sys: step_system ag_step ag_inv
  by unfold_locales (rule ag_step_inv)

lemma ag_new_inv: "ag_inv (ag_new bs cap n)"
  by (auto simp: ag_inv_def ag_sized_def ag_ordered_def ag_counted_def ag_batched_def ag_new_def ag_held_def
      ag_accepted_def ag_pending_def published_items_def)

lemma ag_run_inv: "ag_inv (ag_run (ag_new bs cap n) ls)"
  unfolding ag_run_def by (rule ag_sys.run_inv [OF ag_new_inv])

lemma ag_step_constants [simp]:
  "ag_batch_size (ag_step a l) = ag_batch_size a" "ag_capacity (ag_step a l) = ag_capacity a"
  by (induction a l rule: ag_step.induct)
    (auto simp: ag_op_defs Let_def split: ag_producer.splits ag_phase.splits)

lemma ag_run_constants [simp]:
  "ag_batch_size (ag_run a ls) = ag_batch_size a" "ag_capacity (ag_run a ls) = ag_capacity a"
  by (induction ls arbitrary: a) (simp_all add: ag_run_def)

section \<open>What the aggregator guarantees\<close>


text \<open>
  Batches come out full and in the counted number: with a batch size of at least one, every batch
  published is non-empty, has exactly the batch size unless a stop released it, and the batch
  being collected never outgrows the batch size while the thread is in its loop.
\<close>

theorem batches_full:
  assumes "bs > 0"
  shows "let a = ag_run (ag_new bs cap n) ls in
     (\<forall>b \<in> set (ag_published a). batch_full bs b) \<and>
     (ag_phase a = CLoop \<longrightarrow> length (ag_batch a) < unat bs)"
proof -
  have "ag_batch_size (ag_run (ag_new bs cap n) ls :: 'a aggregator) = bs" by (simp add: ag_new_def)
  with ag_run_inv [of bs cap n ls] assms show ?thesis
    by (auto simp: Let_def ag_inv_def ag_batched_def)
qed

text \<open>
  The turns the consumer still needs after a stop, when no channel thread interferes: two per
  queued item and at most five more.
\<close>

fun ag_fuel :: "ag_phase \<Rightarrow> nat \<Rightarrow> nat" where
  "ag_fuel CNone n = 0"
| "ag_fuel CDone n = 0"
| "ag_fuel CDrain n = 2 * n + 1"
| "ag_fuel (CSub True) n = 2 * n + 2"
| "ag_fuel CLoop n = 2 * n + 2"
| "ag_fuel CDecide n = 2 * n + 3"
| "ag_fuel CMore n = 2 * n + 4"
| "ag_fuel CWait n = 2 * n + 4"
| "ag_fuel (CSub False) n = 2 * n + 5"

definition ag_left :: "'a aggregator \<Rightarrow> nat" where
  "ag_left a = ag_fuel (ag_phase a) (length (ag_queue a))"

lemma dequeue_length: "ag_queue a \<noteq> [] \<Longrightarrow> Suc (length (ag_queue (ag_dequeue k a))) = length (ag_queue a)"
  using front_length [OF pick_front, of "ag_queue a" k] by (simp add: ag_dequeue_def Let_def)

lemma consumer_progress:
  assumes "ag_stop a" and "ag_phase a \<noteq> CNone" and "ag_phase a \<noteq> CDone"
  shows "ag_left (ag_consumer_step k ans a) < ag_left a"
  using assms dequeue_length [of a k]
  by (cases "ag_phase a") (auto simp: ag_left_def ag_publish_def split: if_splits)

lemma consumer_stays:
  "ag_stop (ag_consumer_step k ans a) = ag_stop a"
  "ag_results (ag_consumer_step k ans a) = ag_results a"
  "ag_producers (ag_consumer_step k ans a) = ag_producers a"
  "ag_phase (ag_consumer_step k ans a) = CNone \<longleftrightarrow> ag_phase a = CNone"
  by (cases "ag_phase a"; simp add: ag_publish_def)+

text \<open>The thread returns only with an empty queue, and nothing else moves it while nobody enqueues.\<close>

lemma consumer_done_empty:
  "ag_phase a = CDone \<longrightarrow> ag_queue a = [] \<Longrightarrow>
   ag_phase (ag_consumer_step k ans a) = CDone \<longrightarrow> ag_queue (ag_consumer_step k ans a) = []"
  by (cases "ag_phase a") (auto simp: ag_publish_def split: if_splits)

definition consumer_turns :: "(nat \<times> bool option) list \<Rightarrow> 'a ag_label list" where
  "consumer_turns ts = map (\<lambda>(k, ans). AConsumer k ans) ts"

lemma consumer_finishes:
  assumes "ag_stop a" and "ag_phase a \<noteq> CNone" and "ag_phase a = CDone \<longrightarrow> ag_queue a = []"
    and "ag_left a \<le> length ts"
  shows "ag_phase (ag_run a (consumer_turns ts)) = CDone \<and> ag_queue (ag_run a (consumer_turns ts)) = [] \<and>
    ag_results (ag_run a (consumer_turns ts)) = ag_results a \<and>
    ag_producers (ag_run a (consumer_turns ts)) = ag_producers a"
  using assms
proof (induction ts arbitrary: a)
  case Nil
  then have "ag_phase a = CDone"
    by (cases "ag_phase a") (auto simp: ag_left_def split: bool.splits elim: ag_fuel.elims)
  with Nil show ?case by (simp add: ag_run_def consumer_turns_def)
next
  case (Cons t ts)
  obtain k ans where t: "t = (k, ans)" by force
  let ?a = "ag_consumer_step k ans a"
  have "ag_left ?a \<le> length ts"
  proof (cases "ag_phase a = CDone")
    case True
    then show ?thesis by (simp add: ag_left_def)
  next
    case False
    with consumer_progress [of a k ans] Cons.prems show ?thesis by simp
  qed
  then have "ag_phase (ag_run ?a (consumer_turns ts)) = CDone \<and> ag_queue (ag_run ?a (consumer_turns ts)) = [] \<and>
      ag_results (ag_run ?a (consumer_turns ts)) = ag_results ?a \<and>
      ag_producers (ag_run ?a (consumer_turns ts)) = ag_producers ?a"
    using Cons.prems consumer_done_empty [OF Cons.prems(3), of k ans]
    by (intro Cons.IH) (simp_all only: consumer_stays simp_thms not_False_eq_True)
  then show ?case
    by (simp only: consumer_stays ag_run_def consumer_turns_def t list.map foldl_Cons prod.case ag_step.simps)
qed

text \<open>
  C24: A stop terminates and publishes everything accepted: from any reachable state in
  which a stop is requested and every channel thread is idle, the consumer thread
  returns within two turns per queued item and five more, whatever order the queue gives the
  items out in and whatever the broker answers, and then exactly the accepted items have been
  published, per channel thread and in order.
\<close>

theorem stop_publishes_all:
  assumes "a = ag_run (ag_new bs cap n) ls" and "ag_stop a" and "ag_phase a \<notin> {CNone, CDone}"
    and "\<forall>p \<in> set (ag_producers a). p = PIdle" and "2 * length (ag_queue a) + 5 \<le> length ts"
  shows "let z = ag_run a (consumer_turns ts) in
     ag_phase z = CDone \<and> ag_queue z = [] \<and> (\<forall>i. of_producer i (published_items z) = ag_accepted i a)"
proof -
  let ?z = "ag_run a (consumer_turns ts)"
  have "ag_left a \<le> 2 * length (ag_queue a) + 5"
    unfolding ag_left_def by (cases "(ag_phase a, length (ag_queue a))" rule: ag_fuel.cases) simp_all
  with assms(3,5) have fin: "ag_phase ?z = CDone" "ag_queue ?z = []" "ag_results ?z = ag_results a"
    "ag_producers ?z = ag_producers a"
    using consumer_finishes [OF assms(2), of ts] by simp_all
  have "ag_inv ?z" unfolding ag_run_def by (rule ag_sys.run_inv) (simp add: assms(1) ag_run_inv)
  moreover have "ag_producers a ! i = PIdle" if "i < length (ag_producers a)" for i
    using assms(4) nth_mem [OF that] by blast
  then have "ag_pending i ?z = []" for i by (simp add: ag_pending_def fin(4))
  ultimately show ?thesis
    using fin(1-3) by (simp add: Let_def ag_inv_def ag_ordered_def ag_accepted_def)
qed

text \<open>One record is accepted, then the stop comes before the consumer's first turn.\<close>

definition stop_example :: "string aggregator" where
  "stop_example = ag_run (ag_new 2 3 1) [AStart, AOffer 0 ''x'', AProducer False 0, AProducer False 0,
     AProducer False 0, AStop]"

lemma stop_example_state:
  "ag_stop stop_example \<and> ag_phase stop_example = CLoop \<and> ag_producers stop_example = [PIdle] \<and>
   ag_queue stop_example = [(0, ''x'')] \<and> ag_accepted 0 stop_example = [''x'']"
  by code_simp

theorem stop_publishes_all_witness:
  "of_producer 0 (published_items (ag_run stop_example (consumer_turns (replicate 7 (0, Some True))))) = [''x'']"
  using stop_publishes_all [OF stop_example_def, of "replicate 7 (0, Some True)"] stop_example_state
  by (simp add: Let_def)

end
