(* ===== verification/Latency.thy ===== *)
theory Latency
  imports OrdMap CFloat
begin

text \<open>
  The latency recorder of one channel (\<open>utils/perf/LatencyRecorder.cpp\<close>): it collects the
  times at which a frame passes the stages of the pipeline, and writes one line per metric when
  both its ends are known. The clocks, the two samples of the system and the outcome of opening
  the file are arguments; a line is modelled as the values it prints. The unordered map of frames
  is an ordered one: only its size and its entries matter.
\<close>

section \<open>Stages and metrics\<close>

datatype stage = H264ParseSrc | V4L2DecCapsSrc | YoloQnnSink | YoloQnnSrc | YoloPostprocessSrc
  | TrackerSink | TrackerSrc | FaceInferSink | FaceInferSrc

datatype metric = FaceInferToEmbedding | ByteTrack | FileToDec | DecToYolo | DecToTracker | DecToFace | YoloQnnInfer

definition metric_count :: u8 where "metric_count = 7"

fun metric_name :: "metric \<Rightarrow> string" where
  "metric_name FaceInferToEmbedding = ''face_infer_to_embedding''"
| "metric_name ByteTrack = ''bytetrack''"
| "metric_name FileToDec = ''file_to_dec''"
| "metric_name DecToYolo = ''dec_to_yolo''"
| "metric_name DecToTracker = ''dec_to_tracker''"
| "metric_name DecToFace = ''dec_to_face''"
| "metric_name YoloQnnInfer = ''yolo_qnn_infer''"

text \<open>The two stages of a metric, and the order in which the code looks at the metrics.\<close>

fun metric_ends :: "metric \<Rightarrow> stage \<times> stage" where
  "metric_ends FaceInferToEmbedding = (FaceInferSink, FaceInferSrc)"
| "metric_ends ByteTrack = (TrackerSink, TrackerSrc)"
| "metric_ends FileToDec = (H264ParseSrc, V4L2DecCapsSrc)"
| "metric_ends YoloQnnInfer = (YoloQnnSink, YoloQnnSrc)"
| "metric_ends DecToYolo = (V4L2DecCapsSrc, YoloPostprocessSrc)"
| "metric_ends DecToTracker = (V4L2DecCapsSrc, TrackerSrc)"
| "metric_ends DecToFace = (V4L2DecCapsSrc, FaceInferSrc)"

definition metric_order :: "metric list" where
  "metric_order = [FaceInferToEmbedding, ByteTrack, FileToDec, YoloQnnInfer, DecToYolo, DecToTracker, DecToFace]"

section \<open>State\<close>

text \<open>A time and its flag are one optional time per stage.\<close>

record frame_timing =
  ft_time :: "stage \<Rightarrow> u64 option"
  ft_emitted :: "metric \<Rightarrow> bool"
  ft_count :: u8
  ft_order :: u64

definition ft_new :: frame_timing where
  "ft_new = \<lparr>ft_time = (\<lambda>s. None), ft_emitted = (\<lambda>m. False), ft_count = 0, ft_order = 0\<rparr>"

record latency_row =
  row_epoch_ms :: u64
  row_channel :: u32
  row_metric :: metric
  row_key :: u64
  row_latency_ns :: u64
  row_latency_ms :: cfloat
  row_start :: u64
  row_end :: u64
  row_gpu :: int
  row_rss :: int

record latency_config =
  lc_channel :: u32
  lc_dir :: string
  lc_sample_every_n :: u32
  lc_flush :: bool

text \<open>\<open>lr_file\<close> holds the lines of the open file, None when there is none.\<close>

record latency_recorder =
  lr_frames :: "(u64, frame_timing) omap"
  lr_seen :: "metric \<Rightarrow> u64"
  lr_file :: "latency_row list option"
  lr_channel :: u32
  lr_sample_every_n :: u32
  lr_flush :: bool
  lr_order :: u64
  lr_gpu :: int
  lr_rss :: int
  lr_resource_ns :: u64

definition lr_new :: latency_recorder where
  "lr_new = \<lparr>lr_frames = [], lr_seen = (\<lambda>m. 0), lr_file = None, lr_channel = 0, lr_sample_every_n = 1,
     lr_flush = True, lr_order = 0, lr_gpu = - 1, lr_rss = - 1, lr_resource_ns = 0\<rparr>"

definition lr_close :: "latency_recorder \<Rightarrow> latency_recorder" where
  "lr_close r = r\<lparr>lr_frames := [], lr_seen := (\<lambda>m. 0), lr_order := 0, lr_gpu := - 1, lr_rss := - 1,
     lr_resource_ns := 0, lr_file := None\<rparr>"

definition latency_path :: "latency_config \<Rightarrow> string" where
  "latency_path c = lc_dir c @ ''/latency_ch'' @ dec_nat (unat (lc_channel c)) @ ''.csv''"

definition lr_initialize :: "bool \<Rightarrow> latency_config \<Rightarrow> latency_recorder \<Rightarrow> bool \<times> latency_recorder" where
  "lr_initialize open_ok c r0 =
     (let r = (lr_close r0)\<lparr>lr_channel := lc_channel c,
            lr_sample_every_n := (if lc_sample_every_n c > 0 then lc_sample_every_n c else 1), lr_flush := lc_flush c\<rparr>
      in if lc_dir c = [] then (False, r)
         else if \<not> open_ok then (False, r)
         else (True, r\<lparr>lr_file := Some []\<rparr>))"

section \<open>Recording\<close>

text \<open>What the system answers when a line is written.\<close>

record sample_env =
  se_epoch_ms :: u64
  se_now_ns :: u64
  se_gpu :: int
  se_rss :: int

definition refresh_resources :: "sample_env \<Rightarrow> latency_recorder \<Rightarrow> latency_recorder" where
  "refresh_resources e r =
     (if se_now_ns e = 0 \<or> se_now_ns e - lr_resource_ns r < 200000000 then r
      else r\<lparr>lr_resource_ns := se_now_ns e, lr_gpu := se_gpu e, lr_rss := se_rss e\<rparr>)"

definition should_sample :: "metric \<Rightarrow> latency_recorder \<Rightarrow> bool \<times> latency_recorder" where
  "should_sample m r =
     (let ordinal = lr_seen r m + 1
      in ((ordinal - 1) mod u64_of_u32 (lr_sample_every_n r) = 0, r\<lparr>lr_seen := (lr_seen r)(m := ordinal)\<rparr>))"

definition emit_metric ::
  "sample_env \<Rightarrow> u64 \<Rightarrow> metric \<Rightarrow> u64 \<Rightarrow> u64 \<Rightarrow> frame_timing \<Rightarrow> latency_recorder \<Rightarrow> frame_timing \<times> latency_recorder" where
  "emit_metric e key m start_ns end_ns t r =
     (case lr_file r of
        None \<Rightarrow> (t, r)
      | Some rows \<Rightarrow>
          if ft_emitted t m then (t, r)
          else
            let t = t\<lparr>ft_emitted := (ft_emitted t)(m := True),
                      ft_count := (if ft_count t < metric_count then ft_count t + 1 else ft_count t)\<rparr>
            in if end_ns < start_ns then (t, r)
               else
                 let (sample, r) = should_sample m r in
                 if \<not> sample then (t, r)
                 else
                   let latency = end_ns - start_ns;
                       r = refresh_resources e r;
                       row = \<lparr>row_epoch_ms = se_epoch_ms e, row_channel = lr_channel r, row_metric = m, row_key = key,
                         row_latency_ns = latency,
                         row_latency_ms = fdiv B64 (fl B64 (of_nat (unat latency))) (Fin 1000000),
                         row_start = start_ns, row_end = end_ns, row_gpu = lr_gpu r, row_rss = lr_rss r\<rparr>
                   in (t, r\<lparr>lr_file := Some (rows @ [row])\<rparr>))"

definition maybe_emit ::
  "(metric \<Rightarrow> sample_env) \<Rightarrow> u64 \<Rightarrow> frame_timing \<times> latency_recorder \<Rightarrow> metric \<Rightarrow> frame_timing \<times> latency_recorder" where
  "maybe_emit e key st m =
     (let (t, r) = st; (a, b) = metric_ends m in
      case (ft_time t a, ft_time t b) of
        (Some x, Some y) \<Rightarrow> emit_metric (e m) key m x y t r
      | _ \<Rightarrow> (t, r))"

definition maybe_emit_metrics ::
  "(metric \<Rightarrow> sample_env) \<Rightarrow> u64 \<Rightarrow> frame_timing \<Rightarrow> latency_recorder \<Rightarrow> frame_timing \<times> latency_recorder" where
  "maybe_emit_metrics e key t r =
     (if lr_file r = None then (t, r) else foldl (maybe_emit e key) (t, r) metric_order)"

text \<open>An old frame of which nothing was seen for long, or of which everything was emitted.\<close>

definition stale :: "u64 \<Rightarrow> frame_timing \<Rightarrow> bool" where
  "stale order t \<longleftrightarrow> order > ft_order t \<and> order - ft_order t > 8192"

definition prune :: "latency_recorder \<Rightarrow> latency_recorder" where
  "prune r =
     (if length (lr_frames r) \<le> 8192 then r
      else
        let r = r\<lparr>lr_frames := filter (\<lambda>(k, t). \<not> (stale (lr_order r) t \<or> ft_count t \<ge> metric_count)) (lr_frames r)\<rparr>
        in if length (lr_frames r) > 20000 then r\<lparr>lr_frames := []\<rparr> else r)"

text \<open>A frame number that comes again more than a second later starts afresh.\<close>

definition reused :: "stage \<Rightarrow> u64 \<Rightarrow> frame_timing \<Rightarrow> bool" where
  "reused st ts t \<longleftrightarrow> st = H264ParseSrc \<and>
     (case ft_time t H264ParseSrc of None \<Rightarrow> False | Some old \<Rightarrow> ts > old \<and> ts - old > 1000000000)"

text \<open>The entry of the frame (None when it is new) with the time of this stage.\<close>

definition touched :: "stage \<Rightarrow> u64 \<Rightarrow> u64 \<Rightarrow> frame_timing option \<Rightarrow> frame_timing" where
  "touched st ts order found =
     (let t0 = (case found of None \<Rightarrow> ft_new | Some t \<Rightarrow> t)\<lparr>ft_order := order\<rparr>;
          t1 = (if found \<noteq> None \<and> reused st ts t0
                then ft_new\<lparr>ft_time := (\<lambda>s. None)(H264ParseSrc := Some ts), ft_order := order\<rparr> else t0)
      in t1\<lparr>ft_time := (ft_time t1)(st := Some ts)\<rparr>)"

definition record_stage ::
  "(metric \<Rightarrow> sample_env) \<Rightarrow> stage \<Rightarrow> u64 \<Rightarrow> u64 \<Rightarrow> latency_recorder \<Rightarrow> latency_recorder" where
  "record_stage e st key ts r0 =
     (if lr_file r0 = None \<or> ts = 0 then r0
      else
        let r = r0\<lparr>lr_order := lr_order r0 + 1\<rparr>;
            (t, r') = maybe_emit_metrics e key (touched st ts (lr_order r) (om_get (lr_frames r) key)) r
        in prune (r'\<lparr>lr_frames := om_put key t (lr_frames r')\<rparr>))"

text \<open>\<open>ExtractFrameKey\<close>: the first valid one of the buffer's PTS, DTS and offset (None is invalid).\<close>

definition extract_frame_key :: "u64 option \<Rightarrow> u64 option \<Rightarrow> u64 option \<Rightarrow> u64 option" where
  "extract_frame_key pts dts off = (case pts of Some k \<Rightarrow> Some k | None \<Rightarrow> (case dts of Some k \<Rightarrow> Some k | None \<Rightarrow> off))"

section \<open>Invariants\<close>

text \<open>
  Frames carry distinct orders, none above the recorder's, so that few of them are recent; the
  times they hold, and the ends of the lines written, were recorded.
\<close>

definition orders_ok :: "latency_recorder \<Rightarrow> bool" where
  "orders_ok r \<longleftrightarrow> om_wf (lr_frames r) \<and> inj_on (\<lambda>e. ft_order (snd e)) (set (lr_frames r)) \<and>
     (\<forall>e \<in> set (lr_frames r). ft_order (snd e) \<le> lr_order r) \<and> length (lr_frames r) \<le> 8193"

definition times_from :: "(stage \<times> u64 \<times> u64) set \<Rightarrow> u64 \<Rightarrow> frame_timing \<Rightarrow> bool" where
  "times_from evs k t \<longleftrightarrow> (\<forall>s x. ft_time t s = Some x \<longrightarrow> (s, k, x) \<in> evs)"

definition row_from :: "(stage \<times> u64 \<times> u64) set \<Rightarrow> latency_row \<Rightarrow> bool" where
  "row_from evs w \<longleftrightarrow> row_start w \<le> row_end w \<and> row_latency_ns w = row_end w - row_start w \<and>
     (fst (metric_ends (row_metric w)), row_key w, row_start w) \<in> evs \<and>
     (snd (metric_ends (row_metric w)), row_key w, row_end w) \<in> evs"

definition rows_ok :: "(stage \<times> u64 \<times> u64) set \<Rightarrow> latency_recorder \<Rightarrow> bool" where
  "rows_ok evs r \<longleftrightarrow> (\<forall>rows. lr_file r = Some rows \<longrightarrow> (\<forall>w \<in> set rows. row_from evs w \<and> row_channel w = lr_channel r))"

definition frames_from :: "(stage \<times> u64 \<times> u64) set \<Rightarrow> latency_recorder \<Rightarrow> bool" where
  "frames_from evs r \<longleftrightarrow> (\<forall>(k, t) \<in> set (lr_frames r). times_from evs k t)"

text \<open>What emitting changes: the flags of the frame, the lines, the samples and the counts.\<close>

lemma emit_keeps:
  assumes "emit_metric e key m x y t r = (t', r')"
  shows "ft_time t' = ft_time t \<and> ft_order t' = ft_order t \<and> lr_frames r' = lr_frames r \<and>
    lr_order r' = lr_order r \<and> lr_channel r' = lr_channel r \<and> (lr_file r' = None \<longleftrightarrow> lr_file r = None)"
  using assms
  by (auto simp: emit_metric_def should_sample_def refresh_resources_def Let_def split: option.splits if_splits)

lemma emit_rows:
  assumes "emit_metric e key m x y t r = (t', r')" and "rows_ok evs r"
    and "(fst (metric_ends m), key, x) \<in> evs" "(snd (metric_ends m), key, y) \<in> evs"
  shows "rows_ok evs r'"
  using assms
  by (auto simp: emit_metric_def should_sample_def refresh_resources_def rows_ok_def row_from_def Let_def not_less
      split: option.splits if_splits)

lemma maybe_emit_keeps:
  assumes "maybe_emit e key (t, r) m = (t', r')"
  shows "ft_time t' = ft_time t \<and> ft_order t' = ft_order t \<and> lr_frames r' = lr_frames r \<and>
    lr_order r' = lr_order r \<and> lr_channel r' = lr_channel r \<and> (lr_file r' = None \<longleftrightarrow> lr_file r = None) \<and>
    (times_from evs key t \<longrightarrow> rows_ok evs r \<longrightarrow> rows_ok evs r')"
proof -
  obtain a b where ends: "metric_ends m = (a, b)" by force
  show ?thesis
    using assms emit_keeps [of "e m" key m _ _ t r t' r'] emit_rows [of "e m" key m _ _ t r t' r' evs]
    by (auto simp: maybe_emit_def ends times_from_def split: option.splits)
qed

lemma emit_all_keeps:
  assumes "foldl (maybe_emit e key) (t, r) ms = (t', r')"
  shows "ft_time t' = ft_time t \<and> ft_order t' = ft_order t \<and> lr_frames r' = lr_frames r \<and>
    lr_order r' = lr_order r \<and> lr_channel r' = lr_channel r \<and> (lr_file r' = None \<longleftrightarrow> lr_file r = None) \<and>
    (times_from evs key t \<longrightarrow> rows_ok evs r \<longrightarrow> rows_ok evs r')"
  using assms
proof (induction ms arbitrary: t r)
  case (Cons m ms)
  obtain t1 r1 where one: "maybe_emit e key (t, r) m = (t1, r1)" by force
  with Cons.prems have rest: "foldl (maybe_emit e key) (t1, r1) ms = (t', r')" by simp
  show ?case using maybe_emit_keeps [OF one, of evs] Cons.IH [OF rest] by (auto simp: times_from_def)
qed simp

lemma set_om_put: "om_wf m \<Longrightarrow> set (om_put k v m) = insert (k, v) {e \<in> set m. fst e \<noteq> k}"
proof (induction k v m rule: om_put.induct)
  case (2 k v k' v' m)
  then show ?case by (auto simp: om_wf_Cons)
qed simp

text \<open>At most 8193 distinct orders lie within the window of a recorder.\<close>

lemma recent_orders:
  fixes n :: u64
  assumes "inj_on f S" "\<forall>e \<in> S. f e \<le> n \<and> \<not> (n > f e \<and> n - f e > 8192)" "finite S"
  shows "card S \<le> 8193"
proof -
  have "unat ` f ` S \<subseteq> {unat n - 8192 .. unat n}"
  proof
    fix u assume "u \<in> unat ` f ` S"
    then obtain e where e: "e \<in> S" "u = unat (f e)" by blast
    then have le: "f e \<le> n" and "n - f e \<le> 8192" using assms(2) by (auto simp: not_less le_less)
    then have "unat n - unat (f e) \<le> 8192"
      unfolding unat_sub [OF le, symmetric] by (simp add: word_le_nat_alt)
    then show "u \<in> {unat n - 8192 .. unat n}" using le e(2) by (auto simp: word_le_nat_alt)
  qed
  then have "card (unat ` f ` S) \<le> card {unat n - 8192 .. unat n}" by (intro card_mono) auto
  also have "\<dots> \<le> 8193" by simp
  also have "card (unat ` f ` S) = card S"
  proof -
    have "inj_on unat (f ` S)" by (auto simp: inj_on_def word_unat_eq_iff)
    then show ?thesis using assms(1) by (simp add: card_image)
  qed
  finally show ?thesis .
qed

lemma prune_orders:
  assumes "om_wf (lr_frames r)" "inj_on (\<lambda>e. ft_order (snd e)) (set (lr_frames r))"
    and "\<forall>e \<in> set (lr_frames r). ft_order (snd e) \<le> lr_order r"
  shows "orders_ok (prune r) \<and> set (lr_frames (prune r)) \<subseteq> set (lr_frames r) \<and>
    lr_file (prune r) = lr_file r \<and> lr_order (prune r) = lr_order r \<and> lr_channel (prune r) = lr_channel r"
proof -
  define fs where "fs = filter (\<lambda>(k, t). \<not> (stale (lr_order r) t \<or> ft_count t \<ge> metric_count)) (lr_frames r)"
  have wf: "om_wf fs" using assms(1) by (simp add: om_wf_def fs_def sorted_wrt_map sorted_wrt_filter)
  have sub: "set fs \<subseteq> set (lr_frames r)" by (auto simp: fs_def)
  have inj: "inj_on (\<lambda>e. ft_order (snd e)) (set fs)" using assms(2) sub by (rule inj_on_subset)
  have "card (set fs) \<le> 8193"
    using assms(3) sub by (intro recent_orders [OF inj, of "lr_order r"]) (auto simp: fs_def stale_def)
  moreover have "distinct fs" using om_wf_distinct [OF wf] by (simp add: distinct_map)
  ultimately have "length fs \<le> 8193" by (simp add: distinct_card)
  moreover have "prune r = (if length (lr_frames r) \<le> 8192 then r
      else if length fs > 20000 then r\<lparr>lr_frames := []\<rparr> else r\<lparr>lr_frames := fs\<rparr>)"
    by (simp add: prune_def fs_def Let_def)
  ultimately show ?thesis
    using assms wf sub inj by (auto simp: orders_ok_def om_wf_def)
qed

lemma touched_from:
  "(\<forall>t. found = Some t \<longrightarrow> times_from evs key t) \<Longrightarrow> (st, key, ts) \<in> evs \<Longrightarrow>
     times_from evs key (touched st ts n found) \<and> ft_order (touched st ts n found) = n"
  by (cases found) (auto simp: touched_def times_from_def reused_def ft_new_def Let_def)

lemma from_mono: "frames_from evs r \<Longrightarrow> evs \<subseteq> evs' \<Longrightarrow> frames_from evs' r"
  unfolding frames_from_def times_from_def by fastforce

text \<open>One event keeps everything, as long as the 64-bit order does not wrap.\<close>

lemma record_stage_keeps:
  fixes e :: "metric \<Rightarrow> sample_env" and n :: nat
  assumes inv: "orders_ok r" "rows_ok evs r" "frames_from evs r" "lr_file r \<noteq> None" "unat (lr_order r) < n"
    and n: "n < 18446744073709551615" and evs: "evs \<subseteq> evs'" "(st, key, ts) \<in> evs'"
  defines "r' \<equiv> record_stage e st key ts r"
  shows "orders_ok r' \<and> rows_ok evs' r' \<and> frames_from evs' r' \<and> lr_file r' \<noteq> None \<and> unat (lr_order r') < Suc n \<and>
    lr_channel r' = lr_channel r"
proof (cases "ts = 0")
  case True
  then show ?thesis
    using inv evs unfolding r'_def record_stage_def rows_ok_def row_from_def frames_from_def times_from_def
    by (fastforce simp: Let_def)
next
  case False
  define o' where "o' = lr_order r + 1"
  have o': "lr_order r < o'" "unat o' = Suc (unat (lr_order r))"
    using inv(5) n unat_u64_add [of "lr_order r" 1] by (auto simp: o'_def word_less_nat_alt)
  define t2 where "t2 = touched st ts o' (om_get (lr_frames r) key)"
  obtain t3 r3 where em: "maybe_emit_metrics e key t2 (r\<lparr>lr_order := o'\<rparr>) = (t3, r3)" by force
  have r': "r' = prune (r3\<lparr>lr_frames := om_put key t3 (lr_frames r3)\<rparr>)"
    using False inv(4) em unfolding r'_def record_stage_def t2_def o'_def by (auto simp: Let_def)
  have wf: "om_wf (lr_frames r)" using inv(1) by (simp add: orders_ok_def)
  have "times_from evs' key t" if "om_get (lr_frames r) key = Some t" for t
    using that inv(3) evs(1) om_get_Some_iff [OF wf] by (fastforce simp: times_from_def frames_from_def)
  then have t2: "times_from evs' key t2" "ft_order t2 = o'"
    unfolding t2_def using touched_from [of "om_get (lr_frames r) key" evs' key] evs(2) by auto
  have "foldl (maybe_emit e key) (t2, r\<lparr>lr_order := o'\<rparr>) metric_order = (t3, r3)"
    using em inv(4) by (simp add: maybe_emit_metrics_def)
  note k = emit_all_keeps [OF this, of evs']
  have rows: "rows_ok evs' (r\<lparr>lr_order := o'\<rparr>)"
    using inv(2) evs(1) by (fastforce simp: rows_ok_def row_from_def)
  let ?r = "r3\<lparr>lr_frames := om_put key t3 (lr_frames r3)\<rparr>"
  have set: "set (lr_frames ?r) = insert (key, t3) {e \<in> set (lr_frames r). fst e \<noteq> key}"
    using k set_om_put [OF wf] by simp
  have old: "\<forall>e \<in> set (lr_frames r). ft_order (snd e) < o'"
    using inv(1) o'(1) by (fastforce simp: orders_ok_def)
  have t3: "ft_order t3 = o'" "times_from evs' key t3" using k t2 by (auto simp: times_from_def)
  have "inj_on (\<lambda>e. ft_order (snd e)) (set (lr_frames ?r))"
    unfolding set using inv(1) old t3(1) by (fastforce simp: orders_ok_def inj_on_def)
  moreover have "\<forall>e \<in> set (lr_frames ?r). ft_order (snd e) \<le> lr_order ?r"
    unfolding set using old t3(1) k by (auto intro: less_imp_le)
  moreover have "om_wf (lr_frames ?r)" using k wf by (simp add: om.wf_put)
  ultimately have p: "orders_ok r'" "set (lr_frames r') \<subseteq> set (lr_frames ?r)" "lr_file r' = lr_file r3"
    "lr_order r' = o'" "lr_channel r' = lr_channel r"
    unfolding r' using prune_orders [of ?r] k by auto
  have "frames_from evs' ?r"
    unfolding frames_from_def set using from_mono [OF inv(3) evs(1)] t3(2) by (auto simp: frames_from_def)
  then have "frames_from evs' r'" unfolding frames_from_def using p(2) by blast
  moreover have "rows_ok evs' r3" using k rows t2(1) by blast
  then have "rows_ok evs' r'" using p k by (simp add: rows_ok_def)
  moreover have "lr_file r' \<noteq> None" using p(3) k inv(4) by simp
  moreover have "unat (lr_order r') < Suc n" using p(4) o'(2) inv(5) by simp
  ultimately show ?thesis using p(1,5) by blast
qed

definition record_events ::
  "(metric \<Rightarrow> sample_env) \<Rightarrow> (stage \<times> u64 \<times> u64) list \<Rightarrow> latency_recorder \<Rightarrow> latency_recorder" where
  "record_events e evs r = foldl (\<lambda>r (st, key, ts). record_stage e st key ts r) r evs"

lemma record_events_keep:
  fixes e :: "metric \<Rightarrow> sample_env"
  assumes "orders_ok r" "rows_ok pre r" "frames_from pre r" "lr_file r \<noteq> None" "unat (lr_order r) < n"
    and "n + length evs < 18446744073709551615"
  shows "orders_ok (record_events e evs r) \<and> rows_ok (pre \<union> set evs) (record_events e evs r) \<and>
    lr_file (record_events e evs r) \<noteq> None \<and> lr_channel (record_events e evs r) = lr_channel r"
  using assms
proof (induction evs arbitrary: r pre n)
  case (Cons ev evs)
  obtain st key ts where ev: "ev = (st, key, ts)" by (rule prod_cases3)
  have "n < 18446744073709551615" using Cons.prems(6) by simp
  from record_stage_keeps [OF Cons.prems(1-5) this, of "insert ev pre" st key ts e]
  have k: "orders_ok (record_stage e st key ts r)" "rows_ok (insert ev pre) (record_stage e st key ts r)"
    "frames_from (insert ev pre) (record_stage e st key ts r)" "lr_file (record_stage e st key ts r) \<noteq> None"
    "unat (lr_order (record_stage e st key ts r)) < Suc n" "lr_channel (record_stage e st key ts r) = lr_channel r"
    by (simp_all add: ev subset_insertI)
  have "record_events e (ev # evs) r = record_events e evs (record_stage e st key ts r)"
    by (simp add: record_events_def ev)
  then show ?case using Cons.IH [OF k(1-5)] Cons.prems(6) k(6) by simp
qed (simp add: record_events_def)

text \<open>
  The recorder's lines are true and its memory is bounded: after any events on a freshly
  initialised recorder (fewer than 2^64), every line is about this channel, its latency is the
  difference of an end and an earlier or equal start, and both were recorded for this frame
  number at the two stages of the metric; and never more than 8193 frames are held, so that the
  hard limit of 20000, which would throw everything away, is never reached.
\<close>

theorem latency_lines_true:
  assumes "lc_dir c \<noteq> []" and "length evs < 18446744073709551610"
  shows "let r = record_events e evs (snd (lr_initialize True c r0)) in
     (\<exists>rows. lr_file r = Some rows \<and> (\<forall>w \<in> set rows. row_from (set evs) w \<and> row_channel w = lc_channel c)) \<and>
     length (lr_frames r) \<le> 8193"
proof -
  define r1 where "r1 = snd (lr_initialize True c r0)"
  have "orders_ok r1" "rows_ok {} r1" "frames_from {} r1" "lr_file r1 \<noteq> None" "unat (lr_order r1) < 1"
    "lr_channel r1 = lc_channel c"
    using assms(1) by (simp_all add: r1_def lr_initialize_def lr_close_def orders_ok_def rows_ok_def frames_from_def)
  with record_events_keep [of r1 "{}" 1 evs e] assms(2)
  show ?thesis by (auto simp: r1_def [symmetric] Let_def rows_ok_def orders_ok_def)
qed

text \<open>Two stages of one frame, three milliseconds apart.\<close>

definition quiet :: sample_env where
  "quiet = \<lparr>se_epoch_ms = 0, se_now_ns = 0, se_gpu = 0, se_rss = 0\<rparr>"

theorem latency_lines_true_witness:
  "let r = record_events (\<lambda>m. quiet) [(TrackerSink, 40, 1000000), (TrackerSrc, 40, 4000000)]
       (snd (lr_initialize True \<lparr>lc_channel = 2, lc_dir = ''d'', lc_sample_every_n = 1, lc_flush = True\<rparr> lr_new))
   in length (lr_frames r) \<le> 8193 \<and> map_option (map row_latency_ns) (lr_file r) = Some [3000000]"
proof -
  let ?c = "\<lparr>lc_channel = 2, lc_dir = ''d'', lc_sample_every_n = 1, lc_flush = True\<rparr>"
  let ?evs = "[(TrackerSink, 40, 1000000), (TrackerSrc, 40, 4000000)] :: (stage \<times> u64 \<times> u64) list"
  have "map_option (map row_latency_ns) (lr_file (record_events (\<lambda>m. quiet) ?evs (snd (lr_initialize True ?c lr_new)))) =
      Some [3000000]"
    by (simp add: record_events_def record_stage_def lr_initialize_def lr_close_def touched_def reused_def ft_new_def
        maybe_emit_metrics_def metric_order_def maybe_emit_def emit_metric_def should_sample_def refresh_resources_def
        quiet_def prune_def metric_count_def)
  then show ?thesis
    using latency_lines_true [of ?c ?evs "\<lambda>m. quiet" lr_new] by (simp add: Let_def)
qed

end
