(* ===== verification/TimingMark.thy ===== *)
theory TimingMark
  imports Latency
begin

text \<open>
  The timing runtime shared by all marker elements (\<open>utils/perf/TimingMarkRuntime.cpp\<close>) and the
  marker element (\<open>timing_mark/gst_plugin/gsttimingmark.cpp\<close>). Every locked section is one step;
  registrations, unregistrations (three sections each), submissions and the worker interleave in
  any order. A run is a list of steps. Recorders are shared objects, named by numbers.
\<close>

section \<open>State\<close>

record stage_event =
  sv_channel :: u32
  sv_stage :: stage
  sv_key :: u64
  sv_ts :: u64

record channel_state =
  ch_config :: latency_config
  ch_recorder :: nat
  ch_refs :: u32

text \<open>
  \<open>tr_busy\<close> holds the local variables of the worker between its two locked sections;
  \<open>tr_unregs\<close> the calls of \<open>UnregisterChannel\<close> past their first section, and whether they have
  waited; \<open>tr_recorders\<close> the recorder objects. \<open>tr_accepted\<close> and \<open>tr_done\<close> list what was
  queued and what the worker finished, with the recorder it used.
\<close>

record timing_runtime =
  tr_channels :: "u32 \<Rightarrow> channel_state option"
  tr_in_flight :: "u32 \<Rightarrow> u64 option"
  tr_events :: "stage_event list"
  tr_worker :: bool
  tr_stop :: bool
  tr_active :: u32
  tr_busy :: "(stage_event \<times> nat option) option"
  tr_unregs :: "(u32 \<times> bool) list"
  tr_recorders :: "latency_recorder list"
  tr_accepted :: "stage_event list"
  tr_done :: "(stage_event \<times> nat option) list"

definition tr_new :: timing_runtime where
  "tr_new = \<lparr>tr_channels = Map.empty, tr_in_flight = Map.empty, tr_events = [], tr_worker = False, tr_stop = False,
     tr_active = 0, tr_busy = None, tr_unregs = [], tr_recorders = [], tr_accepted = [], tr_done = []\<rparr>"

section \<open>Registration\<close>

definition ensure_worker :: "timing_runtime \<Rightarrow> timing_runtime" where
  "ensure_worker s = (if tr_worker s then s else s\<lparr>tr_stop := False, tr_worker := True\<rparr>)"

definition register_channel :: "bool \<Rightarrow> latency_config \<Rightarrow> timing_runtime \<Rightarrow> bool \<times> timing_runtime" where
  "register_channel open_ok c s0 =
     (if lc_dir c = [] then (False, s0)
      else
        let s = ensure_worker s0 in
        case tr_channels s (lc_channel c) of
          Some ch \<Rightarrow> (True, s\<lparr>tr_channels := (tr_channels s)(lc_channel c \<mapsto> ch\<lparr>ch_refs := ch_refs ch + 1\<rparr>)\<rparr>)
        | None \<Rightarrow>
            (let (ok, r) = lr_initialize open_ok c lr_new in
             if \<not> ok then (False, s)
             else (True, s\<lparr>tr_recorders := tr_recorders s @ [r],
                    tr_channels := (tr_channels s)(lc_channel c \<mapsto>
                      \<lparr>ch_config = c, ch_recorder = length (tr_recorders s), ch_refs = 1\<rparr>)\<rparr>)))"

text \<open>The first section: give up, drop one of several references, or go on to wait.\<close>

definition unregister_begin :: "u32 \<Rightarrow> timing_runtime \<Rightarrow> timing_runtime" where
  "unregister_begin c s =
     (case tr_channels s c of
        None \<Rightarrow> s
      | Some ch \<Rightarrow>
          if ch_refs ch > 1 then s\<lparr>tr_channels := (tr_channels s)(c \<mapsto> ch\<lparr>ch_refs := ch_refs ch - 1\<rparr>)\<rparr>
          else s\<lparr>tr_unregs := tr_unregs s @ [(c, False)]\<rparr>)"

definition channel_idle :: "u32 \<Rightarrow> timing_runtime \<Rightarrow> bool" where
  "channel_idle c s \<longleftrightarrow> (case tr_in_flight s c of None \<Rightarrow> True | Some n \<Rightarrow> n = 0)"

definition unregister_wait :: "nat \<Rightarrow> timing_runtime \<Rightarrow> timing_runtime" where
  "unregister_wait i s =
     (if i < length (tr_unregs s) \<and> \<not> snd (tr_unregs s ! i) \<and> channel_idle (fst (tr_unregs s ! i)) s
      then s\<lparr>tr_unregs := (tr_unregs s)[i := (fst (tr_unregs s ! i), True)]\<rparr> else s)"

text \<open>The third section erases the channel and closes its recorder.\<close>

definition unregister_end :: "nat \<Rightarrow> timing_runtime \<Rightarrow> timing_runtime" where
  "unregister_end i s =
     (if i < length (tr_unregs s) \<and> snd (tr_unregs s ! i) then
        let c = fst (tr_unregs s ! i);
            s = s\<lparr>tr_unregs := take i (tr_unregs s) @ drop (Suc i) (tr_unregs s)\<rparr>
        in case tr_channels s c of
             None \<Rightarrow> s
           | Some ch \<Rightarrow> s\<lparr>tr_channels := (tr_channels s)(c := None),
               tr_recorders := (tr_recorders s)[ch_recorder ch := lr_close (tr_recorders s ! ch_recorder ch)]\<rparr>
      else s)"

section \<open>Events\<close>

definition in_flight :: "timing_runtime \<Rightarrow> u32 \<Rightarrow> u64" where
  "in_flight s c = (case tr_in_flight s c of None \<Rightarrow> 0 | Some n \<Rightarrow> n)"

definition tr_submit :: "stage_event \<Rightarrow> timing_runtime \<Rightarrow> timing_runtime" where
  "tr_submit e s =
     (if sv_ts e = 0 then s
      else if tr_channels s (sv_channel e) = None then s
      else s\<lparr>tr_in_flight := (tr_in_flight s)(sv_channel e \<mapsto> in_flight s (sv_channel e) + 1),
             tr_events := tr_events s @ [e], tr_accepted := tr_accepted s @ [e]\<rparr>)"

definition worker_take :: "timing_runtime \<Rightarrow> timing_runtime" where
  "worker_take s =
     (if tr_worker s \<and> tr_busy s = None then
        (case tr_events s of
           [] \<Rightarrow> s
         | e # es \<Rightarrow> s\<lparr>tr_events := es, tr_busy := Some (e, map_option ch_recorder (tr_channels s (sv_channel e))),
                       tr_active := tr_active s + 1\<rparr>)
      else s)"

text \<open>Outside the lock the worker hands the event to its recorder; then it updates the counts.\<close>

definition deliver :: "(metric \<Rightarrow> sample_env) \<Rightarrow> stage_event \<Rightarrow> nat option \<Rightarrow> latency_recorder list \<Rightarrow> latency_recorder list" where
  "deliver env e rec rs =
     (case rec of None \<Rightarrow> rs | Some k \<Rightarrow> rs[k := record_stage env (sv_stage e) (sv_key e) (sv_ts e) (rs ! k)])"

definition settle :: "u32 \<Rightarrow> (u32 \<Rightarrow> u64 option) \<Rightarrow> u32 \<Rightarrow> u64 option" where
  "settle c m =
     (case m c of
        None \<Rightarrow> m
      | Some n \<Rightarrow> let n = (if n > 0 then n - 1 else n) in if n = 0 then m(c := None) else m(c \<mapsto> n))"

definition worker_finish :: "(metric \<Rightarrow> sample_env) \<Rightarrow> timing_runtime \<Rightarrow> timing_runtime" where
  "worker_finish env s =
     (case tr_busy s of
        None \<Rightarrow> s
      | Some (e, rec) \<Rightarrow>
          s\<lparr>tr_recorders := deliver env e rec (tr_recorders s),
            tr_in_flight := settle (sv_channel e) (tr_in_flight s),
            tr_active := (if tr_active s > 0 then tr_active s - 1 else tr_active s),
            tr_busy := None, tr_done := tr_done s @ [(e, rec)]\<rparr>)"

text \<open>\<open>Flush\<close> returns in a state where this holds.\<close>

definition flushed :: "timing_runtime \<Rightarrow> bool" where
  "flushed s \<longleftrightarrow> tr_events s = [] \<and> tr_active s = 0"

section \<open>Runs\<close>

datatype tr_label =
    TRegister bool latency_config
  | TUnregister u32
  | TWaited nat
  | TErase nat
  | TSubmit stage_event
  | TTake
  | TFinish

fun tr_step :: "(metric \<Rightarrow> sample_env) \<Rightarrow> timing_runtime \<Rightarrow> tr_label \<Rightarrow> timing_runtime" where
  "tr_step env s (TRegister ok c) = snd (register_channel ok c s)"
| "tr_step env s (TUnregister c) = unregister_begin c s"
| "tr_step env s (TWaited i) = unregister_wait i s"
| "tr_step env s (TErase i) = unregister_end i s"
| "tr_step env s (TSubmit e) = tr_submit e s"
| "tr_step env s TTake = worker_take s"
| "tr_step env s TFinish = worker_finish env s"

definition tr_run :: "(metric \<Rightarrow> sample_env) \<Rightarrow> tr_label list \<Rightarrow> timing_runtime" where
  "tr_run env ls = foldl (tr_step env) tr_new ls"

section \<open>The marker element\<close>

definition all_stages :: "stage list" where
  "all_stages = [H264ParseSrc, V4L2DecCapsSrc, YoloQnnSink, YoloQnnSrc, YoloPostprocessSrc,
     TrackerSink, TrackerSrc, FaceInferSink, FaceInferSrc]"

record timing_mark =
  tm_channel :: u32
  tm_stage_id :: u32
  tm_dir :: string
  tm_sample_every_n :: u32
  tm_flush :: bool
  tm_registered :: bool

definition tm_init :: timing_mark where
  "tm_init = \<lparr>tm_channel = 0, tm_stage_id = 0, tm_dir = [], tm_sample_every_n = 1, tm_flush = True, tm_registered = False\<rparr>"

definition valid_stage_id :: "u32 \<Rightarrow> bool" where
  "valid_stage_id i \<longleftrightarrow> i \<le> 8"

definition tm_start :: "bool \<Rightarrow> timing_mark \<Rightarrow> timing_runtime \<Rightarrow> bool \<times> timing_mark \<times> timing_runtime" where
  "tm_start open_ok m0 s =
     (let m = m0\<lparr>tm_registered := False\<rparr> in
      if \<not> valid_stage_id (tm_stage_id m) then (False, m, s)
      else if tm_dir m = [] then (False, m, s)
      else
        let (ok, s') = register_channel open_ok \<lparr>lc_channel = tm_channel m, lc_dir = tm_dir m,
              lc_sample_every_n = (if tm_sample_every_n m > 0 then tm_sample_every_n m else 1),
              lc_flush = tm_flush m\<rparr> s
        in if \<not> ok then (False, m, s') else (True, m\<lparr>tm_registered := True\<rparr>, s'))"

text \<open>Stop runs the three sections of the unregistration; this is its first.\<close>

definition tm_stop :: "timing_mark \<Rightarrow> timing_runtime \<Rightarrow> timing_mark \<times> timing_runtime" where
  "tm_stop m s = (if tm_registered m then (m\<lparr>tm_registered := False\<rparr>, unregister_begin (tm_channel m) s) else (m, s))"

text \<open>A buffer: its key if it has one, and the clock (0 when it cannot be read).\<close>

definition tm_transform_ip :: "u64 option \<Rightarrow> u64 \<Rightarrow> timing_mark \<Rightarrow> timing_runtime \<Rightarrow> timing_runtime" where
  "tm_transform_ip key now m s =
     (if \<not> tm_registered m then s
      else case key of None \<Rightarrow> s
      | Some k \<Rightarrow> tr_submit \<lparr>sv_channel = tm_channel m, sv_stage = all_stages ! unat (tm_stage_id m), sv_key = k, sv_ts = now\<rparr> s)"

section \<open>Events are neither lost nor reordered\<close>

definition busy_event :: "timing_runtime \<Rightarrow> stage_event list" where
  "busy_event s = (case tr_busy s of None \<Rightarrow> [] | Some (e, r) \<Rightarrow> [e])"

definition of_channel :: "u32 \<Rightarrow> stage_event list \<Rightarrow> nat" where
  "of_channel c es = length (filter (\<lambda>e. sv_channel e = c) es)"

definition queue_ok :: "timing_runtime \<Rightarrow> bool" where
  "queue_ok s \<longleftrightarrow> tr_accepted s = map fst (tr_done s) @ busy_event s @ tr_events s \<and>
     tr_active s = (if tr_busy s = None then 0 else 1) \<and>
     (tr_worker s \<or> tr_accepted s = [] \<and> (\<forall>c. tr_channels s c = None))"

definition flight_ok :: "nat \<Rightarrow> timing_runtime \<Rightarrow> bool" where
  "flight_ok n s \<longleftrightarrow> length (busy_event s @ tr_events s) \<le> n \<and>
     (\<forall>c. tr_in_flight s c = (let k = of_channel c (busy_event s @ tr_events s) in if k = 0 then None else Some (of_nat k)))"

lemma of_channel_simps [simp]:
  "of_channel c [] = 0" "of_channel c (es @ fs) = of_channel c es + of_channel c fs"
  "of_channel c (e # es) = (if sv_channel e = c then Suc (of_channel c es) else of_channel c es)"
  by (simp_all add: of_channel_def)

lemma of_channel_length: "of_channel c es \<le> length es"
  by (simp add: of_channel_def)

lemma queue_step: "queue_ok s \<Longrightarrow> queue_ok (tr_step env s l)"
  by (induction env s l rule: tr_step.induct)
    (auto simp: queue_ok_def busy_event_def register_channel_def ensure_worker_def unregister_begin_def
      unregister_wait_def unregister_end_def tr_submit_def worker_take_def worker_finish_def Let_def
      split: option.splits list.splits prod.splits)

text \<open>The exact in-flight counts, as long as 64 bits hold them.\<close>

lemma settle_count:
  assumes "m c = (if k = 0 then None else Some (of_nat k))" "0 < k" "k < 18446744073709551616"
  shows "settle c m = m(c := if k - 1 = 0 then None else Some (of_nat (k - 1)))"
proof -
  have u: "unat (of_nat j :: u64) = j" if "j < 18446744073709551616" for j using that by (simp add: unat_of_nat)
  have z: "(of_nat j :: u64) = 0 \<longleftrightarrow> j = 0" if "j < 18446744073709551616" for j
    using unat_eq_zero [of "of_nat j :: u64"] unfolding u [OF that] by blast
  have "(of_nat k :: u64) > 0" using assms(2) u [OF assms(3)] by (simp add: word_less_nat_alt)
  moreover have "(of_nat k :: u64) - 1 = of_nat (k - 1)" using assms(2) by (simp add: of_nat_diff)
  moreover have "(of_nat (k - 1) :: u64) = 0 \<longleftrightarrow> k - 1 = 0"
    using z [of "k - 1"] assms(3) by linarith
  ultimately show ?thesis using assms(1,2) by (simp add: settle_def Let_def)
qed

lemma flight_same:
  assumes "flight_ok n s" "busy_event s' @ tr_events s' = busy_event s @ tr_events s" "tr_in_flight s' = tr_in_flight s"
  shows "flight_ok (Suc n) s'"
  using assms by (simp add: flight_ok_def)

lemma take_keeps: "busy_event (worker_take s) @ tr_events (worker_take s) = busy_event s @ tr_events s"
  "tr_in_flight (worker_take s) = tr_in_flight s"
  by (auto simp: worker_take_def busy_event_def split: list.splits)

lemma control_keeps_events:
  "busy_event (snd (register_channel ok c s)) = busy_event s" "tr_events (snd (register_channel ok c s)) = tr_events s"
  "tr_in_flight (snd (register_channel ok c s)) = tr_in_flight s"
  "busy_event (unregister_begin d s) = busy_event s" "tr_events (unregister_begin d s) = tr_events s"
  "tr_in_flight (unregister_begin d s) = tr_in_flight s"
  "busy_event (unregister_wait i s) = busy_event s" "tr_events (unregister_wait i s) = tr_events s"
  "tr_in_flight (unregister_wait i s) = tr_in_flight s"
  "busy_event (unregister_end i s) = busy_event s" "tr_events (unregister_end i s) = tr_events s"
  "tr_in_flight (unregister_end i s) = tr_in_flight s"
  by (auto simp: busy_event_def register_channel_def ensure_worker_def unregister_begin_def unregister_wait_def
      unregister_end_def Let_def split: option.splits prod.splits)

lemma flight_submit: "flight_ok n s \<Longrightarrow> flight_ok (Suc n) (tr_submit e s)"
  by (auto simp: flight_ok_def tr_submit_def busy_event_def in_flight_def Let_def split: option.splits)

lemma flight_finish:
  assumes inv: "flight_ok n s" and n: "n < 18446744073709551616"
  shows "flight_ok (Suc n) (worker_finish env s)"
proof (cases "tr_busy s")
  case (Some b)
  obtain e rec where b: "b = (e, rec)" by force
  define k where "k = of_channel (sv_channel e) (e # tr_events s)"
  have len: "length (e # tr_events s) \<le> n" using inv by (simp add: flight_ok_def busy_event_def Some b)
  have m: "tr_in_flight s c = (let k = of_channel c (e # tr_events s) in if k = 0 then None else Some (of_nat k))" for c
    using inv by (simp add: flight_ok_def busy_event_def Some b)
  have "k < 18446744073709551616"
    using of_channel_length [of "sv_channel e" "e # tr_events s"] len n unfolding k_def by linarith
  moreover have "0 < k" by (simp add: k_def)
  ultimately have "settle (sv_channel e) (tr_in_flight s) =
      (tr_in_flight s)(sv_channel e := if k - 1 = 0 then None else Some (of_nat (k - 1)))"
    using m [of "sv_channel e"] by (intro settle_count) (auto simp: k_def Let_def)
  then show ?thesis
    using len m by (auto simp: flight_ok_def worker_finish_def busy_event_def Some b k_def Let_def)
qed (use inv in \<open>simp add: flight_ok_def worker_finish_def busy_event_def\<close>)

lemma flight_step: "flight_ok n s \<Longrightarrow> n < 18446744073709551616 \<Longrightarrow> flight_ok (Suc n) (tr_step env s l)"
  by (cases l) (auto intro: flight_submit flight_finish flight_same simp: take_keeps control_keeps_events)

section \<open>Every recorder holds the events of its channel\<close>

definition event_triple :: "stage_event \<Rightarrow> stage \<times> u64 \<times> u64" where
  "event_triple e = (sv_stage e, sv_key e, sv_ts e)"

text \<open>The events the worker handed to a recorder, in order.\<close>

definition handed :: "nat \<Rightarrow> timing_runtime \<Rightarrow> stage_event list" where
  "handed k s = map fst (filter (\<lambda>(e, rec). rec = Some k) (tr_done s))"

definition fresh_recorder :: "latency_config \<Rightarrow> latency_recorder" where
  "fresh_recorder c = snd (lr_initialize True c lr_new)"

definition channel_ok :: "(metric \<Rightarrow> sample_env) \<Rightarrow> timing_runtime \<Rightarrow> u32 \<Rightarrow> channel_state \<Rightarrow> bool" where
  "channel_ok env s c ch \<longleftrightarrow> ch_recorder ch < length (tr_recorders s) \<and> lc_channel (ch_config ch) = c \<and>
     lc_dir (ch_config ch) \<noteq> [] \<and>
     tr_recorders s ! ch_recorder ch =
       record_events env (map event_triple (handed (ch_recorder ch) s)) (fresh_recorder (ch_config ch)) \<and>
     (\<forall>e. (e, Some (ch_recorder ch)) \<in> set (tr_done s) \<or> tr_busy s = Some (e, Some (ch_recorder ch)) \<longrightarrow> sv_channel e = c)"

definition channels_ok :: "(metric \<Rightarrow> sample_env) \<Rightarrow> timing_runtime \<Rightarrow> bool" where
  "channels_ok env s \<longleftrightarrow>
     (\<forall>c ch. tr_channels s c = Some ch \<longrightarrow> channel_ok env s c ch) \<and>
     (\<forall>c ch d dh. tr_channels s c = Some ch \<longrightarrow> tr_channels s d = Some dh \<longrightarrow> ch_recorder ch = ch_recorder dh \<longrightarrow> c = d) \<and>
     (\<forall>e k. (e, Some k) \<in> set (tr_done s) \<or> tr_busy s = Some (e, Some k) \<longrightarrow> k < length (tr_recorders s))"

lemma record_events_snoc:
  "record_events env (evs @ [(st, key, ts)]) r = record_stage env st key ts (record_events env evs r)"
  by (simp add: record_events_def)

lemma channels_finish:
  assumes inv: "channels_ok env s"
  shows "channels_ok env (worker_finish env s)"
proof (cases "tr_busy s")
  case (Some b)
  obtain e rec where b: "b = (e, rec)" by force
  let ?s = "worker_finish env s"
  have len: "length (tr_recorders ?s) = length (tr_recorders s)"
    by (simp add: worker_finish_def Some b deliver_def split: option.splits)
  have ch: "tr_channels ?s = tr_channels s" "tr_done ?s = tr_done s @ [(e, rec)]" "tr_busy ?s = None"
    by (simp_all add: worker_finish_def Some b)
  have "channel_ok env ?s c ch" if c: "tr_channels s c = Some ch" for c ch
  proof -
    have ok: "channel_ok env s c ch" using inv c by (simp add: channels_ok_def)
    have "tr_recorders ?s ! ch_recorder ch =
        record_events env (map event_triple (handed (ch_recorder ch) ?s)) (fresh_recorder (ch_config ch))"
    proof (cases "rec = Some (ch_recorder ch)")
      case True
      then show ?thesis
        using ok by (simp add: worker_finish_def Some b deliver_def handed_def channel_ok_def event_triple_def record_events_snoc)
    next
      case False
      then show ?thesis
        using ok by (cases rec) (auto simp: worker_finish_def Some b deliver_def handed_def channel_ok_def)
    qed
    then show ?thesis using ok by (auto simp: channel_ok_def len ch Some b)
  qed
  then show ?thesis using inv by (auto simp: channels_ok_def len ch Some b)
qed (use inv in \<open>simp add: worker_finish_def\<close>)

lemma channels_take: "channels_ok env s \<Longrightarrow> channels_ok env (worker_take s)"
  by (auto simp: channels_ok_def channel_ok_def worker_take_def handed_def split: list.splits)

text \<open>Steps that leave the recorders and the worker's history alone.\<close>

lemma channels_frame:
  assumes inv: "channels_ok env s"
    and same: "tr_recorders s' = tr_recorders s" "tr_done s' = tr_done s" "tr_busy s' = tr_busy s"
    and chs: "\<And>c ch'. tr_channels s' c = Some ch' \<Longrightarrow>
      \<exists>ch. tr_channels s c = Some ch \<and> ch_recorder ch' = ch_recorder ch \<and> ch_config ch' = ch_config ch"
  shows "channels_ok env s'"
proof -
  have "channel_ok env s' c ch'" if c: "tr_channels s' c = Some ch'" for c ch'
  proof -
    obtain ch where "tr_channels s c = Some ch" "ch_recorder ch' = ch_recorder ch" "ch_config ch' = ch_config ch"
      using chs [OF c] by blast
    moreover from this have "channel_ok env s c ch" using inv by (simp add: channels_ok_def)
    ultimately show ?thesis by (simp add: channel_ok_def same handed_def)
  qed
  moreover have "c = d" if "tr_channels s' c = Some ch'" "tr_channels s' d = Some dh'" "ch_recorder ch' = ch_recorder dh'"
    for c ch' d dh'
    using chs [OF that(1)] chs [OF that(2)] that(3) inv unfolding channels_ok_def by metis
  moreover have "\<forall>e k. (e, Some k) \<in> set (tr_done s') \<or> tr_busy s' = Some (e, Some k) \<longrightarrow> k < length (tr_recorders s')"
    using inv unfolding channels_ok_def same by blast
  ultimately show ?thesis unfolding channels_ok_def by blast
qed

lemma channels_submit: "channels_ok env s \<Longrightarrow> channels_ok env (tr_submit e s)"
  by (erule channels_frame) (auto simp: tr_submit_def split: if_splits)

lemma channels_wait: "channels_ok env s \<Longrightarrow> channels_ok env (unregister_wait i s)"
  by (erule channels_frame) (auto simp: unregister_wait_def split: if_splits)

lemma channels_begin: "channels_ok env s \<Longrightarrow> channels_ok env (unregister_begin c s)"
  by (erule channels_frame) (auto simp: unregister_begin_def split: option.splits if_splits)

text \<open>Closing the recorder of an erased channel touches no other channel's recorder.\<close>

lemma channels_end:
  assumes inv: "channels_ok env s"
  shows "channels_ok env (unregister_end i s)"
proof (cases "i < length (tr_unregs s) \<and> snd (tr_unregs s ! i) \<and> tr_channels s (fst (tr_unregs s ! i)) \<noteq> None")
  case True
  then obtain c ch where c: "fst (tr_unregs s ! i) = c" "tr_channels s c = Some ch" by blast
  let ?s = "unregister_end i s"
  have s': "tr_channels ?s = (tr_channels s)(c := None)" "tr_done ?s = tr_done s" "tr_busy ?s = tr_busy s"
    "tr_recorders ?s = (tr_recorders s)[ch_recorder ch := lr_close (tr_recorders s ! ch_recorder ch)]"
    using True c by (simp_all add: unregister_end_def Let_def)
  have "channel_ok env ?s d dh" if "tr_channels ?s d = Some dh" for d dh
  proof -
    have d: "tr_channels s d = Some dh" "d \<noteq> c" using that by (auto simp: s' split: if_splits)
    then have "ch_recorder dh \<noteq> ch_recorder ch" using inv c(2) unfolding channels_ok_def by metis
    then show ?thesis using inv d(1) by (simp add: channels_ok_def channel_ok_def s' handed_def)
  qed
  moreover have "d = d'" if "tr_channels ?s d = Some x" "tr_channels ?s d' = Some y" "ch_recorder x = ch_recorder y" for d d' x y
    using that inv unfolding channels_ok_def s' by (metis fun_upd_apply option.distinct(1))
  moreover have "\<forall>e k. (e, Some k) \<in> set (tr_done ?s) \<or> tr_busy ?s = Some (e, Some k) \<longrightarrow> k < length (tr_recorders ?s)"
    using inv unfolding channels_ok_def s' by simp
  ultimately show ?thesis unfolding channels_ok_def by blast
next
  case False
  then show ?thesis
    by (intro channels_frame [OF inv]) (auto simp: unregister_end_def Let_def split: option.splits if_splits)
qed

text \<open>A new channel gets a recorder of its own, which no event was handed to.\<close>

lemma channels_register:
  assumes inv: "channels_ok env s"
  shows "channels_ok env (snd (register_channel ok c s))"
proof -
  let ?s = "snd (register_channel ok c s)" and ?k = "length (tr_recorders s)"
  consider "?s = s \<or> ?s = ensure_worker s"
    | ch where "tr_channels s (lc_channel c) = Some ch"
        "?s = (ensure_worker s)\<lparr>tr_channels := (tr_channels s)(lc_channel c \<mapsto> ch\<lparr>ch_refs := ch_refs ch + 1\<rparr>)\<rparr>"
    | "lc_dir c \<noteq> []" "tr_channels s (lc_channel c) = None"
        "?s = (ensure_worker s)\<lparr>tr_recorders := tr_recorders s @ [fresh_recorder c], tr_channels :=
          (tr_channels s)(lc_channel c \<mapsto> \<lparr>ch_config = c, ch_recorder = ?k, ch_refs = 1\<rparr>)\<rparr>"
    by (cases "tr_channels s (lc_channel c)"; cases ok; cases "lc_dir c = []")
      (auto simp: register_channel_def ensure_worker_def lr_initialize_def fresh_recorder_def Let_def)
  then show ?thesis
  proof cases
    case 1
    then show ?thesis by (elim disjE) (auto simp: inv ensure_worker_def intro!: channels_frame [OF inv])
  next
    case 2
    show ?thesis by (rule channels_frame [OF inv]) (use 2 in \<open>auto simp: ensure_worker_def split: if_splits\<close>)
  next
    case 3
    have old: "k < ?k" if "(e, Some k) \<in> set (tr_done s) \<or> tr_busy s = Some (e, Some k)" for e k
      using inv that unfolding channels_ok_def by blast
    have s': "tr_done ?s = tr_done s" "tr_busy ?s = tr_busy s" "tr_recorders ?s = tr_recorders s @ [fresh_recorder c]"
      "tr_channels ?s = (tr_channels s)(lc_channel c \<mapsto> \<lparr>ch_config = c, ch_recorder = ?k, ch_refs = 1\<rparr>)"
      using 3(3) by (simp_all add: ensure_worker_def)
    have "handed ?k ?s = []" using old by (force simp: handed_def s' filter_empty_conv)
    then have "channel_ok env ?s (lc_channel c) \<lparr>ch_config = c, ch_recorder = ?k, ch_refs = 1\<rparr>"
      using old 3(1) by (auto simp: channel_ok_def s' record_events_def dest: old)
    moreover have "channel_ok env ?s d dh" if "tr_channels s d = Some dh" for d dh
      using inv that by (auto simp: channels_ok_def channel_ok_def s' handed_def nth_append less_SucI)
    moreover have rec: "ch_recorder dh < ?k" if "tr_channels s d = Some dh" for d dh
      using inv that by (auto simp: channels_ok_def channel_ok_def)
    ultimately show ?thesis
      using inv old unfolding channels_ok_def s' by (auto simp: less_SucI split: if_splits dest: rec old)
  qed
qed

lemma channels_step: "channels_ok env s \<Longrightarrow> channels_ok env (tr_step env s l)"
  by (cases l) (auto intro: channels_register channels_begin channels_wait channels_end channels_submit
      channels_take channels_finish)

section \<open>What the runtime guarantees\<close>

definition runtime_ok :: "(metric \<Rightarrow> sample_env) \<Rightarrow> nat \<Rightarrow> timing_runtime \<Rightarrow> bool" where
  "runtime_ok env n s \<longleftrightarrow> queue_ok s \<and> flight_ok n s \<and> channels_ok env s"

lemma runtime_run:
  "runtime_ok env n s \<Longrightarrow> n + length ls < 18446744073709551616 \<Longrightarrow>
     runtime_ok env (n + length ls) (foldl (tr_step env) s ls)"
proof (induction ls arbitrary: n s)
  case (Cons l ls)
  have "runtime_ok env (Suc n) (tr_step env s l)"
    using Cons.prems unfolding runtime_ok_def by (auto intro: queue_step flight_step channels_step)
  then show ?case using Cons.IH [of "Suc n" "tr_step env s l"] Cons.prems(2) by simp
qed simp

lemma runtime_new: "runtime_ok env 0 tr_new"
  by (simp add: runtime_ok_def queue_ok_def flight_ok_def channels_ok_def tr_new_def busy_event_def Let_def)

lemma runtime_reached: "length ls < 18446744073709551616 \<Longrightarrow> runtime_ok env (length ls) (tr_run env ls)"
  using runtime_run [OF runtime_new, of ls env] by (simp add: tr_run_def)

lemma flight_eq: "flight_ok n s \<Longrightarrow> in_flight s c = of_nat (of_channel c (busy_event s @ tr_events s))"
  by (simp add: flight_ok_def in_flight_def Let_def)

lemma done_length: "length (tr_done (foldl (tr_step env) s ls)) \<le> length (tr_done s) + length ls"
proof (induction ls arbitrary: s)
  case (Cons l ls)
  have "length (tr_done (tr_step env s l)) \<le> Suc (length (tr_done s))"
    by (cases l) (auto simp: register_channel_def ensure_worker_def unregister_begin_def unregister_wait_def
        unregister_end_def tr_submit_def worker_take_def worker_finish_def Let_def
        split: option.splits list.splits prod.splits)
  then show ?case using Cons.IH [of "tr_step env s l"] by simp
qed simp

text \<open>The lines of a registered channel's file come from events accepted for this channel.\<close>

lemma channel_lines:
  assumes q: "queue_ok s" and ok: "channel_ok env s c ch" and len: "length (tr_done s) < 18446744073709551610"
  shows "\<exists>rows. lr_file (tr_recorders s ! ch_recorder ch) = Some rows \<and>
    (\<forall>w \<in> set rows. row_channel w = c \<and>
       row_from (event_triple ` {e \<in> set (tr_accepted s). sv_channel e = c}) w)"
proof -
  define evs where "evs = map event_triple (handed (ch_recorder ch) s)"
  let ?r = "fresh_recorder (ch_config ch)"
  have "orders_ok ?r" "rows_ok {} ?r" "frames_from {} ?r" "lr_file ?r \<noteq> None" "unat (lr_order ?r) < 1"
    "lr_channel ?r = c"
    using ok by (simp_all add: channel_ok_def fresh_recorder_def lr_initialize_def lr_close_def orders_ok_def rows_ok_def
        frames_from_def)
  moreover have "length evs \<le> length (tr_done s)" by (simp add: evs_def handed_def)
  then have "1 + length evs < 18446744073709551615" using len by linarith
  ultimately have r: "rows_ok (set evs) (record_events env evs ?r)" "lr_file (record_events env evs ?r) \<noteq> None"
    "lr_channel (record_events env evs ?r) = c"
    using record_events_keep [of ?r "{}" 1 evs env] by simp_all
  have "set evs \<subseteq> event_triple ` {e \<in> set (tr_accepted s). sv_channel e = c}"
    using q ok unfolding evs_def handed_def queue_ok_def channel_ok_def by force
  then have "rows_ok (event_triple ` {e \<in> set (tr_accepted s). sv_channel e = c}) (record_events env evs ?r)"
    using r(1) unfolding rows_ok_def row_from_def by blast
  moreover have "tr_recorders s ! ch_recorder ch = record_events env evs ?r"
    using ok by (simp add: channel_ok_def evs_def)
  ultimately show ?thesis using r(2,3) by (auto simp: rows_ok_def)
qed

text \<open>
  The runtime loses, doubles and reorders no event, and mixes no channels: in every run, of
  any length below 2^64, the accepted events are those the worker finished, the one it holds and
  the queued ones, in order; the in-flight count of a channel, on which its closing waits, is
  exact; and every line in the file of a registered channel is true of two events that were
  accepted for this very channel.
\<close>

theorem timing_runtime_sound:
  assumes "length ls < 18446744073709551610"
  shows "let s = tr_run env ls in
     tr_accepted s = map fst (tr_done s) @ busy_event s @ tr_events s \<and>
     (\<forall>c. in_flight s c = of_nat (of_channel c (busy_event s @ tr_events s))) \<and>
     (\<forall>c. case tr_channels s c of None \<Rightarrow> True
        | Some ch \<Rightarrow> \<exists>rows. lr_file (tr_recorders s ! ch_recorder ch) = Some rows \<and>
            (\<forall>w \<in> set rows. row_channel w = c \<and>
               row_from (event_triple ` {e \<in> set (tr_accepted s). sv_channel e = c}) w))"
proof -
  define s where "s = tr_run env ls"
  have ok: "runtime_ok env (length ls) s" unfolding s_def using assms by (intro runtime_reached) simp
  have "length (tr_done s) \<le> length ls"
    using done_length [of env tr_new ls] by (simp add: s_def tr_run_def tr_new_def)
  then have "length (tr_done s) < 18446744073709551610" using assms by simp
  then show ?thesis
    using ok channel_lines [of s env] flight_eq [of "length ls" s] unfolding s_def [symmetric]
    by (auto simp: Let_def runtime_ok_def queue_ok_def channels_ok_def split: option.splits)
qed

text \<open>A channel registers, a tracker reports a frame at both ends, and the worker runs.\<close>

definition tracker_event :: "stage \<Rightarrow> u64 \<Rightarrow> stage_event" where
  "tracker_event st ts = \<lparr>sv_channel = 2, sv_stage = st, sv_key = 40, sv_ts = ts\<rparr>"

definition channel_two :: latency_config where
  "channel_two = \<lparr>lc_channel = 2, lc_dir = ''d'', lc_sample_every_n = 1, lc_flush = True\<rparr>"

theorem timing_runtime_sound_witness:
  "let s = tr_run (\<lambda>m. quiet) [TRegister True channel_two, TSubmit (tracker_event TrackerSink 1000000),
       TSubmit (tracker_event TrackerSrc 4000000), TTake, TFinish, TTake]
   in tr_accepted s = [tracker_event TrackerSink 1000000, tracker_event TrackerSrc 4000000] \<and>
      map fst (tr_done s) = [tracker_event TrackerSink 1000000] \<and> tr_events s = [] \<and> in_flight s 2 = 1"
proof -
  let ?ls = "[TRegister True channel_two, TSubmit (tracker_event TrackerSink 1000000),
       TSubmit (tracker_event TrackerSrc 4000000), TTake, TFinish, TTake]"
  have "tr_done (tr_run (\<lambda>m. quiet) ?ls) = [(tracker_event TrackerSink 1000000, Some 0)] \<and>
      tr_busy (tr_run (\<lambda>m. quiet) ?ls) = Some (tracker_event TrackerSrc 4000000, Some 0) \<and>
      tr_events (tr_run (\<lambda>m. quiet) ?ls) = []"
    by (simp add: tr_run_def tr_new_def register_channel_def ensure_worker_def channel_two_def lr_initialize_def
        tr_submit_def worker_take_def worker_finish_def tracker_event_def Let_def)
  then show ?thesis
    using timing_runtime_sound [of ?ls "\<lambda>m. quiet"]
    by (simp add: Let_def busy_event_def tracker_event_def)
qed

section \<open>Flushing\<close>

lemma worker_round:
  assumes "tr_worker s" "tr_busy s = None"
  shows "tr_events (worker_finish env (worker_take s)) = tl (tr_events s) \<and>
    tr_busy (worker_finish env (worker_take s)) = None \<and> tr_worker (worker_finish env (worker_take s)) \<and>
    tr_accepted (worker_finish env (worker_take s)) = tr_accepted s"
  using assms by (auto simp: worker_take_def worker_finish_def split: list.splits)

fun worker_rounds :: "nat \<Rightarrow> tr_label list" where
  "worker_rounds 0 = []"
| "worker_rounds (Suc n) = TTake # TFinish # worker_rounds n"

lemma worker_rounds_empty:
  "tr_worker s \<Longrightarrow> tr_busy s = None \<Longrightarrow> length (tr_events s) \<le> n \<Longrightarrow>
     (let z = foldl (tr_step env) s (worker_rounds n) in
      tr_events z = [] \<and> tr_busy z = None \<and> tr_accepted z = tr_accepted s)"
proof (induction n arbitrary: s)
  case (Suc n)
  let ?s = "worker_finish env (worker_take s)"
  have "length (tr_events ?s) \<le> n" using worker_round [OF Suc.prems(1,2), of env] Suc.prems(3) by simp
  with Suc.IH [of ?s] worker_round [OF Suc.prems(1,2), of env] show ?case by (simp add: Let_def)
qed simp

text \<open>
  A flush comes to its end: from any reachable state, once the worker has finished what it
  holds and taken each queued event in turn, the condition the flush waits for is true, and by
  then every accepted event has been handed to a recorder or found its channel gone.
\<close>

theorem flush_ends:
  assumes "s = tr_run env ls" and "length (tr_events s) \<le> n"
  shows "let z = foldl (tr_step env) s (TFinish # worker_rounds n) in
     flushed z \<and> map fst (tr_done z) = tr_accepted s"
proof -
  have keep: "queue_ok (foldl (tr_step env) s' ms)" if "queue_ok s'" for s' ms
    using that by (induction ms arbitrary: s') (auto intro: queue_step)
  have q: "queue_ok s" unfolding assms(1) tr_run_def using runtime_new keep by (simp add: runtime_ok_def)
  let ?s = "worker_finish env s"
  have s': "tr_busy ?s = None" "tr_events ?s = tr_events s" "tr_accepted ?s = tr_accepted s" "tr_worker ?s = tr_worker s"
    by (auto simp: worker_finish_def split: option.splits)
  define z where "z = foldl (tr_step env) ?s (worker_rounds n)"
  have z: "tr_events z = [] \<and> tr_busy z = None \<and> tr_accepted z = tr_accepted s"
  proof (cases "tr_worker s")
    case True
    then show ?thesis using worker_rounds_empty [of ?s n env] s' assms(2) by (simp add: z_def Let_def)
  next
    case False
    then have e: "tr_accepted s = []" "tr_events s = []" "\<not> tr_worker ?s" using q s' by (auto simp: queue_ok_def)
    have "foldl (tr_step env) t (worker_rounds n) = t" if "\<not> tr_worker t" "tr_busy t = None" for t
      using that by (induction n) (auto simp: worker_take_def worker_finish_def)
    then show ?thesis using e s' by (simp add: z_def)
  qed
  have "queue_ok z" using keep [of s "TFinish # worker_rounds n", OF q] by (simp add: z_def)
  then have "flushed z \<and> map fst (tr_done z) = tr_accepted s"
    using z by (auto simp: flushed_def queue_ok_def busy_event_def)
  then show ?thesis by (simp only: Let_def foldl_Cons tr_step.simps z_def)
qed

theorem flush_ends_witness:
  "let s = tr_run (\<lambda>m. quiet) [TRegister True channel_two, TSubmit (tracker_event TrackerSink 1000000)];
       z = foldl (tr_step (\<lambda>m. quiet)) s (TFinish # worker_rounds 1)
   in flushed z \<and> map fst (tr_done z) = [tracker_event TrackerSink 1000000]"
proof -
  let ?ls = "[TRegister True channel_two, TSubmit (tracker_event TrackerSink 1000000)]"
  have "tr_events (tr_run (\<lambda>m. quiet) ?ls) = [tracker_event TrackerSink 1000000] \<and>
      tr_accepted (tr_run (\<lambda>m. quiet) ?ls) = [tracker_event TrackerSink 1000000]"
    by (simp add: tr_run_def tr_new_def register_channel_def ensure_worker_def channel_two_def lr_initialize_def
        tr_submit_def tracker_event_def Let_def)
  then show ?thesis using flush_ends [OF refl, of "\<lambda>m. quiet" ?ls 1] by (simp only: Let_def) simp
qed

text \<open>
  The three sections of an unregistration are not one: a registration between them is counted
  and then erased. The second caller was told its channel is registered; it is gone.
\<close>

lemma unregister_race:
  "let s = tr_run env [TRegister True channel_two, TUnregister 2, TRegister True channel_two, TWaited 0, TErase 0]
   in fst (register_channel True channel_two (tr_run env [TRegister True channel_two, TUnregister 2])) \<and>
      tr_channels s 2 = None"
  by (simp add: tr_run_def tr_new_def register_channel_def ensure_worker_def channel_two_def lr_initialize_def
      unregister_begin_def unregister_wait_def unregister_end_def channel_idle_def Let_def)

end
