(* ===== verification/ChannelWorker.thy ===== *)
theory ChannelWorker
  imports FrameOffload AppSettings
begin

unbundle bit_operations_syntax

text \<open>
  The worker of a channel (\<open>channel_worker/ChannelWorker.cpp\<close>): the index of detection labels, the
  handling of a sample (regions, faces, identities, the record), start and stop. The chain of
  elements it builds, the files and the clock are arguments; lines that are only logged are left out.
\<close>

section \<open>Labels\<close>

definition is_space :: "char \<Rightarrow> bool" where
  "is_space c = (let n = (of_char c :: nat) in n = 32 \<or> 9 \<le> n \<and> n \<le> 13)"

definition TrimAscii :: "string \<Rightarrow> string" where
  "TrimAscii s = dropWhile is_space (rev (dropWhile is_space (rev s)))"

definition ReplaceChar :: "string \<Rightarrow> char \<Rightarrow> char \<Rightarrow> string" where
  "ReplaceChar s from to = map (\<lambda>c. if c = from then to else c) s"

definition dotted :: "string \<Rightarrow> string" where
  "dotted s = ReplaceChar s (CHR '' '') (CHR ''.'')"

type_synonym label_index = "(string \<times> u32 \<times> string) list"

definition add_alias :: "u32 \<Rightarrow> string \<Rightarrow> string \<Rightarrow> label_index \<Rightarrow> string + label_index" where
  "add_alias cid label alias idx =
     (if alias = [] then Inr idx
      else
        case map_of idx alias of
          None \<Rightarrow> Inr ((alias, cid, label) # idx)
        | Some e \<Rightarrow> if fst e \<noteq> cid then Inl alias else Inr idx)"

text \<open>
  The loop over the lines of the file; an alias that belongs to another class ends it with that
  alias. The index built so far is returned either way.
\<close>

fun index_labels :: "string list \<Rightarrow> u32 \<Rightarrow> label_index \<Rightarrow> string option \<times> label_index" where
  "index_labels [] cid idx = (None, idx)"
| "index_labels (line # lines) cid idx =
     (let label = TrimAscii line
      in if label = [] then index_labels lines cid idx
         else
           case add_alias cid label label idx of
             Inl a \<Rightarrow> (Some a, idx)
           | Inr idx \<Rightarrow>
               (case (if dotted label \<noteq> label then add_alias cid label (dotted label) idx else Inr idx) of
                  Inl a \<Rightarrow> (Some a, idx)
                | Inr idx \<Rightarrow> index_labels lines (cid + 1) idx))"

text \<open>The lines of the file, None when it does not open; an error text or None, and the index.\<close>

definition LoadLabelIndex :: "string \<Rightarrow> string list option \<Rightarrow> string option \<times> label_index" where
  "LoadLabelIndex path file =
     (case file of
        None \<Rightarrow> (Some (''Failed to open labels file: '' @ path), [])
      | Some lines \<Rightarrow>
          (case index_labels lines 0 [] of
             (Some a, idx) \<Rightarrow>
               (Some (''Duplicate label alias '' @ CHR 0x27 # a @ CHR 0x27 # '' in labels file: '' @ path), idx)
           | (None, idx) \<Rightarrow>
               ((if idx = [] then Some (''Labels file does not contain any valid label entries: '' @ path) else None), idx)))"

definition ResolveDetectionClass :: "label_index \<Rightarrow> string \<Rightarrow> (u32 \<times> string) option" where
  "ResolveDetectionClass idx raw =
     (if raw = [] then None
      else
        case map_of idx raw of
          Some e \<Rightarrow> Some e
        | None \<Rightarrow> map_of idx (ReplaceChar raw (CHR ''.'') (CHR '' '')))"

section \<open>State\<close>

record channel_worker =
  cw_channel :: u32
  cw_appsink :: bool
  cw_signal :: nat
  cw_offload :: bool
  cw_face :: bool
  cw_gallery :: bool
  cw_diag :: bool
  cw_threshold :: cfloat
  cw_min_face :: u32
  cw_min_score :: cfloat
  cw_tracks :: "u32 \<Rightarrow> int option"
  cw_seen :: "u32 \<Rightarrow> u64 option"
  cw_aggregator :: bool
  cw_writer :: "jsonl_writer option"
  cw_labels :: label_index
  cw_counter :: u64
  cw_last_ts :: u64
  cw_initialized :: bool
  cw_total :: u64
  cw_meta_ok :: u64
  cw_meta_fail :: u64
  cw_write_ok :: u64
  cw_write_fail :: u64
  cw_first_logged :: bool
  cw_final_logged :: bool

definition BuildChannelOutputPath :: "string \<Rightarrow> u32 \<Rightarrow> string" where
  "BuildChannelOutputPath dir ch =
     (if dir = [] then ''channel_'' @ show_u32 ch @ ''.jsonl''
      else if last dir = CHR ''/'' \<or> last dir = CHR 0x5C then dir @ ''channel_'' @ show_u32 ch @ ''.jsonl''
      else dir @ ''/channel_'' @ show_u32 ch @ ''.jsonl'')"

definition ChannelWorker_new :: "u32 \<Rightarrow> channel_worker" where
  "ChannelWorker_new ch =
     \<lparr>cw_channel = ch, cw_appsink = False, cw_signal = 0, cw_offload = False, cw_face = False,
      cw_gallery = False, cw_diag = False, cw_threshold = fl B32 (3 / 10), cw_min_face = 40,
      cw_min_score = fl B32 (6 / 10), cw_tracks = Map.empty, cw_seen = Map.empty, cw_aggregator = False,
      cw_writer = Some \<lparr>jw_path = BuildChannelOutputPath [] ch, jw_file = None\<rparr>, cw_labels = [],
      cw_counter = 0, cw_last_ts = 0, cw_initialized = False, cw_total = 0, cw_meta_ok = 0, cw_meta_fail = 0,
      cw_write_ok = 0, cw_write_fail = 0, cw_first_logged = False, cw_final_logged = False\<rparr>"

definition ResetSampleStats :: "channel_worker \<Rightarrow> channel_worker" where
  "ResetSampleStats w =
     w\<lparr>cw_total := 0, cw_meta_ok := 0, cw_meta_fail := 0, cw_write_ok := 0, cw_write_fail := 0,
       cw_first_logged := False, cw_final_logged := False\<rparr>"

section \<open>Faces of persons\<close>

definition float_ratio :: "cfloat \<Rightarrow> u32 \<Rightarrow> cfloat" where
  "float_ratio x n = fdiv B32 x (float_of_u32 n)"

definition face_middle :: "u32 \<Rightarrow> u32 \<Rightarrow> face_entry \<Rightarrow> cfloat \<times> cfloat" where
  "face_middle fw fh e =
     (float_ratio (fdiv B32 (fadd B32 (fe_x1 e) (fe_x2 e)) (Fin 2)) fw,
      float_ratio (fdiv B32 (fadd B32 (fe_y1 e) (fe_y2 e)) (Fin 2)) fh)"

text \<open>
  The score of a detection for a face: None unless it is a person without a face, around the
  centre, of positive area. Coordinates are fractions of the picture.
\<close>

definition holder_score :: "cfloat \<times> cfloat \<Rightarrow> detection_record \<Rightarrow> cfloat option" where
  "holder_score c d =
     (if det_label d \<noteq> ''person'' \<or> det_face d \<noteq> None then None
      else if fle (det_left d) (fst c) \<and> fle (fst c) (det_right d) \<and> fle (det_top d) (snd c) \<and> fle (snd c) (det_bottom d)
      then
        (let area = fmul B64 (fsub B64 (det_right d) (det_left d)) (fsub B64 (det_bottom d) (det_top d))
         in if fle area (Fin 0) then None
            else
              let mid_y = fdiv B64 (fadd B64 (det_top d) (det_bottom d)) (Fin 2)
              in Some (fadd B64 (if fle (snd c) mid_y then Fin 1000000 else Fin 0) (fdiv B64 (Fin 1) area)))
      else None)"

text \<open>
  The identity of a face: the cached one with the similarity of the best entry, a match, a new
  entry when the face is large and sure enough on both sides, or none.
\<close>

definition worker_identify ::
  "channel_worker \<Rightarrow> bool \<Rightarrow> face_entry \<Rightarrow> u32 \<Rightarrow> gallery \<Rightarrow> (int \<times> cfloat) \<times> channel_worker \<times> gallery \<times> json option" where
  "worker_identify w write_ok e tid G =
     (case cw_tracks w tid of
        Some i \<Rightarrow> ((i, mr_similarity (gallery_match G (Some (fe_embedding e)) (Fin 0))), w, G, None)
      | None \<Rightarrow>
          (let r = gallery_match G (Some (fe_embedding e)) (cw_threshold w)
           in if 0 \<le> mr_id r then
                ((mr_id r, mr_similarity r), w\<lparr>cw_tracks := (cw_tracks w)(tid \<mapsto> mr_id r)\<rparr>, G, None)
              else
                let face_w = fsub B32 (fe_x2 e) (fe_x1 e); face_h = fsub B32 (fe_y2 e) (fe_y1 e)
                in if fle (float_of_u32 (cw_min_face w)) face_w \<and> fle (float_of_u32 (cw_min_face w)) face_h
                      \<and> fle (cw_min_score w) (fe_score e)
                   then
                     (let (i, G, out) = gallery_enroll write_ok (Some (fe_embedding e)) G
                      in ((i, Fin 0),
                          (if 0 \<le> i then w\<lparr>cw_tracks := (cw_tracks w)(tid \<mapsto> i)\<rparr> else w), G, out))
                   else ((- 1, Fin 0), w, G, None)))"

definition worker_face :: "bool \<Rightarrow> u32 \<Rightarrow> u32 \<Rightarrow> face_entry \<Rightarrow> u32 \<Rightarrow> int \<times> cfloat \<Rightarrow> face_info" where
  "worker_face has_arcface fw fh e tid ident =
     \<lparr>fi_confidence = fe_score e,
      fi_box = [float_ratio (fe_x1 e) fw, float_ratio (fe_y1 e) fh, float_ratio (fe_x2 e) fw, float_ratio (fe_y2 e) fh],
      fi_landmarks = concat (map (\<lambda>(x, y). [float_ratio x fw, float_ratio y fh]) (fe_landmarks e)),
      fi_embedding = (if has_arcface then fe_embedding e else []),
      fi_track = tid, fi_face_id = fst ident, fi_similarity = snd ident\<rparr>"

fun MatchFacesToPersons ::
  "bool \<Rightarrow> bool \<Rightarrow> u32 \<Rightarrow> u32 \<Rightarrow> face_entry list \<Rightarrow> detection_record list \<Rightarrow> channel_worker \<Rightarrow> gallery \<Rightarrow> json option
   \<Rightarrow> detection_record list \<times> channel_worker \<times> gallery \<times> json option" where
  "MatchFacesToPersons arc wok fw fh [] ds w G out = (ds, w, G, out)"
| "MatchFacesToPersons arc wok fw fh (e # es) ds w G out =
     (case fst (best_person (holder_score (face_middle fw fh e)) ds 0 (None, Fin (- 1))) of
        None \<Rightarrow> MatchFacesToPersons arc wok fw fh es ds w G out
      | Some i \<Rightarrow>
          (let tid = det_track (ds ! i);
               (ident, w, G, o') =
                 (if arc \<and> fe_embedding e \<noteq> [] \<and> cw_gallery w then worker_identify w wok e tid G
                  else ((- 1, Fin 0), w, G, None))
           in MatchFacesToPersons arc wok fw fh es
                (ds[i := (ds ! i)\<lparr>det_face := Some (worker_face arc fw fh e tid ident)\<rparr>]) w G
                (case o' of None \<Rightarrow> out | Some _ \<Rightarrow> o')))"

section \<open>A sample\<close>

text \<open>The buffer of a sample with its metadata, and the size its caps tell.\<close>

record gst_sample =
  sm_buffer :: "(buf_meta list \<times> face_entry list option) option"
  sm_size :: "(int \<times> int) option"

fun sample_detections :: "label_index \<Rightarrow> u32 \<Rightarrow> u32 \<Rightarrow> buf_meta list \<Rightarrow> detection_record list" where
  "sample_detections idx fw fh [] = []"
| "sample_detections idx fw fh (RoiMeta r # ms) =
     (case ResolveDetectionClass idx (label_of r) of
        None \<Rightarrow> sample_detections idx fw fh ms
      | Some (cid, label) \<Rightarrow>
          (roi_detection fw fh r)\<lparr>det_class_id := cid, det_label := label\<rparr> # sample_detections idx fw fh ms)"
| "sample_detections idx fw fh (OtherMeta k # ms) = sample_detections idx fw fh ms"

definition copied_face :: "face_entry \<Rightarrow> face_entry" where
  "copied_face e = e\<lparr>fe_embedding := (if fe_has_embedding e then fe_embedding e else replicate embedding_dim (Fin 0))\<rparr>"

text \<open>The tracks with an identity are seen; every hundred samples the others of old are forgotten.\<close>

definition forgotten :: "u64 \<Rightarrow> (u32 \<Rightarrow> int option) \<Rightarrow> (u32 \<Rightarrow> u64 option) \<Rightarrow> u32 \<Rightarrow> bool" where
  "forgotten n tracks seen k =
     (tracks k \<noteq> None \<and> (case seen k of None \<Rightarrow> True | Some t \<Rightarrow> 300 < n - t))"

definition keep_tracks :: "u64 \<Rightarrow> detection_record list \<Rightarrow> channel_worker \<Rightarrow> channel_worker" where
  "keep_tracks n ds w =
     (let seen = foldl (\<lambda>m d. if cw_tracks w (det_track d) \<noteq> None then m(det_track d \<mapsto> n) else m) (cw_seen w) ds
      in if n mod 100 = 0 then
           w\<lparr>cw_tracks := (\<lambda>k. if forgotten n (cw_tracks w) seen k then None else cw_tracks w k),
             cw_seen := (\<lambda>k. if forgotten n (cw_tracks w) seen k then None else seen k)\<rparr>
         else w\<lparr>cw_seen := seen\<rparr>)"

definition sample_faces ::
  "bool \<Rightarrow> u32 \<Rightarrow> u32 \<Rightarrow> face_entry list option \<Rightarrow> detection_record list \<Rightarrow> channel_worker \<Rightarrow> gallery
   \<Rightarrow> detection_record list \<times> channel_worker \<times> gallery \<times> json option" where
  "sample_faces wok fw fh faces ds w G =
     (let (ds, w, G, out) =
            (case faces of
               Some (e # es) \<Rightarrow>
                 MatchFacesToPersons (fe_has_embedding e) wok fw fh (map copied_face (e # es)) ds w G None
             | _ \<Rightarrow> (ds, w, G, None))
      in (ds, keep_tracks (cw_total w) ds w, G, out))"

text \<open>The record of a frame, written to the log; \<open>good\<close> is the state of the stream after the write.\<close>

definition finish_sample :: "bool \<Rightarrow> u64 \<Rightarrow> detection_record list \<Rightarrow> channel_worker \<Rightarrow> frame_record \<times> channel_worker" where
  "finish_sample good now ds w =
     (let ts = next_ts now (cw_last_ts w);
          r = \<lparr>frm_channel = cw_channel w, frm_image_path = - 1, frm_id = cw_counter w, frm_ts = ts, frm_dets = ds\<rparr>;
          w = w\<lparr>cw_counter := cw_counter w + 1, cw_last_ts := ts\<rparr>
      in case (case cw_writer w of
                 None \<Rightarrow> (Some [], None)
               | Some jw \<Rightarrow> (case writer_write good r jw of (e, jw) \<Rightarrow> (e, Some jw))) of
           (None, wr) \<Rightarrow> (r, w\<lparr>cw_writer := wr, cw_write_ok := cw_write_ok w + 1\<rparr>)
         | (Some e, wr) \<Rightarrow> (r, w\<lparr>cw_writer := wr, cw_write_fail := cw_write_fail w + 1\<rparr>))"

text \<open>
  Whether the sample was handled, the worker, the gallery and its file, and the record offered to
  the aggregator.
\<close>

definition HandleCombinedSample ::
  "bool \<Rightarrow> bool \<Rightarrow> u64 \<Rightarrow> gst_sample option \<Rightarrow> channel_worker \<Rightarrow> gallery
   \<Rightarrow> bool \<times> channel_worker \<times> gallery \<times> json option \<times> frame_record option" where
  "HandleCombinedSample wok good now sample w G =
     (let fail = (False, w\<lparr>cw_meta_fail := cw_meta_fail w + 1\<rparr>, G, None, None) in
      case sample of
        None \<Rightarrow> fail
      | Some sm \<Rightarrow>
          (case sm_buffer sm of
             None \<Rightarrow> fail
           | Some (metas, faces) \<Rightarrow>
               (let (fw, fh) = (case sm_size sm of Some (a, b) \<Rightarrow> (u32_of_int a, u32_of_int b) | None \<Rightarrow> (0, 0))
                in if fw = 0 \<or> fh = 0 then fail
                   else
                     let ds = sample_detections (cw_labels w) fw fh metas;
                         w = w\<lparr>cw_meta_ok := cw_meta_ok w + 1\<rparr>;
                         (ds, w, G, out) = (if cw_face w then sample_faces wok fw fh faces ds w G else (ds, w, G, None));
                         (r, w) = finish_sample good now ds w
                     in (True, w, G, out, if cw_aggregator w then Some r else None))))"

text \<open>
  The callback of the sink; no sample is no error. The second answer is whether the
  application is told of an error and to stop.
\<close>

definition OnNewCombinedSample ::
  "bool \<Rightarrow> bool \<Rightarrow> u64 \<Rightarrow> gst_sample option \<Rightarrow> channel_worker \<Rightarrow> gallery
   \<Rightarrow> flow \<times> bool \<times> channel_worker \<times> gallery \<times> json option \<times> frame_record option" where
  "OnNewCombinedSample wok good now sample w G =
     (case sample of
        None \<Rightarrow> (FlowOk, False, w, G, None, None)
      | Some sm \<Rightarrow>
          (let w = w\<lparr>cw_total := cw_total w + 1, cw_first_logged := True\<rparr>;
               (ok, w, G, out, item) = HandleCombinedSample wok good now (Some sm) w G
           in (if ok then FlowOk else FlowError, \<not> ok, w, G, out, item)))"

section \<open>Start and stop\<close>

definition worker_stop :: "channel_worker \<Rightarrow> channel_worker" where
  "worker_stop w =
     w\<lparr>cw_final_logged := True, cw_diag := False, cw_face := False,
       cw_signal := (if cw_appsink w \<and> cw_signal w \<noteq> 0 then 0 else cw_signal w),
       cw_appsink := False, cw_offload := False, cw_writer := map_option writer_close (cw_writer w),
       cw_initialized := False\<rparr>"

text \<open>
  The answers of the surroundings: the lines of the label file, the error of the chain, whether it has
  a sink and an offload element, the id of the connected signal, whether the diagnosis file opens, and the
  two answers of the writer.
\<close>

record worker_env =
  we_labels :: "string list option"
  we_chain :: "string option"
  we_sink :: bool
  we_offload :: bool
  we_signal :: nat
  we_diag :: bool
  we_parent :: "string \<Rightarrow> string option"
  we_open :: "string \<Rightarrow> bool"

definition face_on_channel :: "app_settings \<Rightarrow> u32 \<Rightarrow> bool" where
  "face_on_channel c ch = (as_face c \<and> as_mask c AND push_bit (unat ch) 1 \<noteq> 0)"

definition set_up_faces :: "worker_env \<Rightarrow> app_settings \<Rightarrow> bool \<Rightarrow> channel_worker \<Rightarrow> channel_worker" where
  "set_up_faces V c shared w =
     (let w = w\<lparr>cw_face := face_on_channel c (cw_channel w)\<rparr>
      in if cw_face w \<and> shared then
           (let w = w\<lparr>cw_gallery := True, cw_threshold := as_threshold c, cw_min_face := as_min_face c,
                      cw_min_score := as_min_score c\<rparr>
            in if as_log c \<noteq> [] then w\<lparr>cw_diag := we_diag V\<rparr> else w)
         else w)"

text \<open>The last step: the log opens and the worker counts as initialized, or everything is stopped.\<close>

definition open_worker :: "worker_env \<Rightarrow> channel_worker \<Rightarrow> string option \<times> channel_worker" where
  "open_worker V w =
     (case cw_writer w of
        None \<Rightarrow> (Some [], worker_stop w)
      | Some jw \<Rightarrow>
          (case writer_open (we_parent V) (we_open V) jw of
             (Some e, jw) \<Rightarrow> (Some e, worker_stop (w\<lparr>cw_writer := Some jw\<rparr>))
           | (None, jw) \<Rightarrow> (None, w\<lparr>cw_writer := Some jw, cw_initialized := True\<rparr>)))"

definition attach_chain :: "worker_env \<Rightarrow> app_settings \<Rightarrow> channel_worker \<Rightarrow> channel_worker" where
  "attach_chain V c w =
     (if cs_enabled (as_cache c) then w\<lparr>cw_offload := we_offload V, cw_appsink := we_sink V\<rparr>
      else w\<lparr>cw_appsink := we_sink V\<rparr>)"

definition start_chain :: "worker_env \<Rightarrow> app_settings \<Rightarrow> bool \<Rightarrow> channel_worker \<Rightarrow> string option \<times> channel_worker" where
  "start_chain V c shared w =
     (case we_chain V of
        Some e \<Rightarrow> (Some e, w)
      | None \<Rightarrow>
          (let w = attach_chain V c w
           in if \<not> we_sink V then (Some ''No appsink available after chain construction'', worker_stop w)
              else if \<not> ms_enabled (as_msgagg c) \<and> we_signal V = 0 then
                (Some ''Failed to connect appsink new-sample callback'', worker_stop (w\<lparr>cw_signal := 0\<rparr>))
              else
                open_worker V
                  (set_up_faces V c shared
                    (if ms_enabled (as_msgagg c) then w else w\<lparr>cw_signal := we_signal V\<rparr>))))"

text \<open>An error text or None, and the worker; \<open>ctx\<close> and \<open>bin\<close> tell the pointers that are not null.\<close>

definition worker_initialize ::
  "worker_env \<Rightarrow> app_settings \<Rightarrow> bool \<Rightarrow> bool \<Rightarrow> bool \<Rightarrow> channel_worker \<Rightarrow> string option \<times> channel_worker" where
  "worker_initialize V c ctx bin shared w =
     (if cw_initialized w then (None, w)
      else if \<not> ctx then (Some ''ChannelWorker.Initialize received null app_context'', w)
      else if \<not> bin then (Some ''ChannelWorker.Initialize received null pipeline_bin'', w)
      else
        let w = ResetSampleStats w;
            w = (if ms_enabled (as_msgagg c) then w
                 else w\<lparr>cw_writer := Some \<lparr>jw_path = BuildChannelOutputPath (as_output c) (cw_channel w), jw_file = None\<rparr>\<rparr>)
        in case LoadLabelIndex (as_labels c) (we_labels V) of
             (Some e, idx) \<Rightarrow> (Some e, w\<lparr>cw_labels := idx\<rparr>)
           | (None, idx) \<Rightarrow> start_chain V c shared (w\<lparr>cw_labels := idx\<rparr>))"

section \<open>What the label index knows\<close>

text \<open>The labels of a file, and the index of the first of them: each under its own and its dotted name.\<close>

definition file_labels :: "string list \<Rightarrow> string list" where
  "file_labels lines = filter (\<lambda>l. l \<noteq> []) (map TrimAscii lines)"

definition indexed :: "string list \<Rightarrow> label_index \<Rightarrow> bool" where
  "indexed ls idx =
     ((\<forall>i < length ls. map_of idx (ls ! i) = Some (of_nat i, ls ! i) \<and> map_of idx (dotted (ls ! i)) = Some (of_nat i, ls ! i))
      \<and> (\<forall>a c l. map_of idx a = Some (c, l) \<longrightarrow>
           (\<exists>i < length ls. c = of_nat i \<and> l = ls ! i \<and> (a = l \<or> a = dotted l))))"

lemma dotted_empty [simp]: "dotted s = [] \<longleftrightarrow> s = []" "[] = dotted s \<longleftrightarrow> s = []"
  by (auto simp: dotted_def ReplaceChar_def)

lemma add_alias_result:
  "add_alias cid label a idx = Inr idx' \<longleftrightarrow>
   (if a = [] then idx' = idx
    else case map_of idx a of
      None \<Rightarrow> idx' = (a, cid, label) # idx
    | Some e \<Rightarrow> fst e = cid \<and> idx' = idx)"
  by (auto simp: add_alias_def split: option.split)

lemma indexed_step:
  assumes idx: "indexed ls idx" and n: "length ls < 4294967296" and l: "l \<noteq> []"
    and first: "add_alias (of_nat (length ls)) l l idx = Inr idx1"
    and second: "(if dotted l \<noteq> l then add_alias (of_nat (length ls)) l (dotted l) idx1 else Inr idx1) = Inr idx2"
  shows "indexed (ls @ [l]) idx2"
proof -
  let ?n = "of_nat (length ls) :: u32"
  have old: "c \<noteq> ?n" if e: "map_of idx a = Some (c, m)" for a c m
  proof -
    obtain i where i: "i < length ls" "c = of_nat i" using idx e unfolding indexed_def by blast
    then show ?thesis using n by (auto simp: word_of_nat_eq_iff take_bit_nat_eq_self)
  qed
  have fresh: "map_of idx l = None" and i1: "idx1 = (l, ?n, l) # idx"
    using first l old by (auto simp: add_alias_result split: option.splits)
  have i2: "map_of idx2 = (map_of idx)(l \<mapsto> (?n, l), dotted l \<mapsto> (?n, l))" "map_of idx (dotted l) = None"
    using second l old fresh i1 by (auto simp: add_alias_result split: option.splits if_splits)
  have "map_of idx2 (ls ! i) = Some (of_nat i, ls ! i) \<and> map_of idx2 (dotted (ls ! i)) = Some (of_nat i, ls ! i)"
    if "i < length ls" for i
    using idx that i2 fresh by (auto simp: indexed_def)
  moreover have "\<exists>i < length (ls @ [l]). c = of_nat i \<and> m = (ls @ [l]) ! i \<and> (a = m \<or> a = dotted m)"
    if a: "map_of idx2 a = Some (c, m)" for a c m
  proof (cases "a = l \<or> a = dotted l")
    case True
    then show ?thesis using a i2(1) by (intro exI [of _ "length ls"]) (auto split: if_splits)
  next
    case False
    then have "map_of idx a = Some (c, m)" using a i2(1) by simp
    then obtain i where "i < length ls" "c = of_nat i \<and> m = ls ! i \<and> (a = m \<or> a = dotted m)"
      using idx unfolding indexed_def by blast
    then show ?thesis by (intro exI [of _ i]) (auto simp: nth_append)
  qed
  moreover have "map_of idx2 l = Some (?n, l) \<and> map_of idx2 (dotted l) = Some (?n, l)"
    using i2(1) by simp
  ultimately show ?thesis
    unfolding indexed_def by (simp add: nth_append less_Suc_eq all_conj_distrib del: map_of_eq_Some_iff)
qed

lemma index_labels_indexed:
  assumes "indexed ls idx" "length ls + length lines < 4294967296"
    and "index_labels lines (of_nat (length ls)) idx = (None, idx')"
  shows "indexed (ls @ file_labels lines) idx'"
  using assms
proof (induction lines arbitrary: ls idx)
  case (Cons line lines)
  let ?l = "TrimAscii line" and ?n = "of_nat (length ls) :: u32"
  show ?case
  proof (cases "?l = []")
    case True
    then show ?thesis using Cons by (simp add: file_labels_def)
  next
    case False
    obtain idx1 idx2 where step: "add_alias ?n ?l ?l idx = Inr idx1"
        "(if dotted ?l \<noteq> ?l then add_alias ?n ?l (dotted ?l) idx1 else Inr idx1) = Inr idx2"
        "index_labels lines (?n + 1) idx2 = (None, idx')"
      using Cons.prems(3) False by (auto simp: Let_def split: sum.splits)
    have "indexed (ls @ [?l]) idx2"
      using indexed_step [OF Cons.prems(1) _ False step(1,2)] Cons.prems(2) by simp
    moreover have "?n + 1 = of_nat (length (ls @ [?l]))" by simp
    ultimately have "indexed ((ls @ [?l]) @ file_labels lines) idx'"
      using Cons.IH [of "ls @ [?l]" idx2] Cons.prems(2) step(3) by (simp add: add.commute)
    then show ?thesis using False by (simp add: file_labels_def)
  qed
qed (simp add: file_labels_def)

lemma resolve_some: "raw \<noteq> [] \<Longrightarrow> map_of idx raw = Some e \<Longrightarrow> ResolveDetectionClass idx raw = Some e"
  by (simp add: ResolveDetectionClass_def)

lemma load_labels_resolve:
  assumes load: "LoadLabelIndex path (Some lines) = (None, idx)" and n: "length lines < 4294967296"
  shows "file_labels lines \<noteq> []
    \<and> (\<forall>i < length (file_labels lines). \<forall>raw \<in> {file_labels lines ! i, dotted (file_labels lines ! i)}.
        ResolveDetectionClass idx raw = Some (of_nat i, file_labels lines ! i))
    \<and> (\<forall>raw c l. ResolveDetectionClass idx raw = Some (c, l) \<longrightarrow>
        (\<exists>i < length (file_labels lines). c = of_nat i \<and> l = file_labels lines ! i
          \<and> (raw \<in> {l, dotted l} \<or> ReplaceChar raw (CHR ''.'') (CHR '' '') \<in> {l, dotted l})))"
proof -
  let ?ls = "file_labels lines"
  have run: "index_labels lines 0 [] = (None, idx)" "idx \<noteq> []"
    using load by (auto simp: LoadLabelIndex_def split: prod.splits option.splits if_splits)
  have ix: "indexed ?ls idx"
    using index_labels_indexed [of "[]" "[]" lines idx] run(1) n by (simp add: indexed_def)
  have "?ls \<noteq> []"
  proof
    assume e: "?ls = []"
    obtain a c l rest where "idx = (a, c, l) # rest" using run(2) by (cases idx) auto
    then have "map_of idx a = Some (c, l)" by simp
    then show False using ix e unfolding indexed_def by (metis length_0_conv not_less_zero)
  qed
  moreover have "ResolveDetectionClass idx raw = Some (of_nat i, ?ls ! i)"
    if "i < length ?ls" "raw \<in> {?ls ! i, dotted (?ls ! i)}" for i raw
  proof -
    have "?ls ! i \<noteq> []" using nth_mem [OF that(1)] by (auto simp: file_labels_def)
    then show ?thesis using ix that by (intro resolve_some) (auto simp: indexed_def)
  qed
  moreover have "\<exists>i < length ?ls. c = of_nat i \<and> l = ?ls ! i
      \<and> (raw \<in> {l, dotted l} \<or> ReplaceChar raw (CHR ''.'') (CHR '' '') \<in> {l, dotted l})"
    if "ResolveDetectionClass idx raw = Some (c, l)" for raw c l
  proof -
    have "map_of idx raw = Some (c, l) \<or> map_of idx (ReplaceChar raw (CHR ''.'') (CHR '' '')) = Some (c, l)"
      using that by (auto simp: ResolveDetectionClass_def split: if_splits option.splits)
    then show ?thesis using ix unfolding indexed_def by blast
  qed
  ultimately show ?thesis by blast
qed

section \<open>What a worker holds\<close>

definition writer_held :: "channel_worker \<Rightarrow> bool" where
  "writer_held w = (case cw_writer w of Some jw \<Rightarrow> jw_file jw \<noteq> None | None \<Rightarrow> False)"

definition holds_nothing :: "channel_worker \<Rightarrow> bool" where
  "holds_nothing w =
     (\<not> cw_appsink w \<and> cw_signal w = 0 \<and> \<not> cw_offload w \<and> \<not> cw_diag w \<and> \<not> cw_face w \<and> \<not> writer_held w
      \<and> \<not> cw_initialized w)"

text \<open>A worker is running with what its configuration asks for, or it holds nothing.\<close>

definition worker_sound :: "channel_worker \<Rightarrow> bool" where
  "worker_sound w =
     (if cw_initialized w then cw_appsink w \<and> writer_held w else holds_nothing w)"

lemma stop_holds_nothing:
  assumes "cw_signal w \<noteq> 0 \<longrightarrow> cw_appsink w"
  shows "holds_nothing (worker_stop w)"
  using assms by (auto simp: holds_nothing_def worker_stop_def writer_held_def writer_close_def split: option.split)

lemma set_up_faces_keeps [simp]:
  "cw_appsink (set_up_faces V c sh w) = cw_appsink w" "cw_signal (set_up_faces V c sh w) = cw_signal w"
  "cw_offload (set_up_faces V c sh w) = cw_offload w" "cw_writer (set_up_faces V c sh w) = cw_writer w"
  "cw_initialized (set_up_faces V c sh w) = cw_initialized w" "cw_channel (set_up_faces V c sh w) = cw_channel w"
  by (simp_all add: set_up_faces_def Let_def)

lemma writer_open_held: "writer_open mp op jw = (None, jw') \<Longrightarrow> jw_file jw' \<noteq> None"
  by (auto simp: writer_open_def split: option.splits if_splits)

lemma stopped_sound:
  "cw_signal w \<noteq> 0 \<longrightarrow> cw_appsink w \<Longrightarrow> worker_sound (worker_stop w) \<and> \<not> cw_initialized (worker_stop w)"
  using stop_holds_nothing [of w] by (simp add: worker_sound_def holds_nothing_def)

lemma open_worker_sound:
  assumes "open_worker V w = (e, w')" "cw_appsink w" "\<not> cw_initialized w"
  shows "worker_sound w' \<and> (e = None \<longleftrightarrow> cw_initialized w')"
  using assms stopped_sound [of w] stopped_sound [of "w\<lparr>cw_writer := X\<rparr>" for X]
  by (auto simp: open_worker_def worker_sound_def writer_held_def dest: writer_open_held split: option.splits prod.splits)

lemma attach_chain_keeps [simp]:
  "cw_initialized (attach_chain V c w) = cw_initialized w" "cw_appsink (attach_chain V c w) = we_sink V"
  "cw_signal (attach_chain V c w) = cw_signal w"
  by (simp_all add: attach_chain_def)

lemma start_chain_sound:
  assumes "start_chain V c sh w = (e, w')" "holds_nothing w"
  shows "worker_sound w' \<and> (e = None \<longleftrightarrow> cw_initialized w')"
proof (cases "we_chain V = None \<and> we_sink V \<and> (ms_enabled (as_msgagg c) \<or> we_signal V \<noteq> 0)")
  case True
  let ?w = "if ms_enabled (as_msgagg c) then attach_chain V c w else (attach_chain V c w)\<lparr>cw_signal := we_signal V\<rparr>"
  have "open_worker V (set_up_faces V c sh ?w) = (e, w')"
    using assms(1) True by (auto simp: start_chain_def Let_def)
  then show ?thesis
    by (rule open_worker_sound) (use assms(2) True in \<open>auto simp: holds_nothing_def split: if_splits\<close>)
next
  case False
  have att: "cw_signal (attach_chain V c w) = 0" using assms(2) by (simp add: attach_chain_def holds_nothing_def)
  show ?thesis
  proof (cases "we_chain V")
    case None
    then have "e \<noteq> None \<and> (w' = worker_stop (attach_chain V c w) \<or> w' = worker_stop ((attach_chain V c w)\<lparr>cw_signal := 0\<rparr>))"
      using assms(1) False by (auto simp: start_chain_def Let_def split: if_splits)
    then show ?thesis using stopped_sound att by auto
  next
    case (Some x)
    then have "e = Some x \<and> w' = w" using assms(1) by (simp add: start_chain_def)
    then show ?thesis using assms(2) by (simp add: worker_sound_def holds_nothing_def)
  qed
qed

lemma initialize_sound:
  assumes "worker_sound w" "worker_initialize V c ctx bin sh w = (e, w')"
  shows "worker_sound w' \<and> (e = None \<longleftrightarrow> cw_initialized w')"
proof (cases "cw_initialized w")
  case True
  then show ?thesis using assms by (simp add: worker_initialize_def)
next
  case False
  define v where "v = (if ms_enabled (as_msgagg c) then ResetSampleStats w
      else (ResetSampleStats w)\<lparr>cw_writer :=
        Some \<lparr>jw_path = BuildChannelOutputPath (as_output c) (cw_channel (ResetSampleStats w)), jw_file = None\<rparr>\<rparr>)"
  obtain le idx where l: "LoadLabelIndex (as_labels c) (we_labels V) = (le, idx)" by fastforce
  have idle: "holds_nothing w" using assms(1) False by (simp add: worker_sound_def)
  then have v: "holds_nothing (v\<lparr>cw_labels := idx\<rparr>)"
    by (auto simp: v_def holds_nothing_def ResetSampleStats_def writer_held_def)
  have "(e, w') = start_chain V c sh (v\<lparr>cw_labels := idx\<rparr>) \<or> (e \<noteq> None \<and> w' \<in> {w, v\<lparr>cw_labels := idx\<rparr>})"
    using assms(2) False l
    by (cases le) (auto simp: worker_initialize_def Let_def v_def [symmetric] split: if_splits)
  then show ?thesis
    using start_chain_sound [OF _ v, of V c sh e w'] idle v
    by (auto simp: worker_sound_def holds_nothing_def)
qed

section \<open>Faces end up on persons\<close>

text \<open>How a detection may change: not at all, or a person without a face gets one of the faces around it.\<close>

definition gets_face :: "bool \<Rightarrow> u32 \<Rightarrow> u32 \<Rightarrow> face_entry list \<Rightarrow> detection_record \<Rightarrow> detection_record \<Rightarrow> bool" where
  "gets_face arc fw fh es d d' \<longleftrightarrow>
     d' = d \<or> (\<exists>e \<in> set es. \<exists>ident. holder_score (face_middle fw fh e) d \<noteq> None
       \<and> d' = d\<lparr>det_face := Some (worker_face arc fw fh e (det_track d) ident)\<rparr>)"

lemma holder_score_person: "holder_score c d \<noteq> None \<Longrightarrow> det_label d = ''person'' \<and> det_face d = None"
  by (auto simp: holder_score_def split: if_splits)

lemma gets_face_more: "gets_face arc fw fh es d d' \<Longrightarrow> gets_face arc fw fh (e # es) d d'"
  by (auto simp: gets_face_def)

lemma gets_face_taken: "gets_face arc fw fh es d d' \<Longrightarrow> det_face d \<noteq> None \<Longrightarrow> d' = d"
  unfolding gets_face_def by (elim disjE bexE exE conjE; (drule holder_score_person)?; simp)

lemma best_holder:
  assumes "fst (best_person f ds 0 (None, Fin (- 1))) = Some i"
  shows "i < length ds \<and> f (ds ! i) \<noteq> None"
  using best_person_spec [of f ds 0 "(None, Fin (- 1))" "Some i" "snd (best_person f ds 0 (None, Fin (- 1)))"] assms
  by (metis (no_types, lifting) add_0 fst_conv option.distinct(1) option.inject prod.collapse)

definition with_face :: "detection_record list \<Rightarrow> nat" where
  "with_face ds = length (filter (\<lambda>d. det_face d \<noteq> None) ds)"

lemma with_face_update:
  assumes "i < length ds" "det_face (ds ! i) = None"
  shows "with_face (ds[i := (ds ! i)\<lparr>det_face := Some f\<rparr>]) = Suc (with_face ds)"
  using assms by (induction ds arbitrary: i) (auto simp: with_face_def split: nat.splits)

lemma match_faces_core:
  assumes "MatchFacesToPersons arc wok fw fh es ds w G out = (ds', w', G', out')"
  shows "length ds' = length ds \<and> (\<forall>i < length ds. gets_face arc fw fh es (ds ! i) (ds' ! i))
    \<and> with_face ds' \<le> with_face ds + length es"
  using assms
proof (induction es arbitrary: ds w G out)
  case Nil
  then show ?case by (simp add: gets_face_def)
next
  case (Cons e es)
  let ?b = "fst (best_person (holder_score (face_middle fw fh e)) ds 0 (None, Fin (- 1)))"
  show ?case
  proof (cases ?b)
    case None
    then show ?thesis using Cons by (fastforce intro: gets_face_more)
  next
    case (Some i)
    have i: "i < length ds" "holder_score (face_middle fw fh e) (ds ! i) \<noteq> None"
      using best_holder [OF Some] by auto
    obtain ident v H o' where rest: "MatchFacesToPersons arc wok fw fh es
        (ds[i := (ds ! i)\<lparr>det_face := Some (worker_face arc fw fh e (det_track (ds ! i)) ident)\<rparr>]) v H o' = (ds', w', G', out')"
      using Cons.prems Some by (auto simp: Let_def split: prod.splits)
    let ?ds = "ds[i := (ds ! i)\<lparr>det_face := Some (worker_face arc fw fh e (det_track (ds ! i)) ident)\<rparr>]"
    note ih = Cons.IH [OF rest]
    then have all: "\<forall>k < length ds. gets_face arc fw fh es (?ds ! k) (ds' ! k)" by simp
    have "gets_face arc fw fh (e # es) (ds ! k) (ds' ! k)" if k: "k < length ds" for k
    proof (cases "k = i")
      case True
      have "gets_face arc fw fh es (?ds ! i) (ds' ! i)" using all i(1) by blast
      then have "ds' ! i = ?ds ! i" by (rule gets_face_taken) (simp add: i(1))
      then show ?thesis
        unfolding gets_face_def True using i
        by (intro disjI2 bexI [of _ e] exI [of _ ident]) simp_all
    next
      case False
      have "gets_face arc fw fh es (ds ! k) (ds' ! k)" using all k False by (metis nth_list_update_neq)
      then show ?thesis by (rule gets_face_more)
    qed
    moreover have "with_face ?ds = Suc (with_face ds)"
      using i holder_score_person by (intro with_face_update) auto
    ultimately show ?thesis using ih by simp
  qed
qed

section \<open>The books of the samples\<close>

definition counts_ok :: "channel_worker \<Rightarrow> bool" where
  "counts_ok w = (cw_total w = cw_meta_ok w + cw_meta_fail w \<and> cw_meta_ok w = cw_write_ok w + cw_write_fail w)"

lemma keep_tracks_keeps [simp]:
  "cw_total (keep_tracks n ds w) = cw_total w" "cw_meta_ok (keep_tracks n ds w) = cw_meta_ok w"
  "cw_meta_fail (keep_tracks n ds w) = cw_meta_fail w" "cw_write_ok (keep_tracks n ds w) = cw_write_ok w"
  "cw_write_fail (keep_tracks n ds w) = cw_write_fail w" "cw_counter (keep_tracks n ds w) = cw_counter w"
  "cw_channel (keep_tracks n ds w) = cw_channel w" "cw_last_ts (keep_tracks n ds w) = cw_last_ts w"
  "cw_aggregator (keep_tracks n ds w) = cw_aggregator w" "cw_writer (keep_tracks n ds w) = cw_writer w"
  by (simp_all add: keep_tracks_def Let_def)

definition same_books :: "channel_worker \<Rightarrow> channel_worker \<Rightarrow> bool" where
  "same_books w v =
     (cw_total v = cw_total w \<and> cw_meta_ok v = cw_meta_ok w \<and> cw_meta_fail v = cw_meta_fail w
      \<and> cw_write_ok v = cw_write_ok w \<and> cw_write_fail v = cw_write_fail w \<and> cw_counter v = cw_counter w
      \<and> cw_channel v = cw_channel w \<and> cw_last_ts v = cw_last_ts w \<and> cw_aggregator v = cw_aggregator w
      \<and> cw_writer v = cw_writer w)"

lemma identify_books: "worker_identify w wok e tid G = (ident, v, G', out) \<Longrightarrow> same_books w v"
  by (auto simp: worker_identify_def same_books_def Let_def split: option.splits if_splits prod.splits)

lemma match_books:
  "MatchFacesToPersons arc wok fw fh es ds w G out = (ds', v, G', out') \<Longrightarrow> same_books w v"
proof (induction es arbitrary: ds w G out)
  case (Cons e es)
  have trans: "same_books a b \<Longrightarrow> same_books b c \<Longrightarrow> same_books a c" for a b c by (simp add: same_books_def)
  have refl: "same_books a a" for a by (simp add: same_books_def)
  show ?case
    using Cons.prems Cons.IH
    by (auto simp: Let_def split: option.splits prod.splits if_splits dest!: identify_books intro: trans refl)
qed (simp add: same_books_def)

lemma sample_faces_books:
  assumes "sample_faces wok fw fh faces ds w G = (ds', v, G', out)"
  shows "same_books w v"
proof -
  define x where "x = (case faces of
        Some (e # es) \<Rightarrow> MatchFacesToPersons (fe_has_embedding e) wok fw fh (map copied_face (e # es)) ds w G None
      | _ \<Rightarrow> (ds, w, G, None))"
  obtain ds1 w1 G1 o1 where run: "x = (ds1, w1, G1, o1)" by (cases x)
  have "same_books w w1"
  proof (cases faces)
    case (Some es)
    then show ?thesis
      using run match_books [of _ wok fw fh _ ds w G None ds1 w1 G1 o1]
      by (cases es) (simp_all add: x_def same_books_def del: MatchFacesToPersons.simps)
  qed (use run in \<open>simp add: x_def same_books_def\<close>)
  moreover have "v = keep_tracks (cw_total w1) ds1 w1" using assms run by (auto simp: sample_faces_def x_def [symmetric])
  ultimately show ?thesis by (simp add: same_books_def)
qed

text \<open>One sample: which counters move, and the record that goes to the aggregator.\<close>

lemma finish_books:
  assumes "finish_sample good now ds w = (r, v)"
  shows "frm_id r = cw_counter w \<and> frm_channel r = cw_channel w \<and> cw_counter v = cw_counter w + 1
    \<and> cw_write_ok v + cw_write_fail v = cw_write_ok w + cw_write_fail w + 1
    \<and> cw_total v = cw_total w \<and> cw_meta_ok v = cw_meta_ok w \<and> cw_meta_fail v = cw_meta_fail w
    \<and> cw_aggregator v = cw_aggregator w \<and> cw_channel v = cw_channel w"
  using assms by (auto simp: finish_sample_def Let_def split: prod.splits option.splits)

lemma handle_books:
  assumes "HandleCombinedSample wok good now (Some sm) w G = (ok, v, G', out, item)"
  shows "(if ok then cw_meta_ok v = cw_meta_ok w + 1 \<and> cw_meta_fail v = cw_meta_fail w \<and> cw_counter v = cw_counter w + 1
      \<and> cw_write_ok v + cw_write_fail v = cw_write_ok w + cw_write_fail w + 1
      \<and> (\<exists>r. frm_id r = cw_counter w \<and> frm_channel r = cw_channel w \<and> item = (if cw_aggregator w then Some r else None))
    else cw_meta_ok v = cw_meta_ok w \<and> cw_meta_fail v = cw_meta_fail w + 1 \<and> cw_counter v = cw_counter w
      \<and> cw_write_ok v = cw_write_ok w \<and> cw_write_fail v = cw_write_fail w \<and> item = None)
    \<and> cw_total v = cw_total w \<and> cw_aggregator v = cw_aggregator w \<and> cw_channel v = cw_channel w"
proof (cases "\<exists>metas faces. sm_buffer sm = Some (metas, faces)
    \<and> (case sm_size sm of Some (a, b) \<Rightarrow> u32_of_int a \<noteq> 0 \<and> u32_of_int b \<noteq> 0 | None \<Rightarrow> False)")
  case True
  then obtain metas faces a b where sm: "sm_buffer sm = Some (metas, faces)" "sm_size sm = Some (a, b)"
      "u32_of_int a \<noteq> 0" "u32_of_int b \<noteq> 0"
    by (auto split: option.splits)
  let ?w = "w\<lparr>cw_meta_ok := cw_meta_ok w + 1\<rparr>"
  define x where "x = (if cw_face w then sample_faces wok (u32_of_int a) (u32_of_int b) faces
      (sample_detections (cw_labels w) (u32_of_int a) (u32_of_int b) metas) ?w G
    else (sample_detections (cw_labels w) (u32_of_int a) (u32_of_int b) metas, ?w, G, None))"
  obtain ds u H o1 where x: "x = (ds, u, H, o1)" by (cases x)
  have "cw_face w \<Longrightarrow> same_books ?w u" using x sample_faces_books by (simp add: x_def)
  then have u: "same_books ?w u" using x by (cases "cw_face w") (simp_all add: x_def same_books_def)
  obtain r t where fin: "finish_sample good now ds u = (r, t)" by fastforce
  have "ok \<and> item = (if cw_aggregator t then Some r else None) \<and> v = t"
    using assms sm x fin by (auto simp: HandleCombinedSample_def Let_def x_def [symmetric])
  then show ?thesis using u finish_books [OF fin] by (auto simp: same_books_def)
next
  case False
  then have "(ok, v, G', out, item) = (False, w\<lparr>cw_meta_fail := cw_meta_fail w + 1\<rparr>, G, None, None)"
    using assms by (auto simp: HandleCombinedSample_def Let_def split: option.splits prod.splits if_splits)
  then show ?thesis by simp
qed

text \<open>A run of the callback: the worker, the gallery and the records offered.\<close>

fun sample_step ::
  "channel_worker \<times> gallery \<times> frame_record list \<Rightarrow> bool \<times> bool \<times> u64 \<times> gst_sample option
   \<Rightarrow> channel_worker \<times> gallery \<times> frame_record list" where
  "sample_step (w, G, rs) (wok, good, now, sm) =
     (case OnNewCombinedSample wok good now sm w G of
        (f, stop, w, G, out, item) \<Rightarrow> (w, G, rs @ (case item of None \<Rightarrow> [] | Some r \<Rightarrow> [r])))"

text \<open>The records are numbered from \<open>k\<close> on without a gap, and every sample is counted once.\<close>

fun sample_inv :: "u32 \<Rightarrow> u64 \<Rightarrow> channel_worker \<times> gallery \<times> frame_record list \<Rightarrow> bool" where
  "sample_inv ch k (w, G, rs) =
     (counts_ok w \<and> cw_aggregator w \<and> cw_channel w = ch \<and> cw_counter w = k + of_nat (length rs)
      \<and> cw_meta_ok w = of_nat (length rs)
      \<and> (\<forall>i < length rs. frm_id (rs ! i) = k + of_nat i \<and> frm_channel (rs ! i) = ch))"

lemma sample_step_inv: "sample_inv ch k x \<Longrightarrow> sample_inv ch k (sample_step x y)"
proof -
  assume inv: "sample_inv ch k x"
  obtain w G rs wok good now sm where xy: "x = (w, G, rs)" "y = (wok, good, now, sm)" by (cases x; cases y) auto
  show ?thesis
  proof (cases sm)
    case None
    then show ?thesis using inv xy by (simp add: OnNewCombinedSample_def)
  next
    case (Some s)
    let ?w = "w\<lparr>cw_total := cw_total w + 1, cw_first_logged := True\<rparr>"
    obtain ok v H out item where h: "HandleCombinedSample wok good now (Some s) ?w G = (ok, v, H, out, item)"
      by (cases "HandleCombinedSample wok good now (Some s) ?w G")
    show ?thesis
      using inv xy Some h handle_books [OF h]
      by (auto simp: OnNewCombinedSample_def Let_def counts_ok_def nth_append less_Suc_eq split: if_splits)
  qed
qed

interpretation cw_samples: step_system sample_step "sample_inv ch k" for ch k
  by unfold_locales (rule sample_step_inv)

text \<open>The records offered by a running channel are numbered without a gap from its counter on.\<close>

lemma records_numbered:
  assumes "counts_ok w" "cw_aggregator w" "cw_meta_ok w = 0" "foldl sample_step (w, G, []) xs = (w', G', rs)"
  shows "counts_ok w' \<and> (\<forall>i < length rs. frm_id (rs ! i) = cw_counter w + of_nat i)"
  using cw_samples.run_inv [of "cw_channel w" "cw_counter w" "(w, G, [])" xs] assms by simp

text \<open>Starting and stopping.\<close>

datatype worker_op = WInit worker_env app_settings bool bool bool | WStop

fun worker_life :: "channel_worker \<Rightarrow> worker_op \<Rightarrow> channel_worker" where
  "worker_life w (WInit V c ctx bin sh) = snd (worker_initialize V c ctx bin sh w)"
| "worker_life w WStop = worker_stop w"

lemma worker_life_sound: "worker_sound w \<Longrightarrow> worker_sound (worker_life w op)"
proof (cases op)
  case (WInit V c ctx bin sh)
  assume "worker_sound w"
  then show ?thesis using WInit initialize_sound [of w V c ctx bin sh] by (metis prod.collapse worker_life.simps(1))
next
  case WStop
  assume "worker_sound w"
  then have "cw_signal w \<noteq> 0 \<longrightarrow> cw_appsink w" by (auto simp: worker_sound_def holds_nothing_def split: if_splits)
  then show ?thesis using WStop stopped_sound by simp
qed

interpretation cw_sys: step_system worker_life worker_sound
  by unfold_locales (rule worker_life_sound)

lemma new_worker_sound: "worker_sound (ChannelWorker_new ch)"
  by (simp add: worker_sound_def holds_nothing_def ChannelWorker_new_def writer_held_def)

section \<open>Properties\<close>

text \<open>
  C28: When the label file loads, every label in it, and the label with dots for blanks, resolves to its
  place among the labels and its own name, and whatever resolves at all is a label of the file up
  to dots and blanks; so two classes are never confused.
\<close>

theorem labels_resolve:
  assumes "LoadLabelIndex path (Some lines) = (None, idx)" "length lines < 4294967296"
  shows "file_labels lines \<noteq> []
    \<and> (\<forall>i < length (file_labels lines). \<forall>raw \<in> {file_labels lines ! i, dotted (file_labels lines ! i)}.
        ResolveDetectionClass idx raw = Some (of_nat i, file_labels lines ! i))
    \<and> (\<forall>raw c l. ResolveDetectionClass idx raw = Some (c, l) \<longrightarrow>
        (\<exists>i < length (file_labels lines). c = of_nat i \<and> l = file_labels lines ! i
          \<and> (raw \<in> {l, dotted l} \<or> ReplaceChar raw (CHR ''.'') (CHR '' '') \<in> {l, dotted l})))"
  using assms by (rule load_labels_resolve)

definition example_lines :: "string list" where
  "example_lines = ['' person '', [], ''traffic light'']"

definition example_index :: label_index where
  "example_index =
     [(''traffic.light'', 1, ''traffic light''), (''traffic light'', 1, ''traffic light''), (''person'', 0, ''person'')]"

theorem labels_resolve_witness:
  "map (\<lambda>l. ResolveDetectionClass example_index (dotted l)) (file_labels example_lines)
     = [Some (0, ''person''), Some (1, ''traffic light'')]"
proof -
  have l: "LoadLabelIndex ''labels.txt'' (Some example_lines) = (None, example_index)" by code_simp
  have n: "length example_lines < 4294967296" by (simp add: example_lines_def)
  have f: "file_labels example_lines = [''person'', ''traffic light'']" by code_simp
  have r: "\<forall>i < 2. ResolveDetectionClass example_index (dotted ([''person'', ''traffic light''] ! i))
      = Some (of_nat i, [''person'', ''traffic light''] ! i)"
    using labels_resolve [OF l n] unfolding f by simp
  from r [rule_format, of 0] r [rule_format, of 1] show ?thesis unfolding f by simp
qed


text \<open>
  After any sequence of starts and stops a worker either runs, with its sink attached and its log open,
  or holds nothing at all: no sink, no signal, no reference to an element, no open file, whatever
  failed on the way; and a further start reports success exactly when it leaves the worker running.
\<close>

theorem worker_lifecycle:
  "let w = foldl worker_life (ChannelWorker_new ch) ops; (e, w') = worker_initialize V c ctx bin sh w
   in worker_sound w \<and> worker_sound w' \<and> (e = None \<longleftrightarrow> cw_initialized w')"
proof -
  have w: "worker_sound (foldl worker_life (ChannelWorker_new ch) ops)"
    by (rule cw_sys.run_inv [OF new_worker_sound])
  obtain e w' where "worker_initialize V c ctx bin sh (foldl worker_life (ChannelWorker_new ch) ops) = (e, w')"
    by fastforce
  then show ?thesis using w initialize_sound [OF w] by (simp add: Let_def)
qed

text \<open>
  A cached identity is reported with the similarity of the best entry of the gallery, whoever that is.
\<close>

lemma cached_similarity_of_best:
  assumes "cw_tracks w tid = Some i"
  shows "fst (worker_identify w wok e tid G) = (i, mr_similarity (gallery_match G (Some (fe_embedding e)) (Fin 0)))"
  using assms by (simp add: worker_identify_def)

end
