(* ===== verification/RuleMain.thy ===== *)
theory RuleMain
  imports Relay MqttLink
begin

text \<open>
  The rule process as a whole (\<open>rule_process/src/main.cpp\<close>, \<open>src/mqtt/*.cpp\<close>): its own wrappers of the
  MQTT library, the debug log of scenes, the start and every way out of \<open>main\<close>, the message handler
  with its publishing, and the loop of the build without MQTT. The wrappers are those of \<open>MqttLink\<close>
  where the code is the same up to the texts that are logged.
\<close>

section \<open>The wrappers of the rule process\<close>

definition adapter_connect :: "int \<Rightarrow> int \<Rightarrow> mqtt_client \<Rightarrow> mqtt_world \<Rightarrow> bool \<times> mqtt_client \<times> mqtt_world" where
  "adapter_connect rc_create rc_connect c w =
     (if rc_create \<noteq> 0 then (False, c, w)
      else
        let (h, w) = mqtt_create w;
            c = c\<lparr>mc_handle := Some h\<rparr>;
            w = mqtt_use (mc_handle c) CallSetCallbacks w;
            w = mqtt_use (mc_handle c) CallConnect w
        in if rc_connect \<noteq> 0 then (False, c\<lparr>mc_handle := None\<rparr>, mqtt_destroy (mc_handle c) w)
           else (True, c\<lparr>mc_connected := True\<rparr>, w))"

definition adapter_disconnect :: "mqtt_client \<Rightarrow> mqtt_world \<Rightarrow> mqtt_client \<times> mqtt_world" where
  "adapter_disconnect = Disconnect"

definition adapter_subscribe :: "int \<Rightarrow> string \<Rightarrow> int \<Rightarrow> mqtt_client \<Rightarrow> mqtt_world \<Rightarrow> bool \<times> mqtt_world" where
  "adapter_subscribe rc topic qos c w =
     (if \<not> mc_connected c then (False, w)
      else (rc = 0, mqtt_use (mc_handle c) (CallSubscribe topic qos) w))"

definition adapter_publish ::
  "int \<Rightarrow> string \<Rightarrow> string \<Rightarrow> int \<Rightarrow> bool \<Rightarrow> mqtt_client \<Rightarrow> mqtt_world \<Rightarrow> bool \<times> mqtt_client \<times> mqtt_world" where
  "adapter_publish rc topic payload qos retained c w =
     (if \<not> mc_connected c then (False, c, w)
      else
        let w = mqtt_use (mc_handle c)
                  (CallPublish topic (int_of_u32 (u32_of_int (int (length payload)))) payload qos retained) w
        in if rc \<noteq> 0 then (False, c, w) else (True, c\<lparr>mc_published := mc_published c + 1\<rparr>, w))"

record rule_publisher =
  rp_ip :: string
  rp_port :: int
  rp_topic :: string
  rp_adapter :: "mqtt_client option"
  rp_count :: u64

definition rule_publisher_new :: "string \<Rightarrow> int \<Rightarrow> string \<Rightarrow> rule_publisher" where
  "rule_publisher_new ip port topic = \<lparr>rp_ip = ip, rp_port = port, rp_topic = topic, rp_adapter = None, rp_count = 0\<rparr>"

text \<open>A failed connection leaves the adapter in place, not connected.\<close>

definition rule_publisher_initialize :: "int \<Rightarrow> int \<Rightarrow> rule_publisher \<Rightarrow> mqtt_world \<Rightarrow> bool \<times> rule_publisher \<times> mqtt_world" where
  "rule_publisher_initialize r1 r2 p w =
     (let w = drop_client (rp_adapter p) w;
          (ok, c, w) = adapter_connect r1 r2 (MqttClient_new (rp_ip p) (rp_port p)) w
      in (ok, p\<lparr>rp_adapter := Some c\<rparr>, w))"

definition rule_publisher_shutdown :: "rule_publisher \<Rightarrow> mqtt_world \<Rightarrow> rule_publisher \<times> mqtt_world" where
  "rule_publisher_shutdown p w =
     (case rp_adapter p of
        Some c \<Rightarrow> (let (c, w) = adapter_disconnect c w in (p\<lparr>rp_adapter := None\<rparr>, drop_client (Some c) w))
      | None \<Rightarrow> (p, w))"

text \<open>None when the frame cannot be printed.\<close>

definition publishFrame ::
  "json_lib \<Rightarrow> int \<Rightarrow> json \<Rightarrow> rule_publisher \<Rightarrow> mqtt_world \<Rightarrow> bool option \<times> rule_publisher \<times> mqtt_world" where
  "publishFrame L rc frame p w =
     (case rp_adapter p of
        None \<Rightarrow> (Some False, p, w)
      | Some c \<Rightarrow>
          if \<not> mc_connected c then (Some False, p, w)
          else
            case jl_dump L frame of
              None \<Rightarrow> (None, p, w)
            | Some payload \<Rightarrow>
                (let (ok, c, w) = adapter_publish rc (rp_topic p) payload 1 False c w
                 in (Some ok, p\<lparr>rp_adapter := Some c, rp_count := rp_count p + of_bool ok\<rparr>, w)))"

record rule_subscriber =
  rb_ip :: string
  rb_port :: int
  rb_topic :: string
  rb_adapter :: "mqtt_client option"
  rb_handler :: bool
  rb_count :: u64

definition rule_subscriber_new :: "string \<Rightarrow> int \<Rightarrow> string \<Rightarrow> rule_subscriber" where
  "rule_subscriber_new ip port topic =
     \<lparr>rb_ip = ip, rb_port = port, rb_topic = topic, rb_adapter = None, rb_handler = False, rb_count = 0\<rparr>"

definition rule_subscribe :: "int \<Rightarrow> string \<Rightarrow> int \<Rightarrow> rule_subscriber \<Rightarrow> mqtt_world \<Rightarrow> bool \<times> mqtt_world" where
  "rule_subscribe rc topic qos s w =
     (case rb_adapter s of
        None \<Rightarrow> (False, w)
      | Some c \<Rightarrow> if \<not> mc_connected c then (False, w) else adapter_subscribe rc topic qos c w)"

text \<open>What the subscription answered is not looked at.\<close>

definition rule_subscriber_initialize ::
  "int \<Rightarrow> int \<Rightarrow> int \<Rightarrow> rule_subscriber \<Rightarrow> mqtt_world \<Rightarrow> bool \<times> rule_subscriber \<times> mqtt_world" where
  "rule_subscriber_initialize r1 r2 r3 s w =
     (let w = drop_client (rb_adapter s) w;
          (ok, c, w) = adapter_connect r1 r2 (MqttClient_new (rb_ip s) (rb_port s)) w
      in if \<not> ok then (False, s\<lparr>rb_adapter := Some c\<rparr>, w)
         else
           let s = s\<lparr>rb_adapter := Some (SetMessageCallback c)\<rparr>;
               w = (if rb_topic s \<noteq> [] then snd (rule_subscribe r3 (rb_topic s) 1 s w) else w)
           in (True, s, w))"

definition rule_subscriber_shutdown :: "rule_subscriber \<Rightarrow> mqtt_world \<Rightarrow> rule_subscriber \<times> mqtt_world" where
  "rule_subscriber_shutdown s w =
     (case rb_adapter s of
        Some c \<Rightarrow> (let (c, w) = adapter_disconnect c w in (s\<lparr>rb_adapter := None\<rparr>, drop_client (Some c) w))
      | None \<Rightarrow> (s, w))"

text \<open>A message of the library: what the handler is called with, when there is one, and the subscriber.\<close>

definition rule_message :: "string \<Rightarrow> int \<Rightarrow> string \<Rightarrow> rule_subscriber \<Rightarrow> (string \<times> string) option \<times> rule_subscriber" where
  "rule_message name len payload s =
     (case rb_adapter s of
        None \<Rightarrow> (None, s)
      | Some c \<Rightarrow>
          (case OnMessageArrived name len payload c of
             (None, c) \<Rightarrow> (None, s\<lparr>rb_adapter := Some c\<rparr>)
           | (Some m, c) \<Rightarrow>
               (if rb_handler s then Some m else None, s\<lparr>rb_adapter := Some c, rb_count := rb_count s + 1\<rparr>)))"

section \<open>Scenes and their log\<close>

definition newline :: char where
  "newline = CHR 0x0A"

definition appendScenePayloadJsonl :: "bool \<Rightarrow> string \<Rightarrow> string \<Rightarrow> string \<Rightarrow> string" where
  "appendScenePayloadJsonl opens path payload file =
     (if path = [] \<or> \<not> opens then file else file @ payload @ [newline])"

text \<open>Whether a payload gets to the log: None when an exception comes before.\<close>

definition scene_reaches_log :: "json_lib \<Rightarrow> string \<Rightarrow> bool option" where
  "scene_reaches_log L payload =
     (case jl_parse L (scene_text payload) of
        None \<Rightarrow> Some False
      | Some rt \<Rightarrow>
          (case jvalue get_str rt ''type'' [] of
             None \<Rightarrow> None
           | Some ty \<Rightarrow>
               if ty \<noteq> ''scene_update'' then Some False
               else map_option (\<lambda>metas. metas \<noteq> []) (adapt_scene_update L (scene_text payload))))"

text \<open>The answer of \<open>processScenePayload\<close>, the relay and the log.\<close>

definition processScenePayload ::
  "json_lib \<Rightarrow> (alert list \<Rightarrow> alert list) \<Rightarrow> ((u64 \<times> string) list \<Rightarrow> (u64 \<times> string) list) \<Rightarrow>
     app_config \<Rightarrow> (nat \<Rightarrow> relay_env) \<Rightarrow> bool \<Rightarrow> string \<Rightarrow> relay \<Rightarrow> string
     \<Rightarrow> (int set \<times> event_meta list) option option \<times> relay \<times> string" where
  "processScenePayload L sa se ac envs opens payload st file =
     (let (r, st) = process_scene_payload L sa se (ac_relay_path ac) envs payload st
      in (r, st, if scene_reaches_log L payload = Some True
                 then appendScenePayloadJsonl opens (ac_debug_jsonl ac) payload file else file))"

section \<open>The process\<close>

text \<open>How far \<open>main\<close> has come; the code it left with.\<close>

datatype main_phase = AtPublisher | AtSubscriber | AtRelay | Serving | Exited int

record rule_proc =
  pr_phase :: main_phase
  pr_relay :: relay
  pr_ready :: bool
  pr_pub :: rule_publisher
  pr_sub :: rule_subscriber
  pr_world :: mqtt_world
  pr_file :: string
  pr_lost :: nat

text \<open>
  The configuration part of \<open>main\<close>: the state before the first connection, or None when it has already
  left, with code 1 or with an exception of a conversion.
\<close>

definition main_config ::
  "json_lib \<Rightarrow> (string \<Rightarrow> string) \<Rightarrow> (string \<Rightarrow> string option) \<Rightarrow> (string \<Rightarrow> face_file) \<Rightarrow> string list
   \<Rightarrow> (app_config \<times> relay) option option" where
  "main_config L what files faces args =
     (if length args \<noteq> 2 then Some None
      else
        case load_app_config L what (args ! 1) (files (args ! 1)) of
          None \<Rightarrow> None
        | Some (Inl _) \<Rightarrow> Some None
        | Some (Inr ac) \<Rightarrow>
            (case load_rules_json L (files (ac_rules_path ac)) of
               None \<Rightarrow> None
             | Some ec \<Rightarrow>
                 if ec_rules ec = [] then Some None
                 else Some (Some (ac,
                   \<lparr>rl_engine = engine_new faces (ec_rules ec) (ec_alerts ec), rl_fd = - 1, rl_out = [], rl_os = []\<rparr>))))"

definition proc_new :: "app_config \<Rightarrow> relay \<Rightarrow> string \<Rightarrow> rule_proc" where
  "proc_new ac rl file =
     \<lparr>pr_phase = AtPublisher, pr_relay = rl, pr_ready = False,
      pr_pub = rule_publisher_new (ac_broker ac) (ac_port ac) (ac_done_topic ac),
      pr_sub = rule_subscriber_new (ac_broker ac) (ac_port ac) (ac_scene_topic ac),
      pr_world = world_new, pr_file = file, pr_lost = 0\<rparr>"

text \<open>Leaving \<open>main\<close> runs the destructors, the subscriber's first.\<close>

definition leave_main :: "int \<Rightarrow> rule_proc \<Rightarrow> rule_proc" where
  "leave_main code x =
     (let (s, w) = rule_subscriber_shutdown (pr_sub x) (pr_world x);
          (p, w) = rule_publisher_shutdown (pr_pub x) w
      in x\<lparr>pr_sub := s, pr_pub := p, pr_world := w, pr_phase := Exited code\<rparr>)"

definition start_publisher :: "int \<Rightarrow> int \<Rightarrow> rule_proc \<Rightarrow> rule_proc" where
  "start_publisher r1 r2 x =
     (let (ok, p, w) = rule_publisher_initialize r1 r2 (pr_pub x) (pr_world x);
          x = x\<lparr>pr_pub := p, pr_world := w\<rparr>
      in if ok then x\<lparr>pr_phase := AtSubscriber\<rparr> else leave_main 1 x)"

definition start_subscriber :: "int \<Rightarrow> int \<Rightarrow> int \<Rightarrow> rule_proc \<Rightarrow> rule_proc" where
  "start_subscriber r1 r2 r3 x =
     (let (ok, s, w) = rule_subscriber_initialize r1 r2 r3 ((pr_sub x)\<lparr>rb_handler := True\<rparr>) (pr_world x);
          x = x\<lparr>pr_sub := s, pr_world := w\<rparr>
      in if ok then x\<lparr>pr_phase := AtRelay\<rparr>
         else
           let (p, w) = rule_publisher_shutdown (pr_pub x) (pr_world x)
           in leave_main 1 (x\<lparr>pr_pub := p, pr_world := w\<rparr>))"

definition start_relay :: "app_config \<Rightarrow> int \<Rightarrow> (string \<Rightarrow> int) \<Rightarrow> rule_proc \<Rightarrow> rule_proc" where
  "start_relay ac sock conn x =
     (case connect_uds conn sock (ac_relay_path ac) of
        (None, evs) \<Rightarrow>
          (let x = x\<lparr>pr_relay := (pr_relay x)\<lparr>rl_os := rl_os (pr_relay x) @ evs\<rparr>\<rparr>;
               (s, w) = rule_subscriber_shutdown (pr_sub x) (pr_world x);
               (p, w) = rule_publisher_shutdown (pr_pub x) w
           in leave_main 1 (x\<lparr>pr_sub := s, pr_pub := p, pr_world := w\<rparr>))
      | (Some fd, evs) \<Rightarrow>
          x\<lparr>pr_relay := (pr_relay x)\<lparr>rl_fd := fd, rl_os := rl_os (pr_relay x) @ evs\<rparr>, pr_ready := True,
            pr_phase := Serving\<rparr>)"

text \<open>
  The handler of scenes: the relay, then the message that gives the other slots back. The flag a
  source looks at is that of the process.
\<close>

definition handle_scene ::
  "json_lib \<Rightarrow> (alert list \<Rightarrow> alert list) \<Rightarrow> ((u64 \<times> string) list \<Rightarrow> (u64 \<times> string) list) \<Rightarrow> app_config
   \<Rightarrow> (nat \<Rightarrow> relay_env) \<Rightarrow> bool \<Rightarrow> int \<Rightarrow> string \<Rightarrow> rule_proc \<Rightarrow> rule_proc" where
  "handle_scene L sa se ac envs opens rc payload x =
     (case processScenePayload L sa se ac (\<lambda>i. (envs i)\<lparr>rv_ready := Some (pr_ready x)\<rparr>) opens payload (pr_relay x) (pr_file x) of
        (r, rl, file) \<Rightarrow>
          let x = x\<lparr>pr_relay := rl, pr_file := file\<rparr>
          in case r of
               Some (Some (vqa, metas)) \<Rightarrow>
                 (let (_, p, w) = publishFrame L rc (frame_done_json (release_entries vqa metas)) (pr_pub x) (pr_world x)
                  in x\<lparr>pr_pub := p, pr_world := w\<rparr>)
             | _ \<Rightarrow> x)"

datatype proc_op =
    Advance int int int int "string \<Rightarrow> int"
  | Message string int string "nat \<Rightarrow> relay_env" bool int
  | PublisherLost
  | SubscriberLost

text \<open>
  One step: \<open>main\<close> goes on with what the library and the system answer, a message arrives, or a connection
  is lost. A message is handled as a whole. After the exit nothing happens.
\<close>

definition main_step :: "app_config \<Rightarrow> int \<Rightarrow> int \<Rightarrow> int \<Rightarrow> int \<Rightarrow> (string \<Rightarrow> int) \<Rightarrow> rule_proc \<Rightarrow> rule_proc" where
  "main_step ac r1 r2 r3 sock conn x =
     (case pr_phase x of
        AtPublisher \<Rightarrow> start_publisher r1 r2 x
      | AtSubscriber \<Rightarrow> start_subscriber r1 r2 r3 x
      | AtRelay \<Rightarrow> start_relay ac sock conn x
      | Serving \<Rightarrow> x
      | Exited _ \<Rightarrow> x)"

fun proc_step ::
  "json_lib \<Rightarrow> (alert list \<Rightarrow> alert list) \<Rightarrow> ((u64 \<times> string) list \<Rightarrow> (u64 \<times> string) list) \<Rightarrow> app_config
   \<Rightarrow> rule_proc \<Rightarrow> proc_op \<Rightarrow> rule_proc" where
  "proc_step L sa se ac x (Advance r1 r2 r3 sock conn) = main_step ac r1 r2 r3 sock conn x"
| "proc_step L sa se ac x (Message name len payload envs opens rc) =
     (case rule_message name len payload (pr_sub x) of
        (None, s) \<Rightarrow> x\<lparr>pr_sub := s\<rparr>
      | (Some (_, t), s) \<Rightarrow> handle_scene L sa se ac envs opens rc t (x\<lparr>pr_sub := s\<rparr>))"
| "proc_step L sa se ac x PublisherLost =
     (let (oc, k) = lose (rp_adapter (pr_pub x))
      in x\<lparr>pr_pub := (pr_pub x)\<lparr>rp_adapter := oc\<rparr>, pr_lost := pr_lost x + k\<rparr>)"
| "proc_step L sa se ac x SubscriberLost =
     (let (oc, k) = lose (rb_adapter (pr_sub x))
      in x\<lparr>pr_sub := (pr_sub x)\<lparr>rb_adapter := oc\<rparr>, pr_lost := pr_lost x + k\<rparr>)"

section \<open>The build without MQTT\<close>

text \<open>A line of the input, what is left of it, and whether its end was hit; None at the end.\<close>

definition next_line :: "string \<Rightarrow> bool \<Rightarrow> (string \<times> string \<times> bool) option" where
  "next_line t at_end =
     (if at_end \<or> t = [] then None
      else
        let l = takeWhile (\<lambda>c. c \<noteq> newline) t; r = dropWhile (\<lambda>c. c \<noteq> newline) t
        in Some (l, tl r, r = []))"

text \<open>
  What is unread, whether the end was hit, and the relay. With a file as the input the file is the
  log too, so that what is appended is unread text; from the standard input nothing is logged.
\<close>

record fallback =
  fb_rest :: string
  fb_end :: bool
  fb_relay :: relay

datatype fallback_turn = Reading fallback | Finished relay | Threw

definition fallback_step ::
  "json_lib \<Rightarrow> (alert list \<Rightarrow> alert list) \<Rightarrow> ((u64 \<times> string) list \<Rightarrow> (u64 \<times> string) list) \<Rightarrow> app_config
   \<Rightarrow> (nat \<Rightarrow> relay_env) \<Rightarrow> bool \<Rightarrow> fallback \<Rightarrow> fallback_turn" where
  "fallback_step L sa se ac envs opens f =
     (case next_line (fb_rest f) (fb_end f) of
        None \<Rightarrow>
          (let rl = fb_relay f
           in Finished (if 0 \<le> rl_fd rl then rl\<lparr>rl_os := rl_os rl @ [Close (rl_fd rl)]\<rparr> else rl))
      | Some (line, rest, e) \<Rightarrow>
          if line = [] then Reading (f\<lparr>fb_rest := rest, fb_end := e\<rparr>)
          else
            case processScenePayload L sa se ac (\<lambda>i. (envs i)\<lparr>rv_ready := None\<rparr>) opens line (fb_relay f) rest of
              (None, _) \<Rightarrow> Threw
            | (Some _, rl, rest) \<Rightarrow> Reading \<lparr>fb_rest = rest, fb_end = e, fb_relay = rl\<rparr>)"

text \<open>The answers of the system differ from turn to turn.\<close>

fun fallback_run ::
  "json_lib \<Rightarrow> (alert list \<Rightarrow> alert list) \<Rightarrow> ((u64 \<times> string) list \<Rightarrow> (u64 \<times> string) list) \<Rightarrow> app_config
   \<Rightarrow> (nat \<Rightarrow> nat \<Rightarrow> relay_env) \<Rightarrow> (nat \<Rightarrow> bool) \<Rightarrow> nat \<Rightarrow> fallback \<Rightarrow> fallback_turn" where
  "fallback_run L sa se ac envs opens 0 f = Reading f"
| "fallback_run L sa se ac envs opens (Suc n) f =
     (case fallback_step L sa se ac (envs n) (opens n) f of
        Reading f \<Rightarrow> fallback_run L sa se ac envs opens n f
      | r \<Rightarrow> r)"

text \<open>Its start: the relay connection, then the input; None is exit code 1.\<close>

definition fallback_start ::
  "app_config \<Rightarrow> int \<Rightarrow> (string \<Rightarrow> int) \<Rightarrow> string option \<Rightarrow> string \<Rightarrow> relay \<Rightarrow> fallback option \<times> relay" where
  "fallback_start ac sock conn file input rl =
     (case connect_uds conn sock (ac_relay_path ac) of
        (None, evs) \<Rightarrow> (None, rl\<lparr>rl_os := rl_os rl @ evs\<rparr>)
      | (Some fd, evs) \<Rightarrow>
          (let rl = rl\<lparr>rl_fd := fd, rl_os := rl_os rl @ evs\<rparr>
           in if ac_debug_jsonl ac = [] then (Some \<lparr>fb_rest = input, fb_end = False, fb_relay = rl\<rparr>, rl)
              else
                case file of
                  None \<Rightarrow> (None, rl\<lparr>rl_os := rl_os rl @ [Close fd]\<rparr>)
                | Some t \<Rightarrow> (Some \<lparr>fb_rest = t, fb_end = False, fb_relay = rl\<rparr>, rl)))"

section \<open>Before the main thread is ready\<close>

text \<open>What the relay has opened, closed and sent so far.\<close>

definition untouched :: "relay \<Rightarrow> relay \<Rightarrow> bool" where
  "untouched st st' = (rl_fd st' = rl_fd st \<and> rl_out st' = rl_out st \<and> rl_os st' = rl_os st)"

lemma relay_meta_waits:
  assumes "rl_fd st < 0" "rv_ready env = Some False"
  shows "untouched st (snd (relay_meta L sa se path env meta st))"
  using assms
  by (auto simp: relay_meta_def ensure_relay_def untouched_def Let_def split: prod.splits)

lemma relay_loop_waits:
  assumes "rl_fd st < 0" "\<And>i. rv_ready (envs i) = Some False"
  shows "untouched st (snd (relay_loop L sa se path envs k metas vqa st))"
  using assms
proof (induction metas arbitrary: k vqa st)
  case (Cons meta metas)
  obtain r st1 where rm: "relay_meta L sa se path (envs k) meta st = (r, st1)" by fastforce
  have u: "untouched st st1"
    using relay_meta_waits [OF Cons.prems(1) Cons.prems(2) [of k], of L sa se path meta] rm by simp
  show ?case
  proof (cases r)
    case (Some sent)
    have "rl_fd st1 < 0" using u Cons.prems(1) by (simp add: untouched_def)
    from Cons.IH [OF this Cons.prems(2), of "Suc k" "if sent then insert (ev_source_num meta) vqa else vqa"]
    show ?thesis using u rm Some by (simp add: untouched_def)
  qed (use u rm in simp)
qed (simp add: untouched_def)

lemma scene_waits:
  assumes "rl_fd st < 0" "\<And>i. rv_ready (envs i) = Some False"
  shows "untouched st (snd (process_scene_payload L sa se path envs payload st))"
proof -
  have id: "untouched st st" by (simp add: untouched_def)
  have loop: "untouched st st'" if "relay_loop L sa se path envs 0 metas {} st = (r, st')" for metas r st'
    using relay_loop_waits [where envs = envs and st = st, OF assms, where L = L and sa = sa and se = se and path = path and k = 0
        and metas = metas and vqa = "{}"] that by simp
  show ?thesis
    unfolding process_scene_payload_def by (simp add: id split: option.split prod.split) (blast intro: loop)
qed

section \<open>Handles and phases\<close>

lemma adapter_connect_is: "adapter_connect r1 r2 c w = (let (e, x) = Connect (\<lambda>_. []) r1 r2 c w in (e = None, x))"
  by (simp add: adapter_connect_def Connect_def Let_def split: prod.split)

lemma adapter_connect_books:
  assumes "books cs w n" "\<not> mc_connected c" "adapter_connect r1 r2 c w = (ok, c', w')"
  shows "books (c' # cs) w' n" "mc_connected c' \<longleftrightarrow> ok"
  using books_connect [OF assms(1,2), of "\<lambda>_. []" r1 r2] assms(3)
  by (auto simp: adapter_connect_is Let_def split: prod.splits)

definition proc_books :: "rule_proc \<Rightarrow> bool" where
  "proc_books x =
     books (client_list (rp_adapter (pr_pub x)) @ client_list (rb_adapter (pr_sub x))) (pr_world x) (pr_lost x)"

lemma proc_books_sub:
  "proc_books x \<longleftrightarrow>
   books (client_list (rb_adapter (pr_sub x)) @ client_list (rp_adapter (pr_pub x))) (pr_world x) (pr_lost x)"
  unfolding proc_books_def by (rule books_rotate)

lemma shutdown_books:
  assumes "books (client_list (rp_adapter p) @ cs) w n" "rule_publisher_shutdown p w = (p', w')"
  shows "books cs w' n" "rp_adapter p' = None"
  using assms books_shutdown [OF assms(1)]
  by (auto simp: rule_publisher_shutdown_def adapter_disconnect_def Let_def split: option.splits prod.splits)

lemma sub_shutdown_books:
  assumes "books (client_list (rb_adapter s) @ cs) w n" "rule_subscriber_shutdown s w = (s', w')"
  shows "books cs w' n" "rb_adapter s' = None"
  using assms books_shutdown [OF assms(1)]
  by (auto simp: rule_subscriber_shutdown_def adapter_disconnect_def Let_def split: option.splits prod.splits)

lemma leave_main_sound:
  assumes "proc_books x"
  shows "proc_books (leave_main k x)" "rp_adapter (pr_pub (leave_main k x)) = None"
    "rb_adapter (pr_sub (leave_main k x)) = None" "pr_phase (leave_main k x) = Exited k"
    "pr_relay (leave_main k x) = pr_relay x" "pr_ready (leave_main k x) = pr_ready x"
proof -
  obtain s w where s: "rule_subscriber_shutdown (pr_sub x) (pr_world x) = (s, w)" by fastforce
  obtain p v where p: "rule_publisher_shutdown (pr_pub x) w = (p, v)" by fastforce
  note b1 = sub_shutdown_books [OF assms [unfolded proc_books_sub] s]
  have "books (client_list (rp_adapter (pr_pub x)) @ []) w (pr_lost x)" using b1(1) by simp
  note b2 = shutdown_books [OF this p]
  show "proc_books (leave_main k x)" "rp_adapter (pr_pub (leave_main k x)) = None"
    "rb_adapter (pr_sub (leave_main k x)) = None" "pr_phase (leave_main k x) = Exited k"
    "pr_relay (leave_main k x) = pr_relay x" "pr_ready (leave_main k x) = pr_ready x"
    using s p b1 b2 by (simp_all add: leave_main_def proc_books_def)
qed

lemma publisher_initialize_books:
  assumes "books (client_list (rp_adapter p) @ cs) w n" "rule_publisher_initialize r1 r2 p w = (ok, p', w')"
  shows "books (client_list (rp_adapter p') @ cs) w' n"
proof -
  obtain ok1 c w1 where con: "adapter_connect r1 r2 (MqttClient_new (rp_ip p) (rp_port p)) (drop_client (rp_adapter p) w) = (ok1, c, w1)"
    by (metis prod_cases3)
  have "books (c # cs) w1 n"
    by (rule adapter_connect_books(1) [OF books_drop_client [OF assms(1)] client_new_idle con])
  then show ?thesis using assms(2) con by (auto simp: rule_publisher_initialize_def)
qed

lemma rule_subscribe_books:
  assumes "books (c # cs) w n" "rb_adapter s = Some c"
  shows "books (c # cs) (snd (rule_subscribe r t q s w)) n"
  using assms books_use [OF assms(1)] by (simp add: rule_subscribe_def adapter_subscribe_def)

lemma subscriber_initialize_books:
  assumes "books (client_list (rb_adapter s) @ cs) w n" "rule_subscriber_initialize r1 r2 r3 s w = (ok, s', w')"
  shows "books (client_list (rb_adapter s') @ cs) w' n"
proof -
  obtain ok1 c w1 where con: "adapter_connect r1 r2 (MqttClient_new (rb_ip s) (rb_port s)) (drop_client (rb_adapter s) w) = (ok1, c, w1)"
    by (metis prod_cases3)
  have b: "books (c # cs) w1 n"
    by (rule adapter_connect_books(1) [OF books_drop_client [OF assms(1)] client_new_idle con])
  then have b': "books (SetMessageCallback c # cs) w1 n" by (simp add: books_callback)
  have "books (SetMessageCallback c # cs)
      (snd (rule_subscribe r3 t 1 (s\<lparr>rb_adapter := Some (SetMessageCallback c)\<rparr>) w1)) n" for t
    using b' by (rule rule_subscribe_books) simp
  then show ?thesis using assms(2) con b b'
    by (auto simp: rule_subscriber_initialize_def Let_def split: if_splits)
qed

lemma publishFrame_books:
  assumes "books (client_list (rp_adapter p) @ cs) w n" "publishFrame L r j p w = (ok, p', w')"
  shows "books (client_list (rp_adapter p') @ cs) w' n"
proof (cases "rp_adapter p")
  case (Some c)
  then have b: "books (c # cs) w n" using assms(1) by simp
  have counted: "books (c\<lparr>mc_published := k\<rparr> # cs) v n \<longleftrightarrow> books (c # cs) v n" for k v
    by (simp add: books_def)
  show ?thesis
    using b books_use [OF b] assms(2) Some
    by (auto simp: publishFrame_def adapter_publish_def Let_def counted split: if_splits option.splits)
qed (use assms in \<open>simp add: publishFrame_def\<close>)

lemma rule_message_books:
  assumes "books (client_list (rb_adapter s) @ cs) w n" "rule_message name len t s = (m, s')"
  shows "books (client_list (rb_adapter s') @ cs) w n"
  using assms by (auto simp: rule_message_def OnMessageArrived_def books_def split: option.splits if_splits)

section \<open>The invariant of the process\<close>

definition proc_inv :: "rule_proc \<Rightarrow> bool" where
  "proc_inv x =
     (proc_books x \<and> pr_ready x = (pr_phase x = Serving)
      \<and> (pr_phase x = Serving \<or> rl_fd (pr_relay x) = - 1 \<and> rl_out (pr_relay x) = [])
      \<and> (case pr_phase x of
           Exited k \<Rightarrow> k = 1 \<and> rp_adapter (pr_pub x) = None \<and> rb_adapter (pr_sub x) = None
         | _ \<Rightarrow> True))"

lemma leave_main_inv:
  assumes "proc_books x" "\<not> pr_ready x" "rl_fd (pr_relay x) = - 1" "rl_out (pr_relay x) = []"
  shows "proc_inv (leave_main 1 x)"
  using leave_main_sound [OF assms(1)] assms by (simp add: proc_inv_def)

lemma start_publisher_inv:
  assumes "proc_inv x" "pr_phase x = AtPublisher"
  shows "proc_inv (start_publisher r1 r2 x)"
proof -
  obtain ok p w where i: "rule_publisher_initialize r1 r2 (pr_pub x) (pr_world x) = (ok, p, w)"
    by (metis prod_cases3)
  have b: "proc_books x" using assms(1) by (simp add: proc_inv_def)
  let ?x = "x\<lparr>pr_pub := p, pr_world := w\<rparr>"
  have b': "proc_books ?x"
    using publisher_initialize_books [OF b [unfolded proc_books_def] i] by (simp add: proc_books_def)
  show ?thesis
  proof (cases ok)
    case True
    then show ?thesis using assms i b' by (simp add: start_publisher_def proc_inv_def proc_books_def)
  next
    case False
    then have "start_publisher r1 r2 x = leave_main 1 ?x" using i by (simp add: start_publisher_def)
    then show ?thesis using leave_main_inv [OF b'] assms by (simp add: proc_inv_def)
  qed
qed

lemma publisher_shutdown_proc:
  assumes "proc_books x" "rule_publisher_shutdown (pr_pub x) (pr_world x) = (p, w)"
  shows "proc_books (x\<lparr>pr_pub := p, pr_world := w\<rparr>)"
  using shutdown_books [OF assms(1) [unfolded proc_books_def] assms(2)] by (simp add: proc_books_def)

lemma subscriber_shutdown_proc:
  assumes "proc_books x" "rule_subscriber_shutdown (pr_sub x) (pr_world x) = (s, w)"
  shows "proc_books (x\<lparr>pr_sub := s, pr_world := w\<rparr>)"
  using sub_shutdown_books [OF assms(1) [unfolded proc_books_sub] assms(2)] by (simp add: proc_books_def)

lemma start_subscriber_inv:
  assumes "proc_inv x" "pr_phase x = AtSubscriber"
  shows "proc_inv (start_subscriber r1 r2 r3 x)"
proof -
  obtain ok s w where i: "rule_subscriber_initialize r1 r2 r3 ((pr_sub x)\<lparr>rb_handler := True\<rparr>) (pr_world x) = (ok, s, w)"
    by (metis prod_cases3)
  let ?x = "x\<lparr>pr_sub := s, pr_world := w\<rparr>"
  obtain p v where p: "rule_publisher_shutdown (pr_pub ?x) (pr_world ?x) = (p, v)" by fastforce
  have "books (client_list (rb_adapter ((pr_sub x)\<lparr>rb_handler := True\<rparr>)) @ client_list (rp_adapter (pr_pub x)))
      (pr_world x) (pr_lost x)"
    using assms(1) by (simp add: proc_inv_def proc_books_sub)
  then have b: "proc_books ?x" using subscriber_initialize_books [OF _ i] by (simp add: proc_books_sub)
  have b': "proc_books (?x\<lparr>pr_pub := p, pr_world := v\<rparr>)" by (rule publisher_shutdown_proc [OF b p])
  show ?thesis
  proof (cases ok)
    case True
    then show ?thesis using assms i b by (simp add: start_subscriber_def proc_inv_def proc_books_def)
  next
    case False
    then have "start_subscriber r1 r2 r3 x = leave_main 1 (?x\<lparr>pr_pub := p, pr_world := v\<rparr>)"
      using i p by (simp add: start_subscriber_def)
    then show ?thesis using leave_main_inv [OF b'] assms by (simp add: proc_inv_def)
  qed
qed

lemma connect_uds_fd: "connect_uds conn sock path = (Some fd, evs) \<Longrightarrow> fd = sock \<and> 0 \<le> fd \<and> evs = []"
  by (auto simp: connect_uds_def split: if_splits)

lemma start_relay_inv:
  assumes "proc_inv x" "pr_phase x = AtRelay"
  shows "proc_inv (start_relay ac sock conn x)"
proof (cases "connect_uds conn sock (ac_relay_path ac)")
  case (Pair r evs)
  let ?x = "x\<lparr>pr_relay := (pr_relay x)\<lparr>rl_os := rl_os (pr_relay x) @ evs\<rparr>\<rparr>"
  have b: "proc_books ?x" using assms(1) by (simp add: proc_inv_def proc_books_def)
  obtain s w where s: "rule_subscriber_shutdown (pr_sub ?x) (pr_world ?x) = (s, w)" by fastforce
  let ?y = "?x\<lparr>pr_sub := s, pr_world := w\<rparr>"
  have b2: "proc_books ?y" by (rule subscriber_shutdown_proc [OF b s])
  obtain p v where p: "rule_publisher_shutdown (pr_pub ?y) (pr_world ?y) = (p, v)" by fastforce
  have b3: "proc_books (?y\<lparr>pr_pub := p, pr_world := v\<rparr>)" by (rule publisher_shutdown_proc [OF b2 p])
  show ?thesis
  proof (cases r)
    case None
    then have "start_relay ac sock conn x = leave_main 1 (?y\<lparr>pr_pub := p, pr_world := v\<rparr>)"
      using Pair s p by (simp add: start_relay_def)
    then show ?thesis using leave_main_inv [OF b3] assms by (simp add: proc_inv_def)
  next
    case (Some fd)
    then show ?thesis using assms Pair by (auto simp: start_relay_def proc_inv_def proc_books_def)
  qed
qed

lemma main_step_inv: "proc_inv x \<Longrightarrow> proc_inv (main_step ac r1 r2 r3 sock conn x)"
  by (cases "pr_phase x") (simp_all add: main_step_def start_publisher_inv start_subscriber_inv start_relay_inv)

text \<open>What a message does to the books, and to the relay while the main thread is not ready.\<close>

lemma handle_scene_inv:
  assumes "proc_inv x" "\<And>k. pr_phase x \<noteq> Exited k"
  shows "proc_inv (handle_scene L sa se ac envs opens rc t x)"
proof -
  let ?E = "\<lambda>i. (envs i)\<lparr>rv_ready := Some (pr_ready x)\<rparr>"
  obtain r rl where r: "process_scene_payload L sa se (ac_relay_path ac) ?E t (pr_relay x) = (r, rl)" by fastforce
  obtain lg where f: "processScenePayload L sa se ac ?E opens t (pr_relay x) (pr_file x) = (r, rl, lg)"
    using r by (simp add: processScenePayload_def)
  let ?x = "x\<lparr>pr_relay := rl, pr_file := lg\<rparr>"
  have relay: "pr_phase x = Serving \<or> rl_fd rl = - 1 \<and> rl_out rl = []"
  proof (cases "pr_ready x")
    case False
    then have "rl_fd (pr_relay x) < 0" "rl_fd (pr_relay x) = - 1 \<and> rl_out (pr_relay x) = []"
      using assms(1) by (auto simp: proc_inv_def)
    moreover from this(1) have "untouched (pr_relay x) (snd (process_scene_payload L sa se (ac_relay_path ac) ?E t (pr_relay x)))"
      by (rule scene_waits) (simp add: False)
    ultimately show ?thesis using r by (simp add: untouched_def)
  qed (use assms(1) in \<open>simp add: proc_inv_def\<close>)
  have x: "proc_inv ?x" using assms(1) relay by (auto simp: proc_inv_def proc_books_def split: main_phase.splits)
  show ?thesis
  proof (cases "\<exists>vqa metas. r = Some (Some (vqa, metas))")
    case True
    then obtain vqa metas where m: "r = Some (Some (vqa, metas))" by blast
    obtain ok p w where p: "publishFrame L rc (frame_done_json (release_entries vqa metas)) (pr_pub ?x) (pr_world ?x) = (ok, p, w)"
      by (metis prod_cases3)
    have "proc_books ?x" using x by (simp add: proc_inv_def)
    from publishFrame_books [OF this [unfolded proc_books_def] p]
    have "proc_books (?x\<lparr>pr_pub := p, pr_world := w\<rparr>)" by (simp add: proc_books_def)
    then show ?thesis using x f m p assms(2) by (auto simp: handle_scene_def proc_inv_def split: main_phase.split)
  next
    case False
    then show ?thesis using x f by (auto simp: handle_scene_def Let_def split: option.split)
  qed
qed

lemma message_inv:
  assumes "proc_inv x"
  shows "proc_inv (proc_step L sa se ac x (Message name len t envs opens rc))"
proof -
  obtain m s where m: "rule_message name len t (pr_sub x) = (m, s)" by fastforce
  have "books (client_list (rb_adapter (pr_sub x)) @ client_list (rp_adapter (pr_pub x))) (pr_world x) (pr_lost x)"
    using assms by (simp add: proc_inv_def proc_books_sub)
  from rule_message_books [OF this m] have "proc_books (x\<lparr>pr_sub := s\<rparr>)" by (simp add: proc_books_sub)
  moreover have dead: "rb_adapter (pr_sub x) = None \<Longrightarrow> m = None \<and> rb_adapter s = None"
    using m by (simp add: rule_message_def)
  ultimately have x: "proc_inv (x\<lparr>pr_sub := s\<rparr>)"
    using assms by (auto simp: proc_inv_def split: main_phase.splits)
  show ?thesis
  proof (cases m)
    case (Some u)
    have "pr_phase (x\<lparr>pr_sub := s\<rparr>) \<noteq> Exited k" for k
      using assms dead Some by (auto simp: proc_inv_def)
    then show ?thesis using handle_scene_inv [OF x] m Some by (auto split: prod.split)
  qed (use x m in simp)
qed

lemma proc_step_inv: "proc_inv x \<Longrightarrow> proc_inv (proc_step L sa se ac x op)"
proof (cases op)
  case (Advance r1 r2 r3 sock conn)
  then show "proc_inv x \<Longrightarrow> ?thesis" by (simp add: main_step_inv)
next
  case (Message name len t envs opens rc)
  then show "proc_inv x \<Longrightarrow> ?thesis" by (simp only: message_inv)
next
  case PublisherLost
  assume x: "proc_inv x"
  obtain oc k where l: "lose (rp_adapter (pr_pub x)) = (oc, k)" by fastforce
  have "proc_books (x\<lparr>pr_pub := (pr_pub x)\<lparr>rp_adapter := oc\<rparr>, pr_lost := pr_lost x + k\<rparr>)"
    using x books_lose [OF _ l] by (simp add: proc_inv_def proc_books_def)
  moreover have "rp_adapter (pr_pub x) = None \<Longrightarrow> oc = None" using l by (simp add: lose_def)
  ultimately show ?thesis using x l PublisherLost by (auto simp: proc_inv_def split: main_phase.splits)
next
  case SubscriberLost
  assume x: "proc_inv x"
  obtain oc k where l: "lose (rb_adapter (pr_sub x)) = (oc, k)" by fastforce
  have "proc_books (x\<lparr>pr_sub := (pr_sub x)\<lparr>rb_adapter := oc\<rparr>, pr_lost := pr_lost x + k\<rparr>)"
    using x books_lose [OF _ l] by (simp add: proc_inv_def proc_books_sub)
  moreover have "rb_adapter (pr_sub x) = None \<Longrightarrow> oc = None" using l by (simp add: lose_def)
  ultimately show ?thesis using x l SubscriberLost by (auto simp: proc_inv_def split: main_phase.splits)
qed

interpretation rp_sys: step_system "proc_step L sa se ac" proc_inv
  for L sa se ac by unfold_locales (rule proc_step_inv)

lemma proc_new_inv: "rl_fd rl = - 1 \<Longrightarrow> rl_out rl = [] \<Longrightarrow> proc_inv (proc_new ac rl file)"
  by (simp add: proc_inv_def proc_books_def proc_new_def rule_publisher_new_def rule_subscriber_new_def books_new)

lemma main_config_relay:
  "main_config L what files faces args = Some (Some (ac, rl)) \<Longrightarrow> rl_fd rl = - 1 \<and> rl_out rl = []"
  by (auto simp: main_config_def split: if_splits option.splits sum.splits)


definition example_main_lib :: json_lib where
  "example_main_lib = example_scene_lib\<lparr>jl_parse := (\<lambda>s.
     if s = ''C'' then Some (JObj [(''mqtt'', JObj [(''broker_ip'', JStr ''b'')]), (''rules_config'', JStr ''R''),
         (''scene_debug_jsonl'', JStr ''L'')])
     else if s = ''R'' then Some (JObj [(''rules'', JArr [JObj [(''name'', JStr ''DoorCollisionRule''),
         (''priority'', JInt 1), (''target_sources'', JArr []), (''target_classes'', JArr [])]])])
     else jl_parse example_scene_lib s)\<rparr>"

definition example_ops :: "proc_op list" where
  "example_ops = replicate 3 (Advance 0 0 0 7 (\<lambda>_. 0)) @ [Message ''t'' 1 ''S'' example_relay_env True 0, PublisherLost]"


section \<open>The start, step by step\<close>

text \<open>The three steps of the start with what the library and the system answer.\<close>

definition run_main :: "app_config \<Rightarrow> int \<times> int \<Rightarrow> int \<times> int \<times> int \<Rightarrow> int \<Rightarrow> (string \<Rightarrow> int) \<Rightarrow> rule_proc \<Rightarrow> rule_proc" where
  "run_main ac pub sub sock conn x =
     main_step ac 0 0 0 sock conn
       (main_step ac (fst sub) (fst (snd sub)) (snd (snd sub)) 0 conn
         (main_step ac (fst pub) (snd pub) 0 0 conn x))"

lemma leave_main_phase [simp]: "pr_phase (leave_main k x) = Exited k"
  by (simp add: leave_main_def split: prod.split)

lemma publisher_initialize_ok: "fst (rule_publisher_initialize r1 r2 p w) \<longleftrightarrow> r1 = 0 \<and> r2 = 0"
  by (simp add: rule_publisher_initialize_def adapter_connect_def Let_def split: prod.split)

lemma subscriber_initialize_ok: "fst (rule_subscriber_initialize r1 r2 r3 s w) \<longleftrightarrow> r1 = 0 \<and> r2 = 0"
  by (simp add: rule_subscriber_initialize_def adapter_connect_def Let_def split: prod.split)

lemma start_publisher_phase:
  "pr_phase (start_publisher r1 r2 x) = (if r1 = 0 \<and> r2 = 0 then AtSubscriber else Exited 1)"
  using publisher_initialize_ok [of r1 r2 "pr_pub x" "pr_world x"]
  by (cases "rule_publisher_initialize r1 r2 (pr_pub x) (pr_world x)") (simp add: start_publisher_def Let_def)

lemma start_subscriber_phase:
  "pr_phase (start_subscriber r1 r2 r3 x) = (if r1 = 0 \<and> r2 = 0 then AtRelay else Exited 1)"
  using subscriber_initialize_ok [of r1 r2 r3 "(pr_sub x)\<lparr>rb_handler := True\<rparr>" "pr_world x"]
  by (cases "rule_subscriber_initialize r1 r2 r3 ((pr_sub x)\<lparr>rb_handler := True\<rparr>) (pr_world x)")
     (simp add: start_subscriber_def Let_def split: prod.split)

lemma start_relay_phase:
  "pr_phase (start_relay ac sock conn x) =
     (if 0 \<le> sock \<and> 0 \<le> conn (take 107 (ac_relay_path ac)) then Serving else Exited 1)"
  by (simp add: start_relay_def connect_uds_def split: prod.split)

text \<open>
  The start ends in the serving state exactly when both wrappers connect and the relay socket does, whatever
  the subscription answered; otherwise with exit code 1.
\<close>

lemma start_outcome:
  "pr_phase (run_main ac pub sub sock conn (proc_new ac rl t)) =
     (if pub = (0, 0) \<and> fst sub = 0 \<and> fst (snd sub) = 0 \<and> 0 \<le> sock \<and> 0 \<le> conn (take 107 (ac_relay_path ac))
      then Serving else Exited 1)"
  by (cases pub)
     (simp add: run_main_def main_step_def proc_new_def start_publisher_phase start_subscriber_phase start_relay_phase)

section \<open>After a lost connection\<close>

definition published :: "mqtt_world \<Rightarrow> (string \<times> string) list" where
  "published w = [(t, m). (h, CallPublish t n m q r) \<leftarrow> mw_calls w]"

definition mute :: "rule_proc \<Rightarrow> bool" where
  "mute x = (pr_phase x = Serving \<and> (case rp_adapter (pr_pub x) of Some c \<Rightarrow> \<not> mc_connected c | None \<Rightarrow> True))"

lemma mute_publish: "mute x \<Longrightarrow> publishFrame L rc j (pr_pub x) (pr_world x) = (Some False, pr_pub x, pr_world x)"
  by (cases "rp_adapter (pr_pub x)") (simp_all add: mute_def publishFrame_def)

lemma mute_scene:
  assumes "mute x"
  shows "mute (handle_scene L sa se ac envs opens rc t x)"
    "pr_world (handle_scene L sa se ac envs opens rc t x) = pr_world x"
  using assms mute_publish [OF assms]
  by (auto simp: handle_scene_def mute_def Let_def split: prod.splits option.splits)

lemma mute_step:
  assumes "mute x"
  shows "mute (proc_step L sa se ac x op) \<and> pr_world (proc_step L sa se ac x op) = pr_world x"
proof (cases op)
  case (Message name len t envs opens rc)
  have "mute (x\<lparr>pr_sub := s\<rparr>)" for s using assms by (simp add: mute_def)
  then show ?thesis using Message mute_scene by (auto split: prod.split option.split)
next
  case (Advance r1 r2 r3 sock conn)
  then show ?thesis using assms by (simp add: main_step_def mute_def)
qed (use assms in \<open>auto simp: mute_def lose_def OnConnectionLost_def split: option.splits\<close>)

interpretation rp_mute: step_system "proc_step L sa se ac" "\<lambda>x. mute x \<and> pr_world x = w"
  for L sa se ac w by unfold_locales (use mute_step in blast)

text \<open>
  Nothing connects again: once the publisher of a serving process has lost its connection, the process
  goes on serving, but not one more message is published, whatever arrives: the frames without an alert
  are no longer given back.
\<close>

theorem lost_publisher_stays_mute:
  assumes "pr_phase x = Serving"
  shows "let y = foldl (proc_step L sa se ac) (proc_step L sa se ac x PublisherLost) ops
    in pr_phase y = Serving \<and> published (pr_world y) = published (pr_world x)"
proof -
  let ?x = "proc_step L sa se ac x PublisherLost"
  have w: "pr_world ?x = pr_world x" by (simp add: split: prod.split)
  have "mute ?x"
    using assms by (auto simp: mute_def lose_def OnConnectionLost_def split: option.split)
  then have "mute (foldl (proc_step L sa se ac) ?x ops)
      \<and> pr_world (foldl (proc_step L sa se ac) ?x ops) = pr_world ?x"
    using rp_mute.run_inv [of ?x "pr_world ?x"] by blast
  then show ?thesis unfolding w by (simp add: mute_def Let_def)
qed

theorem lost_publisher_stays_mute_witness:
  "let x = run_main app_config_default (0, 0) (0, 0, 0) 7 (\<lambda>_. 0) (proc_new app_config_default example_relay []);
       y = foldl (proc_step example_scene_lib (sort_key al_priority) (sort_key fst) app_config_default)
             (proc_step example_scene_lib (sort_key al_priority) (sort_key fst) app_config_default x PublisherLost) example_ops
   in pr_phase x = Serving \<and> published (pr_world y) = published (pr_world x)"
proof -
  have x: "pr_phase (run_main app_config_default (0, 0) (0, 0, 0) 7 (\<lambda>_. 0) (proc_new app_config_default example_relay [])) = Serving"
    by (simp add: start_outcome)
  show ?thesis using x lost_publisher_stays_mute [OF x] by (simp add: Let_def)
qed

section \<open>The loop of the build without MQTT\<close>

definition lines_text :: "string list \<Rightarrow> string" where
  "lines_text ls = concat (map (\<lambda>l. l @ [newline]) ls)"

lemma lines_text_simps [simp]:
  "lines_text [] = []" "lines_text (l # ls) = l @ newline # lines_text ls"
  "lines_text ls @ l @ [newline] = lines_text (ls @ [l])"
  by (simp_all add: lines_text_def)

lemma next_line_text:
  assumes "newline \<notin> set l"
  shows "next_line (l @ newline # t) False = Some (l, t, False)"
proof -
  have "\<forall>c \<in> set l. c \<noteq> newline" using assms by blast
  then show ?thesis by (simp add: next_line_def takeWhile_append dropWhile_append dropWhile_eq_Nil_conv)
qed

lemma next_line_shorter: "next_line t e = Some (l, r, e') \<Longrightarrow> length r < length t"
proof -
  have "length (tl (dropWhile P t)) < length t" if "t \<noteq> []" for P
    using that length_dropWhile_le [of P t] by (cases t) (auto simp del: dropWhile.simps)
  then show "next_line t e = Some (l, r, e') \<Longrightarrow> length r < length t"
    by (auto simp: next_line_def Let_def split: if_splits)
qed

text \<open>When printing never throws, a payload whose way to the log is clear has an answer.\<close>

lemma scene_answers:
  assumes "\<forall>j. jl_dump L j \<noteq> None" "scene_reaches_log L t \<noteq> None"
  shows "fst (process_scene_payload L sa se path envs t st) \<noteq> None"
proof -
  have loop: "relay_loop L sa se path envs 0 metas {} st \<noteq> (None, st')" for metas st'
    using relay_loop_total [OF assms(1), of sa se path envs 0 metas "{}" st] by auto
  show ?thesis
    using assms(2) unfolding process_scene_payload_def scene_reaches_log_def
    by (simp add: loop split: option.split_asm option.split prod.split if_split_asm)
qed

text \<open>A file whose unread lines still hold a scene.\<close>

definition scene_ahead :: "json_lib \<Rightarrow> fallback \<Rightarrow> bool" where
  "scene_ahead L f =
     (\<not> fb_end f \<and> (\<exists>ls. fb_rest f = lines_text ls
        \<and> (\<forall>l \<in> set ls. newline \<notin> set l \<and> scene_reaches_log L l \<noteq> None)
        \<and> (\<exists>l \<in> set ls. l \<noteq> [] \<and> scene_reaches_log L l = Some True)))"

lemma fallback_step_ahead:
  assumes "\<forall>j. jl_dump L j \<noteq> None" "ac_debug_jsonl ac \<noteq> []" "scene_ahead L f"
  shows "\<exists>f'. fallback_step L sa se ac envs True f = Reading f' \<and> scene_ahead L f'"
proof -
  obtain ls where ls: "fb_rest f = lines_text ls" "\<not> fb_end f"
    "\<forall>l \<in> set ls. newline \<notin> set l \<and> scene_reaches_log L l \<noteq> None"
    "\<exists>l \<in> set ls. l \<noteq> [] \<and> scene_reaches_log L l = Some True"
    using assms(3) by (auto simp: scene_ahead_def)
  obtain l rest where l: "ls = l # rest" using ls(4) by (cases ls) auto
  have nl: "next_line (fb_rest f) (fb_end f) = Some (l, lines_text rest, False)"
    using ls l next_line_text by simp
  show ?thesis
  proof (cases "l = []")
    case True
    then show ?thesis
      using nl ls l by (auto simp: fallback_step_def scene_ahead_def)
  next
    case False
    let ?E = "\<lambda>i. (envs i)\<lparr>rv_ready := None\<rparr>"
    obtain r rl where r: "process_scene_payload L sa se (ac_relay_path ac) ?E l (fb_relay f) = (Some r, rl)"
      using scene_answers [OF assms(1), of l sa se "ac_relay_path ac" ?E "fb_relay f"] ls(3) l
      by (cases "process_scene_payload L sa se (ac_relay_path ac) ?E l (fb_relay f)") auto
    let ?ls = "if scene_reaches_log L l = Some True then rest @ [l] else rest"
    have "fallback_step L sa se ac envs True f = Reading \<lparr>fb_rest = lines_text ?ls, fb_end = False, fb_relay = rl\<rparr>"
      using nl False r assms(2) by (simp add: fallback_step_def processScenePayload_def appendScenePayloadJsonl_def)
    moreover have "scene_ahead L \<lparr>fb_rest = lines_text ?ls, fb_end = False, fb_relay = rl\<rparr>"
      using ls l False by (auto simp: scene_ahead_def intro!: exI [of _ ?ls])
    ultimately show ?thesis by blast
  qed
qed

text \<open>
  In the build without MQTT, reading scenes from the debug log appends every scene to that log again:
  when the file ends with a line end and holds one scene, the loop never gets to its end, however many turns it runs.
\<close>

theorem fallback_never_ends:
  assumes "\<forall>j. jl_dump L j \<noteq> None" "ac_debug_jsonl ac \<noteq> []" "\<forall>i. opens i" "scene_ahead L f"
  shows "\<exists>f'. fallback_run L sa se ac envs opens n f = Reading f' \<and> fb_rest f' \<noteq> []"
proof -
  have "\<exists>f'. fallback_run L sa se ac envs opens n f = Reading f' \<and> scene_ahead L f'"
    using assms(4)
  proof (induction n arbitrary: f)
    case (Suc n)
    obtain f1 where "fallback_step L sa se ac (envs n) (opens n) f = Reading f1" "scene_ahead L f1"
      using fallback_step_ahead [OF assms(1,2) Suc.prems] assms(3) by metis
    then show ?case using Suc.IH [of f1] by simp
  qed simp
  moreover have "scene_ahead L g \<Longrightarrow> fb_rest g \<noteq> []" for g
    by (auto simp: scene_ahead_def lines_text_def)
  ultimately show ?thesis by blast
qed

theorem fallback_never_ends_witness:
  "\<exists>f'. fallback_run example_scene_lib (sort_key al_priority) (sort_key fst) (app_config_default\<lparr>ac_debug_jsonl := ''L''\<rparr>)
     (\<lambda>_. example_relay_env) (\<lambda>_. True) 1000 \<lparr>fb_rest = ''S'' @ [newline], fb_end = False, fb_relay = example_relay\<rparr> = Reading f'"
proof -
  have dump: "\<forall>j. jl_dump example_scene_lib j \<noteq> None" by (simp add: example_scene_lib_def example_lib_def)
  have "scene_reaches_log example_scene_lib ''S'' = Some True \<and> newline \<notin> set ''S''" by code_simp
  then have "scene_ahead example_scene_lib \<lparr>fb_rest = ''S'' @ [newline], fb_end = False, fb_relay = example_relay\<rparr>"
    by (auto simp: scene_ahead_def intro!: exI [of _ "[''S'']"])
  from fallback_never_ends [where opens = "\<lambda>_. True" and ac = "app_config_default\<lparr>ac_debug_jsonl := ''L''\<rparr>"
      and envs = "\<lambda>_. example_relay_env" and n = 1000, OF dump _ _ this]
  show ?thesis by (simp del: fallback_run.simps) blast
qed

text \<open>
  From the standard input the loop ends: after at most one turn more than there are characters the
  input is finished, or an exception has ended the process.
\<close>

theorem stdin_loop_ends:
  assumes "ac_debug_jsonl ac = []"
  shows "\<nexists>f'. fallback_run L sa se ac envs opens (Suc (length (fb_rest f))) f = Reading f'"
proof -
  have ends: "\<nexists>f'. fallback_run L sa se ac envs opens n f = Reading f'" if "length (fb_rest f) < n" for n
    using that
  proof (induction n arbitrary: f)
    case (Suc n)
    show ?case
    proof (cases "fallback_step L sa se ac (envs n) (opens n) f")
      case (Reading f1)
      have "length (fb_rest f1) < length (fb_rest f)"
        using Reading assms
        by (auto simp: fallback_step_def processScenePayload_def appendScenePayloadJsonl_def Let_def
            split: option.splits prod.splits if_splits dest!: next_line_shorter)
      then show ?thesis using Suc.IH [of f1] Suc.prems Reading by simp
    qed simp_all
  qed simp
  show ?thesis by (rule ends) simp
qed

theorem stdin_loop_ends_witness:
  "\<nexists>f'. fallback_run example_scene_lib (sort_key al_priority) (sort_key fst) app_config_default
     (\<lambda>_. example_relay_env) (\<lambda>_. True) 3 \<lparr>fb_rest = ''SS'', fb_end = False, fb_relay = example_relay\<rparr> = Reading f'"
  using stdin_loop_ends [of app_config_default example_scene_lib "sort_key al_priority" "sort_key fst" "\<lambda>_. example_relay_env"
      "\<lambda>_. True" "\<lparr>fb_rest = ''SS'', fb_end = False, fb_relay = example_relay\<rparr>"]
  by (simp add: app_config_default_def eval_nat_numeral)

end
