(* ===== verification/App.thy ===== *)
theory App
  imports ChannelWorker FrameCache Aggregator MqttLink
begin

text \<open>
  The camera process as a whole (\<open>app/MultiCamApp.cpp\<close>, \<open>AppContext.hpp\<close>, \<open>main.cpp\<close>): the order in which
  the components are made and taken down, the messages of the bus with the loop over the videos, the memory
  monitor, and the exit code. The components are those of their own theories; GStreamer, the main loop, the
  answers of the system and the clock are arguments. What is only printed is left out.
\<close>

section \<open>State\<close>

text \<open>
  Beside the members of the class: which pointers were handed on (the aggregator's publisher, the producer
  and the gallery of the elements), the workers that were destroyed, and the input and output events of the
  producer.
\<close>

record mem_sample =
  me_event :: string
  me_iteration :: u32
  me_rss :: u64
  me_size :: u64
  me_delta :: int

record camera_app =
  ca_config :: app_settings
  ca_loop :: bool
  ca_running :: bool
  ca_pipeline :: bool
  ca_gallery :: "gallery option"
  ca_workers :: "channel_worker list"
  ca_dropped :: "channel_worker list"
  ca_msgagg :: "nat list option"
  ca_cache :: "frame_cache option"
  ca_publisher :: "mqtt_publisher option"
  ca_world :: mqtt_world
  ca_lost :: nat
  ca_aggregator :: "frame_record aggregator option"
  ca_agg_publishes :: bool
  ca_elem_producer :: bool
  ca_elem_gallery :: bool
  ca_bus :: nat
  ca_stop :: bool
  ca_error :: bool
  ca_iteration :: u32
  ca_entered :: bool
  ca_timer :: nat
  ca_log :: bool
  ca_start_rss :: u64
  ca_peak_rss :: u64
  ca_samples :: u64
  ca_lines :: "mem_sample list"
  ca_io :: "io_event list"

definition app_new :: camera_app where
  "app_new =
     \<lparr>ca_config = settings_default, ca_loop = False, ca_running = False, ca_pipeline = False, ca_gallery = None,
      ca_workers = [], ca_dropped = [], ca_msgagg = None, ca_cache = None, ca_publisher = None, ca_world = world_new,
      ca_lost = 0, ca_aggregator = None, ca_agg_publishes = False, ca_elem_producer = False, ca_elem_gallery = False,
      ca_bus = 0, ca_stop = False, ca_error = False, ca_iteration = 0, ca_entered = False, ca_timer = 0, ca_log = False,
      ca_start_rss = 0, ca_peak_rss = 0, ca_samples = 0, ca_lines = [], ca_io = []\<rparr>"

text \<open>What the surroundings answer during the start.\<close>

record app_env =
  ae_glib :: json_glib
  ae_parsed :: "string + json option"
  ae_main_loop :: bool
  ae_pipeline :: bool
  ae_access :: json_access
  ae_gallery_write :: bool
  ae_gallery_file :: "json option option option"
  ae_worker :: "nat \<Rightarrow> worker_env"
  ae_heap :: heap_env
  ae_socket :: socket_env
  ae_subscribe :: "string \<Rightarrow> string option"
  ae_fc_error :: "frame_cache_error \<Rightarrow> string"
  ae_msgagg :: bool
  ae_links :: "nat \<Rightarrow> bool"
  ae_mqtt_text :: "int \<Rightarrow> string"
  ae_create :: int
  ae_connect :: int
  ae_bus :: bool
  ae_watch :: nat
  ae_log_opens :: bool
  ae_timer :: nat
  ae_status :: "string option"
  ae_plays :: bool

section \<open>Requests to stop\<close>

text \<open>\<open>g_main_loop_quit\<close> only acts on a loop that runs: \<open>g_main_loop_run\<close> starts by setting its flag.\<close>

definition RequestStop :: "camera_app \<Rightarrow> camera_app" where
  "RequestStop x = x\<lparr>ca_stop := True, ca_running := (if ca_loop x then False else ca_running x)\<rparr>"

section \<open>The memory monitor\<close>

definition line_feed :: char where
  "line_feed = CHR 0x0A"

text \<open>\<open>fgets\<close> with a buffer of 256: up to the line end, and at most 255 characters.\<close>

definition fgets_256 :: "string \<Rightarrow> string \<times> string" where
  "fgets_256 t =
     (let k = length (takeWhile (\<lambda>c. c \<noteq> line_feed) t); n = min 255 (Suc k) in (take n t, drop n t))"

text \<open>\<open>strtoull\<close> to base ten: blanks, a sign, digits; too large a value saturates.\<close>

definition strtoull :: "string \<Rightarrow> u64" where
  "strtoull s =
     (let s = dropWhile is_space s;
          neg = (s \<noteq> [] \<and> hd s = CHR ''-'');
          s = (if s \<noteq> [] \<and> (hd s = CHR ''-'' \<or> hd s = CHR ''+'') then tl s else s);
          v = read_nat (takeWhile is_digit s)
      in if 2 ^ 64 \<le> v then - 1 else if neg then - of_nat v else of_nat v)"

definition after_blanks :: "nat \<Rightarrow> string \<Rightarrow> string" where
  "after_blanks n l = dropWhile (\<lambda>c. c = CHR '' '' \<or> c = CHR 0x09) (drop n l)"

definition status_line :: "string \<Rightarrow> u64 \<times> u64 \<Rightarrow> u64 \<times> u64" where
  "status_line l v =
     (if take 6 l = ''VmRSS:'' then (strtoull (after_blanks 6 l), snd v)
      else if take 7 l = ''VmSize:'' then (fst v, strtoull (after_blanks 7 l))
      else v)"

function status_lines :: "string \<Rightarrow> u64 \<times> u64 \<Rightarrow> u64 \<times> u64" where
  "status_lines t v =
     (if t = [] then v else case fgets_256 t of (l, r) \<Rightarrow> status_lines r (status_line l v))"
  by pat_completeness auto
termination
  by (relation "measure (\<lambda>(t, v). length t)") (auto simp: fgets_256_def Let_def)

declare status_lines.simps [simp del]

text \<open>The text of the status file, None when it does not open; resident size and virtual size.\<close>

definition ReadProcSelfStatus :: "string option \<Rightarrow> (u64 \<times> u64) option" where
  "ReadProcSelfStatus file = map_option (\<lambda>t. status_lines t (0, 0)) file"

definition SampleMemory :: "string option \<Rightarrow> string \<Rightarrow> camera_app \<Rightarrow> camera_app" where
  "SampleMemory file event x =
     (case ReadProcSelfStatus file of
        None \<Rightarrow> x
      | Some (rss, vsize) \<Rightarrow>
          (let x = x\<lparr>ca_peak_rss := (if ca_peak_rss x < rss then rss else ca_peak_rss x), ca_samples := ca_samples x + 1\<rparr>
           in if ca_log x then
                x\<lparr>ca_lines := ca_lines x @ [\<lparr>me_event = event, me_iteration = ca_iteration x, me_rss = rss,
                    me_size = vsize, me_delta = sint rss - sint (ca_start_rss x)\<rparr>]\<rparr>
              else x))"

definition StartMemoryMonitor :: "app_env \<Rightarrow> camera_app \<Rightarrow> camera_app" where
  "StartMemoryMonitor V x =
     (if \<not> ae_log_opens V then x\<lparr>ca_log := False\<rparr>
      else
        let x = x\<lparr>ca_log := True\<rparr>;
            rss = (case ReadProcSelfStatus (ae_status V) of Some (r, _) \<Rightarrow> r | None \<Rightarrow> ca_start_rss x);
            x = SampleMemory (ae_status V) ''start'' (x\<lparr>ca_start_rss := rss, ca_peak_rss := rss\<rparr>)
        in x\<lparr>ca_timer := ae_timer V\<rparr>)"

text \<open>The interval of the timer, in milliseconds.\<close>

definition monitor_interval :: "camera_app \<Rightarrow> u32" where
  "monitor_interval x = as_mem_interval (ca_config x) * 1000"

definition StopMemoryMonitor :: "string option \<Rightarrow> camera_app \<Rightarrow> camera_app" where
  "StopMemoryMonitor file x =
     (let x = x\<lparr>ca_timer := 0\<rparr>
      in if ca_log x then (SampleMemory file ''stop'' x)\<lparr>ca_log := False\<rparr> else x)"

section \<open>Initialize\<close>

text \<open>Each stage of the start answers an error text or None.\<close>

definition init_config :: "app_env \<Rightarrow> string \<Rightarrow> camera_app \<Rightarrow> string option \<times> camera_app" where
  "init_config V path x =
     (case LoadFromFile (ae_glib V) path (ae_parsed V) of
        Inl e \<Rightarrow> (Some e, x)
      | Inr c \<Rightarrow>
          (let x = x\<lparr>ca_config := c\<rparr>
           in if as_videos c = [] then (Some ''videos_path is empty after config parse'', x) else (None, x)))"

definition init_pipeline :: "app_env \<Rightarrow> camera_app \<Rightarrow> string option \<times> camera_app" where
  "init_pipeline V x =
     (if \<not> ae_main_loop V then (Some ''Failed to create GMainLoop'', x)
      else
        let x = x\<lparr>ca_loop := True\<rparr>
        in if \<not> ae_pipeline V then (Some ''Failed to create shared GstPipeline'', x)
           else (None, x\<lparr>ca_pipeline := True\<rparr>))"

definition init_gallery :: "app_env \<Rightarrow> camera_app \<Rightarrow> string option \<times> camera_app" where
  "init_gallery V x =
     (if as_face (ca_config x) \<and> as_gallery (ca_config x) \<noteq> [] then
        (case gallery_load (ae_access V) (ae_gallery_write V) (as_gallery (ca_config x)) (ae_gallery_file V) gallery_new of
           (ok, g, _) \<Rightarrow> (None, x\<lparr>ca_gallery := (if ok then Some g else None)\<rparr>))
      else (None, x))"

text \<open>Destroying a worker stops it.\<close>

definition drop_worker :: "channel_worker \<Rightarrow> camera_app \<Rightarrow> camera_app" where
  "drop_worker w x = x\<lparr>ca_dropped := ca_dropped x @ [worker_stop w]\<rparr>"

fun init_workers_from :: "app_env \<Rightarrow> nat \<Rightarrow> string list \<Rightarrow> camera_app \<Rightarrow> string option \<times> camera_app" where
  "init_workers_from V i [] x = (None, x)"
| "init_workers_from V i (video # videos) x =
     (case worker_initialize (ae_worker V i) (ca_config x) True (ca_pipeline x) (ca_gallery x \<noteq> None)
        (ChannelWorker_new (of_nat i)) of
        (Some e, w) \<Rightarrow> (Some e, drop_worker w x)
      | (None, w) \<Rightarrow> init_workers_from V (Suc i) videos (x\<lparr>ca_workers := ca_workers x @ [w]\<rparr>))"

definition init_workers :: "app_env \<Rightarrow> camera_app \<Rightarrow> string option \<times> camera_app" where
  "init_workers V x = init_workers_from V 0 (as_videos (ca_config x)) (x\<lparr>ca_workers := []\<rparr>)"

definition exclude_aggregator :: "camera_app \<Rightarrow> camera_app" where
  "exclude_aggregator x =
     (if ms_enabled (as_msgagg (ca_config x)) \<and> gs_enabled (as_agg (ca_config x))
      then x\<lparr>ca_config := (ca_config x)\<lparr>as_agg := (as_agg (ca_config x))\<lparr>gs_enabled := False\<rparr>\<rparr>\<rparr> else x)"

definition cache_params :: "app_settings \<Rightarrow> frame_cache_params" where
  "cache_params c =
     \<lparr>fp_producer = \<lparr>cfg_socket_path = Some (cs_socket (as_cache c)), cfg_heap_path = Some (cs_heap (as_cache c)),
        cfg_slot_count = cs_slots (as_cache c), cfg_width = cs_width (as_cache c), cfg_height = cs_height (as_cache c),
        cfg_relay_mode = cs_relay (as_cache c)\<rparr>,
      fp_done_topic = cs_topic (as_cache c), fp_client_id = qs_client (as_mqtt c)\<rparr>"

definition init_cache :: "app_env \<Rightarrow> camera_app \<Rightarrow> string option \<times> camera_app" where
  "init_cache V x =
     (let x = exclude_aggregator x
      in if \<not> cs_enabled (as_cache (ca_config x)) then (None, x)
         else
           case fc_init (ae_heap V) (ae_socket V) (ae_subscribe V) (cache_params (ca_config x)) frame_cache_new of
             (Inl e, fc, io) \<Rightarrow> (Some (ae_fc_error V e), x\<lparr>ca_cache := Some fc, ca_io := ca_io x @ io\<rparr>)
           | (Inr _, fc, io) \<Rightarrow>
               (None, x\<lparr>ca_cache := Some fc, ca_io := ca_io x @ io, ca_elem_producer := list_ex cw_offload (ca_workers x),
                        ca_elem_gallery := (list_ex cw_offload (ca_workers x) \<and> ca_gallery x \<noteq> None
                          \<and> ms_enabled (as_msgagg (ca_config x)))\<rparr>))"

text \<open>The merging element with the numbers of the channels linked to it; a failure here is only reported.\<close>

definition init_msgagg :: "app_env \<Rightarrow> camera_app \<Rightarrow> string option \<times> camera_app" where
  "init_msgagg V x =
     (let c = ca_config x
      in if ms_enabled (as_msgagg c) \<and> cs_enabled (as_cache c) \<and> qs_enabled (as_mqtt c) \<and> ae_msgagg V
         then (None, x\<lparr>ca_msgagg := Some (filter (ae_links V) [0..<length (ca_workers x)])\<rparr>)
         else (None, x))"

definition init_publisher :: "app_env \<Rightarrow> camera_app \<Rightarrow> camera_app" where
  "init_publisher V x =
     (let q = as_mqtt (ca_config x)
      in if \<not> qs_enabled q then x
         else
           case publisher_initialize (ae_mqtt_text V) (ae_create V) (ae_connect V)
                  (MqttPublisher_new (qs_broker q) (qs_port q) (qs_pub q) (qs_qos q)) (ca_world x) of
             (Some _, p, w) \<Rightarrow> x\<lparr>ca_publisher := None, ca_world := snd (publisher_shutdown p w)\<rparr>
           | (None, p, w) \<Rightarrow> x\<lparr>ca_publisher := Some p, ca_world := w\<rparr>)"

definition init_aggregator :: "app_env \<Rightarrow> camera_app \<Rightarrow> string option \<times> camera_app" where
  "init_aggregator V x =
     (let g = as_agg (ca_config x)
      in if \<not> gs_enabled g then (None, x)
         else
           let x = init_publisher V x;
               (ok, a) = ag_start (ag_new (gs_batch g) (gs_capacity g) (length (ca_workers x)))
           in (None,
               if ok then x\<lparr>ca_aggregator := Some a, ca_agg_publishes := (ca_publisher x \<noteq> None),
                            ca_workers := map (\<lambda>w. w\<lparr>cw_aggregator := True\<rparr>) (ca_workers x)\<rparr>
               else x\<lparr>ca_aggregator := None\<rparr>))"

definition init_bus :: "app_env \<Rightarrow> camera_app \<Rightarrow> string option \<times> camera_app" where
  "init_bus V x =
     (if \<not> ae_bus V then (Some ''Failed to get pipeline bus'', x)
      else
        let x = x\<lparr>ca_bus := ae_watch V\<rparr>
        in if ca_bus x = 0 then (Some ''Failed to add bus watch'', x)
           else (None, if as_loops (ca_config x) \<noteq> 1 then StartMemoryMonitor V x else x))"

definition init_stages :: "app_env \<Rightarrow> string \<Rightarrow> (camera_app \<Rightarrow> string option \<times> camera_app) list" where
  "init_stages V path =
     [init_config V path, init_pipeline V, init_gallery V, init_workers V, init_cache V, init_msgagg V,
      init_aggregator V, init_bus V]"

text \<open>The stages in order, up to the first error.\<close>

fun run_stages :: "(camera_app \<Rightarrow> string option \<times> camera_app) list \<Rightarrow> camera_app \<Rightarrow> string option \<times> camera_app" where
  "run_stages [] x = (None, x)"
| "run_stages (f # fs) x = (case f x of (Some e, x) \<Rightarrow> (Some e, x) | (None, x) \<Rightarrow> run_stages fs x)"

definition app_initialize :: "app_env \<Rightarrow> string \<Rightarrow> camera_app \<Rightarrow> string option \<times> camera_app" where
  "app_initialize V path x = run_stages (init_stages V path) x"

definition StartPipeline :: "app_env \<Rightarrow> camera_app \<Rightarrow> string option" where
  "StartPipeline V x =
     (if \<not> ca_pipeline x then Some ''Pipeline is null''
      else if \<not> ae_plays V then Some ''Failed to set pipeline to PLAYING''
      else None)"

section \<open>StopPipeline\<close>

definition stop_bus :: "camera_app \<Rightarrow> camera_app" where
  "stop_bus x = x\<lparr>ca_bus := 0\<rparr>"

definition stop_workers :: "camera_app \<Rightarrow> camera_app" where
  "stop_workers x =
     x\<lparr>ca_dropped := ca_dropped x @ map (\<lambda>w. worker_stop (worker_stop w)) (ca_workers x), ca_workers := []\<rparr>"

definition stop_aggregator :: "camera_app \<Rightarrow> camera_app" where
  "stop_aggregator x = (if ca_aggregator x = None then x else x\<lparr>ca_aggregator := None, ca_agg_publishes := False\<rparr>)"

definition stop_publisher :: "camera_app \<Rightarrow> camera_app" where
  "stop_publisher x =
     (case ca_publisher x of
        None \<Rightarrow> x
      | Some p \<Rightarrow> (let (p, w) = publisher_shutdown p (ca_world x)
                  in x\<lparr>ca_publisher := None, ca_world := snd (publisher_shutdown p w)\<rparr>))"

definition stop_graph :: "camera_app \<Rightarrow> camera_app" where
  "stop_graph x =
     (if ca_pipeline x then x\<lparr>ca_pipeline := False, ca_msgagg := None, ca_elem_producer := False, ca_elem_gallery := False\<rparr>
      else x)"

definition stop_cache :: "camera_app \<Rightarrow> camera_app" where
  "stop_cache x =
     (case ca_cache x of
        None \<Rightarrow> x
      | Some fc \<Rightarrow> (let (fc, io) = fc_shutdown fc in x\<lparr>ca_cache := None, ca_io := ca_io x @ io @ snd (fc_shutdown fc)\<rparr>))"

definition stop_stages :: "(camera_app \<Rightarrow> camera_app) list" where
  "stop_stages = [stop_bus, stop_workers, stop_aggregator, stop_publisher, stop_graph, stop_cache]"

definition StopPipeline :: "camera_app \<Rightarrow> camera_app" where
  "StopPipeline x = foldl (\<lambda>x f. f x) x stop_stages"

definition ReleaseMainLoop :: "camera_app \<Rightarrow> camera_app" where
  "ReleaseMainLoop x = x\<lparr>ca_loop := False\<rparr>"

definition release_all :: "string option \<Rightarrow> camera_app \<Rightarrow> camera_app" where
  "release_all file x = ReleaseMainLoop (StopPipeline (StopMemoryMonitor file x))"

section \<open>The bus and the main loop\<close>

text \<open>A change of state comes with whether it is the pipeline's and whether the new state is playing.\<close>

datatype bus_message = StateChanged bool bool | EndOfStream | PipelineError | OtherMessage

text \<open>The answer of the seek and the status file are arguments.\<close>

definition OnBusMessage :: "bool \<Rightarrow> string option \<Rightarrow> bus_message \<Rightarrow> camera_app \<Rightarrow> camera_app" where
  "OnBusMessage seek file m x =
     (case m of
        StateChanged own playing \<Rightarrow> if own \<and> playing then x\<lparr>ca_entered := True\<rparr> else x
      | EndOfStream \<Rightarrow>
          if \<not> ca_entered x then x
          else
            (let x = x\<lparr>ca_iteration := ca_iteration x + 1\<rparr>; n = as_loops (ca_config x)
             in if n = 0 \<or> ca_iteration x < n then
                  (let x = SampleMemory file ''iteration_boundary'' x
                   in if ca_pipeline x \<and> seek then x else RequestStop x)
                else RequestStop x)
      | PipelineError \<Rightarrow> RequestStop (x\<lparr>ca_error := True\<rparr>)
      | OtherMessage \<Rightarrow> x)"

text \<open>
  What happens while the process runs: messages and ticks reach the main loop; a worker's thread fails a sample, or
  the publisher loses its connection, at any time.
\<close>

datatype app_event =
    Bus bool "string option" bus_message
  | MonitorTick "string option"
  | WorkerFails
  | PublisherGone

definition app_event_step :: "camera_app \<Rightarrow> app_event \<Rightarrow> camera_app" where
  "app_event_step x e =
     (case e of
        Bus seek file m \<Rightarrow> if ca_running x then OnBusMessage seek file m x else x
      | MonitorTick file \<Rightarrow> if ca_running x \<and> ca_timer x \<noteq> 0 then SampleMemory file ''periodic'' x else x
      | WorkerFails \<Rightarrow> RequestStop (x\<lparr>ca_error := True\<rparr>)
      | PublisherGone \<Rightarrow>
          (case ca_publisher x of
             None \<Rightarrow> x
           | Some p \<Rightarrow>
               (case lose (mp_client p) of
                  (oc, k) \<Rightarrow> x\<lparr>ca_publisher := Some (p\<lparr>mp_client := oc\<rparr>), ca_lost := ca_lost x + k\<rparr>)))"

text \<open>
  \<open>Run\<close>: the exit code, None while the main loop runs. Events may come between the start of the pipeline and the
  start of the loop, and while it runs.
\<close>

definition app_run ::
  "app_env \<Rightarrow> string \<Rightarrow> app_event list \<Rightarrow> app_event list \<Rightarrow> string option \<Rightarrow> camera_app \<Rightarrow> nat option \<times> camera_app" where
  "app_run V path early events file x =
     (case app_initialize V path x of
        (Some _, x) \<Rightarrow> (Some 1, release_all file x)
      | (None, x) \<Rightarrow>
          if StartPipeline V x \<noteq> None then (Some 1, release_all file x)
          else
            let x = foldl app_event_step x early;
                x = foldl app_event_step (x\<lparr>ca_running := True\<rparr>) events
            in if ca_running x then (None, x)
               else (Some (if ca_error x then 1 else 0), release_all file x))"

section \<open>The command line\<close>

fun config_argument :: "string \<Rightarrow> string list \<Rightarrow> string" where
  "config_argument path [] = path"
| "config_argument path (a # as) =
     (if a = ''--config'' \<or> a = ''-c'' then
        (case as of [] \<Rightarrow> path | p # as' \<Rightarrow> config_argument p as')
      else config_argument path as)"

definition ParseConfigPath :: "string list \<Rightarrow> string" where
  "ParseConfigPath argv = config_argument ''config/config.json'' (tl argv)"

section \<open>What refers to what\<close>

text \<open>
  Every pointer that was handed on points to something that is there: the workers' aggregator and gallery, the
  publisher of the aggregator, the producer and the gallery of the elements, the pipeline of a sink.
\<close>

definition refs_ok :: "camera_app \<Rightarrow> bool" where
  "refs_ok x =
     ((\<forall>w \<in> set (ca_workers x). (cw_aggregator w \<longrightarrow> ca_aggregator x \<noteq> None) \<and> (cw_gallery w \<longrightarrow> ca_gallery x \<noteq> None)
         \<and> (cw_appsink w \<or> cw_offload w \<longrightarrow> ca_pipeline x))
      \<and> (ca_agg_publishes x \<longrightarrow> ca_publisher x \<noteq> None)
      \<and> (ca_elem_producer x \<longrightarrow> ca_pipeline x \<and> (\<exists>fc. ca_cache x = Some fc \<and> fc_producer fc \<noteq> None))
      \<and> (ca_elem_gallery x \<longrightarrow> ca_gallery x \<noteq> None \<and> ca_elem_producer x)
      \<and> (ca_aggregator x = None \<longrightarrow> \<not> ca_agg_publishes x))"

definition publisher_clients :: "camera_app \<Rightarrow> mqtt_client list" where
  "publisher_clients x = (case ca_publisher x of Some p \<Rightarrow> client_list (mp_client p) | None \<Rightarrow> [])"

definition app_inv :: "camera_app \<Rightarrow> bool" where
  "app_inv x =
     (refs_ok x \<and> (\<forall>w \<in> set (ca_workers x). worker_sound w) \<and> (\<forall>w \<in> set (ca_dropped x). holds_nothing w)
      \<and> books (publisher_clients x) (ca_world x) (ca_lost x))"

text \<open>Before the components that others point to are made.\<close>

definition app_bare :: "camera_app \<Rightarrow> bool" where
  "app_bare x = (ca_cache x = None \<and> ca_publisher x = None \<and> ca_aggregator x = None \<and> ca_workers x = [])"

lemma app_inv_new: "app_inv app_new" "app_bare app_new"
  by (simp_all add: app_inv_def app_bare_def refs_ok_def publisher_clients_def app_new_def books_new)

lemma sound_stop: "worker_sound w \<Longrightarrow> holds_nothing (worker_stop w)"
  by (rule stop_holds_nothing) (auto simp: worker_sound_def holds_nothing_def split: if_splits)

lemma holds_nothing_sound: "holds_nothing w \<Longrightarrow> worker_sound w"
  by (simp add: worker_sound_def holds_nothing_def)

text \<open>A new worker points to no aggregator, and to the gallery only when there is one.\<close>

definition worker_refs :: "bool \<Rightarrow> channel_worker \<Rightarrow> bool" where
  "worker_refs sh w = (\<not> cw_aggregator w \<and> (cw_gallery w \<longrightarrow> sh))"

lemma worker_refs_update [simp]:
  "worker_refs sh (w\<lparr>cw_writer := a\<rparr>) = worker_refs sh w" "worker_refs sh (w\<lparr>cw_labels := b\<rparr>) = worker_refs sh w"
  "worker_refs sh (w\<lparr>cw_signal := n\<rparr>) = worker_refs sh w" "worker_refs sh (w\<lparr>cw_initialized := c\<rparr>) = worker_refs sh w"
  "worker_refs sh (worker_stop w) = worker_refs sh w" "worker_refs sh (attach_chain V d w) = worker_refs sh w"
  "worker_refs sh (ResetSampleStats w) = worker_refs sh w"
  by (simp_all add: worker_refs_def worker_stop_def attach_chain_def ResetSampleStats_def)

lemma set_up_faces_refs: "worker_refs sh w \<Longrightarrow> worker_refs sh (set_up_faces V c sh w)"
  by (simp add: worker_refs_def set_up_faces_def Let_def)

lemma open_worker_refs: "worker_refs sh w \<Longrightarrow> worker_refs sh (snd (open_worker V w))"
  by (simp add: open_worker_def split: option.split prod.split)

lemma start_chain_refs: "worker_refs sh w \<Longrightarrow> worker_refs sh (snd (start_chain V c sh w))"
  by (simp add: start_chain_def Let_def set_up_faces_refs open_worker_refs split: option.split)

lemma worker_initialize_refs:
  "worker_refs sh w \<Longrightarrow> worker_refs sh (snd (worker_initialize V c ctx bin sh w))"
  by (simp add: worker_initialize_def Let_def start_chain_refs split: option.split prod.split)

lemma new_worker_refs: "worker_refs sh (ChannelWorker_new i)"
  by (simp add: worker_refs_def ChannelWorker_new_def)

lemma new_worker:
  assumes "worker_initialize V c True bin sh (ChannelWorker_new i) = (e, w)"
  shows "worker_sound w" "worker_refs sh w" "e = None \<Longrightarrow> bin"
proof -
  show "worker_sound w" using initialize_sound [OF new_worker_sound assms] by blast
  show "worker_refs sh w" using worker_initialize_refs [OF new_worker_refs] assms by (metis snd_conv)
  show "e = None \<Longrightarrow> bin" using assms by (simp add: worker_initialize_def ChannelWorker_new_def split: if_splits)
qed

section \<open>The start keeps the references\<close>

lemma init_config_inv: "app_inv x \<Longrightarrow> app_bare x \<Longrightarrow> app_inv (snd (init_config V path x)) \<and> app_bare (snd (init_config V path x))"
  by (auto simp: init_config_def app_inv_def app_bare_def refs_ok_def publisher_clients_def Let_def split: sum.split)

lemma init_pipeline_inv: "app_inv x \<Longrightarrow> app_bare x \<Longrightarrow> app_inv (snd (init_pipeline V x)) \<and> app_bare (snd (init_pipeline V x))"
  by (auto simp: init_pipeline_def app_inv_def app_bare_def refs_ok_def publisher_clients_def Let_def)

lemma init_gallery_inv: "app_inv x \<Longrightarrow> app_bare x \<Longrightarrow> app_inv (snd (init_gallery V x)) \<and> app_bare (snd (init_gallery V x))"
  by (auto simp: init_gallery_def app_inv_def app_bare_def refs_ok_def publisher_clients_def split: prod.split)

definition app_made :: "camera_app \<Rightarrow> bool" where
  "app_made x = (ca_cache x = None \<and> ca_publisher x = None \<and> ca_aggregator x = None)"

lemma init_workers_from_inv:
  assumes "app_inv x" "app_made x"
  shows "app_inv (snd (init_workers_from V i vs x)) \<and> app_made (snd (init_workers_from V i vs x))"
  using assms
proof (induction V i vs x rule: init_workers_from.induct)
  case (2 V i v vs x)
  obtain e w where w: "worker_initialize (ae_worker V i) (ca_config x) True (ca_pipeline x) (ca_gallery x \<noteq> None)
      (ChannelWorker_new (of_nat i)) = (e, w)" by fastforce
  note nw = new_worker [OF w]
  show ?case
  proof (cases e)
    case None
    have "app_inv (x\<lparr>ca_workers := ca_workers x @ [w]\<rparr>)"
      using 2(2) nw None by (auto simp: app_inv_def refs_ok_def publisher_clients_def worker_refs_def)
    then show ?thesis using 2(1) [OF w [symmetric] None] 2(3) w None by (simp add: app_made_def)
  next
    case (Some t)
    have "app_inv (drop_worker w x)"
      using 2(2) sound_stop [OF nw(1)] by (auto simp: app_inv_def refs_ok_def publisher_clients_def drop_worker_def)
    then show ?thesis using 2(3) w Some by (simp add: app_made_def drop_worker_def)
  qed
qed simp

lemma init_workers_inv: "app_inv x \<Longrightarrow> app_bare x \<Longrightarrow> app_inv (snd (init_workers V x)) \<and> app_made (snd (init_workers V x))"
  unfolding init_workers_def
  by (rule init_workers_from_inv) (auto simp: app_inv_def app_bare_def app_made_def refs_ok_def publisher_clients_def)

definition app_cached :: "camera_app \<Rightarrow> bool" where
  "app_cached x = (ca_publisher x = None \<and> ca_aggregator x = None)"

lemma exclude_aggregator_inv:
  "app_inv (exclude_aggregator x) = app_inv x" "app_made (exclude_aggregator x) = app_made x"
  by (simp_all add: exclude_aggregator_def app_inv_def app_made_def refs_ok_def publisher_clients_def)

lemma fc_init_producer: "fc_init h s sub p frame_cache_new = (Inr u, fc, io) \<Longrightarrow> fc_producer fc \<noteq> None"
  by (auto simp: fc_init_def split: if_splits prod.splits sum.splits option.splits)

lemma init_cache_inv:
  assumes "app_inv x" "app_made x"
  shows "app_inv (snd (init_cache V x)) \<and> app_cached (snd (init_cache V x))"
proof -
  define y where "y = exclude_aggregator x"
  have y: "app_inv y" "app_made y" using assms by (simp_all add: y_def exclude_aggregator_inv)
  show ?thesis
    using y fc_init_producer
    unfolding init_cache_def y_def [symmetric]
    by (auto simp: Let_def app_inv_def app_made_def app_cached_def refs_ok_def publisher_clients_def
        list_ex_iff split: sum.split prod.split)
qed

lemma init_msgagg_inv: "app_inv x \<Longrightarrow> app_cached x \<Longrightarrow> app_inv (snd (init_msgagg V x)) \<and> app_cached (snd (init_msgagg V x))"
  by (simp add: init_msgagg_def app_inv_def app_cached_def refs_ok_def publisher_clients_def Let_def)

lemma init_publisher_inv:
  assumes "app_inv x" "app_cached x"
  shows "app_inv (init_publisher V x) \<and> ca_aggregator (init_publisher V x) = None"
proof -
  let ?p = "MqttPublisher_new (qs_broker (as_mqtt (ca_config x))) (qs_port (as_mqtt (ca_config x)))
    (qs_pub (as_mqtt (ca_config x))) (qs_qos (as_mqtt (ca_config x)))"
  obtain e p w where i: "publisher_initialize (ae_mqtt_text V) (ae_create V) (ae_connect V) ?p (ca_world x) = (e, p, w)"
    by (metis prod_cases3)
  obtain p' w' where d: "publisher_shutdown p w = (p', w')" by fastforce
  have "books (client_list (mp_client ?p) @ []) (ca_world x) (ca_lost x)"
    using assms by (simp add: app_inv_def app_cached_def publisher_clients_def MqttPublisher_new_def)
  from books_publisher_initialize [OF this i] have b: "books (client_list (mp_client p) @ []) w (ca_lost x)" .
  have "mp_client p' = None" using d by (auto simp: publisher_shutdown_def Let_def split: option.splits prod.splits)
  with books_publisher_shutdown [OF b d] have "books [] w' (ca_lost x)" by simp
  then show ?thesis
    using assms b i d by (auto simp: init_publisher_def app_inv_def app_cached_def refs_ok_def publisher_clients_def Let_def
        split: option.split)
qed

lemma init_aggregator_inv: "app_inv x \<Longrightarrow> app_cached x \<Longrightarrow> app_inv (snd (init_aggregator V x))"
proof -
  assume x: "app_inv x" "app_cached x"
  define y where "y = init_publisher V x"
  have y: "app_inv y" "ca_aggregator y = None" using init_publisher_inv [OF x] by (simp_all add: y_def)
  have flag: "worker_sound (w\<lparr>cw_aggregator := b\<rparr>) = worker_sound w" for w b
    by (simp add: worker_sound_def holds_nothing_def writer_held_def)
  show ?thesis
    using x y unfolding init_aggregator_def y_def [symmetric]
    by (auto simp: Let_def app_inv_def refs_ok_def publisher_clients_def flag ag_start_def split: prod.split)
qed

lemma sample_inv_refs: "app_inv (SampleMemory file t x) = app_inv x"
  by (simp add: SampleMemory_def app_inv_def refs_ok_def publisher_clients_def Let_def split: option.split prod.split)

lemma app_inv_flags [simp]:
  "app_inv (x\<lparr>ca_log := b\<rparr>) = app_inv x" "app_inv (x\<lparr>ca_timer := n\<rparr>) = app_inv x" "app_inv (x\<lparr>ca_bus := n\<rparr>) = app_inv x"
  "app_inv (x\<lparr>ca_start_rss := r, ca_peak_rss := r'\<rparr>) = app_inv x" "app_inv (x\<lparr>ca_running := b\<rparr>) = app_inv x"
  "app_inv (x\<lparr>ca_error := b\<rparr>) = app_inv x" "app_inv (x\<lparr>ca_entered := b\<rparr>) = app_inv x"
  "app_inv (x\<lparr>ca_iteration := u\<rparr>) = app_inv x" "app_inv (x\<lparr>ca_loop := b\<rparr>) = app_inv x"
  "app_inv (x\<lparr>ca_stop := b, ca_running := b'\<rparr>) = app_inv x"
  by (simp_all add: app_inv_def refs_ok_def publisher_clients_def)

lemma init_bus_inv: "app_inv x \<Longrightarrow> app_inv (snd (init_bus V x))"
proof -
  have start: "app_inv (StartMemoryMonitor V y) = app_inv y" for y
  proof -
    have "app_inv ((y\<lparr>ca_log := True\<rparr>)\<lparr>ca_start_rss := r, ca_peak_rss := r\<rparr>) = app_inv y" for r
      by (simp only: app_inv_flags)
    then show ?thesis by (simp add: StartMemoryMonitor_def Let_def sample_inv_refs)
  qed
  show "app_inv x \<Longrightarrow> ?thesis" by (simp add: init_bus_def Let_def start)
qed

text \<open>Any number of stages: the bare invariant up to the workers, then what is still missing.\<close>

definition stage_inv :: "nat \<Rightarrow> camera_app \<Rightarrow> bool" where
  "stage_inv k x = (app_inv x \<and> (k < 4 \<longrightarrow> app_bare x) \<and> (k = 4 \<longrightarrow> app_made x) \<and> (k = 5 \<or> k = 6 \<longrightarrow> app_cached x))"

lemma stage_step:
  assumes "stage_inv k x" "k < length (init_stages V path)"
  shows "stage_inv (Suc k) (snd ((init_stages V path ! k) x))"
proof -
  have "k = 0 \<or> k = 1 \<or> k = 2 \<or> k = 3 \<or> k = 4 \<or> k = 5 \<or> k = 6 \<or> k = 7"
    using assms(2) by (auto simp: init_stages_def)
  then show ?thesis
    using assms(1)
    by (elim disjE)
      (simp_all add: init_stages_def stage_inv_def init_config_inv init_pipeline_inv init_gallery_inv init_workers_inv
        init_cache_inv init_msgagg_inv init_aggregator_inv init_bus_inv)
qed

lemma run_stages_inv:
  assumes "\<And>k x. I k x \<Longrightarrow> k < length fs \<Longrightarrow> I (Suc k) (snd ((fs ! k) x))" "I n x" "n \<le> length fs"
    and "\<And>k x. I k x \<Longrightarrow> P x"
  shows "P (snd (run_stages (drop n fs) x))"
  using assms(2,3)
proof (induction "length fs - n" arbitrary: n x)
  case 0
  then show ?case using assms(4) by simp
next
  case (Suc m)
  then have n: "n < length fs" by simp
  obtain e y where f: "(fs ! n) x = (e, y)" by fastforce
  have y: "I (Suc n) y" using assms(1) [OF Suc.prems(1) n] f by simp
  have "P (snd (run_stages (drop (Suc n) fs) y))"
    using Suc.hyps(1) [of "Suc n" y] Suc.hyps(2) y n by simp
  then show ?case using f n assms(4) [OF y] by (cases e) (simp_all add: Cons_nth_drop_Suc [symmetric])
qed

lemma init_prefix_inv: "app_inv (snd (run_stages (take k (init_stages V path)) app_new))"
proof -
  have "app_inv (snd (run_stages (drop 0 (take k (init_stages V path))) app_new))"
  proof (rule run_stages_inv [where I = stage_inv])
    show "stage_inv (Suc j) (snd ((take k (init_stages V path) ! j) x))"
      if "stage_inv j x" "j < length (take k (init_stages V path))" for j x
      using stage_step [OF that(1)] that(2) by simp
    show "stage_inv 0 app_new" using app_inv_new by (simp add: stage_inv_def)
  qed (simp_all add: stage_inv_def)
  then show ?thesis by simp
qed

lemma app_initialize_inv: "app_inv (snd (app_initialize V path app_new))"
  using init_prefix_inv [of "length (init_stages V path)" V path] by (simp add: app_initialize_def)

section \<open>Events and the way down keep them too\<close>

lemma request_stop_inv [simp]: "app_inv (RequestStop x) = app_inv x"
  unfolding RequestStop_def by (rule app_inv_flags)

lemma bus_message_inv: "app_inv x \<Longrightarrow> app_inv (OnBusMessage seek file m x)"
  by (simp add: OnBusMessage_def Let_def sample_inv_refs split: bus_message.split)

lemma app_event_inv: "app_inv x \<Longrightarrow> app_inv (app_event_step x e)"
proof (cases e)
  case PublisherGone
  assume x: "app_inv x"
  show ?thesis
  proof (cases "ca_publisher x")
    case (Some p)
    obtain oc k where l: "lose (mp_client p) = (oc, k)" by fastforce
    have "books (client_list (mp_client p) @ []) (ca_world x) (ca_lost x)"
      using x Some by (simp add: app_inv_def publisher_clients_def)
    from books_lose [OF this l] show ?thesis
      using x Some l PublisherGone by (auto simp: app_event_step_def app_inv_def refs_ok_def publisher_clients_def)
  qed (use x PublisherGone in \<open>simp add: app_event_step_def\<close>)
qed (simp_all add: app_event_step_def bus_message_inv sample_inv_refs)

interpretation app_events: step_system app_event_step app_inv
  by unfold_locales (rule app_event_inv)

lemma publisher_gone:
  assumes "books (client_list (mp_client p)) w n" "publisher_shutdown p w = (p', w')"
  shows "mp_client p' = None" "books [] w' n" "publisher_shutdown p' w' = (p', w')"
proof -
  show n: "mp_client p' = None" using assms(2) by (auto simp: publisher_shutdown_def Let_def split: option.splits prod.splits)
  have "books (client_list (mp_client p) @ []) w n" using assms(1) by simp
  from books_publisher_shutdown [OF this assms(2)] show "books [] w' n" using n by simp
  show "publisher_shutdown p' w' = (p', w')" using n by (simp add: publisher_shutdown_def)
qed

lemma stop_publisher_inv:
  assumes "app_inv x" "\<not> ca_agg_publishes x"
  shows "app_inv (stop_publisher x) \<and> \<not> ca_agg_publishes (stop_publisher x)"
proof (cases "ca_publisher x")
  case (Some p)
  obtain p' w' where d: "publisher_shutdown p (ca_world x) = (p', w')" by fastforce
  have "books (client_list (mp_client p)) (ca_world x) (ca_lost x)"
    using assms(1) Some by (simp add: app_inv_def publisher_clients_def)
  from publisher_gone [OF this d] show ?thesis
    using assms Some d by (auto simp: stop_publisher_def app_inv_def refs_ok_def publisher_clients_def)
qed (use assms in \<open>simp add: stop_publisher_def\<close>)

text \<open>What each stage of the way down relies on of the stages before.\<close>

definition down_inv :: "nat \<Rightarrow> camera_app \<Rightarrow> bool" where
  "down_inv k x =
     (app_inv x \<and> (1 < k \<longrightarrow> ca_workers x = []) \<and> (2 < k \<longrightarrow> \<not> ca_agg_publishes x)
      \<and> (4 < k \<longrightarrow> \<not> ca_elem_producer x \<and> \<not> ca_elem_gallery x))"

lemma stop_stage_step:
  assumes "down_inv k x" "k < 6"
  shows "down_inv (Suc k) ((stop_stages ! k) x)"
proof -
  have "k = 0 \<or> k = 1 \<or> k = 2 \<or> k = 3 \<or> k = 4 \<or> k = 5" using assms(2) by auto
  moreover have dropped: "app_inv (stop_workers x)" if "app_inv x"
  proof -
    have "holds_nothing (worker_stop (worker_stop w))" if "w \<in> set (ca_workers x)" for w
      using that \<open>app_inv x\<close> sound_stop holds_nothing_sound unfolding app_inv_def by blast
    then show ?thesis using that by (auto simp: stop_workers_def app_inv_def refs_ok_def publisher_clients_def)
  qed
  ultimately show ?thesis
  proof (elim disjE)
    assume k: "k = 2"
    then show ?thesis using assms(1)
      by (auto simp: down_inv_def stop_stages_def stop_aggregator_def app_inv_def refs_ok_def publisher_clients_def)
  next
    assume k: "k = 3"
    have "ca_workers (stop_publisher x) = ca_workers x"
      by (simp add: stop_publisher_def Let_def split: option.split prod.split)
    then show ?thesis using assms(1) k stop_publisher_inv [of x]
      by (simp add: down_inv_def stop_stages_def)
  next
    assume k: "k = 4"
    then show ?thesis using assms(1)
      by (auto simp: down_inv_def stop_stages_def stop_graph_def app_inv_def refs_ok_def publisher_clients_def)
  next
    assume k: "k = 5"
    then show ?thesis using assms(1)
      by (auto simp: down_inv_def stop_stages_def stop_cache_def app_inv_def refs_ok_def publisher_clients_def Let_def
          split: option.split prod.split)
  qed (use assms(1) dropped in \<open>simp_all add: down_inv_def stop_stages_def stop_bus_def stop_workers_def\<close>)
qed

lemma stop_prefix_inv:
  assumes "app_inv x" "k \<le> 6"
  shows "down_inv k (foldl (\<lambda>x f. f x) x (take k stop_stages))"
  using assms(2)
proof (induction k)
  case 0
  then show ?case using assms(1) by (simp add: down_inv_def)
next
  case (Suc k)
  then have "k < length stop_stages" by (simp add: stop_stages_def)
  then show ?case using Suc stop_stage_step by (simp add: take_Suc_conv_app_nth)
qed


section \<open>What a run leaves\<close>

definition app_idle :: "camera_app \<Rightarrow> bool" where
  "app_idle x =
     (\<not> ca_loop x \<and> \<not> ca_pipeline x \<and> ca_workers x = [] \<and> ca_msgagg x = None \<and> ca_cache x = None \<and> ca_publisher x = None
      \<and> ca_aggregator x = None \<and> ca_bus x = 0 \<and> ca_timer x = 0 \<and> \<not> ca_log x)"

lemma stop_pipeline_down: "app_inv x \<Longrightarrow> down_inv 6 (StopPipeline x)"
  using stop_prefix_inv [of x 6] by (simp add: StopPipeline_def stop_stages_def)

lemma stop_memory_inv: "app_inv (StopMemoryMonitor file x) = app_inv x"
proof -
  have "app_inv (SampleMemory file t (x\<lparr>ca_timer := 0\<rparr>)) = app_inv x" for t
    unfolding sample_inv_refs by (rule app_inv_flags)
  then show ?thesis by (simp add: StopMemoryMonitor_def Let_def)
qed

lemma sample_keeps [simp]:
  "ca_log (SampleMemory f t x) = ca_log x" "ca_timer (SampleMemory f t x) = ca_timer x"
  "ca_error (SampleMemory f t x) = ca_error x" "ca_running (SampleMemory f t x) = ca_running x"
  "ca_config (SampleMemory f t x) = ca_config x" "ca_iteration (SampleMemory f t x) = ca_iteration x"
  "ca_entered (SampleMemory f t x) = ca_entered x" "ca_pipeline (SampleMemory f t x) = ca_pipeline x"
  "ca_loop (SampleMemory f t x) = ca_loop x" "ca_msgagg (SampleMemory f t x) = ca_msgagg x"
  "ca_lost (SampleMemory f t x) = ca_lost x"
  by (simp_all add: SampleMemory_def Let_def split: option.split prod.split)

lemma stop_publisher_keeps [simp]:
  "ca_publisher (stop_publisher x) = None" "ca_pipeline (stop_publisher x) = ca_pipeline x"
  "ca_log (stop_publisher x) = ca_log x" "ca_timer (stop_publisher x) = ca_timer x" "ca_bus (stop_publisher x) = ca_bus x"
  "ca_aggregator (stop_publisher x) = ca_aggregator x" "ca_workers (stop_publisher x) = ca_workers x"
  "ca_cache (stop_publisher x) = ca_cache x" "ca_msgagg (stop_publisher x) = ca_msgagg x"
  "ca_error (stop_publisher x) = ca_error x"
  by (simp_all add: stop_publisher_def split: option.split prod.split)

lemma stop_cache_keeps [simp]:
  "ca_cache (stop_cache x) = None" "ca_publisher (stop_cache x) = ca_publisher x" "ca_pipeline (stop_cache x) = ca_pipeline x"
  "ca_log (stop_cache x) = ca_log x" "ca_timer (stop_cache x) = ca_timer x" "ca_bus (stop_cache x) = ca_bus x"
  "ca_aggregator (stop_cache x) = ca_aggregator x" "ca_workers (stop_cache x) = ca_workers x"
  "ca_msgagg (stop_cache x) = ca_msgagg x" "ca_error (stop_cache x) = ca_error x"
  by (simp_all add: stop_cache_def split: option.split prod.split)

text \<open>The merging element is in the pipeline.\<close>

definition msgagg_ok :: "camera_app \<Rightarrow> bool" where
  "msgagg_ok x = (ca_pipeline x \<or> ca_msgagg x = None)"

lemma release_idle:
  assumes "msgagg_ok x"
  shows "app_idle (release_all file x)"
  using assms
  by (auto simp: app_idle_def release_all_def ReleaseMainLoop_def StopPipeline_def stop_stages_def stop_bus_def
      stop_workers_def stop_aggregator_def stop_graph_def StopMemoryMonitor_def msgagg_ok_def Let_def)

lemma release_error: "ca_error (release_all file x) = ca_error x"
  by (simp add: release_all_def ReleaseMainLoop_def StopPipeline_def stop_stages_def stop_bus_def
      stop_workers_def stop_aggregator_def stop_graph_def StopMemoryMonitor_def Let_def)

lemma release_books:
  assumes "app_inv x"
  shows "(\<forall>w \<in> set (ca_dropped (release_all file x)). holds_nothing w)
    \<and> books (publisher_clients (release_all file x)) (ca_world (release_all file x)) (ca_lost (release_all file x))"
proof -
  have "app_inv (StopMemoryMonitor file x)" using assms by (simp add: stop_memory_inv)
  from stop_pipeline_down [OF this] show ?thesis
    by (simp add: release_all_def ReleaseMainLoop_def down_inv_def app_inv_def publisher_clients_def)
qed

text \<open>The pipeline is there whenever a stage after it runs.\<close>

lemma workers_from_pipeline: "ca_pipeline (snd (init_workers_from V i vs x)) = ca_pipeline x \<and> ca_msgagg (snd (init_workers_from V i vs x)) = ca_msgagg x"
  by (induction V i vs x rule: init_workers_from.induct) (simp_all add: drop_worker_def split: option.split prod.split)

definition pipe_inv :: "nat \<Rightarrow> camera_app \<Rightarrow> bool" where
  "pipe_inv k x = (msgagg_ok x \<and> (2 \<le> k \<longrightarrow> ca_pipeline x))"

lemma start_monitor_keeps [simp]:
  "ca_pipeline (StartMemoryMonitor V x) = ca_pipeline x" "ca_msgagg (StartMemoryMonitor V x) = ca_msgagg x"
  by (simp_all add: StartMemoryMonitor_def Let_def)

lemma init_publisher_keeps [simp]:
  "ca_pipeline (init_publisher V x) = ca_pipeline x" "ca_msgagg (init_publisher V x) = ca_msgagg x"
  "ca_workers (init_publisher V x) = ca_workers x"
  by (simp_all add: init_publisher_def Let_def split: prod.split option.split)

lemma stages_keep [simp]:
  "ca_pipeline (snd (init_gallery V x)) = ca_pipeline x" "ca_msgagg (snd (init_gallery V x)) = ca_msgagg x"
  "ca_pipeline (snd (init_workers V x)) = ca_pipeline x" "ca_msgagg (snd (init_workers V x)) = ca_msgagg x"
  "ca_pipeline (exclude_aggregator x) = ca_pipeline x" "ca_msgagg (exclude_aggregator x) = ca_msgagg x"
  "ca_pipeline (snd (init_msgagg V x)) = ca_pipeline x"
  "ca_pipeline (snd (init_bus V x)) = ca_pipeline x" "ca_msgagg (snd (init_bus V x)) = ca_msgagg x"
  by (simp_all add: init_gallery_def init_workers_def workers_from_pipeline exclude_aggregator_def init_msgagg_def init_bus_def
      Let_def split: prod.split)

lemma stages_keep_more [simp]:
  "ca_pipeline (snd (init_cache V x)) = ca_pipeline x" "ca_msgagg (snd (init_cache V x)) = ca_msgagg x"
  "ca_pipeline (snd (init_aggregator V x)) = ca_pipeline x" "ca_msgagg (snd (init_aggregator V x)) = ca_msgagg x"
  by (simp_all add: init_cache_def init_aggregator_def Let_def split: prod.split sum.split)

lemma run_stages_success:
  assumes "\<And>k x. I k x \<Longrightarrow> k < length fs \<Longrightarrow> case (fs ! k) x of (None, y) \<Rightarrow> I (Suc k) y | (Some _, y) \<Rightarrow> P y"
    and "\<And>x. I (length fs) x \<Longrightarrow> P x" "I n x" "n \<le> length fs"
  shows "P (snd (run_stages (drop n fs) x))"
  using assms(3,4)
proof (induction "length fs - n" arbitrary: n x)
  case 0
  then show ?case using assms(2) [of x] by simp
next
  case (Suc m)
  then have n: "n < length fs" by simp
  obtain e y where f: "(fs ! n) x = (e, y)" by fastforce
  show ?case
    using assms(1) [OF Suc.prems(1) n] Suc.hyps(1) [of "Suc n" y] Suc.hyps(2) f n
    by (cases e) (simp_all add: Cons_nth_drop_Suc [symmetric])
qed

lemma init_stages_length [simp]: "length (init_stages V path) = 8"
  by (simp add: init_stages_def)

lemma pipe_step:
  assumes "pipe_inv k x" "k < 8"
  shows "case (init_stages V path ! k) x of (None, y) \<Rightarrow> pipe_inv (Suc k) y | (Some _, y) \<Rightarrow> msgagg_ok y"
proof -
  have late: ?thesis if "2 \<le> k" "ca_pipeline (snd ((init_stages V path ! k) x)) = ca_pipeline x"
    using assms(1) that
    by (cases "(init_stages V path ! k) x") (auto simp: pipe_inv_def msgagg_ok_def split: option.split)
  have "k = 0 \<or> k = 1 \<or> k = 2 \<or> k = 3 \<or> k = 4 \<or> k = 5 \<or> k = 6 \<or> k = 7" using assms(2) by auto
  then consider "k = 0" | "k = 1" | "2 \<le> k" "ca_pipeline (snd ((init_stages V path ! k) x)) = ca_pipeline x"
    by (elim disjE) (simp_all add: init_stages_def)
  then show ?thesis
  proof cases
    case 1
    then show ?thesis using assms(1)
      by (simp add: init_stages_def init_config_def pipe_inv_def msgagg_ok_def Let_def split: sum.split)
  next
    case 2
    then show ?thesis using assms(1) by (simp add: init_stages_def init_pipeline_def pipe_inv_def msgagg_ok_def Let_def)
  qed (rule late)
qed

lemma app_initialize_msgagg: "msgagg_ok (snd (app_initialize V path app_new))"
proof -
  have "msgagg_ok (snd (run_stages (drop 0 (init_stages V path)) app_new))"
    by (rule run_stages_success [where I = pipe_inv])
      (use pipe_step in \<open>auto simp: pipe_inv_def msgagg_ok_def app_new_def\<close>)
  then show ?thesis by (simp add: app_initialize_def)
qed

lemma bus_message_pipe: "msgagg_ok (OnBusMessage seek file m x) = msgagg_ok x"
  by (simp add: OnBusMessage_def RequestStop_def msgagg_ok_def Let_def split: bus_message.split)

lemma app_event_pipe: "msgagg_ok x \<Longrightarrow> msgagg_ok (app_event_step x e)"
proof (cases e)
  case (Bus seek status m)
  then show "msgagg_ok x \<Longrightarrow> ?thesis" by (simp add: app_event_step_def bus_message_pipe)
qed (auto simp: app_event_step_def RequestStop_def msgagg_ok_def split: option.split prod.split)

interpretation app_pipe: step_system app_event_step msgagg_ok
  by unfold_locales (rule app_event_pipe)


section \<open>How often the videos are played\<close>

text \<open>Events that end nothing of themselves: seeks succeed, and nothing fails.\<close>

fun peaceful :: "app_event \<Rightarrow> bool" where
  "peaceful (Bus seek file m) = (seek \<and> m \<noteq> PipelineError)"
| "peaceful (MonitorTick file) = True"
| "peaceful WorkerFails = False"
| "peaceful PublisherGone = True"

fun ends_stream :: "app_event \<Rightarrow> bool" where
  "ends_stream (Bus seek file EndOfStream) = True"
| "ends_stream _ = False"

text \<open>The state of the loop after \<open>n\<close> ends of the stream, of a loop count that is not zero.\<close>

definition loop_state :: "u32 \<Rightarrow> nat \<Rightarrow> camera_app \<Rightarrow> bool" where
  "loop_state k n x =
     (as_loops (ca_config x) = k \<and> ca_entered x \<and> ca_pipeline x \<and> ca_loop x
      \<and> ca_running x = (n < unat k) \<and> (n \<le> unat k \<longrightarrow> unat (ca_iteration x) = n))"

lemma loop_state_step:
  assumes "loop_state k n x" "peaceful e" "k \<noteq> 0"
  shows "loop_state k (n + of_bool (ends_stream e)) (app_event_step x e)"
proof (cases "ends_stream e")
  case True
  then obtain seek status where e: "e = Bus seek status EndOfStream" by (cases e rule: ends_stream.cases) auto
  show ?thesis
  proof (cases "n < unat k")
    case True
    have i: "unat (ca_iteration x + 1) = Suc n"
      using assms(1) True unsigned_less [where 'a = nat, of k] by (simp add: loop_state_def unat_word_ariths)
    show ?thesis
      using assms e True i
      by (auto simp: loop_state_def app_event_step_def OnBusMessage_def Let_def RequestStop_def word_less_nat_alt)
  next
    case False
    then show ?thesis using assms e by (simp add: loop_state_def app_event_step_def)
  qed
next
  case False
  show ?thesis
  proof (cases e)
    case (Bus seek status m)
    then show ?thesis using assms False
      by (cases m) (auto simp: loop_state_def app_event_step_def OnBusMessage_def)
  qed (use assms False in \<open>auto simp: loop_state_def app_event_step_def split: option.split prod.split\<close>)
qed

lemma loop_state_run:
  assumes "loop_state k n x" "list_all peaceful es" "k \<noteq> 0"
  shows "loop_state k (n + length (filter ends_stream es)) (foldl app_event_step x es)"
  using assms(1,2)
proof (induction es arbitrary: n x)
  case (Cons e es)
  from Cons.IH [OF loop_state_step [OF Cons.prems(1) _ assms(3)], of e] Cons.prems(2) show ?case
    by (cases "ends_stream e") simp_all
qed simp

lemma endless_step:
  assumes "as_loops (ca_config x) = 0" "ca_pipeline x" "ca_running x" "peaceful e"
  shows "as_loops (ca_config (app_event_step x e)) = 0 \<and> ca_pipeline (app_event_step x e) \<and> ca_running (app_event_step x e)"
  using assms
  by (cases e) (auto simp: app_event_step_def OnBusMessage_def Let_def split: bus_message.split option.split prod.split)

text \<open>
  C33: A playing pipeline plays its videos as often as the configuration says: as long as seeks succeed and nothing
  fails, whatever other messages come between, the main loop runs exactly until the configured number of ends of
  the stream has come, and for ever when that number is zero, beyond the range of the counter too.
\<close>

theorem videos_played_as_configured:
  assumes "ca_running x" "ca_entered x" "ca_iteration x = 0" "ca_pipeline x" "ca_loop x" "list_all peaceful es"
  shows "ca_running (foldl app_event_step x es) =
    (as_loops (ca_config x) = 0 \<or> length (filter ends_stream es) < unat (as_loops (ca_config x)))"
proof (cases "as_loops (ca_config x) = 0")
  case True
  have "as_loops (ca_config (foldl app_event_step x es)) = 0 \<and> ca_pipeline (foldl app_event_step x es)
      \<and> ca_running (foldl app_event_step x es)"
    using assms(1,4,6) True
  proof (induction es arbitrary: x)
    case (Cons e es)
    from endless_step [of x e] Cons.prems have "as_loops (ca_config (app_event_step x e)) = 0
        \<and> ca_pipeline (app_event_step x e) \<and> ca_running (app_event_step x e)" by simp
    then show ?case using Cons by simp
  qed simp
  then show ?thesis using True by simp
next
  case False
  have "0 < unat (as_loops (ca_config x))" using False by (simp add: unat_gt_0)
  then have "loop_state (as_loops (ca_config x)) 0 x" using assms by (simp add: loop_state_def)
  from loop_state_run [OF this assms(6) False] show ?thesis using False by (simp add: loop_state_def)
qed

definition example_running :: "u32 \<Rightarrow> camera_app" where
  "example_running k =
     app_new\<lparr>ca_running := True, ca_entered := True, ca_pipeline := True, ca_loop := True,
             ca_config := settings_default\<lparr>as_loops := k\<rparr>\<rparr>"

theorem videos_played_as_configured_witness:
  "\<not> ca_running (foldl app_event_step (example_running 2)
      [Bus True None EndOfStream, MonitorTick None, Bus True None OtherMessage, Bus True None EndOfStream])
   \<and> ca_running (foldl app_event_step (example_running 2) [Bus True None EndOfStream, PublisherGone])"
  using videos_played_as_configured [of "example_running 2"
      "[Bus True None EndOfStream, MonitorTick None, Bus True None OtherMessage, Bus True None EndOfStream]"]
    videos_played_as_configured [of "example_running 2" "[Bus True None EndOfStream, PublisherGone]"]
  by (simp add: example_running_def app_new_def settings_default_def)

section \<open>What goes wrong\<close>

text \<open>A failed seek stops the run, which then reports success.\<close>

lemma failed_seek_is_success:
  assumes "ca_running x" "ca_entered x" "as_loops (ca_config x) = 0" "ca_loop x" "\<not> ca_error x"
  shows "\<not> ca_running (app_event_step x (Bus False status EndOfStream))
    \<and> \<not> ca_error (app_event_step x (Bus False status EndOfStream))"
  using assms by (simp add: app_event_step_def OnBusMessage_def RequestStop_def Let_def)

text \<open>A request to stop that comes before the loop starts is lost.\<close>

lemma early_stop_is_lost:
  "ca_running ((app_event_step x WorkerFails)\<lparr>ca_running := True\<rparr>) \<and> ca_stop (app_event_step x WorkerFails)"
  by (simp add: app_event_step_def RequestStop_def)

text \<open>An end of the stream before the pipeline counts as playing does nothing, not even count.\<close>

lemma early_end_is_ignored:
  "\<not> ca_entered x \<Longrightarrow> app_event_step x (Bus seek status EndOfStream) = x"
  by (simp add: app_event_step_def OnBusMessage_def)

text \<open>The milliseconds of a long interval wrap around.\<close>

lemma long_interval_wraps: "as_mem_interval (ca_config x) = 4294968 \<Longrightarrow> monitor_interval x = 704"
  by (simp add: monitor_interval_def)

text \<open>
  With the merging element wanted but the frame cache off, the aggregator is turned off for nothing: no
  element, no aggregator, and no worker hears of a sample.
\<close>

lemma msgagg_without_cache:
  assumes "ms_enabled (as_msgagg c)" "\<not> cs_enabled (as_cache c)" "ca_config x = c" "app_cached x" "ca_msgagg x = None"
  shows "case init_cache V x of (_, y) \<Rightarrow> (case init_msgagg V y of (_, z) \<Rightarrow> (case init_aggregator V z of (_, u) \<Rightarrow>
      ca_aggregator u = None \<and> ca_msgagg u = None \<and> ca_workers u = ca_workers x))"
  using assms
  by (auto simp: init_cache_def init_msgagg_def init_aggregator_def exclude_aggregator_def app_cached_def Let_def)

lemma msgagg_workers_deaf:
  assumes "ms_enabled (as_msgagg c)" "worker_initialize V c True bin sh (ChannelWorker_new i) = (None, w)"
  shows "cw_signal w = 0"
  using assms
  by (auto simp: worker_initialize_def start_chain_def open_worker_def set_up_faces_def attach_chain_def ChannelWorker_new_def
      ResetSampleStats_def Let_def split: option.splits prod.splits if_splits)

section \<open>What a successful start has built\<close>

lemma run_stages_none:
  assumes "\<And>k x y. I k x \<Longrightarrow> k < length fs \<Longrightarrow> (fs ! k) x = (None, y) \<Longrightarrow> I (Suc k) y"
    and "I n x" "n \<le> length fs" "run_stages (drop n fs) x = (None, y)"
  shows "I (length fs) y"
  using assms(2-)
proof (induction "length fs - n" arbitrary: n x)
  case (Suc m)
  then have n: "n < length fs" by simp
  obtain e z where f: "(fs ! n) x = (e, z)" by fastforce
  have r: "case e of None \<Rightarrow> run_stages (drop (Suc n) fs) z = (None, y) | Some _ \<Rightarrow> False"
    using Suc.prems(3) f n by (simp add: Cons_nth_drop_Suc [symmetric] split: option.splits)
  then have "e = None" by (simp split: option.splits)
  then show ?case using Suc.hyps(1) [of "Suc n" z] Suc.hyps(2) assms(1) [OF Suc.prems(1) n] f r n by simp
qed simp

lemma worker_channel [simp]:
  "cw_channel (worker_stop w) = cw_channel w" "cw_channel (attach_chain V c w) = cw_channel w"
  "cw_channel (ResetSampleStats w) = cw_channel w" "cw_channel (snd (open_worker V w)) = cw_channel w"
  "cw_channel (snd (start_chain V c sh w)) = cw_channel w"
  "cw_channel (snd (worker_initialize V c ctx bin sh w)) = cw_channel w"
proof -
  show o: "cw_channel (snd (open_worker V w)) = cw_channel w" for V w
    by (simp add: open_worker_def worker_stop_def split: option.split prod.split)
  show c: "cw_channel (snd (start_chain V c sh w)) = cw_channel w" for V c sh w
    by (simp add: start_chain_def Let_def o attach_chain_def worker_stop_def split: option.split)
  show "cw_channel (snd (worker_initialize V c ctx bin sh w)) = cw_channel w"
    by (simp add: worker_initialize_def Let_def c ResetSampleStats_def split: option.split prod.split)
qed (simp_all add: worker_stop_def attach_chain_def ResetSampleStats_def)

text \<open>The workers made for the channels from \<open>i\<close> on.\<close>

definition workers_for :: "nat \<Rightarrow> nat \<Rightarrow> channel_worker list \<Rightarrow> bool" where
  "workers_for i n ws = (map cw_channel ws = map of_nat [i..<i + n] \<and> list_all cw_initialized ws)"

lemma workers_for_Cons:
  "workers_for i (Suc n) (w # ws) = (cw_channel w = of_nat i \<and> cw_initialized w \<and> workers_for (Suc i) n ws)"
  by (auto simp: workers_for_def upt_conv_Cons simp del: upt_Suc)

lemma init_workers_from_built:
  assumes "init_workers_from V i vs x = (None, y)"
  shows "\<exists>ws. ca_workers y = ca_workers x @ ws \<and> workers_for i (length vs) ws
    \<and> ca_config y = ca_config x \<and> ca_aggregator y = ca_aggregator x \<and> ca_loop y = ca_loop x"
  using assms
proof (induction V i vs x rule: init_workers_from.induct)
  case (2 V i v vs x)
  obtain e w where w: "worker_initialize (ae_worker V i) (ca_config x) True (ca_pipeline x) (ca_gallery x \<noteq> None)
      (ChannelWorker_new (of_nat i)) = (e, w)" by fastforce
  then have e: "e = None" and r: "init_workers_from V (Suc i) vs (x\<lparr>ca_workers := ca_workers x @ [w]\<rparr>) = (None, y)"
    using 2(2) by (auto split: option.splits)
  have "cw_initialized w" using initialize_sound [OF new_worker_sound w] e by simp
  moreover have "cw_channel w = cw_channel (ChannelWorker_new (of_nat i))"
    using worker_channel(6) [of "ae_worker V i" "ca_config x" True "ca_pipeline x" "ca_gallery x \<noteq> None" "ChannelWorker_new (of_nat i)"]
    unfolding w by simp
  then have "cw_channel w = of_nat i" by (simp add: ChannelWorker_new_def)
  ultimately show ?case
    using 2(1) [OF w [symmetric] e r] by (auto simp: workers_for_Cons)
qed (simp add: workers_for_def)

text \<open>What holds after \<open>k\<close> stages that answered no error.\<close>

definition built :: "nat \<Rightarrow> camera_app \<Rightarrow> bool" where
  "built k x =
     ((0 < k \<longrightarrow> settings_ok (ca_config x))
      \<and> (1 < k \<longrightarrow> ca_loop x)
      \<and> (3 < k \<longrightarrow> workers_for 0 (length (as_videos (ca_config x))) (ca_workers x))
      \<and> (4 < k \<longrightarrow> \<not> (ms_enabled (as_msgagg (ca_config x)) \<and> gs_enabled (as_agg (ca_config x)))
           \<and> (cs_enabled (as_cache (ca_config x)) \<longrightarrow> (\<exists>fc. ca_cache x = Some fc \<and> fc_inited fc \<and> fc_subscribed fc)))
      \<and> (k < 7 \<longrightarrow> ca_aggregator x = None)
      \<and> (6 < k \<longrightarrow> (ca_aggregator x \<noteq> None) = gs_enabled (as_agg (ca_config x))
           \<and> list_all (\<lambda>w. cw_aggregator w \<or> ca_aggregator x = None) (ca_workers x))
      \<and> (7 < k \<longrightarrow> ca_bus x \<noteq> 0))"

lemma settings_ok_exclude: "settings_ok (c\<lparr>as_agg := (as_agg c)\<lparr>gs_enabled := b\<rparr>\<rparr>) = settings_ok c"
  by (simp add: settings_ok_def paths_ok_def scalars_ok_def objects_ok_def agg_ok_def)

lemma fc_init_inited: "fc_init h s sub p frame_cache_new = (Inr u, fc, io) \<Longrightarrow> fc_inited fc \<and> fc_subscribed fc"
  by (auto simp: fc_init_def split: if_splits prod.splits sum.splits option.splits)

lemma start_monitor_built [simp]:
  "ca_config (StartMemoryMonitor V x) = ca_config x" "ca_loop (StartMemoryMonitor V x) = ca_loop x"
  "ca_workers (StartMemoryMonitor V x) = ca_workers x" "ca_cache (StartMemoryMonitor V x) = ca_cache x"
  "ca_aggregator (StartMemoryMonitor V x) = ca_aggregator x" "ca_bus (StartMemoryMonitor V x) = ca_bus x"
  by (simp_all add: StartMemoryMonitor_def SampleMemory_def Let_def split: option.split prod.split)

lemma init_publisher_built [simp]:
  "ca_config (init_publisher V x) = ca_config x" "ca_loop (init_publisher V x) = ca_loop x"
  "ca_cache (init_publisher V x) = ca_cache x" "ca_aggregator (init_publisher V x) = ca_aggregator x"
  by (simp_all add: init_publisher_def Let_def split: prod.split option.split)

lemma workers_for_flag: "workers_for i n (map (\<lambda>w. w\<lparr>cw_aggregator := b\<rparr>) ws) = workers_for i n ws"
  by (simp add: workers_for_def comp_def list_all_length)

lemma built_step:
  assumes "built k x" "k < 8" "(init_stages V path ! k) x = (None, y)"
  shows "built (Suc k) y"
proof -
  have "k = 0 \<or> k = 1 \<or> k = 2 \<or> k = 3 \<or> k = 4 \<or> k = 5 \<or> k = 6 \<or> k = 7" using assms(2) by auto
  then show ?thesis
  proof (elim disjE)
    assume "k = 0"
    then show ?thesis using assms(1,3) load_settings_ok
      by (auto simp: built_def init_stages_def init_config_def Let_def split: sum.splits if_splits)
  next
    assume "k = 3"
    then have x: "settings_ok (ca_config x)" "ca_loop x" "ca_aggregator x = None"
      and i: "init_workers_from V 0 (as_videos (ca_config x)) (x\<lparr>ca_workers := []\<rparr>) = (None, y)"
      using assms(1,3) by (auto simp: built_def init_stages_def init_workers_def)
    from init_workers_from_built [OF i] x \<open>k = 3\<close> show ?thesis by (auto simp: built_def)
  next
    assume k: "k = 4"
    define z where "z = exclude_aggregator x"
    have z: "built 4 z" "\<not> (ms_enabled (as_msgagg (ca_config z)) \<and> gs_enabled (as_agg (ca_config z)))"
      using assms(1) k by (auto simp: z_def exclude_aggregator_def built_def settings_ok_exclude)
    from assms(3) k have i: "init_cache V x = (None, y)" by (simp add: init_stages_def)
    show ?thesis
      using i z fc_init_inited unfolding init_cache_def z_def [symmetric]
      by (auto simp: Let_def built_def k split: if_splits sum.splits prod.splits)
  next
    assume k: "k = 6"
    show ?thesis using assms(1,3) k
      by (auto simp: built_def init_stages_def init_aggregator_def ag_start_def ag_new_def Let_def workers_for_flag list_all_length
          split: if_splits)
  qed (use assms(1,3) in \<open>auto simp: built_def init_stages_def init_pipeline_def init_gallery_def init_msgagg_def init_bus_def Let_def
        split: if_splits prod.splits\<close>)
qed


end
