(* ===== verification/VitPreprocess.thy ===== *)
theory VitPreprocess
  imports FaceInfer "HOL-Library.Multiset"
begin

text \<open>
  The preparation of a picture for the vision encoder (\<open>qwen3vit_deploy/qwen_vl_preprocessor.cpp\<close>): the size it
  is scaled to, the normalisation, the rearrangement into patches, the order of the position embeddings
  and the checks. Reading and scaling a picture (stb), the OpenCL path and the generated table of embeddings are
  arguments; so are \<open>pow\<close>, \<open>cos\<close> and \<open>sin\<close>.
\<close>

section \<open>Configuration\<close>

record vit_config =
  vc_patch :: int
  vc_temporal :: int
  vc_merge :: int
  vc_min_tokens :: int
  vc_max_tokens :: int
  vc_channels :: int
  vc_input_dim :: int
  vc_rope_dim :: int
  vc_mean :: "cfloat list"
  vc_std :: "cfloat list"

definition vit_default :: vit_config where
  "vit_default =
     \<lparr>vc_patch = 16, vc_temporal = 2, vc_merge = 2, vc_min_tokens = 4, vc_max_tokens = 16384, vc_channels = 3,
      vc_input_dim = 0, vc_rope_dim = 32,
      vc_mean = [fl B32 (48145466 / 100000000), fl B32 (4578275 / 10000000), fl B32 (40821073 / 100000000)],
      vc_std = [fl B32 (26862954 / 100000000), fl B32 (26130258 / 100000000), fl B32 (27577711 / 100000000)]\<rparr>"

text \<open>The constructor: None when it throws.\<close>

definition vit_new :: "vit_config \<Rightarrow> vit_config option" where
  "vit_new c =
     (if vc_patch c \<le> 0 \<or> vc_merge c \<le> 0 \<or> vc_temporal c \<le> 0 then None
      else Some (c\<lparr>vc_input_dim := vc_channels c * vc_temporal c * vc_patch c * vc_patch c\<rparr>))"

section \<open>The size of the picture\<close>

definition double_of_int :: "int \<Rightarrow> cfloat" where
  "double_of_int i = fl B64 (of_int i)"

text \<open>\<open>std::round\<close> (halves away from zero), \<open>std::floor\<close> and \<open>std::ceil\<close>: exact on doubles.\<close>

definition round_away :: "rat \<Rightarrow> int" where
  "round_away q = (if 0 \<le> q then \<lfloor>q + 1 / 2\<rfloor> else - \<lfloor>1 / 2 - q\<rfloor>)"

fun float_map :: "(rat \<Rightarrow> int) \<Rightarrow> cfloat \<Rightarrow> cfloat" where
  "float_map r (Fin q) = Fin (of_int (r q))"
| "float_map r x = x"

text \<open>The cast to a 64-bit integer: truncation; out of range (undefined in C) it saturates.\<close>

fun i64_of_float :: "cfloat \<Rightarrow> int" where
  "i64_of_float (Fin q) =
     max (- 9223372036854775808) (min 9223372036854775807 (if q < 0 then \<lceil>q\<rceil> else \<lfloor>q\<rfloor>))"
| "i64_of_float PInf = 9223372036854775807"
| "i64_of_float NInf = - 9223372036854775808"
| "i64_of_float NaN = 0"

definition by_factor :: "(rat \<Rightarrow> int) \<Rightarrow> int \<Rightarrow> int \<Rightarrow> int" where
  "by_factor r v n =
     i64_of_float (fmul B64 (float_map r (fdiv B64 (double_of_int v) (double_of_int n))) (double_of_int n))"

definition roundByFactor :: "int \<Rightarrow> int \<Rightarrow> int" where
  "roundByFactor = by_factor round_away"

definition floorByFactor :: "int \<Rightarrow> int \<Rightarrow> int" where
  "floorByFactor = by_factor floor"

definition ceilByFactor :: "int \<Rightarrow> int \<Rightarrow> int" where
  "ceilByFactor = by_factor ceiling"

text \<open>Height and width; the product of the two is taken as an integer that does not overflow.\<close>

definition getResizedImageSize :: "vit_config \<Rightarrow> int \<Rightarrow> int \<Rightarrow> int \<times> int" where
  "getResizedImageSize c height width =
     (let n = vc_patch c * vc_merge c;
          min_pixels = vc_min_tokens c * n * n;
          max_pixels = vc_max_tokens c * n * n;
          h = max n (roundByFactor height n);
          w = max n (roundByFactor width n)
      in if max_pixels < h * w then
           (let beta = fsqrt B64 (fdiv B64 (double_of_int (height * width)) (double_of_int max_pixels))
            in (floorByFactor (i64_of_float (fdiv B64 (double_of_int height) beta)) n,
                floorByFactor (i64_of_float (fdiv B64 (double_of_int width) beta)) n))
         else if h * w < min_pixels then
           (let beta = fsqrt B64 (fdiv B64 (double_of_int min_pixels) (double_of_int (height * width)))
            in (ceilByFactor (i64_of_float (fmul B64 (double_of_int height) beta)) n,
                ceilByFactor (i64_of_float (fmul B64 (double_of_int width) beta)) n))
         else (h, w))"

section \<open>Normalisation\<close>

definition normalized_value :: "vit_config \<Rightarrow> int \<Rightarrow> u8 \<Rightarrow> cfloat" where
  "normalized_value c ch b =
     fdiv B32 (fsub B32 (fdiv B32 (fl B32 (of_nat (unat b))) (Fin 255)) (vc_mean c ! nat ch)) (vc_std c ! nat ch)"

text \<open>Row by row, pixel by pixel, channel by channel.\<close>

definition normalizeImageCPU :: "vit_config \<Rightarrow> u8 list \<Rightarrow> int \<Rightarrow> int \<Rightarrow> int \<Rightarrow> cfloat list" where
  "normalizeImageCPU c src height width channels =
     concat (map (\<lambda>h. concat (map (\<lambda>w. map (\<lambda>ch.
       normalized_value c ch (src ! nat (h * width * channels + w * channels + ch)))
       [0..channels - 1]) [0..width - 1])) [0..height - 1])"

section \<open>Patches\<close>

definition merged_cells :: "vit_config \<Rightarrow> int \<Rightarrow> int \<Rightarrow> int" where
  "merged_cells c H W =
     H div vc_patch c div vc_merge c * (W div vc_patch c div vc_merge c) * vc_merge c * vc_merge c"

definition patch_count :: "vit_config \<Rightarrow> int \<Rightarrow> int \<Rightarrow> int \<Rightarrow> int" where
  "patch_count c T H W = T div vc_temporal c * merged_cells c H W"

text \<open>Where a patch lies: its place in time, and its row and column in the grid of patches.\<close>

definition patch_place :: "vit_config \<Rightarrow> int \<Rightarrow> int \<Rightarrow> int \<Rightarrow> int \<times> int \<times> int" where
  "patch_place c H W seq_idx =
     (let m = vc_merge c; merged_w = W div vc_patch c div m;
          t = seq_idx div merged_cells c H W;
          rest = seq_idx mod merged_cells c H W;
          h = rest div (merged_w * m * m);
          rest = rest mod (merged_w * m * m);
          w = rest div (m * m);
          rest = rest mod (m * m)
      in (t, h * m + rest div m, w * m + rest mod m))"

text \<open>Where an element of a patch lies in it: channel, time, row, column.\<close>

definition patch_element :: "vit_config \<Rightarrow> int \<Rightarrow> int \<times> int \<times> int \<times> int" where
  "patch_element c e =
     (let p = vc_patch c; t = vc_temporal c; rest = e mod (t * p * p)
      in (e div (t * p * p), rest div (p * p), rest mod (p * p) div p, rest mod (p * p) mod p))"

definition patch_source :: "vit_config \<Rightarrow> int \<Rightarrow> int \<Rightarrow> int \<Rightarrow> int \<Rightarrow> int \<Rightarrow> int" where
  "patch_source c H W C seq_idx elem =
     (let (t, row, col) = patch_place c H W seq_idx; (ch, dt, dy, dx) = patch_element c elem
      in (t * vc_temporal c + dt) * H * W * C + (row * vc_patch c + dy) * W * C + (col * vc_patch c + dx) * C + ch)"

definition transposeToPatchCPU :: "vit_config \<Rightarrow> cfloat list \<Rightarrow> int \<Rightarrow> int \<Rightarrow> int \<Rightarrow> int \<Rightarrow> cfloat list" where
  "transposeToPatchCPU c img T H W C =
     concat (map (\<lambda>s. map (\<lambda>e. img ! nat (patch_source c H W C s e)) [0..vc_input_dim c - 1])
       [0..patch_count c T H W - 1])"

section \<open>Position embeddings\<close>

text \<open>The patches in the order of the four loops: their rows and columns.\<close>

definition rope_positions :: "vit_config \<Rightarrow> int \<Rightarrow> int \<Rightarrow> (int \<times> int) list" where
  "rope_positions c gridH gridW =
     (let m = vc_merge c in
      concat (map (\<lambda>br. concat (map (\<lambda>bc. concat (map (\<lambda>ir. map (\<lambda>ic. (br * m + ir, bc * m + ic))
        [0..m - 1]) [0..m - 1])) [0..gridW div m - 1])) [0..gridH div m - 1]))"

definition rope_angle :: "(cfloat \<Rightarrow> cfloat \<Rightarrow> cfloat) \<Rightarrow> vit_config \<Rightarrow> int \<Rightarrow> int \<Rightarrow> cfloat" where
  "rope_angle pow c pos j =
     fmul B32 (fl B32 (of_int pos))
       (fdiv B32 (Fin 1) (pow (Fin 10000) (fdiv B32 (fl B32 (of_int (2 * j))) (fl B32 (of_int (vc_rope_dim c))))))"

text \<open>One function of the angles; the vectors have room for every patch of the grid, the loops fill the front.\<close>

definition rope_vector ::
  "(cfloat \<Rightarrow> cfloat \<Rightarrow> cfloat) \<Rightarrow> (cfloat \<Rightarrow> cfloat) \<Rightarrow> vit_config \<Rightarrow> int \<Rightarrow> int \<Rightarrow> cfloat list" where
  "rope_vector pow f c gridH gridW =
     (let half = vc_rope_dim c div 2;
          filled = concat (map (\<lambda>(y, x). map (\<lambda>j. f (rope_angle pow c y j)) [0..half - 1]
            @ map (\<lambda>j. f (rope_angle pow c x j)) [0..half - 1]) (rope_positions c gridH gridW))
      in filled @ replicate (nat (gridH * gridW * vc_rope_dim c) - length filled) (Fin 0))"

definition computeRotaryPosEmbCPU ::
  "(cfloat \<Rightarrow> cfloat \<Rightarrow> cfloat) \<Rightarrow> (cfloat \<Rightarrow> cfloat) \<Rightarrow> (cfloat \<Rightarrow> cfloat) \<Rightarrow> vit_config \<Rightarrow> int list \<Rightarrow> cfloat list \<times> cfloat list" where
  "computeRotaryPosEmbCPU pow cosine sine c grid =
     (rope_vector pow cosine c (grid ! 1) (grid ! 2), rope_vector pow sine c (grid ! 1) (grid ! 2))"

section \<open>A picture\<close>

record vit_data =
  vd_pixels :: "cfloat list"
  vd_cos :: "cfloat list"
  vd_sin :: "cfloat list"
  vd_grid :: "int list"
  vd_seq :: int
  vd_height :: int
  vd_width :: int

text \<open>
  What is not in the file: scaling, the two kernels of the OpenCL path when it is in use, and the tables
  for 784 positions of 32 values.
\<close>

record vit_env =
  vv_resize :: "u8 list \<Rightarrow> int \<Rightarrow> int \<Rightarrow> int \<Rightarrow> int \<Rightarrow> u8 list"
  vv_normalize :: "(u8 list \<Rightarrow> int \<Rightarrow> int \<Rightarrow> cfloat list) option"
  vv_transpose :: "(cfloat list \<Rightarrow> int \<Rightarrow> int \<Rightarrow> cfloat list) option"
  vv_frame :: "int \<Rightarrow> int \<Rightarrow> cfloat list option"
  vv_cos_table :: "cfloat list"
  vv_sin_table :: "cfloat list"

definition rope_tables :: "vit_env \<Rightarrow> vit_config \<Rightarrow> int \<Rightarrow> (cfloat list \<times> cfloat list) option" where
  "rope_tables V c positions =
     (if positions = 784 \<and> vc_rope_dim c = 32 then
        Some (take (nat (positions * 32)) (vv_cos_table V), take (nat (positions * 32)) (vv_sin_table V))
      else None)"

definition target_dims :: "vit_config \<Rightarrow> int \<Rightarrow> int \<Rightarrow> int \<Rightarrow> int \<times> int" where
  "target_dims c height width target =
     (if 0 < target then
        (let n = vc_patch c * vc_merge c; s = target div n * n in (s, s))
      else getResizedImageSize c height width)"

text \<open>An error text or the prepared data.\<close>

definition preprocessImage ::
  "vit_env \<Rightarrow> vit_config \<Rightarrow> u8 list \<Rightarrow> int \<Rightarrow> int \<Rightarrow> int \<Rightarrow> string + vit_data" where
  "preprocessImage V c rgb height width target =
     (let (h, w) = target_dims c height width target;
          resized = (if height \<noteq> h \<or> width \<noteq> w then vv_resize V rgb height width h w
                     else take (nat (height * width * 3)) rgb);
          T = vc_temporal c;
          plane = (case vv_normalize V of Some f \<Rightarrow> f resized h w | None \<Rightarrow> normalizeImageCPU c resized h w 3);
          normalized = concat (replicate (nat T) plane);
          gridT = T div vc_temporal c; gridH = h div vc_patch c; gridW = w div vc_patch c;
          seq_len = patch_count c T h w
      in if seq_len \<le> 0 \<or> 10000 < seq_len then Inl (''Invalid sequence length: '' @ dec_int seq_len)
         else
           let pixels = (case vv_transpose V of Some f \<Rightarrow> f normalized h w | None \<Rightarrow> transposeToPatchCPU c normalized T h w 3)
           in case rope_tables V c (gridT * gridH * gridW) of
                None \<Rightarrow> Inl ''Only 448x448 images are supported''
              | Some (cs, sn) \<Rightarrow>
                  Inr \<lparr>vd_pixels = pixels, vd_cos = cs, vd_sin = sn, vd_grid = [gridT, gridH, gridW], vd_seq = seq_len,
                       vd_height = h, vd_width = w\<rparr>)"

text \<open>From a file: None is a file that cannot be read.\<close>

definition preprocess_file ::
  "vit_env \<Rightarrow> vit_config \<Rightarrow> string \<Rightarrow> (u8 list \<times> int \<times> int) option \<Rightarrow> int \<Rightarrow> string + vit_data" where
  "preprocess_file V c path loaded target =
     (case loaded of
        None \<Rightarrow> Inl (''Failed to load image: '' @ path)
      | Some (rgb, h, w) \<Rightarrow> preprocessImage V c (take (nat (h * w * 3)) rgb) h w target)"

text \<open>From a frame in memory, on the accelerator only.\<close>

definition preprocessFromFrame :: "vit_env \<Rightarrow> vit_config \<Rightarrow> bool \<Rightarrow> int \<Rightarrow> string + vit_data" where
  "preprocessFromFrame V c opencl target =
     (if \<not> opencl then Inl ''preprocessFromFrame requires OpenCL''
      else
        let T = vc_temporal c;
            gridT = T div vc_temporal c; gridH = target div vc_patch c; gridW = target div vc_patch c;
            positions = gridT * gridH * gridW
        in case vv_frame V target target of
             None \<Rightarrow> Inl ''preprocessFrameGPU failed''
           | Some pixels \<Rightarrow>
               (case rope_tables V c positions of
                  None \<Rightarrow> Inl (''Only 448x448 supported (got seq_len='' @ dec_int positions @ '')'')
                | Some (cs, sn) \<Rightarrow>
                    Inr \<lparr>vd_pixels = pixels, vd_cos = cs, vd_sin = sn, vd_grid = [gridT, gridH, gridW],
                         vd_seq = patch_count c T target target, vd_height = target, vd_width = target\<rparr>))"

text \<open>
  The raw files written: names and contents in order, and the error that ends the writing; \<open>opens\<close> tells which
  files can be opened.
\<close>

fun save_tensors :: "(string \<Rightarrow> bool) \<Rightarrow> (string \<times> cfloat list) list \<Rightarrow> (string \<times> cfloat list) list \<times> string option" where
  "save_tensors opens [] = ([], None)"
| "save_tensors opens ((path, t) # ts) =
     (if \<not> opens path then ([], Some (''Failed to open file: '' @ path))
      else let (done_files, e) = save_tensors opens ts in ((path, t) # done_files, e))"

definition input_list_text :: "string \<Rightarrow> string" where
  "input_list_text dir =
     ''pixel_values:='' @ dir @ ''/pixel_values.raw '' @ ''position_ids_cos:='' @ dir @ ''/position_ids_cos.raw ''
     @ ''position_ids_sin:='' @ dir @ ''/position_ids_sin.raw''"

definition saveToRawFiles ::
  "(string \<Rightarrow> bool) \<Rightarrow> vit_data \<Rightarrow> string \<Rightarrow> bool \<Rightarrow> (string \<times> cfloat list) list \<times> (string option + string)" where
  "saveToRawFiles opens d dir create =
     (case save_tensors opens [(dir @ ''/pixel_values.raw'', vd_pixels d), (dir @ ''/position_ids_cos.raw'', vd_cos d),
             (dir @ ''/position_ids_sin.raw'', vd_sin d)] of
        (fs, Some e) \<Rightarrow> (fs, Inr e)
      | (fs, None) \<Rightarrow>
          if \<not> create then (fs, Inl None)
          else if \<not> opens (dir @ ''/input_list.txt'') then (fs, Inr ''Failed to create input_list.txt'')
          else (fs, Inl (Some (input_list_text dir))))"


section \<open>The patches are a rearrangement\<close>

lemma digits_eq_iff:
  fixes a b a' b' n :: int
  assumes "0 \<le> b" "b < n" "0 \<le> b'" "b' < n"
  shows "a * n + b = a' * n + b' \<longleftrightarrow> a = a' \<and> b = b'"
  using assms by (metis add.commute div_mult_self1 div_pos_pos_trivial less_le_not_le mod_mult_self1 mod_pos_pos_trivial order_le_less_trans zdiv_eq_0_iff add_0)

lemma digits_less:
  fixes a b m n :: int
  assumes "0 \<le> a" "a < m" "0 \<le> b" "b < n"
  shows "0 \<le> a * n + b \<and> a * n + b < m * n"
proof
  have "(a + 1) * n \<le> m * n" using assms by (intro mult_right_mono) auto
  then show "a * n + b < m * n" using assms by (simp add: algebra_simps)
qed (use assms in simp)

text \<open>What the rearrangement relies on: a picture of whole merged cells and whole groups of frames.\<close>

definition fits :: "vit_config \<Rightarrow> int \<Rightarrow> int \<Rightarrow> int \<Rightarrow> int \<Rightarrow> bool" where
  "fits c T H W C =
     (0 < vc_patch c \<and> 0 < vc_merge c \<and> 0 < vc_temporal c \<and> 0 < C \<and> 0 \<le> T \<and> 0 \<le> H \<and> 0 \<le> W
      \<and> vc_temporal c dvd T \<and> vc_patch c * vc_merge c dvd H \<and> vc_patch c * vc_merge c dvd W
      \<and> vc_input_dim c = C * vc_temporal c * vc_patch c * vc_patch c)"

lemma cells_of_side:
  fixes p m X :: int
  assumes "0 < p" "0 < m" "p * m dvd X" "0 \<le> X"
  shows "X div p div m * m * p = X" "0 \<le> X div p div m"
  using assms by (auto simp: zdiv_zmult2_eq [symmetric] mult.assoc dvd_div_mult_self mult.commute [of m p])
    (simp add: pos_imp_zdiv_nonneg_iff)

lemma digits_div [simp]:
  fixes a b n :: int
  shows "0 \<le> b \<Longrightarrow> b < n \<Longrightarrow> (a * n + b) div n = a"
  by (metis add.commute div_mult_self1 div_pos_pos_trivial less_le_not_le add_0 order_le_less_trans)

lemma digits_mod [simp]:
  fixes a b n :: int
  shows "0 \<le> b \<Longrightarrow> b < n \<Longrightarrow> (a * n + b) mod n = b"
  by (metis add.commute mod_mult_self1 mod_pos_pos_trivial)

lemma patch_place_digits:
  fixes t h w r k :: int
  assumes "0 \<le> h" "h < gh" "0 \<le> w" "w < gw" "0 \<le> r" "r < m" "0 \<le> k" "k < m"
    and "vc_merge c = m" "H div vc_patch c div m = gh" "W div vc_patch c div m = gw"
  shows "patch_place c H W ((((t * gh + h) * gw + w) * m + r) * m + k) = (t, h * m + r, w * m + k)"
proof -
  have rk: "0 \<le> r * m + k" "r * m + k < m * m" using assms digits_less [of r m k m] by simp_all
  have wrk: "0 \<le> w * (m * m) + (r * m + k)" "w * (m * m) + (r * m + k) < gw * (m * m)"
    using assms rk digits_less [of w gw "r * m + k" "m * m"] by simp_all
  have hwrk: "0 \<le> h * (gw * (m * m)) + (w * (m * m) + (r * m + k))"
      "h * (gw * (m * m)) + (w * (m * m) + (r * m + k)) < gh * (gw * (m * m))"
    using assms wrk digits_less [of h gh "w * (m * m) + (r * m + k)" "gw * (m * m)"] by simp_all
  have s: "(((t * gh + h) * gw + w) * m + r) * m + k
      = t * (gh * (gw * (m * m))) + (h * (gw * (m * m)) + (w * (m * m) + (r * m + k)))"
    by (simp add: algebra_simps)
  have cells: "merged_cells c H W = gh * (gw * (m * m))" by (simp add: merged_cells_def assms(9-11) mult.assoc)
  show ?thesis
    unfolding patch_place_def cells s assms(9) assms(11) Let_def mult.assoc
      digits_div [OF rk] digits_mod [OF rk] digits_div [OF wrk] digits_mod [OF wrk] digits_div [OF hwrk] digits_mod [OF hwrk]
    using assms(5-8) by simp
qed

lemma patch_element_digits:
  fixes ch dt dy dx :: int
  assumes "0 \<le> dt" "dt < vc_temporal c" "0 \<le> dy" "dy < p" "0 \<le> dx" "dx < p" "vc_patch c = p"
  shows "patch_element c (((ch * vc_temporal c + dt) * p + dy) * p + dx) = (ch, dt, dy, dx)"
proof -
  have yx: "0 \<le> dy * p + dx" "dy * p + dx < p * p" using assms digits_less [of dy p dx p] by simp_all
  have tyx: "0 \<le> dt * (p * p) + (dy * p + dx)" "dt * (p * p) + (dy * p + dx) < vc_temporal c * (p * p)"
    using assms yx digits_less [of dt "vc_temporal c" "dy * p + dx" "p * p"] by simp_all
  have e: "((ch * vc_temporal c + dt) * p + dy) * p + dx = ch * (vc_temporal c * (p * p)) + (dt * (p * p) + (dy * p + dx))"
    by (simp add: algebra_simps)
  show ?thesis
    unfolding patch_element_def e assms(7) Let_def mult.assoc
      digits_div [OF tyx] digits_mod [OF tyx] digits_div [OF yx] digits_mod [OF yx]
    using assms(3-6) by simp
qed

text \<open>Where the value of a pixel is found: its patch, and its place in the patch.\<close>

definition patch_of_pixel :: "vit_config \<Rightarrow> int \<Rightarrow> int \<Rightarrow> int \<Rightarrow> int \<Rightarrow> int \<Rightarrow> int" where
  "patch_of_pixel c H W f y x =
     (let p = vc_patch c; m = vc_merge c in
      (((f div vc_temporal c * (H div p div m) + y div p div m) * (W div p div m) + x div p div m) * m + y div p mod m) * m
        + x div p mod m)"

definition element_of_pixel :: "vit_config \<Rightarrow> int \<Rightarrow> int \<Rightarrow> int \<Rightarrow> int \<Rightarrow> int" where
  "element_of_pixel c f y x ch =
     ((ch * vc_temporal c + f mod vc_temporal c) * vc_patch c + y mod vc_patch c) * vc_patch c + x mod vc_patch c"

lemma quotient_less:
  fixes y k n :: int
  assumes "0 < n" "y < k * n"
  shows "y div n < k"
proof (rule ccontr)
  assume "\<not> ?thesis"
  then have "k * n \<le> y div n * n" using assms(1) by (simp add: mult_right_mono)
  moreover have "y div n * n \<le> y" using assms(1) by (simp add: div_mult_mod_eq [symmetric] minus_mod_eq_div_mult [symmetric])
  ultimately show False using assms(2) by simp
qed

lemma cell_less:
  fixes y :: int
  assumes "0 < p" "0 < m" "p * m dvd X" "0 \<le> y" "y < X"
  shows "0 \<le> y div p div m" "y div p div m < X div p div m"
proof -
  have "X div p div m * m * p = X" using assms by (intro cells_of_side) auto
  then have "y < X div p div m * (m * p)" using assms(5) by (simp add: mult.assoc)
  then have "y div (p * m) < X div p div m"
    using assms(1,2) by (intro quotient_less) (simp_all add: mult.commute [of m p])
  then show "y div p div m < X div p div m"
    using assms(1,2) by (simp only: zdiv_zmult2_eq less_imp_le)
  show "0 \<le> y div p div m" using assms by (simp add: pos_imp_zdiv_nonneg_iff)
qed

lemma patch_source_of_pixel:
  assumes "fits c T H W C" "0 \<le> y" "y < H" "0 \<le> x" "x < W" "0 \<le> f" "0 \<le> ch" "ch < C"
  shows "patch_source c H W C (patch_of_pixel c H W f y x) (element_of_pixel c f y x ch) = ((f * H + y) * W + x) * C + ch"
proof -
  have pos: "0 < vc_patch c" "0 < vc_merge c" "0 < vc_temporal c" and d: "vc_patch c * vc_merge c dvd H" "vc_patch c * vc_merge c dvd W"
    using assms(1) by (auto simp: fits_def)
  have place: "patch_place c H W (patch_of_pixel c H W f y x) = (f div vc_temporal c, y div vc_patch c, x div vc_patch c)"
    unfolding patch_of_pixel_def Let_def
    using pos cell_less [OF pos(1,2) d(1) assms(2,3)] cell_less [OF pos(1,2) d(2) assms(4,5)]
    by (subst patch_place_digits) (auto simp: div_mult_mod_eq)
  have element: "patch_element c (element_of_pixel c f y x ch)
      = (ch, f mod vc_temporal c, y mod vc_patch c, x mod vc_patch c)"
    unfolding element_of_pixel_def using pos by (intro patch_element_digits) auto
  show ?thesis
    by (simp only: patch_source_def place element prod.case div_mult_mod_eq Let_def) (simp add: algebra_simps)
qed


lemma patch_of_pixel_less:
  assumes "fits c T H W C" "0 \<le> y" "y < H" "0 \<le> x" "x < W" "0 \<le> f" "f < T"
  shows "0 \<le> patch_of_pixel c H W f y x" "patch_of_pixel c H W f y x < patch_count c T H W"
proof -
  have pos: "0 < vc_patch c" "0 < vc_merge c" "0 < vc_temporal c" and d: "vc_patch c * vc_merge c dvd H" "vc_patch c * vc_merge c dvd W"
    and q: "vc_temporal c dvd T" using assms(1) by (auto simp: fits_def)
  have t: "0 \<le> f div vc_temporal c" "f div vc_temporal c < T div vc_temporal c"
    using pos(3) assms(6,7) q by (auto simp: pos_imp_zdiv_nonneg_iff intro: quotient_less)
  note h = cell_less [OF pos(1,2) d(1) assms(2,3)] and w = cell_less [OF pos(1,2) d(2) assms(4,5)]
  have m: "0 \<le> y div vc_patch c mod vc_merge c" "y div vc_patch c mod vc_merge c < vc_merge c"
    "0 \<le> x div vc_patch c mod vc_merge c" "x div vc_patch c mod vc_merge c < vc_merge c" using pos(2) by simp_all
  note 1 = digits_less [OF t h] 
  note 2 = digits_less [OF conjunct1 [OF 1] conjunct2 [OF 1] w]
  note 3 = digits_less [OF conjunct1 [OF 2] conjunct2 [OF 2] m(1,2)]
  note 4 = digits_less [OF conjunct1 [OF 3] conjunct2 [OF 3] m(3,4)]
  show "0 \<le> patch_of_pixel c H W f y x" "patch_of_pixel c H W f y x < patch_count c T H W"
    using 4 by (simp_all add: patch_of_pixel_def patch_count_def merged_cells_def Let_def mult.assoc)
qed

lemma element_of_pixel_less:
  assumes "fits c T H W C" "0 \<le> ch" "ch < C"
  shows "0 \<le> element_of_pixel c f y x ch" "element_of_pixel c f y x ch < vc_input_dim c"
proof -
  have pos: "0 < vc_patch c" "0 < vc_temporal c" and D: "vc_input_dim c = C * vc_temporal c * vc_patch c * vc_patch c"
    using assms(1) by (auto simp: fits_def)
  have m: "0 \<le> f mod vc_temporal c" "f mod vc_temporal c < vc_temporal c"
    "0 \<le> y mod vc_patch c" "y mod vc_patch c < vc_patch c" "0 \<le> x mod vc_patch c" "x mod vc_patch c < vc_patch c"
    using pos by simp_all
  note 1 = digits_less [OF assms(2,3) m(1,2)]
  note 2 = digits_less [OF conjunct1 [OF 1] conjunct2 [OF 1] m(3,4)]
  note 3 = digits_less [OF conjunct1 [OF 2] conjunct2 [OF 2] m(5,6)]
  show "0 \<le> element_of_pixel c f y x ch" "element_of_pixel c f y x ch < vc_input_dim c"
    using 3 by (simp_all add: element_of_pixel_def D)
qed

section \<open>The rearrangement as one list\<close>

lemma concat_map_product: "concat (map (\<lambda>s. map (g s) es) ss) = map (\<lambda>(s, e). g s e) (List.product ss es)"
  by (induction ss) simp_all

lemma transpose_as_product:
  "transposeToPatchCPU c img T H W C
     = map (\<lambda>(s, e). img ! nat (patch_source c H W C s e)) (List.product [0..patch_count c T H W - 1] [0..vc_input_dim c - 1])"
  by (simp add: transposeToPatchCPU_def concat_map_product)

lemma concat_map_nth:
  "(\<And>s. s \<in> set ss \<Longrightarrow> length (g s) = n) \<Longrightarrow> i < length ss \<Longrightarrow> j < n
     \<Longrightarrow> concat (map g ss) ! (i * n + j) = g (ss ! i) ! j"
proof (induction ss arbitrary: i)
  case (Cons s ss)
  then show ?case by (cases i) (simp_all add: nth_append add.assoc)
qed simp

lemma transpose_nth:
  assumes "0 \<le> s" "s < patch_count c T H W" "0 \<le> e" "e < vc_input_dim c"
  shows "transposeToPatchCPU c img T H W C ! nat (s * vc_input_dim c + e) = img ! nat (patch_source c H W C s e)"
proof -
  have "nat (s * vc_input_dim c + e) = nat s * nat (vc_input_dim c) + nat e"
    using assms by (simp add: nat_add_distrib nat_mult_distrib)
  then show ?thesis
    unfolding transposeToPatchCPU_def using assms by (simp add: concat_map_nth [where n = "nat (vc_input_dim c)"] nat_less_iff)
qed

lemma cell_area:
  assumes "fits c T H W C"
  shows "patch_count c T H W * vc_input_dim c = T * H * W * C"
proof -
  have pos: "0 < vc_patch c" "0 < vc_merge c" "0 < vc_temporal c" and d: "vc_patch c * vc_merge c dvd H" "vc_patch c * vc_merge c dvd W"
    and q: "vc_temporal c dvd T" and nn: "0 \<le> H" "0 \<le> W" and D: "vc_input_dim c = C * vc_temporal c * vc_patch c * vc_patch c"
    using assms by (auto simp: fits_def)
  have "patch_count c T H W * vc_input_dim c
      = (T div vc_temporal c * vc_temporal c) * (H div vc_patch c div vc_merge c * vc_merge c * vc_patch c)
        * (W div vc_patch c div vc_merge c * vc_merge c * vc_patch c) * C"
    by (simp add: patch_count_def merged_cells_def D)
  then show ?thesis using cells_of_side(1) [OF pos(1,2) d(1) nn(1)] cells_of_side(1) [OF pos(1,2) d(2) nn(2)] q by simp
qed


text \<open>Pictures that fit, as lists of pixels: each source place is used by one place of the patches.\<close>

definition source_places :: "vit_config \<Rightarrow> int \<Rightarrow> int \<Rightarrow> int \<Rightarrow> int \<Rightarrow> int list" where
  "source_places c T H W C =
     map (\<lambda>(s, e). patch_source c H W C s e) (List.product [0..patch_count c T H W - 1] [0..vc_input_dim c - 1])"

lemma pixel_of_place:
  fixes v :: int
  assumes "0 < C" "0 \<le> H" "0 \<le> W" "0 \<le> v" "v < T * H * W * C"
  obtains f y x ch where "v = ((f * H + y) * W + x) * C + ch" "0 \<le> f" "f < T" "0 \<le> y" "y < H" "0 \<le> x" "x < W" "0 \<le> ch" "ch < C"
proof -
  let ?a = "v div C" let ?b = "?a div W" let ?f = "?b div H"
  have "0 < W" "0 < H" using assms by (cases "W = 0"; cases "H = 0"; simp)+
  have "?a < T * H * W" "0 \<le> ?a" using assms by (auto intro: quotient_less simp: pos_imp_zdiv_nonneg_iff)
  then have "?b < T * H" "0 \<le> ?b" using \<open>0 < W\<close> by (auto intro: quotient_less simp: pos_imp_zdiv_nonneg_iff)
  then have "?f < T" "0 \<le> ?f" using \<open>0 < H\<close> by (auto intro: quotient_less simp: pos_imp_zdiv_nonneg_iff)
  show thesis
    by (rule that [of ?f "?b mod H" "?a mod W" "v mod C"])
      (use \<open>?f < T\<close> \<open>0 \<le> ?f\<close> \<open>0 < W\<close> \<open>0 < H\<close> assms(1) in \<open>simp_all only: div_mult_mod_eq pos_mod_bound pos_mod_sign\<close>)
qed

lemma source_places_all:
  assumes "fits c T H W C"
  shows "set (source_places c T H W C) = {0..<T * H * W * C}" "distinct (source_places c T H W C)"
proof -
  let ?N = "T * H * W * C" and ?L = "source_places c T H W C"
  have nn: "0 < C" "0 \<le> H" "0 \<le> W" using assms by (auto simp: fits_def)
  have onto: "{0..<?N} \<subseteq> set ?L"
  proof
    fix v assume "v \<in> {0..<?N}"
    then have "0 \<le> v" "v < ?N" by simp_all
    then obtain f y x ch where v: "v = ((f * H + y) * W + x) * C + ch"
      and r: "0 \<le> f" "f < T" "0 \<le> y" "y < H" "0 \<le> x" "x < W" "0 \<le> ch" "ch < C"
      by (rule pixel_of_place [OF nn])
    have "v = patch_source c H W C (patch_of_pixel c H W f y x) (element_of_pixel c f y x ch)"
      using patch_source_of_pixel [OF assms r(3-6,1,7,8)] v by simp
    then show "v \<in> set ?L"
      using patch_of_pixel_less [OF assms r(3-6,1,2)] element_of_pixel_less [OF assms r(7,8), of f y x]
      by (auto simp: source_places_def intro!: image_eqI [where x = "(patch_of_pixel c H W f y x, element_of_pixel c f y x ch)"])
  qed
  have "0 \<le> vc_input_dim c" "0 \<le> patch_count c T H W"
    using assms by (auto simp: fits_def patch_count_def merged_cells_def pos_imp_zdiv_nonneg_iff)
  then have len: "length ?L = nat ?N"
    using cell_area [OF assms] by (simp add: source_places_def nat_mult_distrib [symmetric])
  then have card: "card (set ?L) \<le> card {0..<?N}" using card_length [of ?L] by simp
  show all: "set ?L = {0..<?N}" using card_seteq [OF finite_set onto card] by simp
  show "distinct ?L" using all len by (intro card_distinct) simp
qed

lemma patches_mset:
  assumes "fits c T H W C" "length img = nat (T * H * W * C)"
  shows "mset (transposeToPatchCPU c img T H W C) = mset img"
proof -
  have "mset (source_places c T H W C) = mset [0..T * H * W * C - 1]"
    by (rule iffD1 [OF set_eq_iff_mset_eq_distinct [OF source_places_all(2) [OF assms(1)] distinct_upto]])
      (auto simp: source_places_all(1) [OF assms(1)])
  then have "mset (map (\<lambda>v. img ! nat v) (source_places c T H W C)) = mset (map (\<lambda>v. img ! nat v) [0..T * H * W * C - 1])"
    by (simp only: mset_map)
  moreover have "map (\<lambda>v. img ! nat v) (source_places c T H W C) = transposeToPatchCPU c img T H W C"
    by (simp add: transpose_as_product source_places_def case_prod_beta')
  moreover have "map (\<lambda>v. img ! nat v) [0..T * H * W * C - 1] = img"
    using assms(2) by (intro nth_equalityI) (simp_all add: nth_upto)
  ultimately show ?thesis by simp
qed

section \<open>The order of the position embeddings\<close>

lemma concat_upto:
  assumes "0 \<le> n" "0 \<le> k"
  shows "concat (map (\<lambda>a. map (g a) [0..n - 1]) [0..k - 1]) = map (\<lambda>i. g (i div n) (i mod n)) [0..k * n - (1::int)]"
  using assms(2)
proof (induction k rule: int_ge_induct)
  case (step k)
  have split: "[0..(k + 1) * n - 1] = [0..k * n - 1] @ [k * n..k * n + n - 1]"
    using step.hyps assms(1)
    by (cases "n = 0") (simp_all add: upto_split1 [of 0 "k * n" "k * n + n - 1"] distrib_right)
  have "map (g k) [0..n - 1] = map (\<lambda>i. g (i div n) (i mod n)) [k * n..k * n + n - 1]"
    by (intro nth_equalityI) (auto simp: nth_upto)
  then show ?case using step by (simp add: split upto_rec2 [of 0 k])
qed simp

lemma rope_order:
  assumes "0 < vc_merge c" "0 < vc_patch c" "0 \<le> H" "0 \<le> W"
  shows "rope_positions c (H div vc_patch c) (W div vc_patch c) = map (\<lambda>k. snd (patch_place c H W k)) [0..merged_cells c H W - 1]"
proof -
  let ?m = "vc_merge c" let ?gw = "W div vc_patch c div ?m" let ?gh = "H div vc_patch c div ?m"
  have nn: "0 \<le> ?gw" "0 \<le> ?gh" using assms by (simp_all add: pos_imp_zdiv_nonneg_iff)
  have cells: "merged_cells c H W = ?gh * (?gw * (?m * ?m))" by (simp add: merged_cells_def mult.assoc)
  have "rope_positions c (H div vc_patch c) (W div vc_patch c)
      = map (\<lambda>i. let r = i mod (?gw * (?m * ?m)) in
          (i div (?gw * (?m * ?m)) * ?m + r mod (?m * ?m) div ?m, r div (?m * ?m) * ?m + r mod (?m * ?m) mod ?m))
          [0..?gh * (?gw * (?m * ?m)) - 1]"
    using assms(1) nn by (simp add: rope_positions_def Let_def concat_upto)
  then show ?thesis
    by (auto simp: patch_place_def Let_def cells mult.assoc)
qed


section \<open>Sides that are whole cells\<close>

lemma double_of_int_exact: "\<bar>i\<bar> \<le> 2 ^ 53 \<Longrightarrow> double_of_int i = Fin (of_int i)"
proof -
  assume i: "\<bar>i\<bar> \<le> 2 ^ 53"
  have "rnd B64 (of_int i) = of_int i" using rnd_exact [of i B64 52] i by simp
  moreover have "\<bar>of_int i\<bar> < (2 :: rat) powi 1024"
  proof -
    have "\<bar>of_int i\<bar> \<le> (2 :: rat) ^ 53" using i by (metis of_int_abs of_int_le_iff of_int_numeral of_int_power)
    also have "\<dots> < 2 powi 1024" by (simp add: power_strict_increasing)
    finally show ?thesis .
  qed
  ultimately show ?thesis by (simp add: double_of_int_def fl_def Let_def abs_less_iff)
qed

lemma by_factor_whole:
  assumes "0 < n" "n dvd v" "\<bar>v\<bar> \<le> 2 ^ 53" "n \<le> 2 ^ 53" "\<And>k. r (of_int k) = k"
  shows "by_factor r v n = v"
proof -
  obtain k where v: "v = n * k" using assms(2) by (elim dvdE)
  have k: "\<bar>k\<bar> \<le> 2 ^ 53"
  proof -
    have "\<bar>k\<bar> \<le> \<bar>v\<bar>" using assms(1) unfolding v by (simp add: abs_mult mult_le_cancel_right1)
    then show ?thesis using assms(3) by simp
  qed
  have n: "double_of_int n = Fin (of_int n)" using assms(1,4) by (intro double_of_int_exact) simp
  have "fdiv B64 (double_of_int v) (double_of_int n) = double_of_int k"
    using assms(1,3) by (simp add: double_of_int_exact n) (simp add: v double_of_int_def)
  moreover have "fmul B64 (Fin (of_int k)) (Fin (of_int n)) = double_of_int v"
    by (simp add: double_of_int_def v mult.commute)
  ultimately show ?thesis
    using assms(3,5) k by (simp add: by_factor_def double_of_int_exact n abs_le_iff)
qed

lemma round_away_of_int: "round_away (of_int k) = k"
  unfolding round_away_def by (cases "0 \<le> k") (auto intro: floor_unique simp: minus_equation_iff)

lemma whole_size_kept:
  assumes "0 < vc_patch c * vc_merge c" "vc_patch c * vc_merge c \<le> h" "vc_patch c * vc_merge c \<le> w"
    and "vc_patch c * vc_merge c dvd h" "vc_patch c * vc_merge c dvd w" "h < 2 ^ 31" "w < 2 ^ 31"
    and "vc_min_tokens c * (vc_patch c * vc_merge c) * (vc_patch c * vc_merge c) \<le> h * w"
    and "h * w \<le> vc_max_tokens c * (vc_patch c * vc_merge c) * (vc_patch c * vc_merge c)"
  shows "getResizedImageSize c h w = (h, w)"
proof -
  have "roundByFactor v (vc_patch c * vc_merge c) = v"
    if "vc_patch c * vc_merge c dvd v" "vc_patch c * vc_merge c \<le> v" "v < 2 ^ 31" for v
    unfolding roundByFactor_def using assms(1) that
    by (intro by_factor_whole) (auto simp: round_away_of_int)
  then show ?thesis using assms by (simp add: getResizedImageSize_def Let_def)
qed

section \<open>What the program promises\<close>

text \<open>
  transposeToPatchCPU only rearranges. For a picture made of whole merged cells and whole groups of frames
  (any sizes of patch, cell and group), the patches hold the values of the picture, each exactly once: no
  index of the loops is outside the picture, no value is lost and none is written twice.
\<close>

theorem patches_only_rearrange:
  assumes "fits c T H W C" "length img = nat (T * H * W * C)"
  shows "mset (transposeToPatchCPU c img T H W C) = mset img"
  by (rule patches_mset [OF assms])

definition tiny_vit :: vit_config where
  "tiny_vit =
     \<lparr>vc_patch = 1, vc_temporal = 1, vc_merge = 2, vc_min_tokens = 4, vc_max_tokens = 16384, vc_channels = 1,
      vc_input_dim = 1, vc_rope_dim = 32, vc_mean = [], vc_std = []\<rparr>"

definition tiny_picture :: "cfloat list" where
  "tiny_picture = map (\<lambda>i. Fin (of_nat i)) [0..<8]"

lemma tiny_patches:
  "transposeToPatchCPU tiny_vit tiny_picture 1 2 4 1 = [Fin 0, Fin 1, Fin 4, Fin 5, Fin 2, Fin 3, Fin 6, Fin 7]"
  by code_simp

lemma patches_only_rearrange_witness:
  "mset [Fin 0, Fin 1, Fin 4, Fin 5, Fin 2, Fin 3, Fin 6, Fin 7] = mset tiny_picture"
  using patches_only_rearrange [of tiny_vit 1 2 4 1 tiny_picture]
  by (simp add: tiny_patches) (simp add: fits_def tiny_vit_def tiny_picture_def)

text \<open>
  C35: The value of every pixel is where the layout says. The value of a channel of the pixel in a row and
  column of a frame is found in the patch of its merged cell, row in the cell and column in the cell,
  and in that patch at its channel, frame in the group, row and column.
\<close>

theorem pixel_found_in_patch:
  assumes "fits c T H W C" "0 \<le> f" "f < T" "0 \<le> y" "y < H" "0 \<le> x" "x < W" "0 \<le> ch" "ch < C"
  shows "transposeToPatchCPU c img T H W C ! nat (patch_of_pixel c H W f y x * vc_input_dim c + element_of_pixel c f y x ch)
    = img ! nat (((f * H + y) * W + x) * C + ch)"
  using assms
  by (simp add: transpose_nth patch_of_pixel_less element_of_pixel_less [where T = T and H = H and W = W] patch_source_of_pixel [where T = T])

lemma pixel_found_in_patch_witness:
  "transposeToPatchCPU tiny_vit tiny_picture 1 2 4 1 ! 6 = Fin 6 \<and> patch_of_pixel tiny_vit 2 4 0 1 2 = 6"
  using pixel_found_in_patch [of tiny_vit 1 2 4 1 0 1 2 0 tiny_picture]
  by (simp add: fits_def tiny_vit_def patch_of_pixel_def element_of_pixel_def)
    (simp add: tiny_picture_def)

text \<open>
  The position embeddings follow the order of the patches: the four loops over the grid visit the row and
  column of patch 0, 1, 2 and so on, as the rearrangement of the pixels numbers them.
\<close>

theorem embeddings_in_patch_order:
  assumes "0 < vc_merge c" "0 < vc_patch c" "0 \<le> H" "0 \<le> W"
  shows "rope_positions c (H div vc_patch c) (W div vc_patch c) = map (\<lambda>k. snd (patch_place c H W k)) [0..merged_cells c H W - 1]"
  by (rule rope_order [OF assms])

lemma embeddings_in_patch_order_witness:
  "rope_positions tiny_vit 2 4 = [(0, 0), (0, 1), (1, 0), (1, 1), (0, 2), (0, 3), (1, 2), (1, 3)]"
proof -
  have "map (\<lambda>k. snd (patch_place tiny_vit 2 4 k)) [0..merged_cells tiny_vit 2 4 - 1]
      = [(0, 0), (0, 1), (1, 0), (1, 1), (0, 2), (0, 3), (1, 2), (1, 3)]" by code_simp
  then show ?thesis
    using embeddings_in_patch_order [of tiny_vit 2 4] by (simp add: tiny_vit_def)
qed

section \<open>Sizes the checks let through\<close>

definition vit :: vit_config where
  "vit = the (vit_new vit_default)"

text \<open>
  A picture of 224 by 896 keeps its size, has 14 by 56 positions, and is given the table of a square of 28 by 28:
  the check looks at their number only.
\<close>

lemma vit_fields [simp]:
  "vc_patch vit = 16" "vc_merge vit = 2" "vc_temporal vit = 2" "vc_min_tokens vit = 4" "vc_max_tokens vit = 16384"
  "vc_rope_dim vit = 32"
  by (simp_all add: vit_def vit_new_def vit_default_def)

lemma wide_size_kept: "getResizedImageSize vit 224 896 = (224, 896)"
  using whole_size_kept [of vit 224 896] by simp

lemma wide_picture_given_square_table:
  "224 div vc_patch vit * (896 div vc_patch vit) = 784 \<and> 224 div vc_patch vit \<noteq> 896 div vc_patch vit
    \<and> rope_tables V vit (1 * (224 div vc_patch vit) * (896 div vc_patch vit))
      = Some (take 25088 (vv_cos_table V), take 25088 (vv_sin_table V))"
  by (simp add: rope_tables_def)

end
