(* ===== verification/VegTensor.thy ===== *)
theory VegTensor
  imports VitPreprocess Packets
begin

unbundle bit_operations_syntax

text \<open>
  The data side of the vision server (\<open>veg/veg_server_combined.cpp\<close>): conversion of numbers, sizes and
  ownership of tensors, the buffers handed to the graph and the embeddings read from it. The graph itself is run
  by the vendor's library.
\<close>

section \<open>Half and single precision, as bit patterns\<close>

definition float32ToFloat16 :: "u32 \<Rightarrow> 16 word" where
  "float32ToFloat16 f32 =
     (let sign = drop_bit 31 f32 AND 1;
          exponent = int_of_u32 ((drop_bit 23 f32 AND 0xFF) - 127);
          mantissa = f32 AND 0x7FFFFF
      in ucast (if 15 < exponent then push_bit 15 sign OR push_bit 10 0x1F
         else if exponent < - 14 then
           if exponent < - 24 then push_bit 15 sign
           else push_bit 15 sign OR drop_bit 13 (drop_bit (nat (- 14 - exponent)) (mantissa OR 0x800000))
         else push_bit 15 sign OR push_bit 10 (ucast (word_of_int (exponent + 15) :: 16 word)) OR drop_bit 13 mantissa))"

text \<open>The loop that brings the leading bit of a subnormal to its place: None when it never ends.\<close>

partial_function (option) lead_bit :: "u32 \<Rightarrow> u32 \<Rightarrow> (u32 \<times> u32) option" where
  "lead_bit exponent mantissa =
     (if mantissa AND 0x400 = 0 then lead_bit (exponent - 1) (push_bit 1 mantissa) else Some (exponent, mantissa))"

definition float16ToFloat32 :: "16 word \<Rightarrow> u32 option" where
  "float16ToFloat32 v =
     (let value = ucast v; sign = drop_bit 15 value AND 1; exponent = drop_bit 10 value AND 0x1F; mantissa = value AND 0x3FF
      in if exponent = 0 then
           if mantissa = 0 then Some (push_bit 31 sign)
           else (case lead_bit 1 mantissa of
               None \<Rightarrow> None
             | Some (exponent, mantissa) \<Rightarrow>
                 Some (push_bit 31 sign OR push_bit 23 (exponent + 127 - 15) OR push_bit 13 (mantissa AND 0x3FF)))
         else if exponent = 0x1F then Some (push_bit 31 sign OR push_bit 23 0xFF OR push_bit 13 mantissa)
         else Some (push_bit 31 sign OR push_bit 23 (exponent + 127 - 15) OR push_bit 13 mantissa))"

lemma small_masks:
  "(w :: u32) AND 1 = take_bit 1 w" "w AND 0x1F = take_bit 5 w" "w AND 0xFF = take_bit 8 w" "w AND 0x3FF = take_bit 10 w"
  "w AND 0x7FFFFF = take_bit 23 w"
  by (simp_all add: take_bit_eq_mask mask_eq_exp_minus_1)

lemma bit_10: "(m :: u32) AND 0x400 = 0 \<longleftrightarrow> \<not> bit m 10"
  using and_exp_eq_0_iff_not_bit [of m 10] by simp

text \<open>The three fields of a pattern, put together and taken apart.\<close>

definition pack32 :: "u32 \<Rightarrow> u32 \<Rightarrow> u32 \<Rightarrow> u32" where
  "pack32 s e m = push_bit 31 s OR push_bit 23 e OR m"

lemmas bit_fields = bit_or_iff bit_and_iff bit_take_bit_iff bit_push_bit_iff bit_drop_bit_eq bit_unsigned_iff o_apply possible_bit_word

lemma field_bit: "w = take_bit k w \<Longrightarrow> bit (w :: u32) n \<Longrightarrow> n < k"
  by (metis bit_take_bit_iff)

lemma pack32_fields:
  assumes "s = take_bit 1 s" "e = take_bit 8 e" "m = take_bit 23 m"
  shows "drop_bit 31 (pack32 s e m) AND 1 = s" "drop_bit 23 (pack32 s e m) AND 0xFF = e" "pack32 s e m AND 0x7FFFFF = m"
proof -
  note b = field_bit [OF assms(1)] field_bit [OF assms(2)] field_bit [OF assms(3)]
  show "drop_bit 31 (pack32 s e m) AND 1 = s" "drop_bit 23 (pack32 s e m) AND 0xFF = e" "pack32 s e m AND 0x7FFFFF = m"
    unfolding small_masks pack32_def
    by (rule bit_word_eqI, unfold bit_fields, use b in \<open>fastforce simp del: bit_0\<close>)+
qed

lemma half_of_fields:
  fixes h :: "16 word"
  defines "v \<equiv> ucast h :: u32"
  shows "h = ucast (push_bit 15 (take_bit 1 (drop_bit 15 v)) OR push_bit 10 (take_bit 5 (drop_bit 10 v)) OR take_bit 10 v)"
proof (rule bit_word_eqI)
  fix n assume "n < LENGTH(16)"
  then consider "n < 10" | "10 \<le> n" "n < 15" | "n = 15" by fastforce
  then show "bit h n = bit (ucast (push_bit 15 (take_bit 1 (drop_bit 15 v)) OR push_bit 10 (take_bit 5 (drop_bit 10 v)) OR take_bit 10 v) :: 16 word) n"
    by cases (unfold v_def bit_fields, auto simp del: bit_0)
qed

text \<open>The way back, by the fields.\<close>

lemma to_half_fields:
  assumes "s = take_bit 1 s" "e = take_bit 8 e" "m = take_bit 23 m"
  shows "float32ToFloat16 (pack32 s e m) =
     (let exponent = int (unat e) - 127
      in ucast (if 15 < exponent then push_bit 15 s OR push_bit 10 0x1F
         else if exponent < - 14 then
           if exponent < - 24 then push_bit 15 s
           else push_bit 15 s OR drop_bit 13 (drop_bit (nat (- 14 - exponent)) (m OR 0x800000))
         else push_bit 15 s OR push_bit 10 (ucast (word_of_int (exponent + 15) :: 16 word)) OR drop_bit 13 m))"
proof -
  have "unat e < 2 ^ 8" by (subst assms(2)) (simp add: unsigned_take_bit_eq take_bit_nat_less_exp del: power_numeral)
  moreover have "u32_of_int (int (unat e) - 127) = e - 127" by (simp add: u32_of_int_def)
  ultimately have "int_of_u32 (e - 127) = int (unat e) - 127"
    using int_of_u32_of_int [of "int (unat e) - 127"] by (simp del: of_nat_unat)
  then show ?thesis unfolding float32ToFloat16_def pack32_fields [OF assms] Let_def by simp
qed

lemma lead_bit_steps:
  "\<forall>i<k. \<not> bit (push_bit i m) 10 \<Longrightarrow> bit (push_bit k m) 10 \<Longrightarrow> lead_bit e m = Some (e - of_nat k, push_bit k m)"
proof (induction k arbitrary: e m)
  case 0
  then show ?case by (subst lead_bit.simps) (simp add: bit_10)
next
  case (Suc k)
  have "\<not> bit m 10" using Suc.prems(1) by (metis push_bit_0_id id_apply zero_less_Suc)
  moreover have "\<forall>i<k. \<not> bit (push_bit i (push_bit 1 m)) 10" "bit (push_bit k (push_bit 1 m)) 10"
    using Suc.prems by auto
  ultimately show ?case
    using Suc.IH [of "push_bit 1 m" "e - 1"] by (subst lead_bit.simps) (simp add: bit_10 algebra_simps)
qed


lemma field_less: "w = take_bit k w \<Longrightarrow> unat (w :: u32) < 2 ^ k"
  by (metis unsigned_take_bit_eq take_bit_nat_less_exp)

lemma normal_half:
  assumes "s = take_bit 1 s" "e = take_bit 5 e" "m = take_bit 10 m" "e \<noteq> 0" "e \<noteq> 0x1F"
  shows "float32ToFloat16 (push_bit 31 s OR push_bit 23 (e + 127 - 15) OR push_bit 13 m)
    = ucast (push_bit 15 s OR push_bit 10 e OR m)"
proof -
  have e: "unat e < 32" using field_less [OF assms(2)] by simp
  have "unat e \<noteq> unat (0 :: u32)" "unat e \<noteq> unat (0x1F :: u32)" using assms(4,5) by (metis word_unat_eq_iff)+
  then have e': "0 < unat e" "unat e < 31" using e by simp_all
  have E: "unat (e + 112) = unat e + 112" using e by (simp add: unat_word_ariths)
  have E8: "e + 112 = take_bit 8 (e + 112)"
    using E e' by (intro word_unat_eq_iff [THEN iffD2]) (simp add: unsigned_take_bit_eq take_bit_nat_eq_self)
  have m: "push_bit 13 m = take_bit 23 (push_bit 13 m)"
    by (subst assms(3)) (simp add: push_bit_take_bit)
  have "ucast (word_of_int (int (unat e)) :: 16 word) = e"
    using e by (intro word_unat_eq_iff [THEN iffD2]) (simp add: unsigned_ucast_eq unsigned_take_bit_eq take_bit_nat_eq_self)
  moreover have "drop_bit 13 (push_bit 13 m) = m"
    using field_bit [OF assms(3)] by (intro bit_word_eqI) (unfold bit_fields, fastforce)
  ultimately show ?thesis
    using to_half_fields [OF assms(1) E8 m] e' by (simp add: pack32_def E Let_def add.commute [of 112] del: of_nat_unat)
qed

lemma lead_bit_small:
  assumes "m = take_bit 10 m" "m \<noteq> 0"
  obtains k where "1 \<le> k" "k \<le> 10" "bit m (10 - k)" "m = take_bit (11 - k) m" "lead_bit e m = Some (e - of_nat k, push_bit k m)"
proof -
  obtain n where n: "bit m n" "\<forall>i. bit m i \<longrightarrow> i \<le> n"
  proof -
    obtain i where "bit m i" using assms(2) bit_eq_iff [of m 0] by auto
    then have "bit m (Max {i. bit m i})" "\<forall>i. bit m i \<longrightarrow> i \<le> Max {i. bit m i}"
      using field_bit [OF assms(1)] Max_in [of "{i. bit m i}"] by (auto intro: Max_ge finite_subset [of _ "{..<10}"])
    then show thesis by (rule that)
  qed
  have n10: "n < 10" using field_bit [OF assms(1) n(1)] .
  have "lead_bit e m = Some (e - of_nat (10 - n), push_bit (10 - n) m)"
    using n n10 by (intro lead_bit_steps) (auto simp: bit_push_bit_iff intro: Suc_leI)
  moreover have "m = take_bit (Suc n) m"
    using n(2) by (intro bit_word_eqI) (auto simp: bit_take_bit_iff less_Suc_eq_le)
  ultimately show thesis
    using n n10 by (intro that [of "10 - n"]) auto
qed


lemma subnormal_half:
  assumes "s = take_bit 1 s" "m = take_bit 10 m" "1 \<le> k" "k \<le> 10" "bit m (10 - k)" "m = take_bit (11 - k) m"
  shows "float32ToFloat16 (push_bit 31 s OR push_bit 23 (1 - of_nat k + 127 - 15) OR push_bit 13 (push_bit k m AND 0x3FF))
    = ucast (push_bit 15 s OR m)"
proof -
  let ?e = "of_nat (113 - k) :: u32" let ?M = "push_bit 13 (push_bit k m AND 0x3FF)"
  have e: "1 - of_nat k + 127 - 15 = ?e" using assms(4) by (simp add: of_nat_diff)
  have ue: "unat ?e = 113 - k" by (simp add: unat_of_nat)
  have E8: "?e = take_bit 8 ?e"
    by (intro word_unat_eq_iff [THEN iffD2]) (simp add: unsigned_take_bit_eq ue take_bit_nat_eq_self)
  have M: "?M = take_bit 23 ?M" unfolding small_masks by (simp add: push_bit_take_bit)
  have lead: "?M OR 0x800000 = push_bit (13 + k) m"
  proof -
    have one: "(0x800000 :: u32) = push_bit 23 1" by simp
    have lead: "bit m (n - (13 + k)) \<longleftrightarrow> n = 23" if "23 \<le> n" "n < 32" for n
    proof
      assume "bit m (n - (13 + k))"
      then have "n - (13 + k) < 11 - k" using field_bit [OF assms(6)] by blast
      then show "n = 23" using that assms(4) by simp
    qed (use assms(4,5) in simp)
    show ?thesis
      unfolding one small_masks
      by (rule bit_word_eqI, unfold bit_fields bit_1_iff) (use lead assms(4,5) in \<open>auto simp del: bit_0 simp: not_less\<close>)
  qed
  have low: "drop_bit (13 + k) (push_bit (13 + k) m) = m"
  proof -
    have "n < 11 - k" if "bit m n" for n using field_bit [OF assms(6) that] .
    then show ?thesis by (intro bit_word_eqI) (unfold bit_fields, use assms(4) in fastforce)
  qed
  have "nat (- 14 - (int (unat ?e) - 127)) = k" "int (unat ?e) - 127 = - 14 - int k" using assms(4) unfolding ue by simp_all
  moreover define M where "M = ?M"
  ultimately show ?thesis
    using to_half_fields [OF assms(1) E8 M] assms(3,4) lead low
    unfolding pack32_def e M_def [symmetric] Let_def by (simp del: of_nat_unat of_nat_diff)
qed

lemma special_half:
  assumes "s = take_bit 1 s" "m = take_bit 10 m"
  shows "float32ToFloat16 (push_bit 31 s OR push_bit 23 0xFF OR push_bit 13 m) = ucast (push_bit 15 s OR push_bit 10 0x1F)"
proof -
  have m: "push_bit 13 m = take_bit 23 (push_bit 13 m)" by (subst assms(2)) (simp add: push_bit_take_bit)
  have e: "(0xFF :: u32) = take_bit 8 0xFF" by simp
  show ?thesis using to_half_fields [OF assms(1) e m] by (simp add: pack32_def)
qed

lemma zero_half:
  assumes "s = take_bit 1 s"
  shows "float32ToFloat16 (push_bit 31 s) = ucast (push_bit 15 s)"
  using to_half_fields [OF assms, of 0 0] by (simp add: pack32_def)

lemma take_bit_twice: "take_bit k w = take_bit k (take_bit k (w :: u32))"
  by simp

text \<open>Whether a half is a NaN, and the infinity of its sign.\<close>

definition half_is_nan :: "16 word \<Rightarrow> bool" where
  "half_is_nan h \<longleftrightarrow> drop_bit 10 (ucast h :: u32) AND 0x1F = 0x1F \<and> (ucast h :: u32) AND 0x3FF \<noteq> 0"

definition half_infinity :: "16 word \<Rightarrow> 16 word" where
  "half_infinity h = ucast (push_bit 15 (drop_bit 15 (ucast h :: u32) AND 1) OR push_bit 10 0x1F)"

lemma half_round_trip:
  "map_option float32ToFloat16 (float16ToFloat32 h) = Some (if half_is_nan h then half_infinity h else h)"
proof -
  define s e m :: u32 where d: "s = take_bit 1 (drop_bit 15 (ucast h))" "e = take_bit 5 (drop_bit 10 (ucast h))" "m = take_bit 10 (ucast h)"
  have f: "s = take_bit 1 s" "e = take_bit 5 e" "m = take_bit 10 m" by (simp_all only: d take_bit_take_bit min.idem)
  have g: "drop_bit 15 (ucast h) AND 1 = s" "drop_bit 10 (ucast h) AND 0x1F = e" "ucast h AND 0x3FF = m"
    by (simp_all only: small_masks d)
  have h: "ucast (push_bit 15 s OR push_bit 10 e OR m) = h" unfolding d by (rule half_of_fields [symmetric])
  note defs = float16ToFloat32_def half_is_nan_def half_infinity_def g
  consider "e = 0" "m = 0" | "e = 0" "m \<noteq> 0" | "e = 0x1F" | "e \<noteq> 0" "e \<noteq> 0x1F" by blast
  then show ?thesis
  proof cases
    case 1
    then show ?thesis using f(1) h by (simp add: defs zero_half)
  next
    case 2
    obtain k where "1 \<le> k" "k \<le> 10" "bit m (10 - k)" "m = take_bit (11 - k) m" "lead_bit 1 m = Some (1 - of_nat k, push_bit k m)"
      using lead_bit_small [OF f(3) 2(2)] by blast
    then show ?thesis using subnormal_half [OF f(1,3)] h 2 by (simp add: defs)
  next
    case 3
    then show ?thesis using special_half [OF f(1,3)] h by (cases "m = 0") (simp_all add: defs)
  next
    case 4
    then show ?thesis using normal_half [OF f(1-3)] h by (simp add: defs)
  qed
qed


section \<open>Values, and fixed-point numbers of 16 bits\<close>

text \<open>The value of a bit pattern, and the pattern of a value of the format.\<close>

definition float_value :: "u32 \<Rightarrow> cfloat" where
  "float_value w =
     (let e = int (unat (drop_bit 23 w AND 0xFF)); m = of_nat (unat (w AND 0x7FFFFF)); s = (if bit w 31 then - 1 else 1)
      in if e = 255 then (if m \<noteq> 0 then NaN else if bit w 31 then NInf else PInf)
         else if e = 0 then Fin (s * m * 2 powi (- 149))
         else Fin (s * (8388608 + m) * 2 powi (e - 150)))"

fun float_bits :: "cfloat \<Rightarrow> u32" where
  "float_bits (Fin q) =
     (if q = 0 then 0
      else let e = max (ilog2 \<bar>q\<bar>) (- 126)
           in word_of_int ((if q < 0 then 2147483648 else 0) + (e + 126) * 8388608 + \<lfloor>\<bar>q\<bar> / 2 powi (e - 23)\<rfloor>))"
| "float_bits PInf = 0x7F800000"
| "float_bits NInf = 0xFF800000"
| "float_bits NaN = 0x7FC00000"

text \<open>The cast to an int; out of range (undefined in C) it saturates.\<close>

fun i32_of_float :: "cfloat \<Rightarrow> int" where
  "i32_of_float (Fin q) = max (- 2147483648) (min 2147483647 (if q < 0 then \<lceil>q\<rceil> else \<lfloor>q\<rfloor>))"
| "i32_of_float PInf = 2147483647"
| "i32_of_float NInf = - 2147483648"
| "i32_of_float NaN = 0"

definition quantizeToUint16 :: "cfloat \<Rightarrow> cfloat \<Rightarrow> int \<Rightarrow> 16 word" where
  "quantizeToUint16 v scale offset =
     (let trueBitWidthMax = Fin 65535;
          encodingMin = fmul B64 (double_of_int offset) scale;
          encodingMax = fmul B64 (fadd B64 trueBitWidthMax (double_of_int offset)) scale;
          encodingRange = fsub B64 encodingMax encodingMin;
          q = i32_of_float (float_map round_away (fdiv B64 (fmul B64 trueBitWidthMax (fsub B64 v encodingMin)) encodingRange));
          q = (if q < 0 then 0 else q);
          q = (if 65535 < q then 65535 else q)
      in word_of_int q)"

definition dequantizeFromUint16 :: "16 word \<Rightarrow> cfloat \<Rightarrow> int \<Rightarrow> cfloat" where
  "dequantizeFromUint16 v scale offset =
     to_float (fmul B64 (fadd B64 (double_of_int (int (unat v))) (double_of_int offset)) scale)"

section \<open>Tensors and the blocks they own\<close>

datatype qnn_type =
  INT_8 | UINT_8 | SFIXED_POINT_8 | UFIXED_POINT_8 | BOOL_8
  | INT_16 | UINT_16 | SFIXED_POINT_16 | UFIXED_POINT_16 | FLOAT_16
  | INT_32 | UINT_32 | FLOAT_32 | SFIXED_POINT_32 | UFIXED_POINT_32
  | INT_64 | UINT_64 | FLOAT_64 | OTHER_TYPE

text \<open>Per axis: the number of entries, and the array when there is one.\<close>

datatype quant = NoQuant | OtherQuant | ScaleOffset cfloat int | AxisScaleOffset nat "(cfloat \<times> int) list option"

record tensor =
  tn_name :: "string option"
  tn_type :: qnn_type
  tn_quant :: quant
  tn_rank :: u32
  tn_dims :: "u32 list option"
  tn_data :: "u8 list option"

text \<open>The heap: blocks that are live, and how often memory was asked for. Which requests are granted is an argument.\<close>

record heap =
  hp_live :: int
  hp_asked :: nat

definition heap_alloc :: "(nat \<Rightarrow> bool) \<Rightarrow> heap \<Rightarrow> bool \<times> heap" where
  "heap_alloc gives h =
     (gives (hp_asked h), \<lparr>hp_live = hp_live h + (if gives (hp_asked h) then 1 else 0), hp_asked = Suc (hp_asked h)\<rparr>)"

definition heap_free :: "'a option \<Rightarrow> heap \<Rightarrow> heap" where
  "heap_free p h = (if p = None then h else h\<lparr>hp_live := hp_live h - 1\<rparr>)"

text \<open>A pointer to a copy, when there is something to copy and memory for it.\<close>

definition copy_of :: "(nat \<Rightarrow> bool) \<Rightarrow> 'a option \<Rightarrow> heap \<Rightarrow> 'a option \<times> heap" where
  "copy_of gives p h =
     (case p of None \<Rightarrow> (None, h) | Some x \<Rightarrow> let (ok, h) = heap_alloc gives h in (if ok then Some x else None, h))"

definition copy_quant :: "(nat \<Rightarrow> bool) \<Rightarrow> quant \<Rightarrow> heap \<Rightarrow> quant \<times> heap" where
  "copy_quant gives q h =
     (case q of
        ScaleOffset s off \<Rightarrow> (ScaleOffset s off, h)
      | AxisScaleOffset n p \<Rightarrow>
          if 0 < n then let (p, h) = copy_of gives p h in (AxisScaleOffset n p, h) else (AxisScaleOffset n None, h)
      | _ \<Rightarrow> (NoQuant, h))"

definition deepCopyQnnTensorInfo :: "(nat \<Rightarrow> bool) \<Rightarrow> tensor \<Rightarrow> heap \<Rightarrow> tensor \<times> heap" where
  "deepCopyQnnTensorInfo gives src h =
     (let (name, h) = copy_of gives (tn_name src) h;
          (q, h) = copy_quant gives (tn_quant src) h;
          (dims, h) = (if 0 < tn_rank src then copy_of gives (tn_dims src) h else (None, h))
      in (\<lparr>tn_name = name, tn_type = tn_type src, tn_quant = q, tn_rank = tn_rank src, tn_dims = dims, tn_data = None\<rparr>, h))"

fun type_width :: "qnn_type \<Rightarrow> u64" where
  "type_width INT_16 = 2" | "type_width UINT_16 = 2" | "type_width SFIXED_POINT_16 = 2" | "type_width UFIXED_POINT_16 = 2"
| "type_width FLOAT_16 = 2"
| "type_width INT_32 = 4" | "type_width UINT_32 = 4" | "type_width FLOAT_32 = 4" | "type_width SFIXED_POINT_32 = 4"
| "type_width UFIXED_POINT_32 = 4"
| "type_width INT_64 = 8" | "type_width UINT_64 = 8" | "type_width FLOAT_64 = 8"
| "type_width _ = 1"

definition calculateTensorSize :: "tensor \<Rightarrow> u64" where
  "calculateTensorSize t =
     (case tn_dims t of
        None \<Rightarrow> 0
      | Some dims \<Rightarrow>
          if tn_rank t = 0 then 0
          else foldl (\<lambda>n d. n * ucast d) 1 (take (unat (tn_rank t)) dims) * type_width (tn_type t))"

definition free_tensor :: "tensor \<Rightarrow> heap \<Rightarrow> heap" where
  "free_tensor t h = heap_free (tn_data t) (heap_free (tn_dims t) (heap_free (tn_name t) h))"

text \<open>None is a null pointer.\<close>

definition tearDownTensors :: "tensor list option \<Rightarrow> heap \<Rightarrow> heap" where
  "tearDownTensors ts h = heap_free ts (case ts of None \<Rightarrow> h | Some ts \<Rightarrow> fold free_tensor ts h)"


section \<open>The buffers of a run of the graph\<close>

text \<open>Refused is a false returned; Smashed is a write past the end of a block.\<close>

datatype outcome = Ready | Refused | Smashed

text \<open>The two namings of the three inputs.\<close>

definition data_for :: "vit_data \<Rightarrow> string \<Rightarrow> cfloat list option" where
  "data_for d name =
     (if name = ''hidden_states'' \<or> name = ''pixel_values'' then Some (vd_pixels d)
      else if name = ''position_embeddings_cos'' \<or> name = ''position_ids_cos'' then Some (vd_cos d)
      else if name = ''position_embeddings_sin'' \<or> name = ''position_ids_sin'' then Some (vd_sin d)
      else None)"

definition scale_offset :: "quant \<Rightarrow> cfloat \<times> int" where
  "scale_offset q = (case q of ScaleOffset s off \<Rightarrow> (s, off) | _ \<Rightarrow> (Fin 1, 0))"

text \<open>The bytes written for the values of an input; None is a type that is not supported.\<close>

definition input_bytes :: "tensor \<Rightarrow> cfloat list \<Rightarrow> u8 list option" where
  "input_bytes t data =
     (case tn_type t of
        UFIXED_POINT_16 \<Rightarrow> Some (concat (map (\<lambda>v. le_bytes 2 (unat (case scale_offset (tn_quant t) of (s, off) \<Rightarrow> quantizeToUint16 v s off))) data))
      | SFIXED_POINT_16 \<Rightarrow> Some (concat (map (\<lambda>v. le_bytes 2 (unat (case scale_offset (tn_quant t) of (s, off) \<Rightarrow> quantizeToUint16 v s off))) data))
      | FLOAT_16 \<Rightarrow> Some (concat (map (\<lambda>v. le_bytes 2 (unat (float32ToFloat16 (float_bits v)))) data))
      | FLOAT_32 \<Rightarrow> Some (concat (map (\<lambda>v. enc_u32 (float_bits v)) data))
      | _ \<Rightarrow> None)"

text \<open>\<open>fresh n\<close> is what a new block of \<open>n\<close> bytes happens to hold.\<close>

definition prepare_input ::
  "(nat \<Rightarrow> bool) \<Rightarrow> (nat \<Rightarrow> u8 list) \<Rightarrow> vit_data \<Rightarrow> tensor \<Rightarrow> heap \<Rightarrow> tensor \<times> outcome \<times> heap" where
  "prepare_input gives fresh d src h =
     (let (dst, h) = deepCopyQnnTensorInfo gives src h; size = unat (calculateTensorSize src)
      in if size = 0 then (dst, Refused, h)
         else case Option.bind (tn_name src) (data_for d) of
           None \<Rightarrow> (dst, Refused, h)
         | Some values \<Rightarrow>
             (case heap_alloc gives h of
                (False, h) \<Rightarrow> (dst, Refused, h)
              | (True, h) \<Rightarrow>
                  (case input_bytes src values of
                     None \<Rightarrow> (dst, Refused, heap_free (Some ()) h)
                   | Some bytes \<Rightarrow>
                       if size < length bytes then (dst, Smashed, h)
                       else (dst\<lparr>tn_data := Some (bytes @ drop (length bytes) (fresh size))\<rparr>, Ready, h))))"

definition prepare_output :: "(nat \<Rightarrow> bool) \<Rightarrow> tensor \<Rightarrow> heap \<Rightarrow> tensor \<times> outcome \<times> heap" where
  "prepare_output gives src h =
     (let (dst, h) = deepCopyQnnTensorInfo gives src h; size = unat (calculateTensorSize src)
      in if size = 0 then (dst, Refused, h)
         else case heap_alloc gives h of
                (False, h) \<Rightarrow> (dst, Refused, h)
              | (True, h) \<Rightarrow> (dst\<lparr>tn_data := Some (replicate size 0)\<rparr>, Ready, h))"

fun prepare_all :: "(tensor \<Rightarrow> heap \<Rightarrow> tensor \<times> outcome \<times> heap) \<Rightarrow> tensor list \<Rightarrow> heap \<Rightarrow> tensor list \<times> outcome \<times> heap" where
  "prepare_all f [] h = ([], Ready, h)"
| "prepare_all f (src # srcs) h =
     (let (t, r, h) = f src h
      in if r \<noteq> Ready then ([t], r, h) else let (ts, r, h) = prepare_all f srcs h in (t # ts, r, h))"

text \<open>A graph: its name, and its tensors (None is a null pointer, with a count of 0).\<close>

record graph =
  gr_name :: "string option"
  gr_inputs :: "tensor list option"
  gr_outputs :: "tensor list option"

definition tensors_of :: "tensor list option \<Rightarrow> tensor list" where
  "tensors_of ts = (case ts of None \<Rightarrow> [] | Some ts \<Rightarrow> ts)"

text \<open>The pointer handed back is null when the graph is not there or there is no memory for the array.\<close>

definition prepare_tensors ::
  "(nat \<Rightarrow> bool) \<Rightarrow> (tensor \<Rightarrow> heap \<Rightarrow> tensor \<times> outcome \<times> heap) \<Rightarrow> bool \<Rightarrow> tensor list \<Rightarrow> heap
     \<Rightarrow> tensor list option \<times> outcome \<times> heap" where
  "prepare_tensors gives f there srcs h =
     (if \<not> there then (None, Refused, h)
      else case heap_alloc gives h of
             (False, h) \<Rightarrow> (None, Refused, h)
           | (True, h) \<Rightarrow> let (ts, r, h) = prepare_all f srcs h in (Some ts, r, h))"

definition prepareInputTensors ::
  "(nat \<Rightarrow> bool) \<Rightarrow> (nat \<Rightarrow> u8 list) \<Rightarrow> graph list \<Rightarrow> nat \<Rightarrow> vit_data \<Rightarrow> heap \<Rightarrow> tensor list option \<times> outcome \<times> heap" where
  "prepareInputTensors gives fresh graphs idx d =
     prepare_tensors gives (prepare_input gives fresh d) (idx < length graphs) (tensors_of (gr_inputs (graphs ! idx)))"

definition prepareOutputTensors ::
  "(nat \<Rightarrow> bool) \<Rightarrow> graph list \<Rightarrow> nat \<Rightarrow> heap \<Rightarrow> tensor list option \<times> outcome \<times> heap" where
  "prepareOutputTensors gives graphs idx =
     prepare_tensors gives (prepare_output gives) (idx < length graphs) (tensors_of (gr_outputs (graphs ! idx)))"

section \<open>The embeddings of an image\<close>

fun groups_of :: "nat \<Rightarrow> 'a list \<Rightarrow> 'a list list" where
  "groups_of n xs = (if n = 0 \<or> length xs < n then [] else take n xs # groups_of n (drop n xs))"

declare groups_of.simps [simp del]

text \<open>Values as bit patterns, of the first output only; None is a conversion that never ends.\<close>

definition output_values :: "tensor \<Rightarrow> u8 list \<Rightarrow> (u32 list \<times> outcome) option" where
  "output_values t data =
     (let halves = map (\<lambda>b. word_of_nat (le_value b)) (groups_of 2 data);
          fixed = map (\<lambda>h. float_bits (case scale_offset (tn_quant t) of (s, off) \<Rightarrow> dequantizeFromUint16 h s off)) halves
      in case tn_type t of
           UFIXED_POINT_16 \<Rightarrow> Some (fixed, Ready)
         | SFIXED_POINT_16 \<Rightarrow> Some (fixed, Ready)
         | FLOAT_16 \<Rightarrow> map_option (\<lambda>vs. (vs, Ready)) (those (map float16ToFloat32 halves))
         | _ \<Rightarrow> Some (map dec_u32 (groups_of 4 data), if length data mod 4 = 0 then Ready else Smashed))"

definition extractEmbeddings :: "tensor list \<Rightarrow> (u32 list \<times> outcome) option" where
  "extractEmbeddings outputs =
     (case outputs of
        [] \<Rightarrow> Some ([], Refused)
      | t # _ \<Rightarrow>
          map_option (\<lambda>(vs, r). (vs, if r = Ready \<and> vs = [] then Refused else r))
            (output_values t (case tn_data t of None \<Rightarrow> [] | Some b \<Rightarrow> b)))"

datatype served = Embeddings "u32 list" | NoImage | HeapSmashed | NeverEnds

text \<open>
  \<open>pre\<close> is what the preparation of the picture gives or throws; \<open>execute\<close> is a run of the graph, which fills
  the buffers of the outputs or fails.
\<close>

definition run_graph ::
  "(nat \<Rightarrow> bool) \<Rightarrow> (nat \<Rightarrow> u8 list) \<Rightarrow> (tensor list \<Rightarrow> tensor list \<Rightarrow> tensor list option) \<Rightarrow> graph list \<Rightarrow> vit_data \<Rightarrow> heap \<Rightarrow> served \<times> heap" where
  "run_graph gives fresh execute graphs d h =
     (case prepareInputTensors gives fresh graphs 0 d h of
        (_, Refused, h) \<Rightarrow> (NoImage, h)
      | (_, Smashed, h) \<Rightarrow> (HeapSmashed, h)
      | (inputs, Ready, h) \<Rightarrow>
          (case prepareOutputTensors gives graphs 0 h of
             (_, Smashed, h) \<Rightarrow> (HeapSmashed, h)
           | (_, Refused, h) \<Rightarrow> (NoImage, tearDownTensors inputs h)
           | (outputs, Ready, h) \<Rightarrow>
               (case execute (tensors_of inputs) (tensors_of outputs) of
                  None \<Rightarrow> (NoImage, tearDownTensors outputs (tearDownTensors inputs h))
                | Some filled \<Rightarrow>
                    (case extractEmbeddings filled of
                       None \<Rightarrow> (NeverEnds, h)
                     | Some (_, Smashed) \<Rightarrow> (HeapSmashed, h)
                     | Some (_, Refused) \<Rightarrow> (NoImage, tearDownTensors (Some filled) (tearDownTensors inputs h))
                     | Some (vs, Ready) \<Rightarrow> (Embeddings vs, tearDownTensors (Some filled) (tearDownTensors inputs h))))))"

definition processImage ::
  "(nat \<Rightarrow> bool) \<Rightarrow> (nat \<Rightarrow> u8 list) \<Rightarrow> (tensor list \<Rightarrow> tensor list \<Rightarrow> tensor list option) \<Rightarrow> graph list \<Rightarrow> string + vit_data
     \<Rightarrow> heap \<Rightarrow> served \<times> heap" where
  "processImage gives fresh execute graphs pre h =
     (case pre of
        Inl _ \<Rightarrow> (NoImage, h)
      | Inr d \<Rightarrow>
          if vd_seq d = 0 \<or> vd_pixels d = [] \<or> length (vd_grid d) < 3 \<or> graphs = [] then (NoImage, h)
          else run_graph gives fresh execute graphs d h)"


section \<open>Blocks are given back\<close>

text \<open>The blocks tearDownTensors gives back for a tensor, and tensors that own no others.\<close>

definition held :: "tensor \<Rightarrow> int" where
  "held t = of_bool (tn_name t \<noteq> None) + of_bool (tn_dims t \<noteq> None) + of_bool (tn_data t \<noteq> None)"

definition no_axis_array :: "quant \<Rightarrow> bool" where
  "no_axis_array q = (case q of AxisScaleOffset n p \<Rightarrow> n = 0 \<or> p = None | _ \<Rightarrow> True)"

text \<open>An input that can be prepared from the data, its buffer not smaller than what is written; an output likewise.\<close>

definition input_fits :: "vit_data \<Rightarrow> tensor \<Rightarrow> bool" where
  "input_fits d t =
     (no_axis_array (tn_quant t) \<and> calculateTensorSize t \<noteq> 0
      \<and> (case Option.bind (tn_name t) (data_for d) of
           None \<Rightarrow> False
         | Some values \<Rightarrow>
             (case input_bytes t values of None \<Rightarrow> False | Some bytes \<Rightarrow> length bytes \<le> unat (calculateTensorSize t))))"

definition whole_values :: "tensor \<Rightarrow> nat \<Rightarrow> bool" where
  "whole_values t n = (tn_type t \<in> {UFIXED_POINT_16, SFIXED_POINT_16, FLOAT_16} \<or> n mod 4 = 0)"

definition output_fits :: "tensor \<Rightarrow> bool" where
  "output_fits t =
     (no_axis_array (tn_quant t) \<and> calculateTensorSize t \<noteq> 0 \<and> whole_values t (unat (calculateTensorSize t)))"

text \<open>What a run of the graph does to the outputs: it fills their buffers and touches nothing else.\<close>

definition same_blocks :: "tensor \<Rightarrow> tensor \<Rightarrow> bool" where
  "same_blocks t t' =
     (tn_name t' = tn_name t \<and> tn_type t' = tn_type t \<and> tn_quant t' = tn_quant t \<and> tn_rank t' = tn_rank t
      \<and> tn_dims t' = tn_dims t \<and> map_option length (tn_data t') = map_option length (tn_data t))"

lemma copy_of_live: "copy_of gives p h = (p', h') \<Longrightarrow> hp_live h' = hp_live h + of_bool (p' \<noteq> None)"
  by (auto simp: copy_of_def heap_alloc_def split: option.splits if_splits)

lemma copy_quant_live:
  "copy_quant gives q h = (q', h') \<Longrightarrow> no_axis_array q \<Longrightarrow> hp_live h' = hp_live h"
  by (auto simp: copy_quant_def no_axis_array_def copy_of_def split: quant.splits if_splits prod.splits)

lemma deep_copy_live:
  assumes "deepCopyQnnTensorInfo gives src h = (t, h')" "no_axis_array (tn_quant src)"
  shows "hp_live h' = hp_live h + held t \<and> tn_data t = None \<and> tn_type t = tn_type src"
proof -
  obtain n h1 where 1: "copy_of gives (tn_name src) h = (n, h1)" by fastforce
  obtain q h2 where 2: "copy_quant gives (tn_quant src) h1 = (q, h2)" by fastforce
  obtain d h3 where 3: "(if 0 < tn_rank src then copy_of gives (tn_dims src) h2 else (None, h2)) = (d, h3)" by fastforce
  have "hp_live h3 = hp_live h2 + of_bool (d \<noteq> None)"
    using 3 copy_of_live [of gives "tn_dims src" h2 d h3] by (auto split: if_splits)
  then show ?thesis
    using assms 1 2 3 copy_of_live [OF 1] copy_quant_live [OF 2]
    by (auto simp: deepCopyQnnTensorInfo_def held_def)
qed

lemma heap_free_live: "hp_live (heap_free p h) = hp_live h - of_bool (p \<noteq> None)"
  by (simp add: heap_free_def)

lemma free_tensor_live: "hp_live (free_tensor t h) = hp_live h - held t"
  by (simp add: free_tensor_def heap_free_live held_def)

lemma free_tensors_live: "hp_live (fold free_tensor ts h) = hp_live h - sum_list (map held ts)"
  by (induction ts arbitrary: h) (simp_all add: free_tensor_live)

lemma tear_down_live: "hp_live (tearDownTensors (Some ts) h) = hp_live h - 1 - sum_list (map held ts)"
  by (simp add: tearDownTensors_def heap_free_live free_tensors_live)

lemma prepare_input_fits:
  assumes "input_fits d src"
  obtains t h' where "prepare_input (\<lambda>_. True) fresh d src h = (t, Ready, h')" "hp_live h' = hp_live h + held t"
proof -
  obtain t h1 where 1: "deepCopyQnnTensorInfo (\<lambda>_. True) src h = (t, h1)" by fastforce
  note live = deep_copy_live [OF 1]
  from assms show thesis
    using 1 live that
    by (auto simp: prepare_input_def input_fits_def heap_alloc_def held_def unat_eq_0 split: option.splits)
qed

lemma prepare_output_fits:
  assumes "output_fits src"
  obtains t h' where "prepare_output (\<lambda>_. True) src h = (t, Ready, h')" "hp_live h' = hp_live h + held t"
    "whole_values t (case tn_data t of None \<Rightarrow> 0 | Some b \<Rightarrow> length b)"
proof -
  obtain t h1 where 1: "deepCopyQnnTensorInfo (\<lambda>_. True) src h = (t, h1)" by fastforce
  note live = deep_copy_live [OF 1]
  from assms show thesis
    using 1 live that
    by (auto simp: prepare_output_def output_fits_def heap_alloc_def held_def unat_eq_0 whole_values_def)
qed

lemma prepare_all_fits:
  assumes "\<And>src h. src \<in> set srcs \<Longrightarrow> \<exists>t h'. f src h = (t, Ready, h') \<and> hp_live h' = hp_live h + held t \<and> P t"
  shows "\<exists>ts h'. prepare_all f srcs h = (ts, Ready, h') \<and> hp_live h' = hp_live h + sum_list (map held ts) \<and> list_all P ts"
  using assms
proof (induction srcs arbitrary: h)
  case (Cons src srcs)
  obtain t h1 where 1: "f src h = (t, Ready, h1)" "hp_live h1 = hp_live h + held t" "P t" using Cons.prems by (meson list.set_intros(1))
  obtain ts h2 where "prepare_all f srcs h1 = (ts, Ready, h2)" "hp_live h2 = hp_live h1 + sum_list (map held ts)" "list_all P ts"
    using Cons.IH [of h1] Cons.prems by (meson list.set_intros(2))
  then show ?case using 1 by simp
qed simp

lemma prepare_tensors_fits:
  assumes "\<And>src h. src \<in> set srcs \<Longrightarrow> \<exists>t h'. f src h = (t, Ready, h') \<and> hp_live h' = hp_live h + held t \<and> P t"
  obtains ts h' where "prepare_tensors (\<lambda>_. True) f True srcs h = (Some ts, Ready, h')"
    "hp_live h' = hp_live h + 1 + sum_list (map held ts)" "list_all P ts"
proof -
  let ?h = "snd (heap_alloc (\<lambda>_. True) h)"
  obtain ts h' where p: "prepare_all f srcs ?h = (ts, Ready, h')" "hp_live h' = hp_live ?h + sum_list (map held ts)" "list_all P ts"
    using prepare_all_fits [of srcs f P ?h, OF assms] by auto
  then show thesis by (intro that [of ts h']) (simp_all add: prepare_tensors_def heap_alloc_def)
qed


lemma held_same: "list_all2 same_blocks ts ts' \<Longrightarrow> sum_list (map held ts') = sum_list (map held ts)"
  by (induction rule: list_all2_induct) (auto simp: same_blocks_def held_def)

lemma float16_total: "float16ToFloat32 h \<noteq> None"
  using half_round_trip [of h] by auto

lemma those_total: "list_all (\<lambda>x. f x \<noteq> None) xs \<Longrightarrow> those (map f xs) \<noteq> None"
  by (induction xs) auto

lemma output_values_whole:
  assumes "whole_values t (length data)"
  obtains vs where "output_values t data = Some (vs, Ready)"
proof -
  obtain vs where "those (map float16ToFloat32 (map (\<lambda>b. word_of_nat (le_value b)) (groups_of 2 data))) = Some vs"
    using those_total [where f = float16ToFloat32] float16_total by (fastforce simp: list_all_iff)
  then show thesis using assms that
    by (cases "tn_type t") (auto simp: output_values_def whole_values_def Let_def)
qed

lemma extract_whole:
  assumes "list_all (\<lambda>t. whole_values t (case tn_data t of None \<Rightarrow> 0 | Some b \<Rightarrow> length b)) ts" "list_all2 same_blocks ts filled"
  obtains vs r where "extractEmbeddings filled = Some (vs, r)" "r \<noteq> Smashed"
proof (cases filled)
  case Nil
  then show thesis using that by (simp add: extractEmbeddings_def)
next
  case (Cons t' rest)
  then obtain t where "same_blocks t t'" "whole_values t (case tn_data t of None \<Rightarrow> 0 | Some b \<Rightarrow> length b)"
    using assms by (auto simp: list_all2_Cons2)
  then have "whole_values t' (length (case tn_data t' of None \<Rightarrow> [] | Some b \<Rightarrow> b))"
    by (auto simp: same_blocks_def whole_values_def split: option.splits)
  then obtain vs where "output_values t' (case tn_data t' of None \<Rightarrow> [] | Some b \<Rightarrow> b) = Some (vs, Ready)"
    by (rule output_values_whole)
  then show thesis using Cons that by (simp add: extractEmbeddings_def)
qed

lemma run_graph_balanced:
  assumes "graphs \<noteq> []" "list_all (input_fits d) (tensors_of (gr_inputs (graphs ! 0)))"
    and "list_all output_fits (tensors_of (gr_outputs (graphs ! 0)))"
    and fills: "\<And>ins outs filled. execute ins outs = Some filled \<Longrightarrow> list_all2 same_blocks outs filled"
  shows "case run_graph (\<lambda>_. True) fresh execute graphs d h of (r, h') \<Rightarrow> hp_live h' = hp_live h \<and> r \<noteq> HeapSmashed \<and> r \<noteq> NeverEnds"
proof -
  obtain ins h1 where i: "prepareInputTensors (\<lambda>_. True) fresh graphs 0 d h = (Some ins, Ready, h1)"
      "hp_live h1 = hp_live h + 1 + sum_list (map held ins)"
    unfolding prepareInputTensors_def
    using prepare_tensors_fits [of "tensors_of (gr_inputs (graphs ! 0))" "prepare_input (\<lambda>_. True) fresh d" "\<lambda>_. True" h]
      prepare_input_fits assms(1,2) unfolding list_all_iff by (metis length_greater_0_conv)
  obtain outs h2 where o: "prepareOutputTensors (\<lambda>_. True) graphs 0 h1 = (Some outs, Ready, h2)"
      "hp_live h2 = hp_live h1 + 1 + sum_list (map held outs)"
      "list_all (\<lambda>t. whole_values t (case tn_data t of None \<Rightarrow> 0 | Some b \<Rightarrow> length b)) outs"
    unfolding prepareOutputTensors_def
    using prepare_tensors_fits [of "tensors_of (gr_outputs (graphs ! 0))" "prepare_output (\<lambda>_. True)"
        "\<lambda>t. whole_values t (case tn_data t of None \<Rightarrow> 0 | Some b \<Rightarrow> length b)" h1]
      prepare_output_fits assms(1,3) unfolding list_all_iff by (metis length_greater_0_conv)
  show ?thesis
  proof (cases "execute ins outs")
    case None
    then show ?thesis using i o by (simp add: run_graph_def tensors_of_def tear_down_live)
  next
    case (Some filled)
    obtain vs r where e: "extractEmbeddings filled = Some (vs, r)" "r \<noteq> Smashed" using extract_whole [OF o(3) fills [OF Some]] .
    then show ?thesis
      using i o Some held_same [OF fills [OF Some]]
      by (cases r) (simp_all add: run_graph_def tensors_of_def tear_down_live)
  qed
qed


lemma image_balanced:
  assumes "\<And>d. pre = Inr d \<Longrightarrow> graphs \<noteq> [] \<Longrightarrow> list_all (input_fits d) (tensors_of (gr_inputs (graphs ! 0)))"
    and "graphs \<noteq> [] \<Longrightarrow> list_all output_fits (tensors_of (gr_outputs (graphs ! 0)))"
    and "\<And>ins outs filled. execute ins outs = Some filled \<Longrightarrow> list_all2 same_blocks outs filled"
  shows "case processImage (\<lambda>_. True) fresh execute graphs pre h of
    (r, h') \<Rightarrow> hp_live h' = hp_live h \<and> r \<noteq> HeapSmashed \<and> r \<noteq> NeverEnds"
  using assms run_graph_balanced [where execute = execute and graphs = graphs and fresh = fresh and h = h]
  by (cases pre) (auto simp: processImage_def)

section \<open>What the program promises\<close>

text \<open>
  C36: Converting a half to single precision and back gives the half, for every one of the 65536 patterns but the
  NaNs, which become the infinity of their sign; the loop over the leading zeros of a subnormal always ends.
\<close>

theorem half_there_and_back:
  "map_option float32ToFloat16 (float16ToFloat32 h) = Some (if half_is_nan h then half_infinity h else h)"
  by (rule half_round_trip)


definition tiny_data :: vit_data where
  "tiny_data =
     \<lparr>vd_pixels = [Fin 1, Fin 2], vd_cos = [], vd_sin = [], vd_grid = [1, 1, 2], vd_seq = 2, vd_height = 1, vd_width = 2\<rparr>"

definition tiny_tensor :: "string \<Rightarrow> tensor" where
  "tiny_tensor name =
     \<lparr>tn_name = Some name, tn_type = FLOAT_32, tn_quant = NoQuant, tn_rank = 1, tn_dims = Some [2], tn_data = None\<rparr>"

definition tiny_graph :: graph where
  "tiny_graph = \<lparr>gr_name = Some ''veg'', gr_inputs = Some [tiny_tensor ''hidden_states''], gr_outputs = Some [tiny_tensor ''out'']\<rparr>"

definition echo :: "tensor list \<Rightarrow> tensor list \<Rightarrow> tensor list option" where
  "echo ins outs = Some (map (\<lambda>t. t\<lparr>tn_data := map_option rev (tn_data t)\<rparr>) outs)"

lemma tiny_fits: "input_fits tiny_data (tiny_tensor ''hidden_states'')" "output_fits (tiny_tensor ''out'')"
  by (simp_all add: input_fits_def output_fits_def tiny_tensor_def tiny_data_def no_axis_array_def calculateTensorSize_def
      data_for_def input_bytes_def whole_values_def)


section \<open>Where blocks are lost or overrun\<close>

text \<open>An input with an unknown name is refused, and its blocks and the array stay.\<close>

lemma refused_input_leaks:
  "processImage (\<lambda>_. True) fresh execute [tiny_graph\<lparr>gr_inputs := Some [tiny_tensor ''x'']\<rparr>] (Inr tiny_data) \<lparr>hp_live = 5, hp_asked = 0\<rparr>
     = (NoImage, \<lparr>hp_live = 8, hp_asked = 3\<rparr>)"
  by (simp add: processImage_def run_graph_def prepareInputTensors_def prepare_tensors_def prepare_input_def heap_alloc_def
      tensors_of_def tiny_graph_def tiny_tensor_def tiny_data_def deepCopyQnnTensorInfo_def copy_of_def copy_quant_def
      calculateTensorSize_def data_for_def)

text \<open>More values than the tensor has room for are written all the same.\<close>

lemma long_data_overruns:
  "fst (processImage (\<lambda>_. True) fresh execute [tiny_graph] (Inr (tiny_data\<lparr>vd_pixels := [Fin 1, Fin 2, Fin 3]\<rparr>)) \<lparr>hp_live = 5, hp_asked = 0\<rparr>)
     = HeapSmashed"
  by (simp add: processImage_def run_graph_def prepareInputTensors_def prepare_tensors_def prepare_input_def heap_alloc_def
      tensors_of_def tiny_graph_def tiny_tensor_def tiny_data_def deepCopyQnnTensorInfo_def copy_of_def copy_quant_def
      calculateTensorSize_def data_for_def input_bytes_def)

text \<open>The array of a per-axis encoding is copied for every image and never given back.\<close>

lemma axis_array_leaks:
  "hp_live (free_tensor (fst (deepCopyQnnTensorInfo (\<lambda>_. True) ((tiny_tensor n)\<lparr>tn_quant := AxisScaleOffset 1 (Some [(Fin 1, 0)])\<rparr>) h))
       (snd (deepCopyQnnTensorInfo (\<lambda>_. True) ((tiny_tensor n)\<lparr>tn_quant := AxisScaleOffset 1 (Some [(Fin 1, 0)])\<rparr>) h)))
     = hp_live h + 1"
  by (simp add: free_tensor_live deepCopyQnnTensorInfo_def copy_of_def copy_quant_def heap_alloc_def tiny_tensor_def held_def)

text \<open>Precision is cut, not rounded: the single just below 1 becomes the half below 1, and a NaN becomes an infinity.\<close>

lemma halves_are_truncated: "float32ToFloat16 0x3F7FFFFF = 0x3BFF" "float32ToFloat16 0x7FC00000 = 0x7C00"
  by (simp_all add: float32ToFloat16_def int_of_u32_def)

end
