(* ===== verification/VegServer.thy ===== *)
theory VegServer
  imports VegTensor ConsumerDemo
begin

text \<open>
  The vision server (\<open>veg/veg_server_combined.cpp\<close>): loading of the vendor's library and of the model, what it
  holds of them, the socket, the requests, the main loop, the way down and the command line. What the vendor's
  library and the operating system answer are arguments.
\<close>

section \<open>What the server holds, and what it holds it of\<close>

record veg_server =
  vs_backend_path :: string
  vs_system_path :: string
  vs_model_path :: string
  vs_target :: int
  vs_opencl :: bool
  vs_socket :: int
  vs_running :: bool
  vs_backend_lib :: bool
  vs_system_lib :: bool
  vs_backend :: bool
  vs_device :: bool
  vs_context :: bool
  vs_graphs :: "graph list option"
  vs_preprocessor :: "vit_config option"

definition veg_server_new :: "string \<Rightarrow> string \<Rightarrow> string \<Rightarrow> int \<Rightarrow> bool \<Rightarrow> veg_server" where
  "veg_server_new backend system model target opencl =
     \<lparr>vs_backend_path = backend, vs_system_path = system, vs_model_path = model, vs_target = target, vs_opencl = opencl,
      vs_socket = - 1, vs_running = False, vs_backend_lib = False, vs_system_lib = False, vs_backend = False,
      vs_device = False, vs_context = False, vs_graphs = None, vs_preprocessor = None\<rparr>"

text \<open>
  Outside the server: the heap, what is open or created, whether the socket file is there, and the descriptors
  closed that were not open.
\<close>

record veg_world =
  vw_heap :: heap
  vw_libs :: int
  vw_backends :: int
  vw_devices :: int
  vw_contexts :: int
  vw_system_contexts :: int
  vw_fds :: "int list"
  vw_bad_closes :: nat
  vw_bound :: bool

text \<open>What the binary says of its graphs: the version, and each graph with its version.\<close>

record binary_info =
  bi_version :: int
  bi_graphs :: "(int \<times> graph) list"

record veg_env =
  ve_gives :: "nat \<Rightarrow> bool"
  ve_dlopen :: "string \<Rightarrow> bool"
  ve_providers :: "string \<Rightarrow> bool"
  ve_backend_create :: bool
  ve_device_create :: "bool option"
  ve_model :: "string \<Rightarrow> u8 list option"
  ve_system_functions :: bool
  ve_system_context :: bool
  ve_binary_info :: "u8 list \<Rightarrow> binary_info option option"
  ve_context_create :: "u8 list \<Rightarrow> bool"
  ve_graph_retrieve :: "string option \<Rightarrow> bool"
  ve_socket :: int
  ve_bind :: bool
  ve_listen :: bool

section \<open>Descriptors of the graphs, copied\<close>

definition copyTensorsInfo :: "(nat \<Rightarrow> bool) \<Rightarrow> tensor list \<Rightarrow> heap \<Rightarrow> tensor list option \<times> heap" where
  "copyTensorsInfo gives src h =
     (case heap_alloc gives h of
        (False, h) \<Rightarrow> (None, h)
      | (True, h) \<Rightarrow>
          let (ts, h) = fold (\<lambda>t (ts, h). let (t', h) = deepCopyQnnTensorInfo gives t h in (ts @ [t'], h)) src ([], h)
          in (Some ts, h))"

definition copy_tensors_pointer :: "(nat \<Rightarrow> bool) \<Rightarrow> tensor list option \<Rightarrow> heap \<Rightarrow> tensor list option \<times> bool \<times> heap" where
  "copy_tensors_pointer gives p h =
     (case p of
        None \<Rightarrow> (None, True, h)
      | Some src \<Rightarrow> let (ts, h) = copyTensorsInfo gives src h in (ts, ts \<noteq> None, h))"

text \<open>The same for both versions of the descriptor.\<close>

definition copyGraphsInfo :: "(nat \<Rightarrow> bool) \<Rightarrow> graph \<Rightarrow> heap \<Rightarrow> graph \<times> bool \<times> heap" where
  "copyGraphsInfo gives src h =
     (let (name, h) = copy_of gives (gr_name src) h;
          (inputs, ok, h) = copy_tensors_pointer gives (gr_inputs src) h
      in if \<not> ok then (\<lparr>gr_name = name, gr_inputs = None, gr_outputs = None\<rparr>, False, h)
         else let (outputs, ok, h) = copy_tensors_pointer gives (gr_outputs src) h
              in (\<lparr>gr_name = name, gr_inputs = inputs, gr_outputs = outputs\<rparr>, ok, h))"

definition no_graph :: graph where
  "no_graph = \<lparr>gr_name = None, gr_inputs = None, gr_outputs = None\<rparr>"

text \<open>The zeroed array is filled from the front; what comes after an error stays zero.\<close>

fun copy_graphs :: "(nat \<Rightarrow> bool) \<Rightarrow> (int \<times> graph) list \<Rightarrow> heap \<Rightarrow> graph list \<times> bool \<times> heap" where
  "copy_graphs gives [] h = ([], True, h)"
| "copy_graphs gives ((version, g) # gs) h =
     (if version \<noteq> 1 \<and> version \<noteq> 3 then (replicate (Suc (length gs)) no_graph, False, h)
      else let (g', ok, h) = copyGraphsInfo gives g h
           in if \<not> ok then (g' # replicate (length gs) no_graph, False, h)
              else let (gs', ok, h) = copy_graphs gives gs h in (g' # gs', ok, h))"

definition extractGraphsInfo :: "(nat \<Rightarrow> bool) \<Rightarrow> binary_info option \<Rightarrow> heap \<Rightarrow> graph list option \<times> bool \<times> heap" where
  "extractGraphsInfo gives info h =
     (case info of
        None \<Rightarrow> (None, False, h)
      | Some b \<Rightarrow>
          if bi_version b \<notin> {1, 2, 3} \<or> bi_graphs b = [] then (None, False, h)
          else case heap_alloc gives h of
                 (False, h) \<Rightarrow> (None, False, h)
               | (True, h) \<Rightarrow> let (gs, ok, h) = copy_graphs gives (bi_graphs b) h in (Some gs, ok, h))"

definition freeQnnTensor :: "tensor \<Rightarrow> heap \<Rightarrow> heap" where
  "freeQnnTensor t h = heap_free (tn_dims t) (heap_free (tn_name t) h)"

definition free_info :: "tensor list option \<Rightarrow> heap \<Rightarrow> heap" where
  "free_info p h = (case p of None \<Rightarrow> h | Some ts \<Rightarrow> heap_free p (fold freeQnnTensor ts h))"

definition free_graph :: "graph \<Rightarrow> heap \<Rightarrow> heap" where
  "free_graph g h = free_info (gr_outputs g) (free_info (gr_inputs g) (heap_free (gr_name g) h))"

section \<open>Loading\<close>

text \<open>Each step of the start: the server, the world, and whether it went well.\<close>

type_synonym veg_step = "veg_server \<Rightarrow> veg_world \<Rightarrow> veg_server \<times> veg_world \<times> bool"

definition loadBackendLibrary :: "veg_env \<Rightarrow> veg_step" where
  "loadBackendLibrary E s w =
     (if \<not> ve_dlopen E (vs_backend_path s) then (s, w, False)
      else (s\<lparr>vs_backend_lib := True\<rparr>, w\<lparr>vw_libs := vw_libs w + 1\<rparr>, ve_providers E (vs_backend_path s)))"

definition loadSystemLibrary :: "veg_env \<Rightarrow> veg_step" where
  "loadSystemLibrary E s w =
     (if \<not> ve_dlopen E (vs_system_path s) then (s, w, False)
      else (s\<lparr>vs_system_lib := True\<rparr>, w\<lparr>vw_libs := vw_libs w + 1\<rparr>, ve_providers E (vs_system_path s)))"

definition initializeBackend :: "veg_env \<Rightarrow> veg_step" where
  "initializeBackend E s w =
     (if \<not> ve_backend_create E then (s, w, False)
      else (s\<lparr>vs_backend := True\<rparr>, w\<lparr>vw_backends := vw_backends w + 1\<rparr>, True))"

text \<open>None: the library has no such function. A failure is passed over.\<close>

definition createDevice :: "veg_env \<Rightarrow> veg_step" where
  "createDevice E s w =
     (case ve_device_create E of
        None \<Rightarrow> (s, w, True)
      | Some False \<Rightarrow> (s\<lparr>vs_device := False\<rparr>, w, True)
      | Some True \<Rightarrow> (s\<lparr>vs_device := True\<rparr>, w\<lparr>vw_devices := vw_devices w + 1\<rparr>, True))"

text \<open>The information about the binary belongs to a handle of the system library that is freed on every path.\<close>

definition read_graphs :: "veg_env \<Rightarrow> u8 list \<Rightarrow> veg_world \<Rightarrow> graph list option \<times> veg_world \<times> bool" where
  "read_graphs E bytes w =
     (if \<not> ve_system_functions E \<or> \<not> ve_system_context E then (None, w, False)
      else
        let w = w\<lparr>vw_system_contexts := vw_system_contexts w + 1\<rparr>;
            freed = (\<lambda>w. w\<lparr>vw_system_contexts := vw_system_contexts w - 1\<rparr>)
        in case ve_binary_info E bytes of
             None \<Rightarrow> (None, freed w, False)
           | Some info \<Rightarrow>
               let (gs, ok, h) = extractGraphsInfo (ve_gives E) info (vw_heap w)
               in (gs, freed (w\<lparr>vw_heap := h\<rparr>), ok))"

definition loadContextFromBinary :: "veg_env \<Rightarrow> veg_step" where
  "loadContextFromBinary E s w =
     (case ve_model E (vs_model_path s) of
        None \<Rightarrow> (s, w, False)
      | Some bytes \<Rightarrow>
          let (gs, w, ok) = read_graphs E bytes w; s = s\<lparr>vs_graphs := gs\<rparr>
          in if \<not> ok then (s, w, False)
             else if \<not> ve_context_create E bytes then (s, w, False)
             else (s\<lparr>vs_context := True\<rparr>, w\<lparr>vw_contexts := vw_contexts w + 1\<rparr>,
                   list_all (\<lambda>g. ve_graph_retrieve E (gr_name g)) (case gs of None \<Rightarrow> [] | Some gs \<Rightarrow> gs)))"

text \<open>Steps one after the other, up to the first that fails.\<close>

fun veg_steps :: "veg_step list \<Rightarrow> veg_step" where
  "veg_steps [] s w = (s, w, True)"
| "veg_steps (f # fs) s w = (let (s, w, ok) = f s w in if \<not> ok then (s, w, False) else veg_steps fs s w)"

definition initializeQNN :: "veg_env \<Rightarrow> veg_step" where
  "initializeQNN E =
     veg_steps [loadBackendLibrary E, loadSystemLibrary E, initializeBackend E, createDevice E, loadContextFromBinary E]"

definition initializePreprocessor :: veg_step where
  "initializePreprocessor s w = (s\<lparr>vs_preprocessor := vit_new vit_default\<rparr>, w, True)"

definition close_fd :: "int \<Rightarrow> veg_world \<Rightarrow> veg_world" where
  "close_fd fd w =
     (if fd \<in> set (vw_fds w) then w\<lparr>vw_fds := remove1 fd (vw_fds w)\<rparr> else w\<lparr>vw_bad_closes := Suc (vw_bad_closes w)\<rparr>)"

definition initializeSocket :: "veg_env \<Rightarrow> veg_step" where
  "initializeSocket E s w =
     (let s = s\<lparr>vs_socket := ve_socket E\<rparr>
      in if ve_socket E < 0 then (s, w, False)
         else
           let w = w\<lparr>vw_fds := ve_socket E # vw_fds w, vw_bound := False\<rparr>
           in if \<not> ve_bind E then (s, close_fd (ve_socket E) w, False)
              else if \<not> ve_listen E then (s, close_fd (ve_socket E) (w\<lparr>vw_bound := True\<rparr>), False)
              else (s, w\<lparr>vw_bound := True\<rparr>, True))"

definition veg_initialize :: "veg_env \<Rightarrow> veg_step" where
  "veg_initialize E = veg_steps [initializeQNN E, initializePreprocessor, initializeSocket E]"

section \<open>The way down\<close>

definition veg_stop :: "veg_server \<Rightarrow> veg_world \<Rightarrow> veg_server \<times> veg_world" where
  "veg_stop s w =
     (if vs_socket s < 0 then (s\<lparr>vs_running := False\<rparr>, w)
      else (s\<lparr>vs_running := False, vs_socket := - 1\<rparr>, (close_fd (vs_socket s) w)\<lparr>vw_bound := False\<rparr>))"

definition cleanupQNN :: "veg_server \<Rightarrow> veg_world \<Rightarrow> veg_server \<times> veg_world" where
  "cleanupQNN s w =
     (s\<lparr>vs_graphs := None\<rparr>,
      w\<lparr>vw_heap := (case vs_graphs s of None \<Rightarrow> vw_heap w | Some gs \<Rightarrow> heap_free (vs_graphs s) (fold free_graph gs (vw_heap w))),
        vw_contexts := vw_contexts w - of_bool (vs_context s),
        vw_devices := vw_devices w - of_bool (vs_device s),
        vw_backends := vw_backends w - of_bool (vs_backend s),
        vw_libs := vw_libs w - of_bool (vs_backend_lib s) - of_bool (vs_system_lib s)\<rparr>)"

definition veg_destroy :: "veg_server \<Rightarrow> veg_world \<Rightarrow> veg_world" where
  "veg_destroy s w = (let (s, w) = veg_stop s w in snd (cleanupQNN s w))"


section \<open>Everything loaded is given back\<close>

definition plain_graph :: "graph \<Rightarrow> bool" where
  "plain_graph g =
     list_all (\<lambda>t. no_axis_array (tn_quant t)) (tensors_of (gr_inputs g) @ tensors_of (gr_outputs g))"

definition plain_env :: "veg_env \<Rightarrow> bool" where
  "plain_env E = (\<forall>bytes b. ve_binary_info E bytes = Some (Some b) \<longrightarrow> list_all (\<lambda>(_, g). plain_graph g) (bi_graphs b))"

definition named :: "tensor \<Rightarrow> int" where
  "named t = of_bool (tn_name t \<noteq> None) + of_bool (tn_dims t \<noteq> None)"

definition info_blocks :: "tensor list option \<Rightarrow> int" where
  "info_blocks p = (case p of None \<Rightarrow> 0 | Some ts \<Rightarrow> 1 + sum_list (map named ts))"

definition graph_blocks :: "graph \<Rightarrow> int" where
  "graph_blocks g = of_bool (gr_name g \<noteq> None) + info_blocks (gr_inputs g) + info_blocks (gr_outputs g)"

definition server_blocks :: "graph list option \<Rightarrow> int" where
  "server_blocks p = (case p of None \<Rightarrow> 0 | Some gs \<Rightarrow> 1 + sum_list (map graph_blocks gs))"

lemma free_infos_live: "hp_live (fold freeQnnTensor ts h) = hp_live h - sum_list (map named ts)"
  by (induction ts arbitrary: h) (simp_all add: freeQnnTensor_def heap_free_live named_def)

lemma free_info_live: "hp_live (free_info p h) = hp_live h - info_blocks p"
  by (cases p) (simp_all add: free_info_def info_blocks_def heap_free_live free_infos_live)

lemma free_graph_live: "hp_live (free_graph g h) = hp_live h - graph_blocks g"
  by (simp add: free_graph_def graph_blocks_def free_info_live heap_free_live)

lemma free_graphs_live: "hp_live (fold free_graph gs h) = hp_live h - sum_list (map graph_blocks gs)"
  by (induction gs arbitrary: h) (simp_all add: free_graph_live)

lemma copy_fold_live:
  "fold (\<lambda>t (ts, h). let (t', h) = deepCopyQnnTensorInfo gives t h in (ts @ [t'], h)) src (ts0, h) = (ts, h')
     \<Longrightarrow> list_all (\<lambda>t. no_axis_array (tn_quant t)) src
     \<Longrightarrow> hp_live h' = hp_live h + sum_list (map named ts) - sum_list (map named ts0)"
proof (induction src arbitrary: ts0 h)
  case (Cons t src)
  obtain t' h1 where 1: "deepCopyQnnTensorInfo gives t h = (t', h1)" by fastforce
  have "hp_live h1 = hp_live h + named t'"
    using deep_copy_live [OF 1] Cons.prems(2) by (simp add: held_def named_def)
  then show ?case using Cons.IH [of "ts0 @ [t']" h1] Cons.prems 1 by simp
qed simp

lemma copy_pointer_live:
  assumes "copy_tensors_pointer gives p h = (p', ok, h')" "list_all (\<lambda>t. no_axis_array (tn_quant t)) (tensors_of p)"
  shows "hp_live h' = hp_live h + info_blocks p' \<and> (\<not> ok \<longrightarrow> p' = None)"
proof (cases p)
  case (Some src)
  obtain got h1 where 1: "heap_alloc gives h = (got, h1)" by fastforce
  have live: "hp_live h1 = hp_live h + of_bool got" using 1 by (auto simp: heap_alloc_def)
  obtain ts h2 where 2: "fold (\<lambda>t (ts, h). let (t', h) = deepCopyQnnTensorInfo gives t h in (ts @ [t'], h)) src ([], h1) = (ts, h2)"
    by fastforce
  show ?thesis
    using assms Some 1 2 live copy_fold_live [OF 2]
    by (cases got) (auto simp: copy_tensors_pointer_def copyTensorsInfo_def info_blocks_def tensors_of_def)
qed (use assms in \<open>simp add: copy_tensors_pointer_def info_blocks_def\<close>)

lemma copy_graph_live:
  assumes "copyGraphsInfo gives g h = (g', ok, h')" "plain_graph g"
  shows "hp_live h' = hp_live h + graph_blocks g'"
proof -
  obtain n h1 where 1: "copy_of gives (gr_name g) h = (n, h1)" by fastforce
  obtain i oi h2 where 2: "copy_tensors_pointer gives (gr_inputs g) h1 = (i, oi, h2)" by (metis prod_cases3)
  obtain u ou h3 where 3: "copy_tensors_pointer gives (gr_outputs g) h2 = (u, ou, h3)" by (metis prod_cases3)
  show ?thesis
    using assms 1 2 3 copy_of_live [OF 1] copy_pointer_live [OF 2] copy_pointer_live [OF 3]
    by (auto simp: copyGraphsInfo_def plain_graph_def graph_blocks_def info_blocks_def split: if_splits)
qed

lemma no_graph_blocks [simp]: "graph_blocks no_graph = 0"
  by (simp add: graph_blocks_def no_graph_def info_blocks_def)

lemma copy_graphs_live:
  "copy_graphs gives gs h = (gs', ok, h') \<Longrightarrow> list_all (\<lambda>(_, g). plain_graph g) gs
     \<Longrightarrow> hp_live h' = hp_live h + sum_list (map graph_blocks gs')"
proof (induction gives gs h arbitrary: gs' ok h' rule: copy_graphs.induct)
  case (2 gives version g gs h)
  obtain g1 ok1 h1 where 1: "copyGraphsInfo gives g h = (g1, ok1, h1)" by (metis prod_cases3)
  obtain gs2 ok2 h2 where r: "copy_graphs gives gs h1 = (gs2, ok2, h2)" by (metis prod_cases3)
  have "plain_graph g" using 2(3) by simp
  note live = copy_graph_live [OF 1 this]
  show ?case
  proof (cases "(version = 1 \<or> version = 3) \<and> ok1")
    case True
    then have "hp_live h2 = hp_live h1 + sum_list (map graph_blocks gs2)"
      using 2(1) [of "(g1, ok1, h1)"] 1 r 2(3) by auto
    then show ?thesis using True 2(2) 1 r live by auto
  qed (use 2(2) 1 live in \<open>auto simp: sum_list_replicate split: if_splits\<close>)
qed simp

lemma extract_graphs_live:
  assumes "extractGraphsInfo gives info h = (gs, ok, h')" "\<And>b. info = Some b \<Longrightarrow> list_all (\<lambda>(_, g). plain_graph g) (bi_graphs b)"
  shows "hp_live h' = hp_live h + server_blocks gs"
proof (cases info)
  case (Some b)
  obtain gs1 ok1 h1 where 1: "copy_graphs gives (bi_graphs b) (snd (heap_alloc gives h)) = (gs1, ok1, h1)" by (metis prod_cases3)
  show ?thesis
    using assms Some copy_graphs_live [OF 1] 1
    by (auto simp: extractGraphsInfo_def server_blocks_def heap_alloc_def split: if_splits)
qed (use assms in \<open>simp add: extractGraphsInfo_def server_blocks_def\<close>)


text \<open>The world has given what the server holds, and nothing else, since it was \<open>w0\<close>.\<close>

definition accounted :: "veg_world \<Rightarrow> veg_server \<Rightarrow> veg_world \<Rightarrow> bool" where
  "accounted w0 s w =
     (hp_live (vw_heap w) = hp_live (vw_heap w0) + server_blocks (vs_graphs s)
      \<and> vw_libs w = vw_libs w0 + of_bool (vs_backend_lib s) + of_bool (vs_system_lib s)
      \<and> vw_backends w = vw_backends w0 + of_bool (vs_backend s) \<and> vw_devices w = vw_devices w0 + of_bool (vs_device s)
      \<and> vw_contexts w = vw_contexts w0 + of_bool (vs_context s) \<and> vw_system_contexts w = vw_system_contexts w0)"

lemma read_graphs_live:
  assumes "read_graphs E bytes w = (gs, w', ok)" "plain_env E"
  shows "\<exists>h. w' = w\<lparr>vw_heap := h\<rparr> \<and> hp_live h = hp_live (vw_heap w) + server_blocks gs"
proof (cases "ve_system_functions E \<and> ve_system_context E \<and> ve_binary_info E bytes \<noteq> None")
  case True
  then obtain info where info: "ve_binary_info E bytes = Some info" by blast
  obtain gs1 ok1 h1 where 1: "extractGraphsInfo (ve_gives E) info (vw_heap w) = (gs1, ok1, h1)" by (metis prod_cases3)
  have "hp_live h1 = hp_live (vw_heap w) + server_blocks gs1"
    using assms(2) info by (intro extract_graphs_live [OF 1]) (auto simp: plain_env_def)
  moreover have "gs = gs1" "w' = w\<lparr>vw_heap := h1\<rparr>" using assms(1) True info 1 by (simp_all add: read_graphs_def Let_def)
  ultimately show ?thesis by blast
next
  case False
  then have "gs = None" "w' = w" using assms(1) by (auto simp: read_graphs_def Let_def split: if_splits)
  then show ?thesis by (intro exI [of _ "vw_heap w"]) (simp add: server_blocks_def)
qed

lemma load_context_accounted:
  assumes "loadContextFromBinary E s w = (s', w', ok)" "plain_env E" "accounted w0 s w" "vs_graphs s = None" "\<not> vs_context s"
  shows "accounted w0 s' w' \<and> vs_socket s' = vs_socket s \<and> vw_fds w' = vw_fds w"
proof (cases "ve_model E (vs_model_path s)")
  case (Some bytes)
  obtain gs w1 ok1 where 1: "read_graphs E bytes w = (gs, w1, ok1)" by (metis prod_cases3)
  obtain h where h: "w1 = w\<lparr>vw_heap := h\<rparr>" "hp_live h = hp_live (vw_heap w) + server_blocks gs"
    using read_graphs_live [OF 1 assms(2)] by blast
  have read: "accounted w0 (s\<lparr>vs_graphs := gs\<rparr>) w1"
    using assms(3,4) h unfolding accounted_def by (simp add: server_blocks_def)
  show ?thesis
  proof (cases "ok1 \<and> ve_context_create E bytes")
    case True
    then have "s' = s\<lparr>vs_graphs := gs, vs_context := True\<rparr>" "w' = w1\<lparr>vw_contexts := vw_contexts w1 + 1\<rparr>"
      using assms(1) Some 1 by (simp_all add: loadContextFromBinary_def Let_def)
    then show ?thesis using read assms(5) h(1) by (simp add: accounted_def)
  next
    case False
    then have "s' = s\<lparr>vs_graphs := gs\<rparr>" "w' = w1"
      using assms(1) Some 1 by (auto simp: loadContextFromBinary_def Let_def split: if_splits)
    then show ?thesis using read h(1) by simp
  qed
qed (use assms in \<open>simp add: loadContextFromBinary_def\<close>)

text \<open>A step that goes by the books, from servers where \<open>P\<close> holds to servers where \<open>Q\<close> holds.\<close>

definition books :: "(veg_server \<Rightarrow> bool) \<Rightarrow> veg_step \<Rightarrow> (veg_server \<Rightarrow> bool) \<Rightarrow> bool" where
  "books P f Q =
     (\<forall>w0 s w s' w' ok. f s w = (s', w', ok) \<longrightarrow> P s \<longrightarrow> accounted w0 s w
        \<longrightarrow> accounted w0 s' w' \<and> vs_socket s' = vs_socket s \<and> vw_fds w' = vw_fds w \<and> (ok \<longrightarrow> Q s'))"

lemma books_steps:
  "books P f Q \<Longrightarrow> books Q (veg_steps fs) R \<Longrightarrow> books P (veg_steps (f # fs)) R"
  unfolding books_def by (auto simp: Let_def split: prod.splits if_splits) metis+

lemma books_none: "books P (veg_steps []) P"
  by (simp add: books_def)

lemma books_qnn:
  assumes "plain_env E"
  shows "books (\<lambda>s. \<not> vs_backend_lib s \<and> \<not> vs_system_lib s \<and> \<not> vs_backend s \<and> \<not> vs_device s \<and> vs_graphs s = None \<and> \<not> vs_context s)
    (initializeQNN E) (\<lambda>_. True)"
  unfolding initializeQNN_def
proof (intro books_steps)
  show "books (\<lambda>s. \<not> vs_backend_lib s \<and> \<not> vs_system_lib s \<and> \<not> vs_backend s \<and> \<not> vs_device s \<and> vs_graphs s = None \<and> \<not> vs_context s)
      (loadBackendLibrary E) (\<lambda>s. \<not> vs_system_lib s \<and> \<not> vs_backend s \<and> \<not> vs_device s \<and> vs_graphs s = None \<and> \<not> vs_context s)"
    by (auto simp: books_def loadBackendLibrary_def accounted_def split: if_splits)
  show "books (\<lambda>s. \<not> vs_system_lib s \<and> \<not> vs_backend s \<and> \<not> vs_device s \<and> vs_graphs s = None \<and> \<not> vs_context s)
      (loadSystemLibrary E) (\<lambda>s. \<not> vs_backend s \<and> \<not> vs_device s \<and> vs_graphs s = None \<and> \<not> vs_context s)"
    by (auto simp: books_def loadSystemLibrary_def accounted_def split: if_splits)
  show "books (\<lambda>s. \<not> vs_backend s \<and> \<not> vs_device s \<and> vs_graphs s = None \<and> \<not> vs_context s)
      (initializeBackend E) (\<lambda>s. \<not> vs_device s \<and> vs_graphs s = None \<and> \<not> vs_context s)"
    by (auto simp: books_def initializeBackend_def accounted_def split: if_splits)
  show "books (\<lambda>s. \<not> vs_device s \<and> vs_graphs s = None \<and> \<not> vs_context s) (createDevice E) (\<lambda>s. vs_graphs s = None \<and> \<not> vs_context s)"
    by (cases "ve_device_create E"; cases "the (ve_device_create E)") (auto simp: books_def createDevice_def accounted_def)
  show "books (\<lambda>s. vs_graphs s = None \<and> \<not> vs_context s) (loadContextFromBinary E) (\<lambda>_. True)"
    using load_context_accounted [OF _ assms] by (simp add: books_def)
  show "books (\<lambda>_. True) (veg_steps []) (\<lambda>_. True)" by (rule books_none)
qed


lemma accounted_update [simp]:
  "accounted w0 (s\<lparr>vs_socket := a\<rparr>) w = accounted w0 s w" "accounted w0 (s\<lparr>vs_running := r\<rparr>) w = accounted w0 s w"
  "accounted w0 (s\<lparr>vs_preprocessor := q\<rparr>) w = accounted w0 s w"
  "accounted w0 s (w\<lparr>vw_fds := fds\<rparr>) = accounted w0 s w" "accounted w0 s (w\<lparr>vw_bound := b\<rparr>) = accounted w0 s w"
  "accounted w0 s (w\<lparr>vw_bad_closes := n\<rparr>) = accounted w0 s w"
  by (simp_all add: accounted_def)

lemma accounted_close [simp]: "accounted w0 s (close_fd fd w) = accounted w0 s w"
  by (simp add: close_fd_def)

lemma close_fd_fds: "vw_fds (close_fd fd w) = remove1 fd (vw_fds w)"
  by (simp add: close_fd_def remove1_idem)

lemma socket_books:
  assumes "initializeSocket E s w = (s', w', ok)" "ve_socket E \<notin> set (vw_fds w)"
  shows "vw_fds w' = (if ok then vs_socket s' # vw_fds w else vw_fds w) \<and> vs_socket s' = ve_socket E
    \<and> accounted w0 s' w' = accounted w0 s w \<and> (ok \<longrightarrow> 0 \<le> vs_socket s')"
proof (cases "ve_socket E < 0")
  case False
  then show ?thesis
    using assms by (cases "ve_bind E"; cases "ve_listen E") (auto simp: initializeSocket_def Let_def close_fd_fds)
qed (use assms in \<open>auto simp: initializeSocket_def Let_def\<close>)

lemma start_accounted:
  assumes "veg_initialize E (veg_server_new a b c t gpu) w = (s, w', ok)" "plain_env E" "ve_socket E \<notin> set (vw_fds w)"
  shows "accounted w s w' \<and> vw_fds w' = (if 0 \<le> vs_socket s \<and> ok then vs_socket s # vw_fds w else vw_fds w)
    \<and> (vs_socket s \<in> {- 1, ve_socket E})"
proof -
  let ?s = "veg_server_new a b c t gpu"
  obtain s1 w1 ok1 where 1: "initializeQNN E ?s w = (s1, w1, ok1)" by (metis prod_cases3)
  have "accounted w ?s w" by (simp add: accounted_def veg_server_new_def server_blocks_def)
  then have q: "accounted w s1 w1" "vs_socket s1 = - 1" "vw_fds w1 = vw_fds w"
    using books_qnn [OF assms(2), unfolded books_def, rule_format, OF 1] by (simp_all add: veg_server_new_def)
  show ?thesis
  proof (cases ok1)
    case True
    let ?s2 = "s1\<lparr>vs_preprocessor := vit_new vit_default\<rparr>"
    obtain s3 w3 ok3 where 3: "initializeSocket E ?s2 w1 = (s3, w3, ok3)" by (metis prod_cases3)
    have "accounted w ?s2 w1" using q(1) by (simp add: accounted_def)
    moreover have "s = s3" "w' = w3" "ok = ok3"
      using assms(1) 1 True 3 by (cases ok3; simp add: veg_initialize_def initializePreprocessor_def)+
    ultimately show ?thesis using socket_books [OF 3, of w] assms(3) q(3) by auto
  next
    case False
    then show ?thesis using assms(1) 1 q by (simp add: veg_initialize_def)
  qed
qed

definition taken :: "veg_world \<Rightarrow> int list \<times> int list" where
  "taken w =
     ([hp_live (vw_heap w), vw_libs w, vw_backends w, vw_devices w, vw_contexts w, vw_system_contexts w], vw_fds w)"

lemma cleanup_accounted:
  "accounted w0 s w \<Longrightarrow> vw_fds w = vw_fds w0 \<Longrightarrow> taken (snd (cleanupQNN s w)) = taken w0"
  by (cases "vs_graphs s") (simp_all add: accounted_def taken_def cleanupQNN_def server_blocks_def heap_free_live free_graphs_live)

lemma destroy_accounted:
  assumes "accounted w0 s w" "vw_fds w = (if 0 \<le> vs_socket s \<and> ok then vs_socket s # vw_fds w0 else vw_fds w0)"
    "0 \<le> vs_socket s \<Longrightarrow> vs_socket s \<notin> set (vw_fds w0)"
  shows "taken (veg_destroy s w) = taken w0"
proof -
  have "accounted w0 (fst (veg_stop s w)) (snd (veg_stop s w)) \<and> vw_fds (snd (veg_stop s w)) = vw_fds w0"
    using assms by (cases "vs_socket s < 0"; cases ok) (simp_all add: veg_stop_def close_fd_fds remove1_idem)
  then show ?thesis
    using cleanup_accounted [of w0 "fst (veg_stop s w)" "snd (veg_stop s w)"] by (simp add: veg_destroy_def case_prod_beta)
qed


section \<open>Requests\<close>

text \<open>
  A request: the bytes the client sends before it stops, and whether it is still there to read the answer. The
  outcome: the bytes sent back, the process killed (by the signal of a broken connection), or its heap overrun.
\<close>

record request =
  rq_bytes :: "u8 list"
  rq_reads :: bool

datatype reply = Sent "u8 list" | Killed | Overrun | Hung

definition send_reply :: "request \<Rightarrow> u32 \<Rightarrow> u32 list \<Rightarrow> reply" where
  "send_reply rq status values =
     (let n = word_of_nat (length values)
      in if \<not> rq_reads rq then Killed
         else Sent (enc_u32 status @ enc_u32 n @ concat (map enc_u32 (take (unat n) values))))"

definition sendError :: "request \<Rightarrow> reply" where
  "sendError rq = send_reply rq 1 []"

text \<open>
  The file system tells of a path whether it is there and a regular file; \<open>serve\<close> is the answer of processImage
  for a path and a heap. Both see the path up to its first zero byte.
\<close>

definition c_path :: "u8 list \<Rightarrow> string" where
  "c_path bytes = takeWhile (\<lambda>c. c \<noteq> CHR 0x00) (bytes_string bytes)"

definition handleClient ::
  "(string \<Rightarrow> bool option) \<Rightarrow> (string \<Rightarrow> heap \<Rightarrow> served \<times> heap) \<Rightarrow> request \<Rightarrow> heap \<Rightarrow> reply \<times> heap" where
  "handleClient files serve rq h =
     (if length (rq_bytes rq) < 4 then (sendError rq, h)
      else
        let pathLen = dec_u32 (rq_bytes rq); room = unat (pathLen + 1);
            got = take (unat pathLen) (drop 4 (rq_bytes rq))
        in if room < length got then (Overrun, h)
           else if length got \<noteq> unat pathLen then (sendError rq, h)
           else if files (c_path got) \<noteq> Some True then (sendError rq, h)
           else case serve (c_path got) h of
                  (NoImage, h) \<Rightarrow> (sendError rq, h)
                | (HeapSmashed, h) \<Rightarrow> (Overrun, h)
                | (NeverEnds, h) \<Rightarrow> (Hung, h)
                | (Embeddings vs, h) \<Rightarrow> (send_reply rq 0 vs, h))"

text \<open>The main loop: a client, a failed accept, or a signal.\<close>

datatype veg_event = Client request | AcceptFailed | StopSignal

datatype veg_state = Waiting | Stopped | Dead

text \<open>The replies, the heap and the state after the events; a server without a socket cannot accept.\<close>

fun veg_run ::
  "(request \<Rightarrow> heap \<Rightarrow> reply \<times> heap) \<Rightarrow> veg_event list \<Rightarrow> veg_server \<Rightarrow> veg_world \<Rightarrow> reply list \<times> veg_server \<times> veg_world \<times> veg_state" where
  "veg_run handle [] s w = ([], s, w, Waiting)"
| "veg_run handle (StopSignal # es) s w = (let (s, w) = veg_stop s w in ([], s, w, Stopped))"
| "veg_run handle (AcceptFailed # es) s w = veg_run handle es s w"
| "veg_run handle (Client rq # es) s w =
     (if vs_socket s < 0 then veg_run handle es s w
      else let (r, h) = handle rq (vw_heap w); w = w\<lparr>vw_heap := h\<rparr>
           in case r of
                Sent bytes \<Rightarrow> let (rs, s, w, e) = veg_run handle es s w in (r # rs, s, w, e)
              | _ \<Rightarrow> ([r], s, w, Dead))"

definition run_server ::
  "(request \<Rightarrow> heap \<Rightarrow> reply \<times> heap) \<Rightarrow> veg_event list \<Rightarrow> veg_server \<Rightarrow> veg_world \<Rightarrow> reply list \<times> veg_server \<times> veg_world \<times> veg_state" where
  "run_server handle es s w = veg_run handle es (s\<lparr>vs_running := True\<rparr>) w"

section \<open>The command line\<close>

text \<open>\<open>std::stoi\<close>: None when it throws.\<close>

definition stoi :: "string \<Rightarrow> int option" where
  "stoi t =
     (let t = dropWhile (\<lambda>c. c \<in> set '' '' \<or> (of_char c :: nat) \<in> {9..13}) t;
          neg = (t \<noteq> [] \<and> hd t = CHR ''-'');
          t = (if t \<noteq> [] \<and> (hd t = CHR ''-'' \<or> hd t = CHR ''+'') then tl t else t);
          ds = takeWhile (\<lambda>c. (of_char c :: nat) \<in> {48..57}) t;
          n = foldl (\<lambda>n c. 10 * n + int (of_char c - 48)) 0 ds;
          v = (if neg then - n else n)
      in if ds = [] \<or> v < - 2147483648 \<or> 2147483647 < v then None else Some v)"

record veg_options =
  vo_backend :: string
  vo_system :: string
  vo_model :: string
  vo_target :: int
  vo_opencl :: bool

datatype veg_command = ShowHelp | BadUsage | BadNumber | Serve veg_options

fun veg_arguments :: "string list \<Rightarrow> veg_options \<Rightarrow> veg_command" where
  "veg_arguments [] opt = Serve opt"
| "veg_arguments (a # args) opt =
     (if a = ''--help'' then ShowHelp
      else if a = ''--no_opencl'' then veg_arguments args (opt\<lparr>vo_opencl := False\<rparr>)
      else case args of
             [] \<Rightarrow> BadUsage
           | v # rest \<Rightarrow>
               if a = ''--backend'' then veg_arguments rest (opt\<lparr>vo_backend := v\<rparr>)
               else if a = ''--system_library'' then veg_arguments rest (opt\<lparr>vo_system := v\<rparr>)
               else if a = ''--model'' then veg_arguments rest (opt\<lparr>vo_model := v\<rparr>)
               else if a = ''--target_size'' then
                 (case stoi v of None \<Rightarrow> BadNumber | Some n \<Rightarrow> veg_arguments rest (opt\<lparr>vo_target := n\<rparr>))
               else BadUsage)"

definition veg_command_of :: "string list \<Rightarrow> veg_command" where
  "veg_command_of args =
     (case veg_arguments args \<lparr>vo_backend = [], vo_system = [], vo_model = [], vo_target = 448, vo_opencl = True\<rparr> of
        Serve opt \<Rightarrow> if vo_backend opt = [] \<or> vo_system opt = [] \<or> vo_model opt = [] then BadUsage else Serve opt
      | c \<Rightarrow> c)"

text \<open>
  main: None while the server waits, is dead or ended by an exception; otherwise the exit code. The world is
  the one after the server is destroyed.
\<close>

definition veg_main ::
  "veg_env \<Rightarrow> (veg_server \<Rightarrow> request \<Rightarrow> heap \<Rightarrow> reply \<times> heap) \<Rightarrow> string list \<Rightarrow> veg_event list \<Rightarrow> veg_world
     \<Rightarrow> reply list \<times> int option \<times> veg_world" where
  "veg_main E handle args es w =
     (case veg_command_of args of
        ShowHelp \<Rightarrow> ([], Some 0, w)
      | BadUsage \<Rightarrow> ([], Some 1, w)
      | BadNumber \<Rightarrow> ([], None, w)
      | Serve opt \<Rightarrow>
          (case veg_initialize E (veg_server_new (vo_backend opt) (vo_system opt) (vo_model opt) (vo_target opt) (vo_opencl opt)) w of
             (s, w, False) \<Rightarrow> ([], Some 1, veg_destroy s w)
           | (s, w, True) \<Rightarrow>
               (case run_server (handle s) es s w of
                  (rs, s, w, Stopped) \<Rightarrow> (rs, Some 0, veg_destroy s w)
                | (rs, s, w, _) \<Rightarrow> (rs, None, w))))"


text \<open>The requests of the program itself: the picture is prepared, then run through the first graph.\<close>

definition veg_handle ::
  "(string \<Rightarrow> bool option) \<Rightarrow> (string \<Rightarrow> (u8 list \<times> int \<times> int) option) \<Rightarrow> vit_env \<Rightarrow> (nat \<Rightarrow> bool) \<Rightarrow> (nat \<Rightarrow> u8 list)
     \<Rightarrow> (tensor list \<Rightarrow> tensor list \<Rightarrow> tensor list option) \<Rightarrow> veg_server \<Rightarrow> request \<Rightarrow> heap \<Rightarrow> reply \<times> heap" where
  "veg_handle files load V gives fresh execute s =
     handleClient files (\<lambda>path. processImage gives fresh execute (case vs_graphs s of None \<Rightarrow> [] | Some gs \<Rightarrow> gs)
       (case vs_preprocessor s of
          None \<Rightarrow> Inl []
        | Some c \<Rightarrow> preprocess_file V c path (load path) (vs_target s)))"

section \<open>What the program promises\<close>

text \<open>The answer as the help text of the program describes it: status, number of values, values.\<close>

definition read_reply :: "u8 list \<Rightarrow> (u32 \<times> u32 list) option" where
  "read_reply bytes =
     (let n = unat (dec_u32 (drop 4 bytes))
      in if length bytes = 8 + 4 * n then Some (dec_u32 bytes, map dec_u32 (groups_of 4 (drop 8 bytes))) else None)"

definition request_for :: "string \<Rightarrow> request" where
  "request_for path = \<lparr>rq_bytes = enc_u32 (word_of_nat (length path)) @ string_bytes path, rq_reads = True\<rparr>"

definition expected_answer :: "(string \<Rightarrow> bool option) \<Rightarrow> (string \<Rightarrow> heap \<Rightarrow> served \<times> heap) \<Rightarrow> string \<Rightarrow> heap \<Rightarrow> (u32 \<times> u32 list) option" where
  "expected_answer files serve path h =
     (if files path \<noteq> Some True then Some (1, [])
      else case fst (serve path h) of Embeddings vs \<Rightarrow> Some (0, vs) | NoImage \<Rightarrow> Some (1, []) | _ \<Rightarrow> None)"

lemma groups_of_words: "map dec_u32 (groups_of 4 (concat (map enc_u32 vs))) = vs"
  by (induction vs) (simp_all add: groups_of.simps)

lemma length_words: "length (concat (map enc_u32 vs)) = 4 * length vs"
  by (induction vs) simp_all

lemma read_reply_sent:
  assumes "length vs < 4294967296"
  shows "read_reply (enc_u32 status @ enc_u32 (word_of_nat (length vs)) @ concat (map enc_u32 vs)) = Some (status, vs)"
  using assms by (simp add: read_reply_def length_words groups_of_words unat_of_nat)

lemma send_reply_read:
  assumes "rq_reads rq" "length vs < 4294967296"
  shows "(case send_reply rq status vs of Sent bytes \<Rightarrow> read_reply bytes | _ \<Rightarrow> None) = Some (status, vs)"
  using assms read_reply_sent [OF assms(2)] by (simp add: send_reply_def unat_of_nat)

lemma handle_path:
  assumes "length path < 4294967295" "list_all (\<lambda>c. c \<noteq> CHR 0x00) path"
  shows "handleClient files serve (request_for path) h =
    (if files path \<noteq> Some True then (sendError (request_for path), h)
     else case serve path h of
            (NoImage, h) \<Rightarrow> (sendError (request_for path), h)
          | (HeapSmashed, h) \<Rightarrow> (Overrun, h)
          | (NeverEnds, h) \<Rightarrow> (Hung, h)
          | (Embeddings vs, h) \<Rightarrow> (send_reply (request_for path) 0 vs, h))"
proof -
  have n: "unat (word_of_nat (length path) :: u32) = length path" "unat (word_of_nat (length path) + 1 :: u32) = Suc (length path)"
    using assms(1) by (simp_all add: unat_of_nat unat_word_ariths)
  have p: "c_path (string_bytes path) = path"
    using assms(2) by (simp add: c_path_def list_all_iff takeWhile_eq_all_conv)
  have l: "length (string_bytes path) = length path" by (simp add: string_bytes_def)
  have b: "rq_bytes (request_for path) = enc_u32 (word_of_nat (length path)) @ string_bytes path" by (simp add: request_for_def)
  show ?thesis by (simp add: handleClient_def b n p l Let_def del: of_nat_Suc)
qed

text \<open>
  C38: The answer to a request reads back as what the server has found, by the protocol of its help text: a client
  that sends the path of an image and waits gets status 0 with exactly the embeddings when the path is a
  regular file and its image was processed, and status 1 with no values otherwise.
\<close>

theorem answer_reads_back:
  assumes "length path < 4294967295" "list_all (\<lambda>c. c \<noteq> CHR 0x00) path"
    and "\<And>vs h'. serve path h = (Embeddings vs, h') \<Longrightarrow> length vs < 4294967296"
  shows "(case fst (handleClient files serve (request_for path) h) of Sent bytes \<Rightarrow> read_reply bytes | _ \<Rightarrow> None)
    = expected_answer files serve path h"
proof -
  have rd: "rq_reads (request_for path)" by (simp add: request_for_def)
  obtain r h' where "serve path h = (r, h')" by fastforce
  then show ?thesis
    using assms(3) send_reply_read [OF rd, of _ 0] send_reply_read [OF rd, of "[]" 1]
    by (cases r) (simp_all add: handle_path [OF assms(1,2)] expected_answer_def sendError_def)
qed

definition two_values :: "string \<Rightarrow> heap \<Rightarrow> served \<times> heap" where
  "two_values path h = (Embeddings [0x3F800000, 7], h)"

lemma answer_reads_back_witness:
  "(case fst (handleClient (\<lambda>_. Some True) two_values (request_for ''/a.jpg'') \<lparr>hp_live = 0, hp_asked = 0\<rparr>) of Sent bytes \<Rightarrow> read_reply bytes | _ \<Rightarrow> None)
    = Some (0, [0x3F800000, 7])"
  using answer_reads_back [of "''/a.jpg''" two_values "\<lparr>hp_live = 0, hp_asked = 0\<rparr>" "\<lambda>_. Some True"]
  by (simp add: two_values_def expected_answer_def)

text \<open>A server that runs: what it holds is accounted for, its socket included.\<close>

definition running_books :: "veg_world \<Rightarrow> veg_server \<Rightarrow> veg_world \<Rightarrow> bool" where
  "running_books w0 s w =
     (accounted w0 s w \<and> vw_fds w = (if 0 \<le> vs_socket s then vs_socket s # vw_fds w0 else vw_fds w0)
      \<and> (0 \<le> vs_socket s \<longrightarrow> vs_socket s \<notin> set (vw_fds w0)))"

lemma stop_books:
  assumes "running_books w0 s w"
  shows "running_books w0 (fst (veg_stop s w)) (snd (veg_stop s w))"
  using assms by (cases "vs_socket s < 0") (simp_all add: running_books_def veg_stop_def close_fd_fds)

lemma run_books:
  assumes "\<And>rq h. hp_live (snd (handle rq h)) = hp_live h"
  shows "veg_run handle es s w = (rs, s', w', e) \<Longrightarrow> running_books w0 s w \<Longrightarrow> running_books w0 s' w'"
proof (induction es arbitrary: s w rs)
  case (Cons ev es)
  show ?case
  proof (cases ev)
    case (Client rq)
    obtain r h where r: "handle rq (vw_heap w) = (r, h)" by fastforce
    have h: "running_books w0 s (w\<lparr>vw_heap := h\<rparr>)"
      using assms [of rq "vw_heap w"] r Cons.prems(2) by (simp add: running_books_def accounted_def)
    show ?thesis
      using Cons.prems Cons.IH [OF _ h] Cons.IH [of s w] Client r h
      by (cases r) (auto simp: Let_def split: if_splits prod.splits)
  next
    case AcceptFailed
    then show ?thesis using Cons by auto
  next
    case StopSignal
    then show ?thesis using Cons.prems stop_books [OF Cons.prems(2)] by (auto simp: case_prod_beta)
  qed
qed simp

lemma destroy_running: "running_books w0 s w \<Longrightarrow> taken (veg_destroy s w) = taken w0"
  by (rule destroy_accounted [where ok = True]) (auto simp: running_books_def)



lemma handle_client_keeps:
  assumes "\<And>path h. hp_live (snd (serve path h)) = hp_live h"
  shows "hp_live (snd (handleClient files serve rq h)) = hp_live h"
proof -
  let ?path = "c_path (take (unat (dec_u32 (rq_bytes rq))) (drop 4 (rq_bytes rq)))"
  obtain r h' where r: "serve ?path h = (r, h')" by fastforce
  then show ?thesis using assms [of ?path h] by (cases r) (simp_all add: handleClient_def Let_def)
qed

lemma veg_handle_keeps:
  assumes "\<And>d. list_all (\<lambda>g. list_all (input_fits d) (tensors_of (gr_inputs g))) gs"
    and "list_all (\<lambda>g. list_all output_fits (tensors_of (gr_outputs g))) gs" "vs_graphs s = Some gs"
    and "\<And>ins outs filled. execute ins outs = Some filled \<Longrightarrow> list_all2 same_blocks outs filled"
  shows "hp_live (snd (veg_handle files load V (\<lambda>_. True) fresh execute s rq h)) = hp_live h"
  unfolding veg_handle_def
proof (rule handle_client_keeps)
  fix path h
  show "hp_live (snd (processImage (\<lambda>_. True) fresh execute (case vs_graphs s of None \<Rightarrow> [] | Some gs \<Rightarrow> gs)
      (case vs_preprocessor s of None \<Rightarrow> Inl [] | Some c \<Rightarrow> preprocess_file V c path (load path) (vs_target s)) h)) = hp_live h"
    using image_balanced [where graphs = gs and execute = execute and fresh = fresh and h = h
        and pre = "case vs_preprocessor s of None \<Rightarrow> Inl [] | Some c \<Rightarrow> preprocess_file V c path (load path) (vs_target s)"] assms
    by (cases gs) (auto simp: case_prod_beta)
qed

definition quiet_world :: veg_world where
  "quiet_world =
     \<lparr>vw_heap = \<lparr>hp_live = 3, hp_asked = 0\<rparr>, vw_libs = 0, vw_backends = 0, vw_devices = 0, vw_contexts = 0,
      vw_system_contexts = 0, vw_fds = [0, 1, 2], vw_bad_closes = 0, vw_bound = False\<rparr>"

definition good_env :: veg_env where
  "good_env =
     \<lparr>ve_gives = (\<lambda>_. True), ve_dlopen = (\<lambda>_. True), ve_providers = (\<lambda>_. True), ve_backend_create = True,
      ve_device_create = Some True, ve_model = (\<lambda>_. Some [1]), ve_system_functions = True, ve_system_context = True,
      ve_binary_info = (\<lambda>_. Some (Some \<lparr>bi_version = 3, bi_graphs = [(3, tiny_graph)]\<rparr>)), ve_context_create = (\<lambda>_. True),
      ve_graph_retrieve = (\<lambda>_. True), ve_socket = 3, ve_bind = True, ve_listen = True\<rparr>"

definition veg_args :: "string list" where
  "veg_args = [''--backend'', ''b.so'', ''--model'', ''m.bin'', ''--system_library'', ''s.so'']"

lemma good_command: "veg_command_of veg_args =
    Serve \<lparr>vo_backend = ''b.so'', vo_system = ''s.so'', vo_model = ''m.bin'', vo_target = 448, vo_opencl = True\<rparr>"
  by (simp add: veg_command_of_def veg_args_def)

lemma good_start:
  assumes "veg_initialize good_env (veg_server_new a b c t opencl) quiet_world = (s, w, ok)"
  shows "ok \<and> vs_socket s = 3"
  using assms
  by (auto simp: veg_initialize_def initializeQNN_def loadBackendLibrary_def loadSystemLibrary_def initializeBackend_def
      createDevice_def loadContextFromBinary_def read_graphs_def extractGraphsInfo_def good_env_def initializePreprocessor_def
      initializeSocket_def heap_alloc_def copyGraphsInfo_def copy_tensors_pointer_def copyTensorsInfo_def Let_def tiny_graph_def
      split: prod.splits if_splits)

lemma tiny_run_stops:
  "fst (snd (veg_main good_env (\<lambda>_. handleClient (\<lambda>_. Some True) two_values) veg_args [Client (request_for ''/a''), StopSignal] quiet_world))
     = Some 0"
proof -
  obtain s w ok where 1: "veg_initialize good_env (veg_server_new ''b.so'' ''s.so'' ''m.bin'' 448 True) quiet_world = (s, w, ok)"
    by (metis prod_cases3)
  let ?r = "Sent (enc_u32 0 @ enc_u32 2 @ concat (map enc_u32 [0x3F800000, 7]))"
  have r: "handleClient (\<lambda>_. Some True) two_values (request_for ''/a'') h = (?r, h)" for h
    by (simp add: handle_path two_values_def send_reply_def) (simp add: request_for_def)
  obtain s1 w1 where 2: "veg_stop (s\<lparr>vs_running := True\<rparr>) w = (s1, w1)" by fastforce
  have "ok" "\<not> vs_socket s < 0" using good_start [OF 1] by simp_all
  then show ?thesis using 1 2 by (simp add: veg_main_def good_command run_server_def r del: map_map list.map)
qed


text \<open>
  A signal that arrives while the server starts is lost. The handler closes the socket, then the loop sets the
  flag again and goes on accepting on a descriptor that is not there: without a further signal it never ends and
  no client is ever answered, whatever connects.
\<close>

theorem early_stop_spins:
  assumes "list_all (\<lambda>e. e \<noteq> StopSignal) es" "veg_stop s w = (s', w')"
  shows "run_server handle es s' w' = ([], s'\<lparr>vs_running := True\<rparr>, w', Waiting)"
proof -
  have spin: "list_all (\<lambda>e. e \<noteq> StopSignal) es \<Longrightarrow> vs_socket s < 0 \<Longrightarrow> veg_run handle es s w = ([], s, w, Waiting)" for s w
    by (induction handle es s w rule: veg_run.induct) auto
  have "vs_socket s' < 0" using assms(2) by (auto simp: veg_stop_def split: if_splits)
  then show ?thesis using spin [OF assms(1), of "s'\<lparr>vs_running := True\<rparr>"] by (simp add: run_server_def)
qed

lemma early_stop_spins_witness:
  "run_server (handleClient (\<lambda>_. Some True) two_values) [Client (request_for ''/a''), AcceptFailed]
      (fst (veg_stop (veg_server_new a b c 448 True) quiet_world)) quiet_world
     = ([], (veg_server_new a b c 448 True)\<lparr>vs_running := True\<rparr>, quiet_world, Waiting)"
  using early_stop_spins [of "[Client (request_for ''/a''), AcceptFailed]" "veg_server_new a b c 448 True" quiet_world
      "veg_server_new a b c 448 True" quiet_world]
  by (simp add: veg_stop_def veg_server_new_def)

section \<open>What a client or the system can do to it\<close>

text \<open>A length of 2^32 - 1 wraps to a buffer of no bytes; whatever follows is written past it.\<close>

lemma longest_path_overruns:
  "handleClient files serve \<lparr>rq_bytes = [0xFF, 0xFF, 0xFF, 0xFF, x], rq_reads = r\<rparr> h = (Overrun, h)"
  by (simp add: handleClient_def dec_u32_def Let_def)

text \<open>A client that does not wait for the answer ends the server.\<close>

lemma gone_client_kills:
  "0 \<le> vs_socket s \<Longrightarrow>
     veg_run (handleClient files serve) (Client \<lparr>rq_bytes = [], rq_reads = False\<rparr> # es) s w = ([Killed], s, w, Dead)"
  by (simp add: handleClient_def sendError_def send_reply_def)

text \<open>After a failed bind the descriptor is closed a second time.\<close>

lemma failed_bind_closes_twice:
  assumes "0 \<le> ve_socket E" "\<not> ve_bind E \<or> \<not> ve_listen E" "ve_socket E \<notin> set (vw_fds w)" "initializeSocket E s w = (s', w', ok)"
  shows "\<not> ok \<and> vw_bad_closes (snd (veg_stop s' w')) = Suc (vw_bad_closes w)"
  using assms by (cases "ve_bind E") (auto simp: initializeSocket_def Let_def close_fd_def veg_stop_def)

end
