(* ===== verification/InferChain.thy ===== *)
theory InferChain
  imports ChannelWorker Strings "HOL-Library.Sublist"
begin

unbundle bit_operations_syntax

text \<open>
  The chain of elements of one channel (\<open>infer_module/DetectionInferModule.cpp\<close>, \<open>PipelineUtils.cpp\<close>): which
  elements are made and added for a configuration, how they are linked and set up, and every way in which the
  building fails. An element is named by its base; the answers of GStreamer are arguments.
\<close>

section \<open>The elements of a channel\<close>

text \<open>By the base of their names; the sinks for pads that carry no video are numbered.\<close>

datatype elem =
  Filesrc | Qtdemux | H264parse | TimingParseOut | V4l2h264dec | V4l2h264decCaps
  | TimingDecOut | TeeDecode | QueueDecode | Qtimlvconverter | TimingYoloQnnIn | Qtimlqnn
  | TimingYoloQnnOut | Qtimlpostprocess | TimingYoloPostOut | QueueTracker | TimingTrackerIn | Qtiobjtracker
  | TimingTrackerOut | QueueMeta | TextCaps | Metamux | QueueDeduper | Deduper
  | AppsinkCombined | TeeDeduper | QueueFo | FrameOffload | QueueAgg | FakesinkFo
  | QueueCombined | QueueFace | TimingFaceIn | Faceinfer | TimingFaceOut | QueueVideo
  | Fakesink nat

fun elem_base :: "elem \<Rightarrow> string" where
  "elem_base Filesrc = ''filesrc''"
| "elem_base Qtdemux = ''qtdemux''"
| "elem_base H264parse = ''h264parse''"
| "elem_base TimingParseOut = ''timing_parse_out''"
| "elem_base V4l2h264dec = ''v4l2h264dec''"
| "elem_base V4l2h264decCaps = ''v4l2h264dec_caps''"
| "elem_base TimingDecOut = ''timing_dec_out''"
| "elem_base TeeDecode = ''tee_decode''"
| "elem_base QueueDecode = ''queue_decode''"
| "elem_base Qtimlvconverter = ''qtimlvconverter''"
| "elem_base TimingYoloQnnIn = ''timing_yolo_qnn_in''"
| "elem_base Qtimlqnn = ''qtimlqnn''"
| "elem_base TimingYoloQnnOut = ''timing_yolo_qnn_out''"
| "elem_base Qtimlpostprocess = ''qtimlpostprocess''"
| "elem_base TimingYoloPostOut = ''timing_yolo_post_out''"
| "elem_base QueueTracker = ''queue_tracker''"
| "elem_base TimingTrackerIn = ''timing_tracker_in''"
| "elem_base Qtiobjtracker = ''qtiobjtracker''"
| "elem_base TimingTrackerOut = ''timing_tracker_out''"
| "elem_base QueueMeta = ''queue_meta''"
| "elem_base TextCaps = ''text_caps''"
| "elem_base Metamux = ''metamux''"
| "elem_base QueueDeduper = ''queue_deduper''"
| "elem_base Deduper = ''deduper''"
| "elem_base AppsinkCombined = ''appsink_combined''"
| "elem_base TeeDeduper = ''tee_deduper''"
| "elem_base QueueFo = ''queue_fo''"
| "elem_base FrameOffload = ''frame_offload''"
| "elem_base QueueAgg = ''queue_agg''"
| "elem_base FakesinkFo = ''fakesink_fo''"
| "elem_base QueueCombined = ''queue_combined''"
| "elem_base QueueFace = ''queue_face''"
| "elem_base TimingFaceIn = ''timing_face_in''"
| "elem_base Faceinfer = ''faceinfer''"
| "elem_base TimingFaceOut = ''timing_face_out''"
| "elem_base QueueVideo = ''queue_video''"
| "elem_base (Fakesink n) = ''fakesink'' @ dec_nat n"

section \<open>The graph under construction\<close>

datatype prop_value =
  PInt int | PBool bool | PStr string | PFloat cfloat | PNick string | PList "string list" | PCaps string

type_synonym pad = "elem \<times> string"

text \<open>The elements in the bin, the links from source pad to sink pad, and the properties set, in order.\<close>

record chain =
  ch_bin :: "elem list"
  ch_links :: "(pad \<times> pad) list"
  ch_props :: "(elem \<times> string \<times> prop_value) list"

definition chain_empty :: chain where
  "chain_empty = \<lparr>ch_bin = [], ch_links = [], ch_props = []\<rparr>"

text \<open>
  The answers: whether an element of a factory can be made under a name, added, and linked; whether a pad is there
  and two pads link; the nicks of an enum property, or the error text of looking it up; and whether caps can be made.
\<close>

record gst =
  ga_make :: "string \<Rightarrow> string \<Rightarrow> bool"
  ga_add :: "elem \<Rightarrow> bool"
  ga_link :: "elem \<Rightarrow> elem \<Rightarrow> bool"
  ga_pad :: "pad \<Rightarrow> bool"
  ga_pad_link :: "pad \<Rightarrow> pad \<Rightarrow> bool"
  ga_nicks :: "elem \<Rightarrow> string \<Rightarrow> string + string list"
  ga_caps :: "string \<Rightarrow> bool"

text \<open>A step of the building: the graph after it, and an error text or none.\<close>

type_synonym build_step = "chain \<Rightarrow> chain \<times> string option"

fun build_all :: "build_step list \<Rightarrow> build_step" where
  "build_all [] g = (g, None)"
| "build_all (f # fs) g = (case f g of (g, None) \<Rightarrow> build_all fs g | (g, Some e) \<Rightarrow> (g, Some e))"

section \<open>Helpers of the pipeline\<close>

definition MakeElementName :: "string \<Rightarrow> u32 \<Rightarrow> string" where
  "MakeElementName base ch = base @ ''_ch'' @ dec_nat (unat ch)"

definition make_error :: "string \<Rightarrow> string \<Rightarrow> string" where
  "make_error factory name = ''Failed to create element '' @ [CHR 0x27] @ factory @ [CHR 0x27] @ '' as '' @ [CHR 0x27] @ name @ [CHR 0x27]"

fun AddElements :: "gst \<Rightarrow> elem list \<Rightarrow> build_step" where
  "AddElements G [] g = (g, None)"
| "AddElements G (e # es) g =
     (if \<not> ga_add G e then (g, Some ''Failed to add element to pipeline bin'')
      else AddElements G es (g\<lparr>ch_bin := ch_bin g @ [e]\<rparr>))"

definition link_to :: "pad \<Rightarrow> pad \<Rightarrow> chain \<Rightarrow> chain" where
  "link_to a b g = g\<lparr>ch_links := ch_links g @ [(a, b)]\<rparr>"

fun link_from :: "gst \<Rightarrow> nat \<Rightarrow> elem list \<Rightarrow> build_step" where
  "link_from G i (a # b # es) g =
     (if \<not> ga_link G a b then
        (g, Some (''Failed to link element index '' @ dec_nat i @ '' to '' @ dec_nat (Suc i)))
      else link_from G (Suc i) (b # es) (link_to (a, ''src'') (b, ''sink'') g))"
| "link_from G i es g = (g, None)"

definition LinkElements :: "gst \<Rightarrow> elem list \<Rightarrow> build_step" where
  "LinkElements G es = link_from G 0 es"

text \<open>The same with an error text of the caller: \<open>gst_element_link\<close>, \<open>gst_element_link_many\<close>.\<close>

definition link_or :: "gst \<Rightarrow> string \<Rightarrow> elem list \<Rightarrow> build_step" where
  "link_or G err es g = (case LinkElements G es g of (g, None) \<Rightarrow> (g, None) | (g, Some _) \<Rightarrow> (g, Some err))"

definition link_pads :: "gst \<Rightarrow> string \<Rightarrow> pad \<Rightarrow> pad \<Rightarrow> build_step" where
  "link_pads G err a b g =
     (if \<not> ga_pad G a \<or> \<not> ga_pad G b \<or> \<not> ga_pad_link G a b then (g, Some err) else (link_to a b g, None))"

definition set_props :: "elem \<Rightarrow> (string \<times> prop_value) list \<Rightarrow> build_step" where
  "set_props e ps g = (g\<lparr>ch_props := ch_props g @ map (\<lambda>(p, v). (e, p, v)) ps\<rparr>, None)"

definition SetEnumPropertyByNick :: "gst \<Rightarrow> elem \<Rightarrow> string \<Rightarrow> string \<Rightarrow> build_step" where
  "SetEnumPropertyByNick G e p nick g =
     (case ga_nicks G e p of
        Inl err \<Rightarrow> (g, Some err)
      | Inr nicks \<Rightarrow>
          if nick \<in> set nicks then set_props e [(p, PNick nick)] g
          else (g, Some (''Enum nick not found for '' @ p @ '': '' @ nick)))"

definition set_caps :: "gst \<Rightarrow> string \<Rightarrow> elem \<Rightarrow> string \<Rightarrow> build_step" where
  "set_caps G err e caps g = (if \<not> ga_caps G caps then (g, Some err) else set_props e [(''caps'', PCaps caps)] g)"

section \<open>The engine of the converter\<close>

definition JoinStrings :: "string list \<Rightarrow> string \<Rightarrow> string" where
  "JoinStrings vs d = (case vs of [] \<Rightarrow> [] | v # vs \<Rightarrow> v @ concat (map (\<lambda>x. d @ x) vs))"

definition engine_candidates :: "string list \<Rightarrow> string list" where
  "engine_candidates order =
     (let cs = filter (\<lambda>n. n \<noteq> [] \<and> n \<noteq> ''gles'' \<and> n \<noteq> ''none'') order in if cs = [] then [''fcv'', ''ocv''] else cs)"

fun try_engines :: "gst \<Rightarrow> string list \<Rightarrow> string \<Rightarrow> build_step" where
  "try_engines G [] err g = (g, Some err)"
| "try_engines G (n # ns) err g =
     (case SetEnumPropertyByNick G Qtimlvconverter ''engine'' n g of
        (g, None) \<Rightarrow> (g, None)
      | (g, Some e) \<Rightarrow> try_engines G ns e g)"

definition SetMlConverterEngineWithFallback :: "gst \<Rightarrow> string list \<Rightarrow> build_step" where
  "SetMlConverterEngineWithFallback G order g =
     (case try_engines G (engine_candidates order) [] g of
        (g, None) \<Rightarrow> (g, None)
      | (g, Some err) \<Rightarrow>
          let skipped = filter (\<lambda>n. n = ''gles'' \<or> n = ''none'') order;
              available = (case ga_nicks G Qtimlvconverter ''engine'' of Inl _ \<Rightarrow> [] | Inr ns \<Rightarrow> filter (\<lambda>n. n \<noteq> []) ns)
          in (g, Some (''Failed to configure qtimlvconverter.engine for headless mode. Attempted=[''
               @ JoinStrings (engine_candidates order) '','' @ '']''
               @ (if skipped \<noteq> [] then '', skipped_by_policy=['' @ JoinStrings skipped '','' @ '']'' else [])
               @ (if available \<noteq> [] then '', available=['' @ JoinStrings available '','' @ '']'' else [])
               @ (if err \<noteq> [] then '', last_error='' @ err else [])
               @ ''. Headless policy forbids fallback to gles.'')))"

definition SetQnnTensors :: "string list \<Rightarrow> build_step" where
  "SetQnnTensors tensors g =
     (if tensors = [] then (g, None)
      else set_props Qtimlqnn [(''tensors'', PList (filter (\<lambda>t. t \<noteq> []) tensors))] g)"

text \<open>\<open>std::to_string\<close> of a double: six digits after the point.\<close>

fun fixed6 :: "cfloat \<Rightarrow> string" where
  "fixed6 (Fin q) =
     (let n = nat (round_even (\<bar>q\<bar> * 1000000))
      in (if q < 0 then ''-'' else []) @ dec_nat (n div 1000000) @ ''.'' @ pad_zero 6 (dec_nat (n mod 1000000)))"
| "fixed6 PInf = ''inf''"
| "fixed6 NInf = ''-inf''"
| "fixed6 NaN = ''nan''"

definition BuildPostprocessSettings :: "cfloat \<Rightarrow> string" where
  "BuildPostprocessSettings confidence = ''{\"confidence\":'' @ fixed6 confidence @ ''}''"


section \<open>The elements\<close>

definition marks :: "bool \<Rightarrow> elem list \<Rightarrow> (string \<times> elem) list" where
  "marks on bases = (if on then map (\<lambda>b. (''qtitimingmark'', b)) bases else [])"

definition measures :: "app_settings \<Rightarrow> bool" where
  "measures c = ls_enabled (as_latency c)"

definition caches :: "app_settings \<Rightarrow> bool" where
  "caches c = cs_enabled (as_cache c)"

definition merges :: "app_settings \<Rightarrow> bool" where
  "merges c = ms_enabled (as_msgagg c)"

text \<open>Factory and base of every element made, in the order of the calls.\<close>

definition wanted_elements :: "bool \<Rightarrow> bool \<Rightarrow> bool \<Rightarrow> bool \<Rightarrow> (string \<times> elem) list" where
  "wanted_elements m k a face =
     [(''filesrc'', Filesrc), (''qtdemux'', Qtdemux), (''h264parse'', H264parse)]
     @ marks m [TimingParseOut]
     @ [(''v4l2h264dec'', V4l2h264dec), (''capsfilter'', V4l2h264decCaps)]
     @ marks m [TimingDecOut]
     @ [(''tee'', TeeDecode), (''queue'', QueueDecode), (''qtimlvconverter'', Qtimlvconverter)]
     @ marks m [TimingYoloQnnIn] @ [(''qtimlqnn'', Qtimlqnn)]
     @ marks m [TimingYoloQnnOut] @ [(''qtimlpostprocess'', Qtimlpostprocess)]
     @ marks m [TimingYoloPostOut] @ [(''queue'', QueueTracker)]
     @ marks m [TimingTrackerIn] @ [(''qtiobjtracker'', Qtiobjtracker)]
     @ marks m [TimingTrackerOut]
     @ [(''queue'', QueueMeta), (''capsfilter'', TextCaps), (''qtimetamux'', Metamux), (''queue'', QueueDeduper),
        (''qtideduper'', Deduper), (''appsink'', AppsinkCombined)]
     @ (if k then
          [(''tee'', TeeDeduper), (''queue'', QueueFo), (''qtiframeoffload'', FrameOffload)]
          @ (if a then [(''queue'', QueueAgg)] else [(''fakesink'', FakesinkFo), (''queue'', QueueCombined)])
        else [])
     @ (if face then
          [(''queue'', QueueFace)] @ marks m [TimingFaceIn] @ [(''qtifaceinfer'', Faceinfer)]
          @ marks m [TimingFaceOut]
        else [(''queue'', QueueVideo)])"

text \<open>The stage of a mark, as the number the element is given.\<close>

definition mark_stage :: "elem \<Rightarrow> int" where
  "mark_stage base =
     (case map_of (zip [TimingParseOut, TimingDecOut, TimingYoloQnnIn, TimingYoloQnnOut,
        TimingYoloPostOut, TimingTrackerIn, TimingTrackerOut, TimingFaceIn, TimingFaceOut] [0..8]) base of
        Some i \<Rightarrow> i | None \<Rightarrow> 0)"

definition mark_props :: "app_settings \<Rightarrow> u32 \<Rightarrow> elem \<Rightarrow> (string \<times> prop_value) list" where
  "mark_props c ch base =
     [(''channel-id'', PInt (int (unat ch))), (''stage-id'', PInt (mark_stage base)),
      (''output-dir'', PStr (if ls_dir (as_latency c) = [] then as_log c else ls_dir (as_latency c))),
      (''sample-every-n'', PInt (int (unat (ls_every (as_latency c))))), (''flush-per-sample'', PBool (ls_flush (as_latency c)))]"

definition is_made :: "gst \<Rightarrow> u32 \<Rightarrow> string \<times> elem \<Rightarrow> bool" where
  "is_made G ch = (\<lambda>(factory, e). ga_make G factory (MakeElementName (elem_base e) ch))"

text \<open>The text of the last element that could not be made.\<close>

definition last_make_error :: "gst \<Rightarrow> u32 \<Rightarrow> (string \<times> elem) list \<Rightarrow> string" where
  "last_make_error G ch ws =
     (case rev (filter (\<lambda>w. \<not> is_made G ch w) ws) of [] \<Rightarrow> [] | (factory, e) # _ \<Rightarrow> make_error factory (MakeElementName (elem_base e) ch))"

definition create_elements :: "gst \<Rightarrow> app_settings \<Rightarrow> u32 \<Rightarrow> bool \<Rightarrow> build_step" where
  "create_elements G c ch face g =
     (let ws = wanted_elements (measures c) (caches c) (merges c) face;
          made_marks = filter (\<lambda>w. fst w = ''qtitimingmark'' \<and> is_made G ch w) ws;
          g = g\<lparr>ch_props := ch_props g @ concat (map (\<lambda>w. map (\<lambda>(p, v). (snd w, p, v)) (mark_props c ch (snd w))) made_marks)\<rparr>
      in if \<not> list_all (\<lambda>w. fst w = ''qtitimingmark'' \<longrightarrow> is_made G ch w) ws then
           (g, Some (''Failed to create required timing mark element: '' @ last_make_error G ch ws))
         else if \<not> list_all (is_made G ch) ws then (g, Some (''Failed to create required element: '' @ last_make_error G ch ws))
         else (g, None))"

definition base_elements :: "bool \<Rightarrow> elem list" where
  "base_elements m =
     [Filesrc, Qtdemux, H264parse, V4l2h264dec, V4l2h264decCaps, TeeDecode, QueueDecode,
      Qtimlvconverter, Qtimlqnn, Qtimlpostprocess, QueueTracker, Qtiobjtracker, QueueMeta, TextCaps,
      Metamux, QueueDeduper, Deduper, AppsinkCombined]
     @ map snd (marks (m) [TimingParseOut, TimingDecOut, TimingYoloQnnIn, TimingYoloQnnOut,
         TimingYoloPostOut, TimingTrackerIn, TimingTrackerOut])"

definition insert_at :: "nat \<Rightarrow> 'a \<Rightarrow> 'a list \<Rightarrow> 'a list" where
  "insert_at n x xs = take n xs @ x # drop n xs"

definition video_elements :: "bool \<Rightarrow> bool \<Rightarrow> elem list" where
  "video_elements m face =
     (if face then
        (let es = [QueueFace, Faceinfer]
         in if m then insert_at 1 TimingFaceIn es @ [TimingFaceOut] else es)
      else [QueueVideo])"

definition fo_tail :: "bool \<Rightarrow> elem" where
  "fo_tail a = (if a then QueueAgg else FakesinkFo)"

definition offload_elements :: "bool \<Rightarrow> bool \<Rightarrow> elem list" where
  "offload_elements k a =
     (if k then
        [TeeDeduper, QueueFo, FrameOffload, fo_tail a] @ (if a then [] else [QueueCombined])
      else [])"

section \<open>The links\<close>

definition decode_chain :: "bool \<Rightarrow> elem list" where
  "decode_chain m =
     (let es = [H264parse, V4l2h264dec, V4l2h264decCaps, TeeDecode]
      in if m then
           (let es = insert_at 1 TimingParseOut es in insert_at (length es - 1) TimingDecOut es)
         else es)"

definition yolo_chain :: "bool \<Rightarrow> elem list" where
  "yolo_chain m =
     (let es = [QueueDecode, Qtimlvconverter, Qtimlqnn, Qtimlpostprocess, QueueTracker, Qtiobjtracker,
                QueueMeta, TextCaps]
      in if m then
           (let es = insert_at 2 TimingYoloQnnIn es;
                es = insert_at 4 TimingYoloQnnOut es;
                es = insert_at 6 TimingYoloPostOut es;
                es = insert_at (length es - 3) TimingTrackerIn es
            in insert_at (length es - 2) TimingTrackerOut es)
         else es)"

definition link_video :: "gst \<Rightarrow> app_settings \<Rightarrow> bool \<Rightarrow> build_step" where
  "link_video G c face =
     (if face then
        (let es = [QueueFace, Faceinfer, Metamux];
             es = (if measures c then insert_at 1 TimingFaceIn es else es);
             es = (if measures c then insert_at (length es - 1) TimingFaceOut es else es)
         in link_or G ''Failed to link queue_face -> faceinfer -> metamux'' es)
      else link_or G ''Failed to link queue_video -> metamux'' [QueueVideo, Metamux])"

definition link_offload :: "gst \<Rightarrow> app_settings \<Rightarrow> build_step" where
  "link_offload G c =
     (if caches c then
        build_all
          ([link_or G ''Failed to link metamux->...->tee_deduper'' [Metamux, QueueDeduper, Deduper, TeeDeduper],
            link_pads G ''Failed to link tee_deduper -> queue_fo'' (TeeDeduper, ''src_%u'') (QueueFo, ''sink''),
            link_or G (if merges c then ''Failed to link queue_fo -> frame_offload -> queue_agg''
                       else ''Failed to link queue_fo -> frame_offload -> fakesink_fo'') [QueueFo, FrameOffload, fo_tail (merges c)]]
           @ (if merges c then []
              else [link_pads G ''Failed to link tee_deduper -> queue_combined'' (TeeDeduper, ''src_%u'') (QueueCombined, ''sink''),
                    link_or G ''Failed to link queue_combined -> appsink_combined'' [QueueCombined, AppsinkCombined]]))
      else link_or G ''Failed to link metamux -> queue_deduper -> deduper -> appsink_combined''
             [Metamux, QueueDeduper, Deduper, AppsinkCombined])"

section \<open>The properties\<close>

definition short_queue :: "int \<Rightarrow> (string \<times> prop_value) list" where
  "short_queue n = [(''max-size-buffers'', PInt n), (''leaky'', PInt 2), (''max-size-bytes'', PInt 0), (''max-size-time'', PInt 0)]"

definition set_up_offload :: "app_settings \<Rightarrow> u32 \<Rightarrow> bool \<Rightarrow> build_step" where
  "set_up_offload c ch face =
     (if \<not> caches c then build_all []
      else build_all
        ([set_props TeeDeduper [(''allow-not-linked'', PBool True)], set_props QueueFo (short_queue 2)]
         @ (if merges c then [] else [set_props QueueCombined (short_queue 2)])
         @ [set_props FrameOffload [(''channel-id'', PInt (int (unat ch)))]]
         @ (if merges c then
              [set_props FrameOffload [(''scene-update-mqtt'', PBool True), (''meta-width'', PInt (cs_width (as_cache c) mod 4294967296)),
                 (''meta-height'', PInt (cs_height (as_cache c) mod 4294967296))]]
              @ (if ms_dir (as_msgagg c) = [] then [] else [set_props FrameOffload [(''jsonl-out-dir'', PStr (ms_dir (as_msgagg c)))]])
              @ (if face then
                   [set_props FrameOffload [(''gallery-threshold'', PFloat (to_float (as_threshold c))),
                      (''gallery-min-face-size'', PInt (int (unat (as_min_face c)))), (''gallery-min-score'', PFloat (to_float (as_min_score c)))]]
                 else [])
              @ [set_props QueueAgg (short_queue 3)]
            else [set_props FakesinkFo [(''async'', PBool False), (''sync'', PBool False)]])))"

definition set_up_video :: "app_settings \<Rightarrow> bool \<Rightarrow> build_step" where
  "set_up_video c face =
     (if face then
        build_all
          [set_props QueueFace [(''leaky'', PInt 2), (''max-size-buffers'', PInt 2), (''max-size-bytes'', PInt 0), (''max-size-time'', PInt 0)],
           set_props Faceinfer [(''config-path'', PStr (as_face_config c)), (''face-interval-ms'', PInt (int (unat (as_interval c))))]]
      else build_all [])"

definition nv12_caps :: string where "nv12_caps = ''video/x-raw,format=NV12''"

definition text_caps_utf8 :: string where "text_caps_utf8 = ''text/x-raw,format=utf8''"

definition set_up_decoder :: "gst \<Rightarrow> string \<Rightarrow> build_step" where
  "set_up_decoder G video =
     build_all
       [set_props Filesrc [(''location'', PStr video)],
        SetEnumPropertyByNick G V4l2h264dec ''capture-io-mode'' ''dmabuf'',
        SetEnumPropertyByNick G V4l2h264dec ''output-io-mode'' ''dmabuf'',
        set_caps G ''Failed to create decode caps video/x-raw,format=NV12'' V4l2h264decCaps nv12_caps]"

definition set_up_tracker :: "gst \<Rightarrow> app_settings \<Rightarrow> build_step" where
  "set_up_tracker G c g =
     (case SetEnumPropertyByNick G Qtiobjtracker ''algo'' ''bytetrack'' g of
        (g, Some e) \<Rightarrow> (g, Some (''Failed to configure qtiobjtracker.algo: '' @ e))
      | (g, None) \<Rightarrow>
          if as_tracker c = [] then (g, None) else set_props Qtiobjtracker [(''parameters'', PStr (as_tracker c))] g)"

definition set_up_detection :: "gst \<Rightarrow> app_settings \<Rightarrow> build_step" where
  "set_up_detection G c =
     build_all
       [SetMlConverterEngineWithFallback G (as_engines c),
        set_props Qtimlqnn [(''model'', PStr (as_model c)), (''backend'', PStr (as_backend c)), (''system'', PStr (as_system c)),
          (''backend-device-id'', PInt (int (unat (as_device c))))],
        SetQnnTensors (as_tensors c),
        SetEnumPropertyByNick G Qtimlpostprocess ''module'' (as_postprocess c),
        set_up_tracker G c,
        set_props Qtimlpostprocess [(''labels'', PStr (as_labels c)), (''settings'', PStr (BuildPostprocessSettings (as_confidence c)))]]"

section \<open>The chain\<close>

definition chain_steps :: "gst \<Rightarrow> app_settings \<Rightarrow> u32 \<Rightarrow> string \<Rightarrow> build_step list" where
  "chain_steps G c ch video =
     (let face = face_on_channel c ch
      in [create_elements G c ch face,
          AddElements G (base_elements (measures c)), AddElements G (video_elements (measures c) face), AddElements G (offload_elements (caches c) (merges c)),
          link_or G ''Failed to link filesrc->qtdemux'' [Filesrc, Qtdemux],
          LinkElements G (decode_chain (measures c)),
          LinkElements G (yolo_chain (measures c)),
          link_pads G ''Failed to link tee_decode -> queue_decode'' (TeeDecode, ''src_%u'') (QueueDecode, ''sink''),
          link_pads G ''Failed to link tee_decode -> video branch'' (TeeDecode, ''src_%u'')
            (if face then QueueFace else QueueVideo, ''sink''),
          link_video G c face,
          link_pads G ''Failed to link text_capsfilter -> metamux data pad'' (TextCaps, ''src'') (Metamux, ''data_%u''),
          link_offload G c,
          set_up_offload c ch face,
          set_props QueueDeduper (short_queue 2),
          set_props TeeDecode [(''allow-not-linked'', PBool True)],
          set_up_video c face,
          set_props QueueDecode (short_queue 2),
          set_up_decoder G video,
          set_up_detection G c,
          set_caps G ''Failed to create text/x-raw,format=utf8 caps'' TextCaps text_caps_utf8,
          set_caps G ''Failed to create combined caps'' AppsinkCombined nv12_caps])"

text \<open>The graph, and an error text or the sink handed back.\<close>

definition BuildChain :: "gst \<Rightarrow> app_settings \<Rightarrow> u32 \<Rightarrow> string \<Rightarrow> chain \<Rightarrow> chain \<times> (string + elem)" where
  "BuildChain G c ch video g =
     (case build_all (chain_steps G c ch video) g of
        (g, Some e) \<Rightarrow> (g, Inl e)
      | (g, None) \<Rightarrow> (g, Inr AppsinkCombined))"

text \<open>A pad of the demuxer appears: its name, and the media types of its caps when it has any.\<close>

definition IsVideoH264Pad :: "string \<Rightarrow> string list \<Rightarrow> bool" where
  "IsVideoH264Pad name types = (take 5 name = ''video'' \<and> (types = [] \<or> ''video/x-h264'' \<in> set types))"

definition OnDemuxPadAdded :: "gst \<Rightarrow> nat \<Rightarrow> string \<Rightarrow> string list \<Rightarrow> chain \<Rightarrow> chain" where
  "OnDemuxPadAdded G n name types g =
     (if IsVideoH264Pad name types then
        (if \<not> ga_pad G (H264parse, ''sink'') \<or> (H264parse, ''sink'') \<in> set (map snd (ch_links g)) then g
         else if ga_pad_link G (Qtdemux, name) (H264parse, ''sink'') then link_to (Qtdemux, name) (H264parse, ''sink'') g
         else g)
      else
        (let sink = Fakesink n
         in if \<not> ga_make G ''fakesink'' (elem_base sink) then g
            else
              let g = g\<lparr>ch_bin := ch_bin g @ (if ga_add G sink then [sink] else []), ch_props := ch_props g @ [(sink, ''sync'', PBool False)]\<rparr>
              in if ga_pad G (sink, ''sink'') \<and> ga_pad_link G (Qtdemux, name) (sink, ''sink'')
                 then link_to (Qtdemux, name) (sink, ''sink'') g else g))"

section \<open>What is added and linked, step by step\<close>

text \<open>A step that adds the elements and the links of two lists in order, all of them unless it fails.\<close>

definition adds :: "build_step \<Rightarrow> elem list \<Rightarrow> (pad \<times> pad) list \<Rightarrow> bool" where
  "adds f bs ls =
     (\<forall>g g' e. f g = (g', e) \<longrightarrow>
        (\<exists>bs' ls'. ch_bin g' = ch_bin g @ bs' \<and> ch_links g' = ch_links g @ ls' \<and> prefix bs' bs \<and> prefix ls' ls
           \<and> (e = None \<longrightarrow> bs' = bs \<and> ls' = ls)))"

definition straight :: "elem list \<Rightarrow> (pad \<times> pad) list" where
  "straight es = map (\<lambda>(a, b). ((a, ''src''), (b, ''sink''))) (zip (butlast es) (tl es))"

lemma adds_nothing: "(\<And>g. ch_bin (fst (f g)) = ch_bin g \<and> ch_links (fst (f g)) = ch_links g) \<Longrightarrow> adds f [] []"
  by (auto simp: adds_def) (metis fst_conv)+

lemma adds_all_nil: "adds (build_all []) [] []"
  by (simp add: adds_def)

lemma adds_all_Cons:
  assumes "adds f [] ls1" "adds (build_all fs) [] ls2"
  shows "adds (build_all (f # fs)) [] (ls1 @ ls2)"
  unfolding adds_def
proof (intro allI impI)
  fix g g' e assume run: "build_all (f # fs) g = (g', e)"
  obtain g1 e1 where 1: "f g = (g1, e1)" by fastforce
  obtain ls' where a: "ch_bin g1 = ch_bin g" "ch_links g1 = ch_links g @ ls'" "prefix ls' ls1" "e1 = None \<longrightarrow> ls' = ls1"
    using assms(1) [unfolded adds_def, rule_format, OF 1] by auto
  show "\<exists>bs' ls'. ch_bin g' = ch_bin g @ bs' \<and> ch_links g' = ch_links g @ ls' \<and> prefix bs' [] \<and> prefix ls' (ls1 @ ls2)
      \<and> (e = None \<longrightarrow> bs' = [] \<and> ls' = ls1 @ ls2)"
  proof (cases e1)
    case None
    then have "build_all fs g1 = (g', e)" using run 1 by simp
    then obtain ls'' where "ch_bin g' = ch_bin g1" "ch_links g' = ch_links g1 @ ls''" "prefix ls'' ls2" "e = None \<longrightarrow> ls'' = ls2"
      using assms(2) [unfolded adds_def, rule_format, of g1 g' e] by auto
    then show ?thesis using a None by (intro exI [of _ "[]"] exI [of _ "ls1 @ ls''"]) simp
  next
    case (Some err)
    then show ?thesis using run 1 a by (intro exI [of _ "[]"] exI [of _ ls']) (auto simp: prefix_def)
  qed
qed

lemma adds_elements: "adds (AddElements G es) es []"
proof -
  have "AddElements G es g = (g', e) \<Longrightarrow>
      \<exists>bs'. ch_bin g' = ch_bin g @ bs' \<and> ch_links g' = ch_links g \<and> prefix bs' es \<and> (e = None \<longrightarrow> bs' = es)" for g g' e
    by (induction G es g rule: AddElements.induct) (fastforce split: if_splits)+
  then show ?thesis by (fastforce simp: adds_def)
qed

lemma adds_links: "adds (link_from G i es) [] (straight es)"
proof -
  have "link_from G i es g = (g', e) \<Longrightarrow>
      \<exists>ls'. ch_bin g' = ch_bin g \<and> ch_links g' = ch_links g @ ls' \<and> prefix ls' (straight es) \<and> (e = None \<longrightarrow> ls' = straight es)" for g g' e
    by (induction G i es g rule: link_from.induct) (fastforce simp: straight_def link_to_def split: if_splits)+
  then show ?thesis by (fastforce simp: adds_def)
qed


lemma adds_link_elements: "adds (LinkElements G es) [] (straight es)"
  using adds_links by (simp add: LinkElements_def [abs_def])

lemma adds_cong: "adds f bs ls \<Longrightarrow> (\<And>g. fst (h g) = fst (f g) \<and> (snd (h g) = None \<longleftrightarrow> snd (f g) = None)) \<Longrightarrow> adds h bs ls"
  unfolding adds_def by (metis fst_conv snd_conv prod.collapse)

lemma adds_link_or: "adds (link_or G err es) [] (straight es)"
  by (rule adds_cong [OF adds_link_elements [of G es]]) (auto simp: link_or_def split: prod.split option.split)

lemma adds_pads: "adds (link_pads G err a b) [] [(a, b)]"
  by (fastforce simp: adds_def link_pads_def link_to_def)

lemma adds_props: "adds (set_props e ps) [] []"
  by (rule adds_nothing) (simp add: set_props_def)

lemma adds_enum: "adds (SetEnumPropertyByNick G e p nick) [] []"
  by (rule adds_nothing) (simp add: SetEnumPropertyByNick_def set_props_def split: sum.split)

lemma adds_caps: "adds (set_caps G err e caps) [] []"
  by (rule adds_nothing) (simp add: set_caps_def set_props_def)

lemma keeps_of_adds: "adds f [] [] \<Longrightarrow> ch_bin (fst (f g)) = ch_bin g \<and> ch_links (fst (f g)) = ch_links g"
  unfolding adds_def by (cases "f g") fastforce

lemma try_engines_keeps:
  "ch_bin (fst (try_engines G ns err g)) = ch_bin g \<and> ch_links (fst (try_engines G ns err g)) = ch_links g"
proof (induction ns arbitrary: err g)
  case (Cons n ns)
  then show ?case
    using keeps_of_adds [OF adds_enum, of G "Qtimlvconverter" "''engine''" n g]
    by (cases "SetEnumPropertyByNick G Qtimlvconverter ''engine'' n g") (simp split: option.split)
qed simp

lemma adds_engine: "adds (SetMlConverterEngineWithFallback G order) [] []"
proof (rule adds_nothing)
  fix g
  show "ch_bin (fst (SetMlConverterEngineWithFallback G order g)) = ch_bin g
      \<and> ch_links (fst (SetMlConverterEngineWithFallback G order g)) = ch_links g"
    using try_engines_keeps [of G "engine_candidates order" "[]" g]
    by (cases "try_engines G (engine_candidates order) [] g")
      (simp add: SetMlConverterEngineWithFallback_def Let_def split: option.split)
qed

lemma adds_tensors: "adds (SetQnnTensors ts) [] []"
  by (rule adds_nothing) (simp add: SetQnnTensors_def set_props_def)

lemma adds_tracker: "adds (set_up_tracker G c) [] []"
proof (rule adds_nothing)
  fix g
  show "ch_bin (fst (set_up_tracker G c g)) = ch_bin g \<and> ch_links (fst (set_up_tracker G c g)) = ch_links g"
    using keeps_of_adds [OF adds_enum, of G "Qtiobjtracker" "''algo''" "''bytetrack''" g]
    by (cases "SetEnumPropertyByNick G Qtiobjtracker ''algo'' ''bytetrack'' g")
      (simp add: set_up_tracker_def set_props_def split: option.split)
qed

lemma adds_create: "adds (create_elements G c ch face) [] []"
  by (rule adds_nothing) (simp add: create_elements_def Let_def)

named_theorems sets_only \<open>steps that add no element and no link\<close>

declare adds_props [sets_only] adds_enum [sets_only] adds_caps [sets_only] adds_engine [sets_only] adds_tensors [sets_only]
  adds_tracker [sets_only]

lemma adds_all_keep: "list_all (\<lambda>f. adds f [] []) fs \<Longrightarrow> adds (build_all fs) [] []"
proof (induction fs)
  case (Cons f fs)
  then show ?case using adds_all_Cons [of f "[]" fs "[]"] by (simp del: build_all.simps)
qed (simp add: adds_all_nil del: build_all.simps)

lemma adds_set_up:
  "adds (set_up_offload c ch face) [] []" "adds (set_up_video c face) [] []" "adds (set_up_decoder G video) [] []"
  "adds (set_up_detection G c) [] []"
  unfolding set_up_offload_def set_up_video_def set_up_decoder_def set_up_detection_def
  by (auto intro!: adds_all_keep simp: sets_only)

text \<open>The elements and the links of a finished chain.\<close>

definition all_elements :: "bool \<Rightarrow> bool \<Rightarrow> bool \<Rightarrow> bool \<Rightarrow> elem list" where
  "all_elements m k a face = base_elements m @ video_elements m face @ offload_elements k a"

definition all_links :: "bool \<Rightarrow> bool \<Rightarrow> bool \<Rightarrow> bool \<Rightarrow> (pad \<times> pad) list" where
  "all_links m k a face =
     straight [Filesrc, Qtdemux] @ straight (decode_chain m) @ straight (yolo_chain m)
     @ [((TeeDecode, ''src_%u''), (QueueDecode, ''sink'')),
        ((TeeDecode, ''src_%u''), (if face then QueueFace else QueueVideo, ''sink''))]
     @ straight (if face then [QueueFace] @ map snd (marks (m) [TimingFaceIn]) @ [Faceinfer]
          @ map snd (marks (m) [TimingFaceOut]) @ [Metamux] else [QueueVideo, Metamux])
     @ [((TextCaps, ''src''), (Metamux, ''data_%u''))]
     @ (if k then
          straight [Metamux, QueueDeduper, Deduper, TeeDeduper]
          @ [((TeeDeduper, ''src_%u''), (QueueFo, ''sink''))] @ straight [QueueFo, FrameOffload, fo_tail a]
          @ (if a then [] else ((TeeDeduper, ''src_%u''), (QueueCombined, ''sink'')) # straight [QueueCombined, AppsinkCombined])
        else straight [Metamux, QueueDeduper, Deduper, AppsinkCombined])"


lemma video_straight:
  "adds (link_video G c face) [] (straight (if face then [QueueFace] @ map snd (marks (measures c) [TimingFaceIn]) @ [Faceinfer]
     @ map snd (marks (measures c) [TimingFaceOut]) @ [Metamux] else [QueueVideo, Metamux]))"
  by (cases "measures c") (simp_all add: link_video_def marks_def insert_at_def Let_def adds_link_or)

lemma offload_straight:
  "adds (link_offload G c) []
    (if caches c then
       straight [Metamux, QueueDeduper, Deduper, TeeDeduper]
       @ [((TeeDeduper, ''src_%u''), (QueueFo, ''sink''))] @ straight [QueueFo, FrameOffload, fo_tail (merges c)]
       @ (if merges c then [] else ((TeeDeduper, ''src_%u''), (QueueCombined, ''sink'')) # straight [QueueCombined, AppsinkCombined])
     else straight [Metamux, QueueDeduper, Deduper, AppsinkCombined])"
proof -
  have last: "adds (build_all (if merges c then [] else
      [link_pads G ''Failed to link tee_deduper -> queue_combined'' (TeeDeduper, ''src_%u'') (QueueCombined, ''sink''),
       link_or G ''Failed to link queue_combined -> appsink_combined'' [QueueCombined, AppsinkCombined]])) []
      (if merges c then [] else ((TeeDeduper, ''src_%u''), (QueueCombined, ''sink'')) # straight [QueueCombined, AppsinkCombined])"
    using adds_all_Cons [OF adds_pads adds_all_Cons [OF adds_link_or adds_all_nil]] adds_all_nil
    by (simp del: build_all.simps)
  show ?thesis
  proof (cases "caches c")
    case True
    show ?thesis
      using adds_all_Cons [OF adds_link_or adds_all_Cons [OF adds_pads adds_all_Cons [OF adds_link_or last]]] True
      by (simp add: link_offload_def del: build_all.simps)
  qed (simp add: link_offload_def adds_link_or)
qed

text \<open>The elements come first, then the links, then what only sets properties.\<close>

lemma linking_adds:
  assumes "face = face_on_channel c ch"
  shows "adds (build_all (drop 4 (chain_steps G c ch video))) [] (all_links (measures c) (caches c) (merges c) face)"
proof -
  have quiet: "adds (build_all [set_up_offload c ch face, set_props QueueDeduper (short_queue 2),
      set_props TeeDecode [(''allow-not-linked'', PBool True)], set_up_video c face,
      set_props QueueDecode (short_queue 2), set_up_decoder G video, set_up_detection G c,
      set_caps G ''Failed to create text/x-raw,format=utf8 caps'' TextCaps text_caps_utf8,
      set_caps G ''Failed to create combined caps'' AppsinkCombined nv12_caps]) [] []"
    by (rule adds_all_keep) (simp add: adds_set_up sets_only)
  note tail = adds_all_Cons [OF adds_pads adds_all_Cons [OF offload_straight quiet]]
  note video = adds_all_Cons [OF adds_pads adds_all_Cons [OF video_straight tail]]
  note head = adds_all_Cons [OF adds_link_or adds_all_Cons [OF adds_link_elements adds_all_Cons [OF adds_link_elements
      adds_all_Cons [OF adds_pads video]]]]
  show ?thesis
    using head unfolding assms by (simp add: chain_steps_def all_links_def Let_def del: build_all.simps)
qed


lemma adds_elements_Cons:
  assumes "adds f bs1 []" "adds (build_all fs) bs2 []"
  shows "adds (build_all (f # fs)) (bs1 @ bs2) []"
  unfolding adds_def
proof (intro allI impI)
  fix g g' e assume run: "build_all (f # fs) g = (g', e)"
  obtain g1 e1 where 1: "f g = (g1, e1)" by fastforce
  obtain bs' where a: "ch_links g1 = ch_links g" "ch_bin g1 = ch_bin g @ bs'" "prefix bs' bs1" "e1 = None \<longrightarrow> bs' = bs1"
    using assms(1) [unfolded adds_def, rule_format, OF 1] by auto
  show "\<exists>bs' ls'. ch_bin g' = ch_bin g @ bs' \<and> ch_links g' = ch_links g @ ls' \<and> prefix bs' (bs1 @ bs2) \<and> prefix ls' []
      \<and> (e = None \<longrightarrow> bs' = bs1 @ bs2 \<and> ls' = [])"
  proof (cases e1)
    case None
    then have "build_all fs g1 = (g', e)" using run 1 by simp
    then obtain bs'' where "ch_links g' = ch_links g1" "ch_bin g' = ch_bin g1 @ bs''" "prefix bs'' bs2" "e = None \<longrightarrow> bs'' = bs2"
      using assms(2) [unfolded adds_def, rule_format, of g1 g' e] by auto
    then show ?thesis using a None by (intro exI [of _ "bs1 @ bs''"] exI [of _ "[]"]) simp
  next
    case (Some err)
    then show ?thesis using run 1 a by (intro exI [of _ bs'] exI [of _ "[]"]) (auto simp: prefix_def)
  qed
qed

lemma adding_adds:
  assumes "face = face_on_channel c ch"
  shows "adds (build_all (take 4 (chain_steps G c ch video))) (all_elements (measures c) (caches c) (merges c) face) []"
  using adds_elements_Cons [OF adds_create adds_elements_Cons [OF adds_elements adds_elements_Cons [OF adds_elements
      adds_elements_Cons [OF adds_elements adds_all_nil]]]]
  unfolding assms by (simp add: chain_steps_def all_elements_def Let_def del: build_all.simps)

lemma build_all_append:
  "build_all (fs @ hs) g = (case build_all fs g of (g, None) \<Rightarrow> build_all hs g | (g, Some e) \<Rightarrow> (g, Some e))"
  by (induction fs arbitrary: g) (auto split: prod.split option.split)

text \<open>
  What a building leaves behind: a front part of the elements, and links only when every element is there; all of
  both when it goes well.
\<close>

lemma built_parts:
  assumes "BuildChain G c ch video chain_empty = (g, r)" "face = face_on_channel c ch"
  shows "prefix (ch_bin g) (all_elements (measures c) (caches c) (merges c) face) \<and> prefix (ch_links g) (all_links (measures c) (caches c) (merges c) face)
    \<and> (ch_links g = [] \<or> ch_bin g = all_elements (measures c) (caches c) (merges c) face)
    \<and> (case r of Inl _ \<Rightarrow> True | Inr s \<Rightarrow> s = AppsinkCombined \<and> ch_bin g = all_elements (measures c) (caches c) (merges c) face \<and> ch_links g = all_links (measures c) (caches c) (merges c) face)"
proof -
  let ?fs = "take 4 (chain_steps G c ch video)" let ?hs = "drop 4 (chain_steps G c ch video)"
  obtain g1 e1 where 1: "build_all ?fs chain_empty = (g1, e1)" by fastforce
  have a: "ch_links g1 = []" "prefix (ch_bin g1) (all_elements (measures c) (caches c) (merges c) face)" "e1 = None \<longrightarrow> ch_bin g1 = all_elements (measures c) (caches c) (merges c) face"
    using adding_adds [OF assms(2), unfolded adds_def, rule_format, OF 1] by (auto simp: chain_empty_def)
  have run: "build_all (chain_steps G c ch video) chain_empty = (case (g1, e1) of (g, None) \<Rightarrow> build_all ?hs g | (g, Some e) \<Rightarrow> (g, Some e))"
    using build_all_append [of ?fs ?hs chain_empty] 1 by simp
  show ?thesis
  proof (cases e1)
    case None
    obtain g2 e2 where 2: "build_all ?hs g1 = (g2, e2)" by fastforce
    have b: "ch_bin g2 = ch_bin g1" "prefix (ch_links g2) (all_links (measures c) (caches c) (merges c) face)" "e2 = None \<longrightarrow> ch_links g2 = all_links (measures c) (caches c) (merges c) face"
      using linking_adds [OF assms(2), unfolded adds_def, rule_format, OF 2] a(1) by auto
    show ?thesis using assms(1) run None 2 a b by (cases e2) (auto simp: BuildChain_def)
  next
    case (Some err)
    then show ?thesis using assms(1) run a by (auto simp: BuildChain_def)
  qed
qed

text \<open>The finished chains, of all sixteen kinds.\<close>

lemma all_flags:
  "list_all (\<lambda>m. list_all (\<lambda>k. list_all (\<lambda>a. list_all (P m k a) [False, True]) [False, True]) [False, True]) [False, True]
     \<Longrightarrow> P m k a face"
  by (cases m; cases k; cases a; cases face) simp_all

text \<open>An element of the bin that no link feeds.\<close>

definition unfed :: "chain \<Rightarrow> elem list" where
  "unfed g = filter (\<lambda>e. \<not> List.member (map (\<lambda>l. fst (snd l)) (ch_links g)) e) (ch_bin g)"

definition finished :: "bool \<Rightarrow> bool \<Rightarrow> bool \<Rightarrow> bool \<Rightarrow> bool" where
  "finished m k a face =
     (let es = all_elements m k a face; ls = all_links m k a face; ws = wanted_elements m k a face
      in distinct es \<and> distinct (map snd ls) \<and> list_all (\<lambda>(x, y). List.member es (fst x) \<and> List.member es (fst y)) ls
         \<and> list_all (List.member (map snd ws)) es \<and> list_all (\<lambda>w. List.member es (snd w)) ws
         \<and> unfed \<lparr>ch_bin = es, ch_links = ls, ch_props = []\<rparr> = [Filesrc, H264parse] @ (if k \<and> a then [AppsinkCombined] else []))"

lemma all_finished: "finished m k a face"
  by (rule all_flags [where P = finished]) code_simp

text \<open>What holds of a graph whether its building has gone well or not.\<close>

definition well_linked :: "chain \<Rightarrow> bool" where
  "well_linked g =
     (distinct (ch_bin g) \<and> distinct (map snd (ch_links g))
      \<and> list_all (\<lambda>(x, y). List.member (ch_bin g) (fst x) \<and> List.member (ch_bin g) (fst y)) (ch_links g))"

lemma prefix_distinct: "prefix xs ys \<Longrightarrow> distinct ys \<Longrightarrow> distinct xs"
  by (auto simp: prefix_def)

lemma prefix_list_all: "prefix xs ys \<Longrightarrow> list_all P ys \<Longrightarrow> list_all P xs"
  by (auto simp: prefix_def)

lemma built_well_linked:
  assumes "BuildChain G c ch video chain_empty = (g, r)"
  shows "well_linked g"
proof -
  define face where "face = face_on_channel c ch"
  note p = built_parts [OF assms face_def]
  note f = all_finished [of "measures c" "caches c" "merges c" face, unfolded finished_def Let_def]
  have "distinct (ch_bin g)" "distinct (map snd (ch_links g))"
    using p f by (auto intro: prefix_distinct map_mono_prefix)
  moreover have "list_all (\<lambda>(x, y). List.member (ch_bin g) (fst x) \<and> List.member (ch_bin g) (fst y)) (ch_links g)"
  proof (cases "ch_links g = []")
    case False
    then have "ch_bin g = all_elements (measures c) (caches c) (merges c) face" using p by blast
    then show ?thesis using p f by (auto intro: prefix_list_all)
  qed simp
  ultimately show ?thesis by (simp add: well_linked_def)
qed

section \<open>What the program promises\<close>

text \<open>
  C40: The chain of a channel is well formed, whatever GStreamer answers at any of its calls and for every
  configuration. No element is added twice, no sink pad is linked twice, and links are only made between elements
  of the bin. When the building goes well, the sink handed back is in the bin, every element
  made for the configuration has been added, and every element is fed by a link but the file source, the parser
  (which the demuxer's video pad is linked to when it appears) and, with both the cache and the merging element
  enabled, the sink handed back.
\<close>

theorem chain_well_formed:
  "case BuildChain G c ch video chain_empty of (g, r) \<Rightarrow>
     well_linked g \<and>
     (case r of
          Inl e \<Rightarrow> True
        | Inr s \<Rightarrow>
            s = AppsinkCombined \<and> set (ch_bin g) = snd ` set (wanted_elements (measures c) (caches c) (merges c) (face_on_channel c ch))
            \<and> unfed g = [Filesrc, H264parse] @ (if caches c \<and> merges c then [AppsinkCombined] else []))"
proof -
  obtain g r where 1: "BuildChain G c ch video chain_empty = (g, r)" by fastforce
  note p = built_parts [OF 1 refl]
  note f = all_finished [of "measures c" "caches c" "merges c" "face_on_channel c ch", unfolded finished_def Let_def]
  have "set (ch_bin g) = snd ` set (wanted_elements (measures c) (caches c) (merges c) (face_on_channel c ch))"
    if "ch_bin g = all_elements (measures c) (caches c) (merges c) (face_on_channel c ch)"
    using f that by (auto simp: list_all_iff)
  then show ?thesis
    using 1 p f built_well_linked [OF 1] by (cases r) (auto simp: unfed_def)
qed


text \<open>GStreamer with every factory and every nick: the building goes well for every configuration.\<close>

definition willing :: "app_settings \<Rightarrow> gst" where
  "willing c =
     \<lparr>ga_make = (\<lambda>_ _. True), ga_add = (\<lambda>_. True), ga_link = (\<lambda>_ _. True), ga_pad = (\<lambda>_. True), ga_pad_link = (\<lambda>_ _. True),
      ga_nicks = (\<lambda>_ _. Inr ([''dmabuf'', ''bytetrack'', as_postprocess c] @ engine_candidates (as_engines c))), ga_caps = (\<lambda>_. True)\<rparr>"

lemma willing_links [simp]: "snd (link_from (willing c) i es g) = None"
  by (induction "willing c" i es g rule: link_from.induct) (simp_all add: willing_def)

lemma willing_adds [simp]: "snd (AddElements (willing c) es g) = None"
  by (induction "willing c" es g rule: AddElements.induct) (simp_all add: willing_def)

lemma build_all_none:
  "list_all (\<lambda>f. \<forall>g. snd (f g) = None) fs \<Longrightarrow> snd (build_all fs g) = None"
proof (induction fs arbitrary: g)
  case (Cons f fs)
  then show ?case by (cases "f g") (auto simp: list_all_iff dest!: spec [of _ g])
qed simp

lemma candidates_nonempty: "engine_candidates order \<noteq> []"
  by (simp add: engine_candidates_def Let_def)

lemma willing_engine: "snd (SetMlConverterEngineWithFallback (willing c) (as_engines c) g) = None"
proof -
  obtain n ns where "engine_candidates (as_engines c) = n # ns" using candidates_nonempty by (metis list.exhaust)
  then show ?thesis by (simp add: SetMlConverterEngineWithFallback_def SetEnumPropertyByNick_def willing_def set_props_def)
qed

lemma willing_nick [simp]:
  "nick \<in> {''dmabuf'', ''bytetrack'', as_postprocess c} \<Longrightarrow> snd (SetEnumPropertyByNick (willing c) e p nick g) = None"
  by (auto simp: SetEnumPropertyByNick_def willing_def set_props_def)

lemma willing_rest [simp]:
  "snd (link_or (willing c) err es g) = None" "snd (LinkElements (willing c) es g) = None"
  "snd (link_pads (willing c) err a b g) = None" "snd (set_props e ps g) = None" "snd (set_caps (willing c) err e caps g) = None"
  "snd (SetQnnTensors ts g) = None" "snd (create_elements (willing c) c' ch face g) = None"
  using willing_links [of c 0 es g]
  by (auto simp: link_or_def LinkElements_def link_pads_def set_props_def set_caps_def SetQnnTensors_def create_elements_def is_made_def
      Let_def list_all_iff willing_def split: prod.split option.split)

lemma willing_tracker [simp]: "snd (set_up_tracker (willing c) c' g) = None"
  by (simp add: set_up_tracker_def SetEnumPropertyByNick_def set_props_def willing_def)

lemma willing_chain: "snd (BuildChain (willing c) c ch video chain_empty) = Inr AppsinkCombined"
proof -
  have "snd (build_all (chain_steps (willing c) c ch video) chain_empty) = None"
    by (rule build_all_none)
      (simp add: chain_steps_def Let_def link_video_def link_offload_def set_up_offload_def set_up_video_def set_up_decoder_def
        set_up_detection_def build_all_none willing_engine del: build_all.simps)
  then show ?thesis by (cases "build_all (chain_steps (willing c) c ch video) chain_empty") (simp add: BuildChain_def)
qed

text \<open>The parser is linked to one pad of the demuxer at most, however many appear.\<close>

lemma parser_linked_once:
  assumes "IsVideoH264Pad name types" "distinct (map snd (ch_links g))"
  shows "distinct (map snd (ch_links (OnDemuxPadAdded G n name types g)))"
  using assms by (auto simp: OnDemuxPadAdded_def link_to_def Let_def)

end
