(* ===== verification/Spec2Isabelle.thy ===== *)
theory Spec2Isabelle
  imports FrameProtocol Uds RuleCore ConsumerDemo FrameCache AppSettings MqttLink FaceElement Aggregator TimingMark ChannelWorker RuleMain App VegServer InferChain
begin

text \<open>
  Verification library for the multi-camera perception and alert pipeline.

  THE PROGRAM. Four processes. The camera process (\<open>multi_cam_app\<close>) runs one chain of GStreamer
  elements per camera in one pipeline; each channel detects and tracks objects, finds and identifies faces,
  drops unchanged frames, turns the detections of a frame into a record and hands the frame to a cache;
  the records are written per channel, or merged over the channels into scene updates and sent over MQTT. The rule
  process (\<open>vlm_pipeline/rule_process\<close>) reads the scene updates, runs the rules and, for a source with an alert,
  relays the slot of the cached frame to the third process, the consumer (\<open>vlm_pipeline/dmabuf_consumer\<close>), which
  maps the frame without a copy, asks a vision-language server about it and gives the slot back. The
  fourth, the vision server (\<open>qwen3_vl\<close> over \<open>qwen3vit\<close>), turns a picture into embeddings. Frames travel in the
  slots of one shared DMA buffer, so that the correctness of the whole turns on the ownership of slots: a
  slot is free, being written, or in flight, and it must come back.

  THE THEORIES, and the code they model.
  \<^item> \<open>Prelude\<close>, \<open>Strings\<close>, \<open>OrdMap\<close>, \<open>CFloat\<close>: machine integers and their printing, string search
    and replacement, \<open>std::map\<close> as a sorted association list, binary32 and binary64 as the
    rounding of a rational result. The interfaces several components use are locales of
    these theories.
  \<^item> \<open>Packets\<close> (\<open>dmabuf_producer/types.h\<close>): the wire structures with their byte images.
    \<open>SlotPool\<close> (\<open>slot_pool.cpp\<close>): free list, slot states, windows; refines the ownership
    specification. \<open>Nv12\<close> (\<open>nv12_to_rgb.cpp\<close>): the colour conversion of a frame into a slot.
    \<open>Producer\<close> (\<open>ipc_sender.cpp\<close>, \<open>producer.cpp\<close>) and \<open>Consumer\<close> (\<open>ipc_receiver.cpp\<close>,
    \<open>consumer.cpp\<close>): the two ends of the socket, with every failure path.
    \<open>FrameProtocol\<close>: the interleaving of both ends over the pool, as a step relation.
    \<open>FrameCache\<close> (\<open>frame_cache_service.cpp\<close>): the service that owns the producer.
  \<^item> \<open>Deduper\<close> (\<open>Deduper.cpp\<close>, \<open>gstdeduper.cpp\<close>): the element that drops unchanged frames.
    \<open>JsonlWriter\<close> (\<open>JsonlWriter.cpp\<close>): the records and their JSON text. \<open>FaceGallery\<close>
    (\<open>FaceGallery.cpp\<close>): enrolled faces and their file. \<open>FrameOffload\<close> (\<open>FrameOffload.cpp\<close>,
    \<open>gstframeoffload.cpp\<close>): from a frame with detections to a record and a slot. \<open>MsgAgg\<close>
    (\<open>gstmsgagg.cpp\<close>): the merging element, its pads, its worker and both batch modes.
    \<open>Aggregator\<close> (\<open>Aggregator.cpp\<close>): the queue of records with its producers and its consumer thread, as runs over
    every interleaving.
  \<^item> \<open>FaceDecode\<close> (\<open>ScrfdDecode.cpp\<close>, \<open>inverse_affine.hpp\<close>): candidates, suppression, alignment. \<open>FaceInfer\<close>
    (\<open>FaceProcessor.cpp\<close>, \<open>FaceConfigLoader.hpp\<close>, \<open>ArcFaceInfer.cpp\<close>): the two networks and what they own.
    \<open>FaceElement\<close> (\<open>gstfaceinfer.cpp\<close>): the element around them.
  \<^item> \<open>Latency\<close> (\<open>LatencyRecorder.cpp\<close>) and \<open>TimingMark\<close> (\<open>TimingMarkRuntime.cpp\<close>, \<open>gsttimingmark.cpp\<close>): the
    latencies of the stages, the shared runtime and its worker thread.
  \<^item> \<open>AppSettings\<close> (\<open>ConfigLoader.cpp\<close>): the configuration, its checks and defaults. \<open>MqttLink\<close> (\<open>utils/mqtt\<close>): client,
    publisher and subscriber over the vendor's handles. \<open>ChannelWorker\<close> (\<open>ChannelWorker.cpp\<close>): labels, samples, faces of
    persons, start and stop of a channel. \<open>InferChain\<close> (\<open>DetectionInferModule.cpp\<close>, \<open>PipelineUtils.cpp\<close>): the graph of
    elements of a channel. \<open>App\<close> (\<open>MultiCamApp.cpp\<close>, \<open>main.cpp\<close>): the process, stage by stage, over the models of its parts.
  \<^item> \<open>Geometry\<close> (\<open>MathUtils.h\<close>), \<open>Rules\<close> (\<open>rules/*.cpp\<close>, \<open>FaceDatabase.cpp\<close>), \<open>RuleCore\<close>
    (\<open>Registry\<close>, \<open>Dispatcher\<close>, \<open>AlertManager\<close>, \<open>RuleEngine\<close>), \<open>Scene\<close> (\<open>event_adapter.cpp\<close> and
    the configuration), \<open>Uds\<close> (\<open>channel_protocol.hpp\<close>), \<open>Relay\<close> and \<open>RuleMain\<close> (\<open>main.cpp\<close>, \<open>src/mqtt\<close>): the rule
    process, from a payload to the slots it relays or releases, and from its start to its exit.
    \<open>SceneWire\<close> joins the two ends: records, merged batch, scene updates.
  \<^item> \<open>ThreadPool\<close> (\<open>thread_pool.cpp\<close>), \<open>Prompt\<close>, \<open>VlmTask\<close> (\<open>jpeg_encoder.cpp\<close>, \<open>vlm_client.cpp\<close>,
    \<open>jsonl_logger.cpp\<close>), \<open>ConsumerDemo\<close> (\<open>consumer_demo.cpp\<close>): the consumer.
  \<^item> \<open>VitPreprocess\<close> (\<open>qwen_vl_preprocessor.cpp\<close>): size, normalisation, patches and position embeddings of a picture.
    \<open>VegTensor\<close> and \<open>VegServer\<close> (\<open>veg_server_combined.cpp\<close>): numbers, tensors and the blocks they own; loading,
    requests, main loop and way down of the vision server.

  HOW IT IS MODELLED. A class is a record, a method a function from the state (and the answers
  of what it calls) to a new state and a result; every early return is a branch. Critical
  sections of a mutex are atomic operations, and concurrent code is a step relation or a run over
  a list of labels in any order. Integers keep their width where wrap-around matters. Floats
  are rounded after every operation to nearest even, without fused multiply-add, and both
  zeros are one value; where bit patterns matter they are words. \<open>int\<close> arithmetic that would be undefined on
  overflow is done in \<open>int\<close>. Ownership is counted: what a component takes of the heap, the system or a library is a
  number or a list in its world, and the properties compare it before and after.

  PARAMETERS. The operating system (open, ioctl, mmap, socket calls, loader, clocks, file contents),
  GStreamer's elements, buffers and metadata, the JSON libraries and their accessors, libcurl, libjpeg-turbo, the MQTT
  client and its return codes, the neural networks and the vendor's runtime, the OpenCL kernels, the image library,
  the concurrent queue, \<open>std::sort\<close>, \<open>expf\<close>, \<open>pow\<close>, \<open>cos\<close> and \<open>sin\<close> are arguments of the definitions; what the code
  relies on is a hypothesis or a locale assumption.

  BOUNDS AND FUEL. Loops that consume an input list are structural or have a measure; loops over
  retried system calls run over the list of answers; loops that may not end (the
  prompt substitution, the leading bit of a half) are \<open>partial_function (option)\<close>, and what is claimed of them says
  when they return. What never ends is stated for every number of turns.

  NOT MODELLED.
  \<^item> Vendored and generated code: \<open>stb_image.h\<close>, \<open>stb_image_resize2.h\<close>, \<open>concurrentqueue\<close>, the headers of the QNN SDK,
    the table of position embeddings (\<open>qwen_vl_rope_tables.h\<close>, data only).
  \<^item> Code that only drives hardware through a vendor's interface, whose effect is what the interface does: the OpenCL
    preprocessing (\<open>FacePreprocess.cpp\<close>, \<open>qwen_vl_opencl_accelerator.cpp\<close>, the kernels) and the
    allocation of DMA buffers for it (\<open>mem_management\<close>), the two copies of \<open>QnnInferencer.cpp\<close>.
  \<^item> \<open>veg_combined_runner.cpp\<close> (two copies): the command line twin of the vision server; the conversions, tensors and
    loading it repeats are those of \<open>VegTensor\<close> and \<open>VegServer\<close>.
  \<^item> Older copies: \<open>config/DetectionInferModule.cpp\<close> repeats the one of the channel worker but for the merging branch.
  \<^item> Tests, the single-pipeline test program, scripts, profiles and data.
\<close>

end
